(* ===== verification/Prelude.thy ===== *)
theory Prelude
  imports "HOL-Library.Word" "HOL-Library.Multiset"
begin

text \<open>
  The vocabulary the whole development shares: the machine integer types of the C code, byte
  order conversions, copies into a fixed buffer, the cutting of a byte string into blocks, and
  the algebra of XOR folds.  The checksum of the benchmark is a fold of XOR over digest words, so
  that every theorem about threads, lanes, streams, work-items or passes comes down to the
  lemmas on \<open>xor_list\<close> and \<open>xor_digests\<close> at the end of this theory.
\<close>

unbundle bit_operations_syntax

type_synonym u8 = "8 word"
type_synonym u32 = "32 word"
type_synonym u64 = "64 word"
type_synonym bytes = "u8 list"

named_theorems layout_simps \<open>index arithmetic of the corpus and of strided loops\<close>
named_theorems xor_simps \<open>XOR folds\<close>


section \<open>Byte order\<close>

text \<open>\<open>load_le32\<close>, \<open>store_le32\<close>, \<open>store_le64\<close> of src/reference/md5.c; \<open>load_be32\<close>,
  \<open>store_be32\<close>, \<open>store_be64\<close> of src/reference/sha1.c and \<open>load_be64\<close>, \<open>store_be64\<close> of
  src/reference/sha512.c.  A store returns the bytes written.\<close>

definition load_le32 :: "bytes \<Rightarrow> u32" where
  "load_le32 p = ucast (p ! 0) OR push_bit 8 (ucast (p ! 1))
     OR push_bit 16 (ucast (p ! 2)) OR push_bit 24 (ucast (p ! 3))"

definition store_le32 :: "u32 \<Rightarrow> bytes" where
  "store_le32 v = [ucast v, ucast (drop_bit 8 v), ucast (drop_bit 16 v), ucast (drop_bit 24 v)]"

definition store_le64 :: "u64 \<Rightarrow> bytes" where
  "store_le64 v = store_le32 (ucast v) @ store_le32 (ucast (drop_bit 32 v))"

definition load_be32 :: "bytes \<Rightarrow> u32" where
  "load_be32 p = push_bit 24 (ucast (p ! 0)) OR push_bit 16 (ucast (p ! 1))
     OR push_bit 8 (ucast (p ! 2)) OR ucast (p ! 3)"

definition store_be32 :: "u32 \<Rightarrow> bytes" where
  "store_be32 v = [ucast (drop_bit 24 v), ucast (drop_bit 16 v), ucast (drop_bit 8 v), ucast v]"

text \<open>sha1.c builds its 64-bit store from two 32-bit ones; sha512.c from a loop over the eight
  bytes.  Both are modelled, \<open>store_be64_halves\<close> shows that they agree.\<close>

definition sha1_store_be64 :: "u64 \<Rightarrow> bytes" where
  "sha1_store_be64 v = store_be32 (ucast (drop_bit 32 v)) @ store_be32 (ucast v)"

definition load_be64 :: "bytes \<Rightarrow> u64" where
  "load_be64 p = fold (\<lambda>i v. push_bit 8 v OR ucast (p ! i)) [0..<8] 0"

definition store_be64 :: "u64 \<Rightarrow> bytes" where
  "store_be64 v = map (\<lambda>i. ucast (drop_bit (56 - 8 * i) v)) [0..<8]"

definition rotl32 :: "u32 \<Rightarrow> nat \<Rightarrow> u32" where
  "rotl32 v s = push_bit s v OR drop_bit ((32 - s) mod 32) v"

definition rotr64 :: "u64 \<Rightarrow> nat \<Rightarrow> u64" where
  "rotr64 v s = drop_bit s v OR push_bit ((64 - s) mod 64) v"

lemma length_store [simp]:
  "length (store_le32 v) = 4" "length (store_be32 v) = 4"
  "length (store_le64 w) = 8" "length (store_be64 w) = 8" "length (sha1_store_be64 w) = 8"
  by (simp_all add: store_le32_def store_be32_def store_le64_def store_be64_def sha1_store_be64_def)

lemma load_store_le32 [simp]: "load_le32 (store_le32 v @ xs) = v"
proof (rule bit_word_eqI)
  fix n assume "n < LENGTH(32)"
  then have "n < 8 \<or> (8 \<le> n \<and> n < 16) \<or> (16 \<le> n \<and> n < 24) \<or> (24 \<le> n \<and> n < 32)" by auto
  then show "bit (load_le32 (store_le32 v @ xs)) n \<longleftrightarrow> bit v n"
    by (elim disjE) (auto simp: load_le32_def store_le32_def bit_simps)
qed

lemma load_store_be32 [simp]: "load_be32 (store_be32 v @ xs) = v"
proof (rule bit_word_eqI)
  fix n assume "n < LENGTH(32)"
  then have "n < 8 \<or> (8 \<le> n \<and> n < 16) \<or> (16 \<le> n \<and> n < 24) \<or> (24 \<le> n \<and> n < 32)" by auto
  then show "bit (load_be32 (store_be32 v @ xs)) n \<longleftrightarrow> bit v n"
    by (elim disjE) (auto simp: load_be32_def store_be32_def bit_simps)
qed

lemma store_be64_unfold: "store_be64 v = map (\<lambda>k. ucast (drop_bit k v)) [56, 48, 40, 32, 24, 16, 8, 0]"
  by (simp add: store_be64_def upt_rec)

lemma load_be64_unfold:
  "load_be64 p = push_bit 56 (ucast (p ! 0)) OR push_bit 48 (ucast (p ! 1))
     OR push_bit 40 (ucast (p ! 2)) OR push_bit 32 (ucast (p ! 3)) OR push_bit 24 (ucast (p ! 4))
     OR push_bit 16 (ucast (p ! 5)) OR push_bit 8 (ucast (p ! 6)) OR ucast (p ! 7)"
proof -
  have "[0..<8] = [0, 1, 2, 3, 4, 5, 6, 7 :: nat]"
    by (simp add: upt_rec)
  then show ?thesis
    by (simp add: load_be64_def push_bit_or ac_simps)
qed

lemma store_be64_halves: "sha1_store_be64 v = store_be64 v"
  unfolding sha1_store_be64_def store_be32_def store_be64_unfold
  by (auto simp: bit_simps intro!: bit_word_eqI)

lemma load_store_be64 [simp]: "load_be64 (store_be64 v @ xs) = v"
proof (rule bit_word_eqI)
  fix n assume "n < LENGTH(64)"
  then have "n < 8 \<or> (8 \<le> n \<and> n < 16) \<or> (16 \<le> n \<and> n < 24) \<or> (24 \<le> n \<and> n < 32)
    \<or> (32 \<le> n \<and> n < 40) \<or> (40 \<le> n \<and> n < 48) \<or> (48 \<le> n \<and> n < 56) \<or> (56 \<le> n \<and> n < 64)"
    by auto
  then show "bit (load_be64 (store_be64 v @ xs)) n \<longleftrightarrow> bit v n"
    by (elim disjE conjE; simp add: load_be64_unfold store_be64_unfold bit_simps less_diff_conv2)
qed


lemma map_nth_upt: "length xs = n \<Longrightarrow> map (\<lambda>i. f (xs ! i)) [0..<n] = map f xs"
  by (rule nth_equalityI) auto


section \<open>Buffers and blocks\<close>

text \<open>\<open>memcpy (dst + off, src, n)\<close> and \<open>memset\<close> on a buffer of fixed size: the bytes from
  \<open>off\<close> on are replaced.  A copy that stays inside the buffer keeps its length, which is what the
  in-bounds lemmas of the components ask for.\<close>

definition put_at :: "'a list \<Rightarrow> nat \<Rightarrow> 'a list \<Rightarrow> 'a list" where
  "put_at buf off src = take off buf @ src @ drop (off + length src) buf"

lemma length_put_at [simp]: "off + length src \<le> length buf \<Longrightarrow> length (put_at buf off src) = length buf"
  by (simp add: put_at_def)

lemma take_put_at: "off \<le> length buf \<Longrightarrow> take (off + length src) (put_at buf off src) = take off buf @ src"
  by (simp add: put_at_def)

lemma nth_put_at:
  assumes "off + length src \<le> length buf" "i < length buf"
  shows "put_at buf off src ! i
    = (if i < off then buf ! i else if i < off + length src then src ! (i - off) else buf ! i)"
  using assms by (auto simp: put_at_def nth_append)

text \<open>The whole blocks of a byte string, and what is left behind them.\<close>

fun blocks_of :: "nat \<Rightarrow> 'a list \<Rightarrow> 'a list list" where
  "blocks_of n xs = (if n = 0 \<or> length xs < n then [] else take n xs # blocks_of n (drop n xs))"

declare blocks_of.simps [simp del]

definition tail_of :: "nat \<Rightarrow> 'a list \<Rightarrow> 'a list" where
  "tail_of n xs = drop (length xs - length xs mod n) xs"

lemma blocks_of_short: "length xs < n \<Longrightarrow> blocks_of n xs = []"
  by (subst blocks_of.simps) simp

lemma blocks_of_Cons: "0 < n \<Longrightarrow> length b = n \<Longrightarrow> blocks_of n (b @ xs) = b # blocks_of n xs"
  by (subst blocks_of.simps) simp

lemma length_blocks_of: "0 < n \<Longrightarrow> length (blocks_of n xs) = length xs div n"
proof (induction n xs rule: blocks_of.induct)
  case (1 n xs)
  then show ?case
    by (subst blocks_of.simps) (auto simp: le_div_geq not_less)
qed

lemma blocks_of_append:
  "0 < n \<Longrightarrow> length xs mod n = 0 \<Longrightarrow> blocks_of n (xs @ ys) = blocks_of n xs @ blocks_of n ys"
proof (induction n xs rule: blocks_of.induct)
  case (1 n xs)
  show ?case
  proof (cases "length xs < n")
    case True
    with 1 have "xs = []" by simp
    then show ?thesis by (simp add: blocks_of_short 1)
  next
    case False
    then have xs: "xs = take n xs @ drop n xs" and l: "length (take n xs) = n" by auto
    have "blocks_of n ((take n xs @ drop n xs) @ ys) = take n xs # blocks_of n (drop n xs @ ys)"
      using 1(2) l by (simp only: append_assoc blocks_of_Cons)
    moreover have "blocks_of n (drop n xs @ ys) = blocks_of n (drop n xs) @ blocks_of n ys"
      using 1 False by (intro 1(1)) (auto simp: le_mod_geq not_less)
    moreover have "blocks_of n (take n xs @ drop n xs) = take n xs # blocks_of n (drop n xs)"
      using 1(2) l by (rule blocks_of_Cons)
    ultimately show ?thesis by simp
  qed
qed

lemma nth_blocks_of:
  "0 < n \<Longrightarrow> b < length xs div n \<Longrightarrow> blocks_of n xs ! b = take n (drop (b * n) xs)"
proof (induction n xs arbitrary: b rule: blocks_of.induct)
  case (1 n xs)
  then have "n \<le> length xs"
    by (metis div_less less_nat_zero_code not_less)
  then show ?case
    using 1 by (subst blocks_of.simps)
      (cases b; auto simp: not_less le_div_geq add.commute mult.commute)
qed

lemma length_tail_of: "length (tail_of n xs) = length xs mod n"
  by (simp add: tail_of_def)

lemma tail_of_short: "length xs < n \<Longrightarrow> tail_of n xs = xs"
  by (simp add: tail_of_def)

lemma tail_of_append: "length xs mod n = 0 \<Longrightarrow> tail_of n (xs @ ys) = tail_of n ys"
  by (auto simp: tail_of_def mod_add_left_eq[symmetric] drop_append
      intro!: drop_all arg_cong2[of _ _ _ _ append] trans_le_add1
      simp flip: Nat.add_diff_assoc)

lemma minus_mod_mod: "(k - k mod n) mod n = (0::nat)"
  by (simp add: minus_mod_eq_mult_div)

lemma blocks_tail_split:
  obtains ws where "xs = ws @ tail_of n xs" "length ws mod n = 0" "blocks_of n ws = blocks_of n xs \<or> n = 0"
proof
  let ?w = "take (length xs - length xs mod n) xs"
  show "xs = ?w @ tail_of n xs" by (simp add: tail_of_def)
  have "length ?w = length xs - length xs mod n" by simp
  then show l: "length ?w mod n = 0" by (simp only: minus_mod_mod)
  show "blocks_of n ?w = blocks_of n xs \<or> n = 0"
  proof (cases "n = 0")
    case False
    then have "blocks_of n (?w @ tail_of n xs) = blocks_of n ?w @ blocks_of n (tail_of n xs)"
      by (intro blocks_of_append l) simp
    then show ?thesis
      using False by (simp add: blocks_of_short length_tail_of tail_of_def)
  qed simp
qed


lemma blocks_of_unfold:
  "0 < n \<Longrightarrow> blocks_of n xs = map (\<lambda>b. take n (drop (b * n) xs)) [0..<length xs div n]"
  by (rule nth_equalityI) (simp_all add: length_blocks_of nth_blocks_of)


text \<open>Rounding a quotient up.\<close>

lemma ceil_div_ge: "0 < b \<Longrightarrow> m \<le> (m + b - 1) div b * (b::nat)"
  using div_mult_mod_eq[of "m + b - 1" b] mod_less_divisor[of b "m + b - 1"] by linarith

lemma ceil_div_least:
  assumes "0 < b" "m \<le> k * b"
  shows "(m + b - 1) div b \<le> (k::nat)"
proof -
  have "m + b - 1 < Suc k * b" using assms by simp
  then have "(m + b - 1) div b < Suc k" by (rule less_mult_imp_div_less)
  then show ?thesis by simp
qed

lemma ceil_div_mult:
  assumes "0 < b"
  shows "(m + b - 1) div b * b = m + (b - m mod b) mod (b::nat)"
proof (cases "m mod b = 0")
  case True
  have "m + b - 1 = (b - 1) + m div b * b"
    using True assms div_mult_mod_eq[of m b] by linarith
  then have "(m + b - 1) div b = m div b"
    using assms by (simp only: div_mult_self1) simp
  then show ?thesis using True by auto
next
  case False
  let ?r = "m mod b"
  have r: "0 < ?r" "?r < b" using False assms by auto
  have "m + b - 1 = (?r - 1) + (m div b + 1) * b"
    using r div_mult_mod_eq[of m b] by (simp only: add_mult_distrib mult_1)
  moreover have "(?r - 1) div b = 0" using r by (intro div_less) linarith
  ultimately have "(m + b - 1) div b = m div b + 1"
    using assms by (simp only: div_mult_self1)
  moreover have "(m div b + 1) * b = m + (b - ?r)"
    using r div_mult_mod_eq[of m b] by (simp only: add_mult_distrib mult_1)
  ultimately show ?thesis using r by simp
qed


section \<open>Loops over arrays\<close>

text \<open>A loop that writes one element of an array per pass.  When no two passes write the same
  place, each place holds what its own pass wrote.\<close>

lemma length_fold_update [simp]: "length (fold (\<lambda>x ws. ws[f x := g x]) xs ws) = length ws"
  by (induction xs arbitrary: ws) simp_all

lemma fold_update_other:
  "p \<notin> f ` set xs \<Longrightarrow> fold (\<lambda>x ws. ws[f x := g x]) xs ws ! p = ws ! p"
  by (induction xs arbitrary: ws) auto

lemma fold_update_nth:
  "x \<in> set xs \<Longrightarrow> inj_on f (set xs) \<Longrightarrow> f x < length ws \<Longrightarrow>
   fold (\<lambda>x ws. ws[f x := g x]) xs ws ! f x = g x"
proof (induction xs arbitrary: ws)
  case (Cons y ys)
  show ?case
  proof (cases "x \<in> set ys")
    case True
    then show ?thesis using Cons by (simp add: inj_on_subset)
  next
    case False
    then have "f x \<notin> f ` set ys"
      using Cons.prems by (auto simp: inj_on_def)
    then show ?thesis using Cons.prems False by (simp add: fold_update_other)
  qed
qed simp

text \<open>The \<open>FOREACH\<close> macros of the kernel templates: visit every element of an array, in order.\<close>

definition foreach :: "(nat \<Rightarrow> 's \<Rightarrow> 's) \<Rightarrow> 's list \<Rightarrow> 's list" where
  "foreach body ss = fold (\<lambda>k ss. ss[k := body k (ss ! k)]) [0..<length ss] ss"

lemma foreach_prefix:
  "n \<le> length ss \<Longrightarrow> fold (\<lambda>k ss. ss[k := body k (ss ! k)]) [0..<n] ss
     = map (\<lambda>k. body k (ss ! k)) [0..<n] @ drop n ss"
proof (induction n)
  case (Suc n)
  then show ?case
    by (simp add: nth_append list_update_append Cons_nth_drop_Suc[symmetric])
qed simp

lemma foreach_map: "foreach body ss = map (\<lambda>k. body k (ss ! k)) [0..<length ss]"
  by (simp add: foreach_def foreach_prefix)

lemma length_foreach [simp]: "length (foreach body ss) = length ss"
  by (simp add: foreach_map)

lemma nth_foreach [simp]: "k < length ss \<Longrightarrow> foreach body ss ! k = body k (ss ! k)"
  by (simp add: foreach_map)

text \<open>A run of array loops is, for each element, the run of the loop bodies.\<close>

lemma nth_fold_foreach:
  "k < length ss \<Longrightarrow> fold (\<lambda>x. foreach (body x)) xs ss ! k = fold (\<lambda>x. body x k) xs (ss ! k)"
  by (induction xs arbitrary: ss) simp_all

lemma length_fold_foreach [simp]: "length (fold (\<lambda>x. foreach (body x)) xs ss) = length ss"
  by (induction xs arbitrary: ss) simp_all

lemma foreach_foreach: "foreach g (foreach f ss) = foreach (\<lambda>k s. g k (f k s)) ss"
  by (rule nth_equalityI) simp_all

lemma fold_foreach: "fold (\<lambda>x. foreach (body x)) xs ss = foreach (\<lambda>k s. fold (\<lambda>x. body x k) xs s) ss"
  by (rule nth_equalityI) (simp_all add: nth_fold_foreach)


section \<open>XOR folds\<close>

definition xor_list :: "'a::len word list \<Rightarrow> 'a word" where
  "xor_list xs = fold (XOR) xs 0"

abbreviation xor_over :: "('i \<Rightarrow> 'a::len word) \<Rightarrow> 'i list \<Rightarrow> 'a word" where
  "xor_over f xs \<equiv> xor_list (map f xs)"

lemma fold_xor: "fold (XOR) xs a = a XOR xor_list (xs :: 'a::len word list)"
proof (induction xs arbitrary: a)
  case (Cons x xs)
  have "fold (XOR) (x # xs) a = (x XOR a) XOR xor_list xs" by (simp add: Cons.IH)
  also have "\<dots> = a XOR (x XOR xor_list xs)" by (simp add: ac_simps)
  also have "x XOR xor_list xs = xor_list (x # xs)"
    using Cons.IH[of "x XOR 0"] by (simp add: xor_list_def[of "x # xs"])
  finally show ?case .
qed (simp add: xor_list_def)

lemma xor_list_Nil [simp]: "xor_list [] = 0"
  by (simp add: xor_list_def)

lemma xor_list_Cons [simp]: "xor_list (x # xs) = x XOR xor_list xs"
  by (subst xor_list_def) (simp add: fold_xor)

lemma xor_list_append [simp]: "xor_list (xs @ ys) = xor_list xs XOR xor_list ys"
  by (induction xs) (simp_all add: ac_simps)

lemma fold_xor_over: "fold (\<lambda>i acc. acc XOR f i) is a = a XOR xor_over f is"
  by (induction "is" arbitrary: a) (simp_all add: ac_simps)

lemma xor_over_xor: "xor_over (\<lambda>i. f i XOR g i) is = xor_over f is XOR xor_over g is"
  by (induction "is") (simp_all add: ac_simps)

lemma xor_over_zero [simp]: "xor_over (\<lambda>i. 0) is = 0"
  by (induction "is") simp_all

lemma xor_list_mset: "mset xs = mset ys \<Longrightarrow> xor_list xs = xor_list ys"
proof (induction xs arbitrary: ys)
  case (Cons x xs)
  then have "x \<in> set ys" by (metis list.set_intros(1) set_mset_mset)
  then obtain us vs where ys: "ys = us @ x # vs" by (meson split_list)
  with Cons.prems have "mset xs = mset (us @ vs)" by simp
  from Cons.IH[OF this] show ?case by (simp add: ys ac_simps)
qed simp

lemma xor_over_set:
  assumes "distinct xs" "distinct ys" "set xs = set ys"
  shows "xor_over f xs = xor_over f ys"
proof -
  have "mset xs = mset ys" using assms set_eq_iff_mset_eq_distinct by blast
  then have "mset (map f xs) = mset (map f ys)" by simp
  then show ?thesis by (rule xor_list_mset)
qed

lemma xor_list_concat: "xor_list (concat xss) = xor_over xor_list xss"
  by (induction xss) simp_all

lemma xor_over_nested:
  "xor_over (\<lambda>i. xor_over (f i) (js i)) is = xor_over (\<lambda>(i, j). f i j) (concat (map (\<lambda>i. map (Pair i) (js i)) is))"
  by (induction "is") (simp_all add: comp_def)

lemma xor_over_swap:
  "xor_over (\<lambda>i. xor_over (f i) js) is = xor_over (\<lambda>j. xor_over (\<lambda>i. f i j) is) js"
  by (induction "is") (simp_all add: xor_over_xor)

lemma xor_over_cong: "(\<And>i. i \<in> set is \<Longrightarrow> f i = g i) \<Longrightarrow> xor_over f is = xor_over g is"
  by (induction "is") simp_all

lemma ucast_xor_list:
  "(ucast (xor_over f is :: 'a::len word) :: 'b::len word) = xor_over (\<lambda>i. ucast (f i)) is"
  by (induction "is") (simp_all add: unsigned_xor_eq)

text \<open>Cutting \<open>[0..<a * b]\<close> into rows, and a range into consecutive slices.\<close>

lemma upt_mult: "concat (map (\<lambda>i. map (\<lambda>j. i * b + j) [0..<b]) [0..<a]) = [0..<a * b]"
proof (induction a)
  case (Suc a)
  have "map (\<lambda>j. a * b + j) [0..<b] = [a * b..<a * b + b]"
    by (simp add: map_add_upt add.commute)
  moreover have "[0..<Suc a * b] = [0..<a * b] @ [a * b..<a * b + b]"
    by (metis add.commute le0 mult_Suc upt_add_eq_append)
  ultimately show ?case by (simp only: upt_Suc_append le0 map_append concat_append Suc) simp
qed simp

lemma xor_over_append_range:
  "xor_over f [0..<a + b] = xor_over f [0..<a] XOR xor_over (\<lambda>n. f (a + n)) [0..<b]"
  by (induction b) (simp_all add: ac_simps)

lemma xor_over_rows: "xor_over (\<lambda>i. xor_over (\<lambda>j. f (i * b + j)) [0..<b]) [0..<a] = xor_over f [0..<a * b]"
  unfolding upt_mult[symmetric] map_concat xor_list_concat by (simp add: comp_def)

end
