(* ===== verification/Md_Stream.thy ===== *)
theory Md_Stream
  imports Prelude
begin

text \<open>
  The streaming interface the three reference hashes of src/reference share.  The context structs
  of include/hashes.h differ only in their word type and block length, and the bodies of
  \<open>md5_update\<close>, \<open>sha1_update\<close> and \<open>sha512_update\<close> (and of the three \<open>_final\<close>) are the same text
  over those, so that one record and one pair of operations, parametrised by the compression
  function, the block length and the length field, model all of them.  The locale \<open>md_stream\<close>
  states what a hash must provide and proves the streaming contract once: however a message is
  cut into updates, the chaining value is the fold of the compression function over the blocks of
  the padded message.
\<close>

section \<open>Context and operations\<close>

record 'w hash_ctx =
  hstate :: "'w list"
  total_len :: u64
  buf :: bytes
  buf_len :: nat

text \<open>The \<open>while (len >= BLOCK_LEN)\<close> loop: the chaining value it leaves and the bytes left over.\<close>

fun absorb_blocks :: "('w list \<Rightarrow> bytes \<Rightarrow> 'w list) \<Rightarrow> nat \<Rightarrow> 'w list \<Rightarrow> bytes \<Rightarrow> 'w list \<times> bytes" where
  "absorb_blocks compress blk st p =
    (if blk = 0 \<or> length p < blk then (st, p)
     else absorb_blocks compress blk (compress st (take blk p)) (drop blk p))"

declare absorb_blocks.simps [simp del]

definition update_tail :: "('w list \<Rightarrow> bytes \<Rightarrow> 'w list) \<Rightarrow> nat \<Rightarrow> 'w hash_ctx \<Rightarrow> bytes \<Rightarrow> 'w hash_ctx" where
  "update_tail compress blk ctx p =
    (let (st, rest) = absorb_blocks compress blk (hstate ctx) p;
         ctx = ctx\<lparr>hstate := st\<rparr>
     in if 0 < length rest
        then ctx\<lparr>buf := put_at (buf ctx) 0 rest, buf_len := length rest\<rparr> else ctx)"

definition stream_update :: "('w list \<Rightarrow> bytes \<Rightarrow> 'w list) \<Rightarrow> nat \<Rightarrow> 'w hash_ctx \<Rightarrow> bytes \<Rightarrow> 'w hash_ctx" where
  "stream_update compress blk ctx data =
    (let ctx = ctx\<lparr>total_len := total_len ctx + of_nat (length data)\<rparr> in
     if 0 < buf_len ctx then
       let need = blk - buf_len ctx;
           tk = (if length data < need then length data else need);
           ctx = ctx\<lparr>buf := put_at (buf ctx) (buf_len ctx) (take tk data),
                     buf_len := buf_len ctx + tk\<rparr>;
           p = drop tk data
       in if buf_len ctx < blk then ctx
          else update_tail compress blk
                 (ctx\<lparr>hstate := compress (hstate ctx) (buf ctx), buf_len := 0\<rparr>) p
     else update_tail compress blk ctx data)"

text \<open>The padding of \<open>_final\<close>: the marker byte, a second block when the length field no longer
  fits, the zeros, the length field.  \<open>lf\<close> is the size of the field and \<open>enc\<close> writes it.\<close>

definition stream_final ::
  "('w list \<Rightarrow> bytes \<Rightarrow> 'w list) \<Rightarrow> nat \<Rightarrow> nat \<Rightarrow> (u64 \<Rightarrow> bytes) \<Rightarrow> 'w hash_ctx \<Rightarrow> 'w hash_ctx" where
  "stream_final compress blk lf enc ctx =
    (let bit_len = total_len ctx * 8;
         ctx = ctx\<lparr>buf := put_at (buf ctx) (buf_len ctx) [0x80], buf_len := buf_len ctx + 1\<rparr>;
         ctx = (if blk - lf < buf_len ctx then
                  let ctx = ctx\<lparr>buf := put_at (buf ctx) (buf_len ctx) (replicate (blk - buf_len ctx) 0)\<rparr>
                  in ctx\<lparr>hstate := compress (hstate ctx) (buf ctx), buf_len := 0\<rparr>
                else ctx);
         ctx = ctx\<lparr>buf := put_at (buf ctx) (buf_len ctx) (replicate ((blk - lf) - buf_len ctx) 0)\<rparr>;
         ctx = ctx\<lparr>buf := put_at (buf ctx) (blk - lf) (enc bit_len)\<rparr>
     in ctx\<lparr>hstate := compress (hstate ctx) (buf ctx)\<rparr>)"


section \<open>Specification\<close>

text \<open>What the standards say of a message of \<open>n\<close> bytes: the padding appended to it, and the
  chaining value after all blocks.\<close>

definition md_padding :: "nat \<Rightarrow> nat \<Rightarrow> (u64 \<Rightarrow> bytes) \<Rightarrow> nat \<Rightarrow> bytes" where
  "md_padding blk lf enc n =
     0x80 # replicate ((blk - (n + 1 + lf) mod blk) mod blk) 0 @ enc (of_nat n * 8)"

definition md_chain ::
  "('w list \<Rightarrow> bytes \<Rightarrow> 'w list) \<Rightarrow> nat \<Rightarrow> nat \<Rightarrow> (u64 \<Rightarrow> bytes) \<Rightarrow> 'w list \<Rightarrow> bytes \<Rightarrow> 'w list" where
  "md_chain compress blk lf enc iv msg =
     foldl compress iv (blocks_of blk (msg @ md_padding blk lf enc (length msg)))"

text \<open>A context that has absorbed \<open>msg\<close>: the blocks are folded, the rest lies at the front of the
  buffer, which never fills up between calls.\<close>

definition absorbed ::
  "('w list \<Rightarrow> bytes \<Rightarrow> 'w list) \<Rightarrow> nat \<Rightarrow> 'w list \<Rightarrow> 'w hash_ctx \<Rightarrow> bytes \<Rightarrow> bool" where
  "absorbed compress blk iv ctx msg \<longleftrightarrow>
     length (buf ctx) = blk \<and> buf_len ctx = length msg mod blk \<and>
     take (buf_len ctx) (buf ctx) = tail_of blk msg \<and>
     hstate ctx = foldl compress iv (blocks_of blk msg) \<and>
     total_len ctx = of_nat (length msg)"

lemma absorb_blocks_eq:
  "0 < blk \<Longrightarrow> absorb_blocks compress blk st p = (foldl compress st (blocks_of blk p), tail_of blk p)"
proof (induction compress blk st p rule: absorb_blocks.induct)
  case (1 compress blk st p)
  show ?case
  proof (cases "length p < blk")
    case True
    then show ?thesis
      by (subst absorb_blocks.simps) (simp add: blocks_of_short tail_of_short)
  next
    case False
    then have "tail_of blk (take blk p @ drop blk p) = tail_of blk (drop blk p)"
      by (intro tail_of_append) simp
    then show ?thesis
      using 1 False by (subst absorb_blocks.simps, subst blocks_of.simps) simp
  qed
qed

locale md_stream =
  fixes compress :: "'w list \<Rightarrow> bytes \<Rightarrow> 'w list"
    and blk lf :: nat
    and enc :: "u64 \<Rightarrow> bytes"
  assumes field_fits: "0 < lf" "lf < blk"
    and length_enc [simp]: "length (enc v) = lf"
begin

lemma blk_pos [simp]: "0 < blk"
  using field_fits by linarith

lemma absorbed_start:
  "length (buf ctx) = blk \<Longrightarrow> buf_len ctx = 0 \<Longrightarrow> total_len ctx = 0 \<Longrightarrow>
   absorbed compress blk (hstate ctx) ctx []"
  by (simp add: absorbed_def blocks_of_short tail_of_def)

lemma update_tail_aligned:
  assumes "length (buf ctx) = blk" "buf_len ctx = 0" "length msg mod blk = 0"
    and "hstate ctx = foldl compress iv (blocks_of blk msg)"
    and "total_len ctx = of_nat (length (msg @ p))"
  shows "absorbed compress blk iv (update_tail compress blk ctx p) (msg @ p)"
proof -
  have t: "tail_of blk (msg @ p) = tail_of blk p" and
    b: "blocks_of blk (msg @ p) = blocks_of blk msg @ blocks_of blk p"
    using assms(3) by (simp_all add: tail_of_append blocks_of_append)
  have l: "length (tail_of blk p) < blk" "(length msg + length p) mod blk = length (tail_of blk p)"
    using assms(3) by (simp_all add: length_tail_of mod_add_left_eq[symmetric])
  show ?thesis
    using assms l(1) unfolding absorbed_def update_tail_def
    by (simp add: absorb_blocks_eq t b l Let_def put_at_def less_imp_le split: if_splits)
qed

lemma update_absorbed:
  assumes A: "absorbed compress blk iv ctx msg"
  shows "absorbed compress blk iv (stream_update compress blk ctx data) (msg @ data)"
proof -
  define r where "r = length msg mod blk"
  have r: "r < blk" "buf_len ctx = r" "length (tail_of blk msg) = r" "length (buf ctx) = blk"
    "take r (buf ctx) = tail_of blk msg"
    using A by (auto simp: absorbed_def r_def length_tail_of)
  obtain ws where ws: "msg = ws @ tail_of blk msg" "length ws mod blk = 0"
    "blocks_of blk ws = blocks_of blk msg"
    using blocks_tail_split[of msg blk] by (metis blk_pos less_numeral_extra(3))
  have st: "hstate ctx = foldl compress iv (blocks_of blk ws)"
    using A ws by (simp add: absorbed_def)
  have tl: "total_len ctx + of_nat (length data) = of_nat (length (msg @ data))"
    using A by (simp add: absorbed_def)
  consider "r = 0" | "0 < r" "length data < blk - r" | "0 < r" "blk - r \<le> length data"
    by linarith
  then show ?thesis
  proof cases
    case 1
    have "stream_update compress blk ctx data = update_tail compress blk
        (ctx\<lparr>total_len := of_nat (length (msg @ data))\<rparr>) data"
      using 1 r tl by (simp add: stream_update_def)
    moreover have "length msg mod blk = 0" using 1 r_def by simp
    ultimately show ?thesis
      using 1 r st ws(3) by (simp add: update_tail_aligned)
  next
    case 2
    have T: "take (r + length data) (put_at (buf ctx) r data) = tail_of blk msg @ data"
      using 2 r by (simp add: take_put_at)
    have "msg @ data = ws @ (tail_of blk msg @ data)" using ws(1) by simp
    then have "tail_of blk (msg @ data) = tail_of blk msg @ data"
      "blocks_of blk (msg @ data) = blocks_of blk ws"
      using 2 r ws(2) by (simp_all only: tail_of_append blocks_of_append blk_pos)
        (simp_all add: tail_of_short blocks_of_short)
    moreover have "(length msg + length data) mod blk = r + length data"
      using 2 r(1) by (simp add: r_def mod_add_left_eq[of "length msg", symmetric])
    moreover have "stream_update compress blk ctx data =
        ctx\<lparr>total_len := of_nat (length (msg @ data)), buf := put_at (buf ctx) r data,
            buf_len := r + length data\<rparr>"
      using 2 r(2) tl by (simp add: stream_update_def Let_def)
    ultimately show ?thesis
      using 2 r st(1) T by (simp add: absorbed_def)
  next
    case 3
    let ?b = "tail_of blk msg @ take (blk - r) data" and ?p = "drop (blk - r) data"
    have B: "put_at (buf ctx) r (take (blk - r) data) = ?b"
      using 3 r by (simp add: put_at_def)
    have "msg @ data = (ws @ ?b) @ ?p" using ws(1) by simp
    moreover have lb: "length ?b = blk" using 3 r by simp
    moreover have "blocks_of blk (ws @ ?b) = blocks_of blk ws @ [?b]"
      using lb ws(2) blocks_of_Cons[of blk ?b "[]"] by (simp add: blocks_of_append blocks_of_short)
    moreover have "stream_update compress blk ctx data = update_tail compress blk
        (ctx\<lparr>total_len := of_nat (length (msg @ data)), buf := ?b,
          hstate := compress (hstate ctx) ?b, buf_len := 0\<rparr>) ?p"
      using 3 r tl by (simp add: stream_update_def Let_def B)
    ultimately show ?thesis
      using lb st ws(2) by (simp add: update_tail_aligned del: append_assoc)
  qed
qed

lemma updates_absorbed:
  "absorbed compress blk iv ctx msg \<Longrightarrow>
   absorbed compress blk iv (foldl (stream_update compress blk) ctx ds) (msg @ concat ds)"
proof (induction ds arbitrary: ctx msg)
  case (Cons d ds)
  from Cons.IH[OF update_absorbed[OF Cons.prems]] show ?case by simp
qed simp

lemma padding_cases:
  assumes "length msg mod blk = r"
  shows "md_padding blk lf enc (length msg) =
    0x80 # replicate ((if r + 1 + lf \<le> blk then blk else 2 * blk) - (r + 1 + lf)) 0
      @ enc (of_nat (length msg) * 8)"
proof -
  have r: "r < blk" using assms by auto
  have "(length msg + 1 + lf) mod blk = (r + 1 + lf) mod blk"
    using assms by (metis add.assoc mod_add_left_eq)
  moreover have "(blk - (r + 1 + lf) mod blk) mod blk =
    (if r + 1 + lf \<le> blk then blk else 2 * blk) - (r + 1 + lf)"
    using r field_fits by (auto simp: le_mod_geq le_less)
  ultimately show ?thesis
    by (simp add: md_padding_def)
qed

lemma padded_whole_blocks: "(length msg + length (md_padding blk lf enc (length msg))) mod blk = 0"
proof -
  define r where "r = length msg mod blk"
  have r: "r < blk" by (simp add: r_def)
  let ?c = "if r + 1 + lf \<le> blk then blk else 2 * blk"
  have "length (md_padding blk lf enc (length msg)) = ?c - r"
    using r field_fits by (simp add: padding_cases[OF r_def[symmetric]]) linarith
  moreover have "(length msg + (?c - r)) mod blk = (r + (?c - r)) mod blk"
    by (simp add: r_def mod_add_left_eq)
  moreover have "r + (?c - r) = ?c" using r by simp
  ultimately show ?thesis by simp
qed

lemma final_state:
  assumes A: "absorbed compress blk iv ctx msg"
  shows "hstate (stream_final compress blk lf enc ctx) = md_chain compress blk lf enc iv msg"
proof -
  define r where "r = length msg mod blk"
  define e where "e = enc (of_nat (length msg) * 8)"
  have le: "length e = lf" by (simp add: e_def)
  have r: "r < blk" "buf_len ctx = r" "length (tail_of blk msg) = r" "length (buf ctx) = blk"
    "take r (buf ctx) = tail_of blk msg"
    using A by (auto simp: absorbed_def r_def length_tail_of)
  obtain ws where ws: "msg = ws @ tail_of blk msg" "length ws mod blk = 0"
    "blocks_of blk ws = blocks_of blk msg"
    using blocks_tail_split[of msg blk] by (metis blk_pos less_numeral_extra(3))
  have st: "hstate ctx = foldl compress iv (blocks_of blk ws)" "total_len ctx = of_nat (length msg)"
    using A ws by (simp_all add: absorbed_def)
  note pad = padding_cases[OF r_def[symmetric], folded e_def]
  have mc: "md_chain compress blk lf enc iv msg =
      foldl compress (hstate ctx) (blocks_of blk (tail_of blk msg @ md_padding blk lf enc (length msg)))"
  proof -
    let ?p = "md_padding blk lf enc (length msg)"
    have "blocks_of blk (ws @ (tail_of blk msg @ ?p)) = blocks_of blk ws @ blocks_of blk (tail_of blk msg @ ?p)"
      by (rule blocks_of_append) (use ws(2) in simp_all)
    moreover have "ws @ (tail_of blk msg @ ?p) = msg @ ?p"
      using ws(1) by (metis append_assoc)
    ultimately show ?thesis by (simp add: md_chain_def st(1))
  qed
  have B1: "put_at (buf ctx) r [0x80] = tail_of blk msg @ 0x80 # drop (r + 1) (buf ctx)"
    using r by (simp add: put_at_def)
  show ?thesis
  proof (cases "r + 1 + lf \<le> blk")
    case True
    let ?b = "tail_of blk msg @ 0x80 # replicate (blk - (r + 1 + lf)) 0 @ e"
    have B2: "put_at (tail_of blk msg @ 0x80 # drop (r + 1) (buf ctx)) (r + 1) (replicate (blk - lf - (r + 1)) 0)
        = tail_of blk msg @ 0x80 # replicate (blk - (r + 1 + lf)) 0 @ drop (blk - lf) (buf ctx)"
      using True r by (simp add: put_at_def add.commute drop_Cons' Suc_diff_Suc)
    have B3: "put_at (tail_of blk msg @ 0x80 # replicate (blk - (r + 1 + lf)) 0 @ drop (blk - lf) (buf ctx))
        (blk - lf) e = ?b"
      using True r le field_fits by (simp add: put_at_def take_Cons' Suc_diff_Suc)
    have "\<not> blk - lf < r + 1" using True by linarith
    then have "hstate (stream_final compress blk lf enc ctx) = compress (hstate ctx) ?b"
      by (simp add: stream_final_def Let_def B1[simplified] B2[simplified] B3[simplified] r(2) st(2)
          e_def[symmetric] mult.commute)
    then show ?thesis
      using True r le blocks_of_Cons[of blk ?b "[]"] by (simp add: mc pad blocks_of_short)
  next
    case False
    let ?b1 = "tail_of blk msg @ 0x80 # replicate (blk - (r + 1)) 0"
    let ?b2 = "replicate (blk - lf) 0 @ e"
    have split: "replicate (2 * blk - (r + 1 + lf)) (0::u8) = replicate (blk - (r + 1)) 0 @ replicate (blk - lf) 0"
      using r False field_fits by (simp flip: replicate_add)
    have B2: "put_at (tail_of blk msg @ 0x80 # drop (r + 1) (buf ctx)) (r + 1) (replicate (blk - (r + 1)) 0) = ?b1"
      using r by (simp add: put_at_def)
    have B3: "put_at (put_at ?b1 0 (replicate (blk - lf) 0)) (blk - lf) e = ?b2"
      using r le field_fits by (simp add: put_at_def)
    have "blk - lf < r + 1" using False by linarith
    then have "hstate (stream_final compress blk lf enc ctx) = compress (compress (hstate ctx) ?b1) ?b2"
      by (simp add: stream_final_def Let_def B1[simplified] B2[simplified] B3[simplified] r(2) st(2)
          e_def[symmetric] mult.commute)
    moreover have "blocks_of blk (?b1 @ ?b2) = [?b1, ?b2]"
      using False r le field_fits blocks_of_Cons[of blk ?b1 ?b2] blocks_of_Cons[of blk ?b2 "[]"]
      by (simp add: blocks_of_short)
    ultimately show ?thesis
      using False split by (simp add: mc pad)
  qed
qed

theorem stream_correct:
  assumes "length (buf ctx) = blk" "buf_len ctx = 0" "total_len ctx = 0"
  shows "hstate (stream_final compress blk lf enc (foldl (stream_update compress blk) ctx ds))
    = md_chain compress blk lf enc (hstate ctx) (concat ds)"
  using final_state[OF updates_absorbed[OF absorbed_start[OF assms]]] by simp

end

end
