(* ===== verification/Md5_Ref.thy ===== *)
theory Md5_Ref
  imports Md_Stream
begin

text \<open>
  src/reference/md5.c: the scalar MD5 every kernel is validated against.  The round functions,
  the two tables, the compression function and the streaming operations are translated as
  written; \<open>md5_spec\<close> is the one-line statement of what RFC 1321 asks for, the compression
  function folded over the blocks of the padded message.
\<close>

definition MD5_BLOCK_LEN :: nat where "MD5_BLOCK_LEN = 64"
definition MD5_DIGEST_LEN :: nat where "MD5_DIGEST_LEN = 16"

definition MD5_F :: "u32 \<Rightarrow> u32 \<Rightarrow> u32 \<Rightarrow> u32" where "MD5_F x y z = (x AND y) OR (NOT x AND z)"
definition MD5_G :: "u32 \<Rightarrow> u32 \<Rightarrow> u32 \<Rightarrow> u32" where "MD5_G x y z = (x AND z) OR (y AND NOT z)"
definition MD5_H :: "u32 \<Rightarrow> u32 \<Rightarrow> u32 \<Rightarrow> u32" where "MD5_H x y z = x XOR y XOR z"
definition MD5_I :: "u32 \<Rightarrow> u32 \<Rightarrow> u32 \<Rightarrow> u32" where "MD5_I x y z = y XOR (x OR NOT z)"

definition MD5_T :: "u32 list" where
  "MD5_T = [
    0xd76aa478, 0xe8c7b756, 0x242070db, 0xc1bdceee,
    0xf57c0faf, 0x4787c62a, 0xa8304613, 0xfd469501,
    0x698098d8, 0x8b44f7af, 0xffff5bb1, 0x895cd7be,
    0x6b901122, 0xfd987193, 0xa679438e, 0x49b40821,
    0xf61e2562, 0xc040b340, 0x265e5a51, 0xe9b6c7aa,
    0xd62f105d, 0x02441453, 0xd8a1e681, 0xe7d3fbc8,
    0x21e1cde6, 0xc33707d6, 0xf4d50d87, 0x455a14ed,
    0xa9e3e905, 0xfcefa3f8, 0x676f02d9, 0x8d2a4c8a,
    0xfffa3942, 0x8771f681, 0x6d9d6122, 0xfde5380c,
    0xa4beea44, 0x4bdecfa9, 0xf6bb4b60, 0xbebfbc70,
    0x289b7ec6, 0xeaa127fa, 0xd4ef3085, 0x04881d05,
    0xd9d4d039, 0xe6db99e5, 0x1fa27cf8, 0xc4ac5665,
    0xf4292244, 0x432aff97, 0xab9423a7, 0xfc93a039,
    0x655b59c3, 0x8f0ccc92, 0xffeff47d, 0x85845dd1,
    0x6fa87e4f, 0xfe2ce6e0, 0xa3014314, 0x4e0811a1,
    0xf7537e82, 0xbd3af235, 0x2ad7d2bb, 0xeb86d391]"

definition MD5_S :: "nat list list" where
  "MD5_S = [[7, 12, 17, 22], [5, 9, 14, 20], [4, 11, 16, 23], [6, 10, 15, 21]]"

type_synonym md5_regs = "u32 \<times> u32 \<times> u32 \<times> u32"

text \<open>One pass of the loop body of \<open>md5_compress\<close>: the round selects the function and the
  message word, the registers move one place.\<close>

definition md5_round_fun :: "nat \<Rightarrow> u32 \<Rightarrow> u32 \<Rightarrow> u32 \<Rightarrow> u32" where
  "md5_round_fun rnd b c d =
    (if rnd = 0 then MD5_F b c d else if rnd = 1 then MD5_G b c d
     else if rnd = 2 then MD5_H b c d else MD5_I b c d)"

definition md5_round_word :: "nat \<Rightarrow> nat \<Rightarrow> nat" where
  "md5_round_word rnd i =
    (if rnd = 0 then i else if rnd = 1 then (5 * i + 1) mod 16
     else if rnd = 2 then (3 * i + 5) mod 16 else (7 * i) mod 16)"

definition md5_loop_body :: "u32 list \<Rightarrow> nat \<Rightarrow> md5_regs \<Rightarrow> md5_regs" where
  "md5_loop_body m i = (\<lambda>(a, b, c, d).
    let rnd = i div 16;
        f = md5_round_fun rnd b c d;
        g = md5_round_word rnd i
    in (d, b + rotl32 (a + f + m ! g + MD5_T ! i) (MD5_S ! rnd ! (i mod 4)), b, c))"

definition md5_words :: "bytes \<Rightarrow> u32 list" where
  "md5_words block = map (\<lambda>i. load_le32 (drop (i * 4) block)) [0..<16]"

definition md5_loop :: "u32 list \<Rightarrow> md5_regs \<Rightarrow> md5_regs" where
  "md5_loop m regs = fold (md5_loop_body m) [0..<64] regs"

definition md5_compress :: "u32 list \<Rightarrow> bytes \<Rightarrow> u32 list" where
  "md5_compress st block =
    (let m = md5_words block;
         (a, b, c, d) = md5_loop m (st ! 0, st ! 1, st ! 2, st ! 3)
     in [st ! 0 + a, st ! 1 + b, st ! 2 + c, st ! 3 + d])"

definition MD5_IV :: "u32 list" where
  "MD5_IV = [0x67452301, 0xefcdab89, 0x98badcfe, 0x10325476]"

type_synonym md5_ctx = "u32 hash_ctx"

text \<open>\<open>md5_init\<close> leaves the buffer as it finds it.\<close>

definition md5_init :: "md5_ctx \<Rightarrow> md5_ctx" where
  "md5_init ctx = ctx\<lparr>hstate := MD5_IV, total_len := 0, buf_len := 0\<rparr>"

definition md5_update :: "md5_ctx \<Rightarrow> bytes \<Rightarrow> md5_ctx" where
  "md5_update = stream_update md5_compress MD5_BLOCK_LEN"

definition md5_final :: "md5_ctx \<Rightarrow> bytes" where
  "md5_final ctx =
    (let ctx = stream_final md5_compress MD5_BLOCK_LEN 8 store_le64 ctx
     in concat (map (\<lambda>i. store_le32 (hstate ctx ! i)) [0..<4]))"

definition md5 :: "bytes \<Rightarrow> bytes" where
  "md5 data =
    (let ctx = \<lparr>hstate = replicate 4 0, total_len = 0, buf = replicate MD5_BLOCK_LEN 0, buf_len = 0\<rparr>
     in md5_final (md5_update (md5_init ctx) data))"


section \<open>The streaming contract\<close>

definition md5_spec :: "bytes \<Rightarrow> bytes" where
  "md5_spec msg = concat (map store_le32 (md_chain md5_compress 64 8 store_le64 MD5_IV msg))"

interpretation md5s: md_stream md5_compress 64 8 store_le64
  by unfold_locales simp_all

lemma length_md5_compress [simp]: "length (md5_compress st b) = 4"
  by (simp add: md5_compress_def Let_def split_def)

lemma length_md5_chain [simp]:
  "length iv = 4 \<Longrightarrow> length (foldl md5_compress iv bs) = 4"
  by (induction bs arbitrary: iv) simp_all

lemma length_MD5_IV [simp]: "length MD5_IV = 4"
  by (simp add: MD5_IV_def)

text \<open>C9: the reference MD5 computes the digest of the standard, whatever the buffer held before
  \<open>md5_init\<close> and however the message is cut into updates: the compression function folded over
  the blocks of message, marker byte, zeros and bit length, written out little-endian.\<close>
theorem md5_streaming_correct:
  assumes "length (buf ctx) = MD5_BLOCK_LEN"
  shows "md5_final (foldl md5_update (md5_init ctx) ds) = md5_spec (concat ds)"
proof -
  have "hstate (stream_final md5_compress 64 8 store_le64
      (foldl (stream_update md5_compress 64) (md5_init ctx) ds))
    = md_chain md5_compress 64 8 store_le64 MD5_IV (concat ds)"
    using md5s.stream_correct[of "md5_init ctx" ds] assms
    by (simp add: md5_init_def MD5_BLOCK_LEN_def)
  then show ?thesis
    by (simp only: md5_final_def md5_update_def MD5_BLOCK_LEN_def md5_spec_def Let_def)
      (simp add: map_nth_upt md_chain_def del: upt_Suc)
qed

text \<open>The vector ''abc'' of RFC 1321, absorbed in two pieces over a dirty buffer.\<close>
theorem md5_streaming_correct_witness:
  "md5_final (foldl md5_update
      (md5_init \<lparr>hstate = [1, 2, 3, 4], total_len = 77, buf = replicate 64 0xAA, buf_len = 5\<rparr>)
      [[0x61], [0x62, 0x63]])
   = [0x90, 0x01, 0x50, 0x98, 0x3c, 0xd2, 0x4f, 0xb0, 0xd6, 0x96, 0x3f, 0x7d, 0x28, 0xe1, 0x7f, 0x72]"
proof -
  have "md5_spec (concat [[0x61], [0x62, 0x63]]) =
    [0x90, 0x01, 0x50, 0x98, 0x3c, 0xd2, 0x4f, 0xb0, 0xd6, 0x96, 0x3f, 0x7d, 0x28, 0xe1, 0x7f, 0x72]"
    by code_simp
  then show ?thesis
    using md5_streaming_correct[of
      "\<lparr>hstate = [1, 2, 3, 4], total_len = 77, buf = replicate 64 0xAA, buf_len = 5\<rparr>"
      "[[0x61], [0x62, 0x63]]"]
    by (simp add: MD5_BLOCK_LEN_def)
qed

end
