(* ===== verification/Sha1_Ref.thy ===== *)
theory Sha1_Ref
  imports Md_Stream
begin

text \<open>
  src/reference/sha1.c: the scalar SHA-1, with its eighty-word message schedule kept as the array
  the code fills, and the eighty steps over it.  The streaming operations are those of
  \<open>Md_Stream\<close>, instantiated with big-endian length and digest.
\<close>

definition SHA1_BLOCK_LEN :: nat where "SHA1_BLOCK_LEN = 64"
definition SHA1_DIGEST_LEN :: nat where "SHA1_DIGEST_LEN = 20"

definition SHA1_K :: "u32 list" where
  "SHA1_K = [0x5a827999, 0x6ed9eba1, 0x8f1bbcdc, 0xca62c1d6]"

definition SHA1_IV :: "u32 list" where
  "SHA1_IV = [0x67452301, 0xefcdab89, 0x98badcfe, 0x10325476, 0xc3d2e1f0]"

type_synonym sha1_regs = "u32 \<times> u32 \<times> u32 \<times> u32 \<times> u32"

definition sha1_words :: "bytes \<Rightarrow> u32 list" where
  "sha1_words block = map (\<lambda>i. load_be32 (drop (i * 4) block)) [0..<16]"

definition sha1_expand :: "nat \<Rightarrow> u32 list \<Rightarrow> u32 list" where
  "sha1_expand i w = w @ [rotl32 (w ! (i - 3) XOR w ! (i - 8) XOR w ! (i - 14) XOR w ! (i - 16)) 1]"

definition sha1_schedule :: "u32 list \<Rightarrow> u32 list" where
  "sha1_schedule m = fold sha1_expand [16..<80] m"

text \<open>The switch on \<open>g = i / 20\<close>: choice, majority, and parity for the two other groups.\<close>

definition sha1_f :: "nat \<Rightarrow> u32 \<Rightarrow> u32 \<Rightarrow> u32 \<Rightarrow> u32" where
  "sha1_f g b c d =
    (if g = 0 then (b AND c) OR (NOT b AND d)
     else if g = 2 then (b AND c) OR (b AND d) OR (c AND d)
     else b XOR c XOR d)"

definition sha1_loop_body :: "u32 list \<Rightarrow> nat \<Rightarrow> sha1_regs \<Rightarrow> sha1_regs" where
  "sha1_loop_body w i = (\<lambda>(a, b, c, d, e).
    let g = i div 20;
        t = rotl32 a 5 + sha1_f g b c d + e + SHA1_K ! g + w ! i
    in (t, a, rotl32 b 30, c, d))"

definition sha1_loop :: "u32 list \<Rightarrow> sha1_regs \<Rightarrow> sha1_regs" where
  "sha1_loop w regs = fold (sha1_loop_body w) [0..<80] regs"

definition sha1_compress :: "u32 list \<Rightarrow> bytes \<Rightarrow> u32 list" where
  "sha1_compress st block =
    (let w = sha1_schedule (sha1_words block);
         (a, b, c, d, e) = sha1_loop w (st ! 0, st ! 1, st ! 2, st ! 3, st ! 4)
     in [st ! 0 + a, st ! 1 + b, st ! 2 + c, st ! 3 + d, st ! 4 + e])"

type_synonym sha1_ctx = "u32 hash_ctx"

definition sha1_init :: "sha1_ctx \<Rightarrow> sha1_ctx" where
  "sha1_init ctx = ctx\<lparr>hstate := SHA1_IV, total_len := 0, buf_len := 0\<rparr>"

definition sha1_update :: "sha1_ctx \<Rightarrow> bytes \<Rightarrow> sha1_ctx" where
  "sha1_update = stream_update sha1_compress SHA1_BLOCK_LEN"

definition sha1_final :: "sha1_ctx \<Rightarrow> bytes" where
  "sha1_final ctx =
    (let ctx = stream_final sha1_compress SHA1_BLOCK_LEN 8 sha1_store_be64 ctx
     in concat (map (\<lambda>i. store_be32 (hstate ctx ! i)) [0..<5]))"

definition sha1 :: "bytes \<Rightarrow> bytes" where
  "sha1 data =
    (let ctx = \<lparr>hstate = replicate 5 0, total_len = 0, buf = replicate SHA1_BLOCK_LEN 0, buf_len = 0\<rparr>
     in sha1_final (sha1_update (sha1_init ctx) data))"


section \<open>The streaming contract\<close>

definition sha1_spec :: "bytes \<Rightarrow> bytes" where
  "sha1_spec msg = concat (map store_be32 (md_chain sha1_compress 64 8 sha1_store_be64 SHA1_IV msg))"

interpretation sha1s: md_stream sha1_compress 64 8 sha1_store_be64
  by unfold_locales simp_all

lemma length_sha1_compress [simp]: "length (sha1_compress st b) = 5"
  by (simp add: sha1_compress_def Let_def split_def)

lemma length_sha1_chain [simp]:
  "length iv = 5 \<Longrightarrow> length (foldl sha1_compress iv bs) = 5"
  by (induction bs arbitrary: iv) simp_all

lemma length_SHA1_IV [simp]: "length SHA1_IV = 5"
  by (simp add: SHA1_IV_def)

text \<open>C10: the reference SHA-1 computes the digest of FIPS 180-4, whatever the buffer held before
  \<open>sha1_init\<close> and however the message is cut into updates.\<close>
theorem sha1_streaming_correct:
  assumes "length (buf ctx) = SHA1_BLOCK_LEN"
  shows "sha1_final (foldl sha1_update (sha1_init ctx) ds) = sha1_spec (concat ds)"
proof -
  have "hstate (stream_final sha1_compress 64 8 sha1_store_be64
      (foldl (stream_update sha1_compress 64) (sha1_init ctx) ds))
    = md_chain sha1_compress 64 8 sha1_store_be64 SHA1_IV (concat ds)"
    using sha1s.stream_correct[of "sha1_init ctx" ds] assms
    by (simp add: sha1_init_def SHA1_BLOCK_LEN_def)
  then show ?thesis
    by (simp only: sha1_final_def sha1_update_def SHA1_BLOCK_LEN_def sha1_spec_def Let_def)
      (simp add: map_nth_upt md_chain_def del: upt_Suc)
qed

text \<open>The vector ''abc'' of FIPS 180-4, absorbed in two pieces over a dirty buffer.\<close>
theorem sha1_streaming_correct_witness:
  "sha1_final (foldl sha1_update
      (sha1_init \<lparr>hstate = [9, 9, 9, 9, 9], total_len = 3, buf = replicate 64 0x55, buf_len = 63\<rparr>)
      [[0x61, 0x62], [0x63]])
   = sha1_spec [0x61, 0x62, 0x63]"
  using sha1_streaming_correct[of
      "\<lparr>hstate = [9, 9, 9, 9, 9], total_len = 3, buf = replicate 64 0x55, buf_len = 63\<rparr>"
      "[[0x61, 0x62], [0x63]]"]
  by (simp add: SHA1_BLOCK_LEN_def)

end
