(* ===== verification/Sha512_Ref.thy ===== *)
theory Sha512_Ref
  imports Md_Stream
begin

text \<open>
  src/reference/sha512.c with the tables of include/sha512_const.h: 64-bit words, 128-byte
  blocks, an eighty-word schedule and a 128-bit length field whose high half the code always
  writes as zero.  The field is therefore 16 bytes for the padding and 8 for the value.
\<close>

definition SHA512_BLOCK_LEN :: nat where "SHA512_BLOCK_LEN = 128"
definition SHA512_DIGEST_LEN :: nat where "SHA512_DIGEST_LEN = 64"

text \<open>The round constants of section 4.2.3, eight to a row.\<close>

definition SHA512_K :: "u64 list" where
  "SHA512_K = concat [
    [0x428a2f98d728ae22, 0x7137449123ef65cd, 0xb5c0fbcfec4d3b2f, 0xe9b5dba58189dbbc,
     0x3956c25bf348b538, 0x59f111f1b605d019, 0x923f82a4af194f9b, 0xab1c5ed5da6d8118],
    [0xd807aa98a3030242, 0x12835b0145706fbe, 0x243185be4ee4b28c, 0x550c7dc3d5ffb4e2,
     0x72be5d74f27b896f, 0x80deb1fe3b1696b1, 0x9bdc06a725c71235, 0xc19bf174cf692694],
    [0xe49b69c19ef14ad2, 0xefbe4786384f25e3, 0x0fc19dc68b8cd5b5, 0x240ca1cc77ac9c65,
     0x2de92c6f592b0275, 0x4a7484aa6ea6e483, 0x5cb0a9dcbd41fbd4, 0x76f988da831153b5],
    [0x983e5152ee66dfab, 0xa831c66d2db43210, 0xb00327c898fb213f, 0xbf597fc7beef0ee4,
     0xc6e00bf33da88fc2, 0xd5a79147930aa725, 0x06ca6351e003826f, 0x142929670a0e6e70],
    [0x27b70a8546d22ffc, 0x2e1b21385c26c926, 0x4d2c6dfc5ac42aed, 0x53380d139d95b3df,
     0x650a73548baf63de, 0x766a0abb3c77b2a8, 0x81c2c92e47edaee6, 0x92722c851482353b],
    [0xa2bfe8a14cf10364, 0xa81a664bbc423001, 0xc24b8b70d0f89791, 0xc76c51a30654be30,
     0xd192e819d6ef5218, 0xd69906245565a910, 0xf40e35855771202a, 0x106aa07032bbd1b8],
    [0x19a4c116b8d2d0c8, 0x1e376c085141ab53, 0x2748774cdf8eeb99, 0x34b0bcb5e19b48a8,
     0x391c0cb3c5c95a63, 0x4ed8aa4ae3418acb, 0x5b9cca4f7763e373, 0x682e6ff3d6b2b8a3],
    [0x748f82ee5defb2fc, 0x78a5636f43172f60, 0x84c87814a1f0ab72, 0x8cc702081a6439ec,
     0x90befffa23631e28, 0xa4506cebde82bde9, 0xbef9a3f7b2c67915, 0xc67178f2e372532b],
    [0xca273eceea26619c, 0xd186b8c721c0c207, 0xeada7dd6cde0eb1e, 0xf57d4f7fee6ed178,
     0x06f067aa72176fba, 0x0a637dc5a2c898a6, 0x113f9804bef90dae, 0x1b710b35131c471b],
    [0x28db77f523047d84, 0x32caab7b40c72493, 0x3c9ebe0a15c9bebc, 0x431d67c49c100d4c,
     0x4cc5d4becb3e42b6, 0x597f299cfc657e2a, 0x5fcb6fab3ad6faec, 0x6c44198c4a475817]
  ]"

definition SHA512_IV :: "u64 list" where
  "SHA512_IV = [
    0x6a09e667f3bcc908, 0xbb67ae8584caa73b, 0x3c6ef372fe94f82b, 0xa54ff53a5f1d36f1,
    0x510e527fade682d1, 0x9b05688c2b3e6c1f, 0x1f83d9abfb41bd6b, 0x5be0cd19137e2179]"

definition CH :: "u64 \<Rightarrow> u64 \<Rightarrow> u64 \<Rightarrow> u64" where "CH x y z = (x AND y) XOR (NOT x AND z)"
definition MAJ :: "u64 \<Rightarrow> u64 \<Rightarrow> u64 \<Rightarrow> u64" where
  "MAJ x y z = (x AND y) XOR (x AND z) XOR (y AND z)"
definition BSIG0 :: "u64 \<Rightarrow> u64" where "BSIG0 x = rotr64 x 28 XOR rotr64 x 34 XOR rotr64 x 39"
definition BSIG1 :: "u64 \<Rightarrow> u64" where "BSIG1 x = rotr64 x 14 XOR rotr64 x 18 XOR rotr64 x 41"
definition SSIG0 :: "u64 \<Rightarrow> u64" where "SSIG0 x = rotr64 x 1 XOR rotr64 x 8 XOR drop_bit 7 x"
definition SSIG1 :: "u64 \<Rightarrow> u64" where "SSIG1 x = rotr64 x 19 XOR rotr64 x 61 XOR drop_bit 6 x"

type_synonym sha512_regs = "u64 \<times> u64 \<times> u64 \<times> u64 \<times> u64 \<times> u64 \<times> u64 \<times> u64"

definition sha512_words :: "bytes \<Rightarrow> u64 list" where
  "sha512_words block = map (\<lambda>i. load_be64 (drop (i * 8) block)) [0..<16]"

definition sha512_expand :: "nat \<Rightarrow> u64 list \<Rightarrow> u64 list" where
  "sha512_expand i w = w @ [SSIG1 (w ! (i - 2)) + w ! (i - 7) + SSIG0 (w ! (i - 15)) + w ! (i - 16)]"

definition sha512_schedule :: "u64 list \<Rightarrow> u64 list" where
  "sha512_schedule m = fold sha512_expand [16..<80] m"

definition sha512_loop_body :: "u64 list \<Rightarrow> nat \<Rightarrow> sha512_regs \<Rightarrow> sha512_regs" where
  "sha512_loop_body w i = (\<lambda>(a, b, c, d, e, f, g, h).
    let t1 = h + BSIG1 e + CH e f g + SHA512_K ! i + w ! i;
        t2 = BSIG0 a + MAJ a b c
    in (t1 + t2, a, b, c, d + t1, e, f, g))"

definition sha512_loop :: "u64 list \<Rightarrow> sha512_regs \<Rightarrow> sha512_regs" where
  "sha512_loop w regs = fold (sha512_loop_body w) [0..<80] regs"

definition sha512_compress :: "u64 list \<Rightarrow> bytes \<Rightarrow> u64 list" where
  "sha512_compress st block =
    (let w = sha512_schedule (sha512_words block);
         (a, b, c, d, e, f, g, h) =
           sha512_loop w (st ! 0, st ! 1, st ! 2, st ! 3, st ! 4, st ! 5, st ! 6, st ! 7)
     in [st ! 0 + a, st ! 1 + b, st ! 2 + c, st ! 3 + d,
         st ! 4 + e, st ! 5 + f, st ! 6 + g, st ! 7 + h])"

type_synonym sha512_ctx = "u64 hash_ctx"

definition sha512_init :: "sha512_ctx \<Rightarrow> sha512_ctx" where
  "sha512_init ctx = ctx\<lparr>hstate := SHA512_IV, total_len := 0, buf_len := 0\<rparr>"

definition sha512_update :: "sha512_ctx \<Rightarrow> bytes \<Rightarrow> sha512_ctx" where
  "sha512_update = stream_update sha512_compress SHA512_BLOCK_LEN"

text \<open>The two adjacent stores at \<open>BLOCK_LEN - 16\<close> and \<open>BLOCK_LEN - 8\<close>.\<close>

definition sha512_length_field :: "u64 \<Rightarrow> bytes" where
  "sha512_length_field bit_len = store_be64 0 @ store_be64 bit_len"

definition sha512_final :: "sha512_ctx \<Rightarrow> bytes" where
  "sha512_final ctx =
    (let ctx = stream_final sha512_compress SHA512_BLOCK_LEN 16 sha512_length_field ctx
     in concat (map (\<lambda>i. store_be64 (hstate ctx ! i)) [0..<8]))"

definition sha512 :: "bytes \<Rightarrow> bytes" where
  "sha512 data =
    (let ctx = \<lparr>hstate = replicate 8 0, total_len = 0, buf = replicate SHA512_BLOCK_LEN 0, buf_len = 0\<rparr>
     in sha512_final (sha512_update (sha512_init ctx) data))"


section \<open>The streaming contract\<close>

definition sha512_spec :: "bytes \<Rightarrow> bytes" where
  "sha512_spec msg =
     concat (map store_be64 (md_chain sha512_compress 128 16 sha512_length_field SHA512_IV msg))"

lemma length_sha512_length_field [simp]: "length (sha512_length_field v) = 16"
  by (simp add: sha512_length_field_def)

interpretation sha512s: md_stream sha512_compress 128 16 sha512_length_field
  by unfold_locales simp_all

lemma length_sha512_compress [simp]: "length (sha512_compress st b) = 8"
  by (simp add: sha512_compress_def Let_def split_def)

lemma length_sha512_chain [simp]:
  "length iv = 8 \<Longrightarrow> length (foldl sha512_compress iv bs) = 8"
  by (induction bs arbitrary: iv) simp_all

lemma length_SHA512_IV [simp]: "length SHA512_IV = 8"
  by (simp add: SHA512_IV_def)

text \<open>C11: the reference SHA-512 computes the digest of FIPS 180-4, whatever the buffer held before
  \<open>sha512_init\<close> and however the message is cut into updates.\<close>
theorem sha512_streaming_correct:
  assumes "length (buf ctx) = SHA512_BLOCK_LEN"
  shows "sha512_final (foldl sha512_update (sha512_init ctx) ds) = sha512_spec (concat ds)"
proof -
  have "hstate (stream_final sha512_compress 128 16 sha512_length_field
      (foldl (stream_update sha512_compress 128) (sha512_init ctx) ds))
    = md_chain sha512_compress 128 16 sha512_length_field SHA512_IV (concat ds)"
    using sha512s.stream_correct[of "sha512_init ctx" ds] assms
    by (simp add: sha512_init_def SHA512_BLOCK_LEN_def)
  then show ?thesis
    by (simp only: sha512_final_def sha512_update_def SHA512_BLOCK_LEN_def sha512_spec_def Let_def)
      (simp add: map_nth_upt md_chain_def del: upt_Suc)
qed

text \<open>The vector ''abc'' of FIPS 180-4, absorbed in three pieces over a dirty buffer.\<close>
theorem sha512_streaming_correct_witness:
  "sha512_final (foldl sha512_update
      (sha512_init \<lparr>hstate = [], total_len = 3, buf = replicate 128 0x55, buf_len = 127\<rparr>)
      [[0x61], [], [0x62, 0x63]])
   = sha512_spec [0x61, 0x62, 0x63]"
  using sha512_streaming_correct[of
      "\<lparr>hstate = [], total_len = 3, buf = replicate 128 0x55, buf_len = 127\<rparr>"
      "[[0x61], [], [0x62, 0x63]]"]
  by (simp add: SHA512_BLOCK_LEN_def)

end
