(* ===== verification/Algorithm.thy ===== *)
theory Algorithm
  imports Md5_Ref Sha1_Ref Sha512_Ref
begin

text \<open>
  include/algorithm.h and src/algorithm.c: the descriptor that makes the corpus builder, the
  reference oracle and the reporting independent of the hash function, the table of the three
  descriptors and its two lookups.  \<open>alg_ok\<close> collects what the rest of the program relies on, and
  \<open>known_alg_ok\<close> shows that every row of the table has it.
\<close>

definition VB_MAX_DIGEST_WORDS :: nat where "VB_MAX_DIGEST_WORDS = 8"
definition VB_WORDS_PER_BLOCK :: nat where "VB_WORDS_PER_BLOCK = 16"
definition VB_MAX_MSG_BYTES :: nat where "VB_MAX_MSG_BYTES = 1048576"

datatype vb_alg_id = VB_ALG_MD5 | VB_ALG_SHA1 | VB_ALG_SHA512

record vb_algorithm =
  alg_id :: vb_alg_id
  alg_name :: string
  digest_words :: nat
  digest_bytes :: nat
  word_bytes :: nat
  block_bytes :: nat
  length_bytes :: nat
  rounds :: nat
  big_endian :: bool
  hash :: "bytes \<Rightarrow> bytes"

definition md5_alg :: vb_algorithm where
  "md5_alg = \<lparr>alg_id = VB_ALG_MD5, alg_name = ''md5'', digest_words = 4, digest_bytes = 16,
     word_bytes = 4, block_bytes = 64, length_bytes = 8, rounds = 64, big_endian = False,
     hash = md5\<rparr>"

definition sha1_alg :: vb_algorithm where
  "sha1_alg = \<lparr>alg_id = VB_ALG_SHA1, alg_name = ''sha1'', digest_words = 5, digest_bytes = 20,
     word_bytes = 4, block_bytes = 64, length_bytes = 8, rounds = 80, big_endian = True,
     hash = sha1\<rparr>"

definition sha512_alg :: vb_algorithm where
  "sha512_alg = \<lparr>alg_id = VB_ALG_SHA512, alg_name = ''sha512'', digest_words = 8, digest_bytes = 64,
     word_bytes = 8, block_bytes = 128, length_bytes = 16, rounds = 80, big_endian = True,
     hash = sha512\<rparr>"

definition ALGS :: "vb_algorithm list" where
  "ALGS = [md5_alg, sha1_alg, sha512_alg]"

text \<open>The C enumeration is an int at the call; out of its range the lookup answers NULL.\<close>

definition vb_algorithm_by_id :: "int \<Rightarrow> vb_algorithm option" where
  "vb_algorithm_by_id i = (if i < 0 \<or> 3 \<le> i then None else Some (ALGS ! nat i))"

definition vb_algorithm_by_name :: "string \<Rightarrow> vb_algorithm option" where
  "vb_algorithm_by_name name = find (\<lambda>a. alg_name a = name) ALGS"

text \<open>\<open>vb_alg_blocks_for\<close> computes at 32 bits.\<close>

definition vb_alg_blocks_for :: "vb_algorithm \<Rightarrow> u32 \<Rightarrow> u32" where
  "vb_alg_blocks_for a bytes =
    (let per = of_nat (block_bytes a); overhead = 1 + of_nat (length_bytes a)
     in (bytes + overhead + per - 1) div per)"

definition vb_alg_min_iter_bytes :: "vb_algorithm \<Rightarrow> nat" where
  "vb_alg_min_iter_bytes a = digest_bytes a"


section \<open>What the table guarantees\<close>

text \<open>The number of blocks the padded message needs, without the machine arithmetic.\<close>

definition blocks_needed :: "vb_algorithm \<Rightarrow> nat \<Rightarrow> nat" where
  "blocks_needed a n = (n + 1 + length_bytes a + block_bytes a - 1) div block_bytes a"

definition alg_ok :: "vb_algorithm \<Rightarrow> bool" where
  "alg_ok a \<longleftrightarrow>
     block_bytes a = VB_WORDS_PER_BLOCK * word_bytes a \<and>
     digest_bytes a = digest_words a * word_bytes a \<and>
     digest_words a \<le> VB_MAX_DIGEST_WORDS \<and> 0 < digest_words a \<and>
     word_bytes a \<in> {4, 8} \<and>
     8 \<le> length_bytes a \<and> length_bytes a < block_bytes a \<and> digest_bytes a \<le> block_bytes a"

lemma known_alg_cases:
  assumes "a \<in> set ALGS"
  obtains "a = md5_alg" | "a = sha1_alg" | "a = sha512_alg"
  using assms by (auto simp: ALGS_def)

lemmas alg_defs = md5_alg_def sha1_alg_def sha512_alg_def

lemma known_alg_ok [simp, intro]: "a \<in> set ALGS \<Longrightarrow> alg_ok a"
  by (erule known_alg_cases) (simp_all add: alg_ok_def alg_defs VB_WORDS_PER_BLOCK_def VB_MAX_DIGEST_WORDS_def)

lemma blocks_for_nat:
  assumes "a \<in> set ALGS" "n \<le> VB_MAX_MSG_BYTES"
  shows "unat (vb_alg_blocks_for a (of_nat n)) = blocks_needed a n"
proof -
  have U: "unat (of_nat n + of_nat k :: u32) = n + k" if "k \<le> 144" for k
    using assms(2) that unat_of_nat[of "n + k", where 'a = 32] by (simp add: VB_MAX_MSG_BYTES_def)
  have "unat (72 + of_nat n :: u32) = 72 + n" "unat (144 + of_nat n :: u32) = 144 + n"
    using U[of 72] U[of 144] by (simp_all add: add.commute)
  then show ?thesis
    using assms(1)
    by (elim known_alg_cases)
      (simp_all add: vb_alg_blocks_for_def blocks_needed_def alg_defs Let_def unat_div)
qed

text \<open>C12: the block count of a message is the smallest number of blocks that holds the message,
  the marker byte and the length field, and the 32-bit computation does not overflow for any
  message length the command line accepts.\<close>
theorem blocks_for_least:
  assumes "a \<in> set ALGS" "n \<le> VB_MAX_MSG_BYTES"
  shows "unat (vb_alg_blocks_for a (of_nat n)) = (LEAST k. n + 1 + length_bytes a \<le> k * block_bytes a)"
proof -
  have B: "0 < block_bytes a"
    using known_alg_ok[OF assms(1)] by (auto simp: alg_ok_def)
  show ?thesis unfolding blocks_for_nat[OF assms]
  proof (rule Least_equality[symmetric])
    show "n + 1 + length_bytes a \<le> blocks_needed a n * block_bytes a"
      using ceil_div_ge[OF B, of "n + 1 + length_bytes a"] by (simp add: blocks_needed_def)
  next
    fix k assume "n + 1 + length_bytes a \<le> k * block_bytes a"
    then show "blocks_needed a n \<le> k"
      using ceil_div_least[OF B, of "n + 1 + length_bytes a" k] by (simp add: blocks_needed_def)
  qed
qed

text \<open>A 120-byte message takes three MD5 blocks: the length field no longer fits behind byte 119.\<close>
theorem blocks_for_least_witness:
  "unat (vb_alg_blocks_for md5_alg (of_nat 120)) = 3
   \<and> unat (vb_alg_blocks_for md5_alg (of_nat 120)) = (LEAST k. 120 + 1 + length_bytes md5_alg \<le> k * block_bytes md5_alg)"
proof
  show "unat (vb_alg_blocks_for md5_alg (of_nat 120)) = 3"
    by (simp add: vb_alg_blocks_for_def md5_alg_def unat_div)
  show "unat (vb_alg_blocks_for md5_alg (of_nat 120)) = (LEAST k. 120 + 1 + length_bytes md5_alg \<le> k * block_bytes md5_alg)"
    by (rule blocks_for_least) (simp_all add: ALGS_def VB_MAX_MSG_BYTES_def)
qed

text \<open>The lookups: by name and by id answer the same row, and nothing else is found.\<close>

lemma by_id_row: "vb_algorithm_by_id i = Some a \<Longrightarrow> a \<in> set ALGS"
  by (auto simp: vb_algorithm_by_id_def ALGS_def nth_Cons split: if_splits nat.splits)

lemma by_name_iff: "vb_algorithm_by_name name = Some a \<longleftrightarrow> a \<in> set ALGS \<and> alg_name a = name"
proof
  assume "vb_algorithm_by_name name = Some a"
  then show "a \<in> set ALGS \<and> alg_name a = name"
    by (auto simp: vb_algorithm_by_name_def find_Some_iff in_set_conv_nth)
next
  assume "a \<in> set ALGS \<and> alg_name a = name"
  then have "a \<in> set ALGS" "name = alg_name a" by simp_all
  then show "vb_algorithm_by_name name = Some a"
    by (elim known_alg_cases) (simp_all add: vb_algorithm_by_name_def ALGS_def alg_defs)
qed

end
