(* ===== verification/Workload.thy ===== *)
theory Workload
  imports Algorithm Decimal
begin

text \<open>
  The first half of src/workload.c: the messages, their padding and the lane-interleaved corpus.
  \<open>vb_corpus_build\<close> keeps the order of the C loops; an allocation the C code may be refused is an
  argument.  Element values of the corpus are kept as 64-bit words whatever their width in memory,
  truncated to the width the code stores.

  Sizes and counts (\<open>size_t\<close>, and \<open>uint64_t\<close> message counts) are natural numbers: the largest the
  program forms is the byte size of an allocation.  Message indices wrap at 32 bits as in C.
\<close>

section \<open>Messages\<close>

definition pattern_byte :: "u32 \<Rightarrow> u8" where
  "pattern_byte offset = ucast (offset * 0x9d + 0x3b)"

definition vb_build_message :: "u32 \<Rightarrow> nat \<Rightarrow> bytes" where
  "vb_build_message index bytes =
    (let n = (if bytes < 4 then bytes else 4)
     in map (\<lambda>i. ucast (drop_bit (8 * i) index)) [0..<n] @ map (\<lambda>i. pattern_byte (of_nat i)) [n..<bytes])"

lemma length_build_message [simp]: "length (vb_build_message i n) = n"
  by (simp add: vb_build_message_def Let_def)

definition vb_distinct_messages :: "nat \<Rightarrow> u64" where
  "vb_distinct_messages bytes = (let n = (if bytes < 4 then bytes else 4) in push_bit (8 * n) 1)"

text \<open>\<open>snprintf\<close> into a buffer of \<open>n\<close> bytes keeps the first \<open>n - 1\<close> characters.\<close>

definition vb_workload_id :: "nat \<Rightarrow> vb_algorithm \<Rightarrow> nat \<Rightarrow> nat \<Rightarrow> string" where
  "vb_workload_id n alg message_bytes iterations =
     take (n - 1) (alg_name alg @ ''-full-'' @ dec message_bytes @ ''x'' @ dec iterations)"

definition pad_message :: "vb_algorithm \<Rightarrow> bytes \<Rightarrow> nat \<Rightarrow> nat \<Rightarrow> bytes" where
  "pad_message a msg bytes blocks =
    (let total = blocks * block_bytes a;
         bit_len = of_nat bytes * 8 :: u64;
         out = take bytes msg @ [0x80] @ replicate (total - bytes - 1) 0;
         lf = map (\<lambda>i. if big_endian a then ucast (drop_bit (56 - 8 * i) bit_len)
                       else ucast (drop_bit (8 * i) bit_len)) [0..<8];
         out = put_at out (total - 8) lf
     in if \<not> big_endian a \<and> 8 < length_bytes a then put_at out (total - length_bytes a) lf else out)"

definition load_word :: "vb_algorithm \<Rightarrow> bytes \<Rightarrow> u64" where
  "load_word a p =
    (if big_endian a then fold (\<lambda>i v. push_bit 8 v OR ucast (p ! i)) [0..<word_bytes a] 0
     else fold (\<lambda>i v. v OR push_bit (8 * i) (ucast (p ! i))) [0..<word_bytes a] 0)"


section \<open>The corpus\<close>

record vb_corpus =
  c_words :: "u64 list"
  c_n_words :: nat
  c_alg :: vb_algorithm
  c_lanes :: nat
  c_blocks :: nat
  c_message_bytes :: nat
  c_n_messages :: nat
  c_start_index :: u32

definition store_element :: "vb_algorithm \<Rightarrow> u64 \<Rightarrow> u64" where
  "store_element a v = (if word_bytes a = 8 then v else ucast (ucast v :: u32))"

definition corpus_at :: "nat \<Rightarrow> nat \<Rightarrow> nat \<Rightarrow> nat \<Rightarrow> nat \<Rightarrow> nat" where
  "corpus_at blocks lanes m b j =
    (let slot = m div lanes; lane = m mod lanes
     in (((slot * blocks) + b) * VB_WORDS_PER_BLOCK + j) * lanes + lane)"

definition fill_corpus :: "vb_algorithm \<Rightarrow> nat \<Rightarrow> u32 \<Rightarrow> nat \<Rightarrow> nat \<Rightarrow> nat \<Rightarrow> u64 list \<Rightarrow> u64 list" where
  "fill_corpus alg lanes start_index n_messages message_bytes blocks words =
    fold (\<lambda>m words.
      let msg = vb_build_message (start_index + of_nat m) message_bytes;
          padded = pad_message alg msg message_bytes blocks
      in fold (\<lambda>b words. fold (\<lambda>j words.
           let src = drop (b * block_bytes alg + j * word_bytes alg) padded
           in words[corpus_at blocks lanes m b j := store_element alg (load_word alg src)])
           [0..<VB_WORDS_PER_BLOCK] words) [0..<blocks] words)
      [0..<n_messages] words"

text \<open>\<open>alloc\<close> answers \<open>aligned_alloc\<close>: the memory it returns, with whatever it holds, or nothing;
  \<open>scratch_ok\<close> says that the two \<open>malloc\<close>s succeeded.  \<open>None\<close> is the error return.\<close>

definition vb_corpus_build ::
  "(nat \<Rightarrow> u64 list option) \<Rightarrow> bool \<Rightarrow> vb_algorithm option \<Rightarrow> nat \<Rightarrow> u32 \<Rightarrow> nat \<Rightarrow> nat \<Rightarrow> vb_corpus option" where
  "vb_corpus_build alloc scratch_ok alg lanes start_index n_messages message_bytes =
    (case alg of None \<Rightarrow> None
     | Some alg \<Rightarrow>
       if lanes = 0 \<or> n_messages = 0 \<or> n_messages mod lanes \<noteq> 0 then None
       else
         let blocks = unat (vb_alg_blocks_for alg (of_nat message_bytes));
             n_words = n_messages * blocks * VB_WORDS_PER_BLOCK
         in case alloc n_words of None \<Rightarrow> None
            | Some words \<Rightarrow>
              if \<not> scratch_ok then None
              else Some \<lparr>
                c_words = fill_corpus alg lanes start_index n_messages message_bytes blocks words,
                c_n_words = n_words, c_alg = alg, c_lanes = lanes, c_blocks = blocks,
                c_message_bytes = message_bytes, c_n_messages = n_messages,
                c_start_index = start_index\<rparr>)"

definition vb_corpus_free :: "vb_corpus \<Rightarrow> vb_corpus" where
  "vb_corpus_free c = c\<lparr>c_words := [], c_n_words := 0\<rparr>"

definition vb_corpus_slot_words :: "vb_corpus \<Rightarrow> nat" where
  "vb_corpus_slot_words c = c_blocks c * VB_WORDS_PER_BLOCK * c_lanes c"


end
