(* ===== verification/Reference.thy ===== *)
theory Reference
  imports Workload
begin

text \<open>
  The second half of src/workload.c: the reference checksums every measured result is compared
  with.  \<open>vb_reference_checksums\<close> walks each message once to the largest iteration count and
  snapshots at every requested one; the threaded form cuts the message range into slices and
  survives threads that cannot be started or joined.  \<open>ref_checksum\<close> is what both are meant to
  compute for one iteration count.
\<close>

section \<open>The reference checksums\<close>

type_synonym checksum = "u64 list"

definition zero_checksum :: checksum where
  "zero_checksum = replicate VB_MAX_DIGEST_WORDS 0"

text \<open>The XOR of a digest into a checkpoint: \<open>out[k][j] ^= load_word (...)\<close> for every digest word.\<close>

definition xor_digest :: "vb_algorithm \<Rightarrow> bytes \<Rightarrow> checksum \<Rightarrow> checksum" where
  "xor_digest alg digest row =
    fold (\<lambda>j row. row[j := row ! j XOR load_word alg (drop (j * word_bytes alg) digest)])
      [0..<digest_words alg] row"

text \<open>The snapshot loop \<open>while (k < n_iters && iters[k] == it + 1)\<close>.\<close>

function snapshots ::
  "vb_algorithm \<Rightarrow> nat list \<Rightarrow> nat \<Rightarrow> bytes \<Rightarrow> nat \<Rightarrow> checksum list \<Rightarrow> nat \<times> checksum list" where
  "snapshots alg iters it digest k out =
    (if k < length iters \<and> iters ! k = it + 1
     then snapshots alg iters it digest (k + 1) (out[k := xor_digest alg digest (out ! k)])
     else (k, out))"
  by auto
termination by (relation "measure (\<lambda>(alg, iters, it, digest, k, out). length iters - k)") auto

declare snapshots.simps [simp del]

text \<open>One message of the pass: \<open>maxit\<close> chained hashes, the digest copied over the head of the
  message between them.\<close>

definition ref_message ::
  "vb_algorithm \<Rightarrow> nat list \<Rightarrow> bytes \<Rightarrow> checksum list \<Rightarrow> checksum list" where
  "ref_message alg iters msg out =
    (let maxit = iters ! (length iters - 1);
         (msg, k, out) = fold (\<lambda>it (msg, k, out).
            let digest = hash alg msg;
                (k, out) = snapshots alg iters it digest k out;
                msg = (if it + 1 < maxit then put_at msg 0 (take (digest_bytes alg) digest) else msg)
            in (msg, k, out)) [0..<maxit] (msg, 0, out)
     in out)"

definition vb_reference_checksums ::
  "bool \<Rightarrow> vb_algorithm \<Rightarrow> u32 \<Rightarrow> nat \<Rightarrow> nat \<Rightarrow> nat list \<Rightarrow> checksum list" where
  "vb_reference_checksums msg_ok alg start cnt message_bytes iters =
    (let out = replicate (length iters) zero_checksum in
     if \<not> msg_ok \<or> iters = [] then out
     else fold (\<lambda>n out. ref_message alg iters (vb_build_message (start + of_nat n) message_bytes) out)
            [0..<cnt] out)"

definition vb_reference_checksum ::
  "bool \<Rightarrow> vb_algorithm \<Rightarrow> u32 \<Rightarrow> nat \<Rightarrow> nat \<Rightarrow> nat \<Rightarrow> checksum" where
  "vb_reference_checksum msg_ok alg start cnt message_bytes iterations =
     vb_reference_checksums msg_ok alg start cnt message_bytes [iterations] ! 0"

text \<open>The threaded form.  The environment of a call: whether the three tables and the \<open>started\<close>
  flags could be allocated, whether the pass over slice \<open>i\<close> got the memory for its message (each slice
  allocates its own; the serial pass counts as slice 0), which \<open>pthread_create\<close> and \<open>pthread_join\<close>
  calls succeed, and what a slice's part of the table holds after a join that failed.  A thread that was started and joined
  has written its part; a part nobody was started for is still the zeros of \<open>calloc\<close>.\<close>

record ref_env =
  tables_ok :: bool
  flags_ok :: bool
  slice_ok :: "nat \<Rightarrow> bool"
  create_ok :: "nat \<Rightarrow> bool"
  join_ok :: "nat \<Rightarrow> bool"
  unjoined :: "nat \<Rightarrow> checksum list"

record ref_slice =
  sl_start :: u32
  sl_count :: nat

definition ref_slices :: "u32 \<Rightarrow> nat \<Rightarrow> nat \<Rightarrow> ref_slice list" where
  "ref_slices start cnt threads =
    (let base = cnt div threads; extra = cnt mod threads
     in snd (fold (\<lambda>i (off, sl).
          let c = base + (if i < extra then 1 else 0)
          in (off + c, sl @ [\<lparr>sl_start = start + of_nat off, sl_count = c\<rparr>]))
        [0..<threads] (0, [])))"

definition xor_tables :: "checksum list \<Rightarrow> checksum list \<Rightarrow> checksum list" where
  "xor_tables out part =
    fold (\<lambda>k out. out[k := fold (\<lambda>j row. row[j := row ! j XOR part ! k ! j])
        [0..<VB_MAX_DIGEST_WORDS] (out ! k)]) [0..<length out] out"

definition vb_reference_checksums_mt ::
  "ref_env \<Rightarrow> vb_algorithm \<Rightarrow> u32 \<Rightarrow> nat \<Rightarrow> nat \<Rightarrow> nat list \<Rightarrow> nat \<Rightarrow> checksum list" where
  "vb_reference_checksums_mt env alg start cnt message_bytes iters threads =
    (let serial = vb_reference_checksums (slice_ok env 0) alg start cnt message_bytes iters in
     if iters = [] then []
     else if threads < 2 \<or> cnt < threads then serial
     else if \<not> tables_ok env then serial
     else if \<not> flags_ok env then serial
     else
       let sl = ref_slices start cnt threads;
           ref_slice_main = (\<lambda>i. vb_reference_checksums (slice_ok env i) alg (sl_start (sl ! i))
                                    (sl_count (sl ! i)) message_bytes iters);
           started = (\<lambda>i. 0 < i \<and> create_ok env i);
           table = map (\<lambda>i. if started i
                           then (if join_ok env i then ref_slice_main i else unjoined env i)
                           else replicate (length iters) zero_checksum) [0..<threads];
           table = table[0 := ref_slice_main 0]
       in snd (fold (\<lambda>i (table, out).
            let table = (if 0 < i \<and> started i
                         then (if join_ok env i then table else table[i := ref_slice_main i])
                         else if 0 < i then table[i := ref_slice_main i] else table)
            in (table, xor_tables out (table ! i)))
            [0..<threads] (table, replicate (length iters) zero_checksum)))"

definition vb_reference_checksum_mt ::
  "ref_env \<Rightarrow> vb_algorithm \<Rightarrow> u32 \<Rightarrow> nat \<Rightarrow> nat \<Rightarrow> nat \<Rightarrow> nat \<Rightarrow> checksum" where
  "vb_reference_checksum_mt env alg start cnt message_bytes iterations threads =
     vb_reference_checksums_mt env alg start cnt message_bytes [iterations] threads ! 0"

section \<open>What a reference checksum is\<close>

text \<open>The message after \<open>k\<close> digests have been fed back, and the digest of iteration \<open>k\<close> (from 1).\<close>

primrec iter_msg :: "vb_algorithm \<Rightarrow> bytes \<Rightarrow> nat \<Rightarrow> bytes" where
  "iter_msg alg msg 0 = msg"
| "iter_msg alg msg (Suc k) =
     (let m = iter_msg alg msg k in put_at m 0 (take (digest_bytes alg) (hash alg m)))"

definition iter_digest :: "vb_algorithm \<Rightarrow> bytes \<Rightarrow> nat \<Rightarrow> bytes" where
  "iter_digest alg msg k = hash alg (iter_msg alg msg (k - 1))"

definition digest_row :: "vb_algorithm \<Rightarrow> bytes \<Rightarrow> checksum" where
  "digest_row alg digest =
     map (\<lambda>j. if j < digest_words alg then load_word alg (drop (j * word_bytes alg) digest) else 0)
       [0..<VB_MAX_DIGEST_WORDS]"

definition ref_checksum :: "vb_algorithm \<Rightarrow> u32 \<Rightarrow> nat \<Rightarrow> nat \<Rightarrow> nat \<Rightarrow> checksum" where
  "ref_checksum alg start cnt message_bytes k =
     map (\<lambda>j. xor_over (\<lambda>n. digest_row alg
                (iter_digest alg (vb_build_message (start + of_nat n) message_bytes) k) ! j) [0..<cnt])
       [0..<VB_MAX_DIGEST_WORDS]"

lemma length_digest_row [simp]: "length (digest_row alg d) = VB_MAX_DIGEST_WORDS"
  by (simp add: digest_row_def)

lemma length_zero_checksum [simp]: "length zero_checksum = VB_MAX_DIGEST_WORDS"
  by (simp add: zero_checksum_def)

lemma xor_digest_row:
  assumes "length row = VB_MAX_DIGEST_WORDS" "digest_words alg \<le> VB_MAX_DIGEST_WORDS"
  shows "xor_digest alg d row = map (\<lambda>j. row ! j XOR digest_row alg d ! j) [0..<VB_MAX_DIGEST_WORDS]"
proof -
  let ?f = "\<lambda>j v. v XOR load_word alg (drop (j * word_bytes alg) d)"
  have "xor_digest alg d row = map (\<lambda>k. ?f k (row ! k)) [0..<digest_words alg] @ drop (digest_words alg) row"
    unfolding xor_digest_def by (rule foreach_prefix) (use assms in simp)
  then show ?thesis
    using assms by (intro nth_equalityI) (auto simp: nth_append digest_row_def)
qed


section \<open>The ladder\<close>

definition rungs_upto :: "nat list \<Rightarrow> nat \<Rightarrow> nat" where
  "rungs_upto iters n = length (takeWhile (\<lambda>x. x \<le> n) iters)"

lemma rungs_upto_le: "rungs_upto iters n \<le> length iters"
  by (simp add: rungs_upto_def length_takeWhile_le)

lemma rungs_upto_iff:
  assumes "sorted iters" "i < length iters"
  shows "i < rungs_upto iters n \<longleftrightarrow> iters ! i \<le> n"
proof
  assume "i < rungs_upto iters n"
  then show "iters ! i \<le> n"
    unfolding rungs_upto_def by (metis (mono_tags, lifting) nth_mem set_takeWhileD takeWhile_nth)
next
  assume le: "iters ! i \<le> n"
  show "i < rungs_upto iters n"
  proof (rule ccontr)
    assume "\<not> ?thesis"
    then have l: "rungs_upto iters n \<le> i" by simp
    then have "\<not> iters ! rungs_upto iters n \<le> n"
      unfolding rungs_upto_def using assms(2) nth_length_takeWhile[of "\<lambda>x. x \<le> n" iters] by fastforce
    moreover have "iters ! rungs_upto iters n \<le> iters ! i"
      using assms l by (intro sorted_nth_mono) auto
    ultimately show False using le by simp
  qed
qed

lemma snapshots_step:
  assumes "sorted iters" "rungs_upto iters it \<le> k" "k \<le> rungs_upto iters (Suc it)"
    and "length out = length iters"
  shows "fst (snapshots alg iters it d k out) = rungs_upto iters (Suc it)
    \<and> length (snd (snapshots alg iters it d k out)) = length iters
    \<and> (\<forall>i < length iters. snd (snapshots alg iters it d k out) ! i
         = (if k \<le> i \<and> i < rungs_upto iters (Suc it) then xor_digest alg d (out ! i) else out ! i))"
  using assms
proof (induction alg iters it d k out rule: snapshots.induct)
  case (1 alg iters it d k out)
  have iff: "(k < length iters \<and> iters ! k = it + 1) \<longleftrightarrow> k < rungs_upto iters (Suc it)"
  proof (cases "k < length iters")
    case True
    then have "\<not> iters ! k \<le> it"
      using rungs_upto_iff[OF 1(2) True, of it] 1(3) by simp
    then show ?thesis
      using rungs_upto_iff[OF 1(2) True, of "Suc it"] True by auto
  next
    case False
    then show ?thesis using rungs_upto_le[of iters "Suc it"] by simp
  qed
  show ?case
  proof (cases "k < rungs_upto iters (Suc it)")
    case True
    then have k: "k < length iters \<and> iters ! k = it + 1" using iff by simp
    show ?thesis
      using 1(1)[OF k 1(2)] 1(3-5) True k
      by (subst (1 2 3) snapshots.simps) (auto simp: nth_list_update)
  next
    case False
    then show ?thesis
      using 1(3-5) iff by (subst (1 2 3) snapshots.simps) auto
  qed
qed


text \<open>The state of the loop over one message after \<open>n\<close> passes.\<close>

lemma ref_message_loop:
  fixes alg :: vb_algorithm and msg :: bytes and iters :: "nat list" and out :: "checksum list"
  defines "maxit \<equiv> iters ! (length iters - 1)"
  defines "body \<equiv> (\<lambda>it (msg, k, out).
            let digest = hash alg msg;
                (k, out) = snapshots alg iters it digest k out;
                msg = (if it + 1 < maxit then put_at msg 0 (take (digest_bytes alg) digest) else msg)
            in (msg, k, out))"
  assumes srt: "sorted iters" and pos: "0 \<notin> set iters" and len: "length out = length iters"
  shows "n \<le> maxit \<Longrightarrow> \<exists>out'. fold body [0..<n] (msg, 0, out)
      = (if n < maxit then iter_msg alg msg n else iter_msg alg msg (n - 1), rungs_upto iters n, out')
    \<and> length out' = length iters
    \<and> (\<forall>i < length iters. out' ! i = (if iters ! i \<le> n
          then xor_digest alg (iter_digest alg msg (iters ! i)) (out ! i) else out ! i))"
proof (induction n)
  case 0
  have "rungs_upto iters 0 = 0"
    using pos by (cases iters) (auto simp: rungs_upto_def)
  moreover have "(if iters ! i \<le> 0 then x else y) = y" if "i < length iters" for i and x y :: checksum
    using pos that by (metis le_zero_eq nth_mem)
  ultimately show ?case using len
    by (intro exI[of _ out]) simp
next
  case (Suc n)
  then obtain out' where IH: "fold body [0..<n] (msg, 0, out) = (iter_msg alg msg n, rungs_upto iters n, out')"
    and L: "length out' = length iters"
    and R: "\<And>i. i < length iters \<Longrightarrow> out' ! i = (if iters ! i \<le> n
          then xor_digest alg (iter_digest alg msg (iters ! i)) (out ! i) else out ! i)"
    by auto
  let ?d = "hash alg (iter_msg alg msg n)"
  obtain k2 out2 where S: "snapshots alg iters n ?d (rungs_upto iters n) out' = (k2, out2)"
    by fastforce
  have mono: "rungs_upto iters n \<le> rungs_upto iters (Suc n)"
  proof (rule ccontr)
    assume neg: "\<not> ?thesis"
    then have "rungs_upto iters (Suc n) < length iters"
      using rungs_upto_le[of iters n] by linarith
    then show False
      using neg rungs_upto_iff[OF srt, of "rungs_upto iters (Suc n)" "Suc n"]
        rungs_upto_iff[OF srt, of "rungs_upto iters (Suc n)" n] by auto
  qed
  have st: "k2 = rungs_upto iters (Suc n)" "length out2 = length iters"
    "\<And>i. i < length iters \<Longrightarrow> out2 ! i
      = (if rungs_upto iters n \<le> i \<and> i < rungs_upto iters (Suc n) then xor_digest alg ?d (out' ! i) else out' ! i)"
    using snapshots_step[OF srt order_refl mono L, of alg ?d] S by auto
  have row: "out2 ! i = (if iters ! i \<le> Suc n
          then xor_digest alg (iter_digest alg msg (iters ! i)) (out ! i) else out ! i)"
    if i: "i < length iters" for i
    using st(3)[OF i] R[OF i] rungs_upto_iff[OF srt i, of n] rungs_upto_iff[OF srt i, of "Suc n"]
    by (auto simp: iter_digest_def le_Suc_eq not_less)
  have "fold body [0..<Suc n] (msg, 0, out) = body n (iter_msg alg msg n, rungs_upto iters n, out')"
    using IH by simp
  also have "\<dots> = (if Suc n < maxit then iter_msg alg msg (Suc n) else iter_msg alg msg n,
      rungs_upto iters (Suc n), out2)"
    using S st(1) by (simp add: body_def Let_def)
  finally show ?case
    using st(2) row by auto
qed

lemma sorted_last_max: "sorted iters \<Longrightarrow> i < length iters \<Longrightarrow> iters ! i \<le> iters ! (length iters - 1)"
  for iters :: "nat list"
  by (rule sorted_nth_mono) auto

lemma ref_message_rows:
  assumes "sorted iters" "0 \<notin> set iters" "length out = length iters"
  shows "ref_message alg iters msg out
    = map (\<lambda>i. xor_digest alg (iter_digest alg msg (iters ! i)) (out ! i)) [0..<length iters]"
proof -
  obtain st out' where "fold (\<lambda>it (msg, k, out).
            let digest = hash alg msg;
                (k, out) = snapshots alg iters it digest k out;
                msg = (if it + 1 < iters ! (length iters - 1) then put_at msg 0 (take (digest_bytes alg) digest) else msg)
            in (msg, k, out)) [0..<iters ! (length iters - 1)] (msg, 0, out)
      = (st, rungs_upto iters (iters ! (length iters - 1)), out')"
    and out': "length out' = length iters"
     "\<And>i. i < length iters \<Longrightarrow> out' ! i = (if iters ! i \<le> iters ! (length iters - 1)
          then xor_digest alg (iter_digest alg msg (iters ! i)) (out ! i) else out ! i)"
    using ref_message_loop[OF assms order_refl, of alg msg] by blast
  then have "ref_message alg iters msg out = out'"
    by (simp add: ref_message_def Let_def)
  also have "out' = map (\<lambda>i. xor_digest alg (iter_digest alg msg (iters ! i)) (out ! i)) [0..<length iters]"
    using out' sorted_last_max[OF assms(1)] by (intro nth_equalityI) auto
  finally show ?thesis .
qed

lemma reference_loop:
  assumes "sorted iters" "0 \<notin> set iters" "digest_words alg \<le> VB_MAX_DIGEST_WORDS"
  shows "fold (\<lambda>n out. ref_message alg iters (vb_build_message (start + of_nat n) bytes) out) [0..<cnt]
      (replicate (length iters) zero_checksum) = map (ref_checksum alg start cnt bytes) iters"
proof (induction cnt)
  case 0
  show ?case
    by (rule nth_equalityI) (auto simp: ref_checksum_def zero_checksum_def intro!: nth_equalityI)
next
  case (Suc cnt)
  let ?m = "vb_build_message (start + of_nat cnt) bytes"
  have row: "xor_digest alg (iter_digest alg ?m k) (ref_checksum alg start cnt bytes k)
      = ref_checksum alg start (Suc cnt) bytes k" for k
    using assms(3) by (simp add: xor_digest_row ref_checksum_def)
  have "ref_message alg iters ?m (map (ref_checksum alg start cnt bytes) iters)
      = map (ref_checksum alg start (Suc cnt) bytes) iters"
    using assms(1,2) by (subst ref_message_rows) (auto simp: row intro!: nth_equalityI)
  then show ?case using Suc by simp
qed

lemma reference_checksums_eq:
  assumes "alg \<in> set ALGS" "sorted iters" "0 \<notin> set iters"
  shows "vb_reference_checksums True alg start cnt bytes iters = map (ref_checksum alg start cnt bytes) iters"
proof (cases "iters = []")
  case False
  then show ?thesis
    using assms reference_loop[of iters alg start bytes cnt] known_alg_ok[OF assms(1)]
    by (simp add: vb_reference_checksums_def alg_ok_def)
qed (simp add: vb_reference_checksums_def)

lemma reference_checksum_eq:
  assumes "alg \<in> set ALGS" "0 < k"
  shows "vb_reference_checksum True alg start cnt bytes k = ref_checksum alg start cnt bytes k"
  using assms by (simp add: vb_reference_checksum_def reference_checksums_eq)

text \<open>C7: walking each message once to the largest count gives, for every rung of an ascending
  ladder (repeated counts included), the checksum a pass for that count alone computes.\<close>
theorem ladder_is_single_passes:
  assumes "alg \<in> set ALGS" "sorted iters" "0 \<notin> set iters" "i < length iters"
  shows "vb_reference_checksums True alg start cnt bytes iters ! i
    = vb_reference_checksum True alg start cnt bytes (iters ! i)"
proof -
  have "0 < iters ! i" using assms(3,4) by (metis nth_mem gr0I)
  then show ?thesis
    using assms by (simp add: reference_checksums_eq reference_checksum_eq)
qed

theorem ladder_is_single_passes_witness:
  "vb_reference_checksums True sha1_alg 5 3 40 [1, 2, 2, 8] ! 2
    = vb_reference_checksum True sha1_alg 5 3 40 2"
  using ladder_is_single_passes[of sha1_alg "[1, 2, 2, 8]" 2 5 3 40] by (simp add: ALGS_def)



section \<open>The threaded reference\<close>

text \<open>Where a slice of an even split starts.\<close>

definition slice_len :: "nat \<Rightarrow> nat \<Rightarrow> nat \<Rightarrow> nat" where
  "slice_len cnt threads i = cnt div threads + (if i < cnt mod threads then 1 else 0)"

definition slice_off :: "nat \<Rightarrow> nat \<Rightarrow> nat \<Rightarrow> nat" where
  "slice_off cnt threads i = sum_list (map (slice_len cnt threads) [0..<i])"

lemma slice_off_simps [simp]:
  "slice_off cnt threads 0 = 0"
  "slice_off cnt threads (Suc i) = slice_off cnt threads i + slice_len cnt threads i"
  by (simp_all add: slice_off_def)

lemma slice_off_closed:
  "slice_off cnt threads i = i * (cnt div threads) + min i (cnt mod threads)"
  by (induction i) (auto simp: slice_len_def)

lemma slice_off_total: "0 < threads \<Longrightarrow> slice_off cnt threads threads = cnt"
  by (simp add: slice_off_closed min_absorb2 less_imp_le mult.commute)

lemma ref_slices_eq:
  "ref_slices start cnt threads =
     map (\<lambda>i. \<lparr>sl_start = start + of_nat (slice_off cnt threads i), sl_count = slice_len cnt threads i\<rparr>)
       [0..<threads]"
proof -
  let ?body = "\<lambda>i (off, sl).
          let c = cnt div threads + (if i < cnt mod threads then 1 else 0)
          in (off + c, sl @ [\<lparr>sl_start = start + of_nat off, sl_count = c\<rparr>])"
  have "fold ?body [0..<n] (0, []) = (slice_off cnt threads n,
      map (\<lambda>i. \<lparr>sl_start = start + of_nat (slice_off cnt threads i), sl_count = slice_len cnt threads i\<rparr>)
       [0..<n])" for n
    by (induction n) (simp_all add: slice_len_def Let_def)
  then show ?thesis by (simp add: ref_slices_def Let_def)
qed

lemma xor_tables_rows:
  assumes "\<forall>i < length out. length (out ! i) = VB_MAX_DIGEST_WORDS"
  shows "xor_tables out part = map (\<lambda>i. map (\<lambda>j. out ! i ! j XOR part ! i ! j) [0..<VB_MAX_DIGEST_WORDS])
    [0..<length out]"
proof -
  have "xor_tables out part = foreach (\<lambda>k row.
      fold (\<lambda>j row. row[j := row ! j XOR part ! k ! j]) [0..<VB_MAX_DIGEST_WORDS] row) out"
    by (simp add: xor_tables_def foreach_def)
  also have "\<dots> = map (\<lambda>i. map (\<lambda>j. out ! i ! j XOR part ! i ! j) [0..<VB_MAX_DIGEST_WORDS]) [0..<length out]"
    using assms foreach_prefix[of VB_MAX_DIGEST_WORDS, where body = "\<lambda>j v. v XOR part ! _ ! j"]
    by (simp add: foreach_map)
  finally show ?thesis .
qed

lemma ref_checksum_slices:
  assumes "0 < threads"
  shows "fold (\<lambda>i out. xor_tables out (map (ref_checksum alg (start + of_nat (slice_off cnt threads i))
              (slice_len cnt threads i) bytes) iters)) [0..<threads]
      (replicate (length iters) zero_checksum) = map (ref_checksum alg start cnt bytes) iters"
proof -
  let ?part = "\<lambda>i. map (ref_checksum alg (start + of_nat (slice_off cnt threads i))
              (slice_len cnt threads i) bytes) iters"
  have "fold (\<lambda>i out. xor_tables out (?part i)) [0..<t] (replicate (length iters) zero_checksum)
      = map (ref_checksum alg start (slice_off cnt threads t) bytes) iters" for t
  proof (induction t)
    case 0
    show ?case
      by (rule nth_equalityI) (auto simp: ref_checksum_def zero_checksum_def intro!: nth_equalityI)
  next
    case (Suc t)
    have R: "map (\<lambda>j. ref_checksum alg start (slice_off cnt threads t) bytes k ! j
          XOR ref_checksum alg (start + of_nat (slice_off cnt threads t)) (slice_len cnt threads t) bytes k ! j)
          [0..<VB_MAX_DIGEST_WORDS]
        = ref_checksum alg start (slice_off cnt threads (Suc t)) bytes k" for k
      unfolding ref_checksum_def
      by (rule map_cong[OF refl]) (simp add: xor_over_append_range add.assoc)
    have len: "length (ref_checksum alg start m bytes k) = VB_MAX_DIGEST_WORDS" for m k
      by (simp add: ref_checksum_def)
    have "xor_tables (map (ref_checksum alg start (slice_off cnt threads t) bytes) iters) (?part t)
      = map (ref_checksum alg start (slice_off cnt threads (Suc t)) bytes) iters"
      using len by (subst xor_tables_rows) (auto simp: R simp del: slice_off_simps intro!: nth_equalityI)
    then show ?case using Suc by simp
  qed
  from this[of threads] show ?thesis using assms by (simp add: slice_off_total)
qed


text \<open>The join loop: whatever the table held, the part XORed in at \<open>i\<close> is slice \<open>i\<close>'s own result.\<close>

lemma join_loop:
  assumes "\<And>i. 0 < i \<Longrightarrow> i < threads \<Longrightarrow> started i \<Longrightarrow> joined i \<Longrightarrow> table0 ! i = main i"
    and "table0 ! 0 = main 0" "length table0 = threads" "t \<le> threads"
  shows "\<exists>table. fold (\<lambda>i (table, out).
            let table = (if 0 < i \<and> started i
                         then (if joined i then table else table[i := main i])
                         else if 0 < i then table[i := main i] else table)
            in (table, f out (table ! i))) [0..<t] (table0, out0)
      = (table, fold (\<lambda>i out. f out (main i)) [0..<t] out0)
    \<and> length table = threads \<and> (\<forall>i. t \<le> i \<longrightarrow> i < threads \<longrightarrow> table ! i = table0 ! i)"
  using assms(4)
proof (induction t)
  case (Suc t)
  then show ?case
    using assms(1-3) by (cases "t = 0") (auto simp: Let_def nth_list_update)
qed (use assms in auto)

text \<open>The threaded form in full: the serial pass, or the XOR of the slices' own passes, whichever
  threads ran them.\<close>

lemma mt_cases:
  "vb_reference_checksums_mt env alg start cnt bytes iters threads =
    (if iters = [] \<or> threads < 2 \<or> cnt < threads \<or> \<not> tables_ok env \<or> \<not> flags_ok env
     then vb_reference_checksums (slice_ok env 0) alg start cnt bytes iters
     else fold (\<lambda>i out. xor_tables out (vb_reference_checksums (slice_ok env i) alg
            (sl_start (ref_slices start cnt threads ! i)) (sl_count (ref_slices start cnt threads ! i)) bytes iters))
          [0..<threads] (replicate (length iters) zero_checksum))"
proof (cases "iters = [] \<or> threads < 2 \<or> cnt < threads \<or> \<not> tables_ok env \<or> \<not> flags_ok env")
  case True
  then show ?thesis
    by (auto simp: vb_reference_checksums_mt_def Let_def vb_reference_checksums_def)
next
  case False
  define main where "main = (\<lambda>i. vb_reference_checksums (slice_ok env i) alg (sl_start (ref_slices start cnt threads ! i))
                                    (sl_count (ref_slices start cnt threads ! i)) bytes iters)"
  define started where "started = (\<lambda>i. 0 < i \<and> create_ok env i)"
  define table0 where "table0 = (map (\<lambda>i. if started i
                           then (if join_ok env i then main i else unjoined env i)
                           else replicate (length iters) zero_checksum) [0..<threads])[0 := main 0]"
  let ?out0 = "replicate (length iters) zero_checksum"
  have th: "0 < threads" using False by simp
  have "table0 ! i = main i" if "0 < i" "i < threads" "started i" "join_ok env i" for i
    using that by (simp add: table0_def)
  moreover have "table0 ! 0 = main 0" "length table0 = threads"
    using th by (simp_all add: table0_def)
  ultimately obtain table where J: "fold (\<lambda>i (table, out).
            let table = (if 0 < i \<and> started i
                         then (if join_ok env i then table else table[i := main i])
                         else if 0 < i then table[i := main i] else table)
            in (table, xor_tables out (table ! i))) [0..<threads] (table0, ?out0)
      = (table, fold (\<lambda>i out. xor_tables out (main i)) [0..<threads] ?out0)"
    using join_loop[of threads started "join_ok env" table0 main threads xor_tables ?out0] by blast
  have "vb_reference_checksums_mt env alg start cnt bytes iters threads = snd (fold (\<lambda>i (table, out).
            let table = (if 0 < i \<and> started i
                         then (if join_ok env i then table else table[i := main i])
                         else if 0 < i then table[i := main i] else table)
            in (table, xor_tables out (table ! i))) [0..<threads] (table0, ?out0))"
  proof -
    have "(iters = []) = False" "(threads < 2 \<or> cnt < threads) = False"
      "(\<not> tables_ok env) = False" "(\<not> flags_ok env) = False"
      using False by auto
    then show ?thesis
      unfolding vb_reference_checksums_mt_def Let_def main_def started_def table0_def
      by (simp only: if_False)
  qed
  then have "vb_reference_checksums_mt env alg start cnt bytes iters threads
      = fold (\<lambda>i out. xor_tables out (main i)) [0..<threads] ?out0"
    by (simp only: J snd_conv)
  then show ?thesis unfolding if_not_P[OF False] main_def .
qed

text \<open>A pass that got no memory adds nothing.\<close>

lemma reference_checksums_no_memory [simp]:
  "vb_reference_checksums False alg start cnt bytes iters = replicate (length iters) zero_checksum"
  by (simp add: vb_reference_checksums_def Let_def)

lemma mt_equals_serial:
  assumes "alg \<in> set ALGS" "sorted iters" "0 \<notin> set iters" "\<And>i. slice_ok env i"
  shows "vb_reference_checksums_mt env alg start cnt bytes iters threads
    = vb_reference_checksums True alg start cnt bytes iters"
proof (cases "iters = [] \<or> threads < 2 \<or> cnt < threads \<or> \<not> tables_ok env \<or> \<not> flags_ok env")
  case False
  have "vb_reference_checksums_mt env alg start cnt bytes iters threads
      = fold (\<lambda>i out. xor_tables out (map (ref_checksum alg (start + of_nat (slice_off cnt threads i))
              (slice_len cnt threads i) bytes) iters)) [0..<threads] (replicate (length iters) zero_checksum)"
    unfolding mt_cases using False assms
    by (simp only: if_False) (intro fold_cong; simp add: ref_slices_eq reference_checksums_eq)
  also have "\<dots> = map (ref_checksum alg start cnt bytes) iters"
    using False by (intro ref_checksum_slices) simp
  finally show ?thesis using assms by (simp add: reference_checksums_eq)
qed (simp add: mt_cases assms(4))

lemma mt_checksum:
  "alg \<in> set ALGS \<Longrightarrow> 0 < k \<Longrightarrow> (\<And>i. slice_ok env i) \<Longrightarrow>
   vb_reference_checksum_mt env alg start cnt bytes k threads = vb_reference_checksum True alg start cnt bytes k"
  by (simp add: vb_reference_checksum_mt_def vb_reference_checksum_def mt_equals_serial)

text \<open>C6: when every slice's pass gets the memory for its message, the threaded reference computes
  exactly what the serial one does, for any number of threads, whichever of them cannot be created or
  joined, whatever a failed join leaves in the table, and whichever allocation of the tables is
  refused.\<close>
theorem reference_mt_exact:
  assumes "alg \<in> set ALGS" "sorted iters" "0 \<notin> set iters" "\<And>i. slice_ok env i"
  shows "vb_reference_checksums_mt env alg start cnt bytes iters threads
    = vb_reference_checksums True alg start cnt bytes iters"
  using assms by (rule mt_equals_serial)

text \<open>Three threads over five messages; thread 1 cannot be started and thread 2's join fails over
  a table of rubbish.\<close>
theorem reference_mt_exact_witness:
  "vb_reference_checksums_mt \<lparr>tables_ok = True, flags_ok = True, slice_ok = (\<lambda>i. True), create_ok = (\<lambda>i. i \<noteq> 1),
      join_ok = (\<lambda>i. False), unjoined = (\<lambda>i. [[7], [9]])\<rparr> sha512_alg 4294967294 5 100 [1, 4] 3
    = vb_reference_checksums True sha512_alg 4294967294 5 100 [1, 4]"
  by (rule reference_mt_exact) (simp_all add: ALGS_def)

end
