(* ===== verification/Word_Hash.thy ===== *)
theory Word_Hash
  imports Reference
begin

text \<open>
  The contract between the byte-level reference and the word-level kernels.  The kernels never
  see bytes or padding: they read sixteen words per block from the corpus, fold a compression
  function over them and write the digest words back over the head of the first block.  The
  locale \<open>word_hash\<close> states what makes that the same computation as the reference hash with its
  byte-wise feedback; each algorithm is an interpretation, and the corpus the harness builds holds
  exactly the words the contract speaks about.
\<close>

section \<open>Word-level iterated hashing\<close>

definition words_of_block :: "nat \<Rightarrow> (bytes \<Rightarrow> 'w) \<Rightarrow> bytes \<Rightarrow> 'w list" where
  "words_of_block wb ld block = map (\<lambda>i. ld (drop (i * wb) block)) [0..<VB_WORDS_PER_BLOCK]"

text \<open>The blocks of a message after \<open>k\<close> feedbacks, and the digest of iteration \<open>k\<close> (from 1).\<close>

primrec fed_blocks :: "('w list \<Rightarrow> 'w list \<Rightarrow> 'w list) \<Rightarrow> 'w list \<Rightarrow> 'w list list \<Rightarrow> nat \<Rightarrow> 'w list list" where
  "fed_blocks wc iv bs 0 = bs"
| "fed_blocks wc iv bs (Suc k) =
     (let bs' = fed_blocks wc iv bs k in put_at (hd bs') 0 (foldl wc iv bs') # tl bs')"

definition word_digest :: "('w list \<Rightarrow> 'w list \<Rightarrow> 'w list) \<Rightarrow> 'w list \<Rightarrow> 'w list list \<Rightarrow> nat \<Rightarrow> 'w list" where
  "word_digest wc iv bs k = foldl wc iv (fed_blocks wc iv bs (k - 1))"

lemma length_fed_blocks [simp]: "bs \<noteq> [] \<Longrightarrow> length (fed_blocks wc iv bs k) = length bs"
  by (induction k) (auto simp: Let_def)

lemma tl_fed_blocks [simp]: "tl (fed_blocks wc iv bs k) = tl bs"
  by (induction k) (auto simp: Let_def)

lemma hd_fed_blocks_Suc:
  "fed_blocks wc iv bs (Suc k) = put_at (hd (fed_blocks wc iv bs k)) 0 (word_digest wc iv bs (Suc k)) # tl bs"
  by (simp add: Let_def word_digest_def)

lemma put_at_put_at:
  "length d = length d' \<Longrightarrow> length d \<le> length xs \<Longrightarrow> put_at (put_at xs 0 d) 0 d' = put_at xs 0 d'"
  by (simp add: put_at_def)

lemma put_at_take: "put_at xs 0 (take n xs) = xs"
  by (simp add: put_at_def min_def)

lemma drop_concat_map:
  "(\<And>w. length (st w) = n) \<Longrightarrow> drop (j * n) (concat (map st h)) = concat (map st (drop j h))"
proof (induction h arbitrary: j)
  case (Cons w h)
  then show ?case by (cases j) auto
qed simp

lemma length_concat_map: "(\<And>w. length (st w) = n) \<Longrightarrow> length (concat (map st h)) = length h * n"
  by (induction h) auto


definition padded :: "vb_algorithm \<Rightarrow> (u64 \<Rightarrow> bytes) \<Rightarrow> bytes \<Rightarrow> bytes" where
  "padded alg enc msg = msg @ md_padding (block_bytes alg) (length_bytes alg) enc (length msg)"

definition msg_words :: "vb_algorithm \<Rightarrow> (bytes \<Rightarrow> 'w) \<Rightarrow> (u64 \<Rightarrow> bytes) \<Rightarrow> bytes \<Rightarrow> 'w list list" where
  "msg_words alg ld enc msg =
     map (words_of_block (word_bytes alg) ld) (blocks_of (block_bytes alg) (padded alg enc msg))"


section \<open>The contract\<close>

locale word_hash =
  fixes alg :: vb_algorithm
    and wc :: "'w::len word list \<Rightarrow> 'w word list \<Rightarrow> 'w word list"
    and iv :: "'w word list"
    and ld :: "bytes \<Rightarrow> 'w word"
    and st :: "'w word \<Rightarrow> bytes"
    and enc :: "u64 \<Rightarrow> bytes"
  assumes known: "alg \<in> set ALGS"
    and width: "LENGTH('w) \<le> 64"
    and length_iv: "length iv = digest_words alg"
    and length_wc: "length (wc h m) = digest_words alg"
    and length_st: "length (st w) = word_bytes alg"
    and length_enc: "length (enc v) = length_bytes alg"
    and ld_st: "ld (st w @ xs) = w"
    and ld_local: "word_bytes alg \<le> length p \<Longrightarrow> word_bytes alg \<le> length q \<Longrightarrow>
      take (word_bytes alg) p = take (word_bytes alg) q \<Longrightarrow> ld p = ld q"
    and load: "word_bytes alg \<le> length p \<Longrightarrow> load_word alg p = ucast (ld p)"
    and element: "store_element alg (ucast w) = ucast w"
    and hash_words: "hash alg msg = concat (map st (foldl wc iv (msg_words alg ld enc msg)))"
    and pad: "pad_message alg msg (length msg) (blocks_needed alg (length msg)) = padded alg enc msg"
begin

lemma alg_facts:
  "block_bytes alg = 16 * word_bytes alg" "digest_bytes alg = digest_words alg * word_bytes alg"
  "digest_words alg \<le> 8" "0 < digest_words alg" "0 < word_bytes alg"
  "digest_bytes alg \<le> block_bytes alg" "0 < block_bytes alg" "length_bytes alg < block_bytes alg"
  using known_alg_ok[OF known] by (auto simp: alg_ok_def VB_WORDS_PER_BLOCK_def VB_MAX_DIGEST_WORDS_def)

lemma length_padded: "length (padded alg enc msg) = blocks_needed alg (length msg) * block_bytes alg"
  using ceil_div_mult[OF alg_facts(7), of "length msg + 1 + length_bytes alg"]
  by (simp add: padded_def md_padding_def length_enc blocks_needed_def)

lemma length_msg_words: "length (msg_words alg ld enc msg) = blocks_needed alg (length msg)"
  using alg_facts(7) by (simp add: msg_words_def length_blocks_of length_padded)

lemma blocks_needed_pos: "0 < blocks_needed alg n"
  using alg_facts(7,8) by (simp add: blocks_needed_def div_greater_zero_iff)

lemma msg_words_not_Nil [simp]: "msg_words alg ld enc msg \<noteq> []"
  using length_msg_words[of msg] blocks_needed_pos by (metis length_0_conv less_numeral_extra(3))

lemma nth_msg_words:
  assumes "b < blocks_needed alg (length msg)" "j < 16"
  shows "msg_words alg ld enc msg ! b ! j = ld (drop (b * block_bytes alg + j * word_bytes alg) (padded alg enc msg))"
proof -
  let ?B = "block_bytes alg" and ?w = "word_bytes alg"
  have jw: "j * ?w + ?w \<le> ?B"
  proof -
    have "(j + 1) * ?w \<le> 16 * ?w" using assms(2) by (intro mult_right_mono) auto
    then show ?thesis by (simp add: alg_facts(1))
  qed
  have bB: "b * ?B + ?B \<le> length (padded alg enc msg)"
  proof -
    have "(b + 1) * ?B \<le> blocks_needed alg (length msg) * ?B" using assms(1) by (intro mult_right_mono) auto
    then show ?thesis by (simp add: length_padded)
  qed
  have "msg_words alg ld enc msg ! b ! j = ld (drop (j * ?w) (take ?B (drop (b * ?B) (padded alg enc msg))))"
    using assms alg_facts(7) length_padded[of msg]
    by (simp add: msg_words_def length_blocks_of nth_blocks_of words_of_block_def VB_WORDS_PER_BLOCK_def)
  also have "\<dots> = ld (drop (b * ?B + j * ?w) (padded alg enc msg))"
    using jw bB by (intro ld_local) (simp_all add: drop_take add.commute)
  finally show ?thesis .
qed

lemma length_nth_msg_words [simp]:
  "b < length (msg_words alg ld enc msg) \<Longrightarrow> length (msg_words alg ld enc msg ! b) = 16"
  by (simp add: msg_words_def words_of_block_def VB_WORDS_PER_BLOCK_def)

lemma length_chain [simp]: "length (foldl wc iv bs) = digest_words alg"
  by (induction bs rule: rev_induct) (simp_all add: length_iv length_wc)

lemma ld_digest:
  assumes "j < length h" "length h * word_bytes alg \<le> length p"
    and "take (length h * word_bytes alg) p = concat (map st h)"
  shows "ld (drop (j * word_bytes alg) p) = h ! j"
proof -
  let ?w = "word_bytes alg"
  have jw: "j * ?w + ?w \<le> length h * ?w"
    using assms(1) mult_right_mono[of "j + 1" "length h" ?w] by simp
  have "p = concat (map st h) @ drop (length h * ?w) p"
    using assms(3) append_take_drop_id[of "length h * ?w" p] by simp
  moreover have "drop (j * ?w) (concat (map st h) @ drop (length h * ?w) p)
      = st (h ! j) @ concat (map st (drop (Suc j) h)) @ drop (length h * ?w) p"
    using assms(1) jw
    by (simp add: length_concat_map[of st, OF length_st] drop_concat_map[of st, OF length_st]
        Cons_nth_drop_Suc[symmetric, of j h])
  ultimately show ?thesis by (metis ld_st)
qed

lemma msg_words_feed:
  assumes "digest_bytes alg \<le> length msg" "length h = digest_words alg"
  shows "msg_words alg ld enc (put_at msg 0 (concat (map st h)))
    = put_at (hd (msg_words alg ld enc msg)) 0 h # tl (msg_words alg ld enc msg)"
proof -
  let ?d = "concat (map st h)" and ?w = "word_bytes alg" and ?B = "block_bytes alg"
  let ?msg' = "put_at msg 0 ?d" and ?M = "msg_words alg ld enc msg"
  note af = alg_facts
  have ld: "length ?d = digest_words alg * ?w"
    using assms(2) by (simp add: length_concat_map[of st, OF length_st])
  have len: "length ?msg' = length msg"
    using assms(1) ld af(2) by simp
  have P: "padded alg enc ?msg' = put_at (padded alg enc msg) 0 ?d"
    using assms(1) ld af(2) len by (simp add: padded_def put_at_def)
  have lp: "length ?d \<le> length (padded alg enc msg)"
    using assms(1) ld af(2) by (simp add: padded_def)
  show ?thesis
  proof (rule nth_equalityI)
    show "length (msg_words alg ld enc ?msg') = length (put_at (hd ?M) 0 h # tl ?M)"
      using len blocks_needed_pos[of "length msg"] by (simp add: length_msg_words)
    fix b assume "b < length (msg_words alg ld enc ?msg')"
    then have b: "b < blocks_needed alg (length msg)" "b < length ?M"
      using len by (simp_all add: length_msg_words)
    have bl: "length (?M ! b) = 16" using b(2) by simp
    have hd0: "hd ?M = ?M ! 0" by (simp add: hd_conv_nth)
    show "msg_words alg ld enc ?msg' ! b = (put_at (hd ?M) 0 h # tl ?M) ! b"
    proof (rule nth_equalityI)
      show "length (msg_words alg ld enc ?msg' ! b) = length ((put_at (hd ?M) 0 h # tl ?M) ! b)"
        using b bl len assms(2) af(3) hd0 by (cases b) (auto simp: length_msg_words nth_tl)
      fix j assume "j < length (msg_words alg ld enc ?msg' ! b)"
      then have j: "j < 16" using b len by (simp add: length_msg_words)
      have L: "msg_words alg ld enc ?msg' ! b ! j
          = ld (drop (b * ?B + j * ?w) (put_at (padded alg enc msg) 0 ?d))"
        using nth_msg_words[of b ?msg' j] b j len by (simp add: P)
      show "msg_words alg ld enc ?msg' ! b ! j = (put_at (hd ?M) 0 h # tl ?M) ! b ! j"
      proof (cases "b = 0 \<and> j < digest_words alg")
        case True
        have "ld (drop (j * ?w) (put_at (padded alg enc msg) 0 ?d)) = h ! j"
          using True assms(2) ld lp by (intro ld_digest) (simp_all add: put_at_def)
        then show ?thesis using True L bl hd0 assms(2) af(3) by (simp add: nth_put_at)
      next
        case False
        have "length ?d \<le> b * ?B + j * ?w"
        proof (cases "b = 0")
          case True
          then show ?thesis using False ld by (simp add: not_less)
        next
          case F: False
          then have "?B \<le> b * ?B" by simp
          then show ?thesis using af(2,6) ld by linarith
        qed
        then have "drop (b * ?B + j * ?w) (put_at (padded alg enc msg) 0 ?d) = drop (b * ?B + j * ?w) (padded alg enc msg)"
          by (simp add: put_at_def)
        then show ?thesis
          using False L nth_msg_words[OF b(1) j] bl hd0 assms(2) af(3) b j
          by (cases b) (auto simp: nth_put_at nth_tl)
      qed
    qed
  qed
qed

lemma length_hash: "length (hash alg msg) = digest_bytes alg"
  by (simp add: hash_words length_concat_map[of st, OF length_st] alg_facts)

lemma length_iter_msg: "digest_bytes alg \<le> length msg \<Longrightarrow> length (iter_msg alg msg k) = length msg"
  by (induction k) (simp_all add: Let_def length_hash)

lemma iter_msg_words:
  assumes "digest_bytes alg \<le> length msg"
  shows "msg_words alg ld enc (iter_msg alg msg k) = fed_blocks wc iv (msg_words alg ld enc msg) k"
proof (induction k)
  case (Suc k)
  have "take (digest_bytes alg) (hash alg (iter_msg alg msg k)) = hash alg (iter_msg alg msg k)"
    by (simp add: length_hash)
  then show ?case
    using Suc assms by (simp add: Let_def hash_words msg_words_feed length_iter_msg)
qed simp

text \<open>The digest of iteration \<open>k\<close>.  One iteration needs no minimum length.\<close>

lemma iter_digest_words:
  assumes "k \<le> 1 \<or> digest_bytes alg \<le> length msg"
  shows "iter_digest alg msg k = concat (map st (word_digest wc iv (msg_words alg ld enc msg) k))"
proof (cases "k \<le> 1")
  case True
  then have "k - 1 = 0" by simp
  then show ?thesis by (simp add: iter_digest_def word_digest_def hash_words)
next
  case False
  then show ?thesis using assms by (simp add: iter_digest_def word_digest_def hash_words iter_msg_words)
qed

lemma length_word_digest [simp]: "length (word_digest wc iv bs k) = digest_words alg"
  by (simp add: word_digest_def)

lemma digest_row_words:
  assumes "length h = digest_words alg" "j < 8"
  shows "digest_row alg (concat (map st h)) ! j = (if j < digest_words alg then ucast (h ! j) else 0)"
proof (cases "j < digest_words alg")
  case True
  let ?w = "word_bytes alg" and ?p = "concat (map st h)"
  have lp: "length ?p = digest_words alg * ?w"
    using assms(1) by (simp add: length_concat_map[of st, OF length_st])
  have "j * ?w + ?w \<le> digest_words alg * ?w"
    using True mult_right_mono[of "j + 1" "digest_words alg" ?w] by simp
  then have "load_word alg (drop (j * ?w) ?p) = ucast (ld (drop (j * ?w) ?p))"
    using lp by (intro load) simp
  also have "ld (drop (j * ?w) ?p) = h ! j"
    using True assms(1) lp by (intro ld_digest) simp_all
  finally show ?thesis using True assms(2) by (simp add: digest_row_def VB_MAX_DIGEST_WORDS_def)
qed (use assms(2) in \<open>simp add: digest_row_def VB_MAX_DIGEST_WORDS_def\<close>)

text \<open>The reference checksum over words.\<close>

lemma ref_checksum_words:
  assumes "0 < k" "k = 1 \<or> digest_bytes alg \<le> bytes"
  shows "ref_checksum alg start cnt bytes k =
    map (\<lambda>j. if j < digest_words alg
             then ucast (xor_over (\<lambda>n. word_digest wc iv (msg_words alg ld enc
                    (vb_build_message (start + of_nat n) bytes)) k ! j) [0..<cnt])
             else 0) [0..<8]"
proof -
  have "digest_row alg (iter_digest alg (vb_build_message (start + of_nat n) bytes) k) ! j
      = (if j < digest_words alg then ucast (word_digest wc iv (msg_words alg ld enc
                    (vb_build_message (start + of_nat n) bytes)) k ! j) else 0)" if "j < 8" for n j
    using assms that
    by (auto simp: iter_digest_words digest_row_words)
  then show ?thesis
    unfolding ref_checksum_def VB_MAX_DIGEST_WORDS_def
    by (intro map_cong refl) (auto simp: ucast_xor_list)
qed

end

end
