(* ===== verification/Word_Algs.thy ===== *)
theory Word_Algs
  imports Word_Hash
begin

text \<open>
  The three algorithms as instances of \<open>word_hash\<close>, and the corpus as the memory the kernels read:
  \<open>vb_corpus_build\<close> leaves, at the index the kernels compute, exactly the word of the padded
  message the contract names.
\<close>

section \<open>Compression over words\<close>

definition md5_wc :: "u32 list \<Rightarrow> u32 list \<Rightarrow> u32 list" where
  "md5_wc st m =
    (let (a, b, c, d) = md5_loop m (st ! 0, st ! 1, st ! 2, st ! 3)
     in [st ! 0 + a, st ! 1 + b, st ! 2 + c, st ! 3 + d])"

definition sha1_wc :: "u32 list \<Rightarrow> u32 list \<Rightarrow> u32 list" where
  "sha1_wc st m =
    (let (a, b, c, d, e) = sha1_loop (sha1_schedule m) (st ! 0, st ! 1, st ! 2, st ! 3, st ! 4)
     in [st ! 0 + a, st ! 1 + b, st ! 2 + c, st ! 3 + d, st ! 4 + e])"

definition sha512_wc :: "u64 list \<Rightarrow> u64 list \<Rightarrow> u64 list" where
  "sha512_wc st m =
    (let (a, b, c, d, e, f, g, h) = sha512_loop (sha512_schedule m)
           (st ! 0, st ! 1, st ! 2, st ! 3, st ! 4, st ! 5, st ! 6, st ! 7)
     in [st ! 0 + a, st ! 1 + b, st ! 2 + c, st ! 3 + d,
         st ! 4 + e, st ! 5 + f, st ! 6 + g, st ! 7 + h])"

lemma compress_words:
  "md5_compress st b = md5_wc st (words_of_block 4 load_le32 b)"
  "sha1_compress st b = sha1_wc st (words_of_block 4 load_be32 b)"
  "sha512_compress st' b = sha512_wc st' (words_of_block 8 load_be64 b)"
  unfolding md5_compress_def md5_wc_def sha1_compress_def sha1_wc_def sha512_compress_def sha512_wc_def
    md5_words_def sha1_words_def sha512_words_def words_of_block_def VB_WORDS_PER_BLOCK_def Let_def
  by (rule refl)+

lemma compress_fold:
  "foldl md5_compress a bs = foldl md5_wc a (map (words_of_block 4 load_le32) bs)"
  "foldl sha1_compress a bs = foldl sha1_wc a (map (words_of_block 4 load_be32) bs)"
  "foldl sha512_compress a' bs = foldl sha512_wc a' (map (words_of_block 8 load_be64) bs)"
  by (induction bs arbitrary: a a') (simp_all add: compress_words)


section \<open>Loads and padding\<close>

lemma upt_small: "[0..<4] = [0, 1, 2, 3 :: nat]" "[0..<8] = [0, 1, 2, 3, 4, 5, 6, 7 :: nat]"
  by (simp_all add: upt_rec)

lemma ucast_shifted:
  "n + 8 \<le> 32 \<Longrightarrow> (ucast (push_bit n (ucast (b::u8)) :: u32) :: u64) = push_bit n (ucast b)"
  by (rule bit_word_eqI) (auto simp: bit_simps dest: bit_imp_le_length)

lemma ucast_byte: "(ucast (ucast (b::u8) :: u32) :: u64) = ucast b"
  by (rule bit_word_eqI) (auto simp: bit_simps dest: bit_imp_le_length)

lemma load_word_md5: "load_word md5_alg p = ucast (load_le32 p)"
  by (simp add: load_word_def md5_alg_def upt_small load_le32_def unsigned_or_eq ucast_shifted ucast_byte ac_simps)

lemma load_word_sha1: "load_word sha1_alg p = ucast (load_be32 p)"
  by (simp add: load_word_def sha1_alg_def upt_small load_be32_def unsigned_or_eq ucast_shifted ucast_byte
      push_bit_or ac_simps)

lemma load_word_sha512: "load_word sha512_alg p = load_be64 p"
  by (simp add: load_word_def sha512_alg_def load_be64_def)

lemma loads_local:
  "4 \<le> length p \<Longrightarrow> 4 \<le> length q \<Longrightarrow> take 4 p = take 4 q \<Longrightarrow> load_le32 p = load_le32 q"
  "4 \<le> length p \<Longrightarrow> 4 \<le> length q \<Longrightarrow> take 4 p = take 4 q \<Longrightarrow> load_be32 p = load_be32 q"
  "8 \<le> length p \<Longrightarrow> 8 \<le> length q \<Longrightarrow> take 8 p = take 8 q \<Longrightarrow> load_be64 p = load_be64 q"
proof -
  have nth: "p ! i = q ! i" if "take n p = take n q" "n \<le> length p" "n \<le> length q" "i < n" for n i
    using that by (metis nth_take)
  show "4 \<le> length p \<Longrightarrow> 4 \<le> length q \<Longrightarrow> take 4 p = take 4 q \<Longrightarrow> load_le32 p = load_le32 q"
    "4 \<le> length p \<Longrightarrow> 4 \<le> length q \<Longrightarrow> take 4 p = take 4 q \<Longrightarrow> load_be32 p = load_be32 q"
    using nth[of 4 0] nth[of 4 1] nth[of 4 2] nth[of 4 3] by (simp_all add: load_le32_def load_be32_def)
  show "8 \<le> length p \<Longrightarrow> 8 \<le> length q \<Longrightarrow> take 8 p = take 8 q \<Longrightarrow> load_be64 p = load_be64 q"
    using nth[of 8] by (simp add: load_be64_unfold)
qed

text \<open>The corpus builder's own padding is what the hash's \<open>_final\<close> appends.\<close>

lemma pad_message_zeros:
  assumes "alg_ok a" "big_endian a \<or> length_bytes a = 8"
    and "\<And>v. enc v = replicate (length_bytes a - 8) 0 @ (if big_endian a then store_be64 v else store_le64 v)"
  shows "pad_message a msg (length msg) (blocks_needed a (length msg))
    = msg @ md_padding (block_bytes a) (length_bytes a) enc (length msg)"
proof -
  let ?B = "block_bytes a" and ?L = "length_bytes a" and ?n = "length msg"
  define z where "z = (?B - (?n + 1 + ?L) mod ?B) mod ?B"
  have B: "0 < ?B" "8 \<le> ?L" using assms(1) by (auto simp: alg_ok_def)
  have T: "blocks_needed a ?n * ?B = ?n + 1 + ?L + z"
    using ceil_div_mult[OF B(1), of "?n + 1 + ?L"] by (simp add: blocks_needed_def z_def)
  have le: "store_le64 v = map (\<lambda>i. ucast (drop_bit (8 * i) v)) [0..<8]" for v
    by (simp add: store_le64_def store_le32_def upt_small) (auto simp: bit_simps intro!: bit_word_eqI)
  have lf: "map (\<lambda>i. if big_endian a then ucast (drop_bit (56 - 8 * i) v) else ucast (drop_bit (8 * i) v)) [0..<8]
      = (if big_endian a then store_be64 v else store_le64 v)" for v :: u64
    by (simp add: le store_be64_def)
  let ?f = "if big_endian a then store_be64 (of_nat ?n * 8) else store_le64 (of_nat ?n * 8)"
  have l8: "length ?f = 8" by simp
  have r: "replicate (?n + 1 + ?L + z - ?n - 1) (0::u8) = replicate (z + (?L - 8)) 0 @ replicate 8 0"
    using B(2) by (simp flip: replicate_add)
  have at: "?n + 1 + ?L + z - 8 = length (msg @ 0x80 # replicate (z + (?L - 8)) (0::u8))"
    using B(2) by simp
  have "put_at (msg @ [0x80] @ replicate (?n + 1 + ?L + z - ?n - 1) 0) (?n + 1 + ?L + z - 8) ?f
      = put_at ((msg @ 0x80 # replicate (z + (?L - 8)) 0) @ replicate 8 0)
          (length (msg @ 0x80 # replicate (z + (?L - 8)) (0::u8))) ?f"
    unfolding r at by simp
  also have "\<dots> = (msg @ 0x80 # replicate (z + (?L - 8)) 0) @ ?f"
    using l8 by (simp only: put_at_def) simp
  also have "\<dots> = msg @ md_padding ?B ?L enc ?n"
    by (simp add: md_padding_def z_def assms(3) replicate_add)
  finally have P: "put_at (msg @ [0x80] @ replicate (?n + 1 + ?L + z - ?n - 1) 0) (?n + 1 + ?L + z - 8) ?f
      = msg @ md_padding ?B ?L enc ?n" .
  have "(\<not> big_endian a \<and> 8 < ?L) = False" using assms(2) by auto
  then show ?thesis
    unfolding pad_message_def Let_def T lf by (simp only: P if_False take_all order_refl)
qed


section \<open>The three instances\<close>

lemma md5_words_spec:
  "md5 msg = concat (map store_le32 (foldl md5_wc MD5_IV (msg_words md5_alg load_le32 store_le64 msg)))"
proof -
  have "hstate (stream_final md5_compress 64 8 store_le64 (stream_update md5_compress 64
      (md5_init \<lparr>hstate = replicate 4 0, total_len = 0, buf = replicate 64 0, buf_len = 0\<rparr>) msg))
    = md_chain md5_compress 64 8 store_le64 MD5_IV msg"
    using md5s.stream_correct[of "md5_init \<lparr>hstate = replicate 4 0, total_len = 0, buf = replicate 64 0, buf_len = 0\<rparr>" "[msg]"]
    by (simp add: md5_init_def)
  then have "md5 msg = concat (map store_le32 (md_chain md5_compress 64 8 store_le64 MD5_IV msg))"
    unfolding md5_def md5_final_def md5_update_def MD5_BLOCK_LEN_def Let_def
    by (simp add: map_nth_upt md_chain_def del: upt_Suc)
  then show ?thesis
    by (simp add: md_chain_def msg_words_def padded_def compress_fold md5_alg_def)
qed

lemma sha1_words_spec:
  "sha1 msg = concat (map store_be32 (foldl sha1_wc SHA1_IV (msg_words sha1_alg load_be32 sha1_store_be64 msg)))"
proof -
  have "hstate (stream_final sha1_compress 64 8 sha1_store_be64 (stream_update sha1_compress 64
      (sha1_init \<lparr>hstate = replicate 5 0, total_len = 0, buf = replicate 64 0, buf_len = 0\<rparr>) msg))
    = md_chain sha1_compress 64 8 sha1_store_be64 SHA1_IV msg"
    using sha1s.stream_correct[of "sha1_init \<lparr>hstate = replicate 5 0, total_len = 0, buf = replicate 64 0, buf_len = 0\<rparr>" "[msg]"]
    by (simp add: sha1_init_def)
  then have "sha1 msg = concat (map store_be32 (md_chain sha1_compress 64 8 sha1_store_be64 SHA1_IV msg))"
    unfolding sha1_def sha1_final_def sha1_update_def SHA1_BLOCK_LEN_def Let_def
    by (simp add: map_nth_upt md_chain_def del: upt_Suc)
  then show ?thesis
    by (simp add: md_chain_def msg_words_def padded_def compress_fold sha1_alg_def)
qed

lemma sha512_words_spec:
  "sha512 msg = concat (map store_be64 (foldl sha512_wc SHA512_IV
     (msg_words sha512_alg load_be64 sha512_length_field msg)))"
proof -
  have "hstate (stream_final sha512_compress 128 16 sha512_length_field (stream_update sha512_compress 128
      (sha512_init \<lparr>hstate = replicate 8 0, total_len = 0, buf = replicate 128 0, buf_len = 0\<rparr>) msg))
    = md_chain sha512_compress 128 16 sha512_length_field SHA512_IV msg"
    using sha512s.stream_correct[of "sha512_init \<lparr>hstate = replicate 8 0, total_len = 0, buf = replicate 128 0, buf_len = 0\<rparr>" "[msg]"]
    by (simp add: sha512_init_def)
  then have "sha512 msg = concat (map store_be64 (md_chain sha512_compress 128 16 sha512_length_field SHA512_IV msg))"
    unfolding sha512_def sha512_final_def sha512_update_def SHA512_BLOCK_LEN_def Let_def
    by (simp add: map_nth_upt md_chain_def del: upt_Suc)
  then show ?thesis
    by (simp add: md_chain_def msg_words_def padded_def compress_fold sha512_alg_def)
qed

lemma length_wcs [simp]:
  "length (md5_wc h m) = 4" "length (sha1_wc h m) = 5" "length (sha512_wc h' m') = 8"
  by (simp_all add: md5_wc_def sha1_wc_def sha512_wc_def Let_def split_def)

lemma ucast_u32_element: "(ucast (ucast (ucast (w::u32) :: u64) :: u32) :: u64) = ucast w"
  by (rule bit_word_eqI) (auto simp: bit_simps dest: bit_imp_le_length)

lemma store_be64_zero: "store_be64 0 = replicate 8 0"
  by (simp add: store_be64_def upt_small eval_nat_numeral)

interpretation md5h: word_hash md5_alg md5_wc MD5_IV load_le32 store_le32 store_le64
proof unfold_locales
  show "md5_alg \<in> set ALGS" by (simp add: ALGS_def)
  show "pad_message md5_alg msg (length msg) (blocks_needed md5_alg (length msg)) = padded md5_alg store_le64 msg" for msg
    unfolding padded_def
    by (rule pad_message_zeros) (auto simp: ALGS_def, simp_all add: md5_alg_def)
  show "hash md5_alg msg = concat (map store_le32 (foldl md5_wc MD5_IV (msg_words md5_alg load_le32 store_le64 msg)))" for msg
    unfolding md5_words_spec[symmetric] by (simp add: md5_alg_def)
  fix p q :: bytes
  assume "word_bytes md5_alg \<le> length p" "word_bytes md5_alg \<le> length q"
    "take (word_bytes md5_alg) p = take (word_bytes md5_alg) q"
  then show "load_le32 p = load_le32 q"
    by (intro loads_local) (simp_all add: md5_alg_def)
qed (simp_all add: load_word_md5 store_element_def ucast_u32_element, simp_all add: md5_alg_def)

interpretation sha1h: word_hash sha1_alg sha1_wc SHA1_IV load_be32 store_be32 sha1_store_be64
proof unfold_locales
  show "sha1_alg \<in> set ALGS" by (simp add: ALGS_def)
  show "pad_message sha1_alg msg (length msg) (blocks_needed sha1_alg (length msg)) = padded sha1_alg sha1_store_be64 msg" for msg
    unfolding padded_def
    by (rule pad_message_zeros) (auto simp: ALGS_def, simp_all add: sha1_alg_def store_be64_halves)
  show "hash sha1_alg msg = concat (map store_be32 (foldl sha1_wc SHA1_IV (msg_words sha1_alg load_be32 sha1_store_be64 msg)))" for msg
    unfolding sha1_words_spec[symmetric] by (simp add: sha1_alg_def)
  fix p q :: bytes
  assume "word_bytes sha1_alg \<le> length p" "word_bytes sha1_alg \<le> length q"
    "take (word_bytes sha1_alg) p = take (word_bytes sha1_alg) q"
  then show "load_be32 p = load_be32 q"
    by (intro loads_local) (simp_all add: sha1_alg_def)
qed (simp_all add: load_word_sha1 store_element_def ucast_u32_element, simp_all add: sha1_alg_def)

interpretation sha512h: word_hash sha512_alg sha512_wc SHA512_IV load_be64 store_be64 sha512_length_field
proof unfold_locales
  show "sha512_alg \<in> set ALGS" by (simp add: ALGS_def)
  show "pad_message sha512_alg msg (length msg) (blocks_needed sha512_alg (length msg)) = padded sha512_alg sha512_length_field msg" for msg
    unfolding padded_def
    by (rule pad_message_zeros) (auto simp: ALGS_def, simp_all add: sha512_alg_def sha512_length_field_def store_be64_zero)
  show "hash sha512_alg msg = concat (map store_be64 (foldl sha512_wc SHA512_IV (msg_words sha512_alg load_be64 sha512_length_field msg)))" for msg
    unfolding sha512_words_spec[symmetric] by (simp add: sha512_alg_def)
  fix p q :: bytes
  assume "word_bytes sha512_alg \<le> length p" "word_bytes sha512_alg \<le> length q"
    "take (word_bytes sha512_alg) p = take (word_bytes sha512_alg) q"
  then show "load_be64 p = load_be64 q"
    by (intro loads_local) (simp_all add: sha512_alg_def)
qed (simp_all add: load_word_sha512 store_element_def ucast_u32_element, simp_all add: sha512_alg_def)

end
