(* ===== verification/Corpus.thy ===== *)
theory Corpus
  imports Word_Algs
begin

text \<open>
  The lane-interleaved layout of the corpus.  Every word of every padded message has a place of
  its own inside the allocation, the builder writes each place once, and the word a kernel finds
  at \<open>((slot * blocks + b) * 16 + j) * lanes + lane\<close> is word \<open>j\<close> of block \<open>b\<close> of message
  \<open>slot * lanes + lane\<close>.
\<close>

section \<open>The index\<close>

lemma radix16:
  fixes j q t :: nat
  shows "j < 16 \<Longrightarrow> (q * 16 + j) div 16 = q" "j < 16 \<Longrightarrow> (q * 16 + j) mod 16 = j"
    "q < t \<Longrightarrow> j < 16 \<Longrightarrow> q * 16 + j < t * 16"
  by simp_all

lemma corpus_at_slot:
  "0 < lanes \<Longrightarrow> lane < lanes \<Longrightarrow>
   corpus_at blocks lanes (slot * lanes + lane) b j = (((slot * blocks) + b) * 16 + j) * lanes + lane"
  by (simp add: corpus_at_def VB_WORDS_PER_BLOCK_def)

lemma corpus_at_decode:
  fixes m :: nat
  assumes "0 < lanes" "b < blocks" "j < 16"
  defines "p \<equiv> corpus_at blocks lanes m b j"
  shows "p mod lanes = m mod lanes" "p div lanes mod 16 = j" "p div lanes div 16 mod blocks = b"
    "p div lanes div 16 div blocks = m div lanes"
proof -
  have "p div lanes = (m div lanes * blocks + b) * 16 + j" "p mod lanes = m mod lanes"
    using assms(1) by (simp_all add: p_def corpus_at_def VB_WORDS_PER_BLOCK_def)
  moreover have "((m div lanes * blocks + b) * 16 + j) div 16 = m div lanes * blocks + b"
    "((m div lanes * blocks + b) * 16 + j) mod 16 = j"
    using assms(3) by (simp_all only: radix16)
  moreover have "(m div lanes * blocks + b) div blocks = m div lanes" "(m div lanes * blocks + b) mod blocks = b"
    using assms(2) by simp_all
  ultimately show "p mod lanes = m mod lanes" "p div lanes mod 16 = j" "p div lanes div 16 mod blocks = b"
    "p div lanes div 16 div blocks = m div lanes"
    by simp_all
qed

lemma corpus_at_inj:
  assumes "0 < lanes" "b < blocks" "j < 16" "b' < blocks" "j' < 16"
    and "corpus_at blocks lanes m b j = corpus_at blocks lanes m' b' j'"
  shows "m = m' \<and> b = b' \<and> j = j'"
proof -
  note d = corpus_at_decode[OF assms(1-3), of m] and d' = corpus_at_decode[OF assms(1,4,5), of m']
  have "m div lanes = m' div lanes" "m mod lanes = m' mod lanes"
    using d(1,4) d'(1,4) assms(6) by simp_all
  then have "m = m'" by (metis div_mult_mod_eq)
  then show ?thesis using d(2,3) d'(2,3) assms(6) by simp
qed

lemma corpus_at_bound:
  assumes "0 < lanes" "n mod lanes = 0" "m < n" "b < blocks" "j < 16"
  shows "corpus_at blocks lanes m b j < n * blocks * 16"
proof -
  obtain s where n: "n = s * lanes" using assms(2) by (metis mod_0_imp_dvd dvd_def mult.commute)
  have "m div lanes < s" using assms(3) n by (simp add: less_mult_imp_div_less)
  then have "m div lanes * blocks + b < s * blocks"
    using assms(4) mult_right_mono[of "m div lanes + 1" s blocks] by simp
  then have "(m div lanes * blocks + b) * 16 + j < s * blocks * 16"
    using assms(5) by (rule radix16(3))
  then have "((m div lanes * blocks + b) * 16 + j + 1) * lanes \<le> s * blocks * 16 * lanes"
    by (intro mult_right_mono) auto
  moreover have "m mod lanes < lanes" using assms(1) by simp
  ultimately show ?thesis
    by (simp add: corpus_at_def VB_WORDS_PER_BLOCK_def n algebra_simps)
qed


section \<open>The builder\<close>

lemma fold_nested:
  "fold (\<lambda>m ws. fold (\<lambda>b ws. fold (\<lambda>j ws. F m b j ws) js ws) bs ws) ms ws
    = fold (\<lambda>(m, b, j). F m b j) (concat (map (\<lambda>m. concat (map (\<lambda>b. map (\<lambda>j. (m, b, j)) js) bs)) ms)) ws"
proof -
  have inner: "fold (\<lambda>b ws. fold (\<lambda>j ws. F m b j ws) js ws) bs ws
      = fold (\<lambda>(m, b, j). F m b j) (concat (map (\<lambda>b. map (\<lambda>j. (m, b, j)) js) bs)) ws" for m ws
    by (induction bs arbitrary: ws) (simp_all add: fold_map comp_def)
  show ?thesis
    by (induction ms arbitrary: ws) (simp_all add: inner)
qed

definition corpus_word :: "vb_algorithm \<Rightarrow> u32 \<Rightarrow> nat \<Rightarrow> nat \<Rightarrow> nat \<Rightarrow> nat \<Rightarrow> nat \<Rightarrow> u64" where
  "corpus_word alg start bytes blocks m b j =
     store_element alg (load_word alg (drop (b * block_bytes alg + j * word_bytes alg)
       (pad_message alg (vb_build_message (start + of_nat m) bytes) bytes blocks)))"

lemma fill_corpus_scatter:
  "fill_corpus alg lanes start n bytes blocks words =
     fold (\<lambda>x ws. ws[(case x of (m, b, j) \<Rightarrow> corpus_at blocks lanes m b j) :=
            (case x of (m, b, j) \<Rightarrow> corpus_word alg start bytes blocks m b j)])
       (concat (map (\<lambda>m. concat (map (\<lambda>b. map (\<lambda>j. (m, b, j)) [0..<16]) [0..<blocks])) [0..<n])) words"
  unfolding fill_corpus_def Let_def corpus_word_def VB_WORDS_PER_BLOCK_def fold_nested
  by (intro fold_cong) (auto simp: split_def)

lemma length_fill_corpus [simp]:
  "length (fill_corpus alg lanes start n bytes blocks words) = length words"
  by (simp only: fill_corpus_scatter length_fold_update)

lemma fill_corpus_nth:
  assumes "0 < lanes" "n mod lanes = 0" "length words = n * blocks * 16"
    and "m < n" "b < blocks" "j < 16"
  shows "fill_corpus alg lanes start n bytes blocks words ! corpus_at blocks lanes m b j
    = corpus_word alg start bytes blocks m b j"
proof -
  let ?xs = "concat (map (\<lambda>m. concat (map (\<lambda>b. map (\<lambda>j. (m, b, j)) [0..<16]) [0..<blocks])) [0..<n])"
  let ?f = "\<lambda>x. case x of (m, b, j) \<Rightarrow> corpus_at blocks lanes m b j"
  have S: "set ?xs = {0..<n} \<times> {0..<blocks} \<times> {0..<16}"
    by (auto simp: image_iff)
  have mem: "(m, b, j) \<in> set ?xs" using assms(4-6) unfolding S by simp
  have inj: "inj_on ?f (set ?xs)"
  proof (rule inj_onI)
    fix x y assume "x \<in> set ?xs" "y \<in> set ?xs" and eq: "?f x = ?f y"
    moreover obtain m1 b1 j1 m2 b2 j2 where "x = (m1, b1, j1)" "y = (m2, b2, j2)"
      by (cases x, cases y) auto
    ultimately show "x = y"
      using corpus_at_inj[OF assms(1), of b1 blocks j1 b2 j2 m1 m2] unfolding S by simp
  qed
  have "?f (m, b, j) < length words"
    using corpus_at_bound[OF assms(1,2,4,5,6)] assms(3) by simp
  from fold_update_nth[OF mem inj this] show ?thesis
    by (simp only: fill_corpus_scatter prod.case)
qed

text \<open>What a successful build returns.\<close>

lemma corpus_build_Some:
  assumes "vb_corpus_build alloc ok alg lanes start n bytes = Some c"
  obtains a words where "alg = Some a" "0 < lanes" "0 < n" "n mod lanes = 0"
    "alloc (n * unat (vb_alg_blocks_for a (of_nat bytes)) * 16) = Some words" "ok"
    "c = \<lparr>c_words = fill_corpus a lanes start n bytes (unat (vb_alg_blocks_for a (of_nat bytes))) words,
          c_n_words = n * unat (vb_alg_blocks_for a (of_nat bytes)) * 16, c_alg = a, c_lanes = lanes,
          c_blocks = unat (vb_alg_blocks_for a (of_nat bytes)), c_message_bytes = bytes,
          c_n_messages = n, c_start_index = start\<rparr>"
  using assms
  by (auto simp: vb_corpus_build_def Let_def VB_WORDS_PER_BLOCK_def split: option.splits if_splits)

text \<open>C8: in a corpus that was built, the word at the kernels' index for slot, block, word and
  lane is that word of the padded message \<open>slot * lanes + lane\<close>, every such index lies inside
  the allocation, and nothing the memory held before shows through.\<close>
theorem corpus_layout:
  assumes "vb_corpus_build alloc ok (Some alg) lanes start n bytes = Some c"
    and "\<And>k words. alloc k = Some words \<Longrightarrow> length words = k"
    and "slot < n div lanes" "lane < lanes" "b < c_blocks c" "j < VB_WORDS_PER_BLOCK"
  shows "((slot * c_blocks c + b) * VB_WORDS_PER_BLOCK + j) * lanes + lane < length (c_words c)
    \<and> c_words c ! (((slot * c_blocks c + b) * VB_WORDS_PER_BLOCK + j) * lanes + lane)
      = store_element alg (load_word alg (drop (b * block_bytes alg + j * word_bytes alg)
          (pad_message alg (vb_build_message (start + of_nat (slot * lanes + lane)) bytes) bytes (c_blocks c))))"
proof -
  obtain words where W: "0 < lanes" "n mod lanes = 0" "alloc (n * c_blocks c * 16) = Some words"
    "c_words c = fill_corpus alg lanes start n bytes (c_blocks c) words"
    using assms(1) by (auto elim!: corpus_build_Some)
  have lw: "length words = n * c_blocks c * 16" using assms(2) W(3) by blast
  have m: "slot * lanes + lane < n"
  proof -
    have "(slot + 1) * lanes \<le> n div lanes * lanes" using assms(3) by (intro mult_right_mono) auto
    also have "\<dots> \<le> n" by simp
    finally show ?thesis using assms(4) by simp
  qed
  have at: "corpus_at (c_blocks c) lanes (slot * lanes + lane) b j
      = ((slot * c_blocks c + b) * VB_WORDS_PER_BLOCK + j) * lanes + lane"
    using W(1) assms(4) by (simp add: corpus_at_slot VB_WORDS_PER_BLOCK_def)
  have j: "j < 16" using assms(6) by (simp add: VB_WORDS_PER_BLOCK_def)
  have "((slot * c_blocks c + b) * VB_WORDS_PER_BLOCK + j) * lanes + lane < length (c_words c)"
    using corpus_at_bound[OF W(1,2) m assms(5) j] W(4) lw by (simp add: at)
  moreover have "c_words c ! (((slot * c_blocks c + b) * VB_WORDS_PER_BLOCK + j) * lanes + lane)
      = store_element alg (load_word alg (drop (b * block_bytes alg + j * word_bytes alg)
          (pad_message alg (vb_build_message (start + of_nat (slot * lanes + lane)) bytes) bytes (c_blocks c))))"
    using fill_corpus_nth[OF W(1,2) lw m assms(5) j] W(4) by (simp add: at corpus_word_def)
  ultimately show ?thesis ..
qed

text \<open>A build succeeds whenever the shape is right and the memory is there.\<close>

lemma corpus_build_ok:
  assumes "0 < lanes" "0 < n" "n mod lanes = 0"
  obtains c where "vb_corpus_build (\<lambda>n. Some (replicate n v)) True (Some a) lanes start n bytes = Some c"
    "c_blocks c = unat (vb_alg_blocks_for a (of_nat bytes))"
  using assms by (simp add: vb_corpus_build_def Let_def)

lemma corpus_layout_witness:
  "\<exists>c. vb_corpus_build (\<lambda>n. Some (replicate n 7)) True (Some md5_alg) 4 0 8 120 = Some c \<and>
     c_words c ! (((1 * c_blocks c + 1) * VB_WORDS_PER_BLOCK + 5) * 4 + 3)
      = store_element md5_alg (load_word md5_alg (drop (1 * block_bytes md5_alg + 5 * word_bytes md5_alg)
          (pad_message md5_alg (vb_build_message (0 + of_nat (1 * 4 + 3)) 120) 120 (c_blocks c))))"
proof -
  obtain c where c: "vb_corpus_build (\<lambda>n. Some (replicate n 7)) True (Some md5_alg) 4 0 8 120 = Some c"
    "c_blocks c = unat (vb_alg_blocks_for md5_alg (of_nat 120))"
    using corpus_build_ok[where lanes=4 and n=8 and v=7 and a=md5_alg and start=0 and bytes=120] by auto
  have "c_blocks c = 3" unfolding c(2) by code_simp
  then show ?thesis
    using c corpus_layout[OF c(1), of 1 3 1 5] by (auto simp: VB_WORDS_PER_BLOCK_def)
qed

end
