(* ===== verification/Vec_Ops.thy ===== *)
theory Vec_Ops
  imports Corpus
begin

text \<open>
  The vector operations the kernel templates are written over: the \<open>OPS_*\<close> and \<open>OPS64_*\<close> macro
  sets of src/kernels/cpu.  A translation unit supplies one set per word width; here a set is a
  record over the vector type, and the locales \<open>vec32\<close> and \<open>vec64\<close> are what the templates rely on:
  every operation acts on each lane as the scalar operation does.  The scalar set of scalar.c is
  concrete; the sets of the SIMD units are built in \<open>Isa_Ops\<close> from their intrinsics.
\<close>

section \<open>The operation sets\<close>

record 'v ops32 =
  ov_lanes :: nat
  ov_set1 :: "u32 \<Rightarrow> 'v"
  ov_add :: "'v \<Rightarrow> 'v \<Rightarrow> 'v"
  ov_xor :: "'v \<Rightarrow> 'v \<Rightarrow> 'v"
  ov_rotl :: "'v \<Rightarrow> nat \<Rightarrow> 'v"
  ov_store :: "'v \<Rightarrow> u32 list"
  ov_load :: "u32 list \<Rightarrow> 'v"
  ov_ch :: "'v \<Rightarrow> 'v \<Rightarrow> 'v \<Rightarrow> 'v"
  ov_maj :: "'v \<Rightarrow> 'v \<Rightarrow> 'v \<Rightarrow> 'v"
  ov_f :: "'v \<Rightarrow> 'v \<Rightarrow> 'v \<Rightarrow> 'v"
  ov_g :: "'v \<Rightarrow> 'v \<Rightarrow> 'v \<Rightarrow> 'v"
  ov_h :: "'v \<Rightarrow> 'v \<Rightarrow> 'v \<Rightarrow> 'v"
  ov_i :: "'v \<Rightarrow> 'v \<Rightarrow> 'v \<Rightarrow> 'v"
  ov_xor3_xorrot :: "(('v \<Rightarrow> 'v \<Rightarrow> 'v \<Rightarrow> 'v) \<times> ('v \<Rightarrow> 'v \<Rightarrow> nat \<Rightarrow> 'v)) option"

record 'v ops64 =
  ow_lanes :: nat
  ow_set1 :: "u64 \<Rightarrow> 'v"
  ow_add :: "'v \<Rightarrow> 'v \<Rightarrow> 'v"
  ow_xor :: "'v \<Rightarrow> 'v \<Rightarrow> 'v"
  ow_rotr :: "'v \<Rightarrow> nat \<Rightarrow> 'v"
  ow_shr :: "'v \<Rightarrow> nat \<Rightarrow> 'v"
  ow_store :: "'v \<Rightarrow> u64 list"
  ow_load :: "u64 list \<Rightarrow> 'v"
  ow_ch :: "'v \<Rightarrow> 'v \<Rightarrow> 'v \<Rightarrow> 'v"
  ow_maj :: "'v \<Rightarrow> 'v \<Rightarrow> 'v \<Rightarrow> 'v"

text \<open>The optional pair is defined together or not at all: the SHA-1 template asks for both.\<close>


section \<open>What the templates rely on\<close>

text \<open>Choice and majority in the form the kernels use, on any word width.\<close>

definition ch_word :: "'a::len word \<Rightarrow> 'a word \<Rightarrow> 'a word \<Rightarrow> 'a word" where
  "ch_word x y z = (x AND y) XOR (NOT x AND z)"

definition maj_word :: "'a::len word \<Rightarrow> 'a word \<Rightarrow> 'a word \<Rightarrow> 'a word" where
  "maj_word x y z = (x AND y) XOR (x AND z) XOR (y AND z)"

locale vec32 =
  fixes ops :: "'v ops32"
  assumes lanes_pos: "0 < ov_lanes ops"
    and length_store: "length (ov_store ops v) = ov_lanes ops"
    and lane_set1: "l < ov_lanes ops \<Longrightarrow> ov_store ops (ov_set1 ops x) ! l = x"
    and lane_add: "l < ov_lanes ops \<Longrightarrow>
      ov_store ops (ov_add ops a b) ! l = ov_store ops a ! l + ov_store ops b ! l"
    and lane_xor: "l < ov_lanes ops \<Longrightarrow>
      ov_store ops (ov_xor ops a b) ! l = (ov_store ops a ! l) XOR (ov_store ops b ! l)"
    and lane_rotl: "l < ov_lanes ops \<Longrightarrow> 0 < n \<Longrightarrow> n < 32 \<Longrightarrow>
      ov_store ops (ov_rotl ops a n) ! l = rotl32 (ov_store ops a ! l) n"
    and lane_load: "l < ov_lanes ops \<Longrightarrow> ov_lanes ops \<le> length p \<Longrightarrow> ov_store ops (ov_load ops p) ! l = p ! l"
    and lane_ch: "l < ov_lanes ops \<Longrightarrow> ov_store ops (ov_ch ops a b c) ! l
      = ch_word (ov_store ops a ! l) (ov_store ops b ! l) (ov_store ops c ! l)"
    and lane_maj: "l < ov_lanes ops \<Longrightarrow> ov_store ops (ov_maj ops a b c) ! l
      = maj_word (ov_store ops a ! l) (ov_store ops b ! l) (ov_store ops c ! l)"
    and lane_f: "l < ov_lanes ops \<Longrightarrow> ov_store ops (ov_f ops a b c) ! l
      = MD5_F (ov_store ops a ! l) (ov_store ops b ! l) (ov_store ops c ! l)"
    and lane_g: "l < ov_lanes ops \<Longrightarrow> ov_store ops (ov_g ops a b c) ! l
      = MD5_G (ov_store ops a ! l) (ov_store ops b ! l) (ov_store ops c ! l)"
    and lane_h: "l < ov_lanes ops \<Longrightarrow> ov_store ops (ov_h ops a b c) ! l
      = MD5_H (ov_store ops a ! l) (ov_store ops b ! l) (ov_store ops c ! l)"
    and lane_i: "l < ov_lanes ops \<Longrightarrow> ov_store ops (ov_i ops a b c) ! l
      = MD5_I (ov_store ops a ! l) (ov_store ops b ! l) (ov_store ops c ! l)"
    and lane_xor3: "ov_xor3_xorrot ops = Some (x3, xr) \<Longrightarrow> l < ov_lanes ops \<Longrightarrow> ov_store ops (x3 a b c) ! l
      = ((ov_store ops a ! l) XOR (ov_store ops b ! l)) XOR (ov_store ops c ! l)"
    and lane_xorrot: "ov_xor3_xorrot ops = Some (x3, xr) \<Longrightarrow> l < ov_lanes ops \<Longrightarrow> 0 < n \<Longrightarrow> n < 32 \<Longrightarrow>
      ov_store ops (xr a b n) ! l = rotl32 ((ov_store ops a ! l) XOR (ov_store ops b ! l)) n"

locale vec64 =
  fixes ops :: "'v ops64"
  assumes lanes_pos: "0 < ow_lanes ops"
    and length_store: "length (ow_store ops v) = ow_lanes ops"
    and lane_set1: "l < ow_lanes ops \<Longrightarrow> ow_store ops (ow_set1 ops x) ! l = x"
    and lane_add: "l < ow_lanes ops \<Longrightarrow>
      ow_store ops (ow_add ops a b) ! l = ow_store ops a ! l + ow_store ops b ! l"
    and lane_xor: "l < ow_lanes ops \<Longrightarrow>
      ow_store ops (ow_xor ops a b) ! l = (ow_store ops a ! l) XOR (ow_store ops b ! l)"
    and lane_rotr: "l < ow_lanes ops \<Longrightarrow> 0 < n \<Longrightarrow> n < 64 \<Longrightarrow>
      ow_store ops (ow_rotr ops a n) ! l = rotr64 (ow_store ops a ! l) n"
    and lane_shr: "l < ow_lanes ops \<Longrightarrow> 0 < n \<Longrightarrow> n < 64 \<Longrightarrow>
      ow_store ops (ow_shr ops a n) ! l = drop_bit n (ow_store ops a ! l)"
    and lane_load: "l < ow_lanes ops \<Longrightarrow> ow_lanes ops \<le> length p \<Longrightarrow> ow_store ops (ow_load ops p) ! l = p ! l"
    and lane_ch: "l < ow_lanes ops \<Longrightarrow> ow_store ops (ow_ch ops a b c) ! l
      = ch_word (ow_store ops a ! l) (ow_store ops b ! l) (ow_store ops c ! l)"
    and lane_maj: "l < ow_lanes ops \<Longrightarrow> ow_store ops (ow_maj ops a b c) ! l
      = maj_word (ow_store ops a ! l) (ow_store ops b ! l) (ow_store ops c ! l)"


text \<open>The scalars a list of vectors holds in one lane.\<close>

definition lane32 :: "'v ops32 \<Rightarrow> nat \<Rightarrow> 'v list \<Rightarrow> u32 list" where
  "lane32 ops l vs = map (\<lambda>v. ov_store ops v ! l) vs"

definition lane64 :: "'v ops64 \<Rightarrow> nat \<Rightarrow> 'v list \<Rightarrow> u64 list" where
  "lane64 ops l vs = map (\<lambda>v. ow_store ops v ! l) vs"

lemma length_lane [simp]: "length (lane32 ops l vs) = length vs" "length (lane64 ops' l vs') = length vs'"
  by (simp_all add: lane32_def lane64_def)

lemma nth_lane [simp]:
  "i < length vs \<Longrightarrow> lane32 ops l vs ! i = ov_store ops (vs ! i) ! l"
  "i < length vs' \<Longrightarrow> lane64 ops' l vs' ! i = ow_store ops' (vs' ! i) ! l"
  by (simp_all add: lane32_def lane64_def)

lemma lane_update:
  "lane32 ops l (vs[i := v]) = (lane32 ops l vs)[i := ov_store ops v ! l]"
  "lane64 ops' l (vs'[i := v']) = (lane64 ops' l vs')[i := ow_store ops' v' ! l]"
  by (simp_all add: lane32_def lane64_def map_update)


section \<open>The scalar set\<close>

definition sc_rotl :: "u32 \<Rightarrow> nat \<Rightarrow> u32" where
  "sc_rotl v s = push_bit s v OR drop_bit ((32 - s) mod 32) v"

definition sc_rotr64 :: "u64 \<Rightarrow> nat \<Rightarrow> u64" where
  "sc_rotr64 v s = drop_bit s v OR push_bit ((64 - s) mod 64) v"

definition scalar_ops32 :: "u32 ops32" where
  "scalar_ops32 = \<lparr>
     ov_lanes = 1, ov_set1 = (\<lambda>x. x), ov_add = (+), ov_xor = (XOR), ov_rotl = sc_rotl,
     ov_store = (\<lambda>v. [v]), ov_load = (\<lambda>p. p ! 0),
     ov_ch = (\<lambda>x y z. (x AND y) XOR (NOT x AND z)),
     ov_maj = (\<lambda>x y z. (x AND y) XOR (x AND z) XOR (y AND z)),
     ov_f = (\<lambda>x y z. (x AND y) OR (NOT x AND z)),
     ov_g = (\<lambda>x y z. (x AND z) OR (y AND NOT z)),
     ov_h = (\<lambda>x y z. x XOR y XOR z),
     ov_i = (\<lambda>x y z. y XOR (x OR NOT z)),
     ov_xor3_xorrot = None\<rparr>"

definition scalar_ops64 :: "u64 ops64" where
  "scalar_ops64 = \<lparr>
     ow_lanes = 1, ow_set1 = (\<lambda>x. x), ow_add = (+), ow_xor = (XOR), ow_rotr = sc_rotr64,
     ow_shr = (\<lambda>x n. drop_bit n x), ow_store = (\<lambda>v. [v]), ow_load = (\<lambda>p. p ! 0),
     ow_ch = (\<lambda>x y z. (x AND y) XOR (NOT x AND z)),
     ow_maj = (\<lambda>x y z. (x AND y) XOR (x AND z) XOR (y AND z))\<rparr>"

interpretation sc32: vec32 scalar_ops32
  by unfold_locales
    (simp_all add: scalar_ops32_def sc_rotl_def rotl32_def ch_word_def maj_word_def
      MD5_F_def MD5_G_def MD5_H_def MD5_I_def)

interpretation sc64: vec64 scalar_ops64
  by unfold_locales
    (simp_all add: scalar_ops64_def sc_rotr64_def rotr64_def ch_word_def maj_word_def)


section \<open>A corpus in a kernel's memory\<close>

text \<open>\<open>mem\<close>, from the pointer a kernel is given, holds the words of \<open>n\<close> messages in the layout for
  that many lanes.\<close>

definition corpus_holds :: "'w list \<Rightarrow> nat \<Rightarrow> nat \<Rightarrow> nat \<Rightarrow> (nat \<Rightarrow> 'w list list) \<Rightarrow> bool" where
  "corpus_holds mem lanes blocks n W \<longleftrightarrow>
     n * blocks * 16 \<le> length mem \<and> n mod lanes = 0 \<and>
     (\<forall>m < n. length (W m) = blocks \<and>
        (\<forall>b < blocks. length (W m ! b) = 16 \<and> (\<forall>j < 16. mem ! corpus_at blocks lanes m b j = W m ! b ! j)))"

text \<open>What every kernel must compute from it: the XOR, word by word, of the final digests.\<close>

definition kernel_result ::
  "('w::len word list \<Rightarrow> 'w word list \<Rightarrow> 'w word list) \<Rightarrow> 'w word list \<Rightarrow> nat \<Rightarrow> (nat \<Rightarrow> 'w word list list)
    \<Rightarrow> nat \<Rightarrow> nat \<Rightarrow> checksum" where
  "kernel_result wc iv dw W n iterations =
     map (\<lambda>j. if j < dw then ucast (xor_over (\<lambda>m. word_digest wc iv (W m) iterations ! j) [0..<n]) else 0)
       [0..<VB_MAX_DIGEST_WORDS]"

lemma corpus_holds_row:
  assumes H: "corpus_holds mem lanes blocks (slots * lanes) W" and "lane < lanes" "slot < slots"
    and "b < blocks" "j < 16"
  shows "mem ! (slot * (blocks * 16 * lanes) + b * (16 * lanes) + j * lanes + lane) = W (slot * lanes + lane) ! b ! j"
    and "slot * (blocks * 16 * lanes) + b * (16 * lanes) + j * lanes + lanes \<le> length mem"
proof -
  have lp: "0 < lanes" using assms(2) by simp
  have at: "corpus_at blocks lanes (slot * lanes + l) b j
      = slot * (blocks * 16 * lanes) + b * (16 * lanes) + j * lanes + l" if "l < lanes" for l
    using lp that by (subst corpus_at_slot) (simp_all add: algebra_simps)
  have m: "slot * lanes + l < slots * lanes" if "l < lanes" for l
    using that assms(3) mult_right_mono[of "slot + 1" slots lanes] by simp
  have "mem ! corpus_at blocks lanes (slot * lanes + lane) b j = W (slot * lanes + lane) ! b ! j"
    using H m[OF assms(2)] assms(4,5) unfolding corpus_holds_def by blast
  then show "mem ! (slot * (blocks * 16 * lanes) + b * (16 * lanes) + j * lanes + lane) = W (slot * lanes + lane) ! b ! j"
    by (simp only: at[OF assms(2)])
  have "corpus_at blocks lanes (slot * lanes + (lanes - 1)) b j < slots * lanes * blocks * 16"
    using assms(4,5) lp m[of "lanes - 1"] by (intro corpus_at_bound) auto
  then have "slot * (blocks * 16 * lanes) + b * (16 * lanes) + j * lanes + (lanes - 1) < slots * lanes * blocks * 16"
    using at[of "lanes - 1"] lp by simp
  moreover have "slots * lanes * blocks * 16 \<le> length mem" using H by (simp add: corpus_holds_def)
  ultimately show "slot * (blocks * 16 * lanes) + b * (16 * lanes) + j * lanes + lanes \<le> length mem"
    using lp by linarith
qed


text \<open>The lane fold at the end of a kernel.\<close>

definition fold_lanes :: "nat \<Rightarrow> 'a::len word list \<Rightarrow> 'a word" where
  "fold_lanes lanes t = fold (\<lambda>l c. c XOR t ! l) [0..<lanes] 0"

lemma fold_lanes_xor: "fold_lanes lanes t = xor_over (\<lambda>l. t ! l) [0..<lanes]"
  by (simp add: fold_lanes_def fold_xor_over)

text \<open>XORed over lanes, then groups and streams, is XORed over messages.\<close>

lemma xor_over_lanes:
  "xor_over (\<lambda>l. xor_over (\<lambda>g. xor_over (\<lambda>k. f ((g * streams + k) * lanes + l)) [0..<streams]) [0..<n_groups]) [0..<lanes]
    = xor_over f [0..<n_groups * streams * lanes]"
proof -
  have "xor_over (\<lambda>g. xor_over (\<lambda>k. f ((g * streams + k) * lanes + l)) [0..<streams]) [0..<n_groups]
      = xor_over (\<lambda>q. f (q * lanes + l)) [0..<n_groups * streams]" for l
    by (rule xor_over_rows)
  then have "xor_over (\<lambda>l. xor_over (\<lambda>g. xor_over (\<lambda>k. f ((g * streams + k) * lanes + l)) [0..<streams]) [0..<n_groups]) [0..<lanes]
      = xor_over (\<lambda>l. xor_over (\<lambda>q. f (q * lanes + l)) [0..<n_groups * streams]) [0..<lanes]"
    by simp
  also have "\<dots> = xor_over (\<lambda>q. xor_over (\<lambda>l. f (q * lanes + l)) [0..<lanes]) [0..<n_groups * streams]"
    by (rule xor_over_swap)
  also have "\<dots> = xor_over f [0..<n_groups * streams * lanes]"
    by (rule xor_over_rows)
  finally show ?thesis .
qed

end
