(* ===== verification/Kernel_Contract.thy ===== *)
theory Kernel_Contract
  imports Vec_Ops
begin

text \<open>
  What the kernel templates have in common, proved once.  A template runs, for every stream, the
  same three nested loops: iterations, blocks, steps; between iterations the digest registers are
  copied to the words that replace the head of block 0.  The locale \<open>stream_kernel\<close> asks of a
  template only its lane-wise behaviour on one block, on initialisation and on the copy, and gives
  the digest each lane holds after any number of iterations.  The rest of the theory covers the
  accumulators over groups and streams, and ties memory, kernel result and reference together.
\<close>

section \<open>One stream\<close>

definition stream_iteration :: "('s \<Rightarrow> 's) \<Rightarrow> (nat \<Rightarrow> 's \<Rightarrow> 's) \<Rightarrow> ('s \<Rightarrow> 's) \<Rightarrow> nat \<Rightarrow> 's \<Rightarrow> 's" where
  "stream_iteration init block feedback blocks s = feedback (fold block [0..<blocks] (init s))"

locale stream_kernel =
  fixes wc :: "'w::len word list \<Rightarrow> 'w word list \<Rightarrow> 'w word list"
    and iv :: "'w word list"
    and dw lanes :: nat
    and reads :: "'s \<Rightarrow> nat \<Rightarrow> 'w word list list \<Rightarrow> bool"
    and hl fl :: "nat \<Rightarrow> 's \<Rightarrow> 'w word list"
    and init :: "'s \<Rightarrow> 's" and block :: "nat \<Rightarrow> 's \<Rightarrow> 's" and feedback :: "'s \<Rightarrow> 's"
  assumes length_iv: "length iv = dw" and length_wc: "length (wc h m) = dw" and dw16: "dw \<le> 16"
    and reads_block: "reads s l bs \<Longrightarrow> b < length bs \<Longrightarrow> length (bs ! b) = 16"
    and init_lane: "l < lanes \<Longrightarrow> reads s l bs \<Longrightarrow>
      reads (init s) l bs \<and> hl l (init s) = iv \<and> fl l (init s) = fl l s"
    and block_lane: "l < lanes \<Longrightarrow> reads s l bs \<Longrightarrow> b < length bs \<Longrightarrow> length (hl l s) = dw \<Longrightarrow>
      (b = 0 \<Longrightarrow> length (fl l s) = dw) \<Longrightarrow>
      reads (block b s) l bs \<and>
      hl l (block b s) = wc (hl l s) (if b = 0 then put_at (bs ! 0) 0 (fl l s) else bs ! b)"
    and feedback_lane: "l < lanes \<Longrightarrow> reads s l bs \<Longrightarrow> length (hl l s) = dw \<Longrightarrow>
      reads (feedback s) l bs \<and> hl l (feedback s) = hl l s \<and> fl l (feedback s) = hl l s"
begin

lemma blocks_lane:
  assumes l: "l < lanes" and rd: "reads s l bs" and h: "length (hl l s) = dw" and f: "length (fl l s) = dw"
    and bs: "bs \<noteq> []"
  shows "n \<le> length bs \<Longrightarrow> reads (fold block [0..<n] s) l bs \<and> length (hl l (fold block [0..<n] s)) = dw
    \<and> hl l (fold block [0..<n] s) = foldl wc (hl l s) (take n (put_at (hd bs) 0 (fl l s) # tl bs))"
proof (induction n)
  case (Suc n)
  let ?bs = "put_at (hd bs) 0 (fl l s) # tl bs"
  let ?t = "fold block [0..<n] s"
  have IH: "reads ?t l bs" "length (hl l ?t) = dw" "hl l ?t = foldl wc (hl l s) (take n ?bs)"
    using Suc by auto
  have n: "n < length bs" using Suc.prems by simp
  have "n < length ?bs" using Suc.prems bs by (cases bs) auto
  then have tk: "take (Suc n) ?bs = take n ?bs @ [?bs ! n]" by (rule take_Suc_conv_app_nth)
  have "(if n = 0 then put_at (bs ! 0) 0 (fl l ?t) else bs ! n) = ?bs ! n"
    using bs by (cases bs) (auto simp: nth_Cons split: nat.split)
  then have "reads (block n ?t) l bs" "hl l (block n ?t) = wc (hl l ?t) (?bs ! n)"
    using block_lane[OF l IH(1) n IH(2)] f by auto
  then show ?case using IH(3) tk by (simp add: length_wc)
qed (use rd h in simp)

text \<open>Before iteration \<open>n\<close> the first block with the feedback words on top is the first block of
  the fed message; after it the digest registers hold the digest of iteration \<open>n\<close>.\<close>

lemma iterations_lane:
  assumes l: "l < lanes" and rd: "reads s l bs" and bs: "bs \<noteq> []"
    and f: "length (fl l s) = dw" "fl l s = take dw (hd bs)"
  shows "reads (fold (\<lambda>it. stream_iteration init block feedback (length bs)) [0..<n] s) l bs
    \<and> length (fl l (fold (\<lambda>it. stream_iteration init block feedback (length bs)) [0..<n] s)) = dw
    \<and> put_at (hd bs) 0 (fl l (fold (\<lambda>it. stream_iteration init block feedback (length bs)) [0..<n] s)) # tl bs = fed_blocks wc iv bs n
    \<and> (0 < n \<longrightarrow> hl l (fold (\<lambda>it. stream_iteration init block feedback (length bs)) [0..<n] s) = word_digest wc iv bs n)"
proof (induction n)
  case 0
  then show ?case using rd f bs by (simp add: put_at_take)
next
  case (Suc n)
  let ?t = "fold (\<lambda>it. stream_iteration init block feedback (length bs)) [0..<n] s"
  let ?u = "init ?t"
  let ?v = "fold block [0..<length bs] ?u"
  have IH: "reads ?t l bs" "length (fl l ?t) = dw"
    "put_at (hd bs) 0 (fl l ?t) # tl bs = fed_blocks wc iv bs n"
    using Suc by blast+
  have u: "reads ?u l bs" "hl l ?u = iv" "fl l ?u = fl l ?t" "length (hl l ?u) = dw"
    using init_lane[OF l IH(1)] by (auto simp: length_iv)
  have "length (fl l ?u) = dw" using u(3) IH(2) by simp
  note B = blocks_lane[OF l u(1,4) this bs order_refl]
  have all: "take (length bs) (x # tl bs) = x # tl bs" for x
    using bs by (cases bs) simp_all
  have fed: "take (length bs) (fed_blocks wc iv bs n) = fed_blocks wc iv bs n"
    using all[of "put_at (hd bs) 0 (fl l ?t)"] by (simp only: IH(3))
  have v: "reads ?v l bs" "length (hl l ?v) = dw" "hl l ?v = word_digest wc iv bs (Suc n)"
    using B unfolding u(2,3) IH(3) fed by (auto simp: word_digest_def)
  have w: "reads (feedback ?v) l bs" "hl l (feedback ?v) = word_digest wc iv bs (Suc n)"
    "fl l (feedback ?v) = word_digest wc iv bs (Suc n)"
    using feedback_lane[OF l v(1,2)] v(3) by simp_all
  have step: "fold (\<lambda>it. stream_iteration init block feedback (length bs)) [0..<Suc n] s = feedback ?v"
    by (simp add: stream_iteration_def)
  have hd: "hd (fed_blocks wc iv bs n) = put_at (hd bs) 0 (fl l ?t)"
    by (simp add: IH(3)[symmetric])
  have "length (hd bs) = 16" using reads_block[OF rd, of 0] bs by (simp add: hd_conv_nth)
  moreover have "length (word_digest wc iv bs (Suc n)) = dw" using v by simp
  ultimately have "put_at (hd bs) 0 (word_digest wc iv bs (Suc n)) # tl bs = fed_blocks wc iv bs (Suc n)"
    using IH(2) dw16 by (simp only: hd_fed_blocks_Suc hd) (simp add: put_at_put_at)
  then show ?case unfolding step using w v by simp
qed

end


section \<open>Accumulators\<close>

text \<open>The accumulators over groups and streams.  \<open>st\<close> is the vector store, \<open>xr\<close> the vector XOR,
  \<open>hs g k\<close> the digest registers of stream \<open>k\<close> after group \<open>g\<close>.\<close>

definition acc_step :: "('v \<Rightarrow> 'v \<Rightarrow> 'v) \<Rightarrow> nat \<Rightarrow> 'v list \<Rightarrow> 'v list \<Rightarrow> 'v list" where
  "acc_step xr dw h acc = map (\<lambda>i. xr (acc ! i) (h ! i)) [0..<dw]"

lemma acc_streams:
  fixes st :: "'v \<Rightarrow> 'w::len word list"
  assumes xr: "\<And>a b. st (xr a b) ! l = (st a ! l) XOR (st b ! l)"
    and acc: "length acc = dw"
  shows "length (fold (\<lambda>k. acc_step xr dw (hs k)) ks acc) = dw
    \<and> (\<forall>i < dw. st (fold (\<lambda>k. acc_step xr dw (hs k)) ks acc ! i) ! l
        = (st (acc ! i) ! l) XOR xor_over (\<lambda>k. st (hs k ! i) ! l) ks)"
  using acc
proof (induction ks arbitrary: acc)
  case (Cons k ks)
  have "length (acc_step xr dw (hs k) acc) = dw" by (simp add: acc_step_def)
  from Cons.IH[OF this] show ?case
    by (simp add: acc_step_def xr ac_simps)
qed simp

lemma acc_groups:
  fixes st :: "'v \<Rightarrow> 'w::len word list"
  assumes xr: "\<And>a b l. l < lanes \<Longrightarrow> st (xr a b) ! l = (st a ! l) XOR (st b ! l)"
    and z: "length z = dw" "\<And>i l. i < dw \<Longrightarrow> l < lanes \<Longrightarrow> st (z ! i) ! l = 0"
    and i: "i < dw"
    and h: "\<And>g k l. g < n_groups \<Longrightarrow> k < streams \<Longrightarrow> l < lanes \<Longrightarrow>
      st (hs g k ! i) ! l = d ((g * streams + k) * lanes + l)"
  shows "fold_lanes lanes (st (fold (\<lambda>g. fold (\<lambda>k. acc_step xr dw (hs g k)) [0..<streams]) [0..<n_groups] z ! i))
    = xor_over d [0..<n_groups * streams * lanes]"
proof -
  let ?acc = "\<lambda>n. fold (\<lambda>g. fold (\<lambda>k. acc_step xr dw (hs g k)) [0..<streams]) [0..<n] z"
  have A: "n \<le> n_groups \<Longrightarrow> length (?acc n) = dw \<and> st (?acc n ! i) ! l
      = xor_over (\<lambda>g. xor_over (\<lambda>k. d ((g * streams + k) * lanes + l)) [0..<streams]) [0..<n]"
    if l: "l < lanes" for n l
  proof (induction n)
    case 0
    then show ?case using z i l by simp
  next
    case (Suc n)
    have len: "length (?acc n) = dw" and
      v: "st (?acc n ! i) ! l = xor_over (\<lambda>g. xor_over (\<lambda>k. d ((g * streams + k) * lanes + l)) [0..<streams]) [0..<n]"
      using Suc by auto
    have "xor_over (\<lambda>k. st (hs n k ! i) ! l) [0..<streams] = xor_over (\<lambda>k. d ((n * streams + k) * lanes + l)) [0..<streams]"
      using Suc.prems l by (intro xor_over_cong) (simp add: h)
    then show ?case
      using acc_streams[OF xr[OF l] len, of "hs n" "[0..<streams]"] i v by simp
  qed
  have "fold_lanes lanes (st (?acc n_groups ! i)) = xor_over (\<lambda>l. st (?acc n_groups ! i) ! l) [0..<lanes]"
    by (rule fold_lanes_xor)
  also have "\<dots> = xor_over (\<lambda>l. xor_over (\<lambda>g. xor_over (\<lambda>k. d ((g * streams + k) * lanes + l)) [0..<streams]) [0..<n_groups]) [0..<lanes]"
    using A[of _ n_groups] by (intro xor_over_cong) simp
  finally show ?thesis by (simp only: xor_over_lanes)
qed


text \<open>Once every lane of every stream holds the digest of its message, the stored and folded
  accumulators are the XOR of all digests.\<close>

lemma acc_digests:
  fixes st :: "'v \<Rightarrow> 'w::len word list"
  assumes xr: "\<And>a b l. l < lanes \<Longrightarrow> st (xr a b) ! l = (st a ! l) XOR (st b ! l)"
    and z: "\<And>l. l < lanes \<Longrightarrow> st z ! l = 0"
    and h: "\<And>g k l. g < n_groups \<Longrightarrow> k < streams \<Longrightarrow> l < lanes \<Longrightarrow>
      map (\<lambda>v. st v ! l) (hs g k) = D ((g * streams + k) * lanes + l)"
    and D: "\<And>m. length (D m) = dw"
    and i: "i < dw"
  shows "fold_lanes lanes (st (fold (\<lambda>g. fold (\<lambda>k. acc_step xr dw (hs g k)) [0..<streams])
      [0..<n_groups] (replicate dw z) ! i)) = xor_over (\<lambda>m. D m ! i) [0..<n_groups * streams * lanes]"
proof (rule acc_groups)
  fix g k l assume g: "g < n_groups" "k < streams" "l < lanes"
  have "length (hs g k) = dw" using arg_cong[OF h[OF g], of length] D by simp
  then show "st (hs g k ! i) ! l = D ((g * streams + k) * lanes + l) ! i"
    using h[OF g] i by (metis nth_map)
qed (use i z xr in simp_all)


section \<open>Memory and reference\<close>

text \<open>The slot of stream \<open>k\<close> of group \<open>g\<close>, as a kernel addresses it, holds the blocks of its
  messages.\<close>

definition slot_reads :: "nat \<Rightarrow> 'w list \<Rightarrow> nat \<Rightarrow> nat \<Rightarrow> 'w list list \<Rightarrow> bool" where
  "slot_reads lanes corpus slot l bs \<longleftrightarrow>
     (\<forall>b < length bs. length (bs ! b) = 16 \<and> (\<forall>j < 16.
        slot + b * (16 * lanes) + j * lanes + lanes \<le> length corpus \<and>
        corpus ! (slot + b * (16 * lanes) + j * lanes + l) = bs ! b ! j))"

lemma slot_reads_word:
  assumes "slot_reads lanes corpus slot l bs" "b < length bs" "j < 16"
  shows "slot + b * (16 * lanes) + j * lanes + lanes \<le> length corpus"
    "corpus ! (slot + b * (16 * lanes) + j * lanes + l) = bs ! b ! j"
  using assms unfolding slot_reads_def by blast+

lemma corpus_holds_slot:
  assumes H: "corpus_holds corpus lanes blocks (slots * lanes) W" and b: "0 < blocks"
    and q: "q < slots" and l: "l < lanes"
  shows "slot_reads lanes corpus (q * (blocks * 16 * lanes)) l (W (q * lanes + l))"
    and "length (W (q * lanes + l)) = blocks"
proof -
  have m: "q * lanes + l < slots * lanes"
    using q l mult_right_mono[of "q + 1" slots lanes] by simp
  show lb: "length (W (q * lanes + l)) = blocks"
    using H m unfolding corpus_holds_def by blast
  have "length (W (q * lanes + l) ! b) = 16" if "b < blocks" for b
    using H m that unfolding corpus_holds_def by blast
  then show "slot_reads lanes corpus (q * (blocks * 16 * lanes)) l (W (q * lanes + l))"
    using corpus_holds_row[OF H l q] lb unfolding slot_reads_def by blast
qed

lemma group_slot: "g < n_groups \<Longrightarrow> k < streams \<Longrightarrow> g * streams + k < n_groups * (streams :: nat)"
  using mult_right_mono[of "g + 1" n_groups streams] by simp

text \<open>A kernel given a pointer into the corpus, at a slot boundary, sees the messages from there on.\<close>

lemma corpus_holds_drop:
  assumes H: "corpus_holds mem lanes blocks (slots * lanes) W" and l: "0 < lanes" and s: "s0 + s1 \<le> slots"
  shows "corpus_holds (drop (s0 * (blocks * 16 * lanes)) mem) lanes blocks (s1 * lanes) (\<lambda>m. W (s0 * lanes + m))"
proof -
  have len: "slots * lanes * blocks * 16 \<le> length mem" using H by (simp add: corpus_holds_def)
  have "(s0 + s1) * (lanes * blocks * 16) \<le> slots * (lanes * blocks * 16)"
    using s by (rule mult_right_mono) simp
  then have "s1 * lanes * blocks * 16 + s0 * (blocks * 16 * lanes) \<le> length mem"
    using len by (simp add: algebra_simps)
  moreover have "length (W (s0 * lanes + m)) = blocks \<and> (\<forall>b < blocks. length (W (s0 * lanes + m) ! b) = 16 \<and>
      (\<forall>j < 16. drop (s0 * (blocks * 16 * lanes)) mem ! corpus_at blocks lanes m b j = W (s0 * lanes + m) ! b ! j))"
    if m: "m < s1 * lanes" for m
  proof -
    have "s0 * lanes + m < slots * lanes"
      using m s mult_right_mono[of "s0 + s1" slots lanes] by (simp add: add_mult_distrib)
    then have W: "length (W (s0 * lanes + m)) = blocks" "\<And>b. b < blocks \<Longrightarrow> length (W (s0 * lanes + m) ! b) = 16"
      "\<And>b j. b < blocks \<Longrightarrow> j < 16 \<Longrightarrow> mem ! corpus_at blocks lanes (s0 * lanes + m) b j = W (s0 * lanes + m) ! b ! j"
      using H unfolding corpus_holds_def by blast+
    have at: "corpus_at blocks lanes (s0 * lanes + m) b j
        = s0 * (blocks * 16 * lanes) + corpus_at blocks lanes m b j" for b j
      using l by (simp add: corpus_at_def VB_WORDS_PER_BLOCK_def algebra_simps)
    have "s0 * (blocks * 16 * lanes) \<le> length mem"
      using \<open>s1 * lanes * blocks * 16 + s0 * (blocks * 16 * lanes) \<le> length mem\<close> by linarith
    then show ?thesis using W(1,2) W(3)[unfolded at] by simp
  qed
  ultimately show ?thesis unfolding corpus_holds_def by simp
qed

lemma ucast_back: "LENGTH('w::len) \<le> 64 \<Longrightarrow> (ucast (ucast (w::'w word) :: u64) :: 'w word) = w"
  by (rule bit_word_eqI) (auto simp: bit_simps)

lemma fold_concat_map: "fold f (concat (map g xs)) = fold (\<lambda>x. fold f (g x)) xs"
  by (induction xs) (simp_all add: comp_def)

lemma list4_eq: "length R = 4 \<Longrightarrow> [R ! 0, R ! 1, R ! 2, R ! 3] = R"
  by (auto simp: eval_nat_numeral length_Suc_conv)

lemma list5_eq: "length R = 5 \<Longrightarrow> [R ! 0, R ! 1, R ! 2, R ! 3, R ! 4] = R"
  by (auto simp: eval_nat_numeral length_Suc_conv)

lemma list8_eq: "length R = 8 \<Longrightarrow> [R ! 0, R ! 1, R ! 2, R ! 3, R ! 4, R ! 5, R ! 6, R ! 7] = R"
  by (auto simp: eval_nat_numeral length_Suc_conv)

lemma upt_5: "[0..<5] = [0, 1, 2, 3, 4 :: nat]"
  by (simp add: upt_rec)

lemma lane_put_at:
  "lane32 ops l (put_at xs i ys) = put_at (lane32 ops l xs) i (lane32 ops l ys)"
  "lane64 ops' l (put_at xs' i ys') = put_at (lane64 ops' l xs') i (lane64 ops' l ys')"
  by (simp_all add: lane32_def lane64_def put_at_def take_map drop_map)

text \<open>The checksum as a list of words, for the stores at the end of a kernel.\<close>

lemma zero_checksum_words: "zero_checksum = [0, 0, 0, 0, 0, 0, 0, 0]"
  by (simp add: zero_checksum_def VB_MAX_DIGEST_WORDS_def numeral_eq_Suc)

lemma list8_update:
  "[a, b, c, d, e, f, g, h][0 := x0, Suc 0 := x1, 2 := x2, 3 := x3] = [x0, x1, x2, x3, e, f, g, h]"
  "[a, b, c, d, e, f, g, h][4 := x4] = [a, b, c, d, x4, f, g, h]"
  "[a, b, c, d, e, f, g, h][5 := x5] = [a, b, c, d, e, x5, g, h]"
  "[a, b, c, d, e, f, g, h][6 := x6] = [a, b, c, d, e, f, x6, h]"
  "[a, b, c, d, e, f, g, h][7 := x7] = [a, b, c, d, e, f, g, x7]"
  by (simp_all add: numeral_eq_Suc)

lemma kernel_result_words:
  "kernel_result wc iv dw W n iterations =
    (let d = (\<lambda>j. if j < dw then ucast (xor_over (\<lambda>m. word_digest wc iv (W m) iterations ! j) [0..<n]) else 0)
     in [d 0, d 1, d 2, d 3, d 4, d 5, d 6, d 7])"
  by (simp add: kernel_result_def VB_MAX_DIGEST_WORDS_def upt_small Let_def)

text \<open>Chaining: the digest words plus the registers, in every lane.\<close>

context vec32
begin

lemma lane_sum:
  assumes "l < ov_lanes ops" "n \<le> length xs" "n \<le> length ys"
  shows "lane32 ops l (map (\<lambda>j. ov_add ops (xs ! j) (ys ! j)) [0..<n])
    = map (\<lambda>j. lane32 ops l xs ! j + lane32 ops l ys ! j) [0..<n]"
  using assms by (auto simp: lane32_def lane_add intro!: nth_equalityI simp del: upt_Suc)

end

context vec64
begin

lemma lane_sum:
  assumes "l < ow_lanes ops" "n \<le> length xs" "n \<le> length ys"
  shows "lane64 ops l (map (\<lambda>j. ow_add ops (xs ! j) (ys ! j)) [0..<n])
    = map (\<lambda>j. lane64 ops l xs ! j + lane64 ops l ys ! j) [0..<n]"
  using assms by (auto simp: lane64_def lane_add intro!: nth_equalityI simp del: upt_Suc)

end

context word_hash
begin

text \<open>The corpus the harness builds holds the words of its messages, at the kernel's width.\<close>

lemma corpus_holds_built:
  assumes B: "vb_corpus_build alloc ok (Some alg) lanes start n bytes = Some c"
    and A: "\<And>k words. alloc k = Some words \<Longrightarrow> length words = k"
    and M: "bytes \<le> VB_MAX_MSG_BYTES"
  shows "corpus_holds (map ucast (c_words c) :: 'w word list) lanes (c_blocks c) n
      (\<lambda>m. msg_words alg ld enc (vb_build_message (start + of_nat m) bytes))
    \<and> c_blocks c = blocks_needed alg bytes \<and> 0 < lanes \<and> n mod lanes = 0"
proof -
  obtain words where W: "0 < lanes" "n mod lanes = 0" "alloc (n * c_blocks c * 16) = Some words"
    "c_words c = fill_corpus alg lanes start n bytes (c_blocks c) words"
    "c_blocks c = unat (vb_alg_blocks_for alg (of_nat bytes))"
    using B by (auto elim!: corpus_build_Some)
  have bl: "c_blocks c = blocks_needed alg bytes"
    using W(5) blocks_for_nat[OF known M] by simp
  have lw: "length words = n * c_blocks c * 16" using A W(3) by blast
  let ?msg = "\<lambda>m. vb_build_message (start + of_nat m) bytes"
  have "(ucast (c_words c ! corpus_at (c_blocks c) lanes m b j) :: 'w word) = msg_words alg ld enc (?msg m) ! b ! j"
    if m: "m < n" and b: "b < c_blocks c" and j: "j < 16" for m b j
  proof -
    let ?p = "padded alg enc (?msg m)" and ?at = "b * block_bytes alg + j * word_bytes alg"
    have P: "pad_message alg (?msg m) bytes (c_blocks c) = ?p"
      using pad[of "?msg m"] bl by simp
    have lp: "length ?p = c_blocks c * block_bytes alg"
      using length_padded[of "?msg m"] bl by simp
    have "(b + 1) * block_bytes alg \<le> c_blocks c * block_bytes alg"
      using b by (intro mult_right_mono) auto
    moreover have "(j + 1) * word_bytes alg \<le> 16 * word_bytes alg"
      using j by (intro mult_right_mono) auto
    ultimately have "?at + word_bytes alg \<le> length ?p"
      unfolding lp add_mult_distrib mult_1 alg_facts(1)[symmetric] by linarith
    then have "word_bytes alg \<le> length (drop ?at ?p)"
      by simp
    then have "store_element alg (load_word alg (drop ?at ?p)) = ucast (ld (drop ?at ?p))"
      by (simp add: load element)
    then have "c_words c ! corpus_at (c_blocks c) lanes m b j = ucast (ld (drop ?at ?p))"
      using fill_corpus_nth[OF W(1,2) lw m b j] W(4) P by (simp add: corpus_word_def)
    moreover have "msg_words alg ld enc (?msg m) ! b ! j = ld (drop ?at ?p)"
      using b j bl by (simp add: nth_msg_words)
    ultimately show ?thesis
      using width by (simp add: ucast_back)
  qed
  moreover have "corpus_at (c_blocks c) lanes m b j < length (c_words c)" if "m < n" "b < c_blocks c" "j < 16" for m b j
    using corpus_at_bound[OF W(1,2) that] lw W(4) by simp
  ultimately show ?thesis
    using W lw bl by (auto simp: corpus_holds_def length_msg_words)
qed

lemma kernel_result_ref:
  assumes "0 < k" "k = 1 \<or> digest_bytes alg \<le> bytes"
  shows "kernel_result wc iv (digest_words alg)
      (\<lambda>m. msg_words alg ld enc (vb_build_message (start + of_nat m) bytes)) n k
    = vb_reference_checksum True alg start n bytes k"
  using assms known
  by (simp add: reference_checksum_eq ref_checksum_words kernel_result_def VB_MAX_DIGEST_WORDS_def)

end

end
