(* ===== verification/Kernel_Md5.thy ===== *)
theory Kernel_Md5
  imports Kernel_Contract
begin

text \<open>
  src/kernels/cpu/md5_kernel_impl.h: the multi-way MD5 kernel, over any operation set.  A stream's
  variables are a record, the arrays of them a list; \<open>MD5K_FOREACH\<close> and the expanded \<open>MD5K_STEP\<close>
  visit the streams in order (\<open>foreach\<close>).  The corpus pointer is the memory from that pointer on,
  pointers into it are word offsets, and variables C leaves uninitialised start out as \<open>dirty\<close>.
\<close>

section \<open>The step table\<close>

datatype md5_fn = RF | RG | RH | RI

text \<open>The 64 \<open>MD5K_STEP\<close> lines: function, the registers A, B, C, D (0 to 3) in the order the line
  names them, message word, constant, rotation.\<close>

type_synonym md5k_row = "md5_fn \<times> nat \<times> nat \<times> nat \<times> nat \<times> nat \<times> nat \<times> nat"

definition MD5K_PROGRAM :: "md5k_row list" where
  "MD5K_PROGRAM = [
    (RF, 0, 1, 2, 3, 0, 0, 7), (RF, 3, 0, 1, 2, 1, 1, 12),
    (RF, 2, 3, 0, 1, 2, 2, 17), (RF, 1, 2, 3, 0, 3, 3, 22),
    (RF, 0, 1, 2, 3, 4, 4, 7), (RF, 3, 0, 1, 2, 5, 5, 12),
    (RF, 2, 3, 0, 1, 6, 6, 17), (RF, 1, 2, 3, 0, 7, 7, 22),
    (RF, 0, 1, 2, 3, 8, 8, 7), (RF, 3, 0, 1, 2, 9, 9, 12),
    (RF, 2, 3, 0, 1, 10, 10, 17), (RF, 1, 2, 3, 0, 11, 11, 22),
    (RF, 0, 1, 2, 3, 12, 12, 7), (RF, 3, 0, 1, 2, 13, 13, 12),
    (RF, 2, 3, 0, 1, 14, 14, 17), (RF, 1, 2, 3, 0, 15, 15, 22),
    (RG, 0, 1, 2, 3, 1, 16, 5), (RG, 3, 0, 1, 2, 6, 17, 9),
    (RG, 2, 3, 0, 1, 11, 18, 14), (RG, 1, 2, 3, 0, 0, 19, 20),
    (RG, 0, 1, 2, 3, 5, 20, 5), (RG, 3, 0, 1, 2, 10, 21, 9),
    (RG, 2, 3, 0, 1, 15, 22, 14), (RG, 1, 2, 3, 0, 4, 23, 20),
    (RG, 0, 1, 2, 3, 9, 24, 5), (RG, 3, 0, 1, 2, 14, 25, 9),
    (RG, 2, 3, 0, 1, 3, 26, 14), (RG, 1, 2, 3, 0, 8, 27, 20),
    (RG, 0, 1, 2, 3, 13, 28, 5), (RG, 3, 0, 1, 2, 2, 29, 9),
    (RG, 2, 3, 0, 1, 7, 30, 14), (RG, 1, 2, 3, 0, 12, 31, 20),
    (RH, 0, 1, 2, 3, 5, 32, 4), (RH, 3, 0, 1, 2, 8, 33, 11),
    (RH, 2, 3, 0, 1, 11, 34, 16), (RH, 1, 2, 3, 0, 14, 35, 23),
    (RH, 0, 1, 2, 3, 1, 36, 4), (RH, 3, 0, 1, 2, 4, 37, 11),
    (RH, 2, 3, 0, 1, 7, 38, 16), (RH, 1, 2, 3, 0, 10, 39, 23),
    (RH, 0, 1, 2, 3, 13, 40, 4), (RH, 3, 0, 1, 2, 0, 41, 11),
    (RH, 2, 3, 0, 1, 3, 42, 16), (RH, 1, 2, 3, 0, 6, 43, 23),
    (RH, 0, 1, 2, 3, 9, 44, 4), (RH, 3, 0, 1, 2, 12, 45, 11),
    (RH, 2, 3, 0, 1, 15, 46, 16), (RH, 1, 2, 3, 0, 2, 47, 23),
    (RI, 0, 1, 2, 3, 0, 48, 6), (RI, 3, 0, 1, 2, 7, 49, 10),
    (RI, 2, 3, 0, 1, 14, 50, 15), (RI, 1, 2, 3, 0, 5, 51, 21),
    (RI, 0, 1, 2, 3, 12, 52, 6), (RI, 3, 0, 1, 2, 3, 53, 10),
    (RI, 2, 3, 0, 1, 10, 54, 15), (RI, 1, 2, 3, 0, 1, 55, 21),
    (RI, 0, 1, 2, 3, 8, 56, 6), (RI, 3, 0, 1, 2, 15, 57, 10),
    (RI, 2, 3, 0, 1, 6, 58, 15), (RI, 1, 2, 3, 0, 13, 59, 21),
    (RI, 0, 1, 2, 3, 4, 60, 6), (RI, 3, 0, 1, 2, 11, 61, 10),
    (RI, 2, 3, 0, 1, 2, 62, 15), (RI, 1, 2, 3, 0, 9, 63, 21)]"


section \<open>The kernel\<close>

text \<open>The template's own transcription of the constants, and that it agrees with the reference's.\<close>

definition MD5K_T :: "u32 list" where
  "MD5K_T = [
    0xd76aa478, 0xe8c7b756, 0x242070db, 0xc1bdceee,
    0xf57c0faf, 0x4787c62a, 0xa8304613, 0xfd469501,
    0x698098d8, 0x8b44f7af, 0xffff5bb1, 0x895cd7be,
    0x6b901122, 0xfd987193, 0xa679438e, 0x49b40821,
    0xf61e2562, 0xc040b340, 0x265e5a51, 0xe9b6c7aa,
    0xd62f105d, 0x02441453, 0xd8a1e681, 0xe7d3fbc8,
    0x21e1cde6, 0xc33707d6, 0xf4d50d87, 0x455a14ed,
    0xa9e3e905, 0xfcefa3f8, 0x676f02d9, 0x8d2a4c8a,
    0xfffa3942, 0x8771f681, 0x6d9d6122, 0xfde5380c,
    0xa4beea44, 0x4bdecfa9, 0xf6bb4b60, 0xbebfbc70,
    0x289b7ec6, 0xeaa127fa, 0xd4ef3085, 0x04881d05,
    0xd9d4d039, 0xe6db99e5, 0x1fa27cf8, 0xc4ac5665,
    0xf4292244, 0x432aff97, 0xab9423a7, 0xfc93a039,
    0x655b59c3, 0x8f0ccc92, 0xffeff47d, 0x85845dd1,
    0x6fa87e4f, 0xfe2ce6e0, 0xa3014314, 0x4e0811a1,
    0xf7537e82, 0xbd3af235, 0x2ad7d2bb, 0xeb86d391]"

lemma md5k_T: "MD5K_T = MD5_T"
  unfolding MD5K_T_def MD5_T_def ..

record 'v md5k_stream =
  mk_slot :: nat
  mk_wp :: nat
  mk_wv :: "'v list"
  mk_h :: "'v list"
  mk_r :: "'v list"

definition md5k_fn :: "'v ops32 \<Rightarrow> md5_fn \<Rightarrow> 'v \<Rightarrow> 'v \<Rightarrow> 'v \<Rightarrow> 'v" where
  "md5k_fn ops f = (case f of RF \<Rightarrow> ov_f ops | RG \<Rightarrow> ov_g ops | RH \<Rightarrow> ov_h ops | RI \<Rightarrow> ov_i ops)"

definition MD5K_W :: "'v ops32 \<Rightarrow> u32 list \<Rightarrow> 'v md5k_stream \<Rightarrow> nat \<Rightarrow> 'v" where
  "MD5K_W ops corpus s wi =
    (if wi < 4 then mk_wv s ! wi else ov_load ops (drop (mk_wp s + wi * ov_lanes ops) corpus))"

definition MD5K_STEP1 :: "'v ops32 \<Rightarrow> u32 list \<Rightarrow> md5k_row \<Rightarrow> 'v md5k_stream \<Rightarrow> 'v md5k_stream" where
  "MD5K_STEP1 ops corpus row s = (case row of (f, a, b, c, d, wi, ti, sh) \<Rightarrow>
    let r = mk_r s;
        r = r[a := ov_add ops (r ! a) (md5k_fn ops f (r ! b) (r ! c) (r ! d))];
        r = r[a := ov_add ops (r ! a) (MD5K_W ops corpus s wi)];
        r = r[a := ov_add ops (r ! a) (ov_set1 ops (MD5K_T ! ti))];
        r = r[a := ov_rotl ops (r ! a) sh];
        r = r[a := ov_add ops (r ! a) (r ! b)]
    in s\<lparr>mk_r := r\<rparr>)"

definition MD5K_LOAD_SLOT ::
  "'v ops32 \<Rightarrow> u32 list \<Rightarrow> nat \<Rightarrow> nat \<Rightarrow> nat \<Rightarrow> nat \<Rightarrow> 'v md5k_stream \<Rightarrow> 'v md5k_stream" where
  "MD5K_LOAD_SLOT ops corpus streams slot_words g k s =
    (let slot = (g * streams + k) * slot_words
     in s\<lparr>mk_slot := slot,
          mk_wv := map (\<lambda>i. ov_load ops (drop (slot + i * ov_lanes ops) corpus)) [0, 1, 2, 3]\<rparr>)"

definition MD5K_INIT_H :: "'v ops32 \<Rightarrow> nat \<Rightarrow> 'v md5k_stream \<Rightarrow> 'v md5k_stream" where
  "MD5K_INIT_H ops k s =
    s\<lparr>mk_h := map (ov_set1 ops) [0x67452301, 0xefcdab89, 0x98badcfe, 0x10325476]\<rparr>"

definition MD5K_START_BLOCK ::
  "'v ops32 \<Rightarrow> u32 list \<Rightarrow> nat \<Rightarrow> nat \<Rightarrow> nat \<Rightarrow> 'v md5k_stream \<Rightarrow> 'v md5k_stream" where
  "MD5K_START_BLOCK ops corpus block_words b k s =
    (let s = s\<lparr>mk_wp := mk_slot s + b * block_words\<rparr>;
         s = (if 0 < b
              then s\<lparr>mk_wv := map (\<lambda>i. ov_load ops (drop (mk_wp s + i * ov_lanes ops) corpus)) [0, 1, 2, 3]\<rparr>
              else s)
     in s\<lparr>mk_r := [mk_h s ! 0, mk_h s ! 1, mk_h s ! 2, mk_h s ! 3]\<rparr>)"

definition MD5K_CHAIN :: "'v ops32 \<Rightarrow> nat \<Rightarrow> 'v md5k_stream \<Rightarrow> 'v md5k_stream" where
  "MD5K_CHAIN ops k s =
    s\<lparr>mk_h := map (\<lambda>i. ov_add ops (mk_h s ! i) (mk_r s ! i)) [0, 1, 2, 3]\<rparr>"

definition MD5K_FEEDBACK :: "nat \<Rightarrow> 'v md5k_stream \<Rightarrow> 'v md5k_stream" where
  "MD5K_FEEDBACK k s = s\<lparr>mk_wv := map (\<lambda>i. mk_h s ! i) [0, 1, 2, 3]\<rparr>"

text \<open>One block of one iteration, one iteration, one group.\<close>

definition md5k_block ::
  "'v ops32 \<Rightarrow> u32 list \<Rightarrow> nat \<Rightarrow> nat \<Rightarrow> 'v md5k_stream list \<Rightarrow> 'v md5k_stream list" where
  "md5k_block ops corpus block_words b ss =
    (let ss = foreach (MD5K_START_BLOCK ops corpus block_words b) ss;
         ss = fold (\<lambda>row. foreach (\<lambda>k. MD5K_STEP1 ops corpus row)) MD5K_PROGRAM ss
     in foreach (MD5K_CHAIN ops) ss)"

definition md5k_iteration ::
  "'v ops32 \<Rightarrow> u32 list \<Rightarrow> nat \<Rightarrow> nat \<Rightarrow> 'v md5k_stream list \<Rightarrow> 'v md5k_stream list" where
  "md5k_iteration ops corpus blocks block_words ss =
    (let ss = foreach (MD5K_INIT_H ops) ss;
         ss = fold (md5k_block ops corpus block_words) [0..<blocks] ss
     in foreach MD5K_FEEDBACK ss)"

definition md5k_group ::
  "'v ops32 \<Rightarrow> u32 list \<Rightarrow> nat \<Rightarrow> nat \<Rightarrow> nat \<Rightarrow> nat \<Rightarrow> 'v md5k_stream list \<Rightarrow> 'v md5k_stream list" where
  "md5k_group ops corpus streams blocks iterations g ss =
    (let slot_words = blocks * 16 * ov_lanes ops;
         block_words = 16 * ov_lanes ops;
         ss = foreach (MD5K_LOAD_SLOT ops corpus streams slot_words g) ss
     in fold (\<lambda>it. md5k_iteration ops corpus blocks block_words) [0..<iterations] ss)"

definition MD5K_ACC :: "'v ops32 \<Rightarrow> 'v md5k_stream \<Rightarrow> 'v list \<Rightarrow> 'v list" where
  "MD5K_ACC ops s acc = map (\<lambda>i. ov_xor ops (acc ! i) (mk_h s ! i)) [0..<4]"

text \<open>At the end every accumulator is stored and its lanes are XORed together.\<close>

definition md5_kernel ::
  "'v ops32 \<Rightarrow> nat \<Rightarrow> 'v md5k_stream \<Rightarrow> u32 list \<Rightarrow> nat \<Rightarrow> nat \<Rightarrow> nat \<Rightarrow> checksum" where
  "md5_kernel ops streams dirty corpus n_groups blocks iterations =
    (if iterations = 0 \<or> blocks = 0 then zero_checksum
     else
       let acc = fold (\<lambda>g acc.
             let ss = md5k_group ops corpus streams blocks iterations g (replicate streams dirty)
             in fold (\<lambda>k acc. MD5K_ACC ops (ss ! k) acc) [0..<streams] acc)
             [0..<n_groups] (replicate 4 (ov_set1 ops 0));
           c = map (\<lambda>i. fold_lanes (ov_lanes ops) (ov_store ops (acc ! i))) [0, 1, 2, 3]
       in zero_checksum[0 := ucast (c ! 0), 1 := ucast (c ! 1), 2 := ucast (c ! 2), 3 := ucast (c ! 3)])"


section \<open>One lane\<close>

text \<open>A row of the table on the four registers of one lane, and the loop of the reference.\<close>

fun md5_fn_word :: "md5_fn \<Rightarrow> u32 \<Rightarrow> u32 \<Rightarrow> u32 \<Rightarrow> u32" where
  "md5_fn_word RF = MD5_F" | "md5_fn_word RG = MD5_G" | "md5_fn_word RH = MD5_H" | "md5_fn_word RI = MD5_I"

definition lane_row :: "u32 list \<Rightarrow> md5k_row \<Rightarrow> u32 list \<Rightarrow> u32 list" where
  "lane_row m row R = (case row of (f, a, b, c, d, wi, ti, sh) \<Rightarrow>
     R[a := rotl32 (R ! a + md5_fn_word f (R ! b) (R ! c) (R ! d) + m ! wi + MD5_T ! ti) sh + R ! b])"

definition md5_row :: "nat \<Rightarrow> md5k_row" where
  "md5_row i = ([RF, RG, RH, RI] ! (i div 16), 3 * i mod 4, (3 * i + 1) mod 4, (3 * i + 2) mod 4,
     (3 * i + 3) mod 4, md5_round_word (i div 16) i, i, MD5_S ! (i div 16) ! (i mod 4))"

lemma program_rows: "MD5K_PROGRAM = map md5_row [0..<64]"
  by (simp add: MD5K_PROGRAM_def md5_row_def md5_round_word_def MD5_S_def upt_rec)

definition rows_ok :: "md5k_row \<Rightarrow> bool" where
  "rows_ok row = (case row of (f, a, b, c, d, wi, ti, sh) \<Rightarrow>
     a < 4 \<and> b < 4 \<and> c < 4 \<and> d < 4 \<and> a \<noteq> b \<and> wi < 16 \<and> 0 < sh \<and> sh < 32)"

lemma program_ok: "row \<in> set MD5K_PROGRAM \<Longrightarrow> rows_ok row"
  by (simp add: MD5K_PROGRAM_def rows_ok_def) (elim disjE; simp)

text \<open>The registers of the loop, read in the order the step about to run names them.\<close>

definition loop_view :: "nat \<Rightarrow> u32 list \<Rightarrow> md5_regs" where
  "loop_view i R = (R ! (3 * i mod 4), R ! ((3 * i + 1) mod 4), R ! ((3 * i + 2) mod 4), R ! ((3 * i + 3) mod 4))"

lemma length_lane_row [simp]: "length (lane_row m row R) = length R"
  by (simp add: lane_row_def split: prod.split)

lemma lane_row_step:
  assumes "i < 64" "length R = 4"
  shows "loop_view (Suc i) (lane_row m (md5_row i) R) = md5_loop_body m i (loop_view i R)"
proof -
  have f: "md5_fn_word ([RF, RG, RH, RI] ! (i div 16)) x y z = md5_round_fun (i div 16) x y z" for x y z
  proof -
    have "i div 16 < 4" using assms(1) by (simp add: less_mult_imp_div_less)
    then have "i div 16 = 0 \<or> i div 16 = 1 \<or> i div 16 = 2 \<or> i div 16 = 3" by linarith
    then show ?thesis by (elim disjE) (simp_all add: md5_round_fun_def)
  qed
  have M: "3 * i + c = (3 * (i mod 4) + c) + 4 * (3 * (i div 4))" for c
    using mult_div_mod_eq[of 4 i] by linarith
  have S: "(3 * i + c) mod 4 = (3 * (i mod 4) + c) mod 4" for c
    using M[of c] by (simp only: mod_mult_self2)
  note defs = loop_view_def lane_row_def md5_row_def md5_loop_body_def Let_def prod.case f
  have "i mod 4 = 0 \<or> i mod 4 = 1 \<or> i mod 4 = 2 \<or> i mod 4 = 3" by linarith
  then show ?thesis
  proof (elim disjE)
    assume r: "i mod 4 = 0"
    have T: "3 * i mod 4 = 0" "(3 * i + 1) mod 4 = 1" "(3 * i + 2) mod 4 = 2" "(3 * i + 3) mod 4 = 3"
      "3 * Suc i mod 4 = 3" "(3 * Suc i + 1) mod 4 = 0" "(3 * Suc i + 2) mod 4 = 1" "(3 * Suc i + 3) mod 4 = 2"
      using S[of 0] S[of 1] S[of 2] S[of 3] S[of 4] S[of 5] S[of 6] by (simp_all add: r add.commute)
    show ?thesis unfolding defs T using assms(2) by (simp add: ac_simps)
  next
    assume r: "i mod 4 = 1"
    have T: "3 * i mod 4 = 3" "(3 * i + 1) mod 4 = 0" "(3 * i + 2) mod 4 = 1" "(3 * i + 3) mod 4 = 2"
      "3 * Suc i mod 4 = 2" "(3 * Suc i + 1) mod 4 = 3" "(3 * Suc i + 2) mod 4 = 0" "(3 * Suc i + 3) mod 4 = 1"
      using S[of 0] S[of 1] S[of 2] S[of 3] S[of 4] S[of 5] S[of 6] by (simp_all add: r add.commute)
    show ?thesis unfolding defs T using assms(2) by (simp add: ac_simps)
  next
    assume r: "i mod 4 = 2"
    have T: "3 * i mod 4 = 2" "(3 * i + 1) mod 4 = 3" "(3 * i + 2) mod 4 = 0" "(3 * i + 3) mod 4 = 1"
      "3 * Suc i mod 4 = 1" "(3 * Suc i + 1) mod 4 = 2" "(3 * Suc i + 2) mod 4 = 3" "(3 * Suc i + 3) mod 4 = 0"
      using S[of 0] S[of 1] S[of 2] S[of 3] S[of 4] S[of 5] S[of 6] by (simp_all add: r add.commute)
    show ?thesis unfolding defs T using assms(2) by (simp add: ac_simps)
  next
    assume r: "i mod 4 = 3"
    have T: "3 * i mod 4 = 1" "(3 * i + 1) mod 4 = 2" "(3 * i + 2) mod 4 = 3" "(3 * i + 3) mod 4 = 0"
      "3 * Suc i mod 4 = 0" "(3 * Suc i + 1) mod 4 = 1" "(3 * Suc i + 2) mod 4 = 2" "(3 * Suc i + 3) mod 4 = 3"
      using S[of 0] S[of 1] S[of 2] S[of 3] S[of 4] S[of 5] S[of 6] by (simp_all add: r add.commute)
    show ?thesis unfolding defs T using assms(2) by (simp add: ac_simps)
  qed
qed

lemma loop_view_0: "loop_view 0 R = (R ! 0, R ! 1, R ! 2, R ! 3)"
proof -
  have "3 * 0 mod 4 = (0::nat)" "(3 * 0 + 1) mod 4 = (1::nat)" "(3 * 0 + 2) mod 4 = (2::nat)"
    "(3 * 0 + 3) mod 4 = (3::nat)"
    by simp_all
  then show ?thesis unfolding loop_view_def by (simp only:)
qed

lemma lane_program:
  assumes "length R = 4"
  shows "fold (lane_row m) MD5K_PROGRAM R = (case md5_loop m (R ! 0, R ! 1, R ! 2, R ! 3) of (a, b, c, d) \<Rightarrow> [a, b, c, d])"
proof -
  have len: "length (fold (lane_row m) (map md5_row [0..<n]) R) = 4" for n
    using assms by (induction n) simp_all
  have "n \<le> 64 \<Longrightarrow> loop_view n (fold (lane_row m) (map md5_row [0..<n]) R) = fold (md5_loop_body m) [0..<n] (loop_view 0 R)" for n
  proof (induction n)
    case (Suc n)
    then show ?case using lane_row_step[of n "fold (lane_row m) (map md5_row [0..<n]) R" m] len by simp
  qed simp
  from this[of 64] have "loop_view 64 (fold (lane_row m) MD5K_PROGRAM R) = md5_loop m (R ! 0, R ! 1, R ! 2, R ! 3)"
    by (simp only: program_rows md5_loop_def loop_view_0 order_refl simp_thms)
  moreover have "length (fold (lane_row m) MD5K_PROGRAM R) = 4"
    unfolding program_rows by (rule len)
  ultimately show ?thesis
    using list4_eq[of "fold (lane_row m) MD5K_PROGRAM R"]
    by (auto simp: loop_view_def split: prod.splits)
qed


section \<open>One stream, lane by lane\<close>

text \<open>All the loops over streams are one loop over the stream's own computation.\<close>

definition md5k_block1 :: "'v ops32 \<Rightarrow> u32 list \<Rightarrow> nat \<Rightarrow> nat \<Rightarrow> nat \<Rightarrow> 'v md5k_stream \<Rightarrow> 'v md5k_stream" where
  "md5k_block1 ops corpus bw b k s =
     MD5K_CHAIN ops k (fold (MD5K_STEP1 ops corpus) MD5K_PROGRAM (MD5K_START_BLOCK ops corpus bw b k s))"

definition md5k_iter1 :: "'v ops32 \<Rightarrow> u32 list \<Rightarrow> nat \<Rightarrow> nat \<Rightarrow> nat \<Rightarrow> 'v md5k_stream \<Rightarrow> 'v md5k_stream" where
  "md5k_iter1 ops corpus blocks bw k =
     stream_iteration (MD5K_INIT_H ops k) (\<lambda>b. md5k_block1 ops corpus bw b k) (MD5K_FEEDBACK k) blocks"

lemma md5k_block_streams: "md5k_block ops corpus bw b ss = foreach (md5k_block1 ops corpus bw b) ss"
  by (simp add: md5k_block_def Let_def fold_foreach foreach_foreach md5k_block1_def[abs_def])

lemma md5k_iteration_streams:
  "md5k_iteration ops corpus blocks bw ss = foreach (md5k_iter1 ops corpus blocks bw) ss"
proof -
  have "md5k_block ops corpus bw = (\<lambda>b. foreach (md5k_block1 ops corpus bw b))"
    by (rule ext)+ (rule md5k_block_streams)
  then show ?thesis
    by (simp add: md5k_iteration_def Let_def fold_foreach foreach_foreach md5k_iter1_def[abs_def] stream_iteration_def[abs_def])
qed

lemma md5k_group_streams:
  "md5k_group ops corpus streams blocks iterations g ss = foreach (\<lambda>k s.
     fold (\<lambda>it. md5k_iter1 ops corpus blocks (16 * ov_lanes ops) k) [0..<iterations]
       (MD5K_LOAD_SLOT ops corpus streams (blocks * 16 * ov_lanes ops) g k s)) ss"
proof -
  have "md5k_iteration ops corpus blocks bw = foreach (md5k_iter1 ops corpus blocks bw)" for bw
    by (rule ext) (rule md5k_iteration_streams)
  then show ?thesis
    by (simp add: md5k_group_def Let_def fold_foreach foreach_foreach)
qed

context vec32
begin

lemma lane_fn:
  "l < ov_lanes ops \<Longrightarrow> ov_store ops (md5k_fn ops f a b c) ! l
     = md5_fn_word f (ov_store ops a ! l) (ov_store ops b ! l) (ov_store ops c ! l)"
  by (cases f) (simp_all add: md5k_fn_def lane_f lane_g lane_h lane_i)

lemma lane_step:
  assumes l: "l < ov_lanes ops" and r: "length (mk_r s) = 4" "rows_ok row"
    and w: "\<And>wi. wi < 16 \<Longrightarrow> ov_store ops (MD5K_W ops corpus s wi) ! l = m ! wi"
  shows "lane32 ops l (mk_r (MD5K_STEP1 ops corpus row s)) = lane_row m row (lane32 ops l (mk_r s))
    \<and> length (mk_r (MD5K_STEP1 ops corpus row s)) = 4
    \<and> mk_wv (MD5K_STEP1 ops corpus row s) = mk_wv s \<and> mk_wp (MD5K_STEP1 ops corpus row s) = mk_wp s
    \<and> mk_h (MD5K_STEP1 ops corpus row s) = mk_h s \<and> mk_slot (MD5K_STEP1 ops corpus row s) = mk_slot s"
  using r l w
  by (auto simp: MD5K_STEP1_def lane_row_def rows_ok_def Let_def lane_update lane_add lane_rotl lane_fn
      lane_set1 md5k_T add.commute split: prod.splits)

lemma lane_steps:
  assumes l: "l < ov_lanes ops" and R: "length (mk_r s) = 4" "\<And>row. row \<in> set rows \<Longrightarrow> rows_ok row"
    and w: "\<And>wi. wi < 16 \<Longrightarrow> ov_store ops (MD5K_W ops corpus s wi) ! l = m ! wi"
  shows "lane32 ops l (mk_r (fold (MD5K_STEP1 ops corpus) rows s)) = fold (lane_row m) rows (lane32 ops l (mk_r s))
    \<and> length (mk_r (fold (MD5K_STEP1 ops corpus) rows s)) = 4
    \<and> mk_h (fold (MD5K_STEP1 ops corpus) rows s) = mk_h s
    \<and> mk_slot (fold (MD5K_STEP1 ops corpus) rows s) = mk_slot s"
  using R w
proof (induction rows arbitrary: s)
  case (Cons row rows)
  let ?s = "MD5K_STEP1 ops corpus row s"
  have st: "lane32 ops l (mk_r ?s) = lane_row m row (lane32 ops l (mk_r s))" "length (mk_r ?s) = 4"
    "mk_wv ?s = mk_wv s" "mk_wp ?s = mk_wp s" "mk_h ?s = mk_h s" "mk_slot ?s = mk_slot s"
    using lane_step[OF l Cons.prems(1) Cons.prems(2)[of row] Cons.prems(3)] by auto
  have "ov_store ops (MD5K_W ops corpus ?s wi) ! l = m ! wi" if "wi < 16" for wi
    using Cons.prems(3)[OF that] st by (simp add: MD5K_W_def split: if_splits)
  then show ?case using Cons.IH[of ?s] Cons.prems(2) st by simp
qed simp

lemma lane_block:
  assumes l: "l < ov_lanes ops" and rd: "slot_reads (ov_lanes ops) corpus (mk_slot s) l bs" and b: "b < length bs"
    and h: "length (mk_h s) = 4" and wv: "b = 0 \<Longrightarrow> length (mk_wv s) = 4"
  shows "lane32 ops l (mk_h (md5k_block1 ops corpus (16 * ov_lanes ops) b k s))
      = md5_wc (lane32 ops l (mk_h s)) (if b = 0 then put_at (bs ! 0) 0 (lane32 ops l (mk_wv s)) else bs ! b)
    \<and> mk_slot (md5k_block1 ops corpus (16 * ov_lanes ops) b k s) = mk_slot s"
proof -
  let ?m = "if b = 0 then put_at (bs ! 0) 0 (lane32 ops l (mk_wv s)) else bs ! b"
  let ?s = "MD5K_START_BLOCK ops corpus (16 * ov_lanes ops) b k s"
  have len: "length (bs ! b) = 16" using rd b by (simp add: slot_reads_def)
  have mem: "ov_store ops (ov_load ops (drop (mk_slot s + b * (16 * ov_lanes ops) + j * ov_lanes ops) corpus)) ! l = bs ! b ! j"
    if "j < 16" for j
    using slot_reads_word[OF rd b that] l by (subst lane_load) (simp_all add: le_diff_conv2)
  have w: "ov_store ops (MD5K_W ops corpus ?s wi) ! l = ?m ! wi" if wi: "wi < 16" for wi
  proof (cases "wi < 4")
    case True
    then have "wi = 0 \<or> wi = 1 \<or> wi = 2 \<or> wi = 3" by linarith
    then show ?thesis
      using mem[of wi] wi len wv
      by (auto simp: MD5K_W_def MD5K_START_BLOCK_def Let_def nth_put_at)
  next
    case False
    then show ?thesis
      using mem[OF wi] wi len wv
      by (auto simp: MD5K_W_def MD5K_START_BLOCK_def Let_def nth_put_at)
  qed
  have r: "length (mk_r ?s) = 4" "mk_h ?s = mk_h s" "mk_slot ?s = mk_slot s"
    "lane32 ops l (mk_r ?s) = lane32 ops l (mk_h s)"
    using list4_eq[OF h] by (simp_all add: MD5K_START_BLOCK_def Let_def)
  let ?f = "fold (MD5K_STEP1 ops corpus) MD5K_PROGRAM ?s"
  have f: "lane32 ops l (mk_r ?f) = fold (lane_row ?m) MD5K_PROGRAM (lane32 ops l (mk_h s))"
    "length (mk_r ?f) = 4" "mk_h ?f = mk_h s" "mk_slot ?f = mk_slot s"
    using lane_steps[OF l r(1) program_ok w] r by simp_all
  have h4: "length (lane32 ops l (mk_h s)) = 4" using h by simp
  obtain a' b' c' d' where loop: "md5_loop ?m (lane32 ops l (mk_h s) ! 0, lane32 ops l (mk_h s) ! 1,
      lane32 ops l (mk_h s) ! 2, lane32 ops l (mk_h s) ! 3) = (a', b', c', d')"
    by (metis prod_cases4)
  then have R: "lane32 ops l (mk_r ?f) = [a', b', c', d']"
    using lane_program[OF h4, of ?m] f(1) by simp
  have R': "ov_store ops (mk_r ?f ! 0) ! l = a'" "ov_store ops (mk_r ?f ! 1) ! l = b'"
    "ov_store ops (mk_r ?f ! 2) ! l = c'" "ov_store ops (mk_r ?f ! 3) ! l = d'"
    using R f(2) nth_lane(1)[of _ "mk_r ?f" ops l] by (metis nth_Cons_0 zero_less_numeral,
      simp_all flip: nth_lane)
  show ?thesis
    using h f(2-4) R' loop l
    by (simp add: md5k_block1_def MD5K_CHAIN_def md5_wc_def lane32_def lane_add)
qed

end

sublocale vec32 \<subseteq> md5k: stream_kernel md5_wc MD5_IV 4 "ov_lanes ops"
  "\<lambda>s. slot_reads (ov_lanes ops) corpus (mk_slot s)" "\<lambda>l s. lane32 ops l (mk_h s)" "\<lambda>l s. lane32 ops l (mk_wv s)"
  "MD5K_INIT_H ops k" "\<lambda>b. md5k_block1 ops corpus (16 * ov_lanes ops) b k" "MD5K_FEEDBACK k"
  for corpus :: "u32 list" and k :: nat
proof unfold_locales
  fix l b and s :: "'v md5k_stream" and bs
  assume l: "l < ov_lanes ops" and rd: "slot_reads (ov_lanes ops) corpus (mk_slot s) l bs"
  show "slot_reads (ov_lanes ops) corpus (mk_slot (MD5K_INIT_H ops k s)) l bs
    \<and> lane32 ops l (mk_h (MD5K_INIT_H ops k s)) = MD5_IV
    \<and> lane32 ops l (mk_wv (MD5K_INIT_H ops k s)) = lane32 ops l (mk_wv s)"
    using l rd by (simp add: MD5K_INIT_H_def lane32_def lane_set1 MD5_IV_def)
  assume h: "length (lane32 ops l (mk_h s)) = 4"
  show "slot_reads (ov_lanes ops) corpus (mk_slot (MD5K_FEEDBACK k s)) l bs
    \<and> lane32 ops l (mk_h (MD5K_FEEDBACK k s)) = lane32 ops l (mk_h s)
    \<and> lane32 ops l (mk_wv (MD5K_FEEDBACK k s)) = lane32 ops l (mk_h s)"
    using rd h list4_eq[of "mk_h s"] by (simp add: MD5K_FEEDBACK_def)
  assume b: "b < length bs" and f: "b = 0 \<Longrightarrow> length (lane32 ops l (mk_wv s)) = 4"
  show "slot_reads (ov_lanes ops) corpus (mk_slot (md5k_block1 ops corpus (16 * ov_lanes ops) b k s)) l bs
    \<and> lane32 ops l (mk_h (md5k_block1 ops corpus (16 * ov_lanes ops) b k s))
      = md5_wc (lane32 ops l (mk_h s)) (if b = 0 then put_at (bs ! 0) 0 (lane32 ops l (mk_wv s)) else bs ! b)"
    using lane_block[OF l rd b, of k] h f rd by simp
qed (simp_all add: slot_reads_def)

context vec32
begin

lemma md5_load_slot:
  assumes rd: "slot_reads (ov_lanes ops) corpus ((g * streams + k) * slot_words) l bs" and l: "l < ov_lanes ops"
    and bs: "bs \<noteq> []"
  shows "mk_slot (MD5K_LOAD_SLOT ops corpus streams slot_words g k s) = (g * streams + k) * slot_words"
    "lane32 ops l (mk_wv (MD5K_LOAD_SLOT ops corpus streams slot_words g k s)) = take 4 (hd bs)"
proof -
  let ?q = "(g * streams + k) * slot_words"
  show "mk_slot (MD5K_LOAD_SLOT ops corpus streams slot_words g k s) = ?q"
    by (simp add: MD5K_LOAD_SLOT_def Let_def)
  have M: "ov_store ops (ov_load ops (drop (?q + j * ov_lanes ops) corpus)) ! l = hd bs ! j" if "j < 16" for j
    using slot_reads_word[OF rd, of 0 j] that l bs
    by (subst lane_load) (simp_all add: le_diff_conv2 hd_conv_nth)
  have "length (hd bs) = 16" using rd bs by (simp add: slot_reads_def hd_conv_nth)
  then show "lane32 ops l (mk_wv (MD5K_LOAD_SLOT ops corpus streams slot_words g k s)) = take 4 (hd bs)"
    using list4_eq[of "take 4 (hd bs)"] M[of 0] M[of 1] M[of 2] M[of 3]
    by (simp add: MD5K_LOAD_SLOT_def Let_def lane32_def)
qed

text \<open>The kernel over any corpus in its layout.\<close>

theorem md5_kernel_result:
  assumes H: "corpus_holds corpus (ov_lanes ops) blocks (n_groups * streams * ov_lanes ops) W"
    and it: "0 < iterations" and b: "0 < blocks"
  shows "md5_kernel ops streams dirty corpus n_groups blocks iterations
    = kernel_result md5_wc MD5_IV 4 W (n_groups * streams * ov_lanes ops) iterations"
proof -
  let ?L = "ov_lanes ops"
  define hs where "hs = (\<lambda>g k. mk_h (md5k_group ops corpus streams blocks iterations g (replicate streams dirty) ! k))"
  have h: "lane32 ops l (hs g k) = word_digest md5_wc MD5_IV (W ((g * streams + k) * ?L + l)) iterations"
    if g: "g < n_groups" and k: "k < streams" and l: "l < ?L" for g k l
  proof -
    let ?bs = "W ((g * streams + k) * ?L + l)"
    let ?t = "MD5K_LOAD_SLOT ops corpus streams (blocks * 16 * ?L) g k dirty"
    note rd = corpus_holds_slot(1)[OF H b group_slot[OF g k] l]
    have lb: "length ?bs = blocks" using corpus_holds_slot(2)[OF H b group_slot[OF g k] l] .
    then have bs: "?bs \<noteq> []" using b by auto
    note t = md5_load_slot[OF rd l bs, of dirty]
    have "length (take 4 (hd ?bs)) = 4" using rd bs by (simp add: slot_reads_def hd_conv_nth)
    then show ?thesis
      using md5k.iterations_lane[of l corpus ?t ?bs k iterations] rd t l bs it lb k
      by (simp add: hs_def md5k_group_streams md5k_iter1_def)
  qed
  have fin: "fold_lanes ?L (ov_store ops (fold (\<lambda>g. fold (\<lambda>k. acc_step (ov_xor ops) 4 (hs g k)) [0..<streams])
        [0..<n_groups] (replicate 4 (ov_set1 ops 0)) ! i))
      = xor_over (\<lambda>m. word_digest md5_wc MD5_IV (W m) iterations ! i) [0..<n_groups * streams * ?L]"
    if "i < 4" for i
    using that h by (intro acc_digests) (simp_all add: lane_xor lane_set1 lane32_def word_digest_def md5_alg_def)
  have "md5_kernel ops streams dirty corpus n_groups blocks iterations
      = (let c = map (\<lambda>i. fold_lanes ?L (ov_store ops (fold (\<lambda>g. fold (\<lambda>k. acc_step (ov_xor ops) 4 (hs g k)) [0..<streams])
        [0..<n_groups] (replicate 4 (ov_set1 ops 0)) ! i))) [0, 1, 2, 3]
         in zero_checksum[0 := ucast (c ! 0), 1 := ucast (c ! 1), 2 := ucast (c ! 2), 3 := ucast (c ! 3)])"
    using it b unfolding md5_kernel_def MD5K_ACC_def[abs_def] acc_step_def[abs_def] hs_def Let_def by simp
  also have "\<dots> = kernel_result md5_wc MD5_IV 4 W (n_groups * streams * ?L) iterations"
    by (simp add: kernel_result_words zero_checksum_words Let_def fin list8_update)
  finally show ?thesis .
qed

end

text \<open>The kernel on the corpus built for it computes what the reference computes.\<close>

text \<open>C2: for every operation set that works lane by lane, every number of streams and groups and
  every chain length the harness admits, the vector MD5 kernel run on the corpus the harness built
  returns the checksum of the scalar reference over the same messages.\<close>

theorem md5_kernel_reference:
  assumes "vec32 ops"
    and "\<And>n words. alloc n = Some words \<Longrightarrow> length words = n"
    and "vb_corpus_build alloc True (Some md5_alg) (ov_lanes ops) start (n_groups * streams * ov_lanes ops) bytes = Some c"
    and "bytes \<le> VB_MAX_MSG_BYTES" and "0 < k" and "k = 1 \<or> digest_bytes md5_alg \<le> bytes"
  shows "md5_kernel ops streams dirty (map ucast (c_words c)) n_groups (c_blocks c) k
    = vb_reference_checksum True md5_alg start (n_groups * streams * ov_lanes ops) bytes k"
proof -
  note built = md5h.corpus_holds_built[OF assms(3) assms(2) assms(4)]
  have b: "0 < c_blocks c" using built md5h.blocks_needed_pos by simp
  show ?thesis
    using vec32.md5_kernel_result[OF assms(1) built[THEN conjunct1] assms(5) b]
      md5h.kernel_result_ref[OF assms(5,6)] by (simp add: md5_alg_def)
qed

lemma md5_kernel_reference_witness:
  "\<exists>c. vb_corpus_build (\<lambda>n. Some (replicate n 7)) True (Some md5_alg) 1 3 6 20 = Some c \<and>
     md5_kernel scalar_ops32 2 \<lparr>mk_slot = 0, mk_wp = 0, mk_wv = [], mk_h = [], mk_r = []\<rparr>
       (map ucast (c_words c)) 3 (c_blocks c) 5
     = vb_reference_checksum True md5_alg 3 6 20 5"
proof -
  have l: "ov_lanes scalar_ops32 = 1" by (simp add: scalar_ops32_def)
  have d: "digest_bytes md5_alg \<le> 20" "20 \<le> VB_MAX_MSG_BYTES" by (simp_all add: md5_alg_def VB_MAX_MSG_BYTES_def)
  obtain c where c: "vb_corpus_build (\<lambda>n. Some (replicate n 7)) True (Some md5_alg) 1 3 6 20 = Some c"
    using corpus_build_ok[where lanes=1 and n=6 and v=7 and a=md5_alg and start=3 and bytes=20] by auto
  have "md5_kernel scalar_ops32 2 \<lparr>mk_slot = 0, mk_wp = 0, mk_wv = [], mk_h = [], mk_r = []\<rparr>
       (map ucast (c_words c)) 3 (c_blocks c) 5
     = vb_reference_checksum True md5_alg 3 (3 * 2 * ov_lanes scalar_ops32) 20 5"
    by (rule md5_kernel_reference[OF sc32.vec32_axioms, of "\<lambda>n. Some (replicate n 7)"]) (use c d in \<open>simp_all add: l\<close>)
  then show ?thesis using c by (auto simp: l)
qed

end
