(* ===== verification/Rolling.thy ===== *)
theory Rolling
  imports Kernel_Contract
begin

text \<open>
  The message schedules of SHA-1 and SHA-512 are recurrences that look back at most sixteen words.
  The references fill an array of eighty words first; the kernels keep sixteen and overwrite word
  \<open>t AND 15\<close> just before step \<open>t\<close> reads it.  This theory proves, for any such recurrence and any
  step function, that both give the same registers.
\<close>

lemma and_15: "(n::nat) AND 15 = n mod 16"
proof -
  have "take_bit 4 n = n AND mask 4" by (rule take_bit_eq_mask)
  moreover have "mask 4 = (15::nat)" by (simp add: mask_eq_exp_minus_1)
  ultimately show ?thesis by (simp add: take_bit_eq_mod)
qed

lemma and_15_less [simp]: "(n::nat) AND 15 < 16"
  by (simp add: and_15)

text \<open>Filling the head of an array in order.\<close>

lemma fold_set_head:
  assumes "n \<le> length w"
  shows "fold (\<lambda>j w. w[j := g j]) [0..<n] w = put_at w 0 (map g [0..<n])"
proof (rule nth_equalityI)
  show "length (fold (\<lambda>j w. w[j := g j]) [0..<n] w) = length (put_at w 0 (map g [0..<n]))"
    using assms by (simp add: length_fold_update[of "\<lambda>j. j" g])
next
  have "fold (\<lambda>j w. w[j := g j]) [0..<n] w ! i = (if i < n then g i else w ! i)" for i
    using assms
  proof (induction n)
    case (Suc n)
    have "length (fold (\<lambda>j w. w[j := g j]) [0..<n] w) = length w" by (rule length_fold_update[of "\<lambda>j. j" g])
    then show ?case using Suc by (auto simp: nth_list_update less_Suc_eq)
  qed simp
  then show "fold (\<lambda>j w. w[j := g j]) [0..<n] w ! i = put_at w 0 (map g [0..<n]) ! i"
    if "i < length (fold (\<lambda>j w. w[j := g j]) [0..<n] w)" for i
    using that assms by (simp add: nth_put_at length_fold_update[of "\<lambda>j. j" g])
qed


text \<open>\<open>ex r\<close> is the next word, where \<open>r d\<close> is the word \<open>d\<close> places back.\<close>

definition full_schedule :: "((nat \<Rightarrow> 'w) \<Rightarrow> 'w) \<Rightarrow> nat \<Rightarrow> 'w list \<Rightarrow> 'w list" where
  "full_schedule ex n m = fold (\<lambda>i w. w @ [ex (\<lambda>d. w ! (i - d))]) [16..<n] m"

definition expand_in_place :: "((nat \<Rightarrow> 'w) \<Rightarrow> 'w) \<Rightarrow> nat \<Rightarrow> 'w list \<Rightarrow> 'w list" where
  "expand_in_place ex t w = w[t AND 15 := ex (\<lambda>d. w ! ((t - d) AND 15))]"

definition rolling_step :: "((nat \<Rightarrow> 'w) \<Rightarrow> 'w) \<Rightarrow> (nat \<Rightarrow> 'w \<Rightarrow> 'r \<Rightarrow> 'r) \<Rightarrow> nat \<Rightarrow> 'w list \<times> 'r \<Rightarrow> 'w list \<times> 'r" where
  "rolling_step ex body t = (\<lambda>(w, r).
     let w = (if t < 16 then w else expand_in_place ex t w) in (w, body t (w ! (t AND 15)) r))"

locale rolling =
  fixes ex :: "(nat \<Rightarrow> 'w) \<Rightarrow> 'w"
  assumes ex_local: "(\<And>d. 0 < d \<Longrightarrow> d \<le> 16 \<Longrightarrow> r d = r' d) \<Longrightarrow> ex r = ex r'"
begin

lemma length_full_schedule: "length m = 16 \<Longrightarrow> length (full_schedule ex n m) = max 16 n"
  unfolding full_schedule_def
proof (induction n)
  case (Suc n)
  then show ?case by (cases "16 \<le> n") auto
qed simp

lemma full_schedule_Suc:
  "16 \<le> n \<Longrightarrow> full_schedule ex (Suc n) m
    = full_schedule ex n m @ [ex (\<lambda>d. full_schedule ex n m ! (n - d))]"
  by (simp add: full_schedule_def)

lemma full_schedule_prefix:
  assumes "length m = 16" "i < max 16 n" "n \<le> k"
  shows "full_schedule ex k m ! i = full_schedule ex n m ! i"
  using assms(3)
proof (induction k rule: dec_induct)
  case (step k)
  show ?case
  proof (cases "16 \<le> k")
    case True
    then have "i < length (full_schedule ex k m)"
      using assms(1,2) step(1) by (simp add: length_full_schedule)
    then show ?thesis using True step by (simp add: full_schedule_Suc nth_append)
  next
    case False
    then have "full_schedule ex (Suc k) m = full_schedule ex k m" by (simp add: full_schedule_def)
    then show ?thesis using step by simp
  qed
qed simp

lemma full_schedule_nth:
  assumes "length m = 16" "n < k"
  shows "full_schedule ex k m ! n
    = (if n < 16 then m ! n else ex (\<lambda>d. full_schedule ex k m ! (n - d)))"
proof (cases "n < 16")
  case True
  then have "full_schedule ex k m ! n = full_schedule ex 0 m ! n"
    using full_schedule_prefix[OF assms(1), of n 0 k] by simp
  then show ?thesis using True by (simp add: full_schedule_def)
next
  case False
  then have "full_schedule ex (Suc n) m ! n = ex (\<lambda>d. full_schedule ex n m ! (n - d))"
    using assms(1) by (simp add: full_schedule_Suc nth_append length_full_schedule)
  moreover have "full_schedule ex k m ! n = full_schedule ex (Suc n) m ! n"
    using full_schedule_prefix[OF assms(1), of n "Suc n" k] assms(2) by simp
  moreover have "ex (\<lambda>d. full_schedule ex n m ! (n - d)) = ex (\<lambda>d. full_schedule ex k m ! (n - d))"
    using False assms(2) by (intro ex_local full_schedule_prefix[OF assms(1), symmetric]) auto
  ultimately show ?thesis using False by simp
qed

text \<open>The window: after \<open>n\<close> steps the sixteen words kept are the last sixteen of the schedule.\<close>

definition window :: "'w list \<Rightarrow> nat \<Rightarrow> 'w list \<Rightarrow> bool" where
  "window S n w \<longleftrightarrow> length w = 16 \<and> (\<forall>i. max 16 n \<le> i + 16 \<longrightarrow> i < max 16 n \<longrightarrow> w ! (i mod 16) = S ! i)"

lemma window_0: "length m = 16 \<Longrightarrow> 16 \<le> k \<Longrightarrow> window (full_schedule ex k m) 0 m"
  by (auto simp: window_def full_schedule_nth)

lemma window_step:
  assumes m: "length m = 16" and n: "n < k" and w: "window (full_schedule ex k m) n w"
  shows "window (full_schedule ex k m) (Suc n) (if n < 16 then w else expand_in_place ex n w)"
    and "(if n < 16 then w else expand_in_place ex n w) ! (n AND 15) = full_schedule ex k m ! n"
proof -
  let ?S = "full_schedule ex k m"
  let ?w = "if n < 16 then w else expand_in_place ex n w"
  have old: "w ! (i mod 16) = ?S ! i" if "max 16 n \<le> i + 16" "i < max 16 n" for i
    using w that by (simp add: window_def)
  have new: "?w ! (i mod 16) = ?S ! i" if i: "max 16 (Suc n) \<le> i + 16" "i < max 16 (Suc n)" for i
  proof (cases "n < 16")
    case True
    then show ?thesis using i old[of i] by simp
  next
    case False
    have len: "length w = 16" using w by (simp add: window_def)
    show ?thesis
    proof (cases "i = n")
      case True
      have "ex (\<lambda>d. w ! ((n - d) AND 15)) = ex (\<lambda>d. ?S ! (n - d))"
        using False by (intro ex_local) (simp add: and_15 old)
      then show ?thesis
        using True False len full_schedule_nth[OF m n] by (simp add: expand_in_place_def and_15)
    next
      case no: False
      have ne: "i mod 16 \<noteq> n mod 16"
      proof
        assume eq: "i mod 16 = n mod 16"
        have lt: "i < n" "n < i + 16" using i no False by auto
        have "16 dvd n - i" using eq lt mod_eq_dvd_iff_nat[of i n 16] by simp
        then have "16 \<le> n - i" using lt by (intro dvd_imp_le) auto
        then show False using lt by simp
      qed
      then show ?thesis
        using False no i old[of i] by (simp add: expand_in_place_def and_15)
    qed
  qed
  have "length ?w = 16" using w by (simp add: window_def expand_in_place_def)
  with new show "window ?S (Suc n) ?w" unfolding window_def by blast
  show "?w ! (n AND 15) = ?S ! n"
    using new[of n] by (simp add: and_15)
qed

theorem rolling_program:
  assumes m: "length m = 16" and k: "16 \<le> k"
  shows "snd (fold (rolling_step ex body) [0..<k] (m, r))
    = fold (\<lambda>t. body t (full_schedule ex k m ! t)) [0..<k] r"
proof -
  have "n \<le> k \<Longrightarrow> window (full_schedule ex k m) n (fst (fold (rolling_step ex body) [0..<n] (m, r)))
      \<and> snd (fold (rolling_step ex body) [0..<n] (m, r)) = fold (\<lambda>t. body t (full_schedule ex k m ! t)) [0..<n] r" for n
  proof (induction n)
    case 0
    then show ?case using window_0[OF m k] by simp
  next
    case (Suc n)
    obtain w s where ws: "fold (rolling_step ex body) [0..<n] (m, r) = (w, s)" by fastforce
    with Suc have "window (full_schedule ex k m) n w" and s: "s = fold (\<lambda>t. body t (full_schedule ex k m ! t)) [0..<n] r"
      by auto
    note W = window_step[OF m _ this(1)]
    have "fold (rolling_step ex body) [0..<Suc n] (m, r) = rolling_step ex body n (w, s)" by (simp add: ws)
    also have "\<dots> = (if n < 16 then w else expand_in_place ex n w, body n (full_schedule ex k m ! n) s)"
      using W Suc.prems by (simp add: rolling_step_def Let_def)
    finally show ?case using W Suc.prems s by simp
  qed
  from this[of k] show ?thesis by simp
qed

end

text \<open>The two schedules.\<close>

definition sha1_ex :: "(nat \<Rightarrow> u32) \<Rightarrow> u32" where
  "sha1_ex r = rotl32 (r 3 XOR r 8 XOR r 14 XOR r 16) 1"

definition sha512_ex :: "(nat \<Rightarrow> u64) \<Rightarrow> u64" where
  "sha512_ex r = SSIG1 (r 2) + r 7 + SSIG0 (r 15) + r 16"

lemma schedules: "sha1_schedule = full_schedule sha1_ex 80" "sha512_schedule = full_schedule sha512_ex 80"
  by (rule ext, simp only: sha1_schedule_def sha512_schedule_def full_schedule_def sha1_expand_def[abs_def]
      sha512_expand_def[abs_def] sha1_ex_def sha512_ex_def)+

interpretation sha1x: rolling sha1_ex
proof (rule rolling.intro)
  fix r r' :: "nat \<Rightarrow> u32" assume "\<And>d. 0 < d \<Longrightarrow> d \<le> 16 \<Longrightarrow> r d = r' d"
  from this[of 3] this[of 8] this[of 14] this[of 16] show "sha1_ex r = sha1_ex r'" by (simp add: sha1_ex_def)
qed

interpretation sha512x: rolling sha512_ex
proof (rule rolling.intro)
  fix r r' :: "nat \<Rightarrow> u64" assume "\<And>d. 0 < d \<Longrightarrow> d \<le> 16 \<Longrightarrow> r d = r' d"
  from this[of 2] this[of 7] this[of 15] this[of 16] show "sha512_ex r = sha512_ex r'" by (simp add: sha512_ex_def)
qed

end
