(* ===== verification/Kernel_Sha1.thy ===== *)
theory Kernel_Sha1
  imports Rolling
begin

text \<open>
  src/kernels/cpu/sha1_kernel_impl.h: the multi-way SHA-1 kernel, over any operation set.  The
  conventions are those of \<open>Kernel_Md5\<close>.  The message schedule is the sixteen-word window
  overwritten at \<open>t AND 15\<close>; the program of eighty steps is spelt with the macros' runs.
\<close>

section \<open>The program\<close>

datatype s1k_fn = S1CH | S1PAR | S1MAJ

text \<open>An expansion of word \<open>t\<close>, or a step: round function, index of its constant, \<open>t\<close>.\<close>

datatype s1k_op = S1Expand nat | S1Step s1k_fn nat nat

definition S1K_PLAIN :: "s1k_fn \<Rightarrow> nat \<Rightarrow> nat \<Rightarrow> s1k_op list" where
  "S1K_PLAIN f kc t = [S1Step f kc t]"

definition S1K_EXPANDED :: "s1k_fn \<Rightarrow> nat \<Rightarrow> nat \<Rightarrow> s1k_op list" where
  "S1K_EXPANDED f kc t = [S1Expand t, S1Step f kc t]"

definition S1K_RUN4 :: "(s1k_fn \<Rightarrow> nat \<Rightarrow> nat \<Rightarrow> s1k_op list) \<Rightarrow> s1k_fn \<Rightarrow> nat \<Rightarrow> nat \<Rightarrow> s1k_op list" where
  "S1K_RUN4 run f kc base = run f kc (base + 0) @ run f kc (base + 1) @ run f kc (base + 2) @ run f kc (base + 3)"

definition S1K_RUN16 :: "(s1k_fn \<Rightarrow> nat \<Rightarrow> nat \<Rightarrow> s1k_op list) \<Rightarrow> s1k_fn \<Rightarrow> nat \<Rightarrow> nat \<Rightarrow> s1k_op list" where
  "S1K_RUN16 run f kc base =
     S1K_RUN4 run f kc (base + 0) @ S1K_RUN4 run f kc (base + 4) @ S1K_RUN4 run f kc (base + 8) @
     S1K_RUN4 run f kc (base + 12)"

definition S1K_RUN20 :: "(s1k_fn \<Rightarrow> nat \<Rightarrow> nat \<Rightarrow> s1k_op list) \<Rightarrow> s1k_fn \<Rightarrow> nat \<Rightarrow> nat \<Rightarrow> s1k_op list" where
  "S1K_RUN20 run f kc base = S1K_RUN16 run f kc base @ S1K_RUN4 run f kc (base + 16)"

definition S1K_PROGRAM :: "s1k_op list" where
  "S1K_PROGRAM =
     S1K_RUN16 S1K_PLAIN S1CH 0 0 @
     S1K_RUN4 S1K_EXPANDED S1CH 0 16 @
     S1K_RUN20 S1K_EXPANDED S1PAR 1 20 @
     S1K_RUN20 S1K_EXPANDED S1MAJ 2 40 @
     S1K_RUN20 S1K_EXPANDED S1PAR 3 60"


section \<open>The kernel\<close>

text \<open>The template's own constants, and that they agree with the reference's.\<close>

definition S1K_K :: "u32 list" where
  "S1K_K = [0x5a827999, 0x6ed9eba1, 0x8f1bbcdc, 0xca62c1d6]"

definition S1K_IV :: "u32 list" where
  "S1K_IV = [0x67452301, 0xefcdab89, 0x98badcfe, 0x10325476, 0xc3d2e1f0]"

lemma s1k_constants: "S1K_K = SHA1_K" "S1K_IV = SHA1_IV"
  unfolding S1K_K_def SHA1_K_def S1K_IV_def SHA1_IV_def by (rule refl)+

text \<open>The registers A to E are \<open>sk_r\<close>, h0 to h4 are \<open>sk_h\<close>.\<close>

record 'v s1k_stream =
  sk_slot :: nat
  sk_w :: "'v list"
  sk_fb :: "'v list"
  sk_h :: "'v list"
  sk_r :: "'v list"

definition s1k_f :: "'v ops32 \<Rightarrow> s1k_fn \<Rightarrow> 'v \<Rightarrow> 'v \<Rightarrow> 'v \<Rightarrow> 'v" where
  "s1k_f ops f x y z =
    (case f of S1CH \<Rightarrow> ov_ch ops x y z | S1MAJ \<Rightarrow> ov_maj ops x y z
     | S1PAR \<Rightarrow> ov_xor ops (ov_xor ops x y) z)"

definition S1K_STEP1 :: "'v ops32 \<Rightarrow> s1k_fn \<Rightarrow> nat \<Rightarrow> nat \<Rightarrow> 'v s1k_stream \<Rightarrow> 'v s1k_stream" where
  "S1K_STEP1 ops f kc t s =
    (let a = sk_r s ! 0; b = sk_r s ! 1; c = sk_r s ! 2; d = sk_r s ! 3; e = sk_r s ! 4;
         tmp = ov_add ops (ov_rotl ops a 5) (s1k_f ops f b c d);
         tmp = ov_add ops tmp e;
         tmp = ov_add ops tmp (ov_set1 ops (S1K_K ! kc));
         tmp = ov_add ops tmp (sk_w s ! (t AND 15))
     in s\<lparr>sk_r := [tmp, a, ov_rotl ops b 30, c, d]\<rparr>)"

definition S1K_EXPAND1 :: "'v ops32 \<Rightarrow> nat \<Rightarrow> 'v s1k_stream \<Rightarrow> 'v s1k_stream" where
  "S1K_EXPAND1 ops t s =
    (let w = sk_w s
     in case ov_xor3_xorrot ops of
          Some (xor3, xorrot) \<Rightarrow>
            let x = xor3 (w ! ((t - 3) AND 15)) (w ! ((t - 8) AND 15)) (w ! ((t - 14) AND 15))
            in s\<lparr>sk_w := w[t AND 15 := xorrot x (w ! ((t - 16) AND 15)) 1]\<rparr>
        | None \<Rightarrow>
            let x = ov_xor ops (w ! ((t - 3) AND 15)) (w ! ((t - 8) AND 15));
                x = ov_xor ops x (w ! ((t - 14) AND 15));
                x = ov_xor ops x (w ! ((t - 16) AND 15))
            in s\<lparr>sk_w := w[t AND 15 := ov_rotl ops x 1]\<rparr>)"

definition s1k_exec :: "'v ops32 \<Rightarrow> s1k_op \<Rightarrow> 'v s1k_stream \<Rightarrow> 'v s1k_stream" where
  "s1k_exec ops op = (case op of S1Expand t \<Rightarrow> S1K_EXPAND1 ops t | S1Step f kc t \<Rightarrow> S1K_STEP1 ops f kc t)"

definition S1K_LOAD_SLOT ::
  "'v ops32 \<Rightarrow> u32 list \<Rightarrow> nat \<Rightarrow> nat \<Rightarrow> nat \<Rightarrow> nat \<Rightarrow> 'v s1k_stream \<Rightarrow> 'v s1k_stream" where
  "S1K_LOAD_SLOT ops corpus streams slot_words g k s =
    (let slot = (g * streams + k) * slot_words
     in s\<lparr>sk_slot := slot,
          sk_fb := map (\<lambda>j. ov_load ops (drop (slot + j * ov_lanes ops) corpus)) [0..<5]\<rparr>)"

definition S1K_INIT_H :: "'v ops32 \<Rightarrow> nat \<Rightarrow> 'v s1k_stream \<Rightarrow> 'v s1k_stream" where
  "S1K_INIT_H ops k s = s\<lparr>sk_h := map (\<lambda>j. ov_set1 ops (S1K_IV ! j)) [0..<5]\<rparr>"

definition S1K_START_BLOCK ::
  "'v ops32 \<Rightarrow> u32 list \<Rightarrow> nat \<Rightarrow> nat \<Rightarrow> nat \<Rightarrow> 'v s1k_stream \<Rightarrow> 'v s1k_stream" where
  "S1K_START_BLOCK ops corpus block_words b k s =
    (let wp = sk_slot s + b * block_words;
         w = map (\<lambda>j. ov_load ops (drop (wp + j * ov_lanes ops) corpus)) [0..<16];
         w = (if b = 0 then fold (\<lambda>j w. w[j := sk_fb s ! j]) [0..<5] w else w)
     in s\<lparr>sk_w := w, sk_r := map (\<lambda>j. sk_h s ! j) [0..<5]\<rparr>)"

definition S1K_CHAIN :: "'v ops32 \<Rightarrow> nat \<Rightarrow> 'v s1k_stream \<Rightarrow> 'v s1k_stream" where
  "S1K_CHAIN ops k s = s\<lparr>sk_h := map (\<lambda>j. ov_add ops (sk_h s ! j) (sk_r s ! j)) [0..<5]\<rparr>"

definition S1K_FEEDBACK :: "nat \<Rightarrow> 'v s1k_stream \<Rightarrow> 'v s1k_stream" where
  "S1K_FEEDBACK k s = s\<lparr>sk_fb := map (\<lambda>j. sk_h s ! j) [0..<5]\<rparr>"

definition s1k_block ::
  "'v ops32 \<Rightarrow> u32 list \<Rightarrow> nat \<Rightarrow> nat \<Rightarrow> 'v s1k_stream list \<Rightarrow> 'v s1k_stream list" where
  "s1k_block ops corpus block_words b ss =
    (let ss = foreach (S1K_START_BLOCK ops corpus block_words b) ss;
         ss = fold (\<lambda>op. foreach (\<lambda>k. s1k_exec ops op)) S1K_PROGRAM ss
     in foreach (S1K_CHAIN ops) ss)"

definition s1k_iteration ::
  "'v ops32 \<Rightarrow> u32 list \<Rightarrow> nat \<Rightarrow> nat \<Rightarrow> 'v s1k_stream list \<Rightarrow> 'v s1k_stream list" where
  "s1k_iteration ops corpus blocks block_words ss =
    (let ss = foreach (S1K_INIT_H ops) ss;
         ss = fold (s1k_block ops corpus block_words) [0..<blocks] ss
     in foreach S1K_FEEDBACK ss)"

definition s1k_group ::
  "'v ops32 \<Rightarrow> u32 list \<Rightarrow> nat \<Rightarrow> nat \<Rightarrow> nat \<Rightarrow> nat \<Rightarrow> 'v s1k_stream list \<Rightarrow> 'v s1k_stream list" where
  "s1k_group ops corpus streams blocks iterations g ss =
    (let slot_words = blocks * 16 * ov_lanes ops;
         block_words = 16 * ov_lanes ops;
         ss = foreach (S1K_LOAD_SLOT ops corpus streams slot_words g) ss
     in fold (\<lambda>it. s1k_iteration ops corpus blocks block_words) [0..<iterations] ss)"

definition S1K_ACC :: "'v ops32 \<Rightarrow> 'v s1k_stream \<Rightarrow> 'v list \<Rightarrow> 'v list" where
  "S1K_ACC ops s acc = map (\<lambda>i. ov_xor ops (acc ! i) (sk_h s ! i)) [0..<5]"

definition sha1_kernel ::
  "'v ops32 \<Rightarrow> nat \<Rightarrow> 'v s1k_stream \<Rightarrow> u32 list \<Rightarrow> nat \<Rightarrow> nat \<Rightarrow> nat \<Rightarrow> checksum" where
  "sha1_kernel ops streams dirty corpus n_groups blocks iterations =
    (if iterations = 0 \<or> blocks = 0 then zero_checksum
     else
       let acc = fold (\<lambda>g acc.
             let ss = s1k_group ops corpus streams blocks iterations g (replicate streams dirty)
             in fold (\<lambda>k acc. S1K_ACC ops (ss ! k) acc) [0..<streams] acc)
             [0..<n_groups] (replicate 5 (ov_set1 ops 0));
           c = map (\<lambda>i. fold_lanes (ov_lanes ops) (ov_store ops (acc ! i))) [0..<5]
       in zero_checksum[0 := ucast (c ! 0), 1 := ucast (c ! 1), 2 := ucast (c ! 2), 3 := ucast (c ! 3),
            4 := ucast (c ! 4)])"

section \<open>One lane\<close>

fun s1k_f_word :: "s1k_fn \<Rightarrow> u32 \<Rightarrow> u32 \<Rightarrow> u32 \<Rightarrow> u32" where
  "s1k_f_word S1CH = ch_word" | "s1k_f_word S1MAJ = maj_word" | "s1k_f_word S1PAR = (\<lambda>x y z. (x XOR y) XOR z)"

definition s1k_step_word :: "s1k_fn \<Rightarrow> nat \<Rightarrow> u32 \<Rightarrow> u32 list \<Rightarrow> u32 list" where
  "s1k_step_word f kc x R =
     [rotl32 (R ! 0) 5 + s1k_f_word f (R ! 1) (R ! 2) (R ! 3) + R ! 4 + SHA1_K ! kc + x, R ! 0, rotl32 (R ! 1) 30, R ! 2, R ! 3]"

definition s1k_exec_word :: "s1k_op \<Rightarrow> u32 list \<times> u32 list \<Rightarrow> u32 list \<times> u32 list" where
  "s1k_exec_word op = (\<lambda>(w, R). case op of
     S1Expand t \<Rightarrow> (expand_in_place sha1_ex t w, R)
   | S1Step f kc t \<Rightarrow> (w, s1k_step_word f kc (w ! (t AND 15)) R))"

definition s1k_row :: "nat \<Rightarrow> s1k_op list" where
  "s1k_row t = (if t < 16 then [] else [S1Expand t]) @ [S1Step ([S1CH, S1PAR, S1MAJ, S1PAR] ! (t div 20)) (t div 20) t]"

lemma s1k_program_rows: "S1K_PROGRAM = concat (map s1k_row [0..<80])"
  by (simp add: S1K_PROGRAM_def S1K_RUN16_def S1K_RUN20_def S1K_RUN4_def S1K_PLAIN_def S1K_EXPANDED_def
      s1k_row_def upt_rec)

definition list_of_regs5 :: "sha1_regs \<Rightarrow> u32 list" where
  "list_of_regs5 = (\<lambda>(a, b, c, d, e). [a, b, c, d, e])"

lemma s1k_f_group: "t < 80 \<Longrightarrow> s1k_f_word ([S1CH, S1PAR, S1MAJ, S1PAR] ! (t div 20)) b c d = sha1_f (t div 20) b c d"
proof -
  assume "t < 80"
  then have "t div 20 < 4" by (simp add: less_mult_imp_div_less)
  then have "t div 20 = 0 \<or> t div 20 = 1 \<or> t div 20 = 2 \<or> t div 20 = 3" by linarith
  moreover have "ch_word b c d = (b AND c) OR (NOT b AND d)" "maj_word b c d = (b AND c) OR (b AND d) OR (c AND d)"
    by (auto simp: ch_word_def maj_word_def bit_simps intro!: bit_word_eqI)
  ultimately show ?thesis by (elim disjE) (simp_all add: sha1_f_def ac_simps)
qed

lemma s1k_step_loop:
  "t < 80 \<Longrightarrow> s1k_step_word ([S1CH, S1PAR, S1MAJ, S1PAR] ! (t div 20)) (t div 20) (S ! t) (list_of_regs5 r)
    = list_of_regs5 (sha1_loop_body S t r)"
  by (simp add: s1k_step_word_def sha1_loop_body_def list_of_regs5_def s1k_f_group Let_def split: prod.split)

lemma s1k_lane_program:
  assumes m: "length m = 16"
  shows "snd (fold s1k_exec_word S1K_PROGRAM (m, list_of_regs5 r)) = list_of_regs5 (sha1_loop (sha1_schedule m) r)"
proof -
  let ?body = "\<lambda>t. s1k_step_word ([S1CH, S1PAR, S1MAJ, S1PAR] ! (t div 20)) (t div 20)"
  have row: "fold s1k_exec_word (s1k_row t) = rolling_step sha1_ex ?body t" for t
    by (rule ext) (simp add: s1k_row_def s1k_exec_word_def rolling_step_def Let_def split: prod.split)
  have "fold s1k_exec_word S1K_PROGRAM = fold (rolling_step sha1_ex ?body) [0..<80]"
    unfolding s1k_program_rows fold_concat_map row ..
  then have "snd (fold s1k_exec_word S1K_PROGRAM (m, list_of_regs5 r))
      = fold (\<lambda>t. ?body t (sha1_schedule m ! t)) [0..<80] (list_of_regs5 r)"
    unfolding schedules using sha1x.rolling_program[OF m, of 80] by simp
  moreover have "n \<le> 80 \<Longrightarrow> fold (\<lambda>t. ?body t (S ! t)) [0..<n] (list_of_regs5 r)
      = list_of_regs5 (fold (sha1_loop_body S) [0..<n] r)" for n S
    by (induction n) (simp_all add: s1k_step_loop)
  ultimately show ?thesis by (simp only: sha1_loop_def order_refl)
qed


section \<open>One stream, lane by lane\<close>

definition s1k_block1 :: "'v ops32 \<Rightarrow> u32 list \<Rightarrow> nat \<Rightarrow> nat \<Rightarrow> nat \<Rightarrow> 'v s1k_stream \<Rightarrow> 'v s1k_stream" where
  "s1k_block1 ops corpus bw b k s =
     S1K_CHAIN ops k (fold (s1k_exec ops) S1K_PROGRAM (S1K_START_BLOCK ops corpus bw b k s))"

definition s1k_iter1 :: "'v ops32 \<Rightarrow> u32 list \<Rightarrow> nat \<Rightarrow> nat \<Rightarrow> nat \<Rightarrow> 'v s1k_stream \<Rightarrow> 'v s1k_stream" where
  "s1k_iter1 ops corpus blocks bw k =
     stream_iteration (S1K_INIT_H ops k) (\<lambda>b. s1k_block1 ops corpus bw b k) (S1K_FEEDBACK k) blocks"

lemma s1k_block_streams: "s1k_block ops corpus bw b ss = foreach (s1k_block1 ops corpus bw b) ss"
  by (simp add: s1k_block_def Let_def fold_foreach foreach_foreach s1k_block1_def[abs_def])

lemma s1k_iteration_streams:
  "s1k_iteration ops corpus blocks bw ss = foreach (s1k_iter1 ops corpus blocks bw) ss"
proof -
  have "s1k_block ops corpus bw = (\<lambda>b. foreach (s1k_block1 ops corpus bw b))"
    by (rule ext)+ (rule s1k_block_streams)
  then show ?thesis
    by (simp add: s1k_iteration_def Let_def fold_foreach foreach_foreach s1k_iter1_def[abs_def] stream_iteration_def[abs_def])
qed

lemma s1k_group_streams:
  "s1k_group ops corpus streams blocks iterations g ss = foreach (\<lambda>k s.
     fold (\<lambda>it. s1k_iter1 ops corpus blocks (16 * ov_lanes ops) k) [0..<iterations]
       (S1K_LOAD_SLOT ops corpus streams (blocks * 16 * ov_lanes ops) g k s)) ss"
proof -
  have "s1k_iteration ops corpus blocks bw = foreach (s1k_iter1 ops corpus blocks bw)" for bw
    by (rule ext) (rule s1k_iteration_streams)
  then show ?thesis
    by (simp add: s1k_group_def Let_def fold_foreach foreach_foreach)
qed

context vec32
begin

lemma s1_lane_f:
  "l < ov_lanes ops \<Longrightarrow> ov_store ops (s1k_f ops f a b c) ! l
     = s1k_f_word f (ov_store ops a ! l) (ov_store ops b ! l) (ov_store ops c ! l)"
  by (cases f) (simp_all add: s1k_f_def lane_ch lane_maj lane_xor)

lemma s1_lane_expand:
  assumes l: "l < ov_lanes ops" and w: "length (sk_w s) = 16"
  shows "lane32 ops l (sk_w (S1K_EXPAND1 ops t s)) = expand_in_place sha1_ex t (lane32 ops l (sk_w s))"
  using l w
  by (cases "ov_xor3_xorrot ops")
    (auto simp: S1K_EXPAND1_def Let_def expand_in_place_def sha1_ex_def lane_update lane_xor lane_rotl
      lane_xor3 lane_xorrot ac_simps)

lemma s1_expand_frame [simp]:
  "sk_r (S1K_EXPAND1 ops t s) = sk_r s" "sk_h (S1K_EXPAND1 ops t s) = sk_h s" "sk_fb (S1K_EXPAND1 ops t s) = sk_fb s"
  "sk_slot (S1K_EXPAND1 ops t s) = sk_slot s" "length (sk_w (S1K_EXPAND1 ops t s)) = length (sk_w s)"
  by (simp_all add: S1K_EXPAND1_def Let_def split: option.split)

lemma s1_lane_step:
  assumes l: "l < ov_lanes ops" and "length (sk_w s) = 16" "length (sk_r s) = 5"
  shows "lane32 ops l (sk_r (S1K_STEP1 ops f kc t s))
    = s1k_step_word f kc (lane32 ops l (sk_w s) ! (t AND 15)) (lane32 ops l (sk_r s))"
  using assms
  by (simp add: S1K_STEP1_def Let_def s1k_step_word_def s1k_constants lane_add lane_rotl lane_set1 s1_lane_f)
    (simp add: lane32_def lane_add lane_rotl lane_set1 s1_lane_f s1k_constants)

lemma s1_lane_exec:
  assumes l: "l < ov_lanes ops" and "length (sk_w s) = 16" "length (sk_r s) = 5"
  shows "(lane32 ops l (sk_w (s1k_exec ops op s)), lane32 ops l (sk_r (s1k_exec ops op s)))
      = s1k_exec_word op (lane32 ops l (sk_w s), lane32 ops l (sk_r s))
    \<and> length (sk_w (s1k_exec ops op s)) = 16 \<and> length (sk_r (s1k_exec ops op s)) = 5
    \<and> sk_h (s1k_exec ops op s) = sk_h s \<and> sk_fb (s1k_exec ops op s) = sk_fb s
    \<and> sk_slot (s1k_exec ops op s) = sk_slot s"
proof (cases op)
  case (S1Expand t)
  then show ?thesis
    using s1_lane_expand[OF assms(1,2)] assms(2,3) by (simp add: s1k_exec_def s1k_exec_word_def)
next
  case (S1Step f kc t)
  then show ?thesis
    using s1_lane_step[OF assms, of f kc t] assms
    by (simp add: s1k_exec_def s1k_exec_word_def) (simp add: S1K_STEP1_def Let_def)
qed

lemma s1_lane_fold:
  assumes l: "l < ov_lanes ops" and "length (sk_w s) = 16" "length (sk_r s) = 5"
  shows "(lane32 ops l (sk_w (fold (s1k_exec ops) p s)), lane32 ops l (sk_r (fold (s1k_exec ops) p s)))
      = fold s1k_exec_word p (lane32 ops l (sk_w s), lane32 ops l (sk_r s))
    \<and> length (sk_r (fold (s1k_exec ops) p s)) = 5
    \<and> sk_h (fold (s1k_exec ops) p s) = sk_h s \<and> sk_fb (fold (s1k_exec ops) p s) = sk_fb s
    \<and> sk_slot (fold (s1k_exec ops) p s) = sk_slot s"
  using assms(2,3)
proof (induction p arbitrary: s)
  case (Cons op p)
  note E = s1_lane_exec[OF l Cons.prems, of op]
  then have "length (sk_w (s1k_exec ops op s)) = 16" "length (sk_r (s1k_exec ops op s)) = 5" by blast+
  from Cons.IH[OF this] E show ?case by simp
qed simp

lemma s1_lane_block:
  assumes l: "l < ov_lanes ops" and rd: "slot_reads (ov_lanes ops) corpus (sk_slot s) l bs" and b: "b < length bs"
    and h: "length (sk_h s) = 5" and fb: "b = 0 \<Longrightarrow> length (sk_fb s) = 5"
  shows "lane32 ops l (sk_h (s1k_block1 ops corpus (16 * ov_lanes ops) b k s))
      = sha1_wc (lane32 ops l (sk_h s)) (if b = 0 then put_at (bs ! 0) 0 (lane32 ops l (sk_fb s)) else bs ! b)
    \<and> sk_slot (s1k_block1 ops corpus (16 * ov_lanes ops) b k s) = sk_slot s"
proof -
  let ?m = "if b = 0 then put_at (bs ! 0) 0 (lane32 ops l (sk_fb s)) else bs ! b"
  let ?H = "lane32 ops l (sk_h s)"
  let ?t = "S1K_START_BLOCK ops corpus (16 * ov_lanes ops) b k s"
  have len: "length (bs ! b) = 16" using rd b by (simp add: slot_reads_def)
  have mem: "ov_store ops (ov_load ops (drop (sk_slot s + b * (16 * ov_lanes ops) + j * ov_lanes ops) corpus)) ! l = bs ! b ! j"
    if "j < 16" for j
    using slot_reads_word[OF rd b that] l by (subst lane_load) (simp_all add: le_diff_conv2)
  have t: "lane32 ops l (sk_w ?t) = ?m" "length (sk_w ?t) = 16"
    using mem len fb
    by (auto simp: S1K_START_BLOCK_def Let_def fold_set_head lane_put_at map_nth_upt nth_put_at
        intro!: nth_equalityI simp del: upt_Suc)
  have r: "sk_r ?t = sk_h s" "sk_h ?t = sk_h s" "sk_slot ?t = sk_slot s"
    using h map_nth[of "sk_h s"] by (simp_all add: S1K_START_BLOCK_def Let_def del: upt_Suc)
  let ?f = "fold (s1k_exec ops) S1K_PROGRAM ?t"
  let ?regs = "(?H ! 0, ?H ! 1, ?H ! 2, ?H ! 3, ?H ! 4)"
  have H5: "?H = list_of_regs5 ?regs" using h list5_eq[of ?H] by (simp add: list_of_regs5_def del: nth_lane)
  have "length ?m = 16" using t(2) unfolding t(1)[symmetric] by simp
  note P = s1k_lane_program[OF this, of ?regs, folded H5]
  have F: "(lane32 ops l (sk_w ?f), lane32 ops l (sk_r ?f)) = fold s1k_exec_word S1K_PROGRAM (?m, ?H)"
    "length (sk_r ?f) = 5" "sk_h ?f = sk_h s" "sk_slot ?f = sk_slot s"
    using s1_lane_fold[OF l t(2), of S1K_PROGRAM] t(1) r h by simp_all
  have R: "lane32 ops l (sk_r ?f) = list_of_regs5 (sha1_loop (sha1_schedule ?m) ?regs)"
    using arg_cong[OF F(1), of snd] P by simp
  show ?thesis
    using F(2-4) h l R
    by (simp add: s1k_block1_def S1K_CHAIN_def sha1_wc_def lane_sum del: upt_Suc nth_lane)
      (simp add: upt_5 list_of_regs5_def split: prod.splits)
qed

end


sublocale vec32 \<subseteq> s1k: stream_kernel sha1_wc SHA1_IV 5 "ov_lanes ops"
  "\<lambda>s. slot_reads (ov_lanes ops) corpus (sk_slot s)" "\<lambda>l s. lane32 ops l (sk_h s)" "\<lambda>l s. lane32 ops l (sk_fb s)"
  "S1K_INIT_H ops k" "\<lambda>b. s1k_block1 ops corpus (16 * ov_lanes ops) b k" "S1K_FEEDBACK k"
  for corpus :: "u32 list" and k :: nat
proof unfold_locales
  fix l b and s :: "'v s1k_stream" and bs
  assume l: "l < ov_lanes ops" and rd: "slot_reads (ov_lanes ops) corpus (sk_slot s) l bs"
  show "slot_reads (ov_lanes ops) corpus (sk_slot (S1K_INIT_H ops k s)) l bs
    \<and> lane32 ops l (sk_h (S1K_INIT_H ops k s)) = SHA1_IV
    \<and> lane32 ops l (sk_fb (S1K_INIT_H ops k s)) = lane32 ops l (sk_fb s)"
    using l rd by (simp add: S1K_INIT_H_def lane32_def lane_set1 upt_5 s1k_constants SHA1_IV_def)
  assume h: "length (lane32 ops l (sk_h s)) = 5"
  show "slot_reads (ov_lanes ops) corpus (sk_slot (S1K_FEEDBACK k s)) l bs
    \<and> lane32 ops l (sk_h (S1K_FEEDBACK k s)) = lane32 ops l (sk_h s)
    \<and> lane32 ops l (sk_fb (S1K_FEEDBACK k s)) = lane32 ops l (sk_h s)"
    using rd h map_nth[of "sk_h s"] by (simp add: S1K_FEEDBACK_def del: upt_Suc)
  assume b: "b < length bs" and f: "b = 0 \<Longrightarrow> length (lane32 ops l (sk_fb s)) = 5"
  show "slot_reads (ov_lanes ops) corpus (sk_slot (s1k_block1 ops corpus (16 * ov_lanes ops) b k s)) l bs
    \<and> lane32 ops l (sk_h (s1k_block1 ops corpus (16 * ov_lanes ops) b k s))
      = sha1_wc (lane32 ops l (sk_h s)) (if b = 0 then put_at (bs ! 0) 0 (lane32 ops l (sk_fb s)) else bs ! b)"
    using s1_lane_block[OF l rd b, of k] h f rd by simp
qed (simp_all add: slot_reads_def)

context vec32
begin

lemma sha1_load_slot:
  assumes rd: "slot_reads (ov_lanes ops) corpus ((g * streams + k) * slot_words) l bs" and l: "l < ov_lanes ops"
    and bs: "bs \<noteq> []"
  shows "sk_slot (S1K_LOAD_SLOT ops corpus streams slot_words g k s) = (g * streams + k) * slot_words"
    "lane32 ops l (sk_fb (S1K_LOAD_SLOT ops corpus streams slot_words g k s)) = take 5 (hd bs)"
proof -
  let ?q = "(g * streams + k) * slot_words"
  show "sk_slot (S1K_LOAD_SLOT ops corpus streams slot_words g k s) = ?q"
    by (simp add: S1K_LOAD_SLOT_def Let_def)
  have M: "ov_store ops (ov_load ops (drop (?q + j * ov_lanes ops) corpus)) ! l = hd bs ! j" if "j < 16" for j
    using slot_reads_word[OF rd, of 0 j] that l bs
    by (subst lane_load) (simp_all add: le_diff_conv2 hd_conv_nth)
  have "length (hd bs) = 16" using rd bs by (simp add: slot_reads_def hd_conv_nth)
  then show "lane32 ops l (sk_fb (S1K_LOAD_SLOT ops corpus streams slot_words g k s)) = take 5 (hd bs)"
    using M by (intro nth_equalityI) (simp_all add: S1K_LOAD_SLOT_def Let_def lane32_def del: upt_Suc)
qed

theorem sha1_kernel_result:
  assumes H: "corpus_holds corpus (ov_lanes ops) blocks (n_groups * streams * ov_lanes ops) W"
    and it: "0 < iterations" and b: "0 < blocks"
  shows "sha1_kernel ops streams dirty corpus n_groups blocks iterations
    = kernel_result sha1_wc SHA1_IV 5 W (n_groups * streams * ov_lanes ops) iterations"
proof -
  let ?L = "ov_lanes ops"
  define hs where "hs = (\<lambda>g k. sk_h (s1k_group ops corpus streams blocks iterations g (replicate streams dirty) ! k))"
  have h: "lane32 ops l (hs g k) = word_digest sha1_wc SHA1_IV (W ((g * streams + k) * ?L + l)) iterations"
    if g: "g < n_groups" and k: "k < streams" and l: "l < ?L" for g k l
  proof -
    let ?bs = "W ((g * streams + k) * ?L + l)"
    let ?t = "S1K_LOAD_SLOT ops corpus streams (blocks * 16 * ?L) g k dirty"
    note rd = corpus_holds_slot(1)[OF H b group_slot[OF g k] l]
    have lb: "length ?bs = blocks" using corpus_holds_slot(2)[OF H b group_slot[OF g k] l] .
    then have bs: "?bs \<noteq> []" using b by auto
    note t = sha1_load_slot[OF rd l bs, of dirty]
    have "length (take 5 (hd ?bs)) = 5" using rd bs by (simp add: slot_reads_def hd_conv_nth)
    then show ?thesis
      using s1k.iterations_lane[of l corpus ?t ?bs k iterations] rd t l bs it lb k
      by (simp add: hs_def s1k_group_streams s1k_iter1_def)
  qed
  have fin: "fold_lanes ?L (ov_store ops (fold (\<lambda>g. fold (\<lambda>k. acc_step (ov_xor ops) 5 (hs g k)) [0..<streams])
        [0..<n_groups] (replicate 5 (ov_set1 ops 0)) ! i))
      = xor_over (\<lambda>m. word_digest sha1_wc SHA1_IV (W m) iterations ! i) [0..<n_groups * streams * ?L]"
    if "i < 5" for i
    using that h by (intro acc_digests) (simp_all add: lane_xor lane_set1 lane32_def word_digest_def sha1_alg_def)
  have "sha1_kernel ops streams dirty corpus n_groups blocks iterations
      = (let c = map (\<lambda>i. fold_lanes ?L (ov_store ops (fold (\<lambda>g. fold (\<lambda>k. acc_step (ov_xor ops) 5 (hs g k)) [0..<streams])
        [0..<n_groups] (replicate 5 (ov_set1 ops 0)) ! i))) [0, 1, 2, 3, 4]
         in zero_checksum[0 := ucast (c ! 0), 1 := ucast (c ! 1), 2 := ucast (c ! 2), 3 := ucast (c ! 3), 4 := ucast (c ! 4)])"
    using it b unfolding sha1_kernel_def S1K_ACC_def[abs_def] acc_step_def[abs_def] hs_def Let_def upt_5[symmetric] by simp
  also have "\<dots> = kernel_result sha1_wc SHA1_IV 5 W (n_groups * streams * ?L) iterations"
    by (simp add: kernel_result_words zero_checksum_words Let_def fin list8_update)
  finally show ?thesis .
qed

end

text \<open>C3: for every operation set that works lane by lane, whether or not it has the fused
  three-way XOR, every number of streams and groups and every admitted chain length, the vector
  SHA-1 kernel run on the corpus the harness built returns the checksum of the scalar reference.\<close>

theorem sha1_kernel_reference:
  assumes "vec32 ops"
    and "\<And>n words. alloc n = Some words \<Longrightarrow> length words = n"
    and "vb_corpus_build alloc True (Some sha1_alg) (ov_lanes ops) start (n_groups * streams * ov_lanes ops) bytes = Some c"
    and "bytes \<le> VB_MAX_MSG_BYTES" and "0 < k" and "k = 1 \<or> digest_bytes sha1_alg \<le> bytes"
  shows "sha1_kernel ops streams dirty (map ucast (c_words c)) n_groups (c_blocks c) k
    = vb_reference_checksum True sha1_alg start (n_groups * streams * ov_lanes ops) bytes k"
proof -
  note built = sha1h.corpus_holds_built[OF assms(3) assms(2) assms(4)]
  have b: "0 < c_blocks c" using built sha1h.blocks_needed_pos by simp
  show ?thesis
    using vec32.sha1_kernel_result[OF assms(1) built[THEN conjunct1] assms(5) b]
      sha1h.kernel_result_ref[OF assms(5,6)] by (simp add: sha1_alg_def)
qed

lemma sha1_kernel_reference_witness:
  "\<exists>c. vb_corpus_build (\<lambda>n. Some (replicate n 7)) True (Some sha1_alg) 1 3 6 20 = Some c \<and>
     sha1_kernel scalar_ops32 2 \<lparr>sk_slot = 0, sk_w = [], sk_fb = [], sk_h = [], sk_r = []\<rparr>
       (map ucast (c_words c)) 3 (c_blocks c) 5
     = vb_reference_checksum True sha1_alg 3 6 20 5"
proof -
  have l: "ov_lanes scalar_ops32 = 1" by (simp add: scalar_ops32_def)
  have d: "digest_bytes sha1_alg \<le> 20" "20 \<le> VB_MAX_MSG_BYTES" by (simp_all add: sha1_alg_def VB_MAX_MSG_BYTES_def)
  obtain c where c: "vb_corpus_build (\<lambda>n. Some (replicate n 7)) True (Some sha1_alg) 1 3 6 20 = Some c"
    using corpus_build_ok[where lanes=1 and n=6 and v=7 and a=sha1_alg and start=3 and bytes=20] by auto
  have "sha1_kernel scalar_ops32 2 \<lparr>sk_slot = 0, sk_w = [], sk_fb = [], sk_h = [], sk_r = []\<rparr>
       (map ucast (c_words c)) 3 (c_blocks c) 5
     = vb_reference_checksum True sha1_alg 3 (3 * 2 * ov_lanes scalar_ops32) 20 5"
    by (rule sha1_kernel_reference[OF sc32.vec32_axioms, of "\<lambda>n. Some (replicate n 7)"]) (use c d in \<open>simp_all add: l\<close>)
  then show ?thesis using c by (auto simp: l)
qed

end
