(* ===== verification/Kernel_Sha512.thy ===== *)
theory Kernel_Sha512
  imports Rolling
begin

text \<open>
  src/kernels/cpu/sha512_kernel_impl.h: the multi-way SHA-512 kernel, over any 64-bit operation
  set; conventions as in \<open>Kernel_Sha1\<close>.  No translation unit defines \<open>S5K_XOR3\<close>, so the
  three-way XOR of the sigmas is the default composition.
\<close>

section \<open>The program\<close>

datatype s5k_op = S5Expand nat | S5Step nat

definition S5K_PLAIN :: "nat \<Rightarrow> s5k_op list" where
  "S5K_PLAIN t = [S5Step t]"

definition S5K_EXPANDED :: "nat \<Rightarrow> s5k_op list" where
  "S5K_EXPANDED t = [S5Expand t, S5Step t]"

definition S5K_RUN16 :: "(nat \<Rightarrow> s5k_op list) \<Rightarrow> nat \<Rightarrow> s5k_op list" where
  "S5K_RUN16 run base =
     run (base + 0) @ run (base + 1) @ run (base + 2) @ run (base + 3) @
     run (base + 4) @ run (base + 5) @ run (base + 6) @ run (base + 7) @
     run (base + 8) @ run (base + 9) @ run (base + 10) @ run (base + 11) @
     run (base + 12) @ run (base + 13) @ run (base + 14) @ run (base + 15)"

definition S5K_PROGRAM :: "s5k_op list" where
  "S5K_PROGRAM =
     S5K_RUN16 S5K_PLAIN 0 @ S5K_RUN16 S5K_EXPANDED 16 @ S5K_RUN16 S5K_EXPANDED 32 @
     S5K_RUN16 S5K_EXPANDED 48 @ S5K_RUN16 S5K_EXPANDED 64"


section \<open>The kernel\<close>

definition S5K_XOR3 :: "'v ops64 \<Rightarrow> 'v \<Rightarrow> 'v \<Rightarrow> 'v \<Rightarrow> 'v" where
  "S5K_XOR3 ops a b c = ow_xor ops (ow_xor ops a b) c"

definition S5K_BSIG0 :: "'v ops64 \<Rightarrow> 'v \<Rightarrow> 'v" where
  "S5K_BSIG0 ops x = S5K_XOR3 ops (ow_rotr ops x 28) (ow_rotr ops x 34) (ow_rotr ops x 39)"

definition S5K_BSIG1 :: "'v ops64 \<Rightarrow> 'v \<Rightarrow> 'v" where
  "S5K_BSIG1 ops x = S5K_XOR3 ops (ow_rotr ops x 14) (ow_rotr ops x 18) (ow_rotr ops x 41)"

definition S5K_SSIG0 :: "'v ops64 \<Rightarrow> 'v \<Rightarrow> 'v" where
  "S5K_SSIG0 ops x = S5K_XOR3 ops (ow_rotr ops x 1) (ow_rotr ops x 8) (ow_shr ops x 7)"

definition S5K_SSIG1 :: "'v ops64 \<Rightarrow> 'v \<Rightarrow> 'v" where
  "S5K_SSIG1 ops x = S5K_XOR3 ops (ow_rotr ops x 19) (ow_rotr ops x 61) (ow_shr ops x 6)"

text \<open>The registers A to H are \<open>qk_r\<close>.\<close>

record 'v s5k_stream =
  qk_slot :: nat
  qk_w :: "'v list"
  qk_fb :: "'v list"
  qk_h :: "'v list"
  qk_r :: "'v list"

definition S5K_STEP1 :: "'v ops64 \<Rightarrow> nat \<Rightarrow> 'v s5k_stream \<Rightarrow> 'v s5k_stream" where
  "S5K_STEP1 ops t s =
    (let a = qk_r s ! 0; b = qk_r s ! 1; c = qk_r s ! 2; d = qk_r s ! 3;
         e = qk_r s ! 4; f = qk_r s ! 5; g = qk_r s ! 6; h = qk_r s ! 7;
         t1 = ow_add ops h (S5K_BSIG1 ops e);
         t1 = ow_add ops t1 (ow_ch ops e f g);
         t1 = ow_add ops t1 (ow_set1 ops (SHA512_K ! t));
         t1 = ow_add ops t1 (qk_w s ! (t AND 15));
         t2 = ow_add ops (S5K_BSIG0 ops a) (ow_maj ops a b c)
     in s\<lparr>qk_r := [ow_add ops t1 t2, a, b, c, ow_add ops d t1, e, f, g]\<rparr>)"

definition S5K_EXPAND1 :: "'v ops64 \<Rightarrow> nat \<Rightarrow> 'v s5k_stream \<Rightarrow> 'v s5k_stream" where
  "S5K_EXPAND1 ops t s =
    (let w = qk_w s;
         x = ow_add ops (S5K_SSIG1 ops (w ! ((t - 2) AND 15))) (w ! ((t - 7) AND 15));
         x = ow_add ops x (S5K_SSIG0 ops (w ! ((t - 15) AND 15)));
         x = ow_add ops x (w ! ((t - 16) AND 15))
     in s\<lparr>qk_w := w[t AND 15 := x]\<rparr>)"

definition s5k_exec :: "'v ops64 \<Rightarrow> s5k_op \<Rightarrow> 'v s5k_stream \<Rightarrow> 'v s5k_stream" where
  "s5k_exec ops op = (case op of S5Expand t \<Rightarrow> S5K_EXPAND1 ops t | S5Step t \<Rightarrow> S5K_STEP1 ops t)"

definition S5K_LOAD_SLOT ::
  "'v ops64 \<Rightarrow> u64 list \<Rightarrow> nat \<Rightarrow> nat \<Rightarrow> nat \<Rightarrow> nat \<Rightarrow> 'v s5k_stream \<Rightarrow> 'v s5k_stream" where
  "S5K_LOAD_SLOT ops corpus streams slot_words g k s =
    (let slot = (g * streams + k) * slot_words
     in s\<lparr>qk_slot := slot,
          qk_fb := map (\<lambda>j. ow_load ops (drop (slot + j * ow_lanes ops) corpus)) [0..<8]\<rparr>)"

definition S5K_INIT_H :: "'v ops64 \<Rightarrow> nat \<Rightarrow> 'v s5k_stream \<Rightarrow> 'v s5k_stream" where
  "S5K_INIT_H ops k s = s\<lparr>qk_h := map (\<lambda>j. ow_set1 ops (SHA512_IV ! j)) [0..<8]\<rparr>"

definition S5K_START_BLOCK ::
  "'v ops64 \<Rightarrow> u64 list \<Rightarrow> nat \<Rightarrow> nat \<Rightarrow> nat \<Rightarrow> 'v s5k_stream \<Rightarrow> 'v s5k_stream" where
  "S5K_START_BLOCK ops corpus block_words b k s =
    (let wp = qk_slot s + b * block_words;
         w = map (\<lambda>j. ow_load ops (drop (wp + j * ow_lanes ops) corpus)) [0..<16];
         w = (if b = 0 then fold (\<lambda>j w. w[j := qk_fb s ! j]) [0..<8] w else w)
     in s\<lparr>qk_w := w, qk_r := map (\<lambda>j. qk_h s ! j) [0..<8]\<rparr>)"

definition S5K_CHAIN :: "'v ops64 \<Rightarrow> nat \<Rightarrow> 'v s5k_stream \<Rightarrow> 'v s5k_stream" where
  "S5K_CHAIN ops k s = s\<lparr>qk_h := map (\<lambda>j. ow_add ops (qk_h s ! j) (qk_r s ! j)) [0..<8]\<rparr>"

definition S5K_FEEDBACK :: "nat \<Rightarrow> 'v s5k_stream \<Rightarrow> 'v s5k_stream" where
  "S5K_FEEDBACK k s = s\<lparr>qk_fb := map (\<lambda>j. qk_h s ! j) [0..<8]\<rparr>"

definition s5k_block ::
  "'v ops64 \<Rightarrow> u64 list \<Rightarrow> nat \<Rightarrow> nat \<Rightarrow> 'v s5k_stream list \<Rightarrow> 'v s5k_stream list" where
  "s5k_block ops corpus block_words b ss =
    (let ss = foreach (S5K_START_BLOCK ops corpus block_words b) ss;
         ss = fold (\<lambda>op. foreach (\<lambda>k. s5k_exec ops op)) S5K_PROGRAM ss
     in foreach (S5K_CHAIN ops) ss)"

definition s5k_iteration ::
  "'v ops64 \<Rightarrow> u64 list \<Rightarrow> nat \<Rightarrow> nat \<Rightarrow> 'v s5k_stream list \<Rightarrow> 'v s5k_stream list" where
  "s5k_iteration ops corpus blocks block_words ss =
    (let ss = foreach (S5K_INIT_H ops) ss;
         ss = fold (s5k_block ops corpus block_words) [0..<blocks] ss
     in foreach S5K_FEEDBACK ss)"

definition s5k_group ::
  "'v ops64 \<Rightarrow> u64 list \<Rightarrow> nat \<Rightarrow> nat \<Rightarrow> nat \<Rightarrow> nat \<Rightarrow> 'v s5k_stream list \<Rightarrow> 'v s5k_stream list" where
  "s5k_group ops corpus streams blocks iterations g ss =
    (let slot_words = blocks * 16 * ow_lanes ops;
         block_words = 16 * ow_lanes ops;
         ss = foreach (S5K_LOAD_SLOT ops corpus streams slot_words g) ss
     in fold (\<lambda>it. s5k_iteration ops corpus blocks block_words) [0..<iterations] ss)"

definition S5K_ACC :: "'v ops64 \<Rightarrow> 'v s5k_stream \<Rightarrow> 'v list \<Rightarrow> 'v list" where
  "S5K_ACC ops s acc = map (\<lambda>i. ow_xor ops (acc ! i) (qk_h s ! i)) [0..<8]"

definition sha512_kernel ::
  "'v ops64 \<Rightarrow> nat \<Rightarrow> 'v s5k_stream \<Rightarrow> u64 list \<Rightarrow> nat \<Rightarrow> nat \<Rightarrow> nat \<Rightarrow> checksum" where
  "sha512_kernel ops streams dirty corpus n_groups blocks iterations =
    (if iterations = 0 \<or> blocks = 0 then zero_checksum
     else
       let acc = fold (\<lambda>g acc.
             let ss = s5k_group ops corpus streams blocks iterations g (replicate streams dirty)
             in fold (\<lambda>k acc. S5K_ACC ops (ss ! k) acc) [0..<streams] acc)
             [0..<n_groups] (replicate 8 (ow_set1 ops 0))
       in map (\<lambda>j. fold_lanes (ow_lanes ops) (ow_store ops (acc ! j))) [0..<8])"


section \<open>One lane\<close>

definition s5k_step_word :: "nat \<Rightarrow> u64 \<Rightarrow> u64 list \<Rightarrow> u64 list" where
  "s5k_step_word t x R =
    (let t1 = R ! 7 + BSIG1 (R ! 4) + ch_word (R ! 4) (R ! 5) (R ! 6) + SHA512_K ! t + x;
         t2 = BSIG0 (R ! 0) + maj_word (R ! 0) (R ! 1) (R ! 2)
     in [t1 + t2, R ! 0, R ! 1, R ! 2, R ! 3 + t1, R ! 4, R ! 5, R ! 6])"

definition s5k_exec_word :: "s5k_op \<Rightarrow> u64 list \<times> u64 list \<Rightarrow> u64 list \<times> u64 list" where
  "s5k_exec_word op = (\<lambda>(w, R). case op of
     S5Expand t \<Rightarrow> (expand_in_place sha512_ex t w, R)
   | S5Step t \<Rightarrow> (w, s5k_step_word t (w ! (t AND 15)) R))"

definition s5k_row :: "nat \<Rightarrow> s5k_op list" where
  "s5k_row t = (if t < 16 then [] else [S5Expand t]) @ [S5Step t]"

lemma s5k_program_rows: "S5K_PROGRAM = concat (map s5k_row [0..<80])"
  by (simp add: S5K_PROGRAM_def S5K_RUN16_def S5K_PLAIN_def S5K_EXPANDED_def s5k_row_def upt_rec)

definition list_of_regs8 :: "sha512_regs \<Rightarrow> u64 list" where
  "list_of_regs8 = (\<lambda>(a, b, c, d, e, f, g, h). [a, b, c, d, e, f, g, h])"

lemma s5k_step_loop:
  "s5k_step_word t (S ! t) (list_of_regs8 r) = list_of_regs8 (sha512_loop_body S t r)"
  by (simp add: s5k_step_word_def sha512_loop_body_def list_of_regs8_def CH_def ch_word_def MAJ_def maj_word_def
      Let_def split: prod.split)

lemma s5k_lane_program:
  assumes m: "length m = 16"
  shows "snd (fold s5k_exec_word S5K_PROGRAM (m, list_of_regs8 r)) = list_of_regs8 (sha512_loop (sha512_schedule m) r)"
proof -
  have row: "fold s5k_exec_word (s5k_row t) = rolling_step sha512_ex s5k_step_word t" for t
    by (rule ext) (simp add: s5k_row_def s5k_exec_word_def rolling_step_def Let_def split: prod.split)
  have "fold s5k_exec_word S5K_PROGRAM = fold (rolling_step sha512_ex s5k_step_word) [0..<80]"
    unfolding s5k_program_rows fold_concat_map row ..
  then have "snd (fold s5k_exec_word S5K_PROGRAM (m, list_of_regs8 r))
      = fold (\<lambda>t. s5k_step_word t (sha512_schedule m ! t)) [0..<80] (list_of_regs8 r)"
    unfolding schedules using sha512x.rolling_program[OF m, of 80] by simp
  moreover have "n \<le> 80 \<Longrightarrow> fold (\<lambda>t. s5k_step_word t (S ! t)) [0..<n] (list_of_regs8 r)
      = list_of_regs8 (fold (sha512_loop_body S) [0..<n] r)" for n S
    by (induction n) (simp_all add: s5k_step_loop)
  ultimately show ?thesis by (simp only: sha512_loop_def order_refl)
qed


section \<open>One stream, lane by lane\<close>

definition s5k_block1 :: "'v ops64 \<Rightarrow> u64 list \<Rightarrow> nat \<Rightarrow> nat \<Rightarrow> nat \<Rightarrow> 'v s5k_stream \<Rightarrow> 'v s5k_stream" where
  "s5k_block1 ops corpus bw b k s =
     S5K_CHAIN ops k (fold (s5k_exec ops) S5K_PROGRAM (S5K_START_BLOCK ops corpus bw b k s))"

definition s5k_iter1 :: "'v ops64 \<Rightarrow> u64 list \<Rightarrow> nat \<Rightarrow> nat \<Rightarrow> nat \<Rightarrow> 'v s5k_stream \<Rightarrow> 'v s5k_stream" where
  "s5k_iter1 ops corpus blocks bw k =
     stream_iteration (S5K_INIT_H ops k) (\<lambda>b. s5k_block1 ops corpus bw b k) (S5K_FEEDBACK k) blocks"

lemma s5k_block_streams: "s5k_block ops corpus bw b ss = foreach (s5k_block1 ops corpus bw b) ss"
  by (simp add: s5k_block_def Let_def fold_foreach foreach_foreach s5k_block1_def[abs_def])

lemma s5k_iteration_streams:
  "s5k_iteration ops corpus blocks bw ss = foreach (s5k_iter1 ops corpus blocks bw) ss"
proof -
  have "s5k_block ops corpus bw = (\<lambda>b. foreach (s5k_block1 ops corpus bw b))"
    by (rule ext)+ (rule s5k_block_streams)
  then show ?thesis
    by (simp add: s5k_iteration_def Let_def fold_foreach foreach_foreach s5k_iter1_def[abs_def] stream_iteration_def[abs_def])
qed

lemma s5k_group_streams:
  "s5k_group ops corpus streams blocks iterations g ss = foreach (\<lambda>k s.
     fold (\<lambda>it. s5k_iter1 ops corpus blocks (16 * ow_lanes ops) k) [0..<iterations]
       (S5K_LOAD_SLOT ops corpus streams (blocks * 16 * ow_lanes ops) g k s)) ss"
proof -
  have "s5k_iteration ops corpus blocks bw = foreach (s5k_iter1 ops corpus blocks bw)" for bw
    by (rule ext) (rule s5k_iteration_streams)
  then show ?thesis
    by (simp add: s5k_group_def Let_def fold_foreach foreach_foreach)
qed

context vec64
begin

lemma s5_lane_sig:
  assumes "l < ow_lanes ops"
  shows "ow_store ops (S5K_BSIG0 ops x) ! l = BSIG0 (ow_store ops x ! l)"
    "ow_store ops (S5K_BSIG1 ops x) ! l = BSIG1 (ow_store ops x ! l)"
    "ow_store ops (S5K_SSIG0 ops x) ! l = SSIG0 (ow_store ops x ! l)"
    "ow_store ops (S5K_SSIG1 ops x) ! l = SSIG1 (ow_store ops x ! l)"
  using assms
  by (simp_all add: S5K_BSIG0_def S5K_BSIG1_def S5K_SSIG0_def S5K_SSIG1_def S5K_XOR3_def
      BSIG0_def BSIG1_def SSIG0_def SSIG1_def lane_xor lane_rotr lane_shr ac_simps)

lemma s5_lane_expand:
  assumes l: "l < ow_lanes ops" and w: "length (qk_w s) = 16"
  shows "lane64 ops l (qk_w (S5K_EXPAND1 ops t s)) = expand_in_place sha512_ex t (lane64 ops l (qk_w s))"
  using l w
  by (simp add: S5K_EXPAND1_def Let_def expand_in_place_def sha512_ex_def lane_update lane_add s5_lane_sig)

lemma s5_expand_frame [simp]:
  "qk_r (S5K_EXPAND1 ops t s) = qk_r s" "qk_h (S5K_EXPAND1 ops t s) = qk_h s" "qk_fb (S5K_EXPAND1 ops t s) = qk_fb s"
  "qk_slot (S5K_EXPAND1 ops t s) = qk_slot s" "length (qk_w (S5K_EXPAND1 ops t s)) = length (qk_w s)"
  by (simp_all add: S5K_EXPAND1_def Let_def)

lemma s5_lane_step:
  assumes l: "l < ow_lanes ops" and "length (qk_w s) = 16" "length (qk_r s) = 8"
  shows "lane64 ops l (qk_r (S5K_STEP1 ops t s))
    = s5k_step_word t (lane64 ops l (qk_w s) ! (t AND 15)) (lane64 ops l (qk_r s))"
  using assms
  by (simp add: S5K_STEP1_def Let_def s5k_step_word_def)
    (simp add: lane64_def lane_add lane_set1 lane_ch lane_maj s5_lane_sig)

lemma s5_lane_exec:
  assumes l: "l < ow_lanes ops" and "length (qk_w s) = 16" "length (qk_r s) = 8"
  shows "(lane64 ops l (qk_w (s5k_exec ops op s)), lane64 ops l (qk_r (s5k_exec ops op s)))
      = s5k_exec_word op (lane64 ops l (qk_w s), lane64 ops l (qk_r s))
    \<and> length (qk_w (s5k_exec ops op s)) = 16 \<and> length (qk_r (s5k_exec ops op s)) = 8
    \<and> qk_h (s5k_exec ops op s) = qk_h s \<and> qk_fb (s5k_exec ops op s) = qk_fb s
    \<and> qk_slot (s5k_exec ops op s) = qk_slot s"
proof (cases op)
  case (S5Expand t)
  then show ?thesis
    using s5_lane_expand[OF assms(1,2)] assms(2,3) by (simp add: s5k_exec_def s5k_exec_word_def)
next
  case (S5Step t)
  then show ?thesis
    using s5_lane_step[OF assms, of t] assms
    by (simp add: s5k_exec_def s5k_exec_word_def) (simp add: S5K_STEP1_def Let_def)
qed

lemma s5_lane_fold:
  assumes l: "l < ow_lanes ops" and "length (qk_w s) = 16" "length (qk_r s) = 8"
  shows "(lane64 ops l (qk_w (fold (s5k_exec ops) p s)), lane64 ops l (qk_r (fold (s5k_exec ops) p s)))
      = fold s5k_exec_word p (lane64 ops l (qk_w s), lane64 ops l (qk_r s))
    \<and> length (qk_r (fold (s5k_exec ops) p s)) = 8
    \<and> qk_h (fold (s5k_exec ops) p s) = qk_h s \<and> qk_fb (fold (s5k_exec ops) p s) = qk_fb s
    \<and> qk_slot (fold (s5k_exec ops) p s) = qk_slot s"
  using assms(2,3)
proof (induction p arbitrary: s)
  case (Cons op p)
  note E = s5_lane_exec[OF l Cons.prems, of op]
  then have "length (qk_w (s5k_exec ops op s)) = 16" "length (qk_r (s5k_exec ops op s)) = 8" by blast+
  from Cons.IH[OF this] E show ?case by simp
qed simp

lemma s5_lane_block:
  assumes l: "l < ow_lanes ops" and rd: "slot_reads (ow_lanes ops) corpus (qk_slot s) l bs" and b: "b < length bs"
    and h: "length (qk_h s) = 8" and fb: "b = 0 \<Longrightarrow> length (qk_fb s) = 8"
  shows "lane64 ops l (qk_h (s5k_block1 ops corpus (16 * ow_lanes ops) b k s))
      = sha512_wc (lane64 ops l (qk_h s)) (if b = 0 then put_at (bs ! 0) 0 (lane64 ops l (qk_fb s)) else bs ! b)
    \<and> qk_slot (s5k_block1 ops corpus (16 * ow_lanes ops) b k s) = qk_slot s"
proof -
  let ?m = "if b = 0 then put_at (bs ! 0) 0 (lane64 ops l (qk_fb s)) else bs ! b"
  let ?H = "lane64 ops l (qk_h s)"
  let ?t = "S5K_START_BLOCK ops corpus (16 * ow_lanes ops) b k s"
  have len: "length (bs ! b) = 16" using rd b by (simp add: slot_reads_def)
  have mem: "ow_store ops (ow_load ops (drop (qk_slot s + b * (16 * ow_lanes ops) + j * ow_lanes ops) corpus)) ! l = bs ! b ! j"
    if "j < 16" for j
    using slot_reads_word[OF rd b that] l by (subst lane_load) (simp_all add: le_diff_conv2)
  have t: "lane64 ops l (qk_w ?t) = ?m" "length (qk_w ?t) = 16"
    using mem len fb
    by (auto simp: S5K_START_BLOCK_def Let_def fold_set_head lane_put_at map_nth_upt nth_put_at
        intro!: nth_equalityI simp del: upt_Suc)
  have r: "qk_r ?t = qk_h s" "qk_h ?t = qk_h s" "qk_slot ?t = qk_slot s"
    using h map_nth[of "qk_h s"] by (simp_all add: S5K_START_BLOCK_def Let_def del: upt_Suc)
  let ?f = "fold (s5k_exec ops) S5K_PROGRAM ?t"
  let ?regs = "(?H ! 0, ?H ! 1, ?H ! 2, ?H ! 3, ?H ! 4, ?H ! 5, ?H ! 6, ?H ! 7)"
  have H5: "?H = list_of_regs8 ?regs" using h list8_eq[of ?H] by (simp add: list_of_regs8_def del: nth_lane)
  have "length ?m = 16" using t(2) unfolding t(1)[symmetric] by simp
  note P = s5k_lane_program[OF this, of ?regs, folded H5]
  have F: "(lane64 ops l (qk_w ?f), lane64 ops l (qk_r ?f)) = fold s5k_exec_word S5K_PROGRAM (?m, ?H)"
    "length (qk_r ?f) = 8" "qk_h ?f = qk_h s" "qk_slot ?f = qk_slot s"
    using s5_lane_fold[OF l t(2), of S5K_PROGRAM] t(1) r h by simp_all
  have R: "lane64 ops l (qk_r ?f) = list_of_regs8 (sha512_loop (sha512_schedule ?m) ?regs)"
    using arg_cong[OF F(1), of snd] P by simp
  show ?thesis
    using F(2-4) h l R
    by (simp add: s5k_block1_def S5K_CHAIN_def sha512_wc_def lane_sum del: upt_Suc nth_lane)
      (simp add: upt_small list_of_regs8_def split: prod.splits)
qed

end


sublocale vec64 \<subseteq> s5k: stream_kernel sha512_wc SHA512_IV 8 "ow_lanes ops"
  "\<lambda>s. slot_reads (ow_lanes ops) corpus (qk_slot s)" "\<lambda>l s. lane64 ops l (qk_h s)" "\<lambda>l s. lane64 ops l (qk_fb s)"
  "S5K_INIT_H ops k" "\<lambda>b. s5k_block1 ops corpus (16 * ow_lanes ops) b k" "S5K_FEEDBACK k"
  for corpus :: "u64 list" and k :: nat
proof unfold_locales
  fix l b and s :: "'v s5k_stream" and bs
  assume l: "l < ow_lanes ops" and rd: "slot_reads (ow_lanes ops) corpus (qk_slot s) l bs"
  show "slot_reads (ow_lanes ops) corpus (qk_slot (S5K_INIT_H ops k s)) l bs
    \<and> lane64 ops l (qk_h (S5K_INIT_H ops k s)) = SHA512_IV
    \<and> lane64 ops l (qk_fb (S5K_INIT_H ops k s)) = lane64 ops l (qk_fb s)"
    using l rd by (simp add: S5K_INIT_H_def lane64_def lane_set1 upt_small SHA512_IV_def)
  assume h: "length (lane64 ops l (qk_h s)) = 8"
  show "slot_reads (ow_lanes ops) corpus (qk_slot (S5K_FEEDBACK k s)) l bs
    \<and> lane64 ops l (qk_h (S5K_FEEDBACK k s)) = lane64 ops l (qk_h s)
    \<and> lane64 ops l (qk_fb (S5K_FEEDBACK k s)) = lane64 ops l (qk_h s)"
    using rd h map_nth[of "qk_h s"] by (simp add: S5K_FEEDBACK_def del: upt_Suc)
  assume b: "b < length bs" and f: "b = 0 \<Longrightarrow> length (lane64 ops l (qk_fb s)) = 8"
  show "slot_reads (ow_lanes ops) corpus (qk_slot (s5k_block1 ops corpus (16 * ow_lanes ops) b k s)) l bs
    \<and> lane64 ops l (qk_h (s5k_block1 ops corpus (16 * ow_lanes ops) b k s))
      = sha512_wc (lane64 ops l (qk_h s)) (if b = 0 then put_at (bs ! 0) 0 (lane64 ops l (qk_fb s)) else bs ! b)"
    using s5_lane_block[OF l rd b, of k] h f rd by simp
qed (simp_all add: slot_reads_def)

context vec64
begin

lemma sha512_load_slot:
  assumes rd: "slot_reads (ow_lanes ops) corpus ((g * streams + k) * slot_words) l bs" and l: "l < ow_lanes ops"
    and bs: "bs \<noteq> []"
  shows "qk_slot (S5K_LOAD_SLOT ops corpus streams slot_words g k s) = (g * streams + k) * slot_words"
    "lane64 ops l (qk_fb (S5K_LOAD_SLOT ops corpus streams slot_words g k s)) = take 8 (hd bs)"
proof -
  let ?q = "(g * streams + k) * slot_words"
  show "qk_slot (S5K_LOAD_SLOT ops corpus streams slot_words g k s) = ?q"
    by (simp add: S5K_LOAD_SLOT_def Let_def)
  have M: "ow_store ops (ow_load ops (drop (?q + j * ow_lanes ops) corpus)) ! l = hd bs ! j" if "j < 16" for j
    using slot_reads_word[OF rd, of 0 j] that l bs
    by (subst lane_load) (simp_all add: le_diff_conv2 hd_conv_nth)
  have "length (hd bs) = 16" using rd bs by (simp add: slot_reads_def hd_conv_nth)
  then show "lane64 ops l (qk_fb (S5K_LOAD_SLOT ops corpus streams slot_words g k s)) = take 8 (hd bs)"
    using M by (intro nth_equalityI) (simp_all add: S5K_LOAD_SLOT_def Let_def lane64_def del: upt_Suc)
qed

theorem sha512_kernel_result:
  assumes H: "corpus_holds corpus (ow_lanes ops) blocks (n_groups * streams * ow_lanes ops) W"
    and it: "0 < iterations" and b: "0 < blocks"
  shows "sha512_kernel ops streams dirty corpus n_groups blocks iterations
    = kernel_result sha512_wc SHA512_IV 8 W (n_groups * streams * ow_lanes ops) iterations"
proof -
  let ?L = "ow_lanes ops"
  define hs where "hs = (\<lambda>g k. qk_h (s5k_group ops corpus streams blocks iterations g (replicate streams dirty) ! k))"
  have h: "lane64 ops l (hs g k) = word_digest sha512_wc SHA512_IV (W ((g * streams + k) * ?L + l)) iterations"
    if g: "g < n_groups" and k: "k < streams" and l: "l < ?L" for g k l
  proof -
    let ?bs = "W ((g * streams + k) * ?L + l)"
    let ?t = "S5K_LOAD_SLOT ops corpus streams (blocks * 16 * ?L) g k dirty"
    note rd = corpus_holds_slot(1)[OF H b group_slot[OF g k] l]
    have lb: "length ?bs = blocks" using corpus_holds_slot(2)[OF H b group_slot[OF g k] l] .
    then have bs: "?bs \<noteq> []" using b by auto
    note t = sha512_load_slot[OF rd l bs, of dirty]
    have "length (take 8 (hd ?bs)) = 8" using rd bs by (simp add: slot_reads_def hd_conv_nth)
    then show ?thesis
      using s5k.iterations_lane[of l corpus ?t ?bs k iterations] rd t l bs it lb k
      by (simp add: hs_def s5k_group_streams s5k_iter1_def)
  qed
  have fin: "fold_lanes ?L (ow_store ops (fold (\<lambda>g. fold (\<lambda>k. acc_step (ow_xor ops) 8 (hs g k)) [0..<streams])
        [0..<n_groups] (replicate 8 (ow_set1 ops 0)) ! i))
      = xor_over (\<lambda>m. word_digest sha512_wc SHA512_IV (W m) iterations ! i) [0..<n_groups * streams * ?L]"
    if "i < 8" for i
    using that h by (intro acc_digests) (simp_all add: lane_xor lane_set1 lane64_def word_digest_def sha512_alg_def)
  have "sha512_kernel ops streams dirty corpus n_groups blocks iterations
      = map (\<lambda>i. fold_lanes ?L (ow_store ops (fold (\<lambda>g. fold (\<lambda>k. acc_step (ow_xor ops) 8 (hs g k)) [0..<streams])
        [0..<n_groups] (replicate 8 (ow_set1 ops 0)) ! i))) [0, 1, 2, 3, 4, 5, 6, 7]"
    using it b unfolding sha512_kernel_def S5K_ACC_def[abs_def] acc_step_def[abs_def] hs_def Let_def upt_small[symmetric] by simp
  also have "\<dots> = kernel_result sha512_wc SHA512_IV 8 W (n_groups * streams * ?L) iterations"
    by (simp add: kernel_result_words Let_def fin)
  finally show ?thesis .
qed

end

text \<open>C4: for every operation set that works lane by lane, every number of streams and groups and every admitted chain length, the vector
  SHA-512 kernel run on the corpus the harness built returns the checksum of the scalar reference.\<close>

theorem sha512_kernel_reference:
  assumes "vec64 ops"
    and "\<And>n words. alloc n = Some words \<Longrightarrow> length words = n"
    and "vb_corpus_build alloc True (Some sha512_alg) (ow_lanes ops) start (n_groups * streams * ow_lanes ops) bytes = Some c"
    and "bytes \<le> VB_MAX_MSG_BYTES" and "0 < k" and "k = 1 \<or> digest_bytes sha512_alg \<le> bytes"
  shows "sha512_kernel ops streams dirty (map ucast (c_words c)) n_groups (c_blocks c) k
    = vb_reference_checksum True sha512_alg start (n_groups * streams * ow_lanes ops) bytes k"
proof -
  note built = sha512h.corpus_holds_built[OF assms(3) assms(2) assms(4)]
  have b: "0 < c_blocks c" using built sha512h.blocks_needed_pos by simp
  show ?thesis
    using vec64.sha512_kernel_result[OF assms(1) built[THEN conjunct1] assms(5) b]
      sha512h.kernel_result_ref[OF assms(5,6)] by (simp add: sha512_alg_def)
qed

lemma sha512_kernel_reference_witness:
  "\<exists>c. vb_corpus_build (\<lambda>n. Some (replicate n 7)) True (Some sha512_alg) 1 3 6 70 = Some c \<and>
     sha512_kernel scalar_ops64 2 \<lparr>qk_slot = 0, qk_w = [], qk_fb = [], qk_h = [], qk_r = []\<rparr>
       (map ucast (c_words c)) 3 (c_blocks c) 5
     = vb_reference_checksum True sha512_alg 3 6 70 5"
proof -
  have l: "ow_lanes scalar_ops64 = 1" by (simp add: scalar_ops64_def)
  have d: "digest_bytes sha512_alg \<le> 70" "70 \<le> VB_MAX_MSG_BYTES" by (simp_all add: sha512_alg_def VB_MAX_MSG_BYTES_def)
  obtain c where c: "vb_corpus_build (\<lambda>n. Some (replicate n 7)) True (Some sha512_alg) 1 3 6 70 = Some c"
    using corpus_build_ok[where lanes=1 and n=6 and v=7 and a=sha512_alg and start=3 and bytes=70] by auto
  have "sha512_kernel scalar_ops64 2 \<lparr>qk_slot = 0, qk_w = [], qk_fb = [], qk_h = [], qk_r = []\<rparr>
       (map ucast (c_words c)) 3 (c_blocks c) 5
     = vb_reference_checksum True sha512_alg 3 (3 * 2 * ow_lanes scalar_ops64) 70 5"
    by (rule sha512_kernel_reference[OF sc64.vec64_axioms, of "\<lambda>n. Some (replicate n 7)"]) (use c d in \<open>simp_all add: l\<close>)
  then show ?thesis using c by (auto simp: l)
qed

end
