(* ===== verification/Isa_Ops.thy ===== *)
theory Isa_Ops
  imports Kernel_Md5 Kernel_Sha1 Kernel_Sha512
begin

text \<open>
  The operation sets of the SIMD translation units: sse2.c, avx2.c, avx512.c, neon.c, sve.c and
  sve2.c.  The compiler's intrinsics are not code of the repository, so they are the fields of a
  record that the definitions take as an argument, and the locale \<open>simd\<close> states what the vendors
  document: each acts on every element independently.  What the repository chose -- which
  intrinsic, which operand order, which truth table, which shift count -- is modelled, and proved
  to give the lane-wise operations the kernel templates rely on.
\<close>

section \<open>The intrinsics\<close>

record ('v, 'e) simd_unit =
  si_lanes :: nat
  si_set1 :: "'e \<Rightarrow> 'v"
  si_load :: "'e list \<Rightarrow> 'v"
  si_store :: "'v \<Rightarrow> 'e list"
  si_add :: "'v \<Rightarrow> 'v \<Rightarrow> 'v"
  si_and :: "'v \<Rightarrow> 'v \<Rightarrow> 'v"
  si_or :: "'v \<Rightarrow> 'v \<Rightarrow> 'v"
  si_xor :: "'v \<Rightarrow> 'v \<Rightarrow> 'v"
  si_not :: "'v \<Rightarrow> 'v"
  si_shl :: "'v \<Rightarrow> nat \<Rightarrow> 'v"
  si_shr :: "'v \<Rightarrow> nat \<Rightarrow> 'v"
  si_andnot :: "'v \<Rightarrow> 'v \<Rightarrow> 'v"
  si_rol :: "'v \<Rightarrow> nat \<Rightarrow> 'v"
  si_ror :: "'v \<Rightarrow> nat \<Rightarrow> 'v"
  si_ternary :: "'v \<Rightarrow> 'v \<Rightarrow> 'v \<Rightarrow> nat \<Rightarrow> 'v"
  si_bsl :: "'v \<Rightarrow> 'v \<Rightarrow> 'v \<Rightarrow> 'v"
  si_sri :: "'v \<Rightarrow> 'v \<Rightarrow> nat \<Rightarrow> 'v"
  si_bic :: "'v \<Rightarrow> 'v \<Rightarrow> 'v"
  si_svbsl :: "'v \<Rightarrow> 'v \<Rightarrow> 'v \<Rightarrow> 'v"
  si_eor3 :: "'v \<Rightarrow> 'v \<Rightarrow> 'v \<Rightarrow> 'v"
  si_xar :: "'v \<Rightarrow> 'v \<Rightarrow> nat \<Rightarrow> 'v"

text \<open>One element of the less obvious ones.  \<open>vpternlog\<close> looks every bit up in an eight-entry
  table; a shift-right-and-insert keeps the top bits of its first operand.\<close>

definition rol_word :: "'w::len word \<Rightarrow> nat \<Rightarrow> 'w word" where
  "rol_word x n = push_bit n x OR drop_bit (LENGTH('w) - n) x"

definition ror_word :: "'w::len word \<Rightarrow> nat \<Rightarrow> 'w word" where
  "ror_word x n = drop_bit n x OR push_bit (LENGTH('w) - n) x"

definition minterm :: "nat \<Rightarrow> 'w::len word \<Rightarrow> 'w word \<Rightarrow> 'w word \<Rightarrow> 'w word" where
  "minterm k x y z =
     (if k div 4 mod 2 = 1 then x else NOT x) AND (if k div 2 mod 2 = 1 then y else NOT y) AND
     (if k mod 2 = 1 then z else NOT z)"

definition ternary_word :: "'w::len word \<Rightarrow> 'w word \<Rightarrow> 'w word \<Rightarrow> nat \<Rightarrow> 'w word" where
  "ternary_word x y z imm =
     fold (\<lambda>k r. if imm div 2 ^ k mod 2 = 1 then r OR minterm k x y z else r) [0, 1, 2, 3, 4, 5, 6, 7] 0"

definition sri_word :: "'w::len word \<Rightarrow> 'w word \<Rightarrow> nat \<Rightarrow> 'w word" where
  "sri_word a b n = (a AND NOT (drop_bit n (NOT 0))) OR drop_bit n b"

locale simd =
  fixes I :: "('v, 'w::len word) simd_unit"
  assumes lanes: "0 < si_lanes I" and length_st: "length (si_store I v) = si_lanes I"
    and set1: "l < si_lanes I \<Longrightarrow> si_store I (si_set1 I x) ! l = x"
    and load: "l < si_lanes I \<Longrightarrow> si_lanes I \<le> length p \<Longrightarrow> si_store I (si_load I p) ! l = p ! l"
    and add: "l < si_lanes I \<Longrightarrow> si_store I (si_add I a b) ! l = si_store I a ! l + si_store I b ! l"
    and conj: "l < si_lanes I \<Longrightarrow> si_store I (si_and I a b) ! l = (si_store I a ! l) AND (si_store I b ! l)"
    and disj: "l < si_lanes I \<Longrightarrow> si_store I (si_or I a b) ! l = (si_store I a ! l) OR (si_store I b ! l)"
    and xor: "l < si_lanes I \<Longrightarrow> si_store I (si_xor I a b) ! l = (si_store I a ! l) XOR (si_store I b ! l)"
    and neg: "l < si_lanes I \<Longrightarrow> si_store I (si_not I a) ! l = NOT (si_store I a ! l)"
    and shl: "l < si_lanes I \<Longrightarrow> n < LENGTH('w) \<Longrightarrow> si_store I (si_shl I a n) ! l = push_bit n (si_store I a ! l)"
    and shr: "l < si_lanes I \<Longrightarrow> 0 < n \<Longrightarrow> n \<le> LENGTH('w) \<Longrightarrow> si_store I (si_shr I a n) ! l = drop_bit n (si_store I a ! l)"
    and andnot: "l < si_lanes I \<Longrightarrow> si_store I (si_andnot I a b) ! l = NOT (si_store I a ! l) AND (si_store I b ! l)"
    and rol: "l < si_lanes I \<Longrightarrow> n < LENGTH('w) \<Longrightarrow> si_store I (si_rol I a n) ! l = rol_word (si_store I a ! l) n"
    and ror: "l < si_lanes I \<Longrightarrow> n < LENGTH('w) \<Longrightarrow> si_store I (si_ror I a n) ! l = ror_word (si_store I a ! l) n"
    and ternary: "l < si_lanes I \<Longrightarrow> imm < 256 \<Longrightarrow> si_store I (si_ternary I a b c imm) ! l
      = ternary_word (si_store I a ! l) (si_store I b ! l) (si_store I c ! l) imm"
    and bsl: "l < si_lanes I \<Longrightarrow> si_store I (si_bsl I m a b) ! l
      = ((si_store I m ! l) AND (si_store I a ! l)) OR (NOT (si_store I m ! l) AND (si_store I b ! l))"
    and sri: "l < si_lanes I \<Longrightarrow> 0 < n \<Longrightarrow> n \<le> LENGTH('w) \<Longrightarrow>
      si_store I (si_sri I a b n) ! l = sri_word (si_store I a ! l) (si_store I b ! l) n"
    and bic: "l < si_lanes I \<Longrightarrow> si_store I (si_bic I a b) ! l = (si_store I a ! l) AND NOT (si_store I b ! l)"
    and svbsl: "l < si_lanes I \<Longrightarrow> si_store I (si_svbsl I a b s) ! l
      = ((si_store I a ! l) AND (si_store I s ! l)) OR ((si_store I b ! l) AND NOT (si_store I s ! l))"
    and eor3: "l < si_lanes I \<Longrightarrow> si_store I (si_eor3 I a b c) ! l
      = (si_store I a ! l) XOR (si_store I b ! l) XOR (si_store I c ! l)"
    and xar: "l < si_lanes I \<Longrightarrow> 0 < n \<Longrightarrow> n \<le> LENGTH('w) \<Longrightarrow>
      si_store I (si_xar I a b n) ! l = ror_word ((si_store I a ! l) XOR (si_store I b ! l)) n"


section \<open>The operation sets\<close>

text \<open>SSE2 and AVX2 are spelt alike, over registers of 128 and 256 bits.\<close>

definition x86_ops32 :: "nat \<Rightarrow> ('v, u32) simd_unit \<Rightarrow> 'v ops32" where
  "x86_ops32 n I = \<lparr>
     ov_lanes = n, ov_set1 = si_set1 I, ov_add = si_add I, ov_xor = si_xor I,
     ov_rotl = (\<lambda>x n. si_or I (si_shl I x n) (si_shr I x (32 - n))),
     ov_store = si_store I, ov_load = si_load I,
     ov_ch = (\<lambda>x y z. si_xor I (si_and I x y) (si_andnot I x z)),
     ov_maj = (\<lambda>x y z. si_xor I (si_xor I (si_and I x y) (si_and I x z)) (si_and I y z)),
     ov_f = (\<lambda>x y z. si_or I (si_and I x y) (si_andnot I x z)),
     ov_g = (\<lambda>x y z. si_or I (si_and I x z) (si_andnot I z y)),
     ov_h = (\<lambda>x y z. si_xor I (si_xor I x y) z),
     ov_i = (\<lambda>x y z. si_xor I y (si_or I x (si_xor I z (si_set1 I (- 1))))),
     ov_xor3_xorrot = None\<rparr>"

definition x86_ops64 :: "nat \<Rightarrow> ('v, u64) simd_unit \<Rightarrow> 'v ops64" where
  "x86_ops64 n I = \<lparr>
     ow_lanes = n, ow_set1 = si_set1 I, ow_add = si_add I, ow_xor = si_xor I,
     ow_rotr = (\<lambda>x n. si_or I (si_shr I x n) (si_shl I x (64 - n))), ow_shr = si_shr I,
     ow_store = si_store I, ow_load = si_load I,
     ow_ch = (\<lambda>x y z. si_xor I (si_and I x y) (si_andnot I x z)),
     ow_maj = (\<lambda>x y z. si_xor I (si_xor I (si_and I x y) (si_and I x z)) (si_and I y z))\<rparr>"

definition sse2_ops32 :: "('v, u32) simd_unit \<Rightarrow> 'v ops32" where "sse2_ops32 = x86_ops32 4"
definition sse2_ops64 :: "('v, u64) simd_unit \<Rightarrow> 'v ops64" where "sse2_ops64 = x86_ops64 2"
definition avx2_ops32 :: "('v, u32) simd_unit \<Rightarrow> 'v ops32" where "avx2_ops32 = x86_ops32 8"
definition avx2_ops64 :: "('v, u64) simd_unit \<Rightarrow> 'v ops64" where "avx2_ops64 = x86_ops64 4"

definition avx512_ops32 :: "('v, u32) simd_unit \<Rightarrow> 'v ops32" where
  "avx512_ops32 I = \<lparr>
     ov_lanes = 16, ov_set1 = si_set1 I, ov_add = si_add I, ov_xor = si_xor I,
     ov_rotl = si_rol I, ov_store = si_store I, ov_load = si_load I,
     ov_ch = (\<lambda>x y z. si_ternary I x y z 0xCA), ov_maj = (\<lambda>x y z. si_ternary I x y z 0xE8),
     ov_f = (\<lambda>x y z. si_ternary I x y z 0xCA), ov_g = (\<lambda>x y z. si_ternary I x y z 0xE4),
     ov_h = (\<lambda>x y z. si_ternary I x y z 0x96), ov_i = (\<lambda>x y z. si_ternary I x y z 0x39),
     ov_xor3_xorrot = None\<rparr>"

definition avx512_ops64 :: "('v, u64) simd_unit \<Rightarrow> 'v ops64" where
  "avx512_ops64 I = \<lparr>
     ow_lanes = 8, ow_set1 = si_set1 I, ow_add = si_add I, ow_xor = si_xor I,
     ow_rotr = si_ror I, ow_shr = si_shr I, ow_store = si_store I, ow_load = si_load I,
     ow_ch = (\<lambda>x y z. si_ternary I x y z 0xCA), ow_maj = (\<lambda>x y z. si_ternary I x y z 0xE8)\<rparr>"

definition neon_ops32 :: "('v, u32) simd_unit \<Rightarrow> 'v ops32" where
  "neon_ops32 I = \<lparr>
     ov_lanes = 4, ov_set1 = si_set1 I, ov_add = si_add I, ov_xor = si_xor I,
     ov_rotl = (\<lambda>x n. si_sri I (si_shl I x n) x (32 - n)), ov_store = si_store I, ov_load = si_load I,
     ov_ch = si_bsl I, ov_maj = (\<lambda>x y z. si_bsl I (si_xor I x y) z x),
     ov_f = si_bsl I, ov_g = (\<lambda>x y z. si_bsl I z x y),
     ov_h = (\<lambda>x y z. si_xor I (si_xor I x y) z),
     ov_i = (\<lambda>x y z. si_xor I y (si_or I x (si_not I z))),
     ov_xor3_xorrot = None\<rparr>"

definition neon_ops64 :: "('v, u64) simd_unit \<Rightarrow> 'v ops64" where
  "neon_ops64 I = \<lparr>
     ow_lanes = 2, ow_set1 = si_set1 I, ow_add = si_add I, ow_xor = si_xor I,
     ow_rotr = (\<lambda>x n. si_sri I (si_shl I x (64 - n)) x n), ow_shr = si_shr I,
     ow_store = si_store I, ow_load = si_load I,
     ow_ch = si_bsl I, ow_maj = (\<lambda>x y z. si_bsl I (si_xor I x y) z x)\<rparr>"

text \<open>On SVE the lane count is the hardware's, \<open>svcntw\<close> or \<open>svcntd\<close>, and the predicate is all
  true, so the predicated intrinsics are the plain ones.\<close>

definition sve_ops32 :: "('v, u32) simd_unit \<Rightarrow> 'v ops32" where
  "sve_ops32 I =
    (let ch = (\<lambda>x y z. si_or I (si_and I x y) (si_bic I z x)) in \<lparr>
     ov_lanes = si_lanes I, ov_set1 = si_set1 I, ov_add = si_add I, ov_xor = si_xor I,
     ov_rotl = (\<lambda>x n. si_or I (si_shl I x n) (si_shr I x (32 - n))), ov_store = si_store I, ov_load = si_load I,
     ov_ch = ch, ov_maj = (\<lambda>x y z. si_or I (si_and I x y) (si_or I (si_and I x z) (si_and I y z))),
     ov_f = ch, ov_g = (\<lambda>x y z. ch z x y),
     ov_h = (\<lambda>x y z. si_xor I (si_xor I x y) z),
     ov_i = (\<lambda>x y z. si_xor I y (si_or I x (si_not I z))),
     ov_xor3_xorrot = None\<rparr>)"

definition sve_ops64 :: "('v, u64) simd_unit \<Rightarrow> 'v ops64" where
  "sve_ops64 I = \<lparr>
     ow_lanes = si_lanes I, ow_set1 = si_set1 I, ow_add = si_add I, ow_xor = si_xor I,
     ow_rotr = (\<lambda>x n. si_or I (si_shr I x n) (si_shl I x (64 - n))), ow_shr = si_shr I,
     ow_store = si_store I, ow_load = si_load I,
     ow_ch = (\<lambda>x y z. si_or I (si_and I x y) (si_bic I z x)),
     ow_maj = (\<lambda>x y z. si_or I (si_and I x y) (si_or I (si_and I x z) (si_and I y z)))\<rparr>"

definition sve2_ops32 :: "('v, u32) simd_unit \<Rightarrow> 'v ops32" where
  "sve2_ops32 I =
    (let ch = (\<lambda>x y z. si_svbsl I y z x) in \<lparr>
     ov_lanes = si_lanes I, ov_set1 = si_set1 I, ov_add = si_add I, ov_xor = si_xor I,
     ov_rotl = (\<lambda>x n. si_xar I x (si_set1 I 0) (32 - n)), ov_store = si_store I, ov_load = si_load I,
     ov_ch = ch, ov_maj = (\<lambda>x y z. si_svbsl I z x (si_xor I x y)),
     ov_f = ch, ov_g = (\<lambda>x y z. ch z x y), ov_h = si_eor3 I,
     ov_i = (\<lambda>x y z. si_xor I y (si_or I x (si_not I z))),
     ov_xor3_xorrot = Some (si_eor3 I, \<lambda>a b n. si_xar I a b (32 - n))\<rparr>)"

definition sve2_ops64 :: "('v, u64) simd_unit \<Rightarrow> 'v ops64" where
  "sve2_ops64 I = \<lparr>
     ow_lanes = si_lanes I, ow_set1 = si_set1 I, ow_add = si_add I, ow_xor = si_xor I,
     ow_rotr = (\<lambda>x n. si_sri I (si_shl I x (64 - n)) x n), ow_shr = si_shr I,
     ow_store = si_store I, ow_load = si_load I,
     ow_ch = (\<lambda>x y z. si_svbsl I y z x), ow_maj = (\<lambda>x y z. si_svbsl I z x (si_xor I x y))\<rparr>"


section \<open>Bit identities\<close>

lemma ternary_tables:
  "ternary_word x y z 0xCA = ch_word x y z" "ternary_word x y z 0xE8 = maj_word x y z"
  by (rule bit_word_eqI; auto simp: ternary_word_def minterm_def ch_word_def maj_word_def bit_simps)+

lemma ternary_md5:
  "ternary_word x y z 0xCA = MD5_F x y z" "ternary_word x y z 0xE4 = MD5_G x y z"
  "ternary_word x y z 0x96 = MD5_H x y z" "ternary_word x y z 0x39 = MD5_I x y z"
  by (rule bit_word_eqI; auto simp: ternary_word_def minterm_def MD5_F_def MD5_G_def MD5_H_def MD5_I_def bit_simps)+

lemma select_words:
  "(x AND y) OR (NOT x AND z) = ch_word x y z" "(x AND y) OR (z AND NOT x) = ch_word x y z"
  "(y AND x) OR (z AND NOT x) = ch_word x y z"
  "((x XOR y) AND z) OR (NOT (x XOR y) AND x) = maj_word x y z"
  "(z AND (x XOR y)) OR (x AND NOT (x XOR y)) = maj_word x y z"
  "(x AND y) OR ((x AND z) OR (y AND z)) = maj_word x y z"
  by (rule bit_word_eqI; auto simp: ch_word_def maj_word_def bit_simps)+

lemma majority_select: "ch_word (x XOR y) z x = maj_word x y z"
  by (rule bit_word_eqI; auto simp: ch_word_def maj_word_def bit_simps)

lemma md5_selects: "MD5_F x y z = ch_word x y z" "MD5_G x y z = ch_word z x y"
  by (rule bit_word_eqI; auto simp: MD5_F_def MD5_G_def ch_word_def bit_simps)+

lemma rotations:
  "0 < n \<Longrightarrow> n < 32 \<Longrightarrow> rol_word x n = rotl32 x n" "0 < n \<Longrightarrow> n < 32 \<Longrightarrow> ror_word x (32 - n) = rotl32 x n"
  "0 < n \<Longrightarrow> n < 64 \<Longrightarrow> ror_word y n = rotr64 y n"
  by (simp_all add: rol_word_def ror_word_def rotl32_def rotr64_def or.commute)

lemma insert_rotates:
  fixes x :: "'w::len word"
  assumes "0 < n" "n < LENGTH('w)"
  shows "sri_word (push_bit (LENGTH('w) - n) x) x n = ror_word x n"
  using assms
  by (intro bit_word_eqI) (auto simp: sri_word_def ror_word_def bit_simps)

lemma insert_rotates32: "0 < n \<Longrightarrow> n < 32 \<Longrightarrow> sri_word (push_bit n x) x (32 - n) = rotl32 (x :: u32) n"
  using insert_rotates[of "32 - n" x] by (simp add: rotations)

lemma insert_rotates64: "0 < n \<Longrightarrow> n < 64 \<Longrightarrow> sri_word (push_bit (64 - n) x) x n = rotr64 (x :: u64) n"
  using insert_rotates[of n x] by (simp add: rotations)


section \<open>Each set is lane-wise\<close>

locale simd32 = simd I for I :: "('v, u32) simd_unit"

locale simd64 = simd I for I :: "('v, u64) simd_unit"

sublocale simd32 \<subseteq> x86: vec32 "x86_ops32 (si_lanes I) I"
  by unfold_locales
    (simp_all add: x86_ops32_def lanes length_st set1 load add conj disj xor shl shr andnot
      rotl32_def ch_word_def maj_word_def MD5_F_def MD5_G_def MD5_H_def MD5_I_def and.commute xor.assoc)

sublocale simd32 \<subseteq> sve: vec32 "sve_ops32 I"
  by unfold_locales
    (simp_all add: sve_ops32_def Let_def lanes length_st set1 load add conj disj xor shl shr neg bic
      rotl32_def select_words md5_selects MD5_H_def MD5_I_def xor.assoc)

sublocale simd32 \<subseteq> sve2: vec32 "sve2_ops32 I"
  by unfold_locales
    (auto simp: sve2_ops32_def Let_def lanes length_st set1 load add disj xor neg svbsl eor3 xar
      rotations select_words majority_select md5_selects MD5_H_def MD5_I_def xor.assoc)

sublocale simd64 \<subseteq> x86: vec64 "x86_ops64 (si_lanes I) I"
  by unfold_locales
    (simp_all add: x86_ops64_def lanes length_st set1 load add conj disj xor shl shr andnot
      rotr64_def ch_word_def maj_word_def xor.assoc)

sublocale simd64 \<subseteq> sve: vec64 "sve_ops64 I"
  by unfold_locales
    (simp_all add: sve_ops64_def lanes length_st set1 load add conj disj xor shl shr bic rotr64_def select_words)

sublocale simd64 \<subseteq> sve2: vec64 "sve2_ops64 I"
  by unfold_locales
    (simp_all add: sve2_ops64_def lanes length_st set1 load add xor shl shr svbsl sri insert_rotates64 select_words majority_select)

context simd32
begin

lemma vec_sets: "vec32 (x86_ops32 (si_lanes I) I)" "vec32 (sve_ops32 I)" "vec32 (sve2_ops32 I)"
  by (rule x86.vec32_axioms sve.vec32_axioms sve2.vec32_axioms)+

end

context simd64
begin

lemma vec_sets: "vec64 (x86_ops64 (si_lanes I) I)" "vec64 (sve_ops64 I)" "vec64 (sve2_ops64 I)"
  by (rule x86.vec64_axioms sve.vec64_axioms sve2.vec64_axioms)+

end

text \<open>The sets of a fixed width, on a unit of that width.\<close>

lemmas simd_laws = simd.lanes simd.length_st simd.set1 simd.load simd.add simd.conj simd.disj simd.xor
  simd.neg simd.shl simd.shr simd.andnot simd.rol simd.ror simd.ternary simd.bsl simd.sri simd.bic
  simd.svbsl simd.eor3 simd.xar

lemma neon_vec:
  "simd32 I \<Longrightarrow> si_lanes I = 4 \<Longrightarrow> vec32 (neon_ops32 I)"
  "simd64 J \<Longrightarrow> si_lanes J = 2 \<Longrightarrow> vec64 (neon_ops64 J)"
  by (unfold_locales; simp add: neon_ops32_def neon_ops64_def simd_laws[OF simd32.axioms] simd_laws[OF simd64.axioms]
      insert_rotates32 insert_rotates64 select_words majority_select md5_selects MD5_H_def MD5_I_def xor.assoc)+

lemma avx512_vec:
  "simd32 I \<Longrightarrow> si_lanes I = 16 \<Longrightarrow> vec32 (avx512_ops32 I)"
  "simd64 J \<Longrightarrow> si_lanes J = 8 \<Longrightarrow> vec64 (avx512_ops64 J)"
  by (unfold_locales; simp add: avx512_ops32_def avx512_ops64_def simd_laws[OF simd32.axioms] simd_laws[OF simd64.axioms]
      rotations ternary_tables ternary_md5(2-4) md5_selects(1))+

text \<open>The documented behaviour can be met: a register as the function from its elements.\<close>

definition lane_simd :: "nat \<Rightarrow> (nat \<Rightarrow> 'w::len word, 'w word) simd_unit" where
  "lane_simd n = \<lparr>
     si_lanes = n, si_set1 = (\<lambda>x l. x), si_load = (\<lambda>p l. p ! l), si_store = (\<lambda>v. map v [0..<n]),
     si_add = (\<lambda>a b l. a l + b l), si_and = (\<lambda>a b l. a l AND b l), si_or = (\<lambda>a b l. a l OR b l),
     si_xor = (\<lambda>a b l. a l XOR b l), si_not = (\<lambda>a l. NOT (a l)),
     si_shl = (\<lambda>a k l. push_bit k (a l)), si_shr = (\<lambda>a k l. drop_bit k (a l)),
     si_andnot = (\<lambda>a b l. NOT (a l) AND b l),
     si_rol = (\<lambda>a k l. rol_word (a l) k), si_ror = (\<lambda>a k l. ror_word (a l) k),
     si_ternary = (\<lambda>a b c imm l. ternary_word (a l) (b l) (c l) imm),
     si_bsl = (\<lambda>m a b l. (m l AND a l) OR (NOT (m l) AND b l)),
     si_sri = (\<lambda>a b k l. sri_word (a l) (b l) k), si_bic = (\<lambda>a b l. a l AND NOT (b l)),
     si_svbsl = (\<lambda>a b s l. (a l AND s l) OR (b l AND NOT (s l))),
     si_eor3 = (\<lambda>a b c l. a l XOR b l XOR c l), si_xar = (\<lambda>a b k l. ror_word (a l XOR b l) k)\<rparr>"

lemma lane_simd_laws: "0 < n \<Longrightarrow> simd (lane_simd n)"
  by unfold_locales (simp_all add: lane_simd_def)

lemma si_lanes_lane_simd [simp]: "si_lanes (lane_simd n) = n"
  by (simp add: lane_simd_def)

interpretation unit4: simd32 "lane_simd 4"
  by (rule simd32.intro) (simp add: lane_simd_laws)

interpretation unit2: simd64 "lane_simd 2"
  by (rule simd64.intro) (simp add: lane_simd_laws)

text \<open>C13: on a vector unit that behaves as its vendor documents, every 32-bit operation set of the
  translation units -- the shifts-and-or, the truth tables, the bit selects and their operand
  orders, the inserted and fused rotates -- computes in every lane the scalar operation that the
  kernel templates ask for, with the lane count it declares.\<close>

theorem isa_ops32_lanewise:
  assumes "simd32 I"
  shows "(si_lanes I = 4 \<longrightarrow> vec32 (sse2_ops32 I) \<and> vec32 (neon_ops32 I)) \<and>
    (si_lanes I = 8 \<longrightarrow> vec32 (avx2_ops32 I)) \<and> (si_lanes I = 16 \<longrightarrow> vec32 (avx512_ops32 I)) \<and>
    vec32 (sve_ops32 I) \<and> vec32 (sve2_ops32 I)"
  using neon_vec(1)[OF assms] avx512_vec(1)[OF assms] simd32.vec_sets[OF assms]
  by (auto simp: sse2_ops32_def avx2_ops32_def)

lemma isa_ops32_lanewise_witness:
  "vec32 (neon_ops32 (lane_simd 4)) \<and> vec32 (avx512_ops32 (lane_simd 16)) \<and> vec32 (sve2_ops32 (lane_simd 7))"
proof -
  have u: "simd32 (lane_simd n)" if "0 < n" for n using that by (intro simd32.intro lane_simd_laws)
  show ?thesis
    using isa_ops32_lanewise[OF u, of 4] isa_ops32_lanewise[OF u, of 16] isa_ops32_lanewise[OF u, of 7] by simp
qed

text \<open>C14: the same for the 64-bit operation sets, with the rotate right and the shift that SHA-512
  adds.\<close>

theorem isa_ops64_lanewise:
  assumes "simd64 I"
  shows "(si_lanes I = 2 \<longrightarrow> vec64 (sse2_ops64 I) \<and> vec64 (neon_ops64 I)) \<and>
    (si_lanes I = 4 \<longrightarrow> vec64 (avx2_ops64 I)) \<and> (si_lanes I = 8 \<longrightarrow> vec64 (avx512_ops64 I)) \<and>
    vec64 (sve_ops64 I) \<and> vec64 (sve2_ops64 I)"
  using neon_vec(2)[OF assms] avx512_vec(2)[OF assms] simd64.vec_sets[OF assms]
  by (auto simp: sse2_ops64_def avx2_ops64_def)

lemma isa_ops64_lanewise_witness:
  "vec64 (neon_ops64 (lane_simd 2)) \<and> vec64 (avx512_ops64 (lane_simd 8)) \<and> vec64 (sve2_ops64 (lane_simd 5))"
proof -
  have u: "simd64 (lane_simd n)" if "0 < n" for n using that by (intro simd64.intro lane_simd_laws)
  show ?thesis
    using isa_ops64_lanewise[OF u, of 2] isa_ops64_lanewise[OF u, of 8] isa_ops64_lanewise[OF u, of 5] by simp
qed

end
