(* ===== verification/Pool_Threads.thy ===== *)
theory Pool_Threads
  imports Prelude
begin

text \<open>
  The threads of the worker pool (\<open>worker_main\<close>, \<open>pool_create\<close>, \<open>pool_run\<close>, \<open>pool_destroy\<close> in
  src/bench.c) over the barrier of include/vb_threads.h, as a step relation.  Thread 0 is the
  driver, threads 1 to \<open>n - 1\<close> are the workers.  A step is one action under a mutex, one test of
  a condition by a woken waiter, or one piece of work between two such actions; spurious wake-ups
  test the condition again and change nothing.

  The generation counter of the barrier is the 32-bit counter of the code.  Two ghost fields count
  the arrivals of each thread and the openings of both barriers together.
\<close>

section \<open>The barrier\<close>

record bar =
  b_threshold :: nat
  b_waiting :: nat
  b_generation :: u32

definition vb_barrier_init :: "nat \<Rightarrow> bar" where
  "vb_barrier_init n = \<lparr>b_threshold = n, b_waiting = 0, b_generation = 0\<rparr>"

text \<open>The part of \<open>vb_barrier_wait\<close> before the loop: the last to arrive opens the barrier, any other
  keeps the generation it saw and waits for another one.\<close>

definition bar_arrive :: "bar \<Rightarrow> bar \<times> u32 option" where
  "bar_arrive b =
    (let gen = b_generation b
     in if b_waiting b + 1 = b_threshold b
        then (b\<lparr>b_waiting := 0, b_generation := b_generation b + 1\<rparr>, None)
        else (b\<lparr>b_waiting := b_waiting b + 1\<rparr>, Some gen))"


section \<open>Threads\<close>

text \<open>Where a thread stands.  The first line is the workers', the last the driver's; between them
  the part of a run both go through.\<close>

datatype pc =
    Absent | At_gate | Setting_up | Checking | Exited
  | At_start | In_start u32 | In_slice | At_done | In_done u32
  | Spawning nat | Opening bool nat | Idle | Collecting | At_stop | In_stop u32 | Joining nat
  | Dropping nat nat | Gone | Failed

record threads =
  th_gate :: int
  th_stop :: bool
  th_start :: bar
  th_done :: bar
  th_pc :: "nat \<Rightarrow> pc"
  th_round :: "nat \<Rightarrow> nat"
  th_arr :: "nat \<Rightarrow> nat"
  th_opens :: nat

definition threads_init :: "nat \<Rightarrow> threads" where
  "threads_init n = \<lparr>th_gate = 0, th_stop = False, th_start = vb_barrier_init n, th_done = vb_barrier_init n,
     th_pc = (\<lambda>t. if t = 0 then Spawning 1 else Absent), th_round = (\<lambda>t. 0), th_arr = (\<lambda>t. 0), th_opens = 0\<rparr>"

definition goto :: "nat \<Rightarrow> pc \<Rightarrow> threads \<Rightarrow> threads" where
  "goto t p s = s\<lparr>th_pc := (th_pc s)(t := p)\<rparr>"

text \<open>Arriving at one of the barriers: on to \<open>next\<close> if that opens it, else waiting.\<close>

definition arrived :: "nat \<Rightarrow> u32 option \<Rightarrow> (u32 \<Rightarrow> pc) \<Rightarrow> pc \<Rightarrow> threads \<Rightarrow> threads" where
  "arrived t r wait next s =
    goto t (case r of None \<Rightarrow> next | Some g \<Rightarrow> wait g)
      (s\<lparr>th_arr := (th_arr s)(t := th_arr s t + 1),
         th_opens := th_opens s + (if r = None then 1 else 0)\<rparr>)"

definition arrive_start :: "nat \<Rightarrow> (u32 \<Rightarrow> pc) \<Rightarrow> pc \<Rightarrow> threads \<Rightarrow> threads" where
  "arrive_start t wait next s =
    (let (b, r) = bar_arrive (th_start s) in arrived t r wait next (s\<lparr>th_start := b\<rparr>))"

definition arrive_done :: "nat \<Rightarrow> (u32 \<Rightarrow> pc) \<Rightarrow> pc \<Rightarrow> threads \<Rightarrow> threads" where
  "arrive_done t wait next s =
    (let (b, r) = bar_arrive (th_done s) in arrived t r wait next (s\<lparr>th_done := b\<rparr>))"

definition ran_slice :: "nat \<Rightarrow> threads \<Rightarrow> threads" where
  "ran_slice t s = goto t At_done (s\<lparr>th_round := (th_round s)(t := th_round s t + 1)\<rparr>)"

text \<open>\<open>starts i\<close> is whether \<open>pthread_create\<close> succeeds for worker \<open>i\<close>.\<close>

inductive step :: "nat \<Rightarrow> (nat \<Rightarrow> bool) \<Rightarrow> threads \<Rightarrow> threads \<Rightarrow> bool"
  for n :: nat and starts :: "nat \<Rightarrow> bool" where
  spawn: "th_pc s 0 = Spawning i \<Longrightarrow> i < n \<Longrightarrow> starts i \<Longrightarrow>
    step n starts s (goto 0 (Spawning (i + 1)) (goto i At_gate s))"
| spawn_fails: "th_pc s 0 = Spawning i \<Longrightarrow> i < n \<Longrightarrow> \<not> starts i \<Longrightarrow>
    step n starts s (goto 0 (Opening False i) s)"
| spawned: "th_pc s 0 = Spawning i \<Longrightarrow> n \<le> i \<Longrightarrow> step n starts s (goto 0 (Opening True i) s)"
| open_gate: "th_pc s 0 = Opening True live \<Longrightarrow> step n starts s (goto 0 Idle (s\<lparr>th_gate := 1\<rparr>))"
| abort_gate: "th_pc s 0 = Opening False live \<Longrightarrow>
    step n starts s (goto 0 (Dropping 1 live) (s\<lparr>th_gate := -1\<rparr>))"
| drop: "th_pc s 0 = Dropping i live \<Longrightarrow> i < live \<Longrightarrow> th_pc s i = Exited \<Longrightarrow>
    step n starts s (goto 0 (Dropping (i + 1) live) s)"
| dropped: "th_pc s 0 = Dropping i live \<Longrightarrow> live \<le> i \<Longrightarrow> step n starts s (goto 0 Failed s)"
| gate_go: "0 < t \<Longrightarrow> t < n \<Longrightarrow> th_pc s t = At_gate \<Longrightarrow> 0 < th_gate s \<Longrightarrow> step n starts s (goto t Setting_up s)"
| gate_abort: "0 < t \<Longrightarrow> t < n \<Longrightarrow> th_pc s t = At_gate \<Longrightarrow> th_gate s < 0 \<Longrightarrow> step n starts s (goto t Exited s)"
| set_up: "0 < t \<Longrightarrow> t < n \<Longrightarrow> th_pc s t = Setting_up \<Longrightarrow> step n starts s (goto t At_start s)"
| worker_start: "0 < t \<Longrightarrow> t < n \<Longrightarrow> th_pc s t = At_start \<Longrightarrow> step n starts s (arrive_start t In_start Checking s)"
| worker_go: "0 < t \<Longrightarrow> t < n \<Longrightarrow> th_pc s t = In_start g \<Longrightarrow> g \<noteq> b_generation (th_start s) \<Longrightarrow>
    step n starts s (goto t Checking s)"
| check_stop: "0 < t \<Longrightarrow> t < n \<Longrightarrow> th_pc s t = Checking \<Longrightarrow> th_stop s \<Longrightarrow> step n starts s (goto t Exited s)"
| check_run: "0 < t \<Longrightarrow> t < n \<Longrightarrow> th_pc s t = Checking \<Longrightarrow> \<not> th_stop s \<Longrightarrow> step n starts s (goto t In_slice s)"
| slice: "t < n \<Longrightarrow> th_pc s t = In_slice \<Longrightarrow> step n starts s (ran_slice t s)"
| worker_done: "0 < t \<Longrightarrow> t < n \<Longrightarrow> th_pc s t = At_done \<Longrightarrow> step n starts s (arrive_done t In_done At_start s)"
| worker_again: "0 < t \<Longrightarrow> t < n \<Longrightarrow> th_pc s t = In_done g \<Longrightarrow> g \<noteq> b_generation (th_done s) \<Longrightarrow>
    step n starts s (goto t At_start s)"
| pool_run: "th_pc s 0 = Idle \<Longrightarrow> step n starts s (goto 0 At_start s)"
| driver_start: "th_pc s 0 = At_start \<Longrightarrow> step n starts s (arrive_start 0 In_start In_slice s)"
| driver_go: "th_pc s 0 = In_start g \<Longrightarrow> g \<noteq> b_generation (th_start s) \<Longrightarrow> step n starts s (goto 0 In_slice s)"
| driver_done: "th_pc s 0 = At_done \<Longrightarrow> step n starts s (arrive_done 0 In_done Collecting s)"
| driver_collects: "th_pc s 0 = In_done g \<Longrightarrow> g \<noteq> b_generation (th_done s) \<Longrightarrow> step n starts s (goto 0 Collecting s)"
| collected: "th_pc s 0 = Collecting \<Longrightarrow> step n starts s (goto 0 Idle s)"
| pool_destroy: "th_pc s 0 = Idle \<Longrightarrow> step n starts s (goto 0 At_stop (s\<lparr>th_stop := True\<rparr>))"
| driver_stop: "th_pc s 0 = At_stop \<Longrightarrow> step n starts s (arrive_start 0 In_stop (Joining 1) s)"
| driver_stopped: "th_pc s 0 = In_stop g \<Longrightarrow> g \<noteq> b_generation (th_start s) \<Longrightarrow> step n starts s (goto 0 (Joining 1) s)"
| join: "th_pc s 0 = Joining i \<Longrightarrow> i < n \<Longrightarrow> th_pc s i = Exited \<Longrightarrow> step n starts s (goto 0 (Joining (i + 1)) s)"
| joined: "th_pc s 0 = Joining i \<Longrightarrow> n \<le> i \<Longrightarrow> step n starts s (goto 0 Gone s)"

definition reachable :: "nat \<Rightarrow> (nat \<Rightarrow> bool) \<Rightarrow> threads \<Rightarrow> bool" where
  "reachable n starts s \<longleftrightarrow> (step n starts)\<^sup>*\<^sup>* (threads_init n) s"


section \<open>The invariant\<close>

definition wgen :: "pc \<Rightarrow> u32 option" where
  "wgen p = (case p of In_start g \<Rightarrow> Some g | In_done g \<Rightarrow> Some g | In_stop g \<Rightarrow> Some g | _ \<Rightarrow> None)"

text \<open>What a place in the program says about the rounds a thread has done and the barriers it has
  arrived at.\<close>

definition phase :: "pc \<Rightarrow> nat \<Rightarrow> nat \<Rightarrow> bool" where
  "phase p r a = (case p of
      At_start \<Rightarrow> a = 2 * r | Idle \<Rightarrow> a = 2 * r | Collecting \<Rightarrow> a = 2 * r | At_stop \<Rightarrow> a = 2 * r
    | In_done g \<Rightarrow> a = 2 * r
    | In_start g \<Rightarrow> a = 2 * r + 1 | Checking \<Rightarrow> a = 2 * r + 1 | In_slice \<Rightarrow> a = 2 * r + 1
    | In_stop g \<Rightarrow> a = 2 * r + 1 | Joining i \<Rightarrow> a = 2 * r + 1 | Gone \<Rightarrow> a = 2 * r + 1
    | At_done \<Rightarrow> a + 1 = 2 * r
    | Exited \<Rightarrow> a = 2 * r + 1 \<or> a = 0 \<and> r = 0
    | _ \<Rightarrow> a = 0 \<and> r = 0)"

definition pending :: "nat \<Rightarrow> threads \<Rightarrow> nat set" where
  "pending n s = {t. t < n \<and> th_arr s t = th_opens s + 1}"

definition cur_bar :: "threads \<Rightarrow> bar" where
  "cur_bar s = (if even (th_opens s) then th_start s else th_done s)"

definition last_bar :: "threads \<Rightarrow> bar" where
  "last_bar s = (if even (th_opens s) then th_done s else th_start s)"

text \<open>Every thread has arrived as often as barriers have opened, or once more and waits: then it
  holds the generation of the barrier that opens next.  One that was released and has not run yet
  holds the generation before.\<close>

definition wait_ok :: "nat \<Rightarrow> u32 \<Rightarrow> u32 \<Rightarrow> pc \<Rightarrow> nat \<Rightarrow> bool" where
  "wait_ok opens cur prior p arr = (case wgen p of
     None \<Rightarrow> arr = opens
   | Some g \<Rightarrow> arr = opens + 1 \<and> g = cur \<or> arr = opens \<and> g + 1 = prior)"

definition bar_ok :: "nat \<Rightarrow> threads \<Rightarrow> bool" where
  "bar_ok n s \<longleftrightarrow>
     b_threshold (th_start s) = n \<and> b_threshold (th_done s) = n \<and>
     b_waiting (cur_bar s) = card (pending n s) \<and> card (pending n s) < n \<and> b_waiting (last_bar s) = 0 \<and>
     (\<forall>t < n. wait_ok (th_opens s) (b_generation (cur_bar s)) (b_generation (last_bar s)) (th_pc s t) (th_arr s t))"

definition driver_pc :: "pc \<Rightarrow> bool" where
  "driver_pc p \<longleftrightarrow> p \<notin> {Absent, At_gate, Setting_up, Checking, Exited}"

definition worker_pc :: "pc \<Rightarrow> bool" where
  "worker_pc p = (case p of Absent \<Rightarrow> True | At_gate \<Rightarrow> True | Setting_up \<Rightarrow> True | Checking \<Rightarrow> True | Exited \<Rightarrow> True
     | At_start \<Rightarrow> True | In_start g \<Rightarrow> True | In_slice \<Rightarrow> True | At_done \<Rightarrow> True | In_done g \<Rightarrow> True | _ \<Rightarrow> False)"

definition stopping_pc :: "pc \<Rightarrow> bool" where
  "stopping_pc p = (case p of At_stop \<Rightarrow> True | In_stop g \<Rightarrow> True | Joining i \<Rightarrow> True | Gone \<Rightarrow> True | _ \<Rightarrow> False)"

text \<open>While the driver joins the workers of a pool that failed to start.\<close>

definition turned_away :: "nat \<Rightarrow> nat \<Rightarrow> nat \<Rightarrow> pc \<Rightarrow> bool" where
  "turned_away i live t p \<longleftrightarrow>
    (if t < i \<and> t < live then p = Exited else if t < live then p = At_gate \<or> p = Exited else p = Absent)"

text \<open>The driver's place against the gate, and what it knows of the workers.\<close>

definition driver_ok :: "nat \<Rightarrow> threads \<Rightarrow> bool" where
  "driver_ok n s = (case th_pc s 0 of
      Spawning i \<Rightarrow> th_gate s = 0 \<and> 1 \<le> i \<and> i \<le> n \<and> (\<forall>t. 1 \<le> t \<longrightarrow> t < n \<longrightarrow> th_pc s t = (if t < i then At_gate else Absent))
    | Opening ok live \<Rightarrow> th_gate s = 0 \<and> 1 \<le> live \<and> live \<le> n \<and> (ok \<longrightarrow> live = n) \<and>
        (\<forall>t. 1 \<le> t \<longrightarrow> t < n \<longrightarrow> th_pc s t = (if t < live then At_gate else Absent))
    | Dropping i live \<Rightarrow> th_gate s = -1 \<and> 1 \<le> i \<and> live \<le> n \<and>
        (\<forall>t. 1 \<le> t \<longrightarrow> t < n \<longrightarrow> turned_away i live t (th_pc s t))
    | Failed \<Rightarrow> th_gate s = -1 \<and> (\<forall>t. 1 \<le> t \<longrightarrow> t < n \<longrightarrow> th_pc s t \<in> {Absent, Exited})
    | Joining i \<Rightarrow> th_gate s = 1 \<and> 1 \<le> i \<and> (\<forall>t. 1 \<le> t \<longrightarrow> t < i \<longrightarrow> t < n \<longrightarrow> th_pc s t = Exited)
    | Gone \<Rightarrow> th_gate s = 1 \<and> (\<forall>t. 1 \<le> t \<longrightarrow> t < n \<longrightarrow> th_pc s t = Exited)
    | _ \<Rightarrow> th_gate s = 1)"

definition stop_ok :: "nat \<Rightarrow> threads \<Rightarrow> bool" where
  "stop_ok n s \<longleftrightarrow> (th_stop s \<longleftrightarrow> stopping_pc (th_pc s 0)) \<and>
     (\<forall>t. 1 \<le> t \<longrightarrow> t < n \<longrightarrow> worker_pc (th_pc s t) \<and>
        (th_gate s = 1 \<longrightarrow> th_pc s t \<noteq> Absent \<and> (th_pc s t = Exited \<longrightarrow> th_stop s \<and> odd (th_arr s t))) \<and>
        (th_stop s \<longrightarrow> th_pc s t \<noteq> In_slice \<and> th_pc s t \<noteq> At_done
           \<and> (\<forall>g. th_pc s t = In_done g \<longrightarrow> th_arr s t = th_opens s)))"

definition threads_ok :: "nat \<Rightarrow> threads \<Rightarrow> bool" where
  "threads_ok n s \<longleftrightarrow> 0 < n \<and> bar_ok n s \<and> (\<forall>t < n. phase (th_pc s t) (th_round s t) (th_arr s t)) \<and>
     driver_pc (th_pc s 0) \<and> driver_ok n s \<and> stop_ok n s"


section \<open>Barriers keep it\<close>

text \<open>The barrier part depends on the barriers, the places, and the two counts only.\<close>

lemma bar_ok_cong:
  assumes "th_start s' = th_start s" "th_done s' = th_done s" "th_pc s' = th_pc s" "th_arr s' = th_arr s"
    "th_opens s' = th_opens s"
  shows "bar_ok n s' = bar_ok n s"
proof -
  have "cur_bar s' = cur_bar s" "last_bar s' = last_bar s" "pending n s' = pending n s"
    using assms by (simp_all add: cur_bar_def last_bar_def pending_def)
  then show ?thesis by (simp only: bar_ok_def assms)
qed

lemma bar_ok_fields [simp]:
  "bar_ok n (s\<lparr>th_gate := g\<rparr>) = bar_ok n s" "bar_ok n (s\<lparr>th_stop := b\<rparr>) = bar_ok n s"
  "bar_ok n (s\<lparr>th_round := r\<rparr>) = bar_ok n s"
  by (rule bar_ok_cong; simp)+

lemma goto_fields [simp]:
  "th_gate (goto t p s) = th_gate s" "th_stop (goto t p s) = th_stop s" "th_start (goto t p s) = th_start s"
  "th_done (goto t p s) = th_done s" "th_round (goto t p s) = th_round s" "th_arr (goto t p s) = th_arr s"
  "th_opens (goto t p s) = th_opens s" "th_pc (goto t p s) = (th_pc s)(t := p)"
  by (simp_all add: goto_def)

lemma goto_bars [simp]:
  "cur_bar (goto t p s) = cur_bar s" "last_bar (goto t p s) = last_bar s" "pending n (goto t p s) = pending n s"
  by (simp_all add: cur_bar_def last_bar_def pending_def)

lemma bar_ok_goto:
  assumes "bar_ok n s" "wgen p = None" "th_arr s t = th_opens s"
  shows "bar_ok n (goto t p s)"
  using assms by (simp add: bar_ok_def wait_ok_def)

lemma running_arr:
  "bar_ok n s \<Longrightarrow> t < n \<Longrightarrow> wgen (th_pc s t) = None \<Longrightarrow> th_arr s t = th_opens s"
  by (auto simp: bar_ok_def wait_ok_def split: option.splits)

lemma waiting_arr:
  assumes "bar_ok n s" "t < n" "wgen (th_pc s t) = Some g"
  shows "th_arr s t = th_opens s + 1 \<and> g = b_generation (cur_bar s)
    \<or> th_arr s t = th_opens s \<and> g + 1 = b_generation (last_bar s)"
  using assms by (auto simp: bar_ok_def wait_ok_def)

text \<open>A waiter at the start barrier has an odd number of arrivals, one at the end barrier an even
  number; so whether its barrier has opened is the test of the code.\<close>

lemma start_waiter:
  assumes "bar_ok n s" "t < n" "wgen (th_pc s t) = Some g" "odd (th_arr s t)"
  shows "g \<noteq> b_generation (th_start s) \<longleftrightarrow> th_arr s t = th_opens s"
  using waiting_arr[OF assms(1-3)] assms(4) by (auto simp: cur_bar_def last_bar_def split: if_splits)

lemma done_waiter:
  assumes "bar_ok n s" "t < n" "wgen (th_pc s t) = Some g" "even (th_arr s t)"
  shows "g \<noteq> b_generation (th_done s) \<longleftrightarrow> th_arr s t = th_opens s"
  using waiting_arr[OF assms(1-3)] assms(4) by (auto simp: cur_bar_def last_bar_def split: if_splits)

definition set_cur :: "bar \<Rightarrow> threads \<Rightarrow> threads" where
  "set_cur b s = (if even (th_opens s) then s\<lparr>th_start := b\<rparr> else s\<lparr>th_done := b\<rparr>)"

lemma arrived_ok:
  assumes B: "bar_ok n s" and t: "t < n" "wgen (th_pc s t) = None"
    and w: "\<And>g. wgen (wait g) = Some g" "wgen next = None"
    and A: "bar_arrive (cur_bar s) = (b, r)"
  shows "bar_ok n (arrived t r wait next (set_cur b s))"
proof -
  have at: "th_arr s t = th_opens s" using running_arr[OF B t] .
  have c: "b_waiting (cur_bar s) = card (pending n s)" "card (pending n s) < n" "b_waiting (last_bar s) = 0"
    "b_threshold (th_start s) = n" "b_threshold (th_done s) = n" "b_threshold (cur_bar s) = n"
    using B by (auto simp: bar_ok_def cur_bar_def)
  have fin: "finite (pending n s)" by (simp add: pending_def)
  have tp: "t \<notin> pending n s" using at by (simp add: pending_def)
  show ?thesis
  proof (cases "card (pending n s) + 1 = n")
    case True
    then have r: "r = None" "b = (cur_bar s)\<lparr>b_waiting := 0, b_generation := b_generation (cur_bar s) + 1\<rparr>"
      using A c by (auto simp: bar_arrive_def Let_def)
    have "insert t (pending n s) = {..<n}"
      using True fin tp t(1) by (intro card_subset_eq) (auto simp: pending_def)
    then have all: "\<And>u. u < n \<Longrightarrow> u \<noteq> t \<Longrightarrow> th_arr s u = th_opens s + 1"
      by (auto simp: pending_def)
    let ?s = "arrived t r wait next (set_cur b s)"
    have p0: "pending n ?s = {}"
      using all at by (auto simp: pending_def arrived_def r set_cur_def)
    have gen: "wait_ok (th_opens ?s) (b_generation (cur_bar ?s)) (b_generation (last_bar ?s)) (th_pc ?s u) (th_arr ?s u)" if u: "u < n" for u
    proof (cases "u = t")
      case True
      then show ?thesis using at w by (simp add: wait_ok_def arrived_def r set_cur_def)
    next
      case False
      then obtain g where g: "wgen (th_pc s u) = Some g"
        using all[OF u] running_arr[OF B u] by (cases "wgen (th_pc s u)") auto
      then have "g = b_generation (cur_bar s)" using waiting_arr[OF B u g] all[OF u False] by simp
      then show ?thesis
        using g False all[OF u False] by (auto simp: wait_ok_def arrived_def r set_cur_def last_bar_def cur_bar_def)
    qed
    have "b_threshold (th_start ?s) = n" "b_threshold (th_done ?s) = n" "b_waiting (cur_bar ?s) = 0" "b_waiting (last_bar ?s) = 0"
      using c by (auto simp: arrived_def r set_cur_def cur_bar_def last_bar_def)
    then show ?thesis unfolding bar_ok_def p0 using gen t by simp
  next
    case False
    then have r: "r = Some (b_generation (cur_bar s))" "b = (cur_bar s)\<lparr>b_waiting := b_waiting (cur_bar s) + 1\<rparr>"
      using A c by (auto simp: bar_arrive_def Let_def)
    let ?s = "arrived t r wait next (set_cur b s)"
    have "pending n ?s = insert t (pending n s)"
      using at t by (auto simp: pending_def arrived_def r set_cur_def)
    then have p: "card (pending n ?s) = card (pending n s) + 1" using fin tp by simp
    have gen: "wait_ok (th_opens ?s) (b_generation (cur_bar ?s)) (b_generation (last_bar ?s)) (th_pc ?s u) (th_arr ?s u)" if u: "u < n" for u
    proof (cases "u = t")
      case True
      then show ?thesis using at w by (auto simp: wait_ok_def arrived_def r set_cur_def cur_bar_def)
    next
      case False
      then show ?thesis
        using running_arr[OF B u] waiting_arr[OF B u] 
        by (auto simp: wait_ok_def arrived_def r set_cur_def last_bar_def cur_bar_def split: option.splits)
    qed
    have "b_threshold (th_start ?s) = n" "b_threshold (th_done ?s) = n"
      "b_waiting (cur_bar ?s) = card (pending n s) + 1" "b_waiting (last_bar ?s) = 0"
      using c by (auto simp: arrived_def r set_cur_def cur_bar_def last_bar_def)
    then show ?thesis unfolding bar_ok_def p using gen c False by simp
  qed
qed

section \<open>Every step keeps the invariant\<close>

text \<open>What an arrival changes.\<close>

lemma arrived_fields [simp]:
  "th_gate (arrived t r w x s) = th_gate s" "th_stop (arrived t r w x s) = th_stop s"
  "th_round (arrived t r w x s) = th_round s" "th_start (arrived t r w x s) = th_start s" "th_done (arrived t r w x s) = th_done s"
  "th_arr (arrived t r w x s) = (th_arr s)(t := th_arr s t + 1)"
  "th_opens (arrived t r w x s) = th_opens s + (if r = None then 1 else 0)"
  "th_pc (arrived t r w x s) = (th_pc s)(t := case r of None \<Rightarrow> x | Some g \<Rightarrow> w g)"
  by (simp_all add: arrived_def)

lemma set_cur_fields [simp]:
  "th_gate (set_cur b s) = th_gate s" "th_stop (set_cur b s) = th_stop s" "th_round (set_cur b s) = th_round s"
  "th_arr (set_cur b s) = th_arr s" "th_opens (set_cur b s) = th_opens s" "th_pc (set_cur b s) = th_pc s"
  by (simp_all add: set_cur_def)

text \<open>A thread about to arrive at the start barrier has arrived an even number of times, one about
  to arrive at the end barrier an odd number: it meets the barrier that opens next.\<close>

lemma arrive_start_cur:
  "even (th_opens s) \<Longrightarrow> arrive_start t w x s =
    arrived t (snd (bar_arrive (cur_bar s))) w x (set_cur (fst (bar_arrive (cur_bar s))) s)"
  by (simp add: arrive_start_def cur_bar_def set_cur_def split: prod.splits)

lemma arrive_done_cur:
  "odd (th_opens s) \<Longrightarrow> arrive_done t w x s =
    arrived t (snd (bar_arrive (cur_bar s))) w x (set_cur (fst (bar_arrive (cur_bar s))) s)"
  by (simp add: arrive_done_def cur_bar_def set_cur_def split: prod.splits)

lemma opened_all:
  assumes "bar_ok n s" "b_waiting (cur_bar s) = 0" "u < n"
  shows "th_arr s u = th_opens s"
proof -
  have "pending n s = {}" using assms(1,2) by (auto simp: bar_ok_def pending_def)
  then show ?thesis using assms by (auto simp: bar_ok_def wait_ok_def pending_def split: option.splits)
qed

text \<open>One arrival at the barrier that opens next, in the terms the invariant needs.\<close>

lemma arrival:
  assumes "bar_ok n s" "t < n" "wgen (th_pc s t) = None" "\<And>g. wgen (w g) = Some g" "wgen x = None"
    and "s' = arrived t (snd (bar_arrive (cur_bar s))) w x (set_cur (fst (bar_arrive (cur_bar s))) s)"
  shows "bar_ok n s'"
    and "th_opens s' = th_opens s \<and> (\<exists>g. th_pc s' = (th_pc s)(t := w g)) \<or>
      (\<forall>u < n. th_arr s' u = th_opens s') \<and> th_pc s' = (th_pc s)(t := x)"
proof -
  obtain b r where A: "bar_arrive (cur_bar s) = (b, r)" by (metis surj_pair)
  have s': "s' = arrived t r w x (set_cur b s)" using assms(6) A by simp
  show ok: "bar_ok n s'" unfolding s' by (rule arrived_ok[OF assms(1-5) A])
  show "th_opens s' = th_opens s \<and> (\<exists>g. th_pc s' = (th_pc s)(t := w g)) \<or>
      (\<forall>u < n. th_arr s' u = th_opens s') \<and> th_pc s' = (th_pc s)(t := x)"
  proof (cases r)
    case None
    have "cur_bar s' = last_bar s" by (auto simp: s' None cur_bar_def last_bar_def set_cur_def)
    then have "\<forall>u < n. th_arr s' u = th_opens s'" using opened_all[OF ok] assms(1) by (simp add: bar_ok_def)
    then show ?thesis by (simp add: s' None)
  next
    case (Some g)
    then show ?thesis by (auto simp: s')
  qed
qed

text \<open>A step of a worker leaves the driver's knowledge alone.\<close>

lemma turned_away_at_gate: "turned_away i live t At_gate \<Longrightarrow> turned_away i live t Exited"
  by (auto simp: turned_away_def split: if_splits)

lemma turned_away_waiting: "turned_away i live t p \<Longrightarrow> p = Absent \<or> p = At_gate \<or> p = Exited"
  by (auto simp: turned_away_def split: if_splits)

lemma driver_ok_worker:
  assumes "driver_ok n s" "0 < t" "th_gate s' = th_gate s" "th_pc s' = (th_pc s)(t := p)" "t < n"
    and "th_pc s t \<notin> {Absent, Exited} \<and> th_gate s = 1 \<or> th_gate s = -1 \<and> p = Exited \<and> th_pc s t = At_gate"
  shows "driver_ok n s'"
  using assms
  by (cases "th_pc s 0") (auto simp: driver_ok_def Suc_le_eq split: if_splits dest: turned_away_waiting,
      metis turned_away_at_gate)

lemma gate_values:
  assumes "driver_ok n s"
  shows "th_gate s \<in> {-1, 0, 1}"
  using assms by (cases "th_pc s 0") (auto simp: driver_ok_def)

lemma gate_or_waiting:
  assumes "driver_ok n s"
  shows "th_gate s = 1 \<or> (\<forall>t. 1 \<le> t \<longrightarrow> t < n \<longrightarrow> th_pc s t = Absent \<or> th_pc s t = At_gate \<or> th_pc s t = Exited)"
  using assms
  by (cases "th_pc s 0") (auto simp: driver_ok_def, metis turned_away_waiting)

lemma working_gate:
  assumes "driver_ok n s" "0 < t" "t < n" "th_pc s t \<notin> {Absent, At_gate, Exited}"
  shows "th_gate s = 1"
  using gate_or_waiting[OF assms(1)] assms(2-4) by (auto simp: Suc_le_eq)

text \<open>So a step of a worker keeps the invariant when it keeps the part about barriers, leads to a
  place that fits the worker's counts, and respects the stop flag.\<close>

lemma worker_keeps:
  assumes I: "threads_ok n s" and t: "0 < t" "t < n"
    and same: "th_gate s' = th_gate s" "th_stop s' = th_stop s" "th_pc s' = (th_pc s)(t := p)"
      "\<And>u. u \<noteq> t \<Longrightarrow> th_round s' u = th_round s u" "\<And>u. u \<noteq> t \<Longrightarrow> th_arr s' u = th_arr s u"
    and opens: "th_opens s' = th_opens s \<or> (\<forall>u < n. th_arr s' u = th_opens s')"
    and B: "bar_ok n s'" and ph: "phase p (th_round s' t) (th_arr s' t)"
    and p: "worker_pc p" "p \<noteq> Absent"
    and place: "th_pc s t \<notin> {Absent, Exited} \<and> th_gate s = 1 \<or> th_gate s = -1 \<and> p = Exited \<and> th_pc s t = At_gate"
    and ex: "p = Exited \<Longrightarrow> th_gate s = 1 \<Longrightarrow> th_stop s \<and> odd (th_arr s' t)"
    and st: "th_stop s \<Longrightarrow> p \<noteq> In_slice \<and> p \<noteq> At_done \<and> (\<forall>g. p \<noteq> In_done g)"
  shows "threads_ok n s'"
proof -
  have D: "driver_ok n s'" by (rule driver_ok_worker[OF _ t(1) same(1,3) t(2) place]) (use I in \<open>simp add: threads_ok_def\<close>)
  have S: "stop_ok n s" using I by (simp add: threads_ok_def)
  have "stop_ok n s'"
    unfolding stop_ok_def
  proof (intro conjI allI impI)
    show "th_stop s' = stopping_pc (th_pc s' 0)" using S t same by (simp add: stop_ok_def)
  next
    fix u assume u: "1 \<le> u" "u < n"
    show "worker_pc (th_pc s' u)" using S p(1) u by (auto simp: same(3) stop_ok_def)
  next
    fix u assume u: "1 \<le> u" "u < n" and g: "th_gate s' = 1"
    show "th_pc s' u \<noteq> Absent" using S p(2) u g by (auto simp: same stop_ok_def)
  next
    fix u assume u: "1 \<le> u" "u < n" and g: "th_gate s' = 1" and e: "th_pc s' u = Exited"
    show "th_stop s'" using S ex u g e by (auto simp: same stop_ok_def split: if_splits)
    show "odd (th_arr s' u)" using S ex u g e same(5)[of u] by (cases "u = t") (auto simp: same(1-3) stop_ok_def)
  next
    fix u assume u: "1 \<le> u" "u < n" and b: "th_stop s'"
    show "th_pc s' u \<noteq> In_slice" using S st u b by (auto simp: same stop_ok_def)
    show "th_pc s' u \<noteq> At_done" using S st u b by (auto simp: same stop_ok_def)
    fix g assume "th_pc s' u = In_done g"
    then show "th_arr s' u = th_opens s'"
      using S st u b opens same(5)[of u] by (cases "u = t") (auto simp: same(1-3) stop_ok_def)
  qed
  moreover have "\<forall>u < n. phase (th_pc s' u) (th_round s' u) (th_arr s' u)"
    using I ph same by (auto simp: threads_ok_def)
  ultimately show ?thesis using I B D t by (simp add: threads_ok_def same(3))
qed

lemma worker_goto:
  assumes I: "threads_ok n s" and t: "0 < t" "t < n" and arr: "th_arr s t = th_opens s" and p: "wgen p = None" "worker_pc p" "p \<noteq> Absent"
    and ph: "phase p (th_round s t) (th_arr s t)"
    and place: "th_pc s t \<notin> {Absent, Exited} \<and> th_gate s = 1 \<or> th_gate s = -1 \<and> p = Exited \<and> th_pc s t = At_gate"
    and ex: "p = Exited \<Longrightarrow> th_gate s = 1 \<Longrightarrow> th_stop s \<and> odd (th_arr s t)"
    and st: "th_stop s \<Longrightarrow> p \<noteq> In_slice \<and> p \<noteq> At_done"
  shows "threads_ok n (goto t p s)"
  by (rule worker_keeps[OF I t])
    (use assms bar_ok_goto[OF _ p(1) arr] in \<open>auto simp: threads_ok_def wgen_def\<close>)

lemma phase_of: "threads_ok n s \<Longrightarrow> t < n \<Longrightarrow> th_pc s t = p \<Longrightarrow> phase p (th_round s t) (th_arr s t)"
  by (auto simp: threads_ok_def)

lemma gate_of: "threads_ok n s \<Longrightarrow> 0 < t \<Longrightarrow> t < n \<Longrightarrow> th_pc s t \<notin> {Absent, At_gate, Exited} \<Longrightarrow> th_gate s = 1"
  using working_gate by (auto simp: threads_ok_def)

lemma arr_of: "threads_ok n s \<Longrightarrow> t < n \<Longrightarrow> wgen (th_pc s t) = None \<Longrightarrow> th_arr s t = th_opens s"
  using running_arr by (auto simp: threads_ok_def)

lemma stop_of:
  assumes "threads_ok n s" "th_stop s" "0 < t" "t < n"
  shows "th_pc s t \<noteq> In_slice" "th_pc s t \<noteq> At_done"
  using assms by (auto simp: threads_ok_def stop_ok_def)

lemma released_start:
  assumes "threads_ok n s" "t < n" "th_pc s t = In_start g \<or> th_pc s t = In_stop g" "g \<noteq> b_generation (th_start s)"
  shows "th_arr s t = th_opens s"
proof -
  have "odd (th_arr s t)" using phase_of[OF assms(1,2) refl] assms(3) by (auto simp: phase_def)
  then show ?thesis using start_waiter[of n s t g] assms by (auto simp: threads_ok_def wgen_def)
qed

lemma released_done:
  assumes "threads_ok n s" "t < n" "th_pc s t = In_done g" "g \<noteq> b_generation (th_done s)"
  shows "th_arr s t = th_opens s"
proof -
  have "even (th_arr s t)" using phase_of[OF assms(1,2) refl] assms(3) by (auto simp: phase_def)
  then show ?thesis using done_waiter[of n s t g] assms by (auto simp: threads_ok_def wgen_def)
qed

lemma worker_arrives_start:
  assumes I: "threads_ok n s" and t: "0 < t" "t < n" and p: "th_pc s t = At_start"
  shows "threads_ok n (arrive_start t In_start Checking s)"
proof -
  have ph: "th_arr s t = 2 * th_round s t" using phase_of[OF I t(2) p] by (simp add: phase_def)
  have a: "th_arr s t = th_opens s" by (rule arr_of[OF I t(2)]) (simp add: p wgen_def)
  let ?s = "arrive_start t In_start Checking s"
  have s: "?s = arrived t (snd (bar_arrive (cur_bar s))) In_start Checking (set_cur (fst (bar_arrive (cur_bar s))) s)"
    by (rule arrive_start_cur) (use ph a in presburger)
  have B: "bar_ok n s" using I by (simp add: threads_ok_def)
  note AR = arrival[OF B t(2) _ _ _ s] 
  have pc: "(\<exists>g. th_pc ?s = (th_pc s)(t := In_start g)) \<and> th_opens ?s = th_opens s \<or>
      th_pc ?s = (th_pc s)(t := Checking) \<and> (\<forall>u < n. th_arr ?s u = th_opens ?s)"
    using AR(2) by (auto simp: p wgen_def)
  have ok: "bar_ok n ?s" by (rule AR(1)) (simp_all add: p wgen_def)
  have g: "th_gate s = 1" by (rule gate_of[OF I t]) (simp add: p)
  have f: "th_gate ?s = th_gate s" "th_stop ?s = th_stop s" "th_round ?s = th_round s" "th_arr ?s = (th_arr s)(t := th_arr s t + 1)"
    by (simp_all only: s arrived_fields set_cur_fields)
  from pc show ?thesis
  proof (elim disjE conjE exE)
    fix g' assume q: "th_pc ?s = (th_pc s)(t := In_start g')" and o: "th_opens ?s = th_opens s"
    show ?thesis
      by (rule worker_keeps[OF I t f(1,2) q]) (use f o ok ph g p in \<open>auto simp: phase_def worker_pc_def\<close>)
  next
    assume q: "th_pc ?s = (th_pc s)(t := Checking)" and o: "\<forall>u < n. th_arr ?s u = th_opens ?s"
    show ?thesis
      by (rule worker_keeps[OF I t f(1,2) q]) (use f o ok ph g p in \<open>auto simp: phase_def worker_pc_def\<close>)
  qed
qed

lemma worker_arrives_done:
  assumes I: "threads_ok n s" and t: "0 < t" "t < n" and p: "th_pc s t = At_done"
  shows "threads_ok n (arrive_done t In_done At_start s)"
proof -
  have ph: "th_arr s t + 1 = 2 * th_round s t" using phase_of[OF I t(2) p] by (simp add: phase_def)
  have a: "th_arr s t = th_opens s" by (rule arr_of[OF I t(2)]) (simp add: p wgen_def)
  let ?s = "arrive_done t In_done At_start s"
  have s: "?s = arrived t (snd (bar_arrive (cur_bar s))) In_done At_start (set_cur (fst (bar_arrive (cur_bar s))) s)"
    by (rule arrive_done_cur) (use ph a in presburger)
  have B: "bar_ok n s" using I by (simp add: threads_ok_def)
  note AR = arrival[OF B t(2) _ _ _ s]
  have pc: "(\<exists>g. th_pc ?s = (th_pc s)(t := In_done g)) \<and> th_opens ?s = th_opens s \<or>
      th_pc ?s = (th_pc s)(t := At_start) \<and> (\<forall>u < n. th_arr ?s u = th_opens ?s)"
    using AR(2) by (auto simp: p wgen_def)
  have ok: "bar_ok n ?s" by (rule AR(1)) (simp_all add: p wgen_def)
  have g: "th_gate s = 1" by (rule gate_of[OF I t]) (simp add: p)
  have ns: "\<not> th_stop s" using stop_of(2)[OF I _ t] p by auto
  have f: "th_gate ?s = th_gate s" "th_stop ?s = th_stop s" "th_round ?s = th_round s" "th_arr ?s = (th_arr s)(t := th_arr s t + 1)"
    by (simp_all only: s arrived_fields set_cur_fields)
  from pc show ?thesis
  proof (elim disjE conjE exE)
    fix g' assume q: "th_pc ?s = (th_pc s)(t := In_done g')" and o: "th_opens ?s = th_opens s"
    show ?thesis
      by (rule worker_keeps[OF I t f(1,2) q]) (use f o ok ph g p ns in \<open>auto simp: phase_def worker_pc_def\<close>)
  next
    assume q: "th_pc ?s = (th_pc s)(t := At_start)" and o: "\<forall>u < n. th_arr ?s u = th_opens ?s"
    show ?thesis
      by (rule worker_keeps[OF I t f(1,2) q]) (use f o ok ph g p ns in \<open>auto simp: phase_def worker_pc_def\<close>)
  qed
qed

text \<open>The driver's steps.\<close>

lemma driver_keeps:
  assumes I: "threads_ok n s"
    and same: "th_gate s' = th_gate s" "th_stop s' = th_stop s" "th_pc s' = (th_pc s)(0 := p)"
      "\<And>u. u \<noteq> 0 \<Longrightarrow> th_round s' u = th_round s u" "\<And>u. u \<noteq> 0 \<Longrightarrow> th_arr s' u = th_arr s u"
    and opens: "th_opens s' = th_opens s \<or> (\<forall>u < n. th_arr s' u = th_opens s')"
    and B: "bar_ok n s'" and ph: "phase p (th_round s' 0) (th_arr s' 0)"
    and p: "driver_pc p" "stopping_pc p = stopping_pc (th_pc s 0)" and D: "driver_ok n s'"
  shows "threads_ok n s'"
proof -
  have S: "stop_ok n s" using I by (simp add: threads_ok_def)
  have "stop_ok n s'"
    unfolding stop_ok_def
  proof (intro conjI allI impI)
    show "th_stop s' = stopping_pc (th_pc s' 0)" using S p(2) same(1-3) by (simp add: stop_ok_def)
  next
    fix u assume u: "1 \<le> u" "u < n"
    show "worker_pc (th_pc s' u)" using S u by (auto simp: same(3) stop_ok_def)
  next
    fix u assume u: "1 \<le> u" "u < n" and g: "th_gate s' = 1"
    show "th_pc s' u \<noteq> Absent" using S u g by (auto simp: same(1-3) stop_ok_def)
  next
    fix u assume u: "1 \<le> u" "u < n" and g: "th_gate s' = 1" and e: "th_pc s' u = Exited"
    show "th_stop s'" using S u g e by (auto simp: same(1-3) stop_ok_def split: if_splits)
    show "odd (th_arr s' u)" using S u g e same(5)[of u] by (auto simp: same(1-3) stop_ok_def)
  next
    fix u assume u: "1 \<le> u" "u < n" and b: "th_stop s'"
    show "th_pc s' u \<noteq> In_slice" using S u b by (auto simp: same(1-3) stop_ok_def)
    show "th_pc s' u \<noteq> At_done" using S u b by (auto simp: same(1-3) stop_ok_def)
    fix g assume "th_pc s' u = In_done g"
    then show "th_arr s' u = th_opens s'"
      using S u b opens same(5)[of u] by (auto simp: same(1-3) stop_ok_def)
  qed
  moreover have "\<forall>u < n. phase (th_pc s' u) (th_round s' u) (th_arr s' u)"
    using I ph same by (auto simp: threads_ok_def)
  ultimately show ?thesis using I B D p by (simp add: threads_ok_def same(3))
qed

text \<open>A step of the driver that moves nothing but itself.\<close>

lemma driver_goto:
  assumes I: "threads_ok n s" and arr: "th_arr s 0 = th_opens s" and p: "wgen p = None" "driver_pc p"
    and ph: "phase p (th_round s 0) (th_arr s 0)" and st: "stopping_pc p = stopping_pc (th_pc s 0)"
    and D: "driver_ok n (goto 0 p s)"
  shows "threads_ok n (goto 0 p s)"
  by (rule driver_keeps[OF I, where p = p]) (use assms bar_ok_goto[OF _ p(1) arr] in \<open>auto simp: threads_ok_def\<close>)

lemma driver_gate: "threads_ok n s \<Longrightarrow> driver_ok n s" by (simp add: threads_ok_def)

lemma n_pos: "threads_ok n s \<Longrightarrow> 0 < n" by (simp add: threads_ok_def)

text \<open>The places at which the pool is up and the driver knows nothing more.\<close>

definition plain_pc :: "pc \<Rightarrow> bool" where
  "plain_pc p = (case p of Idle \<Rightarrow> True | At_start \<Rightarrow> True | In_start g \<Rightarrow> True | In_slice \<Rightarrow> True | At_done \<Rightarrow> True
     | In_done g \<Rightarrow> True | Collecting \<Rightarrow> True | At_stop \<Rightarrow> True | In_stop g \<Rightarrow> True | _ \<Rightarrow> False)"

lemma plain_driver_ok: "plain_pc (th_pc s 0) \<Longrightarrow> driver_ok n s = (th_gate s = 1)"
  by (cases "th_pc s 0") (simp_all add: plain_pc_def driver_ok_def)

lemma plain_driver_pc: "plain_pc p \<Longrightarrow> driver_pc p"
  by (cases p) (simp_all add: plain_pc_def driver_pc_def)

text \<open>An arrival of the driver.\<close>

lemma driver_arrives:
  assumes I: "threads_ok n s" and from_pc: "plain_pc (th_pc s 0)" "wgen (th_pc s 0) = None"
    and w: "\<And>g. wgen (w g) = Some g" "wgen x = None"
    and p: "\<And>g. plain_pc (w g)" "plain_pc x \<or> x = Joining 1"
      "\<And>g. stopping_pc (w g) = stopping_pc (th_pc s 0)" "stopping_pc x = stopping_pc (th_pc s 0)"
    and ph: "\<And>g. phase (w g) (th_round s 0) (th_arr s 0 + 1)" "phase x (th_round s 0) (th_arr s 0 + 1)"
    and s': "s' = arrived 0 (snd (bar_arrive (cur_bar s))) w x (set_cur (fst (bar_arrive (cur_bar s))) s)"
  shows "threads_ok n s'"
proof -
  have B: "bar_ok n s" using I by (simp add: threads_ok_def)
  note AR = arrival[OF B n_pos[OF I] from_pc(2) w s']
  have g: "th_gate s = 1" using driver_gate[OF I] plain_driver_ok[OF from_pc(1)] by simp
  have f: "th_gate s' = th_gate s" "th_stop s' = th_stop s" "th_round s' = th_round s" "th_arr s' = (th_arr s)(0 := th_arr s 0 + 1)"
    by (simp_all only: s' arrived_fields set_cur_fields)
  from AR(2) show ?thesis
  proof (elim disjE conjE exE)
    fix g' assume q: "th_pc s' = (th_pc s)(0 := w g')" and o: "th_opens s' = th_opens s"
    have "driver_ok n s'" using plain_driver_ok[of s' n] p(1) q f(1) g by simp
    then show ?thesis
      by (intro driver_keeps[OF I f(1,2) q]) (use f o AR(1) ph p plain_driver_pc in auto)
  next
    assume q: "th_pc s' = (th_pc s)(0 := x)" and o: "\<forall>u < n. th_arr s' u = th_opens s'"
    have "driver_ok n s'"
    proof (cases "plain_pc x")
      case True
      then show ?thesis using plain_driver_ok[of s' n] q f(1) g by simp
    next
      case False
      then have "x = Joining 1" using p(2) by simp
      then show ?thesis using q f(1) g by (simp add: driver_ok_def)
    qed
    moreover have "driver_pc x" using p(2) plain_driver_pc by (auto simp: driver_pc_def)
    ultimately show ?thesis
      by (intro driver_keeps[OF I f(1,2) q]) (use f o AR(1) ph p in auto)
  qed
qed

lemma driver_even:
  assumes "threads_ok n s" "th_pc s 0 \<in> {At_start, At_stop}"
  shows "even (th_opens s)" "th_arr s 0 = 2 * th_round s 0"
  using arr_of[OF assms(1) n_pos[OF assms(1)]] phase_of[OF assms(1) n_pos[OF assms(1)] refl] assms(2)
  by (auto simp: wgen_def phase_def)

lemma driver_odd:
  assumes "threads_ok n s" "th_pc s 0 = At_done"
  shows "odd (th_opens s)" "th_arr s 0 + 1 = 2 * th_round s 0"
proof -
  show a: "th_arr s 0 + 1 = 2 * th_round s 0"
    using phase_of[OF assms(1) n_pos[OF assms(1)] assms(2)] by (simp add: phase_def)
  have "th_arr s 0 = th_opens s" using arr_of[OF assms(1) n_pos[OF assms(1)]] assms(2) by (simp add: wgen_def)
  then show "odd (th_opens s)" using a by presburger
qed

lemma driver_arrivals:
  assumes I: "threads_ok n s"
  shows "th_pc s 0 = At_start \<Longrightarrow> threads_ok n (arrive_start 0 In_start In_slice s)"
    and "th_pc s 0 = At_stop \<Longrightarrow> threads_ok n (arrive_start 0 In_stop (Joining 1) s)"
    and "th_pc s 0 = At_done \<Longrightarrow> threads_ok n (arrive_done 0 In_done Collecting s)"
proof -
  assume p: "th_pc s 0 = At_start"
  have e: "even (th_opens s)" "th_arr s 0 = 2 * th_round s 0" using driver_even[OF I] p by auto
  show "threads_ok n (arrive_start 0 In_start In_slice s)"
    by (rule driver_arrives[OF I _ _ _ _ _ _ _ _ _ _ arrive_start_cur[OF e(1)]])
      (simp_all add: p e(2) plain_pc_def wgen_def stopping_pc_def phase_def)
next
  assume p: "th_pc s 0 = At_stop"
  have e: "even (th_opens s)" "th_arr s 0 = 2 * th_round s 0" using driver_even[OF I] p by auto
  show "threads_ok n (arrive_start 0 In_stop (Joining 1) s)"
    by (rule driver_arrives[OF I _ _ _ _ _ _ _ _ _ _ arrive_start_cur[OF e(1)]])
      (simp_all add: p e(2) plain_pc_def wgen_def stopping_pc_def phase_def)
next
  assume p: "th_pc s 0 = At_done"
  have e: "odd (th_opens s)" "th_arr s 0 + 1 = 2 * th_round s 0" using driver_odd[OF I p] by auto
  show "threads_ok n (arrive_done 0 In_done Collecting s)"
    by (rule driver_arrives[OF I _ _ _ _ _ _ _ _ _ _ arrive_done_cur[OF e(1)]])
      (use e(2) in \<open>simp_all add: p plain_pc_def wgen_def stopping_pc_def phase_def\<close>)
qed

lemma threads_ok_init: "0 < n \<Longrightarrow> threads_ok n (threads_init n)"
  by (simp add: threads_ok_def bar_ok_def wait_ok_def pending_def cur_bar_def last_bar_def threads_init_def wgen_def
      vb_barrier_init_def phase_def driver_pc_def driver_ok_def stop_ok_def stopping_pc_def worker_pc_def)

lemma spawn_ok:
  assumes I: "threads_ok n s" and p: "th_pc s 0 = Spawning i" and i: "i < n"
  shows "threads_ok n (goto 0 (Spawning (i + 1)) (goto i At_gate s))"
proof -
  have D: "th_gate s = 0" "1 \<le> i" "\<And>t. 1 \<le> t \<Longrightarrow> t < n \<Longrightarrow> th_pc s t = (if t < i then At_gate else Absent)"
    using driver_gate[OF I] p by (auto simp: driver_ok_def)
  have a: "th_arr s 0 = th_opens s" by (rule arr_of[OF I n_pos[OF I]]) (simp add: p wgen_def)
  have pi: "th_pc s i = Absent" using D(3)[OF D(2) i] by simp
  have ai: "th_arr s i = th_opens s" by (rule arr_of[OF I i]) (simp add: pi wgen_def)
  have ph: "\<And>t. t < n \<Longrightarrow> phase (th_pc s t) (th_round s t) (th_arr s t)" using I by (simp add: threads_ok_def)
  have ph0: "th_arr s 0 = 0 \<and> th_round s 0 = 0" using ph[OF n_pos[OF I]] p by (simp add: phase_def)
  have phi: "th_arr s i = 0 \<and> th_round s i = 0" using ph[OF i] D(2,3) i by (simp add: phase_def)
  have "bar_ok n (goto 0 (Spawning (i + 1)) (goto i At_gate s))"
    by (intro bar_ok_goto) (use I a ai in \<open>simp_all add: threads_ok_def wgen_def\<close>)
  moreover have "\<forall>t < n. phase (th_pc (goto 0 (Spawning (i + 1)) (goto i At_gate s)) t) (th_round s t) (th_arr s t)"
    using ph ph0 phi by (auto simp: phase_def)
  moreover have "driver_ok n (goto 0 (Spawning (i + 1)) (goto i At_gate s))"
    using D i by (auto simp: driver_ok_def)
  moreover have "stop_ok n (goto 0 (Spawning (i + 1)) (goto i At_gate s))"
    using I D p by (auto simp: threads_ok_def stop_ok_def stopping_pc_def worker_pc_def)
  ultimately show ?thesis using I by (simp add: threads_ok_def driver_pc_def)
qed

lemma gate_set_ok:
  assumes I: "threads_ok n s" and p: "th_pc s 0 = Opening good live"
  shows "threads_ok n (if good then goto 0 Idle (s\<lparr>th_gate := 1\<rparr>) else goto 0 (Dropping 1 live) (s\<lparr>th_gate := -1\<rparr>))"
proof -
  let ?p = "if good then Idle else Dropping 1 live" and ?s = "s\<lparr>th_gate := if good then 1 else -1\<rparr>"
  have D: "th_gate s = 0" "1 \<le> live" "live \<le> n" "good \<Longrightarrow> live = n"
      "\<And>t. 1 \<le> t \<Longrightarrow> t < n \<Longrightarrow> th_pc s t = (if t < live then At_gate else Absent)"
    using driver_gate[OF I] p by (auto simp: driver_ok_def)
  have a: "th_arr s 0 = th_opens s" by (rule arr_of[OF I n_pos[OF I]]) (simp add: p wgen_def)
  have ph: "\<And>t. t < n \<Longrightarrow> phase (th_pc s t) (th_round s t) (th_arr s t)" using I by (simp add: threads_ok_def)
  have ph0: "th_arr s 0 = 0 \<and> th_round s 0 = 0" using ph[OF n_pos[OF I]] p by (simp add: phase_def)
  have "bar_ok n (goto 0 ?p ?s)"
    by (intro bar_ok_goto) (use I a in \<open>simp_all add: threads_ok_def wgen_def\<close>)
  moreover have "\<forall>t < n. phase (th_pc (goto 0 ?p ?s) t) (th_round s t) (th_arr s t)"
    using ph ph0 by (auto simp: phase_def)
  moreover have "driver_ok n (goto 0 ?p ?s)"
    using D by (auto simp: driver_ok_def turned_away_def)
  moreover have "stop_ok n (goto 0 ?p ?s)"
    using I D p by (auto simp: threads_ok_def stop_ok_def stopping_pc_def worker_pc_def)
  ultimately have "threads_ok n (goto 0 ?p ?s)" using I by (simp add: threads_ok_def driver_pc_def)
  then show ?thesis by (cases good) simp_all
qed

lemma stop_set_ok:
  assumes I: "threads_ok n s" and p: "th_pc s 0 = Idle"
  shows "threads_ok n (goto 0 At_stop (s\<lparr>th_stop := True\<rparr>))"
proof -
  let ?s = "goto 0 At_stop (s\<lparr>th_stop := True\<rparr>)"
  have g: "th_gate s = 1" using driver_gate[OF I] p by (simp add: driver_ok_def)
  have a: "th_arr s 0 = th_opens s" by (rule arr_of[OF I n_pos[OF I]]) (simp add: p wgen_def)
  have ph: "\<And>t. t < n \<Longrightarrow> phase (th_pc s t) (th_round s t) (th_arr s t)" using I by (simp add: threads_ok_def)
  have ph0: "th_arr s 0 = 2 * th_round s 0" using ph[OF n_pos[OF I]] p by (simp add: phase_def)
  have S: "stop_ok n s" "\<not> th_stop s" using I p by (auto simp: threads_ok_def stop_ok_def stopping_pc_def)
  have q: "th_pc s u \<noteq> In_slice \<and> th_pc s u \<noteq> At_done \<and> (\<forall>g. th_pc s u = In_done g \<longrightarrow> th_arr s u = th_opens s)"
    if u: "u < n" for u
  proof (intro conjI allI impI notI)
    assume x: "th_pc s u = In_slice"
    have "th_arr s u = th_opens s" by (rule arr_of[OF I u]) (simp add: x wgen_def)
    then show False using ph[OF u] x a ph0 by (simp add: phase_def) presburger
  next
    assume x: "th_pc s u = At_done"
    have "th_arr s u = th_opens s" by (rule arr_of[OF I u]) (simp add: x wgen_def)
    then show False using ph[OF u] x a ph0 by (simp add: phase_def) presburger
  next
    fix g assume x: "th_pc s u = In_done g"
    have B: "bar_ok n s" using I by (simp add: threads_ok_def)
    have w: "th_arr s u = th_opens s + 1 \<or> th_arr s u = th_opens s"
      using waiting_arr[OF B u, of g] x by (auto simp: wgen_def)
    have "even (th_arr s u)" using ph[OF u] x by (simp add: phase_def)
    moreover have "even (th_opens s)" using a ph0 by presburger
    ultimately show "th_arr s u = th_opens s" using w by auto
  qed
  have "bar_ok n ?s" by (intro bar_ok_goto) (use I a in \<open>simp_all add: threads_ok_def wgen_def\<close>)
  moreover have "\<forall>t < n. phase (th_pc ?s t) (th_round ?s t) (th_arr ?s t)"
    using ph ph0 by (auto simp: phase_def)
  moreover have "driver_ok n ?s" using g by (simp add: driver_ok_def)
  moreover have "stop_ok n ?s"
    using S q by (simp add: stop_ok_def stopping_pc_def)
  ultimately show ?thesis using n_pos[OF I] by (simp add: threads_ok_def driver_pc_def)
qed

lemma slice_ok:
  assumes I: "threads_ok n s" and t: "t < n" and p: "th_pc s t = In_slice"
  shows "threads_ok n (ran_slice t s)"
proof -
  have f: "th_gate (ran_slice t s) = th_gate s" "th_stop (ran_slice t s) = th_stop s"
    "th_pc (ran_slice t s) = (th_pc s)(t := At_done)" "th_arr (ran_slice t s) = th_arr s"
    "th_round (ran_slice t s) = (th_round s)(t := th_round s t + 1)" "th_opens (ran_slice t s) = th_opens s"
    by (simp_all add: ran_slice_def)
  have a: "th_arr s t = th_opens s" by (rule arr_of[OF I t]) (simp add: p wgen_def)
  have ph: "th_arr s t = 2 * th_round s t + 1" using phase_of[OF I t p] by (simp add: phase_def)
  have B: "bar_ok n (ran_slice t s)"
    unfolding ran_slice_def by (intro bar_ok_goto) (use I a in \<open>simp_all add: threads_ok_def wgen_def\<close>)
  show ?thesis
  proof (cases "t = 0")
    case True
    have "th_gate s = 1" using driver_gate[OF I] p True by (simp add: driver_ok_def)
    then have D: "driver_ok n (ran_slice t s)" using f True by (simp add: driver_ok_def)
    show ?thesis
      by (rule driver_keeps[OF I f(1,2)]) (use True f B D ph p in \<open>auto simp: phase_def driver_pc_def stopping_pc_def\<close>)
  next
    case False
    have "\<not> th_stop s" using stop_of(1)[OF I _ _ t] p False by auto
    moreover have "th_gate s = 1" by (rule gate_of[OF I _ t]) (use p False in auto)
    ultimately show ?thesis
      by (intro worker_keeps[OF I _ t f(1,2,3)]) (use False[THEN neq0_conv[THEN iffD1]] False f B ph p in \<open>auto simp: phase_def worker_pc_def\<close>)
  qed
qed

lemma spawned_ok:
  assumes I: "threads_ok n s" and p: "th_pc s 0 = Spawning i" and i: "if good then n \<le> i else i < n"
  shows "threads_ok n (goto 0 (Opening good i) s)"
proof -
  have a: "th_arr s 0 = th_opens s" by (rule arr_of[OF I n_pos[OF I]]) (simp add: p wgen_def)
  show ?thesis
    by (rule driver_goto[OF I a])
      (use phase_of[OF I n_pos[OF I] p] driver_gate[OF I] p i in
        \<open>auto simp: wgen_def driver_pc_def phase_def stopping_pc_def driver_ok_def split: if_splits\<close>)
qed

lemma dropping_ok:
  assumes I: "threads_ok n s" and p: "th_pc s 0 = Dropping i live"
  shows "i < live \<Longrightarrow> th_pc s i = Exited \<Longrightarrow> threads_ok n (goto 0 (Dropping (i + 1) live) s)"
    and "live \<le> i \<Longrightarrow> threads_ok n (goto 0 Failed s)"
proof -
  have a: "th_arr s 0 = th_opens s" by (rule arr_of[OF I n_pos[OF I]]) (simp add: p wgen_def)
  have D: "th_gate s = -1" "1 \<le> i" "live \<le> n" "\<And>t. 1 \<le> t \<Longrightarrow> t < n \<Longrightarrow> turned_away i live t (th_pc s t)"
    using driver_gate[OF I] p by (simp_all add: driver_ok_def)
  { assume i: "i < live" "th_pc s i = Exited"
    have "turned_away (i + 1) live t (th_pc s t)" if "1 \<le> t" "t < n" for t
      using D(4)[OF that] i by (cases "t = i") (auto simp: turned_away_def split: if_splits)
    then have "driver_ok n (goto 0 (Dropping (i + 1) live) s)" using D(1-3) by (simp add: driver_ok_def)
    then show "threads_ok n (goto 0 (Dropping (i + 1) live) s)"
      by (intro driver_goto[OF I a])
        (use phase_of[OF I n_pos[OF I] p] p in \<open>auto simp: wgen_def driver_pc_def phase_def stopping_pc_def\<close>) }
  { assume i: "live \<le> i"
    have "th_pc s t = Absent \<or> th_pc s t = Exited" if "1 \<le> t" "t < n" for t
      using D(4)[OF that] i by (auto simp: turned_away_def split: if_splits)
    then have "driver_ok n (goto 0 Failed s)" using D(1) by (simp add: driver_ok_def)
    then show "threads_ok n (goto 0 Failed s)"
      by (intro driver_goto[OF I a])
        (use phase_of[OF I n_pos[OF I] p] p in \<open>auto simp: wgen_def driver_pc_def phase_def stopping_pc_def\<close>) }
qed

lemma joining_ok:
  assumes I: "threads_ok n s" and p: "th_pc s 0 = Joining i"
  shows "i < n \<Longrightarrow> th_pc s i = Exited \<Longrightarrow> threads_ok n (goto 0 (Joining (i + 1)) s)"
    and "n \<le> i \<Longrightarrow> threads_ok n (goto 0 Gone s)"
proof -
  have a: "th_arr s 0 = th_opens s" by (rule arr_of[OF I n_pos[OF I]]) (simp add: p wgen_def)
  have D: "th_gate s = 1" "1 \<le> i" "\<And>t. 1 \<le> t \<Longrightarrow> t < i \<Longrightarrow> t < n \<Longrightarrow> th_pc s t = Exited"
    using driver_gate[OF I] p by (simp_all add: driver_ok_def)
  { assume i: "i < n" "th_pc s i = Exited"
    have "driver_ok n (goto 0 (Joining (i + 1)) s)" using D i by (auto simp: driver_ok_def less_Suc_eq)
    then show "threads_ok n (goto 0 (Joining (i + 1)) s)"
      by (intro driver_goto[OF I a])
        (use phase_of[OF I n_pos[OF I] p] p in \<open>auto simp: wgen_def driver_pc_def phase_def stopping_pc_def\<close>) }
  { assume i: "n \<le> i"
    have "driver_ok n (goto 0 Gone s)" using D i by (auto simp: driver_ok_def)
    then show "threads_ok n (goto 0 Gone s)"
      by (intro driver_goto[OF I a])
        (use phase_of[OF I n_pos[OF I] p] p in \<open>auto simp: wgen_def driver_pc_def phase_def stopping_pc_def\<close>) }
qed

text \<open>Steps of the driver from one plain place to the next.\<close>

lemma plain_goto:
  assumes I: "threads_ok n s" and a: "th_arr s 0 = th_opens s" and p: "plain_pc (th_pc s 0)" "plain_pc p \<or> p = Joining 1" "wgen p = None"
    and ph: "phase p (th_round s 0) (th_arr s 0)" and st: "stopping_pc p = stopping_pc (th_pc s 0)"
  shows "threads_ok n (goto 0 p s)"
proof -
  have g: "th_gate s = 1" using driver_gate[OF I] plain_driver_ok[OF p(1)] by simp
  have "driver_ok n (goto 0 p s) \<and> driver_pc p"
  proof (cases "plain_pc p")
    case True
    then show ?thesis using plain_driver_ok[of "goto 0 p s" n] plain_driver_pc g by simp
  next
    case False
    then show ?thesis using p(2) g by (auto simp: driver_ok_def driver_pc_def)
  qed
  then show ?thesis using driver_goto[OF I a p(3) _ ph st] by blast
qed

theorem threads_ok_step:
  assumes "step n starts s s'" and I: "threads_ok n s"
  shows "threads_ok n s'"
  using assms(1)
proof cases
  case (gate_abort t)
  have "th_arr s t = th_opens s" by (rule arr_of[OF I gate_abort(3)]) (simp add: gate_abort wgen_def)
  moreover have "th_gate s = -1" using gate_values[OF driver_gate[OF I]] gate_abort by auto
  ultimately show ?thesis
    unfolding gate_abort(1) using gate_abort phase_of[OF I gate_abort(3,4)]
    by (intro worker_goto[OF I gate_abort(2,3)]) (auto simp: wgen_def worker_pc_def phase_def)
next
  case (gate_go t)
  have "th_arr s t = th_opens s" by (rule arr_of[OF I gate_go(3)]) (simp add: gate_go wgen_def)
  moreover have "th_gate s = 1" using gate_values[OF driver_gate[OF I]] gate_go by auto
  ultimately show ?thesis
    unfolding gate_go(1) using gate_go phase_of[OF I gate_go(3,4)]
    by (intro worker_goto[OF I gate_go(2,3)]) (auto simp: wgen_def worker_pc_def phase_def)
next
  case (set_up t)
  have "th_arr s t = th_opens s" by (rule arr_of[OF I set_up(3)]) (simp add: set_up wgen_def)
  moreover have "th_gate s = 1" by (rule gate_of[OF I set_up(2,3)]) (simp add: set_up)
  ultimately show ?thesis
    unfolding set_up(1) using set_up phase_of[OF I set_up(3,4)]
    by (intro worker_goto[OF I set_up(2,3)]) (auto simp: wgen_def worker_pc_def phase_def)
next
  case (worker_go t g)
  have "th_arr s t = th_opens s" by (rule released_start[OF I worker_go(3)]) (use worker_go in auto)
  moreover have "th_gate s = 1" by (rule gate_of[OF I worker_go(2,3)]) (simp add: worker_go)
  ultimately show ?thesis
    unfolding worker_go(1) using worker_go phase_of[OF I worker_go(3,4)]
    by (intro worker_goto[OF I worker_go(2,3)]) (auto simp: wgen_def worker_pc_def phase_def)
next
  case (check_stop t)
  have "th_arr s t = th_opens s" by (rule arr_of[OF I check_stop(3)]) (simp add: check_stop wgen_def)
  moreover have "th_gate s = 1" by (rule gate_of[OF I check_stop(2,3)]) (simp add: check_stop)
  ultimately show ?thesis
    unfolding check_stop(1) using check_stop phase_of[OF I check_stop(3,4)]
    by (intro worker_goto[OF I check_stop(2,3)]) (auto simp: wgen_def worker_pc_def phase_def)
next
  case (check_run t)
  have "th_arr s t = th_opens s" by (rule arr_of[OF I check_run(3)]) (simp add: check_run wgen_def)
  moreover have "th_gate s = 1" by (rule gate_of[OF I check_run(2,3)]) (simp add: check_run)
  ultimately show ?thesis
    unfolding check_run(1) using check_run phase_of[OF I check_run(3,4)]
    by (intro worker_goto[OF I check_run(2,3)]) (auto simp: wgen_def worker_pc_def phase_def)
next
  case (worker_again t g)
  have "th_arr s t = th_opens s" by (rule released_done[OF I worker_again(3-5)])
  moreover have "th_gate s = 1" by (rule gate_of[OF I worker_again(2,3)]) (simp add: worker_again)
  ultimately show ?thesis
    unfolding worker_again(1) using worker_again phase_of[OF I worker_again(3,4)]
    by (intro worker_goto[OF I worker_again(2,3)]) (auto simp: wgen_def worker_pc_def phase_def)
next
  case pool_run
  then show ?thesis
    using arr_of[OF I n_pos[OF I]] phase_of[OF I n_pos[OF I] pool_run(2)]
    by (auto intro!: plain_goto[OF I] simp: plain_pc_def wgen_def phase_def stopping_pc_def)
next
  case collected
  then show ?thesis
    using arr_of[OF I n_pos[OF I]] phase_of[OF I n_pos[OF I] collected(2)]
    by (auto intro!: plain_goto[OF I] simp: plain_pc_def wgen_def phase_def stopping_pc_def)
next
  case (driver_go g)
  then show ?thesis
    using released_start[OF I n_pos[OF I] _ driver_go(3)] phase_of[OF I n_pos[OF I] driver_go(2)]
    by (auto intro!: plain_goto[OF I] simp: plain_pc_def wgen_def phase_def stopping_pc_def)
next
  case (driver_collects g)
  then show ?thesis
    using released_done[OF I n_pos[OF I] driver_collects(2,3)] phase_of[OF I n_pos[OF I] driver_collects(2)]
    by (auto intro!: plain_goto[OF I] simp: plain_pc_def wgen_def phase_def stopping_pc_def)
next
  case (driver_stopped g)
  then show ?thesis
    using released_start[OF I n_pos[OF I] _ driver_stopped(3)] phase_of[OF I n_pos[OF I] driver_stopped(2)]
    by (auto intro!: plain_goto[OF I] simp: plain_pc_def wgen_def phase_def stopping_pc_def)
qed (use I spawn_ok[OF I] spawned_ok[OF I] gate_set_ok[OF I] dropping_ok[OF I] joining_ok[OF I] stop_set_ok[OF I] slice_ok[OF I]
      driver_arrivals[OF I] worker_arrives_start[OF I] worker_arrives_done[OF I] in \<open>auto split: if_splits\<close>)

lemma reachable_ok:
  assumes "reachable n starts s" "0 < n"
  shows "threads_ok n s"
  using assms(1) unfolding reachable_def
  by (induction rule: rtranclp_induct) (auto intro: threads_ok_init[OF assms(2)] threads_ok_step)


section \<open>What the driver may rely on\<close>

lemma arr_cases:
  assumes "threads_ok n s" "t < n"
  shows "th_arr s t = th_opens s \<or> th_arr s t = th_opens s + 1 \<and> wgen (th_pc s t) \<noteq> None"
  using assms waiting_arr[of n s t] running_arr[of n s t] by (cases "wgen (th_pc s t)") (auto simp: threads_ok_def)

lemma rounds_of:
  assumes I: "threads_ok n s" and d: "th_pc s 0 \<in> {Idle, At_start, Collecting, At_stop}" and t: "0 < t" "t < n"
  shows "th_round s t = th_round s 0 \<and> th_pc s t \<notin> {Checking, In_slice, At_done}"
proof -
  have "th_arr s 0 = th_opens s" by (rule arr_of[OF I n_pos[OF I]]) (use d in \<open>auto simp: wgen_def\<close>)
  moreover have "th_arr s 0 = 2 * th_round s 0" using phase_of[OF I n_pos[OF I] refl] d by (auto simp: phase_def)
  ultimately have o: "th_opens s = 2 * th_round s 0" by simp
  have g: "th_gate s = 1" using driver_gate[OF I] d by (auto simp: driver_ok_def)
  have W: "worker_pc (th_pc s t)" "th_pc s t \<noteq> Absent" using I g t by (auto simp: threads_ok_def stop_ok_def)
  have E: "th_pc s t = Exited \<Longrightarrow> odd (th_arr s t)" using I g t by (auto simp: threads_ok_def stop_ok_def)
  show ?thesis
    using arr_cases[OF I t(2)] phase_of[OF I t(2) refl] W E o
    by (cases "th_pc s t") (auto simp: phase_def worker_pc_def wgen_def, presburger+)
qed

text \<open>C25: whenever the driver sets up a run, reads the results of one, or asks the workers to stop,
  every worker has finished exactly the slices the driver has, and none is between the barriers of a
  run; and threads that work at the same time work on the same run.\<close>

theorem workers_in_step:
  assumes "reachable n starts s" and "0 < n"
  shows "(th_pc s 0 \<in> {Idle, At_start, Collecting, At_stop} \<longrightarrow>
      (\<forall>t. 0 < t \<and> t < n \<longrightarrow> th_round s t = th_round s 0 \<and> th_pc s t \<notin> {Checking, In_slice, At_done}))
    \<and> (\<forall>t u. t < n \<and> u < n \<and> th_pc s t = In_slice \<and> th_pc s u = In_slice \<longrightarrow> th_round s t = th_round s u)"
proof -
  note I = reachable_ok[OF assms]
  have "th_round s t = th_round s u" if "t < n" "u < n" "th_pc s t = In_slice" "th_pc s u = In_slice" for t u
    using arr_of[OF I that(1)] arr_of[OF I that(2)] phase_of[OF I that(1,3)] phase_of[OF I that(2,4)] that(3,4)
    by (simp add: wgen_def phase_def)
  then show ?thesis using rounds_of[OF I] by blast
qed

lemma two_threads_run:
  "reachable 2 (\<lambda>i. True) (goto 0 Idle ((goto 0 (Opening True 2) (goto 0 (Spawning 2) (goto 1 At_gate (threads_init 2))))\<lparr>th_gate := 1\<rparr>))"
proof -
  let ?a = "threads_init 2" and ?b = "goto 0 (Spawning 2) (goto 1 At_gate (threads_init 2))"
  have "step 2 (\<lambda>i. True) ?a (goto 0 (Spawning (1 + 1)) (goto 1 At_gate ?a))"
    by (rule step.spawn) (simp_all add: threads_init_def)
  then have s1: "step 2 (\<lambda>i. True) ?a ?b" by (simp add: numeral_2_eq_2)
  have s2: "step 2 (\<lambda>i. True) ?b (goto 0 (Opening True 2) ?b)" by (rule step.spawned) simp_all
  have s3: "step 2 (\<lambda>i. True) (goto 0 (Opening True 2) ?b) (goto 0 Idle ((goto 0 (Opening True 2) ?b)\<lparr>th_gate := 1\<rparr>))"
    by (rule step.open_gate) simp
  show ?thesis unfolding reachable_def using s1 s2 s3
    by (meson converse_rtranclp_into_rtranclp rtranclp.rtrancl_refl)
qed

lemma workers_in_step_witness:
  "\<exists>s. reachable 2 (\<lambda>i. True) s \<and> th_pc s 0 = Idle \<and> th_pc s 1 = At_gate \<and> th_round s 1 = th_round s 0"
proof -
  let ?s = "goto 0 Idle ((goto 0 (Opening True 2) (goto 0 (Spawning 2) (goto 1 At_gate (threads_init 2))))\<lparr>th_gate := 1\<rparr>)"
  have "th_round ?s 1 = th_round ?s 0" using workers_in_step[OF two_threads_run] by (simp del: One_nat_def)
  then show ?thesis using two_threads_run by (intro exI[of _ ?s]) simp
qed

text \<open>C26: when the driver destroys the barriers, whether a pool was used or never came up, every
  worker it created has returned; and no worker of a pool that did not come up has touched a barrier.\<close>

theorem barriers_outlive_workers:
  assumes "reachable n starts s" and "0 < n" and "th_pc s 0 \<in> {Gone, Failed}" and "0 < t" and "t < n"
  shows "th_pc s t \<in> {Absent, Exited} \<and> (th_pc s 0 = Gone \<longrightarrow> th_pc s t = Exited)
    \<and> (th_pc s 0 = Failed \<longrightarrow> th_arr s t = 0)"
proof -
  note I = reachable_ok[OF assms(1,2)]
  have D: "th_pc s t \<in> {Absent, Exited} \<and> (th_pc s 0 = Gone \<longrightarrow> th_pc s t = Exited)"
  proof (cases "th_pc s 0 = Gone")
    case True
    then show ?thesis using driver_gate[OF I] assms(4,5) by (simp add: driver_ok_def)
  next
    case False
    then have "th_pc s 0 = Failed" using assms(3) by simp
    then have "\<forall>u. 1 \<le> u \<longrightarrow> u < n \<longrightarrow> th_pc s u \<in> {Absent, Exited}"
      using driver_gate[OF I] by (simp add: driver_ok_def)
    then show ?thesis using assms(4,5) False by (simp add: Suc_le_eq)
  qed
  moreover have "th_arr s t = 0" if "th_pc s 0 = Failed"
  proof -
    have "th_arr s 0 = 0" using phase_of[OF I n_pos[OF I] that] by (simp add: phase_def)
    moreover have "th_arr s 0 = th_opens s" by (rule arr_of[OF I n_pos[OF I]]) (simp add: that wgen_def)
    moreover have "th_arr s t = th_opens s" by (rule arr_of[OF I assms(5)]) (use D in \<open>auto simp: wgen_def\<close>)
    ultimately show ?thesis by simp
  qed
  ultimately show ?thesis by blast
qed

lemma one_failing_run:
  "reachable 2 (\<lambda>i. False) (goto 0 Failed (goto 0 (Dropping 1 1) ((goto 0 (Opening False 1) (threads_init 2))\<lparr>th_gate := -1\<rparr>)))"
proof -
  let ?a = "threads_init 2" and ?b = "goto 0 (Opening False 1) (threads_init 2)"
  let ?c = "goto 0 (Dropping 1 1) (?b\<lparr>th_gate := -1\<rparr>)"
  have s1: "step 2 (\<lambda>i. False) ?a ?b" by (rule step.spawn_fails) (simp_all add: threads_init_def)
  have s2: "step 2 (\<lambda>i. False) ?b ?c" by (rule step.abort_gate) simp
  have s3: "step 2 (\<lambda>i. False) ?c (goto 0 Failed ?c)" by (rule step.dropped[where i = 1 and live = 1]) simp_all
  show ?thesis unfolding reachable_def using s1 s2 s3
    by (meson converse_rtranclp_into_rtranclp rtranclp.rtrancl_refl)
qed

lemma barriers_outlive_workers_witness:
  "\<exists>s. reachable 2 (\<lambda>i. False) s \<and> th_pc s 0 = Failed \<and> th_pc s 1 \<in> {Absent, Exited} \<and> th_arr s 1 = 0"
proof -
  let ?s = "goto 0 Failed (goto 0 (Dropping 1 1) ((goto 0 (Opening False 1) (threads_init 2))\<lparr>th_gate := -1\<rparr>))"
  have "th_pc ?s 1 \<in> {Absent, Exited} \<and> th_arr ?s 1 = 0"
    using barriers_outlive_workers[OF one_failing_run, of 1] by (simp del: One_nat_def)
  then show ?thesis using one_failing_run by (intro exI[of _ ?s]) simp
qed


section \<open>No thread waits for ever\<close>

text \<open>A worker that is not held back by a closed barrier has a step.\<close>

lemma released_steps:
  assumes I: "threads_ok n s" and g: "th_gate s = 1" and t: "0 < t" "t < n"
    and arr: "th_arr s t = th_opens s" and e: "th_pc s t \<noteq> Exited"
  shows "\<exists>s'. step n starts s s'"
proof -
  have W: "worker_pc (th_pc s t)" "th_pc s t \<noteq> Absent" using I g t by (auto simp: threads_ok_def stop_ok_def)
  have ph: "phase (th_pc s t) (th_round s t) (th_arr s t)" by (rule phase_of[OF I t(2) refl])
  have B: "bar_ok n s" using I by (simp add: threads_ok_def)
  show ?thesis
  proof (cases "th_pc s t")
    case (In_start h)
    have "h \<noteq> b_generation (th_start s)"
      using start_waiter[OF B t(2), of h] In_start arr ph by (simp add: wgen_def phase_def)
    then show ?thesis using step.worker_go[OF t In_start] by blast
  next
    case (In_done h)
    have "h \<noteq> b_generation (th_done s)"
      using done_waiter[OF B t(2), of h] In_done arr ph by (simp add: wgen_def phase_def)
    then show ?thesis using step.worker_again[OF t In_done] by blast
  next
    case At_gate
    then show ?thesis using step.gate_go[OF t At_gate] g by fastforce
  next
    case Setting_up
    then show ?thesis using step.set_up[OF t] by blast
  next
    case At_start
    then show ?thesis using step.worker_start[OF t] by blast
  next
    case Checking
    then show ?thesis using step.check_stop[OF t] step.check_run[OF t] by blast
  next
    case In_slice
    then show ?thesis using step.slice[OF t(2)] by blast
  next
    case At_done
    then show ?thesis using step.worker_done[OF t] by blast
  qed (use W e in \<open>auto simp: worker_pc_def\<close>)
qed

text \<open>While the driver waits at a barrier, either it is released or some worker is still on its way.\<close>

lemma waiting_driver_steps:
  assumes I: "threads_ok n s" and w: "wgen (th_pc s 0) = Some g" and g: "th_gate s = 1"
    and rel: "th_arr s 0 = th_opens s \<Longrightarrow> \<exists>s'. step n starts s s'"
    and ex: "\<And>t. 0 < t \<Longrightarrow> t < n \<Longrightarrow> th_arr s t = th_opens s \<Longrightarrow> th_arr s 0 = th_opens s + 1 \<Longrightarrow> th_pc s t \<noteq> Exited"
  shows "\<exists>s'. step n starts s s'"
proof (cases "th_arr s 0 = th_opens s")
  case False
  then have a: "th_arr s 0 = th_opens s + 1" using arr_cases[OF I n_pos[OF I]] by auto
  have "card (pending n s) < n" using I by (simp add: threads_ok_def bar_ok_def)
  then have "pending n s \<noteq> {..<n}" by (metis card_lessThan less_irrefl)
  then obtain t where t: "t < n" "t \<notin> pending n s" by (auto simp: pending_def)
  then have at: "th_arr s t = th_opens s" using arr_cases[OF I t(1)] by (auto simp: pending_def)
  then have t0: "0 < t" using a by (cases "t = 0") simp_all
  show ?thesis by (rule released_steps[OF I g t0 t(1) at ex[OF t0 t(1) at a]])
qed (rule rel)

lemma exited_odd:
  assumes "threads_ok n s" "th_gate s = 1" "0 < t" "t < n" "th_pc s t = Exited"
  shows "th_stop s" "odd (th_arr s t)"
  using assms by (auto simp: threads_ok_def stop_ok_def)

text \<open>The driver while it joins workers or waits at a barrier.\<close>

lemma dropping_steps:
  assumes I: "threads_ok n s" and p: "th_pc s 0 = Dropping i live"
  shows "\<exists>s'. step n starts s s'"
proof -
  note D = driver_gate[OF I]
  have B: "bar_ok n s" using I by (simp add: threads_ok_def)
  have ph: "phase (th_pc s 0) (th_round s 0) (th_arr s 0)" by (rule phase_of[OF I n_pos[OF I] refl])
  have d: "th_gate s = -1" "1 \<le> i" "live \<le> n" "\<And>t. 1 \<le> t \<Longrightarrow> t < n \<Longrightarrow> turned_away i live t (th_pc s t)"
    using D p by (simp_all add: driver_ok_def)
  show ?thesis
  proof (cases "i < live")
    case True
    then have i: "0 < i" "i < n" "th_pc s i = At_gate \<or> th_pc s i = Exited"
      using d(2,3) d(4)[of i] by (auto simp: turned_away_def)
    have "th_gate s < 0" using d(1) by simp
    then show ?thesis using i step.gate_abort[OF i(1,2)] step.drop[OF p True] by blast
  next
    case False
    then show ?thesis using step.dropped[OF p] by (meson not_le)
  qed
qed

lemma joining_steps:
  assumes I: "threads_ok n s" and p: "th_pc s 0 = Joining i"
  shows "\<exists>s'. step n starts s s'"
proof -
  note D = driver_gate[OF I]
  have B: "bar_ok n s" using I by (simp add: threads_ok_def)
  have ph: "phase (th_pc s 0) (th_round s 0) (th_arr s 0)" by (rule phase_of[OF I n_pos[OF I] refl])
  have d: "th_gate s = 1" "1 \<le> i" using D p by (simp_all add: driver_ok_def)
  have a0: "th_arr s 0 = th_opens s" by (rule arr_of[OF I n_pos[OF I]]) (simp add: p wgen_def)
  then have o: "odd (th_opens s)" using ph p by (simp add: phase_def)
  have st: "th_stop s" using I p by (simp add: threads_ok_def stop_ok_def stopping_pc_def)
  show ?thesis
  proof (cases "i < n \<and> th_pc s i \<noteq> Exited")
    case True
    have W: "worker_pc (th_pc s i)" "\<And>g. th_pc s i = In_done g \<Longrightarrow> th_arr s i = th_opens s"
      using I st d(2) True by (auto simp: threads_ok_def stop_ok_def)
    have "th_arr s i = th_opens s"
      using arr_cases[OF I, of i] phase_of[OF I _ refl, of i] True W o
      by (cases "th_pc s i") (auto simp: wgen_def phase_def worker_pc_def, presburger)
    then show ?thesis using released_steps[OF I d(1), of i] d(2) True by auto
  next
    case False
    then show ?thesis using step.join[OF p] step.joined[OF p] by (meson not_le)
  qed
qed

lemma start_steps:
  assumes I: "threads_ok n s" and p: "th_pc s 0 = In_start g"
  shows "\<exists>s'. step n starts s s'"
proof -
  note D = driver_gate[OF I]
  have B: "bar_ok n s" using I by (simp add: threads_ok_def)
  have ph: "phase (th_pc s 0) (th_round s 0) (th_arr s 0)" by (rule phase_of[OF I n_pos[OF I] refl])
  have gt: "th_gate s = 1" using D p by (simp add: driver_ok_def)
  show ?thesis
  proof (rule waiting_driver_steps[OF I _ gt, of g])
    show "wgen (th_pc s 0) = Some g" by (simp add: p wgen_def)
    assume "th_arr s 0 = th_opens s"
    then have "g \<noteq> b_generation (th_start s)"
      using start_waiter[OF B n_pos[OF I], of g] p ph by (simp add: wgen_def phase_def)
    then show "\<exists>s'. step n starts s s'" using step.driver_go[OF p] by blast
  next
    fix t assume "0 < t" "t < n" "th_arr s t = th_opens s" "th_arr s 0 = th_opens s + 1"
    then show "th_pc s t \<noteq> Exited" using exited_odd[OF I gt, of t] ph p by (auto simp: phase_def)
  qed
qed

lemma done_steps:
  assumes I: "threads_ok n s" and p: "th_pc s 0 = In_done g"
  shows "\<exists>s'. step n starts s s'"
proof -
  note D = driver_gate[OF I]
  have B: "bar_ok n s" using I by (simp add: threads_ok_def)
  have ph: "phase (th_pc s 0) (th_round s 0) (th_arr s 0)" by (rule phase_of[OF I n_pos[OF I] refl])
  have gt: "th_gate s = 1" using D p by (simp add: driver_ok_def)
  show ?thesis
  proof (rule waiting_driver_steps[OF I _ gt, of g])
    show "wgen (th_pc s 0) = Some g" by (simp add: p wgen_def)
    assume "th_arr s 0 = th_opens s"
    then have "g \<noteq> b_generation (th_done s)"
      using done_waiter[OF B n_pos[OF I], of g] p ph by (simp add: wgen_def phase_def)
    then show "\<exists>s'. step n starts s s'" using step.driver_collects[OF p] by blast
  next
    have "\<not> th_stop s" using I p by (simp add: threads_ok_def stop_ok_def stopping_pc_def)
    then show "\<And>t. 0 < t \<Longrightarrow> t < n \<Longrightarrow> th_arr s t = th_opens s \<Longrightarrow> th_arr s 0 = th_opens s + 1 \<Longrightarrow> th_pc s t \<noteq> Exited"
      using exited_odd[OF I gt] by blast
  qed
qed

lemma stop_steps:
  assumes I: "threads_ok n s" and p: "th_pc s 0 = In_stop g"
  shows "\<exists>s'. step n starts s s'"
proof -
  note D = driver_gate[OF I]
  have B: "bar_ok n s" using I by (simp add: threads_ok_def)
  have ph: "phase (th_pc s 0) (th_round s 0) (th_arr s 0)" by (rule phase_of[OF I n_pos[OF I] refl])
  have gt: "th_gate s = 1" using D p by (simp add: driver_ok_def)
  show ?thesis
  proof (rule waiting_driver_steps[OF I _ gt, of g])
    show "wgen (th_pc s 0) = Some g" by (simp add: p wgen_def)
    assume "th_arr s 0 = th_opens s"
    then have "g \<noteq> b_generation (th_start s)"
      using start_waiter[OF B n_pos[OF I], of g] p ph by (simp add: wgen_def phase_def)
    then show "\<exists>s'. step n starts s s'" using step.driver_stopped[OF p] by blast
  next
    fix t assume "0 < t" "t < n" "th_arr s t = th_opens s" "th_arr s 0 = th_opens s + 1"
    then show "th_pc s t \<noteq> Exited" using exited_odd[OF I gt, of t] ph p by (auto simp: phase_def)
  qed
qed

text \<open>C27: the threads never deadlock: until the barriers are gone there is always a step to make,
  whatever the schedule has been.\<close>

theorem pool_never_stuck:
  assumes "reachable n starts s" and "0 < n" and "th_pc s 0 \<notin> {Gone, Failed}"
  shows "\<exists>s'. step n starts s s'"
proof -
  note I = reachable_ok[OF assms(1,2)]
  show ?thesis
  proof (cases "th_pc s 0")
    case (Spawning i)
    then show ?thesis using step.spawn[OF Spawning] step.spawn_fails[OF Spawning] step.spawned[OF Spawning] by (meson not_le)
  next
    case (Opening good live)
    show ?thesis
    proof (cases good)
      case True
      then show ?thesis using step.open_gate[of s live n starts] Opening by (simp only:) blast
    next
      case False
      then show ?thesis using step.abort_gate[of s live n starts] Opening by (simp only:) blast
    qed
  next
    case (Dropping i live)
    show ?thesis by (rule dropping_steps[OF I Dropping])
  next
    case (Joining i)
    show ?thesis by (rule joining_steps[OF I Joining])
  next
    case (In_start g)
    show ?thesis by (rule start_steps[OF I In_start])
  next
    case (In_done g)
    show ?thesis by (rule done_steps[OF I In_done])
  next
    case (In_stop g)
    show ?thesis by (rule stop_steps[OF I In_stop])
  next
    case Idle
    then show ?thesis using step.pool_run by blast
  next
    case At_start
    then show ?thesis using step.driver_start by blast
  next
    case In_slice
    then show ?thesis using step.slice[OF assms(2)] by blast
  next
    case At_done
    then show ?thesis using step.driver_done by blast
  next
    case Collecting
    then show ?thesis using step.collected by blast
  next
    case At_stop
    then show ?thesis using step.driver_stop by blast
  qed (use assms(3) I in \<open>simp_all add: threads_ok_def driver_pc_def\<close>)
qed

lemma pool_never_stuck_witness:
  "\<exists>s s'. reachable 2 (\<lambda>i. True) s \<and> th_pc s 0 = Idle \<and> step 2 (\<lambda>i. True) s s'"
proof -
  let ?s = "goto 0 Idle ((goto 0 (Opening True 2) (goto 0 (Spawning 2) (goto 1 At_gate (threads_init 2))))\<lparr>th_gate := 1\<rparr>)"
  have "\<exists>s'. step 2 (\<lambda>i. True) ?s s'" using pool_never_stuck[OF two_threads_run] by simp
  then show ?thesis using two_threads_run by (metis (no_types, lifting) fun_upd_same goto_fields(8))
qed


section \<open>How many steps a run takes\<close>

text \<open>How far a thread has come; every step moves one thread on.\<close>

definition wpos :: "pc \<Rightarrow> nat \<Rightarrow> nat" where
  "wpos p r = (case p of
      At_gate \<Rightarrow> 1 | Setting_up \<Rightarrow> 2 | At_start \<Rightarrow> 4 + 6 * r | In_start g \<Rightarrow> 5 + 6 * r | Checking \<Rightarrow> 6 + 6 * r
    | In_slice \<Rightarrow> 7 + 6 * r | At_done \<Rightarrow> 2 + 6 * r | In_done g \<Rightarrow> 3 + 6 * r | Exited \<Rightarrow> 8 + 6 * r | _ \<Rightarrow> 0)"

definition dpos :: "nat \<Rightarrow> pc \<Rightarrow> nat \<Rightarrow> nat" where
  "dpos n p r = (case p of
      Spawning i \<Rightarrow> min i n | Opening b l \<Rightarrow> n + 1 | Dropping i l \<Rightarrow> n + 2 + min i n | Failed \<Rightarrow> 2 * n + 3
    | Idle \<Rightarrow> n + 2 + 8 * r | At_start \<Rightarrow> n + 3 + 8 * r | In_start g \<Rightarrow> n + 4 + 8 * r | In_slice \<Rightarrow> n + 5 + 8 * r
    | At_done \<Rightarrow> n - 1 + 8 * r | In_done g \<Rightarrow> n + 8 * r | Collecting \<Rightarrow> n + 1 + 8 * r
    | At_stop \<Rightarrow> n + 3 + 8 * r | In_stop g \<Rightarrow> n + 4 + 8 * r | Joining i \<Rightarrow> n + 5 + 8 * r + min i n
    | Gone \<Rightarrow> 2 * n + 6 + 8 * r | _ \<Rightarrow> 0)"

definition progress :: "nat \<Rightarrow> threads \<Rightarrow> nat" where
  "progress n s = dpos n (th_pc s 0) (th_round s 0) + (\<Sum>t \<in> {1..<n}. wpos (th_pc s t) (th_round s t))"

lemma progress_driver:
  assumes "dpos n (th_pc s 0) (th_round s 0) < dpos n (th_pc s' 0) (th_round s' 0)"
    and "\<And>t. 1 \<le> t \<Longrightarrow> wpos (th_pc s t) (th_round s t) \<le> wpos (th_pc s' t) (th_round s' t)"
  shows "progress n s < progress n s'"
  using assms unfolding progress_def by (intro add_less_le_mono sum_mono) auto

lemma progress_worker:
  assumes "0 < t" "t < n" "wpos (th_pc s t) (th_round s t) < wpos (th_pc s' t) (th_round s' t)"
    and "\<And>u. u \<noteq> t \<Longrightarrow> th_pc s' u = th_pc s u" "\<And>u. u \<noteq> t \<Longrightarrow> th_round s' u = th_round s u"
  shows "progress n s < progress n s'"
proof -
  have "(\<Sum>u \<in> {1..<n}. wpos (th_pc s u) (th_round s u)) < (\<Sum>u \<in> {1..<n}. wpos (th_pc s' u) (th_round s' u))"
  proof (rule sum_strict_mono_ex1)
    show "\<forall>u \<in> {1..<n}. wpos (th_pc s u) (th_round s u) \<le> wpos (th_pc s' u) (th_round s' u)"
    proof
      fix u assume "u \<in> {1..<n}"
      show "wpos (th_pc s u) (th_round s u) \<le> wpos (th_pc s' u) (th_round s' u)"
        using assms(3,4,5) by (cases "u = t") auto
    qed
    show "\<exists>u \<in> {1..<n}. wpos (th_pc s u) (th_round s u) < wpos (th_pc s' u) (th_round s' u)"
      using assms(1,2,3) by (intro bexI[of _ t]) auto
  qed simp
  then show ?thesis using assms(1,4,5) by (simp add: progress_def)
qed

lemma progress_goto:
  "0 < t \<Longrightarrow> t < n \<Longrightarrow> wpos (th_pc s t) (th_round s t) < wpos p (th_round s t) \<Longrightarrow> progress n s < progress n (goto t p s)"
  by (rule progress_worker[of t]) simp_all

lemma progress_goto_driver:
  "dpos n (th_pc s 0) (th_round s 0) < dpos n p (th_round s 0) \<Longrightarrow> progress n s < progress n (goto 0 p s)"
  "dpos n (th_pc s 0) (th_round s 0) < dpos n p (th_round s 0) \<Longrightarrow> progress n s < progress n (goto 0 p (s\<lparr>th_gate := g\<rparr>))"
  "dpos n (th_pc s 0) (th_round s 0) < dpos n p (th_round s 0) \<Longrightarrow> progress n s < progress n (goto 0 p (s\<lparr>th_stop := b\<rparr>))"
  by (rule progress_driver; simp)+

lemma phase_bounds: "phase p r a \<Longrightarrow> 2 * r \<le> a + 1 \<and> a \<le> 2 * r + 1"
  by (cases p) (auto simp: phase_def)

lemma arrive_start_fields:
  "th_round (arrive_start t w x s) = th_round s"
  "\<exists>r. th_pc (arrive_start t w x s) = (th_pc s)(t := case r of None \<Rightarrow> x | Some g \<Rightarrow> w g)"
  by (auto simp: arrive_start_def split: prod.splits)

lemma arrive_done_fields:
  "th_round (arrive_done t w x s) = th_round s"
  "\<exists>r. th_pc (arrive_done t w x s) = (th_pc s)(t := case r of None \<Rightarrow> x | Some g \<Rightarrow> w g)"
  by (auto simp: arrive_done_def split: prod.splits)

lemma step_progress:
  assumes "step n starts s s'" and I: "threads_ok n s"
  shows "progress n s < progress n s'"
  using assms(1)
proof cases
  case (spawn i)
  have D: "1 \<le> i" "th_pc s i = Absent" using driver_gate[OF I] spawn by (auto simp: driver_ok_def)
  show ?thesis unfolding spawn(1)
    by (rule progress_driver) (use spawn D in \<open>auto simp: dpos_def wpos_def\<close>)
next
  case (gate_abort t)
  have "th_round s t = 0" using phase_of[OF I gate_abort(3,4)] by (simp add: phase_def)
  then show ?thesis unfolding gate_abort(1) by (intro progress_worker[OF gate_abort(2,3)]) (simp_all add: gate_abort wpos_def)
next
  case (slice t)
  show ?thesis
  proof (cases "t = 0")
    case True
    then show ?thesis unfolding slice(1) using slice
      by (intro progress_driver) (auto simp: ran_slice_def dpos_def)
  next
    case False
    then have "0 < t" by simp
    then show ?thesis unfolding slice(1) using slice
      by (intro progress_worker[of t]) (auto simp: ran_slice_def wpos_def)
  qed
next
  case (worker_start t)
  obtain r where "th_pc s' = (th_pc s)(t := case r of None \<Rightarrow> Checking | Some g \<Rightarrow> In_start g)"
    using arrive_start_fields(2)[of t In_start Checking s] worker_start(1) by blast
  then show ?thesis using worker_start arrive_start_fields(1)[of t In_start Checking s]
    by (intro progress_worker[OF worker_start(2,3)]) (auto simp: wpos_def split: option.splits)
next
  case (worker_done t)
  obtain r where "th_pc s' = (th_pc s)(t := case r of None \<Rightarrow> At_start | Some g \<Rightarrow> In_done g)"
    using arrive_done_fields(2)[of t In_done At_start s] worker_done(1) by blast
  then show ?thesis using worker_done arrive_done_fields(1)[of t In_done At_start s]
    by (intro progress_worker[OF worker_done(2,3)]) (auto simp: wpos_def split: option.splits)
next
  case driver_start
  obtain r where "th_pc s' = (th_pc s)(0 := case r of None \<Rightarrow> In_slice | Some g \<Rightarrow> In_start g)"
    using arrive_start_fields(2)[of 0 In_start In_slice s] driver_start(1) by blast
  then show ?thesis using driver_start arrive_start_fields(1)[of 0 In_start In_slice s]
    by (intro progress_driver) (auto simp: dpos_def split: option.splits)
next
  case driver_stop
  obtain r where "th_pc s' = (th_pc s)(0 := case r of None \<Rightarrow> Joining 1 | Some g \<Rightarrow> In_stop g)"
    using arrive_start_fields(2)[of 0 In_stop "Joining 1" s] driver_stop(1) by blast
  then show ?thesis using driver_stop arrive_start_fields(1)[of 0 In_stop "Joining 1" s] n_pos[OF I]
    by (intro progress_driver) (auto simp: dpos_def split: option.splits)
next
  case driver_done
  obtain r where "th_pc s' = (th_pc s)(0 := case r of None \<Rightarrow> Collecting | Some g \<Rightarrow> In_done g)"
    using arrive_done_fields(2)[of 0 In_done Collecting s] driver_done(1) by blast
  then show ?thesis using driver_done arrive_done_fields(1)[of 0 In_done Collecting s] n_pos[OF I]
    by (intro progress_driver) (auto simp: dpos_def split: option.splits)
next
  case open_gate
  have "th_round s 0 = 0" using phase_of[OF I n_pos[OF I] open_gate(2)] by (simp add: phase_def)
  then show ?thesis unfolding open_gate(1) by (intro progress_driver) (simp_all add: open_gate dpos_def)
next
  case (drop i live)
  have "live \<le> n" using driver_gate[OF I] drop by (simp add: driver_ok_def)
  then show ?thesis unfolding drop(1) using drop by (intro progress_driver) (auto simp: dpos_def)
next
  case (dropped i live)
  then show ?thesis unfolding dropped(1) using n_pos[OF I] by (intro progress_driver) (auto simp: dpos_def)
qed (use n_pos[OF I] in \<open>auto simp: progress_goto_driver progress_goto dpos_def wpos_def\<close>)

text \<open>So between two runs only so much can happen, whatever the scheduler does.\<close>

lemma progress_bound:
  assumes I: "threads_ok n s"
  shows "progress n s \<le> (n + 1) * (8 * th_round s 0 + 16)"
proof -
  have "th_round s t \<le> th_round s 0 + 1" if "t < n" for t
  proof -
    have "\<And>u. u < n \<Longrightarrow> 2 * th_round s u \<le> th_arr s u + 1 \<and> th_arr s u \<le> 2 * th_round s u + 1"
      by (rule phase_bounds[OF phase_of[OF I _ refl]])
    from this[OF that] this[OF n_pos[OF I]] arr_cases[OF I that] arr_cases[OF I n_pos[OF I]]
    show ?thesis by auto
  qed
  moreover have "wpos p r \<le> 8 + 6 * r" for p r by (cases p) (simp_all add: wpos_def)
  ultimately have "\<forall>t \<in> {1..<n}. wpos (th_pc s t) (th_round s t) \<le> 8 + 6 * (th_round s 0 + 1)"
    by (meson add_left_mono atLeastLessThan_iff le_trans mult_le_mono2)
  then have "(\<Sum>t \<in> {1..<n}. wpos (th_pc s t) (th_round s t)) \<le> (n - 1) * (8 + 6 * (th_round s 0 + 1))"
    using sum_bounded_above[of "{1..<n}" "\<lambda>t. wpos (th_pc s t) (th_round s t)"] by simp
  moreover have "dpos n (th_pc s 0) (th_round s 0) \<le> 2 * n + 6 + 8 * th_round s 0"
    using n_pos[OF I] by (cases "th_pc s 0") (auto simp: dpos_def)
  ultimately have "progress n s \<le> 2 * n + 6 + 8 * th_round s 0 + (n - 1) * (14 + 6 * th_round s 0)"
    by (simp add: progress_def algebra_simps)
  also have "\<dots> \<le> (n + 1) * (8 * th_round s 0 + 16)"
    using n_pos[OF I] by (cases n) (auto simp: algebra_simps)
  finally show ?thesis .
qed

text \<open>C28: a run ends under every schedule.  Between the creation of the pool and a moment at which
  the driver has run its slice \<open>r\<close> times the threads can make at most \<open>(n + 1) * (8 * r + 16)\<close>
  steps, so, as they never deadlock, the driver reaches the end of every run.\<close>

theorem pool_steps_bounded:
  assumes "(step n starts ^^ k) (threads_init n) s" and "0 < n"
  shows "k \<le> (n + 1) * (8 * th_round s 0 + 16)"
proof -
  have "threads_ok n s \<and> k \<le> progress n s" using assms(1)
  proof (induction k arbitrary: s)
    case 0
    then show ?case using threads_ok_init[OF assms(2)] by auto
  next
    case (Suc k)
    then obtain u where u: "(step n starts ^^ k) (threads_init n) u" "step n starts u s" by auto
    with Suc.IH have "threads_ok n u" "k \<le> progress n u" by auto
    then show ?case using threads_ok_step[OF u(2)] step_progress[OF u(2)] by auto
  qed
  then show ?thesis using progress_bound[of n s] by auto
qed

lemma pool_steps_bounded_witness:
  "\<exists>s. (step 1 (\<lambda>i. True) ^^ 2) (threads_init 1) s \<and> 2 \<le> (1 + 1) * (8 * th_round s 0 + 16)"
proof -
  let ?a = "threads_init 1" and ?b = "goto 0 (Opening True 1) (threads_init 1)"
  have "step 1 (\<lambda>i. True) ?a ?b" by (rule step.spawned) (simp_all add: threads_init_def)
  moreover have "step 1 (\<lambda>i. True) ?b (goto 0 Idle (?b\<lparr>th_gate := 1\<rparr>))" by (rule step.open_gate) simp
  ultimately have r: "(step 1 (\<lambda>i. True) ^^ 2) ?a (goto 0 Idle (?b\<lparr>th_gate := 1\<rparr>))"
    by (auto simp: numeral_2_eq_2)
  show ?thesis by (rule exI, rule conjI[OF r pool_steps_bounded[OF r]]) simp
qed

end
