(* ===== verification/Registry.thy ===== *)
theory Registry
  imports Algorithm Decimal
begin

text \<open>
  src/kernels/cpu/matrix.h and src/registry.c: the table of kernels, and src/cpu_features.c: the
  run-time checks that gate them.  The preprocessor's visitor macros are functions that return the
  rows they expand to; the \<open>VB_HAVE_*\<close> flags of the build, CPUID, XCR0, the auxiliary vector and the
  vector length are arguments.
\<close>

section \<open>CPU features\<close>

text \<open>CPUID answers leaf and subleaf with the four registers, or not at all.\<close>

type_synonym cpuid = "nat \<Rightarrow> nat \<Rightarrow> (u32 \<times> u32 \<times> u32 \<times> u32) option"

definition os_saves_ymm :: "cpuid \<Rightarrow> u64 \<Rightarrow> bool" where
  "os_saves_ymm cpuid xcr0 =
    (case cpuid 1 0 of None \<Rightarrow> False
     | Some (a, b, c, d) \<Rightarrow>
         if c AND push_bit 27 1 = 0 then False
         else xcr0 AND 0x6 = 0x6)"

definition os_saves_zmm :: "cpuid \<Rightarrow> u64 \<Rightarrow> bool" where
  "os_saves_zmm cpuid xcr0 =
    (if \<not> os_saves_ymm cpuid xcr0 then False else xcr0 AND 0xe0 = 0xe0)"

definition vb_cpu_has_avx2 :: "cpuid \<Rightarrow> u64 \<Rightarrow> bool" where
  "vb_cpu_has_avx2 cpuid xcr0 =
    (if \<not> os_saves_ymm cpuid xcr0 then False
     else case cpuid 7 0 of None \<Rightarrow> False | Some (a, b, c, d) \<Rightarrow> b AND push_bit 5 1 \<noteq> 0)"

definition vb_cpu_has_avx512f :: "cpuid \<Rightarrow> u64 \<Rightarrow> bool" where
  "vb_cpu_has_avx512f cpuid xcr0 =
    (if \<not> os_saves_zmm cpuid xcr0 then False
     else case cpuid 7 0 of None \<Rightarrow> False | Some (a, b, c, d) \<Rightarrow> b AND push_bit 16 1 \<noteq> 0)"

definition vb_cpu_has_sha_ni :: "cpuid \<Rightarrow> bool" where
  "vb_cpu_has_sha_ni cpuid =
    (case cpuid 7 0 of None \<Rightarrow> False | Some (a, b, c, d) \<Rightarrow> b AND push_bit 29 1 \<noteq> 0)"

text \<open>On AArch64 Linux the features are bits of the two auxiliary vector words.\<close>

definition vb_cpu_has_sve :: "bool \<Rightarrow> u64 \<Rightarrow> u64 \<Rightarrow> bool" where
  "vb_cpu_has_sve built hwcap hwcap_sve = (if \<not> built then False else hwcap AND hwcap_sve \<noteq> 0)"

definition vb_cpu_has_sve2 :: "bool \<Rightarrow> bool \<Rightarrow> u64 \<Rightarrow> u64 \<Rightarrow> u64 \<Rightarrow> u64 \<Rightarrow> bool" where
  "vb_cpu_has_sve2 built2 built hwcap hwcap2 hwcap_sve hwcap2_sve2 =
    (if \<not> built2 then False
     else if \<not> vb_cpu_has_sve built hwcap hwcap_sve then False
     else hwcap2 AND hwcap2_sve2 \<noteq> 0)"

definition VB_MAX_LANES :: nat where "VB_MAX_LANES = 64"

definition vb_sve_lanes32 :: "nat \<Rightarrow> nat" where
  "vb_sve_lanes32 svcntw = (if svcntw \<le> VB_MAX_LANES then svcntw else 0)"

definition vb_sve_lanes64 :: "nat \<Rightarrow> nat" where
  "vb_sve_lanes64 svcntd = (if svcntd \<le> VB_MAX_LANES then svcntd else 0)"


section \<open>The matrix\<close>

datatype isa = SCALAR | SSE2 | AVX2 | AVX512 | SHANI | NEON | SVE | SVE2

datatype vb_backend_id = VB_BACKEND_OPENCL | VB_BACKEND_CUDA

datatype avail_fn = always | has_isa isa | have_opencl | have_cuda

datatype lanes_fn = SveLanes32 | SveLanes64

text \<open>A row.  \<open>k_fn\<close> names the entry point by algorithm, ISA and stream count; it is absent for a
  device kernel, and so is the backend for a CPU kernel (\<open>-1\<close> in the code).\<close>

record vb_kernel =
  k_name :: string
  k_isa :: string
  k_alg :: vb_alg_id
  k_lanes :: nat
  k_streams :: nat
  k_fn :: "(vb_alg_id \<times> isa \<times> nat) option"
  k_available :: avail_fn
  k_device :: bool
  k_lanes_runtime :: bool
  k_backend :: "vb_backend_id option"

text \<open>A matrix cell: algorithm token, ISA token, streams, display name, availability, lanes and
  lane function, as the visitor macros receive them.\<close>

record cell =
  ce_alg :: vb_alg_id
  ce_isa :: isa
  ce_streams :: nat
  ce_isaname :: string
  ce_avail :: avail_fn
  ce_lanes :: nat
  ce_lfn :: "lanes_fn option"

definition alg_token :: "vb_alg_id \<Rightarrow> string" where
  "alg_token a = (case a of VB_ALG_MD5 \<Rightarrow> ''md5'' | VB_ALG_SHA1 \<Rightarrow> ''sha1'' | VB_ALG_SHA512 \<Rightarrow> ''sha512'')"

definition isa_token :: "isa \<Rightarrow> string" where
  "isa_token i = (case i of SCALAR \<Rightarrow> ''scalar'' | SSE2 \<Rightarrow> ''sse2'' | AVX2 \<Rightarrow> ''avx2'' | AVX512 \<Rightarrow> ''avx512''
     | SHANI \<Rightarrow> ''shani'' | NEON \<Rightarrow> ''neon'' | SVE \<Rightarrow> ''sve'' | SVE2 \<Rightarrow> ''sve2'')"

definition VB_KNAME :: "string \<Rightarrow> string \<Rightarrow> nat \<Rightarrow> string" where
  "VB_KNAME alg isa st = alg @ ''/'' @ isa @ ''-s'' @ dec st"

definition VB_FOR_STREAMS :: "vb_alg_id \<Rightarrow> isa \<Rightarrow> string \<Rightarrow> avail_fn \<Rightarrow> nat \<Rightarrow> lanes_fn option \<Rightarrow> cell list" where
  "VB_FOR_STREAMS alg isa isaname avail lanes lfn =
    map (\<lambda>st. \<lparr>ce_alg = alg, ce_isa = isa, ce_streams = st, ce_isaname = isaname, ce_avail = avail,
               ce_lanes = lanes, ce_lfn = lfn\<rparr>) [1, 2, 3, 4, 6, 8]"

definition VB_FOR_STREAMS4 :: "vb_alg_id \<Rightarrow> isa \<Rightarrow> string \<Rightarrow> avail_fn \<Rightarrow> nat \<Rightarrow> lanes_fn option \<Rightarrow> cell list" where
  "VB_FOR_STREAMS4 alg isa isaname avail lanes lfn =
    map (\<lambda>st. \<lparr>ce_alg = alg, ce_isa = isa, ce_streams = st, ce_isaname = isaname, ce_avail = avail,
               ce_lanes = lanes, ce_lfn = lfn\<rparr>) [1, 2, 3, 4]"

definition VB_FOR_ALGS ::
  "isa \<Rightarrow> string \<Rightarrow> avail_fn \<Rightarrow> nat \<Rightarrow> nat \<Rightarrow> lanes_fn option \<Rightarrow> lanes_fn option \<Rightarrow> cell list" where
  "VB_FOR_ALGS isa isaname avail l32 l64 f32 f64 =
     VB_FOR_STREAMS VB_ALG_MD5 isa isaname avail l32 f32 @
     VB_FOR_STREAMS VB_ALG_SHA1 isa isaname avail l32 f32 @
     VB_FOR_STREAMS VB_ALG_SHA512 isa isaname avail l64 f64"

definition VB_ISA_SCALAR :: "cell list" where
  "VB_ISA_SCALAR = VB_FOR_ALGS SCALAR ''scalar'' always 1 1 None None"

definition VB_ISA_SSE2 :: "bool \<Rightarrow> cell list" where
  "VB_ISA_SSE2 have = (if have then VB_FOR_ALGS SSE2 ''SSE2'' (has_isa SSE2) 4 2 None None else [])"

definition VB_ISA_AVX2 :: "bool \<Rightarrow> cell list" where
  "VB_ISA_AVX2 have = (if have then VB_FOR_ALGS AVX2 ''AVX2'' (has_isa AVX2) 8 4 None None else [])"

definition VB_ISA_AVX512 :: "bool \<Rightarrow> cell list" where
  "VB_ISA_AVX512 have = (if have then VB_FOR_ALGS AVX512 ''AVX512'' (has_isa AVX512) 16 8 None None else [])"

definition VB_ISA_SHANI :: "bool \<Rightarrow> cell list" where
  "VB_ISA_SHANI have = (if have then VB_FOR_STREAMS4 VB_ALG_SHA1 SHANI ''SHA-NI'' (has_isa SHANI) 1 None else [])"

definition VB_ISA_NEON :: "bool \<Rightarrow> cell list" where
  "VB_ISA_NEON have = (if have then VB_FOR_ALGS NEON ''NEON'' (has_isa NEON) 4 2 None None else [])"

definition VB_ISA_SVE :: "bool \<Rightarrow> cell list" where
  "VB_ISA_SVE have = (if have then VB_FOR_ALGS SVE ''SVE'' (has_isa SVE) 0 0 (Some SveLanes32) (Some SveLanes64) else [])"

definition VB_ISA_SVE2 :: "bool \<Rightarrow> cell list" where
  "VB_ISA_SVE2 have = (if have then VB_FOR_ALGS SVE2 ''SVE2'' (has_isa SVE2) 0 0 (Some SveLanes32) (Some SveLanes64) else [])"

definition VB_FOR_EACH_KERNEL :: "(isa \<Rightarrow> bool) \<Rightarrow> cell list" where
  "VB_FOR_EACH_KERNEL have =
     VB_ISA_SCALAR @ VB_ISA_SSE2 (have SSE2) @ VB_ISA_AVX2 (have AVX2) @ VB_ISA_AVX512 (have AVX512) @
     VB_ISA_SHANI (have SHANI) @ VB_ISA_NEON (have NEON) @ VB_ISA_SVE (have SVE) @ VB_ISA_SVE2 (have SVE2)"


section \<open>The registry\<close>

definition VB_OCL_LANES :: nat where "VB_OCL_LANES = 64"

definition VB_ROW_KERNEL :: "cell \<Rightarrow> vb_kernel" where
  "VB_ROW_KERNEL c = \<lparr>
     k_name = VB_KNAME (alg_token (ce_alg c)) (isa_token (ce_isa c)) (ce_streams c),
     k_isa = ce_isaname c, k_alg = ce_alg c, k_lanes = ce_lanes c, k_streams = ce_streams c,
     k_fn = Some (ce_alg c, ce_isa c, ce_streams c), k_available = ce_avail c, k_device = False,
     k_lanes_runtime = (ce_lanes c = 0), k_backend = None\<rparr>"

definition VB_DEV_ROW :: "string \<Rightarrow> string \<Rightarrow> avail_fn \<Rightarrow> vb_backend_id \<Rightarrow> vb_alg_id \<Rightarrow> nat \<Rightarrow> vb_kernel" where
  "VB_DEV_ROW token isaname avail backend alg st = \<lparr>
     k_name = VB_KNAME (alg_token alg) token st, k_isa = isaname, k_alg = alg, k_lanes = VB_OCL_LANES,
     k_streams = st, k_fn = None, k_available = avail, k_device = True, k_lanes_runtime = False,
     k_backend = Some backend\<rparr>"

definition dev_rows :: "(vb_alg_id \<Rightarrow> nat \<Rightarrow> vb_kernel) \<Rightarrow> vb_kernel list" where
  "dev_rows row = concat (map (\<lambda>a. map (row a) [1, 2, 3, 4]) [VB_ALG_MD5, VB_ALG_SHA1, VB_ALG_SHA512])"

definition kernels :: "(isa \<Rightarrow> bool) \<Rightarrow> vb_kernel list" where
  "kernels have =
     map VB_ROW_KERNEL (VB_FOR_EACH_KERNEL have) @
     dev_rows (VB_DEV_ROW ''ocl'' ''OpenCL'' have_opencl VB_BACKEND_OPENCL) @
     dev_rows (VB_DEV_ROW ''cuda'' ''CUDA'' have_cuda VB_BACKEND_CUDA)"

definition lanes_fns :: "(isa \<Rightarrow> bool) \<Rightarrow> lanes_fn option list" where
  "lanes_fns have = map ce_lfn (VB_FOR_EACH_KERNEL have)"

text \<open>\<open>resolve_lanes\<close> with the calls it makes: a row's lane function is called only behind its
  availability check.  \<open>calls\<close> collects the rows whose function ran.\<close>

definition resolve_lanes ::
  "(avail_fn \<Rightarrow> bool) \<Rightarrow> (lanes_fn \<Rightarrow> nat) \<Rightarrow> lanes_fn option list \<Rightarrow> vb_kernel list
    \<Rightarrow> vb_kernel list \<times> nat list" where
  "resolve_lanes avail lanes_of fns ks =
    fold (\<lambda>i (ks, calls).
      case fns ! i of None \<Rightarrow> (ks, calls)
      | Some f \<Rightarrow> if avail (k_available (ks ! i))
                  then (ks[i := (ks ! i)\<lparr>k_lanes := lanes_of f\<rparr>], calls @ [i])
                  else (ks, calls))
      [0..<length fns] (ks, [])"

definition vb_kernels :: "(isa \<Rightarrow> bool) \<Rightarrow> (avail_fn \<Rightarrow> bool) \<Rightarrow> (lanes_fn \<Rightarrow> nat) \<Rightarrow> vb_kernel list" where
  "vb_kernels have avail lanes_of = fst (resolve_lanes avail lanes_of (lanes_fns have) (kernels have))"

text \<open>bench.c decides by the group size; the product is an unsigned, its factors at most 64 and 8.\<close>

definition VB_BATCH_LCM :: nat where "VB_BATCH_LCM = 768"

definition vb_batch_divides :: "vb_kernel \<Rightarrow> bool" where
  "vb_batch_divides k =
    (let group = k_lanes k * k_streams k
     in if group = 0 then False else VB_BATCH_LCM mod group = 0)"


section \<open>The resolved table\<close>

definition resolve_row ::
  "(avail_fn \<Rightarrow> bool) \<Rightarrow> (lanes_fn \<Rightarrow> nat) \<Rightarrow> lanes_fn option \<Rightarrow> vb_kernel \<Rightarrow> vb_kernel" where
  "resolve_row avail lanes_of fn k =
    (case fn of None \<Rightarrow> k | Some f \<Rightarrow> if avail (k_available k) then k\<lparr>k_lanes := lanes_of f\<rparr> else k)"

lemma resolve_upto:
  assumes "n \<le> length ks" "n \<le> length fns"
  shows "fold (\<lambda>i (ks, calls).
      case fns ! i of None \<Rightarrow> (ks, calls)
      | Some f \<Rightarrow> if avail (k_available (ks ! i))
                  then (ks[i := (ks ! i)\<lparr>k_lanes := lanes_of f\<rparr>], calls @ [i])
                  else (ks, calls))
      [0..<n] (ks, [])
    = (map (\<lambda>i. resolve_row avail lanes_of (fns ! i) (ks ! i)) [0..<n] @ drop n ks,
       filter (\<lambda>i. fns ! i \<noteq> None \<and> avail (k_available (ks ! i))) [0..<n])"
  using assms
proof (induction n)
  case (Suc n)
  have d: "drop n ks = ks ! n # drop (Suc n) ks" using Suc.prems by (simp add: Cons_nth_drop_Suc)
  have at: "(map (\<lambda>i. resolve_row avail lanes_of (fns ! i) (ks ! i)) [0..<n] @ drop n ks) ! n = ks ! n"
    using Suc.prems by (simp add: nth_append)
  have upd: "(map (\<lambda>i. resolve_row avail lanes_of (fns ! i) (ks ! i)) [0..<n] @ drop n ks)[n := x]
      = map (\<lambda>i. resolve_row avail lanes_of (fns ! i) (ks ! i)) [0..<n] @ x # drop (Suc n) ks" for x
    by (simp add: d list_update_append)
  show ?case
    using Suc at upd
    by (cases "fns ! n") (auto simp: resolve_row_def d)
qed simp

lemma length_kernels: "length (lanes_fns have) \<le> length (kernels have)"
  by (simp add: lanes_fns_def kernels_def)

text \<open>The two tables are expanded from one matrix, so row \<open>i\<close> of one belongs to row \<open>i\<close> of the other.\<close>

lemma vb_kernels_rows:
  "vb_kernels have avail lanes_of =
     map (\<lambda>c. resolve_row avail lanes_of (ce_lfn c) (VB_ROW_KERNEL c)) (VB_FOR_EACH_KERNEL have) @
     dev_rows (VB_DEV_ROW ''ocl'' ''OpenCL'' have_opencl VB_BACKEND_OPENCL) @
     dev_rows (VB_DEV_ROW ''cuda'' ''CUDA'' have_cuda VB_BACKEND_CUDA)"
proof -
  let ?n = "length (lanes_fns have)"
  let ?C = "VB_FOR_EACH_KERNEL have"
  have n: "?n = length ?C" by (simp add: lanes_fns_def)
  have "map (\<lambda>i. resolve_row avail lanes_of (lanes_fns have ! i) (kernels have ! i)) [0..<?n]
      = map (\<lambda>c. resolve_row avail lanes_of (ce_lfn c) (VB_ROW_KERNEL c)) ?C"
    by (rule nth_equalityI) (simp_all add: lanes_fns_def kernels_def nth_append)
  moreover have "drop ?n (kernels have) =
     dev_rows (VB_DEV_ROW ''ocl'' ''OpenCL'' have_opencl VB_BACKEND_OPENCL) @
     dev_rows (VB_DEV_ROW ''cuda'' ''CUDA'' have_cuda VB_BACKEND_CUDA)"
    by (simp add: n kernels_def)
  ultimately show ?thesis
    by (simp add: vb_kernels_def resolve_lanes_def resolve_upto[OF length_kernels order_refl])
qed

lemma matrix_cells:
  "c \<in> set (VB_FOR_EACH_KERNEL have) \<Longrightarrow>
     ce_streams c \<in> {1, 2, 3, 4, 6, 8} \<and>
     (ce_lanes c \<in> {1, 2, 4, 8, 16} \<and> ce_lfn c = None \<or> ce_lanes c = 0 \<and> ce_lfn c \<noteq> None)"
  by (auto simp: VB_FOR_EACH_KERNEL_def VB_ISA_SCALAR_def VB_ISA_SSE2_def VB_ISA_AVX2_def VB_ISA_AVX512_def
      VB_ISA_SHANI_def VB_ISA_NEON_def VB_ISA_SVE_def VB_ISA_SVE2_def VB_FOR_ALGS_def VB_FOR_STREAMS_def
      VB_FOR_STREAMS4_def split: if_splits)

lemma dev_row_cases:
  "k \<in> set (dev_rows (VB_DEV_ROW token isaname avail backend)) \<Longrightarrow>
     \<exists>a st. k = VB_DEV_ROW token isaname avail backend a st \<and> st \<in> {1, 2, 3, 4}"
  by (auto simp: dev_rows_def)

text \<open>C15: in every build, every kernel of a fixed width tiles the batch, so that the checksum covers
  the same messages whichever kernel ran; a kernel whose width only the hardware knows tiles it
  whenever the width divides 32, and keeps the group size 0, which the test refuses, where its
  instruction set is missing.\<close>

theorem registry_tiles_batch:
  assumes "k \<in> set (vb_kernels have avail lanes_of)"
  shows "(\<not> k_lanes_runtime k \<longrightarrow> vb_batch_divides k) \<and>
    (k_lanes_runtime k \<and> avail (k_available k) \<and> k_lanes k dvd 32 \<longrightarrow> vb_batch_divides k) \<and>
    (k_lanes_runtime k \<and> \<not> avail (k_available k) \<longrightarrow> k_lanes k = 0 \<and> \<not> vb_batch_divides k)"
proof -
  have div: "l \<in> {1, 2, 4, 8, 16, 32} \<Longrightarrow> st \<in> {1, 2, 3, 4, 6, 8} \<Longrightarrow> l * st \<noteq> 0 \<and> 768 mod (l * st) = 0"
    for l st :: nat by auto
  have d32: "l \<in> {1, 2, 4, 8, 16, 32}" if "l dvd 32" for l :: nat
  proof -
    have "l \<le> 32" using that by (intro dvd_imp_le) auto
    with that show ?thesis
      by (auto simp: le_Suc_eq eval_nat_numeral dvd_def) presburger+
  qed
  consider (cpu) c where "c \<in> set (VB_FOR_EACH_KERNEL have)" "k = resolve_row avail lanes_of (ce_lfn c) (VB_ROW_KERNEL c)"
    | (dev) token isaname av backend a st where "k = VB_DEV_ROW token isaname av backend a st" "st \<in> {1, 2, 3, 4}"
    using assms unfolding vb_kernels_rows by (auto dest!: dev_row_cases)
  then show ?thesis
  proof cases
    case cpu
    show ?thesis
    proof (cases "ce_lfn c")
      case None
      then have "ce_lanes c \<in> {1, 2, 4, 8, 16, 32}" "ce_streams c \<in> {1, 2, 3, 4, 6, 8}" using matrix_cells[OF cpu(1)] by auto
      then have "vb_batch_divides k" "\<not> k_lanes_runtime k"
        using div[of "ce_lanes c" "ce_streams c"] cpu(2) None
        by (simp_all add: vb_batch_divides_def Let_def resolve_row_def VB_ROW_KERNEL_def VB_BATCH_LCM_def)
      then show ?thesis by simp
    next
      case (Some f)
      then have z: "ce_lanes c = 0" and st: "ce_streams c \<in> {1, 2, 3, 4, 6, 8}" using matrix_cells[OF cpu(1)] by auto
      have k: "k_lanes_runtime k" "k_streams k = ce_streams c" "k_available k = ce_avail c"
        "\<not> avail (k_available k) \<Longrightarrow> k_lanes k = 0"
        using cpu(2) Some z by (auto simp: resolve_row_def VB_ROW_KERNEL_def)
      then show ?thesis
        using div[OF d32 st] by (auto simp: vb_batch_divides_def Let_def VB_BATCH_LCM_def)
    qed
  next
    case dev
    then show ?thesis by (auto simp: VB_DEV_ROW_def vb_batch_divides_def VB_OCL_LANES_def VB_BATCH_LCM_def)
  qed
qed

lemma registry_tiles_batch_witness:
  "\<exists>k \<in> set (vb_kernels (\<lambda>_. True) (\<lambda>_. True) (\<lambda>_. 8)). k_name k = ''md5/sve2-s6'' \<and> vb_batch_divides k"
proof -
  let ?c = "\<lparr>ce_alg = VB_ALG_MD5, ce_isa = SVE2, ce_streams = 6, ce_isaname = ''SVE2'', ce_avail = has_isa SVE2,
     ce_lanes = 0, ce_lfn = Some SveLanes32\<rparr>"
  let ?k = "(VB_ROW_KERNEL ?c)\<lparr>k_lanes := 8\<rparr>"
  have "?c \<in> set (VB_FOR_EACH_KERNEL (\<lambda>_. True))"
    by (simp add: VB_FOR_EACH_KERNEL_def VB_ISA_SVE2_def VB_FOR_ALGS_def VB_FOR_STREAMS_def)
  moreover have "?k = resolve_row (\<lambda>_. True) (\<lambda>_. 8) (ce_lfn ?c) (VB_ROW_KERNEL ?c)"
    by (simp add: resolve_row_def)
  ultimately have k: "?k \<in> set (vb_kernels (\<lambda>_. True) (\<lambda>_. True) (\<lambda>_. 8))"
    unfolding vb_kernels_rows set_append set_map by (intro UnI1 image_eqI)
  moreover have "k_name ?k = ''md5/sve2-s6''"
    by (simp add: VB_ROW_KERNEL_def VB_KNAME_def alg_token_def isa_token_def dec.simps digit_char_def char_of_def bit_0)
  moreover have "vb_batch_divides ?k"
    using registry_tiles_batch[OF k] by (simp add: VB_ROW_KERNEL_def)
  ultimately show ?thesis by blast
qed


section \<open>Names\<close>

lemma split_at: "c \<notin> set xs \<Longrightarrow> c \<notin> set ys \<Longrightarrow> xs @ c # us = ys @ c # vs \<longleftrightarrow> xs = ys \<and> us = vs"
proof (induction xs arbitrary: ys)
  case Nil
  then show ?case by (cases ys) auto
next
  case (Cons x xs)
  then show ?case by (cases ys) auto
qed

lemma kname_inject:
  assumes "CHR ''/'' \<notin> set a" "CHR ''/'' \<notin> set a'" "CHR ''-'' \<notin> set i" "CHR ''-'' \<notin> set i'"
  shows "VB_KNAME a i st = VB_KNAME a' i' st' \<longleftrightarrow> a = a' \<and> i = i' \<and> st = st'"
  using assms split_at[of "CHR ''/''" a a'] split_at[of "CHR ''-''" i i']
  by (auto simp: VB_KNAME_def)

lemma distinct_tagged:
  "distinct (map fst ps) \<Longrightarrow> (\<And>t xs x. (t, xs) \<in> set ps \<Longrightarrow> x \<in> set xs \<Longrightarrow> f x = t) \<Longrightarrow>
     (\<And>t xs. (t, xs) \<in> set ps \<Longrightarrow> distinct xs) \<Longrightarrow> distinct (concat (map snd ps))"
proof (induction ps)
  case (Cons p ps)
  obtain t xs where p: "p = (t, xs)" by fastforce
  have "set xs \<inter> set (concat (map snd ps)) = {}"
  proof (rule ccontr)
    assume "set xs \<inter> set (concat (map snd ps)) \<noteq> {}"
    then obtain x q where x: "x \<in> set xs" "q \<in> set ps" "x \<in> set (snd q)" by auto
    then have "f x = t" "f x = fst q"
      using Cons.prems(2)[of t xs x] Cons.prems(2)[of "fst q" "snd q" x] p by auto
    then show False using Cons.prems(1) x(2) p by force
  qed
  moreover have "distinct (concat (map snd ps))"
  proof (rule Cons.IH)
    show "distinct (map fst ps)" using Cons.prems(1) by simp
    show "f x = t" if "(t, xs) \<in> set ps" "x \<in> set xs" for t xs x
      using Cons.prems(2)[of t xs x] that by simp
    show "distinct xs" if "(t, xs) \<in> set ps" for t xs
      using Cons.prems(3)[of t xs] that by simp
  qed
  moreover have "distinct xs" using Cons.prems(3)[of t xs] p by simp
  ultimately show ?case using p by simp
qed simp

text \<open>The keys the names are printed from, block by block.\<close>

definition cell_key :: "cell \<Rightarrow> vb_alg_id \<times> string \<times> nat" where
  "cell_key c = (ce_alg c, isa_token (ce_isa c), ce_streams c)"

definition dev_keys :: "string \<Rightarrow> (vb_alg_id \<times> string \<times> nat) list" where
  "dev_keys token = concat (map (\<lambda>a. map (\<lambda>st. (a, token, st)) [1, 2, 3, 4]) [VB_ALG_MD5, VB_ALG_SHA1, VB_ALG_SHA512])"

definition key_blocks :: "(isa \<Rightarrow> bool) \<Rightarrow> (string \<times> (vb_alg_id \<times> string \<times> nat) list) list" where
  "key_blocks have = [
     (''scalar'', map cell_key VB_ISA_SCALAR), (''sse2'', map cell_key (VB_ISA_SSE2 (have SSE2))),
     (''avx2'', map cell_key (VB_ISA_AVX2 (have AVX2))), (''avx512'', map cell_key (VB_ISA_AVX512 (have AVX512))),
     (''shani'', map cell_key (VB_ISA_SHANI (have SHANI))), (''neon'', map cell_key (VB_ISA_NEON (have NEON))),
     (''sve'', map cell_key (VB_ISA_SVE (have SVE))), (''sve2'', map cell_key (VB_ISA_SVE2 (have SVE2))),
     (''ocl'', dev_keys ''ocl''), (''cuda'', dev_keys ''cuda'')]"

lemma kernel_names:
  "map k_name (vb_kernels have avail lanes_of)
    = map (\<lambda>(a, t, st). VB_KNAME (alg_token a) t st) (concat (map snd (key_blocks have)))"
proof -
  have "k_name (resolve_row avail lanes_of (ce_lfn c) (VB_ROW_KERNEL c)) = k_name (VB_ROW_KERNEL c)" for c
    by (simp add: resolve_row_def split: option.split)
  then show ?thesis
    by (simp add: vb_kernels_rows VB_FOR_EACH_KERNEL_def key_blocks_def comp_def VB_ROW_KERNEL_def cell_key_def
        dev_rows_def dev_keys_def VB_DEV_ROW_def)
qed

lemma key_block_facts:
  "(t, xs) \<in> set (key_blocks have) \<Longrightarrow> distinct xs \<and> (\<forall>x \<in> set xs. fst (snd x) = t)"
  by (auto simp: key_blocks_def VB_ISA_SCALAR_def VB_ISA_SSE2_def VB_ISA_AVX2_def VB_ISA_AVX512_def VB_ISA_SHANI_def
      VB_ISA_NEON_def VB_ISA_SVE_def VB_ISA_SVE2_def VB_FOR_ALGS_def VB_FOR_STREAMS_def VB_FOR_STREAMS4_def
      cell_key_def isa_token_def dev_keys_def)

lemma token_no_dash: "t \<in> set (map fst (key_blocks have)) \<Longrightarrow> CHR ''-'' \<notin> set t"
  by (auto simp: key_blocks_def)

text \<open>In every build and on every machine no two kernels have the same name, so that choosing a
  kernel by name is never ambiguous.\<close>

lemma registry_names_unique:
  "distinct (map k_name (vb_kernels have avail lanes_of))"
proof -
  have tags: "distinct (map fst (key_blocks have))" by (simp add: key_blocks_def)
  have keys: "distinct (concat (map snd (key_blocks have)))"
    using distinct_tagged[of "key_blocks have" "\<lambda>x. fst (snd x)"] tags key_block_facts by blast
  have "fst (snd x) \<in> set (map fst (key_blocks have))" if "x \<in> set (concat (map snd (key_blocks have)))" for x :: "vb_alg_id \<times> string \<times> nat"
  proof -
    from that obtain p where p: "p \<in> set (key_blocks have)" "x \<in> set (snd p)" by auto
    then have "fst (snd x) = fst p" using key_block_facts[of "fst p" "snd p"] by simp
    then show ?thesis using p(1) by simp
  qed
  then have tok: "CHR ''-'' \<notin> set (fst (snd x))" if "x \<in> set (concat (map snd (key_blocks have)))" for x
    using token_no_dash that by blast
  have alg: "CHR ''/'' \<notin> set (alg_token a)" "alg_token a = alg_token b \<longleftrightarrow> a = b" for a b
    by (cases a; cases b; simp add: alg_token_def)+
  have "inj_on (\<lambda>(a, t, st). VB_KNAME (alg_token a) t st) (set (concat (map snd (key_blocks have))))"
  proof (rule inj_onI)
    fix x y assume x: "x \<in> set (concat (map snd (key_blocks have)))" and y: "y \<in> set (concat (map snd (key_blocks have)))"
      and eq: "(case x of (a, t, st) \<Rightarrow> VB_KNAME (alg_token a) t st) = (case y of (a, t, st) \<Rightarrow> VB_KNAME (alg_token a) t st)"
    obtain a t st b u sv where xy: "x = (a, t, st)" "y = (b, u, sv)" by (cases x, cases y)
    have "CHR ''-'' \<notin> set t" "CHR ''-'' \<notin> set u" using tok[OF x] tok[OF y] xy by simp_all
    from kname_inject[OF alg(1)[of a] alg(1)[of b] this, of st sv] show "x = y"
      using eq alg(2) xy by simp
  qed
  then show ?thesis unfolding kernel_names using keys by (simp add: distinct_map)
qed

text \<open>A lane function, compiled with the flags of its instruction set, is called only for rows
  whose availability check has passed, and only rows of the matrix that have one change.\<close>

lemma lane_functions_guarded:
  "snd (resolve_lanes avail lanes_of (lanes_fns have) (kernels have))
     = filter (\<lambda>i. lanes_fns have ! i \<noteq> None \<and> avail (k_available (kernels have ! i))) [0..<length (lanes_fns have)] \<and>
   vb_kernels have avail lanes_of =
     map (\<lambda>c. resolve_row avail lanes_of (ce_lfn c) (VB_ROW_KERNEL c)) (VB_FOR_EACH_KERNEL have) @
     drop (length (lanes_fns have)) (kernels have)"
  by (simp add: resolve_lanes_def resolve_upto[OF length_kernels order_refl] vb_kernels_rows)
    (simp add: kernels_def lanes_fns_def)

end
