(* ===== verification/Bench_Config.thy ===== *)
theory Bench_Config
  imports Complex_Main Reference Registry
begin

text \<open>
  The configuration of a run (include/bench.h) and the parts of src/bench.c that only read it or
  the machine: the defaults, the CPUs a process may use and how that answer is cached, and the
  size of the batch.  Clock, affinity and CPU count are answers of the system and arguments here.
\<close>

section \<open>Constants and enumerations\<close>

definition VB_MAX_SAMPLES :: nat where "VB_MAX_SAMPLES = 256"
definition VB_MAX_THREADS :: nat where "VB_MAX_THREADS = 1024"
definition VB_DEV_MAX :: nat where "VB_DEV_MAX = 32"
definition VB_DEFAULT_MSG_BYTES :: nat where "VB_DEFAULT_MSG_BYTES = 55"

datatype vb_transfer_mode = VB_TRANSFER_RESIDENT | VB_TRANSFER_STREAM | VB_TRANSFER_OVERLAP

datatype vb_host_memory = VB_HOST_PINNED | VB_HOST_PAGEABLE

datatype vb_where = VB_WHERE_ANY | VB_WHERE_CPU | VB_WHERE_DEVICE

datatype vb_compile_mode = VB_COMPILE_PTX_JIT | VB_COMPILE_CUBIN


section \<open>The configuration\<close>

text \<open>Milliseconds, counts and sizes are the naturals the unsigned fields hold.  A pointer that may
  be NULL is an option; the threshold, a double, is a rational.\<close>

record vb_config =
  cf_target_ms :: nat
  cf_n_samples :: nat
  cf_warmup_ms :: nat
  cf_threads :: nat
  cf_iterations :: nat
  cf_message_bytes :: nat
  cf_alg :: vb_algorithm
  cf_working_set_kb :: nat
  cf_device_index :: "int list"
  cf_device_count :: nat
  cf_primitives_neutral :: bool
  cf_dump_dir :: "string option"
  cf_pin_global :: nat
  cf_pin_local :: nat
  cf_compile_mode :: vb_compile_mode
  cf_compile_mode_given :: bool
  cf_import_ptx :: "string option"
  cf_backend_mask :: u32
  cf_transfer :: vb_transfer_mode
  cf_host_memory :: vb_host_memory
  cf_pipeline_chunks :: nat
  cf_where :: vb_where
  cf_cov_threshold :: rat
  cf_pin_cpu :: bool
  cf_force_kernel :: "string option"
  cf_expected :: "checksum"
  cf_have_expected :: bool

definition vb_config_defaults :: vb_config where
  "vb_config_defaults =
    \<lparr>cf_target_ms = 100, cf_n_samples = 10, cf_warmup_ms = 300, cf_threads = 0, cf_iterations = 1,
     cf_message_bytes = VB_DEFAULT_MSG_BYTES, cf_alg = the (vb_algorithm_by_id 0),
     cf_working_set_kb = 1024, cf_device_index = replicate VB_DEV_MAX 0, cf_device_count = 0,
     cf_primitives_neutral = False, cf_dump_dir = None, cf_pin_global = 0, cf_pin_local = 0,
     cf_compile_mode = VB_COMPILE_PTX_JIT, cf_compile_mode_given = False, cf_import_ptx = None,
     cf_backend_mask = 0, cf_transfer = VB_TRANSFER_RESIDENT,
     cf_host_memory = VB_HOST_PINNED, cf_pipeline_chunks = 0, cf_where = VB_WHERE_ANY,
     cf_cov_threshold = 7 / 2, cf_pin_cpu = True, cf_force_kernel = None,
     cf_expected = replicate VB_MAX_DIGEST_WORDS 0, cf_have_expected = False\<rparr>"


section \<open>CPUs\<close>

definition vb_online_cpus :: "int \<Rightarrow> nat" where
  "vb_online_cpus n = (if n < 1 then 1 else if n > int VB_MAX_THREADS then VB_MAX_THREADS else nat n)"

text \<open>What the system answers about CPUs: the affinity mask of the calling thread at the moment of
  the call, unless it cannot be read, and the number of CPUs online.\<close>

definition CPU_SETSIZE :: nat where "CPU_SETSIZE = 1024"

definition vb_self_cpu_mask :: "(nat \<Rightarrow> bool) option \<Rightarrow> nat \<Rightarrow> int list option" where
  "vb_self_cpu_mask affinity limit =
    (case affinity of None \<Rightarrow> None
     | Some cpuset \<Rightarrow> Some (fold (\<lambda>cpu out. if length out < limit \<and> cpuset cpu then out @ [int cpu] else out)
                           [0..<CPU_SETSIZE] []))"

text \<open>The static cache of \<open>vb_allowed_cpus\<close> is the state: absent until the first call that asks for
  at least one CPU.\<close>

type_synonym cpu_cache = "int list option"

definition read_allowed :: "(nat \<Rightarrow> bool) option \<Rightarrow> int \<Rightarrow> int list" where
  "read_allowed affinity online =
    (case vb_self_cpu_mask affinity VB_MAX_THREADS of
       None \<Rightarrow> map int [0..<min (vb_online_cpus online) VB_MAX_THREADS]
     | Some cpus \<Rightarrow> if cpus = [] then [0] else cpus)"

definition vb_allowed_cpus :: "(nat \<Rightarrow> bool) option \<Rightarrow> int \<Rightarrow> nat \<Rightarrow> cpu_cache \<Rightarrow> int list \<times> cpu_cache" where
  "vb_allowed_cpus affinity online limit cache =
    (if limit = 0 then ([], cache)
     else
       let cached = (case cache of None \<Rightarrow> read_allowed affinity online | Some c \<Rightarrow> c);
           n = (if length cached < limit then length cached else limit)
       in (take n cached, Some cached))"

definition vb_default_threads :: "(nat \<Rightarrow> bool) option \<Rightarrow> int \<Rightarrow> cpu_cache \<Rightarrow> nat \<times> cpu_cache" where
  "vb_default_threads affinity online cache =
    (let (cpus, cache') = vb_allowed_cpus affinity online VB_MAX_THREADS cache;
         n = length cpus
     in (if n \<noteq> 0 then n else 1, cache'))"


section \<open>The batch\<close>

definition vb_batch_messages :: "vb_config \<Rightarrow> nat" where
  "vb_batch_messages cfg =
    (let padded = unat (vb_alg_blocks_for (cf_alg cfg) (of_nat (cf_message_bytes cfg)))
                    * block_bytes (cf_alg cfg);
         target = cf_working_set_kb cfg * 1024;
         n = (if padded \<noteq> 0 then target div padded else 0);
         n = n div VB_BATCH_LCM * VB_BATCH_LCM
     in if n < VB_BATCH_LCM then VB_BATCH_LCM else n)"



section \<open>What the CPU list is\<close>

lemma cpu_scan:
  "fold (\<lambda>cpu out. if length out < limit \<and> cpuset cpu then out @ [int cpu] else out) [0..<n] []
    = take limit (map int (filter cpuset [0..<n]))"
  by (induction n) (auto simp: min_def)

lemma cpu_mask_scan:
  "vb_self_cpu_mask (Some cpuset) limit = Some (take limit (map int (filter cpuset [0..<CPU_SETSIZE])))"
  by (simp only: vb_self_cpu_mask_def option.case cpu_scan)

lemma sorted_wrt_int_upt: "sorted_wrt (<) (map int (filter P [0..<n]))"
  by (simp add: sorted_wrt_map sorted_wrt_filter)

lemma read_allowed_ascending: "sorted_wrt (<) (read_allowed affinity online)"
proof (cases affinity)
  case None
  then show ?thesis
    by (simp add: read_allowed_def vb_self_cpu_mask_def sorted_wrt_map del: upt_Suc)
next
  case (Some cpuset)
  then show ?thesis
    using sorted_wrt_take[OF sorted_wrt_int_upt[of cpuset CPU_SETSIZE]]
    by (simp add: read_allowed_def cpu_mask_scan)
qed

lemma read_allowed_nonempty: "read_allowed affinity online \<noteq> []"
  by (auto simp: read_allowed_def vb_online_cpus_def VB_MAX_THREADS_def split: option.splits)

lemma read_allowed_length: "length (read_allowed affinity online) \<le> VB_MAX_THREADS"
  by (cases affinity)
    (auto simp: read_allowed_def vb_self_cpu_mask_def cpu_scan VB_MAX_THREADS_def simp del: upt_Suc)

text \<open>A cache is either empty or holds what one of the calls read.\<close>

definition cache_ok :: "cpu_cache \<Rightarrow> bool" where
  "cache_ok cache = (case cache of None \<Rightarrow> True
     | Some c \<Rightarrow> c \<noteq> [] \<and> length c \<le> VB_MAX_THREADS \<and> sorted_wrt (<) c)"

lemma take_upto: "take (if length xs < n then length xs else n) xs = take n xs"
  by simp

lemma allowed_cache:
  "cache_ok cache \<Longrightarrow> cache_ok (snd (vb_allowed_cpus affinity online limit cache))"
  using read_allowed_nonempty read_allowed_length read_allowed_ascending
  by (auto simp: vb_allowed_cpus_def cache_ok_def Let_def split: option.splits)

lemma allowed_cpus_facts:
  fixes affinity online
  assumes "cache_ok cache" "0 < limit"
  defines "cpus \<equiv> fst (vb_allowed_cpus affinity online limit cache)"
  shows "cpus \<noteq> []" "length cpus \<le> limit" "distinct cpus"
proof -
  obtain c where c: "cpus = take limit c" "c \<noteq> []" "sorted_wrt (<) c"
    using assms read_allowed_nonempty read_allowed_ascending
    unfolding cpus_def vb_allowed_cpus_def Let_def take_upto
    by (cases cache) (auto simp: cache_ok_def)
  then show "cpus \<noteq> []" "length cpus \<le> limit" using assms(2) by auto
  show "distinct cpus"
    using sorted_wrt_take[OF c(3)] strict_sorted_iff unfolding c(1) by blast
qed


section \<open>Properties\<close>

text \<open>The answer about the permitted CPUs does not depend on when it is asked.  Whatever
  pinning has since done to the mask of the calling thread, every call after the first one that
  asked for at least one CPU answers from the same list, cut to the caller's array.\<close>

lemma allowed_cpus_stable:
  assumes "0 < limit"
    and "vb_allowed_cpus affinity online limit cache = (cpus, cache')"
    and "vb_allowed_cpus affinity2 online2 limit2 cache' = (cpus2, cache2)"
  shows "cache2 = cache' \<and> (limit \<le> limit2 \<longrightarrow> take limit cpus2 = cpus) \<and> (limit2 \<le> limit \<longrightarrow> cpus2 = take limit2 cpus)"
  using assms by (auto simp: vb_allowed_cpus_def Let_def split: if_splits)

lemma allowed_cpus_stable_witness:
  "vb_allowed_cpus (Some (\<lambda>c. c = 0)) 8 1024 (Some [4, 6, 8, 10]) = ([4, 6, 8, 10], Some [4, 6, 8, 10])
   \<and> take 3 [4, 6, 8, 10] = [4, 6, 8 :: int]"
proof -
  have a: "vb_allowed_cpus (Some (\<lambda>c. c = 4 \<or> c = 6 \<or> c = 8 \<or> c = 10)) 8 3 (Some [4, 6, 8, 10])
      = ([4, 6, 8], Some [4, 6, 8, 10])"
    by (simp add: vb_allowed_cpus_def)
  have b: "vb_allowed_cpus (Some (\<lambda>c. c = 0)) 8 1024 (Some [4, 6, 8, 10]) = ([4, 6, 8, 10], Some [4, 6, 8, 10])"
    by (simp add: vb_allowed_cpus_def Let_def)
  show ?thesis using allowed_cpus_stable[OF _ a b] b by simp
qed

text \<open>C24: the batch is a positive whole number of groups for every kernel that tiles it, fits the
  requested working set unless even the smallest batch does not, and one more unit of 768 messages
  would exceed the request.\<close>

theorem batch_messages_fit:
  assumes "cf_alg cfg \<in> set ALGS" "cf_message_bytes cfg \<le> VB_MAX_MSG_BYTES"
  shows "0 < vb_batch_messages cfg
    \<and> (vb_batch_divides k \<longrightarrow> k_lanes k * k_streams k dvd vb_batch_messages cfg)
    \<and> (vb_batch_messages cfg = VB_BATCH_LCM
       \<or> vb_batch_messages cfg * (blocks_needed (cf_alg cfg) (cf_message_bytes cfg) * block_bytes (cf_alg cfg))
          \<le> cf_working_set_kb cfg * 1024)
    \<and> cf_working_set_kb cfg * 1024
        < (vb_batch_messages cfg + VB_BATCH_LCM)
          * (blocks_needed (cf_alg cfg) (cf_message_bytes cfg) * block_bytes (cf_alg cfg))"
proof -
  define p where "p = blocks_needed (cf_alg cfg) (cf_message_bytes cfg) * block_bytes (cf_alg cfg)"
  define T where "T = cf_working_set_kb cfg * 1024"
  define q where "q = T div p div VB_BATCH_LCM"
  have p: "0 < p" using assms(1)
    by (elim known_alg_cases) (auto simp: p_def blocks_needed_def alg_defs)
  have n: "vb_batch_messages cfg = max VB_BATCH_LCM (q * VB_BATCH_LCM)"
    using p by (auto simp: vb_batch_messages_def blocks_for_nat[OF assms] p_def T_def q_def Let_def max_def)
  have q: "q = T div (p * VB_BATCH_LCM)" by (simp add: q_def div_mult2_eq)
  have "q * (p * VB_BATCH_LCM) \<le> T" by (simp add: q)
  then have "q * VB_BATCH_LCM * p \<le> T" by (simp add: mult.commute mult.left_commute)
  moreover have "T < p * VB_BATCH_LCM + q * (p * VB_BATCH_LCM)"
    unfolding q by (rule dividend_less_div_times) (use p in \<open>simp add: VB_BATCH_LCM_def\<close>)
  then have "T < (q + 1) * VB_BATCH_LCM * p" by (simp add: algebra_simps)
  moreover have "(q + 1) * VB_BATCH_LCM \<le> vb_batch_messages cfg + VB_BATCH_LCM"
    by (simp add: n)
  then have "(q + 1) * VB_BATCH_LCM * p \<le> (vb_batch_messages cfg + VB_BATCH_LCM) * p"
    by (rule mult_right_mono) simp
  ultimately have fit: "vb_batch_messages cfg = VB_BATCH_LCM \<or> vb_batch_messages cfg * p \<le> T"
    "T < (vb_batch_messages cfg + VB_BATCH_LCM) * p"
    by (auto simp only: n max_def split: if_splits intro: less_le_trans)
  have "VB_BATCH_LCM dvd vb_batch_messages cfg" by (simp add: n max_def)
  then have "vb_batch_divides k \<longrightarrow> k_lanes k * k_streams k dvd vb_batch_messages cfg"
    by (auto simp: vb_batch_divides_def Let_def split: if_splits intro: dvd_trans)
  then show ?thesis using fit n by (simp add: p_def T_def VB_BATCH_LCM_def)
qed

lemma batch_messages_fit_witness:
  "vb_batch_messages vb_config_defaults = VB_BATCH_LCM
   \<or> vb_batch_messages vb_config_defaults * 64 \<le> 1024 * 1024"
  using batch_messages_fit[of vb_config_defaults]
  by (simp add: vb_config_defaults_def vb_algorithm_by_id_def ALGS_def alg_defs blocks_needed_def
      VB_DEFAULT_MSG_BYTES_def VB_MAX_MSG_BYTES_def)

end
