(* ===== verification/Pool.thy ===== *)
theory Pool
  imports Bench_Config
begin

text \<open>
  The worker pool of src/bench.c: \<open>pool_create\<close> cuts the corpus into one slice per worker,
  \<open>pool_run\<close> has every worker hash its slice and compare, \<open>pool_destroy\<close> takes the pool down.
  A kernel is a parameter: worker \<open>i\<close>'s call number \<open>r\<close> of a run may answer anything, as faulty
  hardware would, so that what is proved of a run that reports success holds for every machine.
  What the pool asks of the system (pinning, masks, threads, memory) is an environment record,
  and the effects it has there are a list of events in the order of the code.  \<open>pe_msg_ok i\<close> says
  whether worker \<open>i\<close>'s own reference got the memory for its message; \<open>pe_save_ok\<close> and \<open>pe_restore_ok\<close>
  whether the driver's CPU mask could be read and was accepted again, \<open>Restore_mask\<close> carries that
  answer, and \<open>Mask_warning\<close> is the line on stderr that a refusal prints.

  The workers' own steps up to the start barrier are \<open>worker_setup\<close>; the interleaving of the
  threads through gate and barriers is the subject of theory Pool_Threads.
\<close>

section \<open>State\<close>

type_synonym kernel_fn = "u64 list \<Rightarrow> nat \<Rightarrow> nat \<Rightarrow> nat \<Rightarrow> checksum"

record vb_worker =
  w_cpu :: int
  w_corpus :: "u64 list"
  w_groups :: nat
  w_expected :: checksum
  w_checksum :: checksum
  w_ref_alg :: vb_algorithm
  w_ref_start :: u32
  w_ref_count :: nat
  w_ref_message_bytes :: nat
  w_ref_iterations :: nat
  w_ok :: bool
  w_ready :: bool

text \<open>\<open>w_ready\<close> is where the worker's thread stands: whether it has done what comes before its
  first barrier.  The array of workers is absent before allocation and after the free.\<close>

record vb_pool =
  p_n :: nat
  p_w :: "vb_worker list option"
  p_blocks :: nat
  p_iterations :: nat
  p_reps :: nat
  p_stop :: bool
  p_have_expected :: bool
  p_expected :: checksum
  p_gate :: int
  p_pin_failed :: bool
  p_pinned_cpus :: nat
  p_have_caller_mask :: bool

record pool_env =
  pe_calloc_ok :: bool
  pe_affinity :: "(nat \<Rightarrow> bool) option"
  pe_online :: int
  pe_pin_ok :: "int \<Rightarrow> bool"
  pe_pin_supported :: bool
  pe_save_ok :: bool
  pe_restore_ok :: bool
  pe_create_ok :: "nat \<Rightarrow> bool"
  pe_msg_ok :: "nat \<Rightarrow> bool"

datatype pool_event =
    Alloc_workers | Free_workers
  | Gate_init | Gate_destroy
  | Barriers_init nat | Barriers_destroy
  | Save_mask | Restore_mask bool | Mask_warning | Pin int
  | Create nat | Join nat | Set_gate int | Release_stop


section \<open>A worker\<close>

text \<open>\<open>pin_self\<close>: a negative CPU asks for no pin and is never refused.\<close>

definition pin_self :: "pool_env \<Rightarrow> int \<Rightarrow> bool" where
  "pin_self env cpu = (if cpu < 0 then True else pe_pin_ok env cpu)"

definition worker_reference :: "pool_env \<Rightarrow> nat \<Rightarrow> vb_pool \<Rightarrow> vb_worker \<Rightarrow> vb_worker" where
  "worker_reference env i p w =
    (if p_have_expected p then w
     else w\<lparr>w_expected := vb_reference_checksum (pe_msg_ok env i) (w_ref_alg w) (w_ref_start w)
              (w_ref_count w) (w_ref_message_bytes w) (w_ref_iterations w)\<rparr>)"

text \<open>One repetition of the loop of \<open>run_slice\<close> on the pair of the flag and the worker's
  \<open>checksum\<close>, and the loop, whose guard ends it at the first mismatch.\<close>

definition slice_rep :: "vb_pool \<Rightarrow> vb_worker \<Rightarrow> checksum \<Rightarrow> nat \<Rightarrow> bool \<times> checksum \<Rightarrow> bool \<times> checksum" where
  "slice_rep p w cs r st =
    (case st of (ok, checksum) \<Rightarrow>
       if p_have_expected p then
         (if r = 0 then (ok, cs) else if cs \<noteq> checksum then (False, checksum) else (ok, checksum))
       else if cs \<noteq> w_expected w then (False, checksum)
       else (ok, checksum))"

definition run_slice :: "vb_pool \<Rightarrow> (nat \<Rightarrow> kernel_fn) \<Rightarrow> vb_worker \<Rightarrow> vb_worker" where
  "run_slice p fn w =
    (let (ok, checksum) = fold (\<lambda>r st.
           if fst st then slice_rep p w (fn r (w_corpus w) (w_groups w) (p_blocks p) (p_iterations p)) r st
           else st) [0..<p_reps p] (True, w_checksum w)
     in w\<lparr>w_checksum := checksum, w_ok := ok\<rparr>)"

text \<open>What \<open>worker_main\<close> does between a gate that says go and its first barrier.\<close>

definition worker_setup :: "pool_env \<Rightarrow> nat \<Rightarrow> vb_pool \<Rightarrow> vb_pool" where
  "worker_setup env i p =
    (case p_w p of None \<Rightarrow> p
     | Some ws \<Rightarrow>
         if w_ready (ws ! i) then p
         else
           let p = (if \<not> pin_self env (w_cpu (ws ! i)) then p\<lparr>p_pin_failed := True\<rparr> else p)
           in p\<lparr>p_w := Some (ws[i := (worker_reference env i p (ws ! i))\<lparr>w_ready := True\<rparr>])\<rparr>)"


section \<open>Creating and destroying a pool\<close>

definition empty_worker :: vb_worker where
  "empty_worker = \<lparr>w_cpu = 0, w_corpus = [], w_groups = 0, w_expected = zero_checksum,
     w_checksum = zero_checksum, w_ref_alg = md5_alg, w_ref_start = 0, w_ref_count = 0,
     w_ref_message_bytes = 0, w_ref_iterations = 0, w_ok = False, w_ready = False\<rparr>"

definition pool_threads :: "nat \<Rightarrow> nat \<Rightarrow> nat" where
  "pool_threads threads total_groups =
    (let threads = (if threads > total_groups then total_groups else threads)
     in if threads < 1 then 1 else threads)"

definition slice_workers ::
  "vb_kernel \<Rightarrow> vb_config \<Rightarrow> vb_corpus \<Rightarrow> int list \<Rightarrow> nat \<Rightarrow> vb_worker list" where
  "slice_workers k cfg corpus allowed threads =
    (let group = k_lanes k * k_streams k;
         total_groups = c_n_messages corpus div group;
         base = total_groups div threads;
         extra = total_groups mod threads
     in snd (fold (\<lambda>i (off, ws).
          let first_msg = off * group;
              groups = base + (if i < extra then 1 else 0)
          in (off + groups, ws[i := (ws ! i)
               \<lparr>w_cpu := (if cf_pin_cpu cfg then allowed ! (i mod length allowed) else -1),
                w_groups := groups,
                w_corpus := drop (first_msg div c_lanes corpus * vb_corpus_slot_words corpus) (c_words corpus),
                w_ref_alg := cf_alg cfg,
                w_ref_start := c_start_index corpus + of_nat first_msg,
                w_ref_count := groups * group,
                w_ref_message_bytes := cf_message_bytes cfg,
                w_ref_iterations := cf_iterations cfg\<rparr>]))
        [0..<threads] (0, replicate threads empty_worker)))"

definition pinned_cpus :: "vb_worker list \<Rightarrow> nat" where
  "pinned_cpus ws =
    fold (\<lambda>i n. let j = length (takeWhile (\<lambda>j. w_cpu (ws ! j) \<noteq> w_cpu (ws ! i)) [0..<i])
                in if j = i then n + 1 else n) [0..<length ws] 0"

text \<open>\<open>pthread_create\<close> is called for worker 1, 2, ... until one fails: how many are live then, the
  driver counted, and whether one failed.\<close>

definition spawn :: "(nat \<Rightarrow> bool) \<Rightarrow> nat \<Rightarrow> nat \<times> bool" where
  "spawn starts threads =
    (let live = 1 + length (takeWhile starts [1..<threads])
     in (live, live < threads))"

text \<open>A refused restore is said on stderr, and nothing more is done about it.\<close>

definition restore_caller :: "pool_env \<Rightarrow> vb_pool \<Rightarrow> vb_pool \<times> pool_event list" where
  "restore_caller env p =
    (p\<lparr>p_have_caller_mask := False\<rparr>,
     if p_have_caller_mask p
     then Restore_mask (pe_restore_ok env) # (if \<not> pe_restore_ok env then [Mask_warning] else [])
     else [])"

text \<open>\<open>pool_create\<close> up to the first thread: allocation, slices, the count of distinct CPUs, gate and
  barriers, and the driver's own pin.  \<open>None\<close> when the workers could not be allocated.\<close>

definition pool_prepare ::
  "pool_env \<Rightarrow> cpu_cache \<Rightarrow> vb_kernel \<Rightarrow> vb_config \<Rightarrow> vb_corpus \<Rightarrow> nat \<Rightarrow>
    (vb_pool \<times> vb_worker list \<times> pool_event list) option \<times> cpu_cache" where
  "pool_prepare env cache k cfg corpus threads =
    (let p = \<lparr>p_n = threads, p_w = None, p_blocks = c_blocks corpus, p_iterations = cf_iterations cfg,
              p_reps = 0, p_stop = False, p_have_expected = cf_have_expected cfg,
              p_expected = cf_expected cfg, p_gate = 0, p_pin_failed = False, p_pinned_cpus = 0,
              p_have_caller_mask = False\<rparr>
     in if \<not> pe_calloc_ok env then (None, cache)
     else
       let (allowed, cache) = vb_allowed_cpus (pe_affinity env) (pe_online env) VB_MAX_THREADS cache;
           allowed = (if allowed = [] then [0] else allowed);
           ws = slice_workers k cfg corpus allowed threads;
           p = (if cf_pin_cpu cfg \<and> pe_pin_supported env then p\<lparr>p_pinned_cpus := pinned_cpus ws\<rparr> else p);
           ev = [Alloc_workers, Gate_init, Barriers_init threads];
           pins = 0 \<le> w_cpu (ws ! 0);
           p = (if pins then p\<lparr>p_have_caller_mask := pe_save_ok env\<rparr> else p);
           ev = (if pins then ev @ [Save_mask, Pin (w_cpu (ws ! 0))] else ev);
           p = (if \<not> pin_self env (w_cpu (ws ! 0)) then p\<lparr>p_pin_failed := True\<rparr> else p)
       in (Some (p, ws, ev), cache))"

definition pool_abandon :: "pool_env \<Rightarrow> vb_pool \<Rightarrow> vb_pool \<times> pool_event list" where
  "pool_abandon env p =
    (let (p, ev) = restore_caller env (p\<lparr>p_w := None\<rparr>)
     in (p, [Barriers_destroy, Gate_destroy, Free_workers] @ ev))"

definition pool_create ::
  "pool_env \<Rightarrow> cpu_cache \<Rightarrow> vb_kernel \<Rightarrow> vb_config \<Rightarrow> vb_corpus \<Rightarrow> nat \<Rightarrow>
    (vb_pool option \<times> pool_event list) \<times> cpu_cache" where
  "pool_create env cache k cfg corpus threads =
    (let group = k_lanes k * k_streams k;
         total_groups = c_n_messages corpus div group;
         threads = pool_threads threads total_groups
     in case pool_prepare env cache k cfg corpus threads of
          (None, cache) \<Rightarrow> ((None, []), cache)
        | (Some (p, ws, ev), cache) \<Rightarrow>
            let (live, short_by) = spawn (pe_create_ok env) threads;
                ev = ev @ map Create [1..<live];
                p = p\<lparr>p_gate := (if short_by then -1 else 1)\<rparr>;
                ev = ev @ [Set_gate (p_gate p)]
            in if short_by then
                 ((None, ev @ map Join [1..<live] @ snd (pool_abandon env p)), cache)
               else
                 ((Some (p\<lparr>p_w := Some (ws[0 := (worker_reference env 0 p (ws ! 0))\<lparr>w_ready := True\<rparr>])\<rparr>), ev),
                  cache))"

definition pool_destroy :: "pool_env \<Rightarrow> vb_pool \<Rightarrow> vb_pool \<times> pool_event list" where
  "pool_destroy env p =
    (if p_w p = None then (p, [])
     else
       let p = p\<lparr>p_stop := True\<rparr>;
           (q, ev) = pool_abandon env p
       in (q, Release_stop # map Join [1..<p_n p] @ ev))"


section \<open>One run\<close>

definition xor_row :: "checksum \<Rightarrow> checksum \<Rightarrow> checksum" where
  "xor_row agg row = fold (\<lambda>j agg. agg[j := agg ! j XOR row ! j]) [0..<VB_MAX_DIGEST_WORDS] agg"

text \<open>\<open>pool_run\<close> lets \<open>reps\<close> repetitions go between two barriers.  Every worker is at its first
  barrier before any slice starts.  The result is the pool, the flag and the elapsed time of the
  clock, which is 0 for a failed run.\<close>

definition pool_run ::
  "pool_env \<Rightarrow> (nat \<Rightarrow> nat \<Rightarrow> kernel_fn) \<Rightarrow> nat \<Rightarrow> nat \<Rightarrow> vb_pool \<Rightarrow> vb_pool \<times> bool \<times> nat" where
  "pool_run env fn elapsed reps p =
    (let p = p\<lparr>p_reps := reps\<rparr>;
         p = fold (worker_setup env) [1..<p_n p] p;
         ws = map (\<lambda>i. run_slice p (fn i) (the (p_w p) ! i)) [0..<p_n p];
         p = p\<lparr>p_w := Some ws\<rparr>;
         ok = fold (\<lambda>i ok. if \<not> w_ok (ws ! i) then False else ok) [0..<p_n p] True;
         ok = (if ok \<and> p_have_expected p \<and> 0 < p_reps p then
                 (let agg = fold (\<lambda>i agg. xor_row agg (w_checksum (ws ! i))) [0..<p_n p] zero_checksum
                  in if agg \<noteq> p_expected p then False else ok)
               else ok)
     in (p, ok, if ok then elapsed else 0))"

end
