(* ===== verification/Pool_Verify.thy ===== *)
theory Pool_Verify
  imports Pool
begin

text \<open>
  What a run of the pool establishes.  \<open>pool_inv\<close> is the state between two runs: the slices
  partition the corpus and every worker that has passed the gate holds the reference of its own
  slice.  A run reports success exactly when every repetition of every worker agreed with its
  reference, hence the partial results of every repetition XOR to the reference of the batch.
\<close>

section \<open>Rows of checksum words\<close>

definition xor_rows :: "checksum list \<Rightarrow> checksum" where
  "xor_rows rows = map (\<lambda>j. xor_over (\<lambda>r. r ! j) rows) [0..<VB_MAX_DIGEST_WORDS]"

lemma xor_row_words:
  "length agg = VB_MAX_DIGEST_WORDS \<Longrightarrow> xor_row agg row = map (\<lambda>j. agg ! j XOR row ! j) [0..<VB_MAX_DIGEST_WORDS]"
  using foreach_prefix[of VB_MAX_DIGEST_WORDS agg "\<lambda>j v. v XOR row ! j"] by (simp add: xor_row_def)

lemma fold_xor_row:
  "length agg = VB_MAX_DIGEST_WORDS \<Longrightarrow>
   fold (\<lambda>i agg. xor_row agg (f i)) is agg = map (\<lambda>j. agg ! j XOR xor_rows (map f is) ! j) [0..<VB_MAX_DIGEST_WORDS]"
proof (induction "is" arbitrary: agg)
  case Nil
  then show ?case by (auto simp: xor_rows_def intro!: nth_equalityI)
next
  case (Cons i "is")
  then show ?case by (simp add: xor_row_words xor_rows_def comp_def xor.assoc)
qed

lemma aggregate_rows:
  "fold (\<lambda>i agg. xor_row agg (f i)) is zero_checksum = xor_rows (map f is)"
  by (simp add: fold_xor_row) (auto simp: zero_checksum_def xor_rows_def intro!: nth_equalityI)

lemma ref_checksum_parts:
  assumes "off 0 = 0" "\<And>i. off (Suc i) = off i + len i"
  shows "xor_rows (map (\<lambda>i. ref_checksum alg (start + of_nat (off i)) (len i) bytes k) [0..<n])
    = ref_checksum alg start (off n) bytes k"
proof (induction n)
  case 0
  then show ?case by (simp add: xor_rows_def ref_checksum_def assms(1))
next
  case (Suc n)
  have "xor_rows (map (\<lambda>i. ref_checksum alg (start + of_nat (off i)) (len i) bytes k) [0..<Suc n])
    = map (\<lambda>j. ref_checksum alg start (off n) bytes k ! j
        XOR ref_checksum alg (start + of_nat (off n)) (len n) bytes k ! j) [0..<VB_MAX_DIGEST_WORDS]"
    unfolding Suc[symmetric] by (auto simp: xor_rows_def)
  also have "\<dots> = ref_checksum alg start (off (Suc n)) bytes k"
    unfolding ref_checksum_def assms(2) by (auto simp: xor_over_append_range add.assoc)
  finally show ?case .
qed


section \<open>The slices\<close>

definition slice_groups :: "vb_kernel \<Rightarrow> vb_corpus \<Rightarrow> nat" where
  "slice_groups k corpus = c_n_messages corpus div (k_lanes k * k_streams k)"

abbreviation kgroup :: "vb_kernel \<Rightarrow> nat" where "kgroup k \<equiv> k_lanes k * k_streams k"

text \<open>Worker \<open>i\<close> of \<open>n\<close> has the groups of slice \<open>i\<close>, the memory where they start, and the message
  range the reference of the slice is about.\<close>

definition has_slice :: "vb_kernel \<Rightarrow> vb_config \<Rightarrow> vb_corpus \<Rightarrow> nat \<Rightarrow> nat \<Rightarrow> vb_worker \<Rightarrow> bool" where
  "has_slice k cfg corpus n i w \<longleftrightarrow>
     w_groups w = slice_len (slice_groups k corpus) n i \<and>
     w_corpus w = drop (slice_off (slice_groups k corpus) n i * kgroup k div c_lanes corpus
                        * vb_corpus_slot_words corpus) (c_words corpus) \<and>
     w_ref_alg w = cf_alg cfg \<and>
     w_ref_start w = c_start_index corpus + of_nat (slice_off (slice_groups k corpus) n i * kgroup k) \<and>
     w_ref_count w = slice_len (slice_groups k corpus) n i * kgroup k \<and>
     w_ref_message_bytes w = cf_message_bytes cfg \<and>
     w_ref_iterations w = cf_iterations cfg"

lemma slice_workers_fold:
  fixes W :: "nat \<Rightarrow> nat \<Rightarrow> vb_worker \<Rightarrow> vb_worker"
  assumes "m \<le> n"
  shows "fold (\<lambda>i (off, ws). let g = base + (if i < extra then 1 else 0) in (off + g, ws[i := W i off (ws ! i)]))
      [0..<m] (0, replicate n e)
    = (sum_list (map (\<lambda>i. base + (if i < extra then 1 else 0)) [0..<m]),
       map (\<lambda>i. W i (sum_list (map (\<lambda>i. base + (if i < extra then 1 else 0)) [0..<i])) e) [0..<m]
         @ replicate (n - m) e)"
  using assms
proof (induction m)
  case (Suc m)
  then have "n - m = Suc (n - Suc m)" by simp
  then show ?case using Suc by (simp add: Let_def nth_append list_update_append)
qed simp

lemma slice_workers_facts:
  fixes k cfg corpus
  assumes "0 < n" "allowed \<noteq> []"
  defines "ws \<equiv> slice_workers k cfg corpus allowed n"
  shows "length ws = n"
    and "i < n \<Longrightarrow> has_slice k cfg corpus n i (ws ! i)"
    and "i < n \<Longrightarrow> \<not> w_ready (ws ! i)"
    and "i < n \<Longrightarrow> w_cpu (ws ! i) = (if cf_pin_cpu cfg then allowed ! (i mod length allowed) else -1)"
proof -
  let ?T = "slice_groups k corpus"
  define W :: "nat \<Rightarrow> nat \<Rightarrow> vb_worker \<Rightarrow> vb_worker" where "W = (\<lambda>i off w. w
               \<lparr>w_cpu := (if cf_pin_cpu cfg then allowed ! (i mod length allowed) else -1),
                w_groups := ?T div n + (if i < ?T mod n then 1 else 0),
                w_corpus := drop (off * kgroup k div c_lanes corpus * vb_corpus_slot_words corpus) (c_words corpus),
                w_ref_alg := cf_alg cfg,
                w_ref_start := c_start_index corpus + of_nat (off * kgroup k),
                w_ref_count := (?T div n + (if i < ?T mod n then 1 else 0)) * kgroup k,
                w_ref_message_bytes := cf_message_bytes cfg,
                w_ref_iterations := cf_iterations cfg\<rparr>)"
  have "ws = snd (fold (\<lambda>i (off, ws). let g = ?T div n + (if i < ?T mod n then 1 else 0)
      in (off + g, ws[i := W i off (ws ! i)])) [0..<n] (0, replicate n empty_worker))"
    unfolding ws_def slice_workers_def slice_groups_def W_def Let_def ..
  then have ws: "ws = map (\<lambda>i. W i (slice_off ?T n i) empty_worker) [0..<n]"
    by (simp add: slice_workers_fold[OF order_refl, unfolded Let_def] slice_off_def slice_len_def[abs_def] Let_def)
  show "length ws = n" by (simp add: ws)
  show "i < n \<Longrightarrow> has_slice k cfg corpus n i (ws ! i)"
    by (simp add: ws W_def has_slice_def slice_len_def)
  show "i < n \<Longrightarrow> \<not> w_ready (ws ! i)"
    by (simp add: ws W_def empty_worker_def)
  show "i < n \<Longrightarrow> w_cpu (ws ! i) = (if cf_pin_cpu cfg then allowed ! (i mod length allowed) else -1)"
    by (simp add: ws W_def)
qed


section \<open>The state between two runs\<close>

definition slice_reference :: "pool_env \<Rightarrow> nat \<Rightarrow> vb_worker \<Rightarrow> checksum" where
  "slice_reference env i w = vb_reference_checksum (pe_msg_ok env i) (w_ref_alg w) (w_ref_start w)
     (w_ref_count w) (w_ref_message_bytes w) (w_ref_iterations w)"

definition worker_inv :: "pool_env \<Rightarrow> vb_kernel \<Rightarrow> vb_config \<Rightarrow> vb_corpus \<Rightarrow> nat \<Rightarrow> nat \<Rightarrow> vb_worker \<Rightarrow> bool" where
  "worker_inv env k cfg corpus n i w \<longleftrightarrow>
     has_slice k cfg corpus n i w \<and>
     (w_ready w \<and> \<not> cf_have_expected cfg \<longrightarrow> w_expected w = slice_reference env i w)"

definition pool_inv :: "pool_env \<Rightarrow> vb_kernel \<Rightarrow> vb_config \<Rightarrow> vb_corpus \<Rightarrow> vb_pool \<Rightarrow> bool" where
  "pool_inv env k cfg corpus p \<longleftrightarrow>
     0 < p_n p \<and>
     (\<exists>ws. p_w p = Some ws \<and> length ws = p_n p \<and> w_ready (ws ! 0) \<and>
        (\<forall>i < p_n p. worker_inv env k cfg corpus (p_n p) i (ws ! i))) \<and>
     p_have_expected p = cf_have_expected cfg \<and> p_expected p = cf_expected cfg \<and>
     p_blocks p = c_blocks corpus \<and> p_iterations p = cf_iterations cfg"

lemma worker_reference_inv:
  "has_slice k cfg corpus n i w \<Longrightarrow> p_have_expected p = cf_have_expected cfg \<Longrightarrow>
   worker_inv env k cfg corpus n i ((worker_reference env i p w)\<lparr>w_ready := True\<rparr>)"
  by (auto simp: worker_inv_def worker_reference_def has_slice_def slice_reference_def)

lemma run_slice_inv:
  "worker_inv env k cfg corpus n i w \<Longrightarrow> worker_inv env k cfg corpus n i (run_slice p fn w)"
  by (auto simp: worker_inv_def run_slice_def has_slice_def slice_reference_def Let_def split: prod.splits)

lemma pool_prepare_facts:
  assumes "pool_prepare env cache k cfg corpus n = (Some (p, ws, ev), cache')"
  shows "\<exists>allowed. allowed \<noteq> [] \<and> ws = slice_workers k cfg corpus allowed n"
    and "p_n p = n \<and> p_have_expected p = cf_have_expected cfg \<and> p_expected p = cf_expected cfg
      \<and> p_blocks p = c_blocks corpus \<and> p_iterations p = cf_iterations cfg"
  using assms by (auto simp: pool_prepare_def Let_def split: prod.splits if_splits)

lemma pool_create_inv:
  assumes "pool_create env cache k cfg corpus threads = ((Some p, ev), cache')"
  shows "pool_inv env k cfg corpus p"
proof -
  let ?n = "pool_threads threads (slice_groups k corpus)"
  have n: "0 < ?n" by (simp add: pool_threads_def Let_def)
  obtain q ws ev' g where P: "pool_prepare env cache k cfg corpus ?n = (Some (q, ws, ev'), cache')"
    "p = q\<lparr>p_gate := g, p_w := Some (ws[0 := (worker_reference env 0 (q\<lparr>p_gate := g\<rparr>) (ws ! 0))\<lparr>w_ready := True\<rparr>])\<rparr>"
    using assms by (auto simp: pool_create_def Let_def slice_groups_def[symmetric] split: prod.splits option.splits if_splits)
  obtain allowed where al: "allowed \<noteq> []" "ws = slice_workers k cfg corpus allowed ?n"
    using pool_prepare_facts(1)[OF P(1)] by blast
  note F = slice_workers_facts[where k = k and cfg = cfg and corpus = corpus, OF n al(1), folded al(2)]
  show ?thesis
    using n pool_prepare_facts(2)[OF P(1)] F worker_reference_inv[OF F(2)[OF n], of "q\<lparr>p_gate := g\<rparr>" env]
    by (auto simp: pool_inv_def P(2) nth_list_update) (auto simp: worker_inv_def)
qed


section \<open>Workers at their first barrier\<close>

lemma worker_setup_inv:
  assumes "pool_inv env k cfg corpus p" "i < p_n p"
  shows "pool_inv env k cfg corpus (worker_setup env i p)"
    and "p_n (worker_setup env i p) = p_n p"
    and "p_reps (worker_setup env i p) = p_reps p"
    and "w_ready (the (p_w (worker_setup env i p)) ! i)"
    and "j < p_n p \<Longrightarrow> w_ready (the (p_w p) ! j) \<Longrightarrow> w_ready (the (p_w (worker_setup env i p)) ! j)"
proof -
  obtain ws where ws: "p_w p = Some ws" "length ws = p_n p" "w_ready (ws ! 0)"
    "\<forall>i < p_n p. worker_inv env k cfg corpus (p_n p) i (ws ! i)"
    and p: "0 < p_n p" "p_have_expected p = cf_have_expected cfg" "p_expected p = cf_expected cfg"
    "p_blocks p = c_blocks corpus" "p_iterations p = cf_iterations cfg"
    using assms(1) unfolding pool_inv_def by blast
  define q where "q = (if \<not> pin_self env (w_cpu (ws ! i)) then p\<lparr>p_pin_failed := True\<rparr> else p)"
  have q: "p_n q = p_n p" "p_have_expected q = cf_have_expected cfg" "p_expected q = cf_expected cfg"
    "p_blocks q = c_blocks corpus" "p_iterations q = cf_iterations cfg" "p_reps q = p_reps p"
    using p by (simp_all add: q_def)
  have s: "worker_setup env i p = (if w_ready (ws ! i) then p
      else q\<lparr>p_w := Some (ws[i := (worker_reference env i q (ws ! i))\<lparr>w_ready := True\<rparr>])\<rparr>)"
    by (simp add: worker_setup_def ws(1) q_def Let_def)
  have i: "worker_inv env k cfg corpus (p_n p) i ((worker_reference env i q (ws ! i))\<lparr>w_ready := True\<rparr>)"
    using ws(4) assms(2) q(2) by (intro worker_reference_inv) (auto simp: worker_inv_def)
  show "pool_inv env k cfg corpus (worker_setup env i p)"
  proof (cases "w_ready (ws ! i)")
    case False
    then show ?thesis
      using i ws p q assms(2) by (auto simp: s pool_inv_def nth_list_update)
  qed (use assms(1) s in simp)
  show "p_n (worker_setup env i p) = p_n p" "p_reps (worker_setup env i p) = p_reps p"
    by (simp_all add: s q)
  show "w_ready (the (p_w (worker_setup env i p)) ! i)"
    using ws(1,2) assms(2) by (simp add: s)
  show "j < p_n p \<Longrightarrow> w_ready (the (p_w p) ! j) \<Longrightarrow> w_ready (the (p_w (worker_setup env i p)) ! j)"
    unfolding s using ws(1,2) by (cases "i = j") simp_all
qed

lemma workers_ready:
  assumes "pool_inv env k cfg corpus p"
  defines "q \<equiv> fold (worker_setup env) [1..<p_n p] p"
  shows "pool_inv env k cfg corpus q \<and> p_n q = p_n p \<and> p_reps q = p_reps p
    \<and> (\<forall>i < p_n p. w_ready (the (p_w q) ! i))"
proof -
  have "m \<le> p_n p \<Longrightarrow> 1 \<le> m \<Longrightarrow>
      pool_inv env k cfg corpus (fold (worker_setup env) [1..<m] p)
      \<and> p_n (fold (worker_setup env) [1..<m] p) = p_n p
      \<and> p_reps (fold (worker_setup env) [1..<m] p) = p_reps p
      \<and> (\<forall>i < m. w_ready (the (p_w (fold (worker_setup env) [1..<m] p)) ! i))" for m
  proof (induction m)
    case (Suc m)
    show ?case
    proof (cases "m = 0")
      case True
      then show ?thesis using assms(1) by (auto simp: pool_inv_def)
    next
      case False
      then have f: "fold (worker_setup env) [1..<Suc m] p
          = worker_setup env m (fold (worker_setup env) [1..<m] p)" by simp
      show ?thesis
        using Suc False worker_setup_inv[of env k cfg corpus "fold (worker_setup env) [1..<m] p" m]
        unfolding f by (auto simp: less_Suc_eq)
    qed
  qed simp
  moreover have "1 \<le> p_n p" using assms(1) by (simp add: pool_inv_def)
  ultimately show ?thesis unfolding q_def by blast
qed


section \<open>One slice\<close>

text \<open>What call \<open>r\<close> of a worker answered.\<close>

definition slice_out :: "vb_pool \<Rightarrow> (nat \<Rightarrow> kernel_fn) \<Rightarrow> vb_worker \<Rightarrow> nat \<Rightarrow> checksum" where
  "slice_out p fn w r = fn r (w_corpus w) (w_groups w) (p_blocks p) (p_iterations p)"

text \<open>The value each repetition is compared with: the slice's own reference, or the first
  repetition when the reference of the whole batch was supplied.\<close>

definition slice_target :: "vb_pool \<Rightarrow> (nat \<Rightarrow> kernel_fn) \<Rightarrow> vb_worker \<Rightarrow> checksum" where
  "slice_target p fn w = (if p_have_expected p then slice_out p fn w 0 else w_expected w)"

lemma all_less_Suc: "(\<forall>r < Suc n. P r) \<longleftrightarrow> (\<forall>r < n. P r) \<and> P n"
  by (auto simp: less_Suc_eq)

lemma slice_loop:
  fixes p :: vb_pool and w :: vb_worker and fn :: "nat \<Rightarrow> kernel_fn" and c :: checksum
  defines "st \<equiv> \<lambda>n. fold (\<lambda>r st. if fst st then slice_rep p w (slice_out p fn w r) r st else st) [0..<n] (True, c)"
  shows "(fst (st n) \<longleftrightarrow> (\<forall>r < n. slice_out p fn w r = slice_target p fn w))
    \<and> (p_have_expected p \<longrightarrow> 0 < n \<longrightarrow> snd (st n) = slice_out p fn w 0)"
proof (induction n)
  case 0
  then show ?case by (simp add: st_def)
next
  case (Suc n)
  have "st (Suc n) = (if fst (st n) then slice_rep p w (slice_out p fn w n) n (st n) else st n)"
    by (simp add: st_def)
  moreover obtain ok d where d: "st n = (ok, d)" by fastforce
  ultimately have f: "st (Suc n) = (if ok then slice_rep p w (slice_out p fn w n) n (ok, d) else (ok, d))" by simp
  define T where "T = slice_target p fn w"
  define a where "a = slice_out p fn w"
  have T: "T = (if p_have_expected p then a 0 else w_expected w)" by (simp add: T_def a_def slice_target_def)
  have ok: "ok \<longleftrightarrow> (\<forall>r < n. a r = T)" and c: "p_have_expected p \<Longrightarrow> 0 < n \<Longrightarrow> d = a 0"
    using Suc unfolding d fst_conv snd_conv a_def T_def by blast+
  have z: "n = 0 \<Longrightarrow> ok" using ok by blast
  have "fst (st (Suc n)) \<longleftrightarrow> ok \<and> a n = T"
    unfolding f using c T by (cases "n = 0") (simp_all add: slice_rep_def a_def[symmetric])
  moreover have "p_have_expected p \<Longrightarrow> snd (st (Suc n)) = a 0"
    unfolding f using c z by (cases "n = 0") (simp_all add: slice_rep_def a_def[symmetric])
  ultimately show ?case
    unfolding all_less_Suc ok a_def T_def by blast
qed

lemma run_slice_loop:
  "run_slice p fn w = (let st = fold (\<lambda>r st. if fst st then slice_rep p w (slice_out p fn w r) r st else st)
      [0..<p_reps p] (True, w_checksum w) in w\<lparr>w_checksum := snd st, w_ok := fst st\<rparr>)"
  unfolding run_slice_def slice_out_def Let_def case_prod_beta ..

lemma run_slice_ok:
  "w_ok (run_slice p fn w) \<longleftrightarrow> (\<forall>r < p_reps p. slice_out p fn w r = slice_target p fn w)"
  using slice_loop[where p = p and fn = fn and w = w and n = "p_reps p" and c = "w_checksum w"]
  by (simp add: run_slice_loop Let_def)

lemma run_slice_checksum:
  "p_have_expected p \<Longrightarrow> 0 < p_reps p \<Longrightarrow> w_checksum (run_slice p fn w) = slice_out p fn w 0"
  using slice_loop[where p = p and fn = fn and w = w and n = "p_reps p" and c = "w_checksum w"]
  by (simp add: run_slice_loop Let_def)

lemma run_slice_fields:
  "w_corpus (run_slice p fn w) = w_corpus w" "w_groups (run_slice p fn w) = w_groups w"
  "w_expected (run_slice p fn w) = w_expected w" "w_ready (run_slice p fn w) = w_ready w"
  by (simp_all add: run_slice_def Let_def split: prod.splits)

lemma fold_all: "fold (\<lambda>i ok. if \<not> P i then False else ok) is b \<longleftrightarrow> b \<and> (\<forall>i \<in> set is. P i)"
  by (induction "is" arbitrary: b) auto


section \<open>One run\<close>

text \<open>The worker a run starts from, once all of them are at the first barrier.\<close>

definition ready_worker :: "pool_env \<Rightarrow> vb_pool \<Rightarrow> nat \<Rightarrow> vb_worker" where
  "ready_worker env p i = the (p_w (fold (worker_setup env) [1..<p_n p] p)) ! i"

text \<open>What worker \<open>i\<close>'s call number \<open>r\<close> of a run answered.\<close>

definition worker_out :: "pool_env \<Rightarrow> (nat \<Rightarrow> nat \<Rightarrow> kernel_fn) \<Rightarrow> vb_pool \<Rightarrow> nat \<Rightarrow> nat \<Rightarrow> checksum" where
  "worker_out env fn p i r =
     fn i r (w_corpus (ready_worker env p i)) (w_groups (ready_worker env p i)) (p_blocks p) (p_iterations p)"

lemma worker_setup_reps:
  "worker_setup env i (p\<lparr>p_reps := r\<rparr>) = (worker_setup env i p)\<lparr>p_reps := r\<rparr>"
  by (simp add: worker_setup_def Let_def worker_reference_def split: option.splits)

lemma fold_setup_reps:
  "fold (worker_setup env) is (p\<lparr>p_reps := r\<rparr>) = (fold (worker_setup env) is p)\<lparr>p_reps := r\<rparr>"
  by (induction "is" arbitrary: p) (simp_all add: worker_setup_reps)

text \<open>\<open>pool_run\<close> over the workers at the barrier.\<close>

lemma pool_run_unfold:
  fixes env p fn reps
  defines "q \<equiv> (fold (worker_setup env) [1..<p_n p] p)\<lparr>p_reps := reps\<rparr>"
  assumes "p_n q = p_n p"
  shows "pool_run env fn elapsed reps p =
    (let ws = map (\<lambda>i. run_slice q (fn i) (ready_worker env p i)) [0..<p_n p];
         ok = (\<forall>i < p_n p. w_ok (ws ! i)) \<and>
              (p_have_expected q \<and> 0 < reps \<longrightarrow> xor_rows (map (\<lambda>i. w_checksum (ws ! i)) [0..<p_n p]) = p_expected q)
     in (q\<lparr>p_w := Some ws\<rparr>, ok, if ok then elapsed else 0))"
  using assms(2)
  by (auto simp: pool_run_def q_def fold_setup_reps ready_worker_def aggregate_rows fold_all Let_def simp del: upt_Suc)

lemma pool_run_ok:
  assumes I: "pool_inv env k cfg corpus p"
    and R: "pool_run env fn elapsed reps p = (p', ok, ns)"
  shows "pool_inv env k cfg corpus p'" "p_n p' = p_n p"
    and "ok \<longleftrightarrow> (if cf_have_expected cfg
        then (\<forall>i < p_n p. \<forall>r < reps. worker_out env fn p i r = worker_out env fn p i 0)
          \<and> (0 < reps \<longrightarrow> xor_rows (map (\<lambda>i. worker_out env fn p i 0) [0..<p_n p]) = cf_expected cfg)
        else (\<forall>i < p_n p. \<forall>r < reps. worker_out env fn p i r = slice_reference env i (ready_worker env p i)))"
    and "\<And>i. i < p_n p \<Longrightarrow> has_slice k cfg corpus (p_n p) i (ready_worker env p i)"
proof -
  define q where "q = (fold (worker_setup env) [1..<p_n p] p)\<lparr>p_reps := reps\<rparr>"
  let ?w = "ready_worker env p"
  have Q: "pool_inv env k cfg corpus q" "p_n q = p_n p" "\<forall>i < p_n p. w_ready (?w i)"
    using workers_ready[OF I] by (auto simp: q_def pool_inv_def ready_worker_def)
  have q: "p_reps q = reps" "0 < p_n p" "p_have_expected q = cf_have_expected cfg" "p_expected q = cf_expected cfg"
    "p_blocks q = p_blocks p" "p_iterations q = p_iterations p" "p_w q = Some (the (p_w q))"
    using Q I by (auto simp: q_def pool_inv_def)
  have w: "the (p_w q) ! i = ?w i" for i by (simp add: q_def ready_worker_def)
  have inv: "worker_inv env k cfg corpus (p_n p) i (?w i)" if "i < p_n p" for i
    using Q(1,2) that unfolding pool_inv_def w[symmetric] by auto
  then show "has_slice k cfg corpus (p_n p) i (?w i)" if "i < p_n p" for i
    using that by (simp add: worker_inv_def)
  have out: "slice_out q (fn i) (?w i) r = worker_out env fn p i r" for i r
    by (simp add: slice_out_def worker_out_def q)
  have target: "slice_target q (fn i) (?w i)
      = (if cf_have_expected cfg then worker_out env fn p i 0 else slice_reference env i (?w i))" if "i < p_n p" for i
    using inv[OF that] Q(3) that by (simp add: slice_target_def q out worker_inv_def)
  define ws where "ws = map (\<lambda>i. run_slice q (fn i) (?w i)) [0..<p_n p]"
  have ok: "w_ok (ws ! i) \<longleftrightarrow> (\<forall>r < reps. worker_out env fn p i r
      = (if cf_have_expected cfg then worker_out env fn p i 0 else slice_reference env i (?w i)))" if "i < p_n p" for i
    using that target[OF that] by (simp add: ws_def run_slice_ok q out)
  have cs: "map (\<lambda>i. w_checksum (ws ! i)) [0..<p_n p] = map (\<lambda>i. worker_out env fn p i 0) [0..<p_n p]"
    if "cf_have_expected cfg" "0 < reps"
    using that by (simp add: ws_def run_slice_checksum q out)
  note U = pool_run_unfold[where env = env and p = p and reps = reps and fn = fn and elapsed = elapsed,
      folded q_def, OF Q(2), unfolded Let_def, folded ws_def]
  have R': "p' = q\<lparr>p_w := Some ws\<rparr>" "ok \<longleftrightarrow> (\<forall>i < p_n p. w_ok (ws ! i)) \<and>
      (cf_have_expected cfg \<and> 0 < reps \<longrightarrow> xor_rows (map (\<lambda>i. w_checksum (ws ! i)) [0..<p_n p]) = cf_expected cfg)"
    using R unfolding U q(3,4) by blast+
  show "p_n p' = p_n p" using Q(2) by (simp add: R')
  show "pool_inv env k cfg corpus p'"
    using Q q(2) inv run_slice_inv by (auto simp: pool_inv_def R' ws_def run_slice_fields)
  show "ok \<longleftrightarrow> (if cf_have_expected cfg
        then (\<forall>i < p_n p. \<forall>r < reps. worker_out env fn p i r = worker_out env fn p i 0)
          \<and> (0 < reps \<longrightarrow> xor_rows (map (\<lambda>i. worker_out env fn p i 0) [0..<p_n p]) = cf_expected cfg)
        else (\<forall>i < p_n p. \<forall>r < reps. worker_out env fn p i r = slice_reference env i (?w i)))"
  proof (cases "cf_have_expected cfg")
    case True
    then have "(\<forall>i < p_n p. w_ok (ws ! i))
        \<longleftrightarrow> (\<forall>i < p_n p. \<forall>r < reps. worker_out env fn p i r = worker_out env fn p i 0)"
      using ok unfolding if_P[OF True] by blast
    then show ?thesis unfolding R'(2) if_P[OF True] using True cs by metis
  next
    case False
    then show ?thesis unfolding R'(2) if_not_P[OF False] using ok[unfolded if_not_P[OF False]] by blast
  qed
qed


section \<open>The slices make up the batch\<close>

lemma slice_off_bound: "i < n \<Longrightarrow> slice_off cnt n i + slice_len cnt n i \<le> cnt"
proof -
  assume i: "i < n"
  have "slice_off cnt n i + slice_len cnt n i = slice_off cnt n (Suc i)" by simp
  also have "\<dots> = Suc i * (cnt div n) + min (Suc i) (cnt mod n)" by (rule slice_off_closed)
  also have "\<dots> \<le> n * (cnt div n) + cnt mod n"
    using i by (intro add_mono mult_right_mono) simp_all
  also have "\<dots> = cnt" by simp
  finally show ?thesis .
qed

lemma slice_reference_eq:
  assumes "has_slice k cfg corpus n i w" "cf_alg cfg \<in> set ALGS" "0 < cf_iterations cfg" "pe_msg_ok env i"
  shows "slice_reference env i w = ref_checksum (cf_alg cfg)
    (c_start_index corpus + of_nat (slice_off (slice_groups k corpus) n i * kgroup k))
    (slice_len (slice_groups k corpus) n i * kgroup k) (cf_message_bytes cfg) (cf_iterations cfg)"
  using assms by (simp add: has_slice_def slice_reference_def reference_checksum_eq)

lemma slice_references_xor:
  assumes "\<And>i. i < n \<Longrightarrow> has_slice k cfg corpus n i (w i)" "0 < n"
    and "cf_alg cfg \<in> set ALGS" "0 < cf_iterations cfg" "\<And>i. pe_msg_ok env i" "kgroup k dvd c_n_messages corpus"
  shows "xor_rows (map (\<lambda>i. slice_reference env i (w i)) [0..<n])
    = vb_reference_checksum True (cf_alg cfg) (c_start_index corpus) (c_n_messages corpus)
        (cf_message_bytes cfg) (cf_iterations cfg)"
proof -
  let ?T = "slice_groups k corpus"
  have "map (\<lambda>i. slice_reference env i (w i)) [0..<n]
    = map (\<lambda>i. ref_checksum (cf_alg cfg) (c_start_index corpus + of_nat (slice_off ?T n i * kgroup k))
        (slice_len ?T n i * kgroup k) (cf_message_bytes cfg) (cf_iterations cfg)) [0..<n]"
    using slice_reference_eq[OF assms(1) assms(3-5)] by auto
  then have "xor_rows (map (\<lambda>i. slice_reference env i (w i)) [0..<n])
    = ref_checksum (cf_alg cfg) (c_start_index corpus) (slice_off ?T n n * kgroup k)
        (cf_message_bytes cfg) (cf_iterations cfg)"
    by (simp only:) (rule ref_checksum_parts, simp_all add: add_mult_distrib)
  then show ?thesis
    using assms(2-) by (simp add: slice_off_total slice_groups_def reference_checksum_eq)
qed

text \<open>What a run that reports success has shown of every repetition, for whatever the hardware
  answered.\<close>

lemma run_establishes:
  assumes I: "pool_inv env k cfg corpus p"
    and R: "pool_run env fn elapsed reps p = (p', True, ns)" and r: "r < reps"
    and C: "cf_alg cfg \<in> set ALGS" "0 < cf_iterations cfg" "\<And>i. pe_msg_ok env i" "kgroup k dvd c_n_messages corpus"
  shows "xor_rows (map (\<lambda>i. worker_out env fn p i r) [0..<p_n p])
    = (if cf_have_expected cfg then cf_expected cfg
       else vb_reference_checksum True (cf_alg cfg) (c_start_index corpus) (c_n_messages corpus)
        (cf_message_bytes cfg) (cf_iterations cfg))"
proof -
  note ok = pool_run_ok[OF I R]
  have n: "0 < p_n p" using I by (simp add: pool_inv_def)
  show ?thesis
  proof (cases "cf_have_expected cfg")
    case True
    then have "\<forall>i < p_n p. worker_out env fn p i r = worker_out env fn p i 0"
      and e: "xor_rows (map (\<lambda>i. worker_out env fn p i 0) [0..<p_n p]) = cf_expected cfg"
      using ok(3) r unfolding if_P[OF True] by blast+
    then have "map (\<lambda>i. worker_out env fn p i r) [0..<p_n p] = map (\<lambda>i. worker_out env fn p i 0) [0..<p_n p]"
      by (intro map_cong) auto
    then show ?thesis using e unfolding if_P[OF True] by (simp only:)
  next
    case False
    then have "\<forall>i < p_n p. worker_out env fn p i r = slice_reference env i (ready_worker env p i)"
      using ok(3) r unfolding if_not_P[OF False] by blast
    then have "map (\<lambda>i. worker_out env fn p i r) [0..<p_n p] = map (\<lambda>i. slice_reference env i (ready_worker env p i)) [0..<p_n p]"
      by (intro map_cong) auto
    then show ?thesis
      using slice_references_xor[OF ok(4) n C] unfolding if_not_P[OF False] by (simp only:)
  qed
qed

end
