(* ===== verification/Kernel_Slices.thy ===== *)
theory Kernel_Slices
  imports Pool_Verify Kernel_Md5 Kernel_Sha1 Kernel_Sha512
begin

text \<open>
  The vector kernels as workers of the pool.  \<open>slice_kernel\<close> is the interface between a kernel
  and the harness: on any run of slots of a built corpus, the kernel answers what the reference
  answers for the messages of those slots.  The three templates provide it over every lane-wise
  operation set, and a pool of such kernels passes every run.
\<close>

section \<open>The interface\<close>

locale slice_kernel =
  fixes kfn :: kernel_fn and alg :: vb_algorithm and lanes streams :: nat
  assumes slice_alg: "alg \<in> set ALGS"
    and slice: "vb_corpus_build alloc True (Some alg) lanes start n bytes = Some c \<Longrightarrow>
      (\<And>m words. alloc m = Some words \<Longrightarrow> length words = m) \<Longrightarrow> bytes \<le> VB_MAX_MSG_BYTES \<Longrightarrow>
      0 < k \<Longrightarrow> k = 1 \<or> digest_bytes alg \<le> bytes \<Longrightarrow> (s + g * streams) * lanes \<le> n \<Longrightarrow>
      kfn (drop (s * vb_corpus_slot_words c) (c_words c)) g (c_blocks c) k
        = vb_reference_checksum True alg (start + of_nat (s * lanes)) (g * streams * lanes) bytes k"

text \<open>Entry points by algorithm: what the registry's function pointer of a CPU row runs.\<close>

record ('v, 'w) scratch =
  sc_md5 :: "'v md5k_stream"
  sc_sha1 :: "'v s1k_stream"
  sc_sha512 :: "'w s5k_stream"

definition cpu_kernel :: "'v ops32 \<Rightarrow> 'w ops64 \<Rightarrow> ('v, 'w) scratch \<Rightarrow> vb_alg_id \<Rightarrow> nat \<Rightarrow> kernel_fn" where
  "cpu_kernel o32 o64 d a streams =
    (case a of
       VB_ALG_MD5 \<Rightarrow> (\<lambda>corpus. md5_kernel o32 streams (sc_md5 d) (map ucast corpus))
     | VB_ALG_SHA1 \<Rightarrow> (\<lambda>corpus. sha1_kernel o32 streams (sc_sha1 d) (map ucast corpus))
     | VB_ALG_SHA512 \<Rightarrow> (\<lambda>corpus. sha512_kernel o64 streams (sc_sha512 d) (map ucast corpus)))"

definition kernel_lanes :: "'v ops32 \<Rightarrow> 'w ops64 \<Rightarrow> vb_alg_id \<Rightarrow> nat" where
  "kernel_lanes o32 o64 a = (case a of VB_ALG_SHA512 \<Rightarrow> ow_lanes o64 | _ \<Rightarrow> ov_lanes o32)"

definition the_alg :: "vb_alg_id \<Rightarrow> vb_algorithm" where
  "the_alg a = (case a of VB_ALG_MD5 \<Rightarrow> md5_alg | VB_ALG_SHA1 \<Rightarrow> sha1_alg | VB_ALG_SHA512 \<Rightarrow> sha512_alg)"


section \<open>The templates provide it\<close>

context word_hash
begin

text \<open>A pointer into a built corpus, at the width of the kernel.\<close>

lemma corpus_holds_slice:
  assumes B: "vb_corpus_build alloc True (Some alg) lanes start n bytes = Some c"
    and A: "\<And>m words. alloc m = Some words \<Longrightarrow> length words = m"
    and M: "bytes \<le> VB_MAX_MSG_BYTES" and fits: "(s + g) * lanes \<le> n"
  shows "corpus_holds (map ucast (drop (s * vb_corpus_slot_words c) (c_words c)) :: 'w word list) lanes (c_blocks c)
      (g * lanes) (\<lambda>m. msg_words alg ld enc (vb_build_message (start + of_nat (s * lanes) + of_nat m) bytes))
    \<and> 0 < c_blocks c"
proof -
  note built = corpus_holds_built[OF B A M]
  obtain slots where n: "n = slots * lanes"
    using built by (metis mod_0_imp_dvd dvd_def mult.commute)
  have l: "c_lanes c = lanes" using B by (auto elim!: corpus_build_Some)
  have "s + g \<le> slots" using fits built n by simp
  with built have "corpus_holds (drop (s * (c_blocks c * 16 * lanes)) (map ucast (c_words c)) :: 'w word list) lanes (c_blocks c)
      (g * lanes) (\<lambda>m. msg_words alg ld enc (vb_build_message (start + of_nat (s * lanes + m)) bytes))"
    unfolding n by (intro corpus_holds_drop[of _ lanes "c_blocks c" slots _ s g]) blast+
  then show ?thesis
    using built blocks_needed_pos
    by (simp add: drop_map vb_corpus_slot_words_def l VB_WORDS_PER_BLOCK_def add.assoc)
qed

end

lemma alg_words: "digest_words md5_alg = 4" "digest_words sha1_alg = 5" "digest_words sha512_alg = 8"
  by (simp_all add: alg_defs)

lemma cpu_kernel_slices:
  assumes "vec32 o32" "vec64 o64"
  shows "slice_kernel (cpu_kernel o32 o64 d a streams) (the_alg a) (kernel_lanes o32 o64 a) streams"
proof
  show "the_alg a \<in> set ALGS" by (cases a) (simp_all add: the_alg_def ALGS_def)
next
  fix alloc start n bytes c and k s g :: nat
  assume B: "vb_corpus_build alloc True (Some (the_alg a)) (kernel_lanes o32 o64 a) start n bytes = Some c"
    and A: "\<And>m words. alloc m = Some words \<Longrightarrow> length words = m"
    and M: "bytes \<le> VB_MAX_MSG_BYTES" and k: "0 < k" "k = 1 \<or> digest_bytes (the_alg a) \<le> bytes"
    and fits: "(s + g * streams) * kernel_lanes o32 o64 a \<le> n"
  let ?concl = "cpu_kernel o32 o64 d a streams (drop (s * vb_corpus_slot_words c) (c_words c)) g (c_blocks c) k
        = vb_reference_checksum True (the_alg a) (start + of_nat (s * kernel_lanes o32 o64 a))
            (g * streams * kernel_lanes o32 o64 a) bytes k"
  show ?concl
  proof (cases a)
    case VB_ALG_MD5
    have F: "vb_corpus_build alloc True (Some md5_alg) (ov_lanes o32) start n bytes = Some c"
      "(s + g * streams) * ov_lanes o32 \<le> n" "k = 1 \<or> digest_bytes md5_alg \<le> bytes"
      using B fits k(2) by (simp_all only: the_alg_def kernel_lanes_def VB_ALG_MD5 vb_alg_id.case)
    note H = md5h.corpus_holds_slice[OF F(1) A M F(2)]
    note vec32.md5_kernel_result[OF assms(1) H[THEN conjunct1] k(1) H[THEN conjunct2]]
    also note md5h.kernel_result_ref[OF k(1) F(3), unfolded alg_words]
    finally show ?thesis
      by (simp only: VB_ALG_MD5 the_alg_def kernel_lanes_def cpu_kernel_def vb_alg_id.case)
  next
    case VB_ALG_SHA1
    have F: "vb_corpus_build alloc True (Some sha1_alg) (ov_lanes o32) start n bytes = Some c"
      "(s + g * streams) * ov_lanes o32 \<le> n" "k = 1 \<or> digest_bytes sha1_alg \<le> bytes"
      using B fits k(2) by (simp_all only: the_alg_def kernel_lanes_def VB_ALG_SHA1 vb_alg_id.case)
    note H = sha1h.corpus_holds_slice[OF F(1) A M F(2)]
    note vec32.sha1_kernel_result[OF assms(1) H[THEN conjunct1] k(1) H[THEN conjunct2]]
    also note sha1h.kernel_result_ref[OF k(1) F(3), unfolded alg_words]
    finally show ?thesis
      by (simp only: VB_ALG_SHA1 the_alg_def kernel_lanes_def cpu_kernel_def vb_alg_id.case)
  next
    case VB_ALG_SHA512
    have F: "vb_corpus_build alloc True (Some sha512_alg) (ow_lanes o64) start n bytes = Some c"
      "(s + g * streams) * ow_lanes o64 \<le> n" "k = 1 \<or> digest_bytes sha512_alg \<le> bytes"
      using B fits k(2) by (simp_all only: the_alg_def kernel_lanes_def VB_ALG_SHA512 vb_alg_id.case)
    note H = sha512h.corpus_holds_slice[OF F(1) A M F(2)]
    note vec64.sha512_kernel_result[OF assms(2) H[THEN conjunct1] k(1) H[THEN conjunct2]]
    also note sha512h.kernel_result_ref[OF k(1) F(3), unfolded alg_words]
    finally show ?thesis
      by (simp only: VB_ALG_SHA512 the_alg_def kernel_lanes_def cpu_kernel_def vb_alg_id.case)
  qed
qed


section \<open>A pool of such kernels\<close>

context slice_kernel
begin

lemma worker_out_reference:
  assumes I: "pool_inv env kr cfg corpus p"
    and B: "vb_corpus_build alloc True (Some alg) lanes start n bytes = Some corpus"
    and A: "\<And>m words. alloc m = Some words \<Longrightarrow> length words = m"
    and M: "bytes \<le> VB_MAX_MSG_BYTES" and k: "0 < cf_iterations cfg" "cf_iterations cfg = 1 \<or> digest_bytes alg \<le> bytes"
    and cfg: "cf_alg cfg = alg" "cf_message_bytes cfg = bytes" "\<And>i. pe_msg_ok env i"
    and kr: "k_lanes kr = lanes" "k_streams kr = streams" "0 < lanes"
    and w: "has_slice kr cfg corpus (p_n p) i (ready_worker env p i)" and i: "i < p_n p"
  shows "worker_out env (\<lambda>i r. kfn) p i r = slice_reference env i (ready_worker env p i)"
proof -
  let ?T = "slice_groups kr corpus"
  let ?off = "slice_off ?T (p_n p) i" and ?len = "slice_len ?T (p_n p) i"
  have c: "c_lanes corpus = lanes" "c_n_messages corpus = n" "c_start_index corpus = start"
    using B by (auto elim!: corpus_build_Some)
  have p: "p_blocks p = c_blocks corpus" "p_iterations p = cf_iterations cfg"
    using I by (simp_all add: pool_inv_def)
  have "(?off + ?len) * (lanes * streams) \<le> ?T * (lanes * streams)"
    using slice_off_bound[OF i, of ?T] by (intro mult_right_mono) simp_all
  also have "\<dots> \<le> n" by (simp add: slice_groups_def c(2) kr)
  finally have fits: "(?off * streams + ?len * streams) * lanes \<le> n" by (simp add: algebra_simps)
  have gk: "kgroup kr = streams * lanes" by (simp add: kr)
  have at: "?off * kgroup kr div c_lanes corpus = ?off * streams"
    using kr(3) by (simp add: kr c(1) mult.left_commute[of _ lanes])
  have "worker_out env (\<lambda>i r. kfn) p i r
      = kfn (drop (?off * streams * vb_corpus_slot_words corpus) (c_words corpus)) ?len (c_blocks corpus) (cf_iterations cfg)"
    using w by (simp only: worker_out_def has_slice_def at p)
  also have "\<dots> = vb_reference_checksum True alg (start + of_nat (?off * streams * lanes)) (?len * streams * lanes)
        bytes (cf_iterations cfg)"
    by (rule slice[OF B A M k fits])
  also have "\<dots> = slice_reference env i (ready_worker env p i)"
    using w unfolding slice_reference_def has_slice_def gk c cfg by (simp add: mult.assoc cfg)
  finally show ?thesis .
qed

lemma pool_accepts:
  assumes I: "pool_inv env kr cfg corpus p"
    and B: "vb_corpus_build alloc True (Some alg) lanes start n bytes = Some corpus"
    and A: "\<And>m words. alloc m = Some words \<Longrightarrow> length words = m"
    and M: "bytes \<le> VB_MAX_MSG_BYTES" and k: "0 < cf_iterations cfg" "cf_iterations cfg = 1 \<or> digest_bytes alg \<le> bytes"
    and cfg: "cf_alg cfg = alg" "cf_message_bytes cfg = bytes" "\<And>i. pe_msg_ok env i"
    and kr: "k_lanes kr = lanes" "k_streams kr = streams" "0 < lanes" "kgroup kr dvd n"
    and given: "cf_have_expected cfg \<Longrightarrow>
      cf_expected cfg = vb_reference_checksum True alg start n bytes (cf_iterations cfg)"
  shows "\<exists>p'. pool_run env (\<lambda>i r. kfn) elapsed reps p = (p', True, elapsed) \<and> pool_inv env kr cfg corpus p'"
proof -
  obtain p' ok ns where R: "pool_run env (\<lambda>i r. kfn) elapsed reps p = (p', ok, ns)"
    using prod_cases3 by blast
  note run = pool_run_ok[OF I R]
  have n: "0 < p_n p" using I by (simp add: pool_inv_def)
  have c: "c_n_messages corpus = n" "c_start_index corpus = start"
    using B by (auto elim!: corpus_build_Some)
  have out: "worker_out env (\<lambda>i r. kfn) p i r = slice_reference env i (ready_worker env p i)" if "i < p_n p" for i r
    using worker_out_reference[OF I B A M k cfg kr(1-3) run(4)[OF that] that] .
  have "xor_rows (map (\<lambda>i. slice_reference env i (ready_worker env p i)) [0..<p_n p])
      = vb_reference_checksum True alg start n bytes (cf_iterations cfg)"
    using slice_references_xor[OF run(4) n] slice_alg k(1) kr(4) cfg c by simp
  moreover have "map (\<lambda>i. worker_out env (\<lambda>i r. kfn) p i 0) [0..<p_n p]
      = map (\<lambda>i. slice_reference env i (ready_worker env p i)) [0..<p_n p]"
    using out by (intro map_cong) auto
  ultimately have x: "xor_rows (map (\<lambda>i. worker_out env (\<lambda>i r. kfn) p i 0) [0..<p_n p])
      = vb_reference_checksum True alg start n bytes (cf_iterations cfg)" by (simp only:)
  have "ok"
    unfolding run(3) using out given x by (simp del: upt_Suc)
  then have "ns = elapsed" using R by (auto simp: pool_run_def Let_def)
  then show ?thesis using R run(1) \<open>ok\<close> by (intro exI[of _ p']) simp
qed

end

text \<open>The plain C kernels, through the interface.\<close>

interpretation scalar_slices: slice_kernel "cpu_kernel scalar_ops32 scalar_ops64 d a streams" "the_alg a"
    "kernel_lanes scalar_ops32 scalar_ops64 a" streams for d a streams
  by (rule cpu_kernel_slices) (rule sc32.vec32_axioms sc64.vec64_axioms)+

lemma spawn_all: "(\<forall>i. 1 \<le> i \<longrightarrow> i < n \<longrightarrow> starts i) \<Longrightarrow> 0 < n \<Longrightarrow> spawn starts n = (n, False)"
proof -
  assume "\<forall>i. 1 \<le> i \<longrightarrow> i < n \<longrightarrow> starts i" "0 < n"
  then have t: "takeWhile starts [1..<n] = [1..<n]" by (subst takeWhile_eq_all_conv) auto
  show ?thesis using \<open>0 < n\<close> by (simp add: spawn_def t del: One_nat_def takeWhile_eq_all_conv)
qed

lemma spawn_short: "spawn starts n = (live, short_by) \<Longrightarrow> 0 < n \<Longrightarrow>
    1 \<le> live \<and> live \<le> n \<and> (short_by \<longleftrightarrow> live < n) \<and> (\<forall>i. 1 \<le> i \<longrightarrow> i < live \<longrightarrow> starts i)
    \<and> (short_by \<longrightarrow> \<not> starts live)"
proof -
  assume s: "spawn starts n = (live, short_by)" and n: "0 < n"
  let ?t = "takeWhile starts [1..<n]"
  have live: "live = 1 + length ?t" "short_by \<longleftrightarrow> live < n" using s by (auto simp: spawn_def Let_def)
  have len: "length ?t \<le> n - 1" by (metis length_takeWhile_le length_upt)
  have "starts i" if "1 \<le> i" "i < live" for i
  proof -
    have "?t ! (i - 1) \<in> set ?t" using that live by (intro nth_mem) simp
    moreover have "?t ! (i - 1) = i" using that live len by (subst takeWhile_nth) auto
    ultimately show ?thesis by (auto dest: set_takeWhileD)
  qed
  moreover have "\<not> starts live" if "short_by"
  proof -
    have "length ?t < length [1..<n]" using that live by simp
    from nth_length_takeWhile[OF this] show ?thesis using that live by simp
  qed
  ultimately show ?thesis using live len n by auto
qed

lemma pool_create_some:
  assumes "pe_calloc_ok env" "\<And>i. pe_create_ok env i"
  shows "\<exists>p ev cache'. pool_create env cache k cfg corpus threads = ((Some p, ev), cache')"
proof -
  have "0 < pool_threads threads (c_n_messages corpus div kgroup k)" by (simp add: pool_threads_def Let_def)
  then show ?thesis
    using assms by (auto simp: pool_create_def pool_prepare_def spawn_all Let_def split: prod.splits)
qed


section \<open>Properties\<close>


text \<open>A pool of vector kernels over any lane-wise operation sets, for any algorithm, stream
  count and number of threads, passes every run on the corpus built for it.\<close>

lemma pool_accepts_kernels:
  assumes "vec32 o32" and "vec64 o64"
    and "pool_create env cache kr cfg corpus threads = ((Some p, ev), cache')"
    and "vb_corpus_build alloc True (Some (the_alg a)) (kernel_lanes o32 o64 a) start n bytes = Some corpus"
    and "\<And>m words. alloc m = Some words \<Longrightarrow> length words = m"
    and "bytes \<le> VB_MAX_MSG_BYTES"
    and "0 < cf_iterations cfg" and "cf_iterations cfg = 1 \<or> digest_bytes (the_alg a) \<le> bytes"
    and "cf_alg cfg = the_alg a" and "cf_message_bytes cfg = bytes" and "\<And>i. pe_msg_ok env i"
    and "k_lanes kr = kernel_lanes o32 o64 a" and "k_streams kr = streams"
    and "0 < kernel_lanes o32 o64 a" and "k_lanes kr * k_streams kr dvd n"
    and "cf_have_expected cfg \<Longrightarrow>
      cf_expected cfg = vb_reference_checksum True (the_alg a) start n bytes (cf_iterations cfg)"
  shows "\<exists>p'. pool_run env (\<lambda>i r. cpu_kernel o32 o64 d a streams) elapsed reps p = (p', True, elapsed)
    \<and> pool_inv env kr cfg corpus p'"
  by (rule slice_kernel.pool_accepts[OF cpu_kernel_slices[OF assms(1,2)] pool_create_inv[OF assms(3)] assms(4) assms(5) assms(6-15)])
    (assumption | rule assms(16), assumption)+


text \<open>A pool for two threads over six messages, with the plain C MD5 kernel at two streams.\<close>

definition ok_env :: pool_env where
  "ok_env = \<lparr>pe_calloc_ok = True, pe_affinity = None, pe_online = 4, pe_pin_ok = (\<lambda>c. True),
     pe_pin_supported = True, pe_save_ok = True, pe_restore_ok = True,
     pe_create_ok = (\<lambda>i. True), pe_msg_ok = (\<lambda>i. True)\<rparr>"

definition small_cfg :: vb_config where
  "small_cfg = vb_config_defaults\<lparr>cf_iterations := 3, cf_message_bytes := 20, cf_alg := md5_alg\<rparr>"

definition small_row :: vb_kernel where
  "small_row = VB_ROW_KERNEL \<lparr>ce_alg = VB_ALG_MD5, ce_isa = SCALAR, ce_streams = 2, ce_isaname = ''scalar'',
     ce_avail = always, ce_lanes = 1, ce_lfn = None\<rparr>"

definition small_scratch :: "(u32, u64) scratch" where
  "small_scratch = \<lparr>sc_md5 = \<lparr>mk_slot = 0, mk_wp = 0, mk_wv = [], mk_h = [], mk_r = []\<rparr>,
     sc_sha1 = \<lparr>sk_slot = 0, sk_w = [], sk_fb = [], sk_h = [], sk_r = []\<rparr>,
     sc_sha512 = \<lparr>qk_slot = 0, qk_w = [], qk_fb = [], qk_h = [], qk_r = []\<rparr>\<rparr>"

lemma small_facts:
  "cf_alg small_cfg = md5_alg" "cf_message_bytes small_cfg = 20" "cf_iterations small_cfg = 3"
  "\<not> cf_have_expected small_cfg" "k_lanes small_row = 1" "k_streams small_row = 2"
  "kernel_lanes scalar_ops32 scalar_ops64 VB_ALG_MD5 = 1" "the_alg VB_ALG_MD5 = md5_alg"
  "pe_msg_ok ok_env i" "pe_calloc_ok ok_env" "pe_create_ok ok_env i" "md5_alg \<in> set ALGS"
  "digest_bytes md5_alg = 16" "20 \<le> VB_MAX_MSG_BYTES"
  by (simp_all add: small_cfg_def small_row_def ok_env_def vb_config_defaults_def VB_ROW_KERNEL_def
      kernel_lanes_def the_alg_def scalar_ops32_def ALGS_def md5_alg_def VB_MAX_MSG_BYTES_def)

lemma small_pool:
  obtains corpus p ev cache' where
    "vb_corpus_build (\<lambda>n. Some (replicate n 7)) True (Some md5_alg) 1 0 6 20 = Some corpus"
    "pool_create ok_env None small_row small_cfg corpus 2 = ((Some p, ev), cache')"
proof -
  obtain corpus where c: "vb_corpus_build (\<lambda>n. Some (replicate n 7)) True (Some md5_alg) 1 0 6 20 = Some corpus"
    using corpus_build_ok[where lanes=1 and n=6 and v=7 and a=md5_alg and start=0 and bytes=20] by auto
  show ?thesis
    using pool_create_some[of ok_env None small_row small_cfg corpus 2] small_facts(10,11) c that by blast
qed

lemma pool_accepts_kernels_witness:
  "\<exists>corpus p ev cache' p'. pool_create ok_env None small_row small_cfg corpus 2 = ((Some p, ev), cache')
    \<and> pool_run ok_env (\<lambda>i r. cpu_kernel scalar_ops32 scalar_ops64 small_scratch VB_ALG_MD5 2) 9 4 p = (p', True, 9)"
proof -
  obtain corpus p ev cache' where c:
    "vb_corpus_build (\<lambda>n. Some (replicate n 7)) True (Some md5_alg) 1 0 6 20 = Some corpus"
    "pool_create ok_env None small_row small_cfg corpus 2 = ((Some p, ev), cache')"
    by (rule small_pool)
  have "\<exists>p'. pool_run ok_env (\<lambda>i r. cpu_kernel scalar_ops32 scalar_ops64 small_scratch VB_ALG_MD5 2) 9 4 p = (p', True, 9)
      \<and> pool_inv ok_env small_row small_cfg corpus p'"
    by (rule pool_accepts_kernels[OF sc32.vec32_axioms sc64.vec64_axioms c(2),
          where alloc = "\<lambda>n. Some (replicate n 7)" and start = 0 and n = 6 and bytes = 20])
      (use c(1) in \<open>simp_all add: small_facts\<close>)
  then show ?thesis using c(2) by blast
qed


end
