(* ===== verification/Pool_Lifecycle.thy ===== *)
theory Pool_Lifecycle
  imports Kernel_Slices
begin

text \<open>
  What a pool leaves behind.  \<open>res_step\<close> says when each effect of the pool is allowed: a thread is
  created only over live memory, gate and barriers and before the gate opens; a join is allowed
  only for a thread that can end, which takes an aborted gate or a released stop; barriers, gate
  and memory go only when no thread is left.  Both ways out of \<open>pool_create\<close> and the way through
  \<open>pool_destroy\<close> follow it and end with nothing held.
\<close>

section \<open>The discipline of the effects\<close>

record resources =
  r_workers :: bool
  r_gate :: bool
  r_barriers :: bool
  r_live :: "nat list"
  r_open :: int
  r_stopped :: bool
  r_saved :: bool
  r_narrow :: bool
  r_warned :: bool

definition nothing_held :: resources where
  "nothing_held = \<lparr>r_workers = False, r_gate = False, r_barriers = False, r_live = [], r_open = 0,
     r_stopped = False, r_saved = False, r_narrow = False, r_warned = False\<rparr>"

fun res_step :: "pool_event \<Rightarrow> resources \<Rightarrow> resources option" where
  "res_step Alloc_workers s = (if r_workers s then None else Some (s\<lparr>r_workers := True\<rparr>))"
| "res_step Free_workers s = (if \<not> r_workers s \<or> r_live s \<noteq> [] then None else Some (s\<lparr>r_workers := False\<rparr>))"
| "res_step Gate_init s = (if r_gate s then None else Some (s\<lparr>r_gate := True, r_open := 0\<rparr>))"
| "res_step Gate_destroy s = (if \<not> r_gate s \<or> r_live s \<noteq> [] then None else Some (s\<lparr>r_gate := False, r_open := 0\<rparr>))"
| "res_step (Barriers_init n) s = (if r_barriers s then None else Some (s\<lparr>r_barriers := True\<rparr>))"
| "res_step Barriers_destroy s =
    (if \<not> r_barriers s \<or> r_live s \<noteq> [] then None else Some (s\<lparr>r_barriers := False, r_stopped := False\<rparr>))"
| "res_step Save_mask s = Some (s\<lparr>r_saved := True\<rparr>)"
| "res_step (Restore_mask ok) s =
    (if \<not> r_saved s then None else Some (s\<lparr>r_saved := False, r_narrow := r_narrow s \<and> \<not> ok\<rparr>))"
| "res_step Mask_warning s = (if r_saved s \<or> \<not> r_narrow s then None else Some (s\<lparr>r_warned := True\<rparr>))"
| "res_step (Pin c) s = (if c < 0 then None else Some (s\<lparr>r_narrow := True\<rparr>))"
| "res_step (Create i) s =
    (if r_workers s \<and> r_gate s \<and> r_barriers s \<and> r_open s = 0 \<and> i \<notin> set (r_live s)
     then Some (s\<lparr>r_live := r_live s @ [i]\<rparr>) else None)"
| "res_step (Join i) s =
    (if i \<in> set (r_live s) \<and> (r_open s = -1 \<or> r_stopped s)
     then Some (s\<lparr>r_live := remove1 i (r_live s)\<rparr>) else None)"
| "res_step (Set_gate v) s = (if r_gate s \<and> r_open s = 0 \<and> v \<noteq> 0 then Some (s\<lparr>r_open := v\<rparr>) else None)"
| "res_step Release_stop s = (if r_barriers s \<and> r_open s = 1 then Some (s\<lparr>r_stopped := True\<rparr>) else None)"

primrec res_run :: "pool_event list \<Rightarrow> resources \<Rightarrow> resources option" where
  "res_run [] s = Some s"
| "res_run (e # es) s = (case res_step e s of None \<Rightarrow> None | Some t \<Rightarrow> res_run es t)"

lemma res_run_append:
  "res_run (xs @ ys) s = (case res_run xs s of None \<Rightarrow> None | Some t \<Rightarrow> res_run ys t)"
  by (induction xs arbitrary: s) (auto split: option.splits)

lemma res_create:
  assumes "r_workers s" "r_gate s" "r_barriers s" "r_open s = 0" "r_live s = []"
  shows "res_run (map Create [1..<n]) s = Some (s\<lparr>r_live := [1..<n]\<rparr>)"
proof (induction n)
  case 0
  show ?case using assms(5) by simp
next
  case (Suc n)
  then show ?case using assms by (cases "1 \<le> n") (simp_all add: res_run_append)
qed

lemma res_join:
  "r_live s = [m..<n] \<Longrightarrow> m \<le> n \<Longrightarrow> r_open s = -1 \<or> r_stopped s \<Longrightarrow>
   res_run (map Join [m..<n]) s = Some (s\<lparr>r_live := []\<rparr>)"
proof (induction "n - m" arbitrary: m s)
  case 0
  then show ?case by simp
next
  case (Suc d)
  then have "[m..<n] = m # [Suc m..<n]" by (simp add: upt_rec)
  moreover have "res_run (map Join [Suc m..<n]) (s\<lparr>r_live := [Suc m..<n]\<rparr>) = Some (s\<lparr>r_live := []\<rparr>)"
    using Suc by (subst Suc(1)) auto
  ultimately show ?case using Suc by simp
qed


section \<open>The two ways through the pool\<close>

definition driver_pins :: "vb_worker list \<Rightarrow> bool" where
  "driver_pins ws \<longleftrightarrow> 0 \<le> w_cpu (ws ! 0)"

lemma prepare_events:
  assumes "pool_prepare env cache k cfg corpus n = (Some (p, ws, ev), cache')"
  shows "ev = [Alloc_workers, Gate_init, Barriers_init n]
      @ (if driver_pins ws then [Save_mask, Pin (w_cpu (ws ! 0))] else [])"
    and "p_have_caller_mask p \<longleftrightarrow> driver_pins ws \<and> pe_save_ok env" and "p_n p = n" and "p_w p = None"
  using assms by (auto simp: pool_prepare_def driver_pins_def Let_def split: prod.splits if_splits)

lemma prepare_run:
  assumes "pool_prepare env cache k cfg corpus n = (Some (p, ws, ev), cache')"
  shows "res_run ev nothing_held = Some (nothing_held\<lparr>r_workers := True, r_gate := True, r_barriers := True,
      r_saved := driver_pins ws, r_narrow := driver_pins ws\<rparr>)"
  unfolding prepare_events(1)[OF assms] by (simp add: nothing_held_def driver_pins_def)

lemma prepare_create_run:
  assumes "pool_prepare env cache k cfg corpus n = (Some (p, ws, ev), cache')" "g \<noteq> 0"
  shows "res_run (ev @ map Create [1..<m] @ [Set_gate g]) nothing_held
    = Some \<lparr>r_workers = True, r_gate = True, r_barriers = True, r_live = [1..<m], r_open = g,
        r_stopped = False, r_saved = driver_pins ws, r_narrow = driver_pins ws, r_warned = False\<rparr>"
  unfolding res_run_append[of ev] prepare_run[OF assms(1)] option.case res_run_append[of "map Create _"]
  by (subst res_create) (use assms(2) in \<open>simp_all add: nothing_held_def\<close>)

lemma abandon_run:
  assumes "r_workers s" "r_gate s" "r_barriers s" "r_live s = []" "r_saved s = b" "r_narrow s = b" "\<not> r_warned s"
    and "p_have_caller_mask p \<longrightarrow> b"
  shows "res_run (snd (pool_abandon env p)) s
    = Some (nothing_held\<lparr>r_saved := b \<and> \<not> p_have_caller_mask p,
        r_narrow := b \<and> \<not> p_have_caller_mask p \<or> p_have_caller_mask p \<and> \<not> pe_restore_ok env,
        r_warned := p_have_caller_mask p \<and> \<not> pe_restore_ok env\<rparr>)"
  using assms by (cases s) (simp add: pool_abandon_def restore_caller_def nothing_held_def)

text \<open>Runs between creation and destruction keep what the destruction depends on.\<close>

definition pool_runs ::
  "pool_env \<Rightarrow> ((nat \<Rightarrow> nat \<Rightarrow> kernel_fn) \<times> nat \<times> nat) list \<Rightarrow> vb_pool \<Rightarrow> vb_pool" where
  "pool_runs env runs p = fold (\<lambda>(fn, elapsed, reps) p. fst (pool_run env fn elapsed reps p)) runs p"

lemma setup_mask:
  "p_have_caller_mask (fold (worker_setup env) is p) = p_have_caller_mask p"
  "p_n (fold (worker_setup env) is p) = p_n p"
  by (induction "is" arbitrary: p) (simp_all add: worker_setup_def Let_def split: option.splits)

lemma pool_run_mask:
  "p_have_caller_mask (fst (pool_run env fn elapsed reps p)) = p_have_caller_mask p"
  "p_n (fst (pool_run env fn elapsed reps p)) = p_n p"
  "p_w (fst (pool_run env fn elapsed reps p)) \<noteq> None"
  by (simp_all add: pool_run_def Let_def setup_mask)

lemma pool_runs_mask:
  "p_have_caller_mask (pool_runs env runs p) = p_have_caller_mask p"
  "p_n (pool_runs env runs p) = p_n p"
  "p_w p \<noteq> None \<Longrightarrow> p_w (pool_runs env runs p) \<noteq> None"
  unfolding pool_runs_def
  by (induction runs arbitrary: p) (auto simp: pool_run_mask[simplified])

lemma destroy_run:
  assumes "p_w p \<noteq> None" "p_have_caller_mask p \<longrightarrow> b" "0 < p_n p"
  shows "res_run (snd (pool_destroy env p)) \<lparr>r_workers = True, r_gate = True, r_barriers = True,
      r_live = [1..<p_n p], r_open = 1, r_stopped = False, r_saved = b, r_narrow = b, r_warned = False\<rparr>
    = Some (nothing_held\<lparr>r_saved := b \<and> \<not> p_have_caller_mask p,
        r_narrow := b \<and> \<not> p_have_caller_mask p \<or> p_have_caller_mask p \<and> \<not> pe_restore_ok env,
        r_warned := p_have_caller_mask p \<and> \<not> pe_restore_ok env\<rparr>)"
proof -
  let ?p = "p\<lparr>p_stop := True\<rparr>"
  have e: "snd (pool_destroy env p) = Release_stop # map Join [1..<p_n p] @ snd (pool_abandon env ?p)"
    using assms(1) by (auto simp: pool_destroy_def Let_def split: prod.splits)
  have j: "res_run (map Join [1..<p_n p]) \<lparr>r_workers = True, r_gate = True, r_barriers = True,
      r_live = [1..<p_n p], r_open = 1, r_stopped = True, r_saved = b, r_narrow = b, r_warned = False\<rparr>
      = Some \<lparr>r_workers = True, r_gate = True, r_barriers = True,
      r_live = [], r_open = 1, r_stopped = True, r_saved = b, r_narrow = b, r_warned = False\<rparr>"
    using assms(3) by (subst res_join) simp_all
  show ?thesis
    unfolding e using assms(2)
    by (simp add: res_run_append j[simplified]) (subst abandon_run[where b = b], simp_all)
qed

lemma conj_imp: "(a \<and> (a \<longrightarrow> b)) = (a \<and> b)"
  by blast

lemma create_destroy:
  assumes "pool_create env cache k cfg corpus threads = ((created, ev), cache')"
  shows "case created of
      None \<Rightarrow> \<exists>b d. (pe_save_ok env \<longrightarrow> \<not> b) \<and> (pe_restore_ok env \<longrightarrow> \<not> d) \<and>
        res_run ev nothing_held = Some (nothing_held\<lparr>r_saved := b, r_narrow := b \<or> d, r_warned := d\<rparr>)
    | Some p \<Rightarrow> \<exists>b d. (pe_save_ok env \<longrightarrow> \<not> b) \<and> (pe_restore_ok env \<longrightarrow> \<not> d) \<and>
        (\<forall>q. p_w q \<noteq> None \<longrightarrow> p_n q = p_n p \<longrightarrow> p_have_caller_mask q = p_have_caller_mask p \<longrightarrow>
          res_run (ev @ snd (pool_destroy env q)) nothing_held
            = Some (nothing_held\<lparr>r_saved := b, r_narrow := b \<or> d, r_warned := d\<rparr>))"
proof -
  let ?n = "pool_threads threads (slice_groups k corpus)"
  have n: "0 < ?n" by (simp add: pool_threads_def Let_def)
  show ?thesis
  proof (cases "fst (pool_prepare env cache k cfg corpus ?n)")
    case None
    then have "created = None" "ev = []"
      using assms by (auto simp: pool_create_def Let_def slice_groups_def[symmetric] split: prod.splits)
    then show ?thesis by (auto simp: nothing_held_def intro!: exI[of _ False])
  next
    case (Some x)
    then obtain q ws ev0 c where P: "pool_prepare env cache k cfg corpus ?n = (Some (q, ws, ev0), c)"
      by (cases x; cases "pool_prepare env cache k cfg corpus ?n") auto
    obtain live short where sp: "spawn (pe_create_ok env) ?n = (live, short)" by fastforce
    note live = spawn_short[OF sp n] and Q = prepare_events[OF P]
    let ?b = "driver_pins ws \<and> \<not> pe_save_ok env"
    let ?d = "driver_pins ws \<and> pe_save_ok env \<and> \<not> pe_restore_ok env"
    show ?thesis
    proof (cases short)
      case True
      let ?q = "q\<lparr>p_gate := -1\<rparr>"
      have m1: "(-1 :: int) \<noteq> 0" by simp
      have c: "created = None" "ev = (ev0 @ map Create [1..<live] @ [Set_gate (-1)]) @ map Join [1..<live] @ snd (pool_abandon env ?q)"
        using assms P sp True by (simp_all add: pool_create_def Let_def slice_groups_def[symmetric])
      have "res_run ev nothing_held = Some (nothing_held\<lparr>r_saved := ?b, r_narrow := ?b \<or> ?d, r_warned := ?d\<rparr>)"
        unfolding c(2) res_run_append[of "ev0 @ _"] res_run_append[of "map Join _"]
          prepare_create_run[OF P m1] option.case
        using live Q(2) by (subst res_join) (simp_all add: abandon_run[where b = "driver_pins ws"] conj_imp)
      then show ?thesis using c(1) unfolding c(1) option.case
        by (intro exI[of _ ?b] exI[of _ ?d]) auto
    next
      case False
      then have l: "live = ?n" using live by simp
      obtain p where c: "created = Some p" "ev = ev0 @ map Create [1..<?n] @ [Set_gate 1]" "p_n p = ?n" "p_w p \<noteq> None"
        "p_have_caller_mask p = p_have_caller_mask q"
        using assms P sp False Q(3) l by (auto simp: pool_create_def Let_def slice_groups_def[symmetric])
      have pre: "res_run ev nothing_held = Some \<lparr>r_workers = True, r_gate = True, r_barriers = True,
          r_live = [1..<?n], r_open = 1, r_stopped = False, r_saved = driver_pins ws, r_narrow = driver_pins ws, r_warned = False\<rparr>"
        unfolding c(2) by (rule prepare_create_run[OF P one_neq_zero])
      have "res_run (ev @ snd (pool_destroy env r)) nothing_held
          = Some (nothing_held\<lparr>r_saved := ?b, r_narrow := ?b \<or> ?d, r_warned := ?d\<rparr>)"
        if "p_w r \<noteq> None" "p_n r = p_n p" "p_have_caller_mask r = p_have_caller_mask p" for r
        unfolding res_run_append[of ev] pre option.case
        using destroy_run[of r "driver_pins ws"] that c(3-5) n Q(2) by (simp add: conj_imp)
      then show ?thesis using c(1) unfolding c(1) option.case
        by (intro exI[of _ ?b] exI[of _ ?d]) auto
    qed
  qed
qed

text \<open>C20: a pool that cannot be created is left with nothing: every thread that was started has
  been let go and joined before its gate, barriers and memory went, and the caller's CPU mask is
  back if it could be read and the system accepts it again; a refused restore leaves the thread
  narrowed and is said on stderr.  The same holds of a pool that was created, run any number of times
  and destroyed.\<close>

theorem pool_lifecycle:
  assumes "pool_create env cache k cfg corpus threads = ((created, ev), cache')"
  shows "case created of
      None \<Rightarrow> \<exists>b d. (pe_save_ok env \<longrightarrow> \<not> b) \<and> (pe_restore_ok env \<longrightarrow> \<not> d) \<and>
        res_run ev nothing_held = Some (nothing_held\<lparr>r_saved := b, r_narrow := b \<or> d, r_warned := d\<rparr>)
    | Some p \<Rightarrow> \<exists>b d. (pe_save_ok env \<longrightarrow> \<not> b) \<and> (pe_restore_ok env \<longrightarrow> \<not> d) \<and>
        res_run (ev @ snd (pool_destroy env (pool_runs env runs p))) nothing_held
          = Some (nothing_held\<lparr>r_saved := b, r_narrow := b \<or> d, r_warned := d\<rparr>)"
proof (cases created)
  case None
  then show ?thesis using create_destroy[OF assms] by simp
next
  case (Some p)
  moreover have "p_w p \<noteq> None" using assms Some by (auto dest!: pool_create_inv simp: pool_inv_def)
  ultimately show ?thesis
    using create_destroy[OF assms] pool_runs_mask[where env = env and runs = runs and p = p] by auto
qed

lemma pool_lifecycle_witness:
  "\<exists>corpus p ev cache'. pool_create ok_env None small_row small_cfg corpus 2 = ((Some p, ev), cache') \<and>
    res_run (ev @ snd (pool_destroy ok_env (pool_runs ok_env [(\<lambda>i r c g b k. zero_checksum, 5, 2)] p))) nothing_held
      = Some nothing_held"
proof -
  obtain corpus p ev cache' where c: "pool_create ok_env None small_row small_cfg corpus 2 = ((Some p, ev), cache')"
    by (rule small_pool)
  have h: "nothing_held\<lparr>r_saved := False, r_narrow := False, r_warned := False\<rparr> = nothing_held"
    and s: "pe_save_ok ok_env" "pe_restore_ok ok_env"
    by (simp_all add: nothing_held_def ok_env_def)
  have "res_run (ev @ snd (pool_destroy ok_env (pool_runs ok_env [(\<lambda>i r c g b k. zero_checksum, 5, 2)] p))) nothing_held
      = Some nothing_held"
    using pool_lifecycle[OF c, where runs = "[(\<lambda>i r c g b k. zero_checksum, 5, 2)]"] s h by auto
  then show ?thesis using c by blast
qed

end
