(* ===== verification/Doubles.thy ===== *)
theory Doubles
  imports Complex_Main "HOL-Library.Log_Nat"
begin

text \<open>
  The C type \<open>double\<close> as the harness uses it: IEEE 754 binary64 with round to nearest even,
  subnormals, infinities and one NaN.  The sign of zero is not kept; no code of the program asks
  for it.  A finite value is the rational it denotes, and an operation is the exact one followed
  by \<open>rnd\<close>.
\<close>

section \<open>Rounding\<close>

definition pow2 :: "int \<Rightarrow> rat" where
  "pow2 e = (if 0 \<le> e then 2 ^ nat e else 1 / 2 ^ nat (- e))"

text \<open>The exponent of the leading bit of a positive rational: the difference of the bit lengths of
  numerator and denominator, or one less.\<close>

definition ilog2 :: "rat \<Rightarrow> int" where
  "ilog2 x = (let (a, b) = quotient_of x; g = bitlen a - bitlen b
              in if pow2 g \<le> x then g else g - 1)"

definition round_even :: "rat \<Rightarrow> int" where
  "round_even x = (let f = floor x; d = x - of_int f
     in if d < 1 / 2 then f else if 1 / 2 < d then f + 1 else if even f then f else f + 1)"

definition ulp_exp :: "rat \<Rightarrow> int" where
  "ulp_exp x = max (ilog2 x - 52) (- 1074)"

definition rnd_pos :: "rat \<Rightarrow> rat" where
  "rnd_pos x = of_int (round_even (x / pow2 (ulp_exp x))) * pow2 (ulp_exp x)"

definition rnd :: "rat \<Rightarrow> rat" where
  "rnd x = (if x = 0 then 0 else if x < 0 then - rnd_pos (- x) else rnd_pos x)"


section \<open>Values and operations\<close>

datatype double = NaN | Inf bool | Fin rat

definition finite_or_inf :: "rat \<Rightarrow> double" where
  "finite_or_inf x = (let r = rnd x in
     if pow2 1024 \<le> r then Inf True else if r \<le> - pow2 1024 then Inf False else Fin r)"

definition of_nat_d :: "nat \<Rightarrow> double" where
  "of_nat_d n = finite_or_inf (of_nat n)"

fun d_add :: "double \<Rightarrow> double \<Rightarrow> double" where
  "d_add (Fin x) (Fin y) = finite_or_inf (x + y)"
| "d_add (Inf s) (Inf t) = (if s = t then Inf s else NaN)"
| "d_add (Inf s) (Fin y) = Inf s"
| "d_add (Fin x) (Inf t) = Inf t"
| "d_add _ _ = NaN"

fun d_neg :: "double \<Rightarrow> double" where
  "d_neg (Fin x) = Fin (- x)" | "d_neg (Inf s) = Inf (\<not> s)" | "d_neg NaN = NaN"

definition d_sub :: "double \<Rightarrow> double \<Rightarrow> double" where
  "d_sub a b = d_add a (d_neg b)"

fun d_mul :: "double \<Rightarrow> double \<Rightarrow> double" where
  "d_mul (Fin x) (Fin y) = finite_or_inf (x * y)"
| "d_mul (Inf s) (Inf t) = Inf (s = t)"
| "d_mul (Inf s) (Fin y) = (if y = 0 then NaN else Inf (s = (0 < y)))"
| "d_mul (Fin x) (Inf t) = (if x = 0 then NaN else Inf (t = (0 < x)))"
| "d_mul _ _ = NaN"

text \<open>A zero divisor counts as positive.\<close>

fun d_div :: "double \<Rightarrow> double \<Rightarrow> double" where
  "d_div (Fin x) (Fin y) =
     (if y = 0 then (if x = 0 then NaN else Inf (0 < x)) else finite_or_inf (x / y))"
| "d_div (Inf s) (Fin y) = Inf (s = (0 \<le> y))"
| "d_div (Fin x) (Inf t) = Fin 0"
| "d_div _ _ = NaN"

fun d_lt :: "double \<Rightarrow> double \<Rightarrow> bool" where
  "d_lt (Fin x) (Fin y) = (x < y)"
| "d_lt (Inf s) (Inf t) = (\<not> s \<and> t)"
| "d_lt (Inf s) (Fin y) = (\<not> s)"
| "d_lt (Fin x) (Inf t) = t"
| "d_lt _ _ = False"

fun d_le :: "double \<Rightarrow> double \<Rightarrow> bool" where
  "d_le (Fin x) (Fin y) = (x \<le> y)"
| "d_le (Inf s) (Inf t) = (s = t \<or> t)"
| "d_le (Inf s) (Fin y) = (\<not> s)"
| "d_le (Fin x) (Inf t) = t"
| "d_le _ _ = False"

fun d_eq :: "double \<Rightarrow> double \<Rightarrow> bool" where
  "d_eq NaN _ = False" | "d_eq _ NaN = False" | "d_eq a b = (a = b)"

text \<open>The cast to \<open>uint64_t\<close> truncates.  C leaves it undefined when the truncated value is not one of
  the type, and for a NaN and the infinities: there the result is a value of the type of which nothing
  is known.\<close>

definition d_to_u64 :: "double \<Rightarrow> nat" where
  "d_to_u64 d = (case d of Fin x \<Rightarrow> if -1 < x \<and> x < 2 ^ 64 then nat (floor x) else undefined mod 2 ^ 64
       | _ \<Rightarrow> undefined mod 2 ^ 64)"

definition num :: "rat \<Rightarrow> double" where
  "num x = finite_or_inf x"


section \<open>Powers of two\<close>

lemma pow2_powi: "pow2 e = 2 powi e"
  unfolding pow2_def power_int_def by (simp only: inverse_eq_divide power_one_over)

lemma pow2_add: "pow2 (a + b) = pow2 a * pow2 b"
  by (simp add: pow2_powi power_int_add)

lemma pow2_pos [simp]: "0 < pow2 e"
  by (simp add: pow2_powi)

lemma pow2_nonneg [simp]: "0 \<le> pow2 e"
  by (rule less_imp_le) simp

lemma pow2_diff: "pow2 (a - b) = pow2 a / pow2 b"
  by (simp add: pow2_powi power_int_diff)

lemma pow2_le_iff [simp]: "pow2 a \<le> pow2 b \<longleftrightarrow> a \<le> b"
proof -
  have "a \<le> b \<Longrightarrow> pow2 a \<le> pow2 b" for a b by (simp add: pow2_powi power_int_increasing)
  moreover have "a < b \<Longrightarrow> pow2 a < pow2 b" for a b by (simp add: pow2_powi power_int_strict_increasing)
  ultimately show ?thesis by (metis leD leI)
qed

lemma pow2_less_iff [simp]: "pow2 a < pow2 b \<longleftrightarrow> a < b"
  using pow2_le_iff[of b a] by (simp only: not_le[symmetric])

lemma pow2_nat: "0 \<le> e \<Longrightarrow> pow2 e = 2 ^ nat e"
  by (simp add: pow2_def)

lemma ilog2_bounds:
  assumes "0 < x"
  shows "pow2 (ilog2 x) \<le> x" "x < pow2 (ilog2 x + 1)"
proof -
  obtain a b where ab: "quotient_of x = (a, b)" by fastforce
  have b: "0 < b" using quotient_of_denom_pos[OF ab] .
  have x: "x = of_int a / of_int b" using quotient_of_div[OF ab] .
  have a: "0 < a" using assms b by (simp add: x zero_less_divide_iff)
  have bits: "pow2 (bitlen c - 1) \<le> of_int c" "of_int c < pow2 (bitlen c)" "1 \<le> bitlen c" if "0 < c" for c
  proof -
    show l: "1 \<le> bitlen c" using that by (simp add: bitlen_alt_def)
    have "2 ^ nat (bitlen c - 1) \<le> c" "c < 2 ^ nat (bitlen c)" using bitlen_bounds[OF that] by simp_all
    then have "rat_of_int (2 ^ nat (bitlen c - 1)) \<le> of_int c" "rat_of_int c < of_int (2 ^ nat (bitlen c))"
      unfolding of_int_le_iff of_int_less_iff .
    then show "pow2 (bitlen c - 1) \<le> of_int c" "of_int c < pow2 (bitlen c)"
      using l by (simp_all add: pow2_nat)
  qed
  let ?g = "bitlen a - bitlen b"
  have up: "x < pow2 (?g + 1)"
  proof -
    have "x < pow2 (bitlen a) / of_int b" using bits(2)[OF a] b by (simp add: x divide_strict_right_mono)
    also have "\<dots> \<le> pow2 (bitlen a) / pow2 (bitlen b - 1)"
      using bits(1)[OF b] b by (intro divide_left_mono) simp_all
    also have "\<dots> = pow2 (?g + 1)" unfolding pow2_diff[symmetric] by (rule arg_cong[of _ _ pow2]) simp
    finally show ?thesis .
  qed
  have lo: "pow2 (?g - 1) \<le> x"
  proof -
    have "pow2 (?g - 1) = pow2 (bitlen a - 1) / pow2 (bitlen b)"
      unfolding pow2_diff[symmetric] by (rule arg_cong[of _ _ pow2]) simp
    also have "\<dots> \<le> pow2 (bitlen a - 1) / of_int b"
      using bits(2)[OF b] b by (intro divide_left_mono) simp_all
    also have "\<dots> \<le> x" using bits(1)[OF a] b by (simp add: x divide_right_mono)
    finally show ?thesis .
  qed
  show "pow2 (ilog2 x) \<le> x" "x < pow2 (ilog2 x + 1)"
    using up lo by (auto simp: ilog2_def ab Let_def)
qed

lemma ilog2_mono: "0 < x \<Longrightarrow> x \<le> y \<Longrightarrow> ilog2 x \<le> ilog2 y"
  using ilog2_bounds(1)[of x] ilog2_bounds(2)[of y] pow2_less_iff[of "ilog2 x" "ilog2 y + 1"] by linarith

lemma ilog2_less: "0 < x \<Longrightarrow> x < pow2 e \<Longrightarrow> ilog2 x < e"
  using ilog2_bounds(1)[of x] pow2_less_iff[of "ilog2 x" e] by linarith


section \<open>Rounding keeps order and exact values\<close>

lemma round_even_bounds: "of_int (round_even x) - 1 / 2 \<le> x" "x \<le> of_int (round_even x) + 1 / 2"
  by (auto simp: round_even_def Let_def) linarith+

lemma round_even_int [simp]: "round_even (of_int n) = n"
  by (simp add: round_even_def)

lemma round_even_mono: "x \<le> y \<Longrightarrow> round_even x \<le> round_even y"
proof -
  assume xy: "x \<le> y"
  then have f: "floor x \<le> floor y" by (rule floor_mono)
  have hi: "round_even x \<le> floor x + 1" and lo: "floor y \<le> round_even y"
    by (simp_all add: round_even_def Let_def)
  show ?thesis
  proof (cases "floor x = floor y")
    case True
    then show ?thesis using xy by (auto simp: round_even_def Let_def)
  next
    case False
    then show ?thesis using f hi lo by linarith
  qed
qed

lemma rnd_pos_mono:
  assumes "0 < x" "x \<le> y"
  shows "rnd_pos x \<le> rnd_pos y"
proof (cases "ulp_exp x = ulp_exp y")
  case True
  have "x / pow2 (ulp_exp y) \<le> y / pow2 (ulp_exp y)" using assms(2) by (intro divide_right_mono) simp_all
  then show ?thesis
    unfolding rnd_pos_def True by (intro mult_right_mono) (simp_all add: round_even_mono)
next
  case False
  let ?ex = "ulp_exp x" and ?ey = "ulp_exp y"
  have le: "?ex < ?ey" using False ilog2_mono[OF assms] by (auto simp: ulp_exp_def max_def)
  then have ey: "?ey = ilog2 y - 52" by (auto simp: ulp_exp_def)
  have "x < pow2 (?ex + 53)"
  proof -
    have "ilog2 x + 1 \<le> ?ex + 53" by (simp add: ulp_exp_def)
    then show ?thesis using ilog2_bounds(2)[OF assms(1)] unfolding pow2_le_iff[symmetric] by (rule less_le_trans[rotated])
  qed
  then have "x / pow2 ?ex \<le> of_int (2 ^ 53)"
    by (simp add: pow2_add pow2_nat[of 53] divide_le_eq)
  from round_even_mono[OF this] have "round_even (x / pow2 ?ex) \<le> 2 ^ 53" by (simp only: round_even_int)
  then have "rat_of_int (round_even (x / pow2 ?ex)) \<le> of_int (2 ^ 53)" by (simp only: of_int_le_iff)
  then have "rat_of_int (round_even (x / pow2 ?ex)) \<le> pow2 53" by (simp add: pow2_nat)
  then have "rnd_pos x \<le> pow2 53 * pow2 ?ex" by (simp add: rnd_pos_def mult_right_mono)
  also have "\<dots> \<le> pow2 52 * pow2 ?ey" using le by (simp add: pow2_add[symmetric])
  also have "\<dots> \<le> rnd_pos y"
  proof -
    have "of_int (2 ^ 52) \<le> y / pow2 ?ey"
    proof -
      have "pow2 52 * pow2 ?ey = pow2 (ilog2 y)" by (simp add: pow2_add[symmetric] ey)
      then have "pow2 52 * pow2 ?ey \<le> y" using ilog2_bounds(1)[of y] assms by simp
      then have "pow2 52 \<le> y / pow2 ?ey" by (simp only: le_divide_eq pow2_pos if_True)
      then show ?thesis by (simp add: pow2_nat)
    qed
    from round_even_mono[OF this] have "2 ^ 52 \<le> round_even (y / pow2 ?ey)" by (simp only: round_even_int)
    then have "rat_of_int (2 ^ 52) \<le> of_int (round_even (y / pow2 ?ey))" by (simp only: of_int_le_iff)
    then have "pow2 52 \<le> rat_of_int (round_even (y / pow2 ?ey))" by (simp add: pow2_nat)
    then show ?thesis by (simp add: rnd_pos_def mult_right_mono)
  qed
  finally show ?thesis .
qed

lemma rnd_pos_nonneg: "0 < x \<Longrightarrow> 0 \<le> rnd_pos x"
proof -
  assume "0 < x"
  then have "of_int 0 \<le> x / pow2 (ulp_exp x)" by simp
  from round_even_mono[OF this] have "0 \<le> round_even (x / pow2 (ulp_exp x))" by (simp only: round_even_int)
  then show ?thesis by (simp add: rnd_pos_def)
qed

lemma rnd_mono: "x \<le> y \<Longrightarrow> rnd x \<le> rnd y"
  using rnd_pos_mono[of x y] rnd_pos_mono[of "- y" "- x"] rnd_pos_nonneg[of y] rnd_pos_nonneg[of "- x"]
  by (auto simp: rnd_def)

lemma rnd_nat: "n \<le> 2 ^ 53 \<Longrightarrow> rnd (of_nat n) = of_nat n"
proof (cases "n = 0")
  case False
  assume n: "n \<le> 2 ^ 53"
  let ?x = "rat_of_nat n" and ?e = "ulp_exp (rat_of_nat n)"
  have "\<exists>m. ?x = of_int m * pow2 ?e"
  proof (cases "?e \<le> 0")
    case True
    then have "?x = of_int (int n * 2 ^ nat (- ?e)) * pow2 ?e"
      by (cases "?e = 0") (simp_all add: pow2_def)
    then show ?thesis by blast
  next
    case e: False
    have x: "0 < ?x" using False by simp
    have "53 \<le> ilog2 ?x" using e by (simp add: ulp_exp_def)
    then have "pow2 53 \<le> ?x" using ilog2_bounds(1)[OF x] pow2_le_iff[of 53 "ilog2 ?x"] by linarith
    moreover have "?x \<le> of_nat (2 ^ 53)" using n by (simp only: of_nat_le_iff)
    then have "?x \<le> pow2 53" by (simp add: pow2_nat)
    ultimately have X: "?x = pow2 53" by simp
    then have "ilog2 ?x \<le> 53" using ilog2_less[of ?x 54] x by simp
    then have "?e = 1" using e by (simp add: ulp_exp_def)
    then have "?x = of_int (2 ^ 52) * pow2 ?e" by (simp add: X pow2_nat)
    then show ?thesis by blast
  qed
  then obtain m where m: "?x = of_int m * pow2 ?e" by blast
  then have "?x / pow2 ?e = of_int m" by (metis nonzero_mult_div_cancel_right less_irrefl pow2_pos)
  then have "rnd_pos ?x = ?x" using m by (simp add: rnd_pos_def)
  then show ?thesis using False by (simp add: rnd_def)
qed (simp add: rnd_def)


section \<open>Values in the integer range\<close>

lemma two53_finite: "x \<le> 2 ^ 53 \<Longrightarrow> \<not> pow2 1024 \<le> x"
  using pow2_less_iff[of 53 1024] by (simp add: pow2_nat[of 53])

lemma finite_small:
  assumes "0 \<le> x" "x \<le> 2 ^ 53"
  shows "finite_or_inf x = Fin (rnd x)" "0 \<le> rnd x" "rnd x \<le> 2 ^ 53"
proof -
  have r: "0 \<le> rnd x" "rnd x \<le> 2 ^ 53"
    using rnd_mono[OF assms(1)] rnd_mono[OF assms(2)] rnd_nat[of 0] rnd_nat[of "2 ^ 53"] by simp_all
  then show "0 \<le> rnd x" "rnd x \<le> 2 ^ 53" .
  show "finite_or_inf x = Fin (rnd x)"
    using r two53_finite[OF r(2)] pow2_pos[of 1024] by (simp add: finite_or_inf_def Let_def)
qed

lemma of_nat_d_exact: "n \<le> 2 ^ 53 \<Longrightarrow> of_nat_d n = Fin (of_nat n)"
proof -
  assume n: "n \<le> 2 ^ 53"
  then have "rat_of_nat n \<le> of_nat (2 ^ 53)" by (simp only: of_nat_le_iff)
  then show ?thesis using finite_small(1)[of "of_nat n"] rnd_nat[OF n] by (simp add: of_nat_d_def)
qed

lemma num_exact: "n \<le> 2 ^ 53 \<Longrightarrow> num (of_nat n) = Fin (of_nat n)"
  using of_nat_d_exact[of n] by (simp add: num_def of_nat_d_def)

lemma num_small: "num 1 = Fin 1" "num 2 = Fin 2" "num 4 = Fin 4" "num 64 = Fin 64" "num 1000000 = Fin 1000000"
  using num_exact[of 1] num_exact[of 2] num_exact[of 4] num_exact[of 64] num_exact[of 1000000] by simp_all

lemma finite_or_inf_pos: "0 \<le> x \<Longrightarrow> finite_or_inf x = Inf True \<or> (\<exists>r \<ge> 0. finite_or_inf x = Fin r)"
  using rnd_mono[of 0 x] rnd_nat[of 0] pow2_pos[of 1024] by (auto simp: finite_or_inf_def Let_def)

lemma d_to_u64_small: "0 \<le> x \<Longrightarrow> x \<le> 2 ^ 53 \<Longrightarrow> d_to_u64 (Fin x) = nat (floor x)"
  by (simp add: d_to_u64_def)

text \<open>A product with a value of at least \<open>k\<close> is at least \<open>k\<close> times as large, after rounding and
  truncation, as long as everything stays in the integer range.\<close>

lemma scaled_at_least:
  assumes "of_nat k \<le> g" "g \<le> of_nat u" "n * u \<le> 2 ^ 53"
  shows "k * n \<le> d_to_u64 (d_mul (Fin (of_nat n)) (Fin g))" "d_to_u64 (d_mul (Fin (of_nat n)) (Fin g)) \<le> n * u"
proof -
  let ?x = "rat_of_nat n * g"
  have lo: "rat_of_nat (k * n) \<le> ?x" using mult_left_mono[OF assms(1), of "rat_of_nat n"] by (simp add: mult.commute)
  have hi: "?x \<le> rat_of_nat (n * u)" using assms(2) by (simp add: mult_left_mono)
  also have "\<dots> \<le> rat_of_nat (2 ^ 53)" using assms(3) by (simp only: of_nat_le_iff)
  finally have x: "?x \<le> 2 ^ 53" by simp
  have x0: "0 \<le> ?x" using lo by (rule order_trans[rotated]) simp
  have "k * n \<le> n * u" using order_trans[OF lo hi] by (simp only: of_nat_le_iff)
  then have kn: "k * n \<le> 2 ^ 53" using assms(3) by (rule order_trans)
  note f = finite_small[OF x0 x]
  have m: "d_to_u64 (d_mul (Fin (of_nat n)) (Fin g)) = nat (floor (rnd ?x))"
    using d_to_u64_small[OF f(2,3)] by (simp add: f(1))
  have "rat_of_nat (k * n) \<le> rnd ?x" using rnd_mono[OF lo] rnd_nat[OF kn] by simp
  then have "int (k * n) \<le> floor (rnd ?x)" by (simp only: le_floor_iff of_int_of_nat_eq)
  then show "k * n \<le> d_to_u64 (d_mul (Fin (of_nat n)) (Fin g))"
    unfolding m by linarith
  have "rnd ?x \<le> rat_of_nat (n * u)" using rnd_mono[OF hi] rnd_nat[OF assms(3)] by simp
  then have "floor (rnd ?x) \<le> int (n * u)" by (metis floor_mono floor_of_nat)
  then show "d_to_u64 (d_mul (Fin (of_nat n)) (Fin g)) \<le> n * u" unfolding m nat_le_iff .
qed

end
