(* ===== verification/Harness.thy ===== *)
theory Harness
  imports Pool_Lifecycle Doubles
begin

text \<open>
  The measuring half of src/bench.c on the CPU: the gate \<open>vb_validate_kernel\<close>, the statistics,
  and the calibration of the repetition count.  The machine is an oracle: the kernel's answers at
  every call of every pool run, the time each run takes, and the readings of the clock, each
  indexed by how many there have been.
\<close>

section \<open>The gate\<close>

text \<open>\<open>got\<close> and \<open>expected\<close> are the caller's buffers: what they hold is kept when the gate refuses
  a kernel before running it.\<close>

definition vb_validate_kernel ::
  "ref_env \<Rightarrow> nat \<Rightarrow> kernel_fn \<Rightarrow> vb_kernel \<Rightarrow> vb_config \<Rightarrow> vb_corpus \<Rightarrow> checksum \<Rightarrow> checksum \<Rightarrow>
    bool \<times> checksum \<times> checksum" where
  "vb_validate_kernel renv threads fn k cfg corpus got expected =
    (let group = k_lanes k * k_streams k
     in if \<not> vb_batch_divides k \<or> c_n_messages corpus mod group \<noteq> 0 then (False, got, expected)
     else
       let expected = (if cf_have_expected cfg then cf_expected cfg
              else vb_reference_checksum_mt renv (cf_alg cfg) (c_start_index corpus)
                     (c_n_messages corpus) (cf_message_bytes cfg) (cf_iterations cfg) threads);
           got = fn (c_words corpus) (c_n_messages corpus div group) (c_blocks corpus) (cf_iterations cfg)
       in (got = expected, got, expected))"


section \<open>Statistics\<close>

definition cmp_double :: "double \<Rightarrow> double \<Rightarrow> int" where
  "cmp_double x y = (if d_lt y x then 1 else 0) - (if d_lt x y then 1 else 0)"

text \<open>\<open>qsort\<close> with that comparison.\<close>

primrec d_insert :: "double \<Rightarrow> double list \<Rightarrow> double list" where
  "d_insert x [] = [x]"
| "d_insert x (y # ys) = (if cmp_double x y \<le> 0 then x # y # ys else y # d_insert x ys)"

definition d_sort :: "double list \<Rightarrow> double list" where
  "d_sort xs = foldr d_insert xs []"

definition vb_sqrt :: "double \<Rightarrow> double" where
  "vb_sqrt x =
    (if d_le x (Fin 0) then Fin 0
     else fst (fold (\<lambda>i (g, prev).
            if d_eq g prev then (g, prev)
            else (d_mul (num (1 / 2)) (d_add g (d_div x g)), g)) [0..<64] (x, Fin 0)))"

record vb_stats =
  st_min :: double
  st_max :: double
  st_median :: double
  st_mean :: double
  st_stddev :: double
  st_cov :: double

definition d_sum :: "double list \<Rightarrow> double" where
  "d_sum xs = fold (\<lambda>x s. d_add s x) xs (Fin 0)"

definition compute_stats :: "double list \<Rightarrow> vb_stats" where
  "compute_stats hps =
    (let n = length hps;
         sorted = d_sort hps;
         median = (if n mod 2 \<noteq> 0 then sorted ! (n div 2)
                   else d_mul (num (1 / 2)) (d_add (sorted ! (n div 2 - 1)) (sorted ! (n div 2))));
         mean = d_div (d_sum hps) (of_nat_d n);
         var = d_sum (map (\<lambda>x. let d = d_sub x mean in d_mul d d) hps);
         stddev = (if 1 < n then vb_sqrt (d_div var (of_nat_d (n - 1))) else Fin 0)
     in \<lparr>st_min = sorted ! 0, st_max = sorted ! (n - 1), st_median = median, st_mean = mean,
         st_stddev = stddev,
         st_cov = (if d_lt (Fin 0) mean then d_div (d_mul (num 100) stddev) mean else Fin 0)\<rparr>)"


section \<open>Calibration\<close>

text \<open>The two formulas calibration shares with the device path: how far to grow after a probe that
  was too short, and the count that would have met the target.\<close>

definition next_reps :: "double \<Rightarrow> nat \<Rightarrow> nat \<Rightarrow> nat" where
  "next_reps floor_ns ns reps =
    (let grow = (if ns \<noteq> 0 then d_div floor_ns (of_nat_d ns) else num 4);
         grow = (if d_lt grow (num 2) then num 2 else grow);
         grow = (if d_lt (num 64) grow then num 64 else grow);
         next = d_to_u64 (d_mul (of_nat_d reps) grow)
     in if reps < next then next else reps * 2)"

definition want_reps :: "double \<Rightarrow> nat \<Rightarrow> nat \<Rightarrow> nat" where
  "want_reps target_ns ns reps =
    (let want = d_mul (of_nat_d reps) (d_div target_ns (of_nat_d ns))
     in d_to_u64 (if d_lt want (num 1) then num 1 else want))"

record machine =
  mc_fn :: "nat \<Rightarrow> nat \<Rightarrow> nat \<Rightarrow> kernel_fn"
  mc_elapsed :: "nat \<Rightarrow> nat"
  mc_now :: "nat \<Rightarrow> nat"

text \<open>A pool in use, with the number of runs and of clock readings so far.  \<open>ru_log\<close> keeps, for
  the statements only, the pool each run started from and its repetition count.\<close>

record running =
  ru_pool :: vb_pool
  ru_runs :: nat
  ru_reads :: nat
  ru_log :: "(vb_pool \<times> nat) list"

definition do_run :: "pool_env \<Rightarrow> machine \<Rightarrow> nat \<Rightarrow> running \<Rightarrow> running \<times> bool \<times> nat" where
  "do_run env mc reps s =
    (let (p, ok, ns) = pool_run env (mc_fn mc (ru_runs s)) (mc_elapsed mc (ru_runs s)) reps (ru_pool s)
     in (s\<lparr>ru_pool := p, ru_runs := ru_runs s + 1, ru_log := ru_log s @ [(ru_pool s, reps)]\<rparr>, ok, ns))"

partial_function (option) calib_loop ::
  "pool_env \<Rightarrow> machine \<Rightarrow> double \<Rightarrow> double \<Rightarrow> nat \<Rightarrow> running \<Rightarrow> (nat \<times> running) option" where
  "calib_loop env mc target_ns floor_ns reps s =
    (let (s', ok, ns) = do_run env mc reps s
     in if \<not> ok then Some (0, s')
        else if d_le floor_ns (of_nat_d ns) then Some (want_reps target_ns ns reps, s')
        else
          let reps' = next_reps floor_ns ns reps
          in if reps' > 2 ^ 40 then Some (reps', s')
             else calib_loop env mc target_ns floor_ns reps' s')"

definition calib_target :: "nat \<Rightarrow> double" where
  "calib_target target_ms = d_mul (of_nat_d target_ms) (num 1000000)"

definition calibrate_reps :: "pool_env \<Rightarrow> machine \<Rightarrow> nat \<Rightarrow> running \<Rightarrow> (nat \<times> running) option" where
  "calibrate_reps env mc target_ms s =
    (let target_ns = calib_target target_ms;
         floor_ns = d_div target_ns (num 4);
         (s, ok, ns) = do_run env mc 1 s
     in if \<not> ok then Some (0, s) else calib_loop env mc target_ns floor_ns 1 s)"

text \<open>The warm-up runs until the clock has passed its end.  The clock is read once for each test.\<close>

partial_function (option) warm_up ::
  "pool_env \<Rightarrow> machine \<Rightarrow> nat \<Rightarrow> nat \<Rightarrow> running \<Rightarrow> (bool \<times> running) option" where
  "warm_up env mc warm_end reps s =
    (let now = mc_now mc (ru_reads s);
         s = s\<lparr>ru_reads := ru_reads s + 1\<rparr>
     in if now < warm_end then
          (let (s', ok, ns) = do_run env mc reps s
           in if \<not> ok then Some (False, s') else warm_up env mc warm_end reps s')
        else Some (True, s))"



section \<open>Calibration ends\<close>

lemma grow_range:
  fixes ns :: nat
  assumes "0 \<le> f"
  defines "g0 \<equiv> (if ns \<noteq> 0 then d_div (Fin f) (of_nat_d ns) else num 4)"
  defines "g1 \<equiv> (if d_lt g0 (num 2) then num 2 else g0)"
  shows "\<exists>g \<ge> 2. g \<le> 64 \<and> (if d_lt (num 64) g1 then num 64 else g1) = Fin g"
proof -
  have "(\<exists>x. g0 = Fin x) \<or> g0 = Inf True"
  proof (cases "ns = 0")
    case True
    then show ?thesis by (simp add: g0_def num_small)
  next
    case False
    then have "1 \<le> rnd (rat_of_nat ns)"
      using rnd_mono[of 1 "rat_of_nat ns"] rnd_nat[of 1] by simp
    then have "of_nat_d ns = Inf True \<or> (\<exists>y \<ge> 1. of_nat_d ns = Fin y)"
      using pow2_pos[of 1024] by (auto simp: of_nat_d_def finite_or_inf_def Let_def)
    then show ?thesis
    proof
      assume "\<exists>y \<ge> 1. of_nat_d ns = Fin y"
      then obtain y where y: "1 \<le> y" "of_nat_d ns = Fin y" by blast
      then have "0 \<le> f / y" using assms(1) by simp
      from finite_or_inf_pos[OF this] show ?thesis using False y by (auto simp: g0_def)
    qed (use False in \<open>simp add: g0_def\<close>)
  qed
  then show ?thesis by (auto simp: g1_def num_small)
qed

text \<open>A probe that was too short is followed by one with at least twice and at most 64 times the
  repetitions.\<close>

lemma next_reps_doubles:
  assumes "0 \<le> f" "0 < reps" "reps \<le> 2 ^ 46"
  shows "2 * reps \<le> next_reps (Fin f) ns reps" "next_reps (Fin f) ns reps \<le> 64 * reps"
proof -
  obtain g where g: "2 \<le> g" "g \<le> 64" "next_reps (Fin f) ns reps =
      (let next = d_to_u64 (d_mul (Fin (of_nat reps)) (Fin g)) in if reps < next then next else reps * 2)"
  proof -
    obtain g where g: "2 \<le> g" "g \<le> 64" "(if d_lt (num 64) (if d_lt (if ns \<noteq> 0 then d_div (Fin f) (of_nat_d ns)
        else num 4) (num 2) then num 2 else if ns \<noteq> 0 then d_div (Fin f) (of_nat_d ns) else num 4) then num 64
        else if d_lt (if ns \<noteq> 0 then d_div (Fin f) (of_nat_d ns) else num 4) (num 2) then num 2
        else if ns \<noteq> 0 then d_div (Fin f) (of_nat_d ns) else num 4) = Fin g"
      using grow_range[OF assms(1), of ns] by blast
    have "of_nat_d reps = Fin (of_nat reps)" using assms(3) by (intro of_nat_d_exact) simp
    then show ?thesis using that[OF g(1,2)] unfolding next_reps_def Let_def g(3) by (simp only:)
  qed
  have "2 * reps \<le> d_to_u64 (d_mul (Fin (of_nat reps)) (Fin g)) \<and> d_to_u64 (d_mul (Fin (of_nat reps)) (Fin g)) \<le> reps * 64"
    using scaled_at_least[of 2 g 64 reps] g(1,2) assms(3) by simp
  then show "2 * reps \<le> next_reps (Fin f) ns reps" "next_reps (Fin f) ns reps \<le> 64 * reps"
    using assms(2) by (auto simp: g(3) Let_def)
qed

lemma calib_target_fin:
  assumes "ms \<le> 3600000"
  shows "\<exists>f \<ge> 0. d_div (calib_target ms) (num 4) = Fin f"
proof -
  have "calib_target ms = finite_or_inf (of_nat (ms * 1000000))"
    using of_nat_d_exact[of ms] assms by (simp add: calib_target_def num_small)
  also have "\<dots> = Fin (of_nat (ms * 1000000))"
    using of_nat_d_exact[of "ms * 1000000"] assms by (simp add: of_nat_d_def)
  finally have t: "calib_target ms = Fin (of_nat (ms * 1000000))" .
  have "rat_of_nat (ms * 1000000) \<le> of_nat (3600000 * 1000000)"
    using assms by (simp only: of_nat_le_iff)
  then show ?thesis
    using finite_small[of "rat_of_nat (ms * 1000000) / 4"] by (simp add: t num_small del: of_nat_mult)
qed

lemma calib_loop_ends:
  assumes "0 \<le> f" "0 < reps" "reps \<le> 2 ^ 40" "2 ^ 40 < reps * 2 ^ n"
  shows "\<exists>r s'. calib_loop env mc target (Fin f) reps s = Some (r, s') \<and> ru_runs s' \<le> ru_runs s + n"
  using assms(2-)
proof (induction n arbitrary: reps s)
  case 0
  then show ?case by simp
next
  case (Suc n)
  obtain s' ok ns where d: "do_run env mc reps s = (s', ok, ns)" by (metis prod_cases3)
  then have runs: "ru_runs s' = ru_runs s + 1" by (auto simp: do_run_def Let_def split: prod.splits)
  let ?r = "next_reps (Fin f) ns reps"
  have r: "2 * reps \<le> ?r" using next_reps_doubles[OF assms(1)] Suc(2,3) by simp
  show ?case
  proof (cases "ok \<and> \<not> d_le (Fin f) (of_nat_d ns) \<and> ?r \<le> 2 ^ 40")
    case True
    have "(2 :: nat) ^ 40 < (2 * reps) * 2 ^ n" using Suc(4) by (simp only: power_Suc ac_simps)
    also have "\<dots> \<le> ?r * 2 ^ n" using r by (rule mult_right_mono) simp
    finally have "2 ^ 40 < ?r * 2 ^ n" .
    then obtain q t where q: "calib_loop env mc target (Fin f) ?r s' = Some (q, t)" "ru_runs t \<le> ru_runs s' + n"
      using Suc.IH[of ?r s'] True r Suc(2) by auto
    have "calib_loop env mc target (Fin f) reps s = calib_loop env mc target (Fin f) ?r s'"
      using True by (subst calib_loop.simps) (simp add: d)
    then show ?thesis using q runs by auto
  next
    case False
    then show ?thesis
      using runs by (subst calib_loop.simps) (auto simp: d Let_def)
  qed
qed

lemma do_run_runs: "do_run env mc reps s = (s', ok, ns) \<Longrightarrow> ru_runs s' = ru_runs s + 1 \<and> ru_reads s' = ru_reads s"
  by (auto simp: do_run_def Let_def split: prod.splits)

text \<open>C21: calibration always ends, after at most 42 runs of the pool, for every time target the
  command line accepts and whatever the clock and the kernel do.\<close>

theorem calibration_ends:
  assumes "target_ms \<le> 3600000"
  shows "\<exists>reps s'. calibrate_reps env mc target_ms s = Some (reps, s') \<and> ru_runs s' \<le> ru_runs s + 42"
proof -
  obtain f where f: "0 \<le> f" "d_div (calib_target target_ms) (num 4) = Fin f"
    using calib_target_fin[OF assms] by blast
  obtain s1 ok ns where d: "do_run env mc 1 s = (s1, ok, ns)" by (metis prod_cases3)
  have "\<exists>r s'. calib_loop env mc (calib_target target_ms) (Fin f) 1 s1 = Some (r, s') \<and> ru_runs s' \<le> ru_runs s1 + 41"
    by (rule calib_loop_ends[OF f(1)]) simp_all
  then show ?thesis
    using do_run_runs[OF d] by (auto simp: calibrate_reps_def f(2) d Let_def simp del: One_nat_def)
qed

lemma calibration_ends_witness:
  "\<exists>reps s'. calibrate_reps ok_env \<lparr>mc_fn = (\<lambda>n i r c g b k. zero_checksum), mc_elapsed = (\<lambda>n. 0), mc_now = (\<lambda>n. 0)\<rparr>
      100 \<lparr>ru_pool = \<lparr>p_n = 1, p_w = Some [empty_worker], p_blocks = 1, p_iterations = 1, p_reps = 0, p_stop = False,
        p_have_expected = False, p_expected = zero_checksum, p_gate = 1, p_pin_failed = False, p_pinned_cpus = 0,
        p_have_caller_mask = False\<rparr>, ru_runs = 0, ru_reads = 0, ru_log = []\<rparr> = Some (reps, s') \<and> ru_runs s' \<le> 42"
proof -
  let ?s = "\<lparr>ru_pool = \<lparr>p_n = 1, p_w = Some [empty_worker], p_blocks = 1, p_iterations = 1, p_reps = 0, p_stop = False,
        p_have_expected = False, p_expected = zero_checksum, p_gate = 1, p_pin_failed = False, p_pinned_cpus = 0,
        p_have_caller_mask = False\<rparr>, ru_runs = 0, ru_reads = 0, ru_log = []\<rparr>"
  have "(100 :: nat) \<le> 3600000" by simp
  from calibration_ends[OF this, of ok_env _ ?s] show ?thesis by (simp only: running.select_convs add_0)
qed


section \<open>What every run so far has shown\<close>

definition run_good :: "pool_env \<Rightarrow> machine \<Rightarrow> vb_kernel \<Rightarrow> vb_config \<Rightarrow> vb_corpus \<Rightarrow> running \<Rightarrow> bool" where
  "run_good env mc k cfg corpus s \<longleftrightarrow>
     pool_inv env k cfg corpus (ru_pool s) \<and> length (ru_log s) = ru_runs s \<and>
     (\<forall>c < ru_runs s. case ru_log s ! c of (p, reps) \<Rightarrow>
        pool_inv env k cfg corpus p \<and>
        (\<exists>p' ns. pool_run env (mc_fn mc c) (mc_elapsed mc c) reps p = (p', True, ns)))"

lemma do_run_good:
  assumes "run_good env mc k cfg corpus s" "do_run env mc reps s = (s', True, ns)"
  shows "run_good env mc k cfg corpus s'"
proof -
  obtain p where p: "pool_run env (mc_fn mc (ru_runs s)) (mc_elapsed mc (ru_runs s)) reps (ru_pool s) = (p, True, ns)"
    "s' = s\<lparr>ru_pool := p, ru_runs := ru_runs s + 1, ru_log := ru_log s @ [(ru_pool s, reps)]\<rparr>"
    using assms(2) by (auto simp: do_run_def Let_def split: prod.splits)
  then show ?thesis
    using assms(1) pool_run_ok(1)[of env k cfg corpus "ru_pool s", OF _ p(1)]
    by (auto simp: run_good_def nth_append less_Suc_eq)
qed

section \<open>Loops over runs\<close>

text \<open>A pair of predicates on a pool in use, one that every run keeps and one that every good run
  keeps.  Each loop of the harness then keeps the first, and the second unless it stopped at a bad
  run.\<close>

locale run_invariant =
  fixes env :: pool_env and mc :: machine and P G :: "running \<Rightarrow> bool"
  assumes run_P: "P s \<Longrightarrow> do_run env mc n s = (s', ok, ns) \<Longrightarrow> P s'"
    and run_G: "P s \<Longrightarrow> G s \<Longrightarrow> do_run env mc n s = (s', True, ns) \<Longrightarrow> G s'"
    and reads_P: "P s \<Longrightarrow> P (s\<lparr>ru_reads := m\<rparr>)"
    and reads_G: "G s \<Longrightarrow> G (s\<lparr>ru_reads := m\<rparr>)"
begin

lemma calib_loop_keeps:
  assumes "calib_loop env mc target floor_ns reps s = Some (r, s')" "P s" "G s"
  shows "P s' \<and> (r \<noteq> 0 \<longrightarrow> G s')"
proof -
  have "e = env \<longrightarrow> m = mc \<longrightarrow> P s \<longrightarrow> G s \<longrightarrow> P (snd y) \<and> (fst y \<noteq> 0 \<longrightarrow> G (snd y))"
    if "calib_loop e m t f n s = Some y" for e m t f n s y
  proof (rule calib_loop.raw_induct[OF _ that], goal_cases)
    case (1 loop e m t f n s y)
    obtain s1 ok ns where d: "do_run e m n s = (s1, ok, ns)" by (metis prod_cases3)
    show ?case
    proof (cases "ok \<and> \<not> d_le f (of_nat_d ns) \<and> next_reps f ns n \<le> 2 ^ 40")
      case True
      then have "loop e m t f (next_reps f ns n) s1 = Some y" using 1(2) by (simp add: d Let_def)
      from 1(1)[OF this] show ?thesis using d True run_P run_G by auto
    next
      case False
      then show ?thesis using 1(2) d run_P run_G by (auto simp: Let_def split: if_splits)
    qed
  qed
  from this[OF assms(1)] assms(2,3) show ?thesis by simp
qed

lemma calibrate_keeps:
  assumes "calibrate_reps env mc ms s = Some (r, s')" "P s" "G s"
  shows "P s' \<and> (r \<noteq> 0 \<longrightarrow> G s')"
proof -
  obtain s1 ok ns where d: "do_run env mc 1 s = (s1, ok, ns)" by (metis prod_cases3)
  show ?thesis
  proof (cases ok)
    case True
    then show ?thesis
      using assms d run_P[OF assms(2) d] run_G[OF assms(2,3)] calib_loop_keeps[of _ _ 1 s1 r s']
      by (auto simp: calibrate_reps_def Let_def simp del: One_nat_def)
  next
    case False
    then show ?thesis
      using assms d run_P[OF assms(2) d] by (auto simp: calibrate_reps_def Let_def simp del: One_nat_def)
  qed
qed

lemma warm_up_keeps:
  assumes "warm_up env mc warm_end reps s = Some (ok, s')" "P s" "G s"
  shows "P s' \<and> (ok \<longrightarrow> G s')"
proof -
  have "e = env \<longrightarrow> m = mc \<longrightarrow> P s \<longrightarrow> G s \<longrightarrow> P (snd y) \<and> (fst y \<longrightarrow> G (snd y))"
    if "warm_up e m w n s = Some y" for e m w n s y
  proof (rule warm_up.raw_induct[OF _ that], goal_cases)
    case (1 loop e m w n s y)
    let ?s = "s\<lparr>ru_reads := ru_reads s + 1\<rparr>"
    obtain s1 ok ns where d: "do_run e m n ?s = (s1, ok, ns)" by (metis prod_cases3)
    have P1: "e = env \<Longrightarrow> m = mc \<Longrightarrow> P s \<Longrightarrow> P s1"
      using run_P[OF reads_P, of s] d by blast
    have G1: "e = env \<Longrightarrow> m = mc \<Longrightarrow> P s \<Longrightarrow> G s \<Longrightarrow> ok \<Longrightarrow> G s1"
      using run_G[OF reads_P reads_G, of s] d by auto
    show ?case
    proof (cases "mc_now m (ru_reads s) < w \<and> ok")
      case True
      then have "loop e m w n s1 = Some y" using 1(2) d by (simp add: Let_def)
      from 1(1)[OF this] show ?thesis using True P1 G1 by auto
    next
      case False
      then show ?thesis using 1(2) d P1 reads_P reads_G by (auto simp: Let_def split: if_splits)
    qed
  qed
  from this[OF assms(1)] assms(2,3) show ?thesis by simp
qed

end

interpretation good_runs: run_invariant env mc "\<lambda>s. True" "run_good env mc k cfg corpus" for env mc k cfg corpus
  by unfold_locales (erule (1) do_run_good | simp add: run_good_def)+

text \<open>What taking a pool down depends on.\<close>

definition same_pool :: "vb_pool \<Rightarrow> running \<Rightarrow> bool" where
  "same_pool p s \<longleftrightarrow> p_have_caller_mask (ru_pool s) = p_have_caller_mask p \<and> p_n (ru_pool s) = p_n p
     \<and> p_w (ru_pool s) \<noteq> None"

interpretation held_pool: run_invariant env mc "same_pool p" "\<lambda>s. True" for env mc p
proof unfold_locales
  fix s s' n ok ns
  assume "same_pool p s" "do_run env mc n s = (s', ok, ns)"
  then show "same_pool p s'"
    using pool_run_mask[of env "mc_fn mc (ru_runs s)" "mc_elapsed mc (ru_runs s)" n "ru_pool s"]
    by (auto simp: do_run_def same_pool_def Let_def split: prod.splits)
qed (simp_all add: same_pool_def)


section \<open>The gate admits what the reference confirms\<close>

text \<open>The gate lets a kernel through exactly when the kernel tiles the batch and its answer for
  the whole corpus is the reference checksum, or the checksum the caller supplied.\<close>

lemma validate_gate:
  assumes "cf_alg cfg \<in> set ALGS" and "0 < cf_iterations cfg" and "k_lanes k * k_streams k dvd c_n_messages corpus"
    and "\<And>i. slice_ok renv i"
  shows "fst (vb_validate_kernel renv threads fn k cfg corpus got expected) \<longleftrightarrow>
    vb_batch_divides k \<and>
    fn (c_words corpus) (c_n_messages corpus div (k_lanes k * k_streams k)) (c_blocks corpus) (cf_iterations cfg)
      = (if cf_have_expected cfg then cf_expected cfg
         else vb_reference_checksum True (cf_alg cfg) (c_start_index corpus) (c_n_messages corpus)
                (cf_message_bytes cfg) (cf_iterations cfg))"
  using assms by (auto simp: vb_validate_kernel_def Let_def mt_checksum)

lemma validate_gate_witness:
  "fst (vb_validate_kernel \<lparr>tables_ok = False, flags_ok = True, slice_ok = (\<lambda>i. True), create_ok = (\<lambda>i. True), join_ok = (\<lambda>i. True),
      unjoined = (\<lambda>i. [])\<rparr> 4 (\<lambda>c g b k. vb_reference_checksum True md5_alg 0 768 20 3) small_row small_cfg
      \<lparr>c_words = [], c_n_words = 0, c_alg = md5_alg, c_lanes = 1, c_blocks = 1, c_message_bytes = 20,
       c_n_messages = 768, c_start_index = 0\<rparr> zero_checksum zero_checksum)"
  by (subst validate_gate) (simp_all add: small_facts vb_batch_divides_def VB_BATCH_LCM_def)

end
