(* ===== verification/Measure_Cpu.thy ===== *)
theory Measure_Cpu
  imports Harness
begin

text \<open>
  The CPU path of \<open>measure_with_corpus\<close> in src/bench.c: gate, pool, calibration, warm-up, second
  calibration and the timed samples, with the single exit that takes everything down again.  The
  power meter is modelled in its own theory; here its calls are events among those of the pool.
\<close>

section \<open>Results\<close>

record vb_result =
  r_kernel :: "vb_kernel option"
  r_threads :: nat
  r_iterations :: nat
  r_message_bytes :: nat
  r_blocks :: nat
  r_batch_messages :: nat
  r_working_set_bytes :: nat
  r_n_samples :: nat
  r_sample_hps :: "double list"
  r_stats :: "vb_stats option"
  r_hashes_per_iter :: nat
  r_total_hashes :: nat
  r_total_seconds :: double
  r_verified :: bool
  r_checksum :: checksum
  r_alg :: "vb_algorithm option"
  r_run_error :: string
  r_device_name :: string
  r_device_vendor :: string
  r_device_driver :: string
  r_device_error :: string
  r_device_backend :: string
  r_device_compiler :: string
  r_device_compiler_version :: string
  r_device_compile_mode :: string
  r_device_platform :: string
  r_device_pci :: string
  r_device_steers :: string
  r_device_primitives_neutral :: bool
  r_device_geometry_pinned :: bool
  r_device_global :: nat
  r_device_local :: nat
  r_device_repeats :: nat
  r_device_capacity :: nat
  r_device_count :: nat
  r_device_host_pinned :: bool
  r_device_pipe_chunks :: nat
  r_device_waves :: nat
  r_device_transfer_gbps :: double
  r_device_transfer_bytes :: nat
  r_device_kernel_ns_per_pass :: nat
  r_device_transfer_ns_per_pass :: nat
  r_device_busy :: double
  r_device_transfer_busy :: double
  r_device_overlap :: double
  r_compute_transfer_ratio :: double
  r_transfer :: vb_transfer_mode
  r_pin_failed :: bool
  r_pinned_cpus :: nat

definition zero_result :: vb_result where
  "zero_result = \<lparr>r_kernel = None, r_threads = 0, r_iterations = 0, r_message_bytes = 0, r_blocks = 0,
     r_batch_messages = 0, r_working_set_bytes = 0, r_n_samples = 0, r_sample_hps = [], r_stats = None,
     r_hashes_per_iter = 0, r_total_hashes = 0, r_total_seconds = Fin 0, r_verified = False,
     r_checksum = zero_checksum, r_alg = None, r_run_error = [], r_device_name = [],
     r_device_vendor = [], r_device_driver = [], r_device_error = [], r_device_backend = [],
     r_device_compiler = [], r_device_compiler_version = [], r_device_compile_mode = [],
     r_device_platform = [], r_device_pci = [], r_device_steers = [],
     r_device_primitives_neutral = False, r_device_geometry_pinned = False, r_device_global = 0,
     r_device_local = 0, r_device_repeats = 0, r_device_capacity = 0, r_device_count = 0,
     r_device_host_pinned = False, r_device_pipe_chunks = 0, r_device_waves = 0,
     r_device_transfer_gbps = Fin 0, r_device_transfer_bytes = 0, r_device_kernel_ns_per_pass = 0, r_device_transfer_ns_per_pass = 0,
     r_device_busy = Fin 0, r_device_transfer_busy = Fin 0, r_device_overlap = Fin 0,
     r_compute_transfer_ratio = Fin 0, r_transfer = VB_TRANSFER_RESIDENT, r_pin_failed = False,
     r_pinned_cpus = 0\<rparr>"

datatype measure_event =
    Power_open | Power_attribute bool nat | Power_begin | Power_end | Power_close
  | Pool_effect pool_event

definition result_header :: "vb_kernel \<Rightarrow> vb_config \<Rightarrow> vb_corpus \<Rightarrow> vb_result" where
  "result_header k cfg corpus = zero_result
    \<lparr>r_kernel := Some k, r_iterations := cf_iterations cfg, r_message_bytes := cf_message_bytes cfg,
     r_alg := Some (cf_alg cfg), r_blocks := c_blocks corpus, r_batch_messages := c_n_messages corpus,
     r_working_set_bytes := c_n_messages corpus * c_blocks corpus * block_bytes (c_alg corpus)\<rparr>"


section \<open>The samples\<close>

definition ns_to_sec :: "nat \<Rightarrow> double" where
  "ns_to_sec ns = d_div (of_nat_d ns) (num 1000000000)"

definition add_sample :: "nat \<Rightarrow> vb_result \<Rightarrow> vb_result" where
  "add_sample ns out =
    (let sec = ns_to_sec ns
     in out\<lparr>r_sample_hps := r_sample_hps out @ [d_div (of_nat_d (r_hashes_per_iter out)) sec],
            r_total_seconds := d_add (r_total_seconds out) sec,
            r_total_hashes := r_total_hashes out + r_hashes_per_iter out\<rparr>)"

text \<open>\<open>for (i = 0; i < n; i++)\<close> with its early exit; the flag says whether all samples were good.\<close>

function samples :: "pool_env \<Rightarrow> machine \<Rightarrow> nat \<Rightarrow> nat \<Rightarrow> nat \<Rightarrow> running \<Rightarrow> vb_result \<Rightarrow> bool \<times> running \<times> vb_result" where
  "samples env mc reps n i s out =
    (if i < n then
       (let (s', ok, ns) = do_run env mc reps s
        in if \<not> ok then (False, s', out\<lparr>r_verified := False, r_n_samples := i\<rparr>)
           else samples env mc reps n (i + 1) s' (add_sample ns out))
     else (True, s, out))"
  by auto
termination by (relation "measure (\<lambda>(env, mc, reps, n, i, s, out). n - i)") auto

declare samples.simps [simp del]


section \<open>The measurement\<close>

text \<open>What the calls outside the harness answer: the machine, the environments of pool and
  reference, the kernel of the single-threaded gate, and what the stack held where \<open>got\<close> and
  \<open>expected\<close> lie.\<close>

record system =
  sy_mc :: machine
  sy_pool :: pool_env
  sy_ref :: ref_env
  sy_gate_fn :: kernel_fn
  sy_junk_got :: checksum
  sy_junk_expected :: checksum

text \<open>Where the body stops: the return code, the result, the pool in use if one is up, and whether the
  power meter is running.\<close>

record measure_exit =
  mx_rc :: int
  mx_out :: vb_result
  mx_run :: "running option"
  mx_power :: bool
  mx_events :: "measure_event list"
  mx_cache :: cpu_cache

definition measure_body ::
  "system \<Rightarrow> cpu_cache \<Rightarrow> vb_kernel \<Rightarrow> vb_config \<Rightarrow> vb_corpus \<Rightarrow> nat \<Rightarrow> nat \<Rightarrow> measure_exit option" where
  "measure_body sy cache k cfg corpus threads ref_threads =
    (let env = sy_pool sy; mc = sy_mc sy;
         out = result_header k cfg corpus;
         stop = (\<lambda>rc out run power ev cache. Some \<lparr>mx_rc = rc, mx_out = out, mx_run = run,
            mx_power = power, mx_events = ev, mx_cache = cache\<rparr>);
         (valid, got, expected) = vb_validate_kernel (sy_ref sy) ref_threads (sy_gate_fn sy) k cfg corpus
            (sy_junk_got sy) (sy_junk_expected sy)
     in if \<not> valid then stop 1 (out\<lparr>r_verified := False, r_checksum := got\<rparr>) None False [] cache
     else
       let out = out\<lparr>r_checksum := expected\<rparr>;
           ev = [Power_attribute True 0]
       in case pool_create env cache k cfg corpus threads of
            ((None, pev), cache) \<Rightarrow>
              stop 1 (out\<lparr>r_verified := False, r_run_error := ''could not start a pool of '' @ dec threads @ '' worker threads''\<rparr>)
                None False (ev @ map Pool_effect pev) cache
          | ((Some p, pev), cache) \<Rightarrow>
              let ev = ev @ map Pool_effect pev;
                  out = out\<lparr>r_threads := p_n p, r_pinned_cpus := p_pinned_cpus p\<rparr>
              in case calibrate_reps env mc (cf_target_ms cfg) \<lparr>ru_pool = p, ru_runs = 0, ru_reads = 0, ru_log = []\<rparr> of
                   None \<Rightarrow> None
                 | Some (reps, s) \<Rightarrow>
                     let out = out\<lparr>r_pin_failed := p_pin_failed (ru_pool s)\<rparr>
                     in if reps = 0 then stop 1 (out\<lparr>r_verified := False\<rparr>) (Some s) False ev cache
                     else
                       let warm_end = mc_now mc (ru_reads s) + cf_warmup_ms cfg * 1000000;
                           s = s\<lparr>ru_reads := ru_reads s + 1\<rparr>
                       in case warm_up env mc warm_end reps s of
                            None \<Rightarrow> None
                          | Some (False, s) \<Rightarrow> stop 1 (out\<lparr>r_verified := False\<rparr>) (Some s) False ev cache
                          | Some (True, s) \<Rightarrow>
                              let (s, ok, ns) = do_run env mc reps s
                              in if \<not> ok then stop 1 (out\<lparr>r_verified := False\<rparr>) (Some s) False ev cache
                              else
                                let reps = (if 0 < ns then want_reps (calib_target (cf_target_ms cfg)) ns reps else reps);
                                    n = (if VB_MAX_SAMPLES < cf_n_samples cfg then VB_MAX_SAMPLES else cf_n_samples cfg);
                                    out = out\<lparr>r_hashes_per_iter := reps * c_n_messages corpus\<rparr>;
                                    ev = ev @ [Power_begin];
                                    (good, s, out) = samples env mc reps n 0 s out
                                in if \<not> good then stop 1 out (Some s) True ev cache
                                else stop 0 (out\<lparr>r_n_samples := n, r_verified := True,
                                               r_stats := Some (compute_stats (r_sample_hps out))\<rparr>)
                                       (Some s) False (ev @ [Power_end]) cache)"

text \<open>The exit at \<open>done\<close>, which every path of the body reaches.\<close>

definition measure_cpu ::
  "system \<Rightarrow> cpu_cache \<Rightarrow> vb_kernel \<Rightarrow> vb_config \<Rightarrow> vb_corpus \<Rightarrow> nat \<Rightarrow> nat \<Rightarrow>
    (int \<times> vb_result \<times> measure_event list \<times> cpu_cache) option" where
  "measure_cpu sy cache k cfg corpus threads ref_threads =
    (case measure_body sy cache k cfg corpus threads ref_threads of
       None \<Rightarrow> None
     | Some x \<Rightarrow> Some (mx_rc x, mx_out x,
         [Power_open] @ mx_events x
           @ (if mx_power x then [Power_end] else [])
           @ (case mx_run x of None \<Rightarrow> [] | Some s \<Rightarrow> map Pool_effect (snd (pool_destroy (sy_pool sy) (ru_pool s))))
           @ [Power_close], mx_cache x))"


section \<open>What the loops keep\<close>

context run_invariant
begin

lemma samples_keeps:
  "samples env mc reps n i s out = (ok, s', out') \<Longrightarrow> P s \<Longrightarrow> G s \<Longrightarrow> P s' \<and> (ok \<longrightarrow> G s')"
proof (induction "n - i" arbitrary: i s out)
  case 0
  then show ?case by (subst (asm) samples.simps) simp
next
  case (Suc m)
  obtain s1 ok1 ns where d: "do_run env mc reps s = (s1, ok1, ns)" by (metis prod_cases3)
  have i: "i < n" and m: "m = n - (i + 1)" using Suc(2) by simp_all
  show ?case
  proof (cases ok1)
    case True
    have e: "samples env mc reps n (i + 1) s1 (add_sample ns out) = (ok, s', out')"
      using Suc(3) True d i by (subst (asm) samples.simps) simp
    have "do_run env mc reps s = (s1, True, ns)" using d True by simp
    from Suc(1)[OF m e run_P[OF Suc(4) d] run_G[OF Suc(4,5) this]] show ?thesis .
  next
    case False
    then show ?thesis
      using Suc(3) d i run_P[OF Suc(4) d] by (subst (asm) samples.simps) simp
  qed
qed

end

lemma samples_out:
  "samples env mc reps n i s out = (ok, s', out') \<Longrightarrow>
   r_run_error out' = r_run_error out \<and> (\<not> ok \<longrightarrow> \<not> r_verified out') \<and> r_checksum out' = r_checksum out
   \<and> (ok \<longrightarrow> length (r_sample_hps out') = length (r_sample_hps out) + (n - i))"
proof (induction "n - i" arbitrary: i s out)
  case 0
  then show ?case by (subst (asm) samples.simps) simp
next
  case (Suc m)
  obtain s1 ok1 ns where d: "do_run env mc reps s = (s1, ok1, ns)" by (metis prod_cases3)
  have i: "i < n" and m: "m = n - (i + 1)" using Suc(2) by simp_all
  show ?case
  proof (cases ok1)
    case True
    have e: "samples env mc reps n (i + 1) s1 (add_sample ns out) = (ok, s', out')"
      using Suc(3) True d i by (subst (asm) samples.simps) simp
    from Suc(1)[OF m e] i show ?thesis by (auto simp: add_sample_def Let_def)
  next
    case False
    then show ?thesis using Suc(3) d i by (subst (asm) samples.simps) auto
  qed
qed

text \<open>The start of a pool's use.\<close>

lemma created_pool:
  assumes "pool_create env cache k cfg corpus threads = ((Some p, pev), c)"
  defines "s \<equiv> \<lparr>ru_pool = p, ru_runs = 0, ru_reads = 0, ru_log = []\<rparr>"
  shows "same_pool p s" "run_good env mc k cfg corpus s"
  using pool_create_inv[OF assms(1)] by (auto simp: s_def same_pool_def run_good_def pool_inv_def)

text \<open>Where the body can stop, and with what.\<close>

lemma measure_body_exit:
  assumes "measure_body sy cache k cfg corpus threads rt = Some x"
  obtains (gate) "mx_rc x = 1" "mx_run x = None" "mx_events x = []" "\<not> mx_power x"
      "\<not> fst (vb_validate_kernel (sy_ref sy) rt (sy_gate_fn sy) k cfg corpus
                (sy_junk_got sy) (sy_junk_expected sy))"
      "\<not> r_verified (mx_out x)" "r_run_error (mx_out x) = []"
  | (no_pool) pev c where "mx_rc x = 1" "mx_run x = None" "\<not> mx_power x"
      "mx_events x = Power_attribute True 0 # map Pool_effect pev"
      "pool_create (sy_pool sy) cache k cfg corpus threads = ((None, pev), c)"
      "\<not> r_verified (mx_out x)" "r_run_error (mx_out x) \<noteq> []"
  | (bad_run) p pev c s where "mx_rc x = 1" "mx_run x = Some s"
      "pool_create (sy_pool sy) cache k cfg corpus threads = ((Some p, pev), c)" "same_pool p s"
      "mx_events x = Power_attribute True 0 # map Pool_effect pev @ (if mx_power x then [Power_begin] else [])"
      "\<not> r_verified (mx_out x)" "r_run_error (mx_out x) = []"
  | (finished) p pev c s where "mx_rc x = 0" "mx_run x = Some s" "\<not> mx_power x"
      "pool_create (sy_pool sy) cache k cfg corpus threads = ((Some p, pev), c)" "same_pool p s"
      "mx_events x = Power_attribute True 0 # map Pool_effect pev @ [Power_begin, Power_end]"
      "r_verified (mx_out x)" "r_run_error (mx_out x) = []"
      "run_good (sy_pool sy) (sy_mc sy) k cfg corpus s"
      "vb_validate_kernel (sy_ref sy) rt (sy_gate_fn sy) k cfg corpus
                (sy_junk_got sy) (sy_junk_expected sy) = (True, r_checksum (mx_out x), r_checksum (mx_out x))"
proof -
  let ?env = "sy_pool sy" and ?mc = "sy_mc sy"
  obtain valid got expected where V: "vb_validate_kernel (sy_ref sy) rt (sy_gate_fn sy) k cfg corpus
      (sy_junk_got sy) (sy_junk_expected sy) = (valid, got, expected)" by (metis prod_cases3)
  have h: "r_run_error (result_header k cfg corpus) = []" by (simp add: result_header_def zero_result_def)
  note B = assms[unfolded measure_body_def Let_def V prod.case]
  show ?thesis
  proof (cases valid)
    case False
    then show ?thesis using B V h by (intro gate) auto
  next
    case val: True
    obtain cr pev c where C: "pool_create ?env cache k cfg corpus threads = ((cr, pev), c)" by (metis prod.exhaust)
    note B1 = B[unfolded C prod.case, simplified val not_True_eq_False if_False]
    show ?thesis
    proof (cases cr)
      case None
      then show ?thesis using B1 C by (intro no_pool[of pev c]) auto
    next
      case (Some p)
      let ?s0 = "\<lparr>ru_pool = p, ru_runs = 0, ru_reads = 0, ru_log = []\<rparr>"
      note C' = C[unfolded Some] and B2 = B1[unfolded Some option.case]
      note S0 = created_pool[OF C']
      obtain reps s where K: "calibrate_reps ?env ?mc (cf_target_ms cfg) ?s0 = Some (reps, s)"
        using B2 by (auto split: option.splits)
      note B3 = B2[unfolded K option.case prod.case]
      have Ks: "same_pool p s" "reps \<noteq> 0 \<Longrightarrow> run_good ?env ?mc k cfg corpus s"
        using held_pool.calibrate_keeps[OF K S0(1)] good_runs.calibrate_keeps[OF K _ S0(2)] by simp_all
      show ?thesis
      proof (cases "reps = 0")
        case True
        then show ?thesis using B3 C' Ks h by (intro bad_run[of s p pev c]) auto
      next
        case reps: False
        let ?s1 = "s\<lparr>ru_reads := ru_reads s + 1\<rparr>"
        have S1: "same_pool p ?s1" "run_good ?env ?mc k cfg corpus ?s1"
          using Ks reps by (simp_all add: same_pool_def run_good_def)
        obtain wok s2 where W: "warm_up ?env ?mc (mc_now ?mc (ru_reads s) + cf_warmup_ms cfg * 1000000) reps ?s1 = Some (wok, s2)"
          using B3 reps by (auto split: option.splits)
        note B4 = B3[unfolded W option.case prod.case, simplified reps if_False]
        have Ws: "same_pool p s2" "wok \<Longrightarrow> run_good ?env ?mc k cfg corpus s2"
          using held_pool.warm_up_keeps[OF W S1(1)] good_runs.warm_up_keeps[OF W _ S1(2)] by simp_all
        obtain s3 ok ns where D: "do_run ?env ?mc reps s2 = (s3, ok, ns)" by (metis prod_cases3)
        have Ds: "same_pool p s3" "wok \<Longrightarrow> ok \<Longrightarrow> run_good ?env ?mc k cfg corpus s3"
          using held_pool.run_P[OF Ws(1) D] do_run_good[OF Ws(2)] D by simp_all
        show ?thesis
        proof (cases "wok \<and> ok")
          case False
          then show ?thesis using B4 C' Ws Ds D reps h
            by (cases wok) (auto intro!: bad_run[of _ p pev c] simp: reps)
        next
          case True
          define reps2 where "reps2 = (if 0 < ns then want_reps (calib_target (cf_target_ms cfg)) ns reps else reps)"
          define n where "n = (if VB_MAX_SAMPLES < cf_n_samples cfg then VB_MAX_SAMPLES else cf_n_samples cfg)"
          define out where "out = (result_header k cfg corpus)\<lparr>r_checksum := expected, r_threads := p_n p,
            r_pinned_cpus := p_pinned_cpus p, r_pin_failed := p_pin_failed (ru_pool s),
            r_hashes_per_iter := reps2 * c_n_messages corpus\<rparr>"
          obtain good s4 out4 where M: "samples ?env ?mc reps2 n 0 s3 out = (good, s4, out4)" by (metis prod_cases3)
          have Ms: "same_pool p s4" "good \<Longrightarrow> run_good ?env ?mc k cfg corpus s4"
            using held_pool.samples_keeps[OF M Ds(1)] good_runs.samples_keeps[OF M _ Ds(2)] True by simp_all
          have Mo: "r_run_error out4 = []" "\<not> good \<Longrightarrow> \<not> r_verified out4" "r_checksum out4 = expected"
            using samples_out[OF M] h by (simp_all add: out_def)
          have V': "vb_validate_kernel (sy_ref sy) rt (sy_gate_fn sy) k cfg corpus
              (sy_junk_got sy) (sy_junk_expected sy) = (True, expected, expected)"
            using V val by (auto simp: vb_validate_kernel_def Let_def split: if_splits)
          have wo: "wok" "ok" using True by simp_all
          note B5 = B4[unfolded D prod.case, simplified wo not_True_eq_False if_False if_True,
              folded reps2_def n_def, folded out_def, unfolded M prod.case]
          show ?thesis
          proof (cases good)
            case True
            then show ?thesis
              using B5 Ms Mo C' V' by (intro finished[of s4 p pev c]) auto
          next
            case False
            then show ?thesis
              using B5 Ms Mo C' by (intro bad_run[of s4 p pev c]) auto
          qed
        qed
      qed
    qed
  qed
qed


section \<open>Properties\<close>


text \<open>The calls to the power meter, and the effects of the pool, in the order they happened.\<close>

definition power_part :: "measure_event list \<Rightarrow> measure_event list" where
  "power_part ev = filter (\<lambda>e. case e of Pool_effect x \<Rightarrow> False | _ \<Rightarrow> True) ev"

definition pool_part :: "measure_event list \<Rightarrow> pool_event list" where
  "pool_part ev = concat (map (\<lambda>e. case e of Pool_effect x \<Rightarrow> [x] | _ \<Rightarrow> []) ev)"

lemma event_parts [simp]:
  "power_part [] = []" "pool_part [] = []"
  "power_part (xs @ ys) = power_part xs @ power_part ys" "pool_part (xs @ ys) = pool_part xs @ pool_part ys"
  "power_part (map Pool_effect es) = []" "pool_part (map Pool_effect es) = es"
  "power_part (Power_open # xs) = Power_open # power_part xs" "pool_part (Power_open # xs) = pool_part xs"
  "power_part (Power_attribute c n # xs) = Power_attribute c n # power_part xs" "pool_part (Power_attribute c n # xs) = pool_part xs"
  "power_part (Power_begin # xs) = Power_begin # power_part xs" "pool_part (Power_begin # xs) = pool_part xs"
  "power_part (Power_end # xs) = Power_end # power_part xs" "pool_part (Power_end # xs) = pool_part xs"
  "power_part (Power_close # xs) = Power_close # power_part xs" "pool_part (Power_close # xs) = pool_part xs"
  by (simp_all add: power_part_def pool_part_def concat_map_singleton[where f = id, simplified] comp_def)

text \<open>C22: every way out of the CPU measurement opens and closes the power meter once, begins and ends it
  together, and gives back the pool's threads, gate, barriers and memory.  The caller's mask is back as
  well when it could be read and the system accepts it again; a mask that could not be read stays
  narrowed, and so does one whose restore is refused, which is said on stderr.\<close>

theorem measurement_gives_back:
  assumes "measure_cpu sy cache k cfg corpus threads rt = Some (rc, out, ev, cache')"
  shows "power_part ev \<in> {[Power_open, Power_close], [Power_open, Power_attribute True 0, Power_close],
      [Power_open, Power_attribute True 0, Power_begin, Power_end, Power_close]} \<and>
    (\<exists>b d. (pe_save_ok (sy_pool sy) \<longrightarrow> \<not> b) \<and> (pe_restore_ok (sy_pool sy) \<longrightarrow> \<not> d) \<and>
       res_run (pool_part ev) nothing_held = Some (nothing_held\<lparr>r_saved := b, r_narrow := b \<or> d, r_warned := d\<rparr>))"
proof -
  have e: "nothing_held\<lparr>r_saved := False, r_narrow := False, r_warned := False\<rparr> = nothing_held" by (simp add: nothing_held_def)
  obtain x where X: "measure_body sy cache k cfg corpus threads rt = Some x"
    and ev: "ev = [Power_open] @ mx_events x @ (if mx_power x then [Power_end] else [])
           @ (case mx_run x of None \<Rightarrow> [] | Some s \<Rightarrow> map Pool_effect (snd (pool_destroy (sy_pool sy) (ru_pool s)))) @ [Power_close]"
    using assms by (auto simp: measure_cpu_def split: option.splits)
  from X show ?thesis
  proof (cases rule: measure_body_exit)
    case gate
    then show ?thesis by (auto simp: ev e intro!: exI[of _ False])
  next
    case (no_pool pev c)
    then show ?thesis using create_destroy[OF no_pool(5)] by (simp add: ev)
  next
    case (bad_run p pev c s)
    then show ?thesis using create_destroy[OF bad_run(3)] by (auto simp: ev same_pool_def)
  next
    case (finished p pev c s)
    then show ?thesis using create_destroy[OF finished(4)] by (auto simp: ev same_pool_def)
  qed
qed

text \<open>C23: a CPU measurement returns 0 exactly when its result is marked verified, and gives a reason
  exactly when the kernel passed the gate and the worker pool could not be started.  So an empty reason
  beside a failure does not mean that the kernel ran: one whose group does not tile the batch is refused
  before it runs, and the result is that of a wrong answer, with no reason and with a checksum that is
  whatever the stack held.\<close>

theorem measurement_error_kinds:
  assumes "measure_cpu sy cache k cfg corpus threads rt = Some (rc, out, ev, cache')"
  shows "(rc = 0 \<longleftrightarrow> r_verified out) \<and>
    (r_run_error out \<noteq> [] \<longleftrightarrow>
      fst (vb_validate_kernel (sy_ref sy) rt (sy_gate_fn sy) k cfg corpus
             (sy_junk_got sy) (sy_junk_expected sy))
      \<and> fst (fst (pool_create (sy_pool sy) cache k cfg corpus threads)) = None) \<and>
    (\<not> vb_batch_divides k \<or> c_n_messages corpus mod (k_lanes k * k_streams k) \<noteq> 0 \<longrightarrow>
      rc = 1 \<and> \<not> r_verified out \<and> r_run_error out = [] \<and> r_checksum out = sy_junk_got sy \<and> ev = [Power_open, Power_close])"
proof -
  obtain x where X: "measure_body sy cache k cfg corpus threads rt = Some x" and o: "rc = mx_rc x" "out = mx_out x"
    using assms by (auto simp: measure_cpu_def split: option.splits)
  have v: "mx_rc x = 1 \<Longrightarrow> mx_events x \<noteq> [] \<Longrightarrow> fst (vb_validate_kernel (sy_ref sy) rt (sy_gate_fn sy) k cfg corpus
             (sy_junk_got sy) (sy_junk_expected sy))"
    using X by (auto simp: measure_body_def Let_def split: prod.splits if_splits)
  have "(mx_rc x = 0 \<longleftrightarrow> r_verified (mx_out x)) \<and>
    (r_run_error (mx_out x) \<noteq> [] \<longleftrightarrow>
      fst (vb_validate_kernel (sy_ref sy) rt (sy_gate_fn sy) k cfg corpus (sy_junk_got sy) (sy_junk_expected sy))
      \<and> fst (fst (pool_create (sy_pool sy) cache k cfg corpus threads)) = None)"
    using X by (cases rule: measure_body_exit) (use v in \<open>auto\<close>)
  moreover have "rc = 1 \<and> \<not> r_verified out \<and> r_run_error out = [] \<and> r_checksum out = sy_junk_got sy \<and> ev = [Power_open, Power_close]"
    if "\<not> vb_batch_divides k \<or> c_n_messages corpus mod (k_lanes k * k_streams k) \<noteq> 0"
    using assms that
    by (auto simp: measure_cpu_def measure_body_def vb_validate_kernel_def Let_def result_header_def zero_result_def)
  ultimately show ?thesis unfolding o by blast
qed

end
