(* ===== verification/Measure_Live.thy ===== *)
theory Measure_Live
  imports Measure_Cpu
begin

text \<open>
  A correct kernel gets its number.  If the kernel answers what the reference answers on every
  slice, the pool can be started and the clock goes on, then the measurement ends and its result
  is marked verified.  The proof follows the loops: every run of the pool is good, calibration
  finds a positive repetition count, the warm-up sees its end come.
\<close>

section \<open>Counts that are worth running\<close>

lemma calib_floor:
  assumes "1 \<le> ms" "ms \<le> 3600000"
  shows "calib_target ms = Fin (of_nat (ms * 1000000))"
    "d_div (calib_target ms) (num 4) = Fin (of_nat (ms * 250000))"
proof -
  have n: "ms \<le> 2 ^ 53" "ms * 1000000 \<le> 2 ^ 53" "ms * 250000 \<le> 2 ^ 53" using assms(2) by simp_all
  have e: "finite_or_inf (of_nat m) = Fin (of_nat m)" if "m \<le> 2 ^ 53" for m
    using of_nat_d_exact[OF that] by (simp add: of_nat_d_def)
  have "calib_target ms = finite_or_inf (of_nat (ms * 1000000))"
    using of_nat_d_exact[OF n(1)] by (simp add: calib_target_def num_small)
  then show t: "calib_target ms = Fin (of_nat (ms * 1000000))" using e[OF n(2)] by simp
  have "rat_of_nat (ms * 1000000) / 4 = of_nat (ms * 250000)" by simp
  then show "d_div (calib_target ms) (num 4) = Fin (of_nat (ms * 250000))"
    using e[OF n(3)] by (simp only: t num_small d_div.simps) simp
qed

lemma want_reps_pos:
  assumes ms: "1 \<le> ms" "ms \<le> 3600000" and ns: "d_le (Fin (of_nat (ms * 250000))) (of_nat_d ns)"
    and reps: "reps \<le> 2 ^ 40"
  shows "0 < want_reps (calib_target ms) ns reps"
proof -
  have r: "of_nat_d reps = Fin (of_nat reps)" using reps by (intro of_nat_d_exact) simp
  have "\<exists>q. d_div (calib_target ms) (of_nat_d ns) = Fin q \<and> 0 \<le> q \<and> q \<le> 4"
  proof (cases "of_nat_d ns")
    case (Fin y)
    let ?T = "rat_of_nat (ms * 1000000)"
    have y: "rat_of_nat (ms * 250000) \<le> y" using ns Fin by simp
    have y0: "0 < y" using y ms(1) by (rule_tac less_le_trans[OF _ y]) simp
    have "?T \<le> 4 * y" using y by simp
    then have b: "?T / y \<le> 4" "0 \<le> ?T / y" using y0 by (simp_all add: divide_le_eq)
    have "rnd (?T / y) \<le> 4" using rnd_mono[OF b(1)] rnd_nat[of 4] by simp
    then show ?thesis
      using finite_small(1,2)[of "?T / y"] b y0 by (simp add: Fin calib_floor(1)[OF ms] del: of_nat_mult)
  qed (use ns in \<open>simp_all add: calib_floor(1)[OF ms]\<close>)
  then obtain q where q: "d_div (calib_target ms) (of_nat_d ns) = Fin q" "0 \<le> q" "q \<le> 4" by blast
  have "rat_of_nat reps * q \<le> rat_of_nat (2 ^ 40) * 4"
    using reps q by (intro mult_mono) (simp_all only: of_nat_le_iff of_nat_0_le_iff)
  then have x: "rat_of_nat reps * q \<le> 2 ^ 53" "0 \<le> rat_of_nat reps * q" using q(2) by simp_all
  note f = finite_small[OF x(2,1)]
  have "want_reps (calib_target ms) ns reps
      = d_to_u64 (if rnd (rat_of_nat reps * q) < 1 then Fin 1 else Fin (rnd (rat_of_nat reps * q)))"
    by (simp add: want_reps_def r q(1) f(1) num_small Let_def)
  moreover have "0 < nat (floor z)" if "1 \<le> z" for z :: rat using that by linarith
  ultimately show ?thesis using d_to_u64_small[OF f(2,3)] d_to_u64_small[of 1] by auto
qed


section \<open>Loops whose every run is good\<close>

definition always_good :: "pool_env \<Rightarrow> machine \<Rightarrow> (vb_pool \<Rightarrow> bool) \<Rightarrow> bool" where
  "always_good env mc Q \<longleftrightarrow> (\<forall>n s. Q (ru_pool s) \<longrightarrow>
     (\<exists>s' ns. do_run env mc n s = (s', True, ns) \<and> Q (ru_pool s') \<and> ru_reads s' = ru_reads s))"

lemma always_goodD:
  assumes "always_good env mc Q" "Q (ru_pool s)"
  obtains s' ns where "do_run env mc n s = (s', True, ns)" "Q (ru_pool s')" "ru_reads s' = ru_reads s"
  using assms unfolding always_good_def by blast

lemma calib_loop_succeeds:
  assumes A: "always_good env mc Q" and ms: "1 \<le> ms" "ms \<le> 3600000"
    and "0 < reps" "reps \<le> 2 ^ 40" "2 ^ 40 < reps * 2 ^ n" "Q (ru_pool s)"
  shows "\<exists>r s'. calib_loop env mc (calib_target ms) (Fin (of_nat (ms * 250000))) reps s = Some (r, s')
    \<and> 0 < r \<and> Q (ru_pool s') \<and> ru_reads s' = ru_reads s"
  using assms(4-)
proof (induction n arbitrary: reps s)
  case 0
  then show ?case by simp
next
  case (Suc n)
  let ?f = "rat_of_nat (ms * 250000)"
  have f: "0 \<le> ?f" by (rule of_nat_0_le_iff)
  obtain s1 ns where d: "do_run env mc reps s = (s1, True, ns)" "Q (ru_pool s1)" "ru_reads s1 = ru_reads s"
    using always_goodD[OF A Suc(5)] by blast
  let ?r = "next_reps (Fin ?f) ns reps"
  have r: "2 * reps \<le> ?r" using next_reps_doubles[OF f] Suc(2,3) by simp
  consider "d_le (Fin ?f) (of_nat_d ns)" | "\<not> d_le (Fin ?f) (of_nat_d ns)" "2 ^ 40 < ?r"
    | "\<not> d_le (Fin ?f) (of_nat_d ns)" "?r \<le> 2 ^ 40" by linarith
  then show ?case
  proof cases
    case 1
    then show ?thesis
      using want_reps_pos[OF ms 1 Suc(3)] d by (subst calib_loop.simps) (simp add: Let_def del: of_nat_mult)
  next
    case 2
    then show ?thesis using d by (subst calib_loop.simps) (simp add: Let_def del: of_nat_mult)
  next
    case 3
    have "(2 :: nat) ^ 40 < (2 * reps) * 2 ^ n" using Suc(4) by (simp only: power_Suc ac_simps)
    also have "\<dots> \<le> ?r * 2 ^ n" using r by (rule mult_right_mono) simp
    finally have "\<exists>q s'. calib_loop env mc (calib_target ms) (Fin ?f) ?r s1 = Some (q, s') \<and> 0 < q \<and> Q (ru_pool s')
        \<and> ru_reads s' = ru_reads s1"
      using Suc.IH[of ?r s1] 3 r Suc(2) d(2) by simp
    moreover have "calib_loop env mc (calib_target ms) (Fin ?f) reps s = calib_loop env mc (calib_target ms) (Fin ?f) ?r s1"
      using 3 d by (subst calib_loop.simps) (simp add: Let_def del: of_nat_mult)
    ultimately show ?thesis using d(3) by simp
  qed
qed

lemma calibrate_succeeds:
  assumes "always_good env mc Q" "1 \<le> ms" "ms \<le> 3600000" "Q (ru_pool s)"
  shows "\<exists>r s'. calibrate_reps env mc ms s = Some (r, s') \<and> 0 < r \<and> Q (ru_pool s') \<and> ru_reads s' = ru_reads s"
proof -
  obtain s1 ns where d: "do_run env mc 1 s = (s1, True, ns)" "Q (ru_pool s1)" "ru_reads s1 = ru_reads s"
    using always_goodD[OF assms(1,4)] by blast
  have "\<exists>r s'. calib_loop env mc (calib_target ms) (Fin (of_nat (ms * 250000))) 1 s1 = Some (r, s')
    \<and> 0 < r \<and> Q (ru_pool s') \<and> ru_reads s' = ru_reads s1"
    by (rule calib_loop_succeeds[OF assms(1-3), where n = 41]) (simp_all add: d(2))
  then show ?thesis
    using d calib_floor(2)[OF assms(2,3)] by (simp add: calibrate_reps_def Let_def del: One_nat_def of_nat_mult)
qed

lemma warm_up_succeeds:
  assumes A: "always_good env mc Q" and Q: "Q (ru_pool s)" and clock: "warm_end \<le> mc_now mc (ru_reads s + d)"
  shows "\<exists>s'. warm_up env mc warm_end reps s = Some (True, s') \<and> Q (ru_pool s')"
  using Q clock
proof (induction d arbitrary: s)
  case 0
  then show ?case by (subst warm_up.simps) (simp add: Let_def)
next
  case (Suc d)
  let ?s = "s\<lparr>ru_reads := ru_reads s + 1\<rparr>"
  show ?case
  proof (cases "mc_now mc (ru_reads s) < warm_end")
    case True
    obtain s1 ns where d: "do_run env mc reps ?s = (s1, True, ns)" "Q (ru_pool s1)" "ru_reads s1 = ru_reads s + 1"
      using always_goodD[OF A, of ?s reps] Suc(2) by auto
    then show ?thesis
      using True Suc.IH[of s1] Suc(3) by (subst warm_up.simps) (simp add: Let_def)
  next
    case False
    then show ?thesis using Suc(2) by (subst warm_up.simps) (simp add: Let_def)
  qed
qed

lemma samples_succeed:
  assumes A: "always_good env mc Q"
  shows "Q (ru_pool s) \<Longrightarrow> \<exists>s' out'. samples env mc reps n i s out = (True, s', out') \<and> Q (ru_pool s')"
proof (induction "n - i" arbitrary: i s out)
  case 0
  then show ?case by (subst samples.simps) simp
next
  case (Suc m)
  then have i: "i < n" "m = n - (i + 1)" by simp_all
  obtain s1 ns where d: "do_run env mc reps s = (s1, True, ns)" "Q (ru_pool s1)"
    using always_goodD[OF A Suc(3)] by blast
  show ?case using Suc(1)[OF i(2) d(2)] i(1) d(1) by (subst samples.simps) simp
qed



section \<open>A correct kernel\<close>

text \<open>The clock passes every moment, whenever one starts to look.\<close>

definition clock_advances :: "machine \<Rightarrow> bool" where
  "clock_advances mc \<longleftrightarrow> (\<forall>t n. \<exists>d. t \<le> mc_now mc (n + d))"

context slice_kernel
begin

lemma correct_kernel_measured:
  assumes sys: "mc_fn (sy_mc sy) = (\<lambda>n i r. kfn)" "sy_gate_fn sy = kfn" "clock_advances (sy_mc sy)"
      "pe_calloc_ok (sy_pool sy)" "\<And>i. pe_create_ok (sy_pool sy) i" "\<And>i. pe_msg_ok (sy_pool sy) i" "\<And>i. slice_ok (sy_ref sy) i"
    and B: "vb_corpus_build alloc True (Some alg) lanes start n bytes = Some corpus"
    and A: "\<And>m words. alloc m = Some words \<Longrightarrow> length words = m"
    and M: "bytes \<le> VB_MAX_MSG_BYTES" and k: "0 < cf_iterations cfg" "cf_iterations cfg = 1 \<or> digest_bytes alg \<le> bytes"
    and cfg: "cf_alg cfg = alg" "cf_message_bytes cfg = bytes" "1 \<le> cf_target_ms cfg" "cf_target_ms cfg \<le> 3600000"
    and kr: "k_lanes kr = lanes" "k_streams kr = streams" "vb_batch_divides kr" "kgroup kr dvd n"
    and given: "cf_have_expected cfg \<Longrightarrow>
      cf_expected cfg = vb_reference_checksum True alg start n bytes (cf_iterations cfg)"
  shows "\<exists>x. measure_body sy cache kr cfg corpus threads rt = Some x \<and> r_verified (mx_out x)"
proof -
  let ?env = "sy_pool sy" and ?mc = "sy_mc sy"
  have l: "0 < lanes" "0 < kgroup kr"
    using kr(1,3) by (auto simp: vb_batch_divides_def Let_def split: if_splits)
  have c: "c_n_messages corpus = n" "c_start_index corpus = start"
    using B by (auto elim!: corpus_build_Some)
  have "(0 + n div kgroup kr * streams) * lanes \<le> n"
    using kr by (simp add: mult.assoc mult.commute[of lanes] dvd_div_mult_self)
  from slice[OF B A M k this]
  have gate: "kfn (c_words corpus) (n div kgroup kr) (c_blocks corpus) (cf_iterations cfg)
      = vb_reference_checksum True alg start n bytes (cf_iterations cfg)"
    using kr by (simp add: mult.assoc mult.commute[of streams] dvd_div_mult_self)
  then obtain e where V: "vb_validate_kernel (sy_ref sy) rt (sy_gate_fn sy) kr cfg corpus
      (sy_junk_got sy) (sy_junk_expected sy) = (True, e, e)"
    using sys(2,7) kr(3,4) k(1) cfg(1,2) given slice_alg by (simp add: vb_validate_kernel_def c mt_checksum Let_def)
  obtain p pev cache' where C: "pool_create ?env cache kr cfg corpus threads = ((Some p, pev), cache')"
    using pool_create_some[of ?env cache kr cfg corpus threads] sys(4,5) by blast
  define Q where "Q = pool_inv ?env kr cfg corpus"
  have good: "always_good ?env ?mc Q"
    unfolding always_good_def
  proof (intro allI impI)
    fix reps and s :: running assume q: "Q (ru_pool s)"
    obtain p' where "pool_run ?env (\<lambda>i r. kfn) (mc_elapsed ?mc (ru_runs s)) reps (ru_pool s)
        = (p', True, mc_elapsed ?mc (ru_runs s))" "Q p'"
      using pool_accepts[OF q[unfolded Q_def] B A M k cfg(1,2) sys(6) kr(1,2) l(1) kr(4) given, folded Q_def] by blast
    then show "\<exists>s' ns. do_run ?env ?mc reps s = (s', True, ns) \<and> Q (ru_pool s') \<and> ru_reads s' = ru_reads s"
      by (simp add: do_run_def sys(1) Let_def)
  qed
  let ?s0 = "\<lparr>ru_pool = p, ru_runs = 0, ru_reads = 0, ru_log = []\<rparr>"
  obtain reps s1 where K: "calibrate_reps ?env ?mc (cf_target_ms cfg) ?s0 = Some (reps, s1)" "0 < reps" "Q (ru_pool s1)"
    using calibrate_succeeds[OF good cfg(3,4), of ?s0] pool_create_inv[OF C] by (auto simp: Q_def)
  let ?s2 = "s1\<lparr>ru_reads := ru_reads s1 + 1\<rparr>"
  let ?until = "mc_now ?mc (ru_reads s1) + cf_warmup_ms cfg * 1000000"
  obtain d where e: "?until \<le> mc_now ?mc (ru_reads ?s2 + d)"
    using sys(3) unfolding clock_advances_def by blast
  obtain s3 where W: "warm_up ?env ?mc ?until reps ?s2 = Some (True, s3)" "Q (ru_pool s3)"
    using warm_up_succeeds[OF good _ e] K(3) that by fastforce
  obtain s4 ns where D: "do_run ?env ?mc reps s3 = (s4, True, ns)" "Q (ru_pool s4)"
    using always_goodD[OF good W(2)] by blast
  have fin: "\<exists>x. (case samples ?env ?mc r m 0 s4 out of (fine, s, out) \<Rightarrow> if \<not> fine then F s out else Some (G s out)) = Some x
      \<and> r_verified (mx_out x)" if "\<And>s out. r_verified (mx_out (G s out))" for r m out F G
  proof -
    obtain s' out' where "samples ?env ?mc r m 0 s4 out = (True, s', out')"
      using samples_succeed[OF good D(2)] by blast
    then show ?thesis using that by simp
  qed
  have r0: "(reps = 0) = False" using K(2) by simp
  show ?thesis
    unfolding measure_body_def Let_def V prod.case C option.case K(1) W(1) D(1) r0 not_True_eq_False if_False if_True bool.case
    by (rule fin) simp
qed

end

text \<open>C17: a correct kernel is measured.  On a machine whose clock advances and which can start the
  pool, the vector kernels of any algorithm, over any lane-wise operation sets, end with a result
  marked verified.\<close>

theorem correct_kernels_measured:
  assumes "vec32 o32" and "vec64 o64"
    and "mc_fn (sy_mc sy) = (\<lambda>n i r. cpu_kernel o32 o64 d a streams)" and "sy_gate_fn sy = cpu_kernel o32 o64 d a streams"
    and "clock_advances (sy_mc sy)" and "pe_calloc_ok (sy_pool sy)" and "\<And>i. pe_create_ok (sy_pool sy) i"
    and "\<And>i. pe_msg_ok (sy_pool sy) i" and "\<And>i. slice_ok (sy_ref sy) i"
    and "vb_corpus_build alloc True (Some (the_alg a)) (kernel_lanes o32 o64 a) start n bytes = Some corpus"
    and "\<And>m words. alloc m = Some words \<Longrightarrow> length words = m"
    and "bytes \<le> VB_MAX_MSG_BYTES"
    and "0 < cf_iterations cfg" and "cf_iterations cfg = 1 \<or> digest_bytes (the_alg a) \<le> bytes"
    and "cf_alg cfg = the_alg a" and "cf_message_bytes cfg = bytes"
    and "1 \<le> cf_target_ms cfg" and "cf_target_ms cfg \<le> 3600000"
    and "k_lanes kr = kernel_lanes o32 o64 a" and "k_streams kr = streams" and "vb_batch_divides kr"
    and "k_lanes kr * k_streams kr dvd n"
    and "cf_have_expected cfg \<Longrightarrow>
      cf_expected cfg = vb_reference_checksum True (the_alg a) start n bytes (cf_iterations cfg)"
  shows "\<exists>x. measure_body sy cache kr cfg corpus threads rt = Some x \<and> r_verified (mx_out x)"
  by (rule slice_kernel.correct_kernel_measured[OF cpu_kernel_slices[OF assms(1,2)] assms(3-10) _ assms(12-22)])
    (erule assms(11) assms(23))+

text \<open>A small machine: the plain C MD5 kernel, a clock that counts its readings in steps of a
  second, every run taking 40 ms.\<close>

definition small_system :: system where
  "small_system =
    (let kfn = cpu_kernel scalar_ops32 scalar_ops64 small_scratch VB_ALG_MD5 2
     in \<lparr>sy_mc = \<lparr>mc_fn = (\<lambda>n i r. kfn), mc_elapsed = (\<lambda>n. 40000000), mc_now = (\<lambda>n. n * 1000000000)\<rparr>,
         sy_pool = ok_env,
         sy_ref = \<lparr>tables_ok = True, flags_ok = True, slice_ok = (\<lambda>i. True), create_ok = (\<lambda>i. True), join_ok = (\<lambda>i. True), unjoined = (\<lambda>i. [])\<rparr>,
         sy_gate_fn = kfn, sy_junk_got = [1], sy_junk_expected = [2]\<rparr>)"

lemma small_system_facts:
  "mc_fn (sy_mc small_system) = (\<lambda>n i r. cpu_kernel scalar_ops32 scalar_ops64 small_scratch VB_ALG_MD5 2)"
  "sy_gate_fn small_system = cpu_kernel scalar_ops32 scalar_ops64 small_scratch VB_ALG_MD5 2"
  "clock_advances (sy_mc small_system)" "sy_pool small_system = ok_env" "slice_ok (sy_ref small_system) i"
proof -
  have "\<exists>d. t \<le> (n + d) * 1000000000" for t n :: nat by (intro exI[of _ t]) simp
  then show "clock_advances (sy_mc small_system)"
    unfolding clock_advances_def small_system_def Let_def system.select_convs machine.select_convs by blast
qed (simp_all add: small_system_def Let_def)

lemma small_corpus:
  obtains corpus where "vb_corpus_build (\<lambda>n. Some (replicate n 7)) True (Some md5_alg) 1 0 6 20 = Some corpus"
  using corpus_build_ok[where lanes=1 and n=6 and v=7 and a=md5_alg and start=0 and bytes=20] by auto

lemma correct_kernels_measured_witness:
  "\<exists>corpus x. measure_body small_system None small_row small_cfg corpus 2 2 = Some x \<and> r_verified (mx_out x)"
proof -
  obtain corpus where c: "vb_corpus_build (\<lambda>n. Some (replicate n 7)) True (Some md5_alg) 1 0 6 20 = Some corpus"
    by (rule small_corpus)
  have "\<exists>x. measure_body small_system None small_row small_cfg corpus 2 2 = Some x \<and> r_verified (mx_out x)"
    by (rule correct_kernels_measured[OF sc32.vec32_axioms sc64.vec64_axioms small_system_facts(1,2),
          where alloc = "\<lambda>n. Some (replicate n 7)" and start = 0 and n = 6 and bytes = 20])
      (use c in \<open>simp_all add: small_facts small_system_facts vb_batch_divides_def VB_BATCH_LCM_def small_cfg_def
          vb_config_defaults_def\<close>)
  then show ?thesis by blast
qed

lemma small_measured:
  obtains corpus x where "vb_corpus_build (\<lambda>n. Some (replicate n 7)) True (Some md5_alg) 1 0 6 20 = Some corpus"
    "measure_body small_system None small_row small_cfg corpus 2 2 = Some x" "r_verified (mx_out x)"
proof -
  obtain corpus where c: "vb_corpus_build (\<lambda>n. Some (replicate n 7)) True (Some md5_alg) 1 0 6 20 = Some corpus"
    by (rule small_corpus)
  have "\<exists>x. measure_body small_system None small_row small_cfg corpus 2 2 = Some x \<and> r_verified (mx_out x)"
    by (rule scalar_slices.correct_kernel_measured[OF small_system_facts(1,2),
          where alloc = "\<lambda>n. Some (replicate n 7)" and start = 0 and n = 6 and bytes = 20])
      (use c in \<open>simp_all add: small_facts small_system_facts vb_batch_divides_def VB_BATCH_LCM_def small_cfg_def
          vb_config_defaults_def\<close>)
  then show ?thesis using c that by blast
qed


lemma measurement_gives_back_witness:
  "\<exists>corpus rc out ev c. measure_cpu small_system None small_row small_cfg corpus 2 2 = Some (rc, out, ev, c) \<and>
     res_run (pool_part ev) nothing_held = Some nothing_held"
proof -
  obtain corpus x where x: "vb_corpus_build (\<lambda>n. Some (replicate n 7)) True (Some md5_alg) 1 0 6 20 = Some corpus"
    "measure_body small_system None small_row small_cfg corpus 2 2 = Some x" "r_verified (mx_out x)"
    by (rule small_measured)
  then obtain rc out ev c where m: "measure_cpu small_system None small_row small_cfg corpus 2 2 = Some (rc, out, ev, c)"
    by (auto simp: measure_cpu_def)
  have "nothing_held\<lparr>r_saved := False, r_narrow := False, r_warned := False\<rparr> = nothing_held"
    "pe_save_ok (sy_pool small_system)" "pe_restore_ok (sy_pool small_system)"
    by (simp_all add: nothing_held_def small_system_facts ok_env_def)
  then have "res_run (pool_part ev) nothing_held = Some nothing_held"
    using measurement_gives_back[OF m] by auto
  then show ?thesis using m by blast
qed

section \<open>A kernel that was never run\<close>

text \<open>A kernel whose group does not tile the batch is refused by the gate before it runs, and
  the result then says what a failed verification says: not verified, no reason, and a checksum
  that is whatever the stack held.  The comment on \<open>vb_measure\<close> promises a reason for a kernel
  that could not be run at all.\<close>

lemma untiled_kernel_reported_as_failed:
  assumes "\<not> vb_batch_divides k"
  shows "\<exists>out. measure_cpu sy cache k cfg corpus threads rt = Some (1, out, [Power_open, Power_close], cache)
    \<and> \<not> r_verified out \<and> r_run_error out = [] \<and> r_checksum out = sy_junk_got sy"
  using assms
  by (simp add: measure_cpu_def measure_body_def vb_validate_kernel_def Let_def result_header_def zero_result_def)

lemma untiled_kernel_reported_as_failed_witness:
  "\<forall>corpus. \<exists>out. measure_cpu small_system None (small_row\<lparr>k_lanes := 12, k_streams := 3\<rparr>) small_cfg corpus 2 2
      = Some (1, out, [Power_open, Power_close], None) \<and> r_checksum out = [1]"
proof -
  have u: "\<not> vb_batch_divides (small_row\<lparr>k_lanes := 12, k_streams := 3\<rparr>)"
    by (simp add: vb_batch_divides_def VB_BATCH_LCM_def)
  have "sy_junk_got small_system = [1]" by (simp add: small_system_def Let_def)
  then show ?thesis
    using untiled_kernel_reported_as_failed[OF u, of small_system None small_cfg _ 2 2] by metis
qed

text \<open>One measurement that passes, and one of a row of twelve lanes and three streams, refused.\<close>

lemma measurement_error_kinds_witness:
  "\<exists>corpus rc out ev c. measure_cpu small_system None small_row small_cfg corpus 2 2 = Some (rc, out, ev, c) \<and>
     (rc = 0 \<longleftrightarrow> r_verified out) \<and>
     (\<exists>rc out ev c. measure_cpu small_system None (small_row\<lparr>k_lanes := 12, k_streams := 3\<rparr>) small_cfg corpus 2 2 = Some (rc, out, ev, c) \<and>
        rc = 1 \<and> r_run_error out = [] \<and> r_checksum out = [1])"
proof -
  obtain corpus x where x: "vb_corpus_build (\<lambda>n. Some (replicate n 7)) True (Some md5_alg) 1 0 6 20 = Some corpus"
    "measure_body small_system None small_row small_cfg corpus 2 2 = Some x" "r_verified (mx_out x)"
    by (rule small_measured)
  then obtain rc out ev c where m: "measure_cpu small_system None small_row small_cfg corpus 2 2 = Some (rc, out, ev, c)"
    by (auto simp: measure_cpu_def)
  let ?k = "small_row\<lparr>k_lanes := 12, k_streams := 3\<rparr>"
  have u: "\<not> vb_batch_divides ?k" by (simp add: vb_batch_divides_def VB_BATCH_LCM_def)
  obtain rc' out' ev' c' where n: "measure_cpu small_system None ?k small_cfg corpus 2 2 = Some (rc', out', ev', c')"
    using untiled_kernel_reported_as_failed[OF u] by blast
  have "sy_junk_got small_system = [1]" by (simp add: small_system_def Let_def)
  then have "rc' = 1 \<and> r_run_error out' = [] \<and> r_checksum out' = [1]"
    using measurement_error_kinds[OF n] u by simp
  then show ?thesis using measurement_error_kinds[OF m] m n by blast
qed

end
