(* ===== verification/Steer.thy ===== *)
theory Steer
  imports Bench_Config "HOL-Library.Sublist"
begin

text \<open>
  src/device/steer.c: whose hardware a device is, and which spelling of each device primitive a
  program is compiled with there.  The buffers \<open>snprintf\<close> writes are bounded; a string that would
  not fit is cut to the buffer's length less one, as the C library does.
\<close>

datatype vb_vendor =
    VB_VENDOR_OTHER | VB_VENDOR_NVIDIA | VB_VENDOR_AMD | VB_VENDOR_INTEL | VB_VENDOR_APPLE | VB_VENDOR_ARM

datatype vb_dialect = VB_DIALECT_OPENCL | VB_DIALECT_CUDA

datatype spelling = SP_PLAIN | SP_CLB | SP_PTX | SP_AMDGCN

definition spelling_id :: "spelling \<Rightarrow> nat" where
  "spelling_id s = (case s of SP_PLAIN \<Rightarrow> 0 | SP_CLB \<Rightarrow> 1 | SP_PTX \<Rightarrow> 2 | SP_AMDGCN \<Rightarrow> 3)"

definition SPELLING_NAME :: "spelling \<Rightarrow> string" where
  "SPELLING_NAME s = (case s of SP_PLAIN \<Rightarrow> ''plain'' | SP_CLB \<Rightarrow> ''opencl-builtin'' | SP_PTX \<Rightarrow> ''ptx'' | SP_AMDGCN \<Rightarrow> ''amdgcn'')"

definition PRIMITIVE :: "(string \<times> string) list" where
  "PRIMITIVE = [(''rotl32'', ''VB_STEER_ROTL32''), (''rotr64'', ''VB_STEER_ROTR64''),
     (''ch'', ''VB_STEER_CH''), (''maj'', ''VB_STEER_MAJ'')]"

definition STEER_TABLE :: "(vb_vendor \<times> spelling list) list" where
  "STEER_TABLE = [(VB_VENDOR_NVIDIA, [SP_PTX, SP_PLAIN, SP_PLAIN, SP_PLAIN])]"

text \<open>\<open>strstr (vendor, s) \<noteq> NULL\<close> is \<open>sublist s vendor\<close>; a NULL vendor string is \<open>None\<close>.\<close>

definition vb_vendor_classify :: "string option \<Rightarrow> nat \<Rightarrow> vb_vendor" where
  "vb_vendor_classify vendor pci_vendor_id =
    (if pci_vendor_id = 0x10de then VB_VENDOR_NVIDIA
     else if pci_vendor_id = 0x1002 \<or> pci_vendor_id = 0x1022 then VB_VENDOR_AMD
     else if pci_vendor_id = 0x8086 then VB_VENDOR_INTEL
     else if pci_vendor_id = 0x106b then VB_VENDOR_APPLE
     else if pci_vendor_id = 0x13b5 then VB_VENDOR_ARM
     else case vendor of None \<Rightarrow> VB_VENDOR_OTHER
     | Some v \<Rightarrow>
         if sublist ''NVIDIA'' v then VB_VENDOR_NVIDIA
         else if sublist ''Advanced Micro Devices'' v \<or> sublist ''AMD'' v then VB_VENDOR_AMD
         else if sublist ''Intel'' v then VB_VENDOR_INTEL
         else if sublist ''Apple'' v then VB_VENDOR_APPLE
         else if sublist ''ARM'' v \<or> sublist ''Arm'' v then VB_VENDOR_ARM
         else VB_VENDOR_OTHER)"

definition vb_vendor_name :: "vb_vendor \<Rightarrow> string" where
  "vb_vendor_name v = (case v of VB_VENDOR_NVIDIA \<Rightarrow> ''nvidia'' | VB_VENDOR_AMD \<Rightarrow> ''amd'' | VB_VENDOR_INTEL \<Rightarrow> ''intel''
     | VB_VENDOR_APPLE \<Rightarrow> ''apple'' | VB_VENDOR_ARM \<Rightarrow> ''arm'' | VB_VENDOR_OTHER \<Rightarrow> ''other'')"

text \<open>\<open>append\<close> into a buffer of \<open>len\<close> bytes: the buffer's text and the length \<open>used\<close> would have without
  the bound.\<close>

definition buf_append :: "nat \<Rightarrow> string \<Rightarrow> string \<times> nat \<Rightarrow> string \<times> nat" where
  "buf_append len s st =
    (case st of (b, used) \<Rightarrow>
       if len \<le> used then (b, used)
       else (take used b @ take (len - used - 1) s, used + length s))"

definition snprintf_into :: "nat \<Rightarrow> string \<Rightarrow> string" where
  "snprintf_into len s = take (len - 1) s"

definition steer_spellings :: "vb_vendor \<Rightarrow> vb_dialect \<Rightarrow> spelling list" where
  "steer_spellings vendor dialect =
    (case fold (\<lambda>(v, sp) found. if v = vendor then Some sp else found) STEER_TABLE None of
       Some sp \<Rightarrow> sp
     | None \<Rightarrow> map (\<lambda>p. if dialect = VB_DIALECT_OPENCL then SP_CLB else SP_PLAIN) PRIMITIVE)"

text \<open>The loop over the primitives; \<open>Inl\<close> is the refusal with the text of \<open>record\<close>.\<close>

fun steer_loop ::
  "vb_vendor \<Rightarrow> vb_dialect \<Rightarrow> nat \<Rightarrow> nat \<Rightarrow> ((string \<times> string) \<times> spelling) list \<Rightarrow> string \<times> nat \<Rightarrow> string \<times> nat
    \<Rightarrow> string + string \<times> string" where
  "steer_loop vendor dialect dlen rlen [] d r = Inr (fst d, fst r)"
| "steer_loop vendor dialect dlen rlen (((name, def), sp) # ps) d r =
    (if sp = SP_PLAIN then steer_loop vendor dialect dlen rlen ps d r
     else if sp = SP_CLB \<and> dialect \<noteq> VB_DIALECT_OPENCL then
       Inl (snprintf_into rlen (''the '' @ vb_vendor_name vendor @
         '' steer set uses the OpenCL builtin spelling for '' @ name @ '', which only OpenCL can compile''))
     else steer_loop vendor dialect dlen rlen ps
       (buf_append dlen ((if snd d \<noteq> 0 then '' '' else []) @ ''-D'' @ def @ ''='' @ dec (spelling_id sp)) d)
       (buf_append rlen ((if snd r \<noteq> 0 then '','' else []) @ name @ ''='' @ SPELLING_NAME sp) r))"

definition vb_device_steers ::
  "vb_vendor \<Rightarrow> vb_dialect \<Rightarrow> bool \<Rightarrow> nat \<Rightarrow> nat \<Rightarrow> string + string \<times> string" where
  "vb_device_steers vendor dialect neutral defines_len record_len =
    (if neutral then Inr ([], [])
     else steer_loop vendor dialect defines_len record_len
       (zip PRIMITIVE (steer_spellings vendor dialect)) ([], 0) ([], 0))"

text \<open>What the table promises: no target is refused, and the steers depend on the API only where the
  vendor has no row.\<close>

lemma steers_ok:
  "\<exists>d r. vb_device_steers vendor dialect neutral dlen rlen = Inr (d, r)"
  by (cases vendor; cases dialect)
    (simp_all add: vb_device_steers_def steer_spellings_def STEER_TABLE_def PRIMITIVE_def split_beta)

end
