(* ===== verification/Device_State.thy ===== *)
theory Device_State
  imports Steer Corpus Doubles
begin

text \<open>
  The state of include/device.h and the pure parts of src/device/device.c: slices, bounds of the
  launch geometry, waves, chunks of the pipeline and the fold of a launch's partial digests.

  A backend implements the calls of \<open>vb_dev_backend\<close> over an API this development does not model;
  it is a record of functions over the context.  What such a call writes of the context is the
  record \<open>vb_dev_side\<close>, so that it can return any success, any partials and any times, as faulty
  hardware would, and still not move the geometry or the slice.  \<open>'i\<close> is the backend's own state.
  Sizes of \<open>size_t\<close> and \<open>uint64_t\<close> are naturals, with the conversion to 32 bits and the wrap of the
  sums written out in \<open>vb_dev_waves\<close>; \<open>max_global_fits\<close> and \<open>waves_exact\<close> show that for a batch the
  configuration admits (less than \<open>2 ^ 32\<close> messages) the products and sums here stay below \<open>2 ^ 64\<close>.
\<close>

section \<open>Records\<close>

record vb_dev_info =
  di_backend :: vb_backend_id
  di_ordinal :: int
  di_name :: string
  di_vendor :: string
  di_pci_vendor_id :: nat
  di_pci :: string
  di_pci_no_domain :: bool
  di_is_gpu :: bool
  di_is_cpu :: bool
  di_compute_units :: nat
  di_clock_mhz :: nat
  di_max_work_group :: nat
  di_global_mem :: nat
  di_max_alloc :: nat
  di_local_mem :: nat
  di_driver :: string
  di_platform :: string
  di_api_version :: string
  di_arch :: string
  di_handle :: int

record vb_dev_options =
  do_neutral :: bool
  do_dump_dir :: "string option"
  do_pin_global :: nat
  do_pin_local :: nat
  do_iterations :: nat
  do_compile_mode :: vb_compile_mode
  do_import_ptx :: "string option"

definition vb_dev_options_default :: vb_dev_options where
  "vb_dev_options_default = \<lparr>do_neutral = False, do_dump_dir = None, do_pin_global = 0, do_pin_local = 0,
     do_iterations = 1, do_compile_mode = VB_COMPILE_PTX_JIT, do_import_ptx = None\<rparr>"

text \<open>The calls a pipeline makes of its backend, by chunk number.  A context keeps them with their
  success, for statements only, from the start of the pipeline.\<close>

datatype ring_call = Enqueue nat | Wait nat

text \<open>What backends write.  \<open>sd_impl\<close> is NULL until \<open>build\<close> and after \<open>destroy\<close>.\<close>

record 'i vb_dev_side =
  sd_impl :: "'i option"
  sd_partials :: bytes
  sd_last_kernel_ns :: nat
  sd_last_transfer_ns :: nat
  sd_host_pinned :: bool
  sd_compiler :: string
  sd_compiler_version :: string
  sd_compile_mode :: string
  sd_steers :: string
  sd_error :: string

record 'i vb_dev_ctx =
  dc_dev :: vb_dev_info
  dc_lanes :: nat
  dc_partial_words :: nat
  dc_partial_word_bytes :: nat
  dc_streams :: nat
  dc_blocks :: nat
  dc_first_group :: nat
  dc_n_groups :: nat
  dc_n_messages :: nat
  dc_global_size :: nat
  dc_local_size :: nat
  dc_geometry_pinned :: bool
  dc_capacity :: nat
  dc_repeats :: nat
  dc_n_partials :: nat
  dc_partial_cap :: nat
  dc_stream :: bool
  dc_pipe_chunks :: nat
  dc_pipe_running :: bool
  dc_pipe_iterations :: nat
  dc_pipe_queued :: nat
  dc_pipe_collected :: nat
  dc_group_bytes :: nat
  dc_host_slice :: "u64 list"
  dc_corpus_bytes :: nat
  dc_label :: string
  dc_calls :: "(ring_call \<times> bool) list"
  dc_side :: "'i vb_dev_side"

text \<open>Every entry returns whether it succeeded and what it wrote.  \<open>be_pipe_open\<close> is absent for a
  backend that cannot pipeline; \<open>be_pipe_wait\<close> also answers the partials and the two times.\<close>

record 'i vb_dev_backend =
  be_id :: vb_backend_id
  be_name :: string
  be_dialect :: vb_dialect
  be_build :: "'i vb_dev_ctx \<Rightarrow> string \<Rightarrow> string \<Rightarrow> string \<Rightarrow> vb_dev_options \<Rightarrow> bool \<times> 'i vb_dev_side"
  be_max_local :: "'i vb_dev_ctx \<Rightarrow> nat"
  be_alloc :: "'i vb_dev_ctx \<Rightarrow> u64 list \<Rightarrow> nat \<Rightarrow> nat \<Rightarrow> bool \<times> 'i vb_dev_side"
  be_pin_staging :: "'i vb_dev_ctx \<Rightarrow> 'i vb_dev_side"
  be_launch :: "'i vb_dev_ctx \<Rightarrow> nat \<Rightarrow> nat \<Rightarrow> bool \<times> 'i vb_dev_side"
  be_read :: "'i vb_dev_ctx \<Rightarrow> nat \<Rightarrow> bool \<times> 'i vb_dev_side"
  be_write_partials :: "'i vb_dev_ctx \<Rightarrow> bytes \<Rightarrow> bool \<times> 'i vb_dev_side"
  be_pipe_open :: "('i vb_dev_ctx \<Rightarrow> nat \<Rightarrow> nat \<Rightarrow> bool \<times> 'i vb_dev_side) option"
  be_pipe_enqueue :: "'i vb_dev_ctx \<Rightarrow> nat \<Rightarrow> nat \<Rightarrow> nat \<Rightarrow> nat \<Rightarrow> nat \<Rightarrow> nat \<Rightarrow> nat \<Rightarrow> bool \<times> 'i vb_dev_side"
  be_pipe_wait :: "'i vb_dev_ctx \<Rightarrow> nat \<Rightarrow> (bool \<times> bytes \<times> nat \<times> nat) \<times> 'i vb_dev_side"
  be_destroy :: "'i vb_dev_ctx \<Rightarrow> 'i vb_dev_side"

definition zero_side :: "'i vb_dev_side" where
  "zero_side = \<lparr>sd_impl = None, sd_partials = [], sd_last_kernel_ns = 0, sd_last_transfer_ns = 0,
     sd_host_pinned = False, sd_compiler = [], sd_compiler_version = [], sd_compile_mode = [],
     sd_steers = [], sd_error = []\<rparr>"

definition zero_dev :: vb_dev_info where
  "zero_dev = \<lparr>di_backend = VB_BACKEND_OPENCL, di_ordinal = 0, di_name = [], di_vendor = [],
     di_pci_vendor_id = 0, di_pci = [], di_pci_no_domain = False, di_is_gpu = False, di_is_cpu = False,
     di_compute_units = 0, di_clock_mhz = 0, di_max_work_group = 0, di_global_mem = 0, di_max_alloc = 0,
     di_local_mem = 0, di_driver = [], di_platform = [], di_api_version = [], di_arch = [], di_handle = 0\<rparr>"

definition zero_ctx :: "'i vb_dev_ctx" where
  "zero_ctx = \<lparr>dc_dev = zero_dev, dc_lanes = 0, dc_partial_words = 0, dc_partial_word_bytes = 0, dc_streams = 0,
     dc_blocks = 0, dc_first_group = 0, dc_n_groups = 0, dc_n_messages = 0, dc_global_size = 0,
     dc_local_size = 0, dc_geometry_pinned = False, dc_capacity = 0, dc_repeats = 0, dc_n_partials = 0,
     dc_partial_cap = 0, dc_stream = False, dc_pipe_chunks = 0, dc_pipe_running = False,
     dc_pipe_iterations = 0, dc_pipe_queued = 0, dc_pipe_collected = 0, dc_group_bytes = 0,
     dc_host_slice = [], dc_corpus_bytes = 0, dc_label = [], dc_calls = [], dc_side = zero_side\<rparr>"

definition set_err :: "string \<Rightarrow> 'i vb_dev_ctx \<Rightarrow> 'i vb_dev_ctx" where
  "set_err s c = c\<lparr>dc_side := (dc_side c)\<lparr>sd_error := snprintf_into 512 s\<rparr>\<rparr>"

definition clear_err :: "'i vb_dev_ctx \<Rightarrow> 'i vb_dev_ctx" where
  "clear_err c = c\<lparr>dc_side := (dc_side c)\<lparr>sd_error := []\<rparr>\<rparr>"


section \<open>Sizes\<close>

definition partial_bytes :: "'i vb_dev_ctx \<Rightarrow> nat" where
  "partial_bytes c = dc_partial_words c * dc_partial_word_bytes c"

text \<open>\<open>vb_dev_slice\<close> returns what it stores through \<open>first\<close> and \<open>count\<close>.\<close>

definition vb_dev_slice :: "nat \<Rightarrow> nat \<Rightarrow> nat \<Rightarrow> nat \<times> nat" where
  "vb_dev_slice total_groups n i =
    (let base = total_groups div n;
         extra = total_groups mod n
     in (i * base + (if i < extra then i else extra), base + (if i < extra then 1 else 0)))"

definition VB_DEV_MIN_LOCAL :: nat where "VB_DEV_MIN_LOCAL = 64"
definition VB_DEV_MAX_LOCAL :: nat where "VB_DEV_MAX_LOCAL = 512"
definition VB_DEV_FLOOR_LOCAL :: nat where "VB_DEV_FLOOR_LOCAL = 8"
definition VB_DEV_TARGET_LAUNCH_NS :: nat where "VB_DEV_TARGET_LAUNCH_NS = 20000000"
definition VB_DEV_PER_CU :: nat where "VB_DEV_PER_CU = 8192"
definition VB_DEV_PROBE_SPIN_GPU :: nat where "VB_DEV_PROBE_SPIN_GPU = 2 ^ 13"
definition VB_DEV_PROBE_SPIN_CPU :: nat where "VB_DEV_PROBE_SPIN_CPU = 2 ^ 22"
definition VB_DEV_TUNE_MAX_ITERS :: nat where "VB_DEV_TUNE_MAX_ITERS = 64"
definition VB_PIPE_MEM_SHARE :: nat where "VB_PIPE_MEM_SHARE = 4"
definition VB_PIPE_RING :: nat where "VB_PIPE_RING = 8"

definition round_up :: "nat \<Rightarrow> nat \<Rightarrow> nat" where
  "round_up x unit = (x + unit - 1) div unit * unit"

definition max_global :: "'i vb_dev_ctx \<Rightarrow> nat" where
  "max_global c =
    (let by_corpus = dc_n_groups c * dc_lanes c;
         by_device = di_compute_units (dc_dev c) * VB_DEV_PER_CU;
         cap = (if by_device < by_corpus then by_corpus else by_device);
         unit = (if dc_lanes c < VB_DEV_MAX_LOCAL then VB_DEV_MAX_LOCAL else dc_lanes c)
     in round_up cap unit)"

text \<open>The halving loop of \<open>local_bounds\<close>.\<close>

function lower_floor :: "nat \<Rightarrow> nat \<Rightarrow> nat" where
  "lower_floor hi fl =
    (if VB_DEV_FLOOR_LOCAL < fl \<and> hi < fl then lower_floor hi (drop_bit 1 fl) else fl)"
  by auto
termination by (relation "measure snd") (auto simp: drop_bit_eq_div)

declare lower_floor.simps [simp del]

text \<open>The pair of floor and ceiling.\<close>

definition local_bounds :: "'i vb_dev_backend \<Rightarrow> 'i vb_dev_ctx \<Rightarrow> nat \<times> nat" where
  "local_bounds be c =
    (let hi = (if di_max_work_group (dc_dev c) \<noteq> 0 then di_max_work_group (dc_dev c) else VB_DEV_MAX_LOCAL);
         kmax = be_max_local be c;
         hi = (if 0 < kmax \<and> kmax < hi then kmax else hi)
     in (lower_floor hi VB_DEV_MIN_LOCAL, hi))"

definition geometry_ok :: "'i vb_dev_ctx \<Rightarrow> nat \<Rightarrow> nat \<Rightarrow> bool" where
  "geometry_ok c global local =
    (if local = 0 \<or> local AND (local - 1) \<noteq> 0 \<or> global = 0 \<or> global mod local \<noteq> 0 then False
     else
       let unit = (if dc_lanes c < local then local else dc_lanes c)
       in if unit mod local \<noteq> 0 \<or> unit mod dc_lanes c \<noteq> 0 \<or> global mod dc_lanes c \<noteq> 0 then False
          else if di_local_mem (dc_dev c) \<noteq> 0 \<and> di_local_mem (dc_dev c) < local * partial_bytes c then False
          else True)"

text \<open>The product and the sum are of \<open>uint64_t\<close>, the result an \<open>unsigned\<close>.\<close>

definition vb_dev_waves :: "nat \<Rightarrow> nat \<Rightarrow> nat \<Rightarrow> nat \<Rightarrow> nat" where
  "vb_dev_waves global n_groups lanes capacity =
    (let busy = n_groups * lanes mod 2 ^ 64;
         busy = (if global < busy then global else busy)
     in if capacity = 0 then 0 else (busy + capacity - 1) mod 2 ^ 64 div capacity mod 2 ^ 32)"

function auto_chunks_from :: "nat \<Rightarrow> nat \<Rightarrow> nat \<Rightarrow> nat \<Rightarrow> nat" where
  "auto_chunks_from n_groups group_bytes budget chunks =
    (if budget \<noteq> 0 \<and> chunks < n_groups \<and> chunks < 256 then
       (let (first, largest) = vb_dev_slice n_groups chunks 0
        in if 2 * largest * group_bytes \<le> budget then chunks
           else auto_chunks_from n_groups group_bytes budget (chunks + 1))
     else chunks)"
  by auto
termination by (relation "measure (\<lambda>(n, g, b, c). n - c)") auto

declare auto_chunks_from.simps [simp del]

definition vb_dev_auto_chunks :: "nat \<Rightarrow> nat \<Rightarrow> nat \<Rightarrow> nat" where
  "vb_dev_auto_chunks n_groups group_bytes global_mem =
    auto_chunks_from n_groups group_bytes (global_mem div VB_PIPE_MEM_SHARE) 1"


section \<open>The fold\<close>

text \<open>A word of the readback as the host loads it, low byte first on every host the program runs on,
  and the XOR of a launch's partials into \<open>acc\<close>.\<close>

definition load_le64 :: "bytes \<Rightarrow> u64" where
  "load_le64 p = ucast (load_le32 p) OR push_bit 32 (ucast (load_le32 (drop 4 p)))"

definition partial_word :: "'i vb_dev_ctx \<Rightarrow> bytes \<Rightarrow> nat \<Rightarrow> u64" where
  "partial_word c partials i =
    (if dc_partial_word_bytes c = 8 then load_le64 (drop (8 * i) partials)
     else ucast (load_le32 (drop (4 * i) partials)))"

definition fold_partials :: "'i vb_dev_ctx \<Rightarrow> bytes \<Rightarrow> checksum \<Rightarrow> checksum" where
  "fold_partials c partials acc =
    fold (\<lambda>i acc. fold (\<lambda>w acc. acc[w := acc ! w XOR partial_word c partials (i * dc_partial_words c + w)])
           [0..<dc_partial_words c] acc) [0..<dc_n_partials c] acc"


section \<open>Nothing wraps\<close>

lemma round_up_less: "0 < unit \<Longrightarrow> round_up x unit < x + unit"
proof -
  assume "0 < unit"
  moreover have "(x + unit - 1) div unit * unit \<le> x + unit - 1" by (rule div_times_less_eq_dividend)
  ultimately show ?thesis unfolding round_up_def by linarith
qed

text \<open>The largest grid of a slice with less than \<open>2 ^ 32\<close> work-items, on a device whose compute units are
  an \<open>unsigned\<close>.\<close>

lemma max_global_fits:
  assumes "dc_n_groups c * dc_lanes c < 2 ^ 32" "di_compute_units (dc_dev c) < 2 ^ 32" "dc_lanes c \<le> VB_DEV_MAX_LOCAL"
  shows "max_global c < 2 ^ 46"
proof -
  have u: "(if dc_lanes c < VB_DEV_MAX_LOCAL then VB_DEV_MAX_LOCAL else dc_lanes c) = 512"
    using assms(3) by (simp add: VB_DEV_MAX_LOCAL_def)
  have "round_up x 512 < 2 ^ 46" if "x < 2 ^ 45" for x
    using round_up_less[of 512 x] that by simp
  then show ?thesis using assms(1,2) by (simp add: max_global_def Let_def u VB_DEV_PER_CU_def)
qed

text \<open>The number of waves is the ceiling it looks like.\<close>

lemma waves_exact:
  assumes "n_groups * lanes < 2 ^ 32" "capacity < 2 ^ 63"
  shows "vb_dev_waves global n_groups lanes capacity
    = (if capacity = 0 then 0 else (min global (n_groups * lanes) + capacity - 1) div capacity)"
proof (cases "capacity = 0")
  case False
  define b where "b = min global (n_groups * lanes)"
  have b: "b < 2 ^ 32" "(if global < n_groups * lanes then global else n_groups * lanes) = b"
    using assms(1) by (simp_all add: b_def)
  have q: "(b + capacity - 1) div capacity \<le> b"
  proof (cases b)
    case (Suc m)
    then have "b + capacity - 1 = m + capacity" by simp
    then have "(b + capacity - 1) div capacity = m div capacity + 1" using False by simp
    then show ?thesis using Suc div_le_dividend[of m capacity] by simp
  qed (use False in simp)
  have "b + capacity - 1 < 2 ^ 64" using b(1) assms(2) by simp
  moreover have "(b + capacity - 1) div capacity < 2 ^ 32" using q b(1) by linarith
  moreover have "n_groups * lanes mod 2 ^ 64 = n_groups * lanes" using assms(1) by simp
  ultimately show ?thesis
    using False unfolding vb_dev_waves_def Let_def b_def[symmetric] by (simp only: b(2) mod_less if_False)
qed (simp add: vb_dev_waves_def Let_def)

end
