(* ===== verification/Device_Launch.thy ===== *)
theory Device_Launch
  imports Device_State
begin

text \<open>
  Launching a device kernel, from src/device/device.c: enqueue and collect, the capacity probe, the
  choice of the launch geometry by measurement, the number of sweeps per launch, and the context
  from its creation to its release.
\<close>

section \<open>A launch\<close>

text \<open>A backend call: whether it succeeded, and the context with what it wrote.\<close>

definition side_call :: "'i vb_dev_ctx \<Rightarrow> bool \<times> 'i vb_dev_side \<Rightarrow> bool \<times> 'i vb_dev_ctx" where
  "side_call c r = (fst r, c\<lparr>dc_side := snd r\<rparr>)"

definition vb_dev_ctx_enqueue :: "'i vb_dev_backend \<Rightarrow> 'i vb_dev_ctx \<Rightarrow> nat \<Rightarrow> bool \<times> 'i vb_dev_ctx" where
  "vb_dev_ctx_enqueue be c iterations =
    (if dc_local_size c = 0 \<or> dc_partial_cap c < dc_global_size c div dc_local_size c
     then (False, set_err (''launch of '' @ dec (if dc_local_size c \<noteq> 0 then dc_global_size c div dc_local_size c else 0) @
             '' work-groups exceeds the '' @ dec (dc_partial_cap c) @ '' partials allocated'') c)
     else side_call c (be_launch be c iterations (dc_local_size c * partial_bytes c)))"

text \<open>\<open>None\<close> is the return of -1.\<close>

definition vb_dev_ctx_collect :: "'i vb_dev_backend \<Rightarrow> 'i vb_dev_ctx \<Rightarrow> checksum option \<times> 'i vb_dev_ctx" where
  "vb_dev_ctx_collect be c =
    (let (ok, c) = side_call c (be_read be c (dc_n_partials c * partial_bytes c))
     in if \<not> ok then (None, c)
        else (Some (fold_partials c (sd_partials (dc_side c)) zero_checksum), c))"

definition vb_dev_ctx_run :: "'i vb_dev_backend \<Rightarrow> 'i vb_dev_ctx \<Rightarrow> nat \<Rightarrow> checksum option \<times> 'i vb_dev_ctx" where
  "vb_dev_ctx_run be c iterations =
    (let (ok, c) = vb_dev_ctx_enqueue be c iterations
     in if \<not> ok then (None, c) else vb_dev_ctx_collect be c)"


section \<open>The capacity probe\<close>

text \<open>The launch that saturates the device, in groups of \<open>local\<close> and marked as a probe by repeats 0.\<close>

definition probe_place :: "'i vb_dev_ctx \<Rightarrow> nat \<Rightarrow> 'i vb_dev_ctx" where
  "probe_place c local =
    (let unit = (if dc_lanes c < local then local else dc_lanes c);
         cu = (if di_compute_units (dc_dev c) \<noteq> 0 then di_compute_units (dc_dev c) else 1);
         global = round_up (cu * VB_DEV_PER_CU) unit
     in c\<lparr>dc_global_size := global, dc_local_size := local, dc_n_partials := global div local, dc_repeats := 0\<rparr>)"

text \<open>The three calls of the probe and the count they bring back, 0 if it means nothing.\<close>

definition run_probe :: "'i vb_dev_backend \<Rightarrow> 'i vb_dev_ctx \<Rightarrow> nat \<times> 'i vb_dev_ctx" where
  "run_probe be c =
    (let groups = dc_n_partials c;
         (ok1, c) = side_call c (be_write_partials be c (replicate 12 0));
         (ok2, c) = (if ok1 then vb_dev_ctx_enqueue be c
                        (if di_is_cpu (dc_dev c) then VB_DEV_PROBE_SPIN_CPU else VB_DEV_PROBE_SPIN_GPU)
                     else (False, c));
         (ok3, c) = (if ok2 then side_call c (be_read be c 12) else (False, c));
         count = (\<lambda>i. unat (load_le32 (drop (4 * i) (sd_partials (dc_side c)))))
     in (if ok3 \<and> count 0 = groups \<and> count 1 = groups \<and> 0 < count 2 then count 2 else 0, c))"

definition measure_capacity :: "'i vb_dev_backend \<Rightarrow> 'i vb_dev_ctx \<Rightarrow> nat \<Rightarrow> nat \<times> 'i vb_dev_ctx" where
  "measure_capacity be c local =
    (let (count, c') = run_probe be (probe_place c local)
     in (count * local,
         clear_err (c'\<lparr>dc_global_size := dc_global_size c, dc_local_size := dc_local_size c,
           dc_n_partials := dc_n_partials c, dc_repeats := dc_repeats c\<rparr>)))"


section \<open>The tuner\<close>

record geometry =
  ge_rate :: double
  ge_global :: nat
  ge_local :: nat
  ge_held :: nat

text \<open>The inner loop, over the multiples of the group size.  \<open>None\<close> is a loop that does not end.\<close>

partial_function (option) tune_mult ::
  "'i vb_dev_backend \<Rightarrow> nat \<Rightarrow> nat \<Rightarrow> nat \<Rightarrow> nat \<Rightarrow> nat \<Rightarrow> nat \<Rightarrow> 'i vb_dev_ctx \<Rightarrow> geometry \<Rightarrow> ('i vb_dev_ctx \<times> geometry) option" where
  "tune_mult be it local unit most held m c best =
    (let global = round_up (local * m * di_compute_units (dc_dev c)) unit;
         final = (most \<le> global);
         global = (if final then most else global);
         c = c\<lparr>dc_global_size := global, dc_local_size := local, dc_n_partials := global div local\<rparr>
     in case vb_dev_ctx_run be c it of
          (None, c) \<Rightarrow> Some (c, best)
        | (Some cs, c) \<Rightarrow>
            let t0 = sd_last_kernel_ns (dc_side c)
            in case vb_dev_ctx_run be c it of
                 (None, c) \<Rightarrow> Some (c, best)
               | (Some cs, c) \<Rightarrow>
                   let t1 = sd_last_kernel_ns (dc_side c);
                       ns = (if t0 \<noteq> 0 \<and> t1 \<noteq> 0 then (if t0 < t1 then t0 else t1) else 0);
                       rate = (if ns \<noteq> 0 then d_div (of_nat_d (dc_n_groups c)) (of_nat_d ns) else Fin 0);
                       best = (if d_lt (ge_rate best) rate
                               then \<lparr>ge_rate = rate, ge_global = global, ge_local = local, ge_held = held\<rparr> else best)
                   in if final then Some (c, best)
                      else tune_mult be it local unit most held (m * 4) c best)"

text \<open>The outer loop, over the powers of two up to \<open>VB_DEV_MAX_LOCAL\<close>.\<close>

function tune_local ::
  "'i vb_dev_backend \<Rightarrow> nat \<Rightarrow> nat \<Rightarrow> nat \<Rightarrow> nat \<Rightarrow> 'i vb_dev_ctx \<Rightarrow> geometry \<Rightarrow> ('i vb_dev_ctx \<times> geometry) option" where
  "tune_local be it cap hi local c best =
    (if local = 0 \<or> VB_DEV_MAX_LOCAL < local \<or> hi < local then Some (c, best)
     else if di_local_mem (dc_dev c) \<noteq> 0 \<and> di_local_mem (dc_dev c) < local * partial_bytes c then Some (c, best)
     else
       let unit = (if dc_lanes c < local then local else dc_lanes c)
       in if unit mod local \<noteq> 0 \<or> unit mod dc_lanes c \<noteq> 0 then tune_local be it cap hi (2 * local) c best
       else
         let (held, c) = measure_capacity be c local;
             most = (if held \<noteq> 0 then
                      (let fit = held div unit * unit;
                           fit = (if fit < unit then unit else fit)
                       in if fit < cap then fit else cap)
                    else cap)
         in case tune_mult be it local unit most held 1 c best of
              None \<Rightarrow> None
            | Some (c, best) \<Rightarrow> tune_local be it cap hi (2 * local) c best)"
  by pat_completeness auto
termination by (relation "measure (\<lambda>(be, it, cap, hi, local, c, best). VB_DEV_MAX_LOCAL + 1 - local)")
  (auto simp: VB_DEV_MAX_LOCAL_def)

declare tune_local.simps [simp del]

definition tune_geometry :: "'i vb_dev_backend \<Rightarrow> 'i vb_dev_ctx \<Rightarrow> nat \<Rightarrow> (bool \<times> 'i vb_dev_ctx) option" where
  "tune_geometry be c iterations =
    (let it = (if iterations = 0 then 1 else if iterations < VB_DEV_TUNE_MAX_ITERS then iterations else VB_DEV_TUNE_MAX_ITERS);
         cap = max_global c;
         c = c\<lparr>dc_repeats := 1\<rparr>;
         (fl, hi) = local_bounds be c
     in case tune_local be it cap hi fl c \<lparr>ge_rate = num (- 1), ge_global = 0, ge_local = 0, ge_held = 0\<rparr> of
          None \<Rightarrow> None
        | Some (c, best) \<Rightarrow>
            if ge_global best = 0 then
              Some (False, if sd_error (dc_side c) = [] then set_err ''could not find a workable launch geometry'' c else c)
            else
              Some (True, (clear_err c)\<lparr>dc_global_size := ge_global best, dc_local_size := ge_local best,
                dc_n_partials := ge_global best div ge_local best, dc_capacity := ge_held best\<rparr>))"

definition calibrate_repeats :: "'i vb_dev_backend \<Rightarrow> 'i vb_dev_ctx \<Rightarrow> nat \<Rightarrow> bool \<times> 'i vb_dev_ctx" where
  "calibrate_repeats be c iterations =
    (case vb_dev_ctx_run be (c\<lparr>dc_repeats := 1\<rparr>) (if iterations \<noteq> 0 then iterations else 1) of
       (None, c) \<Rightarrow> (False, c)
     | (Some cs, c) \<Rightarrow>
         let one = sd_last_kernel_ns (dc_side c)
         in if 0 < one \<and> one < VB_DEV_TARGET_LAUNCH_NS then
              (let want = VB_DEV_TARGET_LAUNCH_NS div one;
                   want = (if want < 1 then 1 else want);
                   want = (if 0xffff < want then 0xffff else want)
               in (True, c\<lparr>dc_repeats := want OR 1\<rparr>))
            else (True, c))"

section \<open>The context\<close>

text \<open>The texts of the kernel sources, which the build turns into strings, and the two allocations.\<close>

record dev_env =
  de_dialect :: "vb_dialect \<Rightarrow> string"
  de_primitives :: string
  de_capacity :: string
  de_core :: "vb_alg_id \<Rightarrow> string"
  de_compose_ok :: bool
  de_partials_ok :: bool

record vb_dev_program =
  dp_alg :: vb_alg_id
  dp_name :: string
  dp_core :: string
  dp_entry :: string

definition PROGRAMS :: "dev_env \<Rightarrow> vb_dev_program list" where
  "PROGRAMS env = map (\<lambda>(alg, name, entry). \<lparr>dp_alg = alg, dp_name = name, dp_core = de_core env alg, dp_entry = entry\<rparr>)
     [(VB_ALG_MD5, ''md5'', ''vb_md5''), (VB_ALG_SHA1, ''sha1'', ''vb_sha1''), (VB_ALG_SHA512, ''sha512'', ''vb_sha512'')]"

definition program_for :: "dev_env \<Rightarrow> vb_alg_id \<Rightarrow> vb_dev_program option" where
  "program_for env alg = find (\<lambda>p. dp_alg p = alg) (PROGRAMS env)"

definition compose :: "dev_env \<Rightarrow> vb_dialect \<Rightarrow> string \<Rightarrow> string option" where
  "compose env d core =
    (if de_compose_ok env then Some (concat [de_dialect env d, de_primitives env, de_capacity env, core]) else None)"

text \<open>The source and, when asked for, the entry point.\<close>

definition vb_dev_program_source :: "dev_env \<Rightarrow> vb_alg_id \<Rightarrow> vb_dialect \<Rightarrow> (string option \<times> string) option" where
  "vb_dev_program_source env alg d =
    (case program_for env alg of None \<Rightarrow> None | Some p \<Rightarrow> Some (compose env d (dp_core p), dp_entry p))"

text \<open>Waiting for the next chunk to collect, and the loop of \<open>vb_dev_pipe_end\<close> that retires them.\<close>

definition pipe_wait_next :: "'i vb_dev_backend \<Rightarrow> 'i vb_dev_ctx \<Rightarrow> (bool \<times> bytes \<times> nat \<times> nat) \<times> 'i vb_dev_ctx" where
  "pipe_wait_next be c =
    (let (r, side) = be_pipe_wait be c (dc_pipe_collected c)
     in (r, c\<lparr>dc_side := side, dc_calls := dc_calls c @ [(Wait (dc_pipe_collected c), fst r)]\<rparr>))"

function pipe_drain :: "'i vb_dev_backend \<Rightarrow> 'i vb_dev_ctx \<Rightarrow> 'i vb_dev_ctx" where
  "pipe_drain be c =
    (if dc_pipe_collected c < dc_pipe_queued c then
       (let w = pipe_wait_next be c; c' = snd w
        in if \<not> fst (fst w) then c'
           else pipe_drain be (c'\<lparr>dc_pipe_collected := dc_pipe_collected c' + 1\<rparr>))
     else c)"
  by auto
termination
  by (relation "measure (\<lambda>(be, c). dc_pipe_queued c - dc_pipe_collected c)")
    (auto simp: pipe_wait_next_def split: prod.splits)

declare pipe_drain.simps [simp del]

definition pipe_end_one :: "'i vb_dev_backend \<Rightarrow> 'i vb_dev_ctx \<Rightarrow> 'i vb_dev_ctx" where
  "pipe_end_one be c = (if \<not> dc_pipe_running c then c else (pipe_drain be c)\<lparr>dc_pipe_running := False\<rparr>)"

definition vb_dev_pipe_end :: "'i vb_dev_backend \<Rightarrow> 'i vb_dev_ctx list \<Rightarrow> 'i vb_dev_ctx list" where
  "vb_dev_pipe_end be ctx = map (pipe_end_one be) ctx"

text \<open>What is left is zero; the second component is what the backend made of its state when it was
  asked to release it.\<close>

definition vb_dev_ctx_free :: "'i vb_dev_backend \<Rightarrow> 'i vb_dev_ctx \<Rightarrow> 'i vb_dev_ctx \<times> 'i vb_dev_side option" where
  "vb_dev_ctx_free be c =
    (if sd_impl (dc_side c) \<noteq> None then (zero_ctx, Some (be_destroy be (pipe_end_one be c)))
     else (zero_ctx, None))"

definition fail_keep_error :: "'i vb_dev_backend \<Rightarrow> 'i vb_dev_ctx \<Rightarrow> 'i vb_dev_ctx" where
  "fail_keep_error be c =
    (let saved = sd_error (dc_side c); (c, _) = vb_dev_ctx_free be c
     in c\<lparr>dc_side := (dc_side c)\<lparr>sd_error := saved\<rparr>\<rparr>)"

text \<open>\<open>"%.1f"\<close> of a size in MiB.\<close>

definition fmt_mib :: "nat \<Rightarrow> string" where
  "fmt_mib n = (let t = nat (round_even (of_nat (10 * n) / 1048576)) in dec (t div 10) @ ''.'' @ dec (t mod 10))"

text \<open>The part of \<open>vb_dev_ctx_init\<close> after the buffers: geometry and repeats.\<close>

definition init_geometry :: "'i vb_dev_backend \<Rightarrow> vb_dev_options \<Rightarrow> nat \<Rightarrow> nat \<Rightarrow> 'i vb_dev_ctx \<Rightarrow> (bool \<times> 'i vb_dev_ctx) option" where
  "init_geometry be opt fl hi c =
    (let placed =
       (if do_pin_global opt \<noteq> 0 \<or> do_pin_local opt \<noteq> 0 then
          (let g = do_pin_global opt; l = do_pin_local opt
           in if \<not> geometry_ok c g l \<or> hi < l \<or> l < fl then
                Some (False, fail_keep_error be (set_err (''--device-geometry '' @ dec g @ '','' @ dec l @
                  '' is not a launch this kernel can use here: the group must be a power of two in '' @ dec fl @
                  ''..'' @ dec hi @ '' that fits the work-group scratch, and the total a multiple of it and of '' @
                  dec (dc_lanes c)) c))
              else
                (let c = c\<lparr>dc_global_size := g, dc_local_size := l, dc_n_partials := g div l, dc_geometry_pinned := True\<rparr>;
                     (held, c) = measure_capacity be c l
                 in Some (True, c\<lparr>dc_capacity := held\<rparr>)))
        else case tune_geometry be c (do_iterations opt) of
               None \<Rightarrow> None
             | Some (ok, c) \<Rightarrow> Some (if ok then (True, c) else (False, fail_keep_error be c)))
     in case placed of
          None \<Rightarrow> None
        | Some (ok, c) \<Rightarrow>
            if \<not> ok then Some (False, c)
            else
              let (ok, c) = calibrate_repeats be c (do_iterations opt)
              in Some (if ok then (True, c) else (False, fail_keep_error be c)))"

text \<open>The buffers of a context whose program is built.\<close>

definition init_buffers ::
  "dev_env \<Rightarrow> 'i vb_dev_backend \<Rightarrow> vb_corpus \<Rightarrow> nat \<Rightarrow> nat \<Rightarrow> nat \<Rightarrow> vb_dev_options \<Rightarrow> 'i vb_dev_ctx \<Rightarrow>
    (bool \<times> 'i vb_dev_ctx) option" where
  "init_buffers env be corpus streams first_group n_groups opt c =
    (let slot_words = vb_corpus_slot_words corpus;
         slice_words = n_groups * streams * slot_words;
         corpus_bytes = slice_words * word_bytes (c_alg corpus);
         slice = take slice_words (drop (first_group * streams * slot_words) (c_words corpus))
     in if di_max_alloc (dc_dev c) \<noteq> 0 \<and> di_max_alloc (dc_dev c) < corpus_bytes then
          Some (False, fail_keep_error be (set_err (''corpus is '' @ fmt_mib corpus_bytes @
            '' MiB but the device caps a single allocation at '' @ fmt_mib (di_max_alloc (dc_dev c)) @
            '' MiB -- reduce --working-set-kb'') c))
     else
     let c = c\<lparr>dc_host_slice := slice, dc_corpus_bytes := corpus_bytes,
           dc_group_bytes := streams * slot_words * word_bytes (c_alg corpus)\<rparr>;
         (fl, hi) = local_bounds be c;
         partial_cap = max_global c div fl;
         partial_cap = (if do_pin_global opt \<noteq> 0 \<and> do_pin_local opt \<noteq> 0 \<and> partial_cap < do_pin_global opt div do_pin_local opt
                        then do_pin_global opt div do_pin_local opt else partial_cap);
         c = c\<lparr>dc_partial_cap := partial_cap, dc_n_partials := partial_cap\<rparr>
     in if \<not> de_partials_ok env then
          Some (False, fail_keep_error be (set_err (''out of memory for '' @ dec partial_cap @ '' partials'') c))
     else
     let (ok, c) = side_call c (be_alloc be c slice corpus_bytes (partial_cap * partial_bytes c))
     in if \<not> ok then Some (False, fail_keep_error be c)
     else init_geometry be opt fl hi c)"

definition vb_dev_ctx_init ::
  "dev_env \<Rightarrow> 'i vb_dev_backend \<Rightarrow> vb_dev_info \<Rightarrow> vb_corpus \<Rightarrow> nat \<Rightarrow> nat \<Rightarrow> nat \<Rightarrow> vb_dev_options \<Rightarrow>
    (bool \<times> 'i vb_dev_ctx) option" where
  "vb_dev_ctx_init env be dev corpus streams first_group n_groups opt =
    (let c = zero_ctx\<lparr>dc_dev := dev\<rparr>
     in case program_for env (alg_id (c_alg corpus)) of
          None \<Rightarrow> Some (False, set_err (''no device kernel for '' @ alg_name (c_alg corpus)) c)
        | Some prog \<Rightarrow>
     let c = c\<lparr>dc_lanes := c_lanes corpus, dc_streams := streams, dc_blocks := c_blocks corpus,
           dc_partial_words := digest_words (c_alg corpus), dc_partial_word_bytes := word_bytes (c_alg corpus)\<rparr>;
         group = dc_lanes c * streams
     in if c_n_messages corpus mod group \<noteq> 0 then
          Some (False, set_err (''corpus of '' @ dec (c_n_messages corpus) @ '' messages is not a multiple of the '' @
            dec group @ ''-message group'') c)
     else if n_groups = 0 then Some (False, set_err ''empty corpus slice'' c)
     else
     let c = c\<lparr>dc_first_group := first_group, dc_n_groups := n_groups, dc_n_messages := n_groups * group\<rparr>;
         vendor = vb_vendor_classify (Some (di_vendor dev)) (di_pci_vendor_id dev)
     in case vb_device_steers vendor (be_dialect be) (do_neutral opt) 256 128 of
          Inl why \<Rightarrow> Some (False, set_err why (c\<lparr>dc_side := (dc_side c)\<lparr>sd_steers := why\<rparr>\<rparr>))
        | Inr (defs, steers) \<Rightarrow>
     let c = c\<lparr>dc_side := (dc_side c)\<lparr>sd_steers := steers\<rparr>\<rparr>;
         defines = snprintf_into 384 (''-DLANES='' @ dec (dc_lanes c) @ '' -DSTREAMS='' @ dec streams @
            (if defs \<noteq> [] then '' '' else []) @ defs)
     in case compose env (be_dialect be) (dp_core prog) of
          None \<Rightarrow> Some (False, set_err (''out of memory composing the '' @ dp_name prog @ '' program'') c)
        | Some source \<Rightarrow>
     let c = c\<lparr>dc_label := snprintf_into 48 (dp_name prog @ ''-s'' @ dec streams)\<rparr>;
         (ok, c) = side_call c (be_build be c source (dp_entry prog) defines opt)
     in if \<not> ok then Some (False, fail_keep_error be c)
     else init_buffers env be corpus streams first_group n_groups opt c)"

definition vb_dev_ctx_set_stream :: "'i vb_dev_backend \<Rightarrow> bool \<Rightarrow> bool \<Rightarrow> 'i vb_dev_ctx \<Rightarrow> 'i vb_dev_ctx" where
  "vb_dev_ctx_set_stream be on pinned c =
    (let c = c\<lparr>dc_stream := on\<rparr>
     in if on then
          (let c = c\<lparr>dc_repeats := 1\<rparr>
           in if pinned \<and> \<not> sd_host_pinned (dc_side c) then c\<lparr>dc_side := be_pin_staging be c\<rparr> else c)
        else c)"

definition vb_dev_ctx_set_overlap :: "'i vb_dev_backend \<Rightarrow> nat \<Rightarrow> bool \<Rightarrow> 'i vb_dev_ctx \<Rightarrow> bool \<times> 'i vb_dev_ctx" where
  "vb_dev_ctx_set_overlap be chunks pinned c =
    (case be_pipe_open be of
       None \<Rightarrow> (False, set_err (''the '' @ be_name be @ '' backend cannot pipeline transfers'') c)
     | Some pipe_open \<Rightarrow>
         let chunks = (if chunks = 0 then vb_dev_auto_chunks (dc_n_groups c) (dc_group_bytes c) (di_global_mem (dc_dev c)) else chunks);
             chunks = (if dc_n_groups c < chunks then dc_n_groups c else chunks);
             c = (vb_dev_ctx_set_stream be True pinned c)\<lparr>dc_pipe_chunks := chunks\<rparr>;
             (first, largest) = vb_dev_slice (dc_n_groups c) chunks 0
         in side_call c (pipe_open c (largest * dc_group_bytes c) (dc_n_partials c * partial_bytes c)))"

end
