(* ===== verification/Device_Pipe.thy ===== *)
theory Device_Pipe
  imports Device_Launch
begin

text \<open>
  Pipelined streaming, from src/device/device.c: a ring of \<open>VB_PIPE_RING\<close> chunks in flight on every
  device, which stays full between the calls that collect passes from it.
\<close>

section \<open>The operations\<close>

definition pipe_begin_one :: "nat \<Rightarrow> 'i vb_dev_ctx \<Rightarrow> 'i vb_dev_ctx" where
  "pipe_begin_one iterations c =
    c\<lparr>dc_pipe_running := True, dc_pipe_iterations := iterations, dc_pipe_queued := 0, dc_pipe_collected := 0,
      dc_calls := []\<rparr>"

definition vb_dev_pipe_begin :: "nat \<Rightarrow> 'i vb_dev_ctx list \<Rightarrow> 'i vb_dev_ctx list" where
  "vb_dev_pipe_begin iterations ctx = map (pipe_begin_one iterations) ctx"

definition pipe_queue :: "'i vb_dev_backend \<Rightarrow> 'i vb_dev_ctx \<Rightarrow> bool \<times> 'i vb_dev_ctx" where
  "pipe_queue be c =
    (let s = dc_pipe_queued c;
         (first, count) = vb_dev_slice (dc_n_groups c) (dc_pipe_chunks c) (s mod dc_pipe_chunks c);
         (ok, c) = side_call c
           (be_pipe_enqueue be c s (first * dc_group_bytes c) (count * dc_group_bytes c) count
              (dc_pipe_iterations c) (dc_local_size c * partial_bytes c) (dc_n_partials c * partial_bytes c));
         c = c\<lparr>dc_calls := dc_calls c @ [(Enqueue s, ok)]\<rparr>
     in if \<not> ok then (False, c) else (True, c\<lparr>dc_pipe_queued := dc_pipe_queued c + 1\<rparr>))"

text \<open>\<open>while (c->pipe_queued < c->pipe_collected + VB_PIPE_RING)\<close>.\<close>

lemma pipe_queue_counts:
  "dc_pipe_queued (snd (pipe_queue be c)) = dc_pipe_queued c + (if fst (pipe_queue be c) then 1 else 0)"
  "dc_pipe_collected (snd (pipe_queue be c)) = dc_pipe_collected c"
  by (auto simp: pipe_queue_def side_call_def Let_def split: prod.splits)

function top_up :: "'i vb_dev_backend \<Rightarrow> 'i vb_dev_ctx \<Rightarrow> bool \<times> 'i vb_dev_ctx" where
  "top_up be c =
    (if dc_pipe_queued c < dc_pipe_collected c + VB_PIPE_RING then
       (let (ok, c) = pipe_queue be c in if \<not> ok then (False, c) else top_up be c)
     else (True, c))"
  by auto
termination
proof (relation "measure (\<lambda>(be, c). dc_pipe_collected c + VB_PIPE_RING - dc_pipe_queued c)")
  fix be :: "'i vb_dev_backend" and c :: "'i vb_dev_ctx" and x ok c'
  assume q: "dc_pipe_queued c < dc_pipe_collected c + VB_PIPE_RING" "x = pipe_queue be c" "(ok, c') = x" "\<not> \<not> ok"
  then have e: "fst (pipe_queue be c) = ok" "snd (pipe_queue be c) = c'" by (metis fst_conv, metis snd_conv)
  show "((be, c'), be, c) \<in> measure (\<lambda>(be, c). dc_pipe_collected c + VB_PIPE_RING - dc_pipe_queued c)"
    using pipe_queue_counts[of be c] q(1,4) by (simp add: e)
qed simp

declare top_up.simps [simp del]

record 'i pipe_call =
  pc_ctx :: "'i vb_dev_ctx list"
  pc_k :: "nat list"
  pc_t :: "nat list"
  pc_out :: "checksum list"

text \<open>One device in one round of \<open>vb_dev_pipe_next\<close>: top its pipeline up, wait for its next chunk and
  fold that into its pass.  The flags are whether all calls succeeded, and \<open>busy\<close>.\<close>

definition pipe_visit ::
  "'i vb_dev_backend \<Rightarrow> nat list \<Rightarrow> nat list \<Rightarrow> nat \<Rightarrow> bool \<times> bool \<times> 'i pipe_call \<Rightarrow> bool \<times> bool \<times> 'i pipe_call" where
  "pipe_visit be base stop d st =
    (let (ok, busy, pc) = st; c = pc_ctx pc ! d
     in if \<not> ok \<or> stop ! d \<le> dc_pipe_collected c then st
     else
       let (ok, c) = top_up be c
       in if \<not> ok then (False, True, pc\<lparr>pc_ctx := (pc_ctx pc)[d := c]\<rparr>)
       else
         let pass = (dc_pipe_collected c - base ! d) div dc_pipe_chunks c;
             ((ok, p, kn, tn), c) = pipe_wait_next be c
         in if \<not> ok then (False, True, pc\<lparr>pc_ctx := (pc_ctx pc)[d := c]\<rparr>)
         else (True, True,
           pc\<lparr>pc_ctx := (pc_ctx pc)[d := c\<lparr>dc_pipe_collected := dc_pipe_collected c + 1\<rparr>],
              pc_k := (pc_k pc)[d := pc_k pc ! d + kn], pc_t := (pc_t pc)[d := pc_t pc ! d + tn],
              pc_out := (pc_out pc)[pass := fold_partials c p (pc_out pc ! pass)]\<rparr>))"

definition pipe_round ::
  "'i vb_dev_backend \<Rightarrow> nat list \<Rightarrow> nat list \<Rightarrow> 'i pipe_call \<Rightarrow> bool \<times> bool \<times> 'i pipe_call" where
  "pipe_round be base stop pc = fold (pipe_visit be base stop) [0..<length (pc_ctx pc)] (True, False, pc)"

text \<open>What is left to collect, which every round that finds a device busy makes smaller.\<close>

definition pipe_left :: "nat list \<Rightarrow> 'i pipe_call \<Rightarrow> nat" where
  "pipe_left stop pc = (\<Sum>d < length (pc_ctx pc). stop ! d - dc_pipe_collected (pc_ctx pc ! d))"

lemma top_up_counts:
  "top_up be c = (ok, c') \<Longrightarrow> dc_pipe_collected c' = dc_pipe_collected c"
proof (induction be c arbitrary: ok c' rule: top_up.induct)
  case (1 be c)
  show ?case
  proof (cases "dc_pipe_queued c < dc_pipe_collected c + VB_PIPE_RING")
    case True
    obtain ok1 c1 where q: "pipe_queue be c = (ok1, c1)" by (metis surj_pair)
    have c1: "dc_pipe_collected c1 = dc_pipe_collected c" using pipe_queue_counts(2)[of be c] by (simp add: q)
    show ?thesis
    proof (cases ok1)
      case False
      then show ?thesis using "1.prems" True q c1 by (subst (asm) top_up.simps) simp
    next
      case True1: True
      then have "top_up be c1 = (ok, c')" using "1.prems" True q by (subst (asm) top_up.simps) simp
      then show ?thesis using "1.IH"[OF True q[symmetric] refl] True1 c1 by simp
    qed
  next
    case False
    then show ?thesis using "1.prems" by (subst (asm) top_up.simps) simp
  qed
qed

lemma pipe_wait_counts:
  "pipe_wait_next be c = (r, c') \<Longrightarrow> dc_pipe_collected c' = dc_pipe_collected c \<and> dc_pipe_queued c' = dc_pipe_queued c"
  by (auto simp: pipe_wait_next_def split: prod.splits)

text \<open>The three ways a visit can go.\<close>

lemma pipe_visit_cases:
  assumes "pipe_visit be base stop d (ok, busy, pc) = (ok', busy', pc')"
  obtains (skip) "\<not> ok \<or> stop ! d \<le> dc_pipe_collected (pc_ctx pc ! d)" "ok' = ok" "busy' = busy" "pc' = pc"
  | (fail) "\<not> ok'" "busy'"
  | (chunk) c1 c2 p kn tn where "ok" "dc_pipe_collected (pc_ctx pc ! d) < stop ! d" "ok'" "busy'"
      "top_up be (pc_ctx pc ! d) = (True, c1)" "pipe_wait_next be c1 = ((True, p, kn, tn), c2)"
      "pc' = pc\<lparr>pc_ctx := (pc_ctx pc)[d := c2\<lparr>dc_pipe_collected := dc_pipe_collected c2 + 1\<rparr>],
          pc_k := (pc_k pc)[d := pc_k pc ! d + kn], pc_t := (pc_t pc)[d := pc_t pc ! d + tn],
          pc_out := (pc_out pc)[(dc_pipe_collected c1 - base ! d) div dc_pipe_chunks c1 :=
            fold_partials c2 p (pc_out pc ! ((dc_pipe_collected c1 - base ! d) div dc_pipe_chunks c1))]\<rparr>"
proof -
  obtain ok1 c1 where t: "top_up be (pc_ctx pc ! d) = (ok1, c1)" by (metis surj_pair)
  obtain ok2 p kn tn c2 where w: "pipe_wait_next be c1 = ((ok2, p, kn, tn), c2)" by (metis surj_pair)
  note V = assms[unfolded pipe_visit_def Let_def prod.case t w]
  show thesis
  proof (cases "\<not> ok \<or> stop ! d \<le> dc_pipe_collected (pc_ctx pc ! d)")
    case True
    have "(ok, busy, pc) = (ok', busy', pc')" using V by (simp only: if_P[OF True])
    then show thesis using True skip by blast
  next
    case False
    note F = this
    show thesis
    proof (cases "ok1 \<and> ok2")
      case True
      have o: "ok" "dc_pipe_collected (pc_ctx pc ! d) < stop ! d" using F by simp_all
      have "ok1" "ok2" using True by simp_all
      then have tw: "top_up be (pc_ctx pc ! d) = (True, c1)" "pipe_wait_next be c1 = ((True, p, kn, tn), c2)"
        using t w by simp_all
      have f: "ok'" "busy'" and f3: "pc' = pc\<lparr>pc_ctx := (pc_ctx pc)[d := c2\<lparr>dc_pipe_collected := dc_pipe_collected c2 + 1\<rparr>],
          pc_k := (pc_k pc)[d := pc_k pc ! d + kn], pc_t := (pc_t pc)[d := pc_t pc ! d + tn],
          pc_out := (pc_out pc)[(dc_pipe_collected c1 - base ! d) div dc_pipe_chunks c1 :=
            fold_partials c2 p (pc_out pc ! ((dc_pipe_collected c1 - base ! d) div dc_pipe_chunks c1))]\<rparr>"
        using V[unfolded if_not_P[OF F]] \<open>ok1\<close> \<open>ok2\<close> by auto
      show thesis by (rule chunk[OF o f tw f3])
    next
      case False
      have "\<not> ok'" "busy'" using V[unfolded if_not_P[OF F]] False by (auto split: if_splits)
      then show thesis by (rule fail)
    qed
  qed
qed

lemma pipe_visit_left:
  assumes "pipe_visit be base stop d (ok, busy, pc) = (ok', busy', pc')" "d < length (pc_ctx pc)" "ok'"
  shows "length (pc_ctx pc') = length (pc_ctx pc) \<and>
    (busy' = busy \<and> pc' = pc \<or> busy' \<and> pipe_left stop pc' < pipe_left stop pc)"
  using assms(1)
proof (cases rule: pipe_visit_cases)
  case (chunk c1 c2 p kn tn)
  have col: "dc_pipe_collected c2 = dc_pipe_collected (pc_ctx pc ! d)"
    using top_up_counts[OF chunk(5)] pipe_wait_counts[OF chunk(6)] by simp
  have n: "length (pc_ctx pc') = length (pc_ctx pc)" unfolding chunk(7) by simp
  have le: "\<And>e. e < length (pc_ctx pc) \<Longrightarrow> stop ! e - dc_pipe_collected (pc_ctx pc' ! e) \<le> stop ! e - dc_pipe_collected (pc_ctx pc ! e)"
  proof -
    fix e assume "e < length (pc_ctx pc)"
    then show "stop ! e - dc_pipe_collected (pc_ctx pc' ! e) \<le> stop ! e - dc_pipe_collected (pc_ctx pc ! e)"
      using col unfolding chunk(7) by (cases "e = d") simp_all
  qed
  have lt: "stop ! d - dc_pipe_collected (pc_ctx pc' ! d) < stop ! d - dc_pipe_collected (pc_ctx pc ! d)"
    using col chunk(2) assms(2) unfolding chunk(7) by simp
  have "pipe_left stop pc' < pipe_left stop pc"
    unfolding pipe_left_def n by (rule sum_strict_mono_ex1) (use le lt assms(2) in auto)
  then show ?thesis using n chunk(4) by simp
qed (use assms(3) in auto)

lemma pipe_fold_left:
  assumes "fold (pipe_visit be base stop) ds (True, False, pc) = (True, busy, pc')" "\<forall>d \<in> set ds. d < length (pc_ctx pc)"
  shows "length (pc_ctx pc') = length (pc_ctx pc) \<and> (\<not> busy \<and> pc' = pc \<or> busy \<and> pipe_left stop pc' < pipe_left stop pc)"
  using assms
proof (induction ds arbitrary: busy pc' rule: rev_induct)
  case (snoc d ds)
  obtain ok1 b1 p1 where f: "fold (pipe_visit be base stop) ds (True, False, pc) = (ok1, b1, p1)" by (metis prod_cases3)
  have v: "pipe_visit be base stop d (ok1, b1, p1) = (True, busy, pc')" using snoc.prems(1) f by simp
  have "ok1" using v by (cases ok1) (auto simp: pipe_visit_def)
  then have ih: "length (pc_ctx p1) = length (pc_ctx pc)" "\<not> b1 \<and> p1 = pc \<or> b1 \<and> pipe_left stop p1 < pipe_left stop pc"
    using snoc.IH[of b1 p1] snoc.prems(2) f by auto
  have "d < length (pc_ctx p1)" using ih(1) snoc.prems(2) by simp
  from pipe_visit_left[OF v this] ih show ?case by auto
qed simp

function pipe_loop :: "'i vb_dev_backend \<Rightarrow> nat list \<Rightarrow> nat list \<Rightarrow> 'i pipe_call \<Rightarrow> bool \<times> 'i pipe_call" where
  "pipe_loop be base stop pc =
    (let (ok, busy, pc') = pipe_round be base stop pc
     in if \<not> ok then (False, pc') else if busy then pipe_loop be base stop pc' else (True, pc'))"
  by auto
termination
proof (relation "measure (\<lambda>(be, base, stop, pc). pipe_left stop pc)")
  fix be :: "'i vb_dev_backend" and base stop pc x ok y busy and pc' :: "'i pipe_call"
  assume a: "x = pipe_round be base stop pc" "(ok, y) = x" "(busy, pc') = y" "\<not> \<not> ok" "busy"
  then have "fold (pipe_visit be base stop) [0..<length (pc_ctx pc)] (True, False, pc) = (True, True, pc')"
    by (metis (full_types) pipe_round_def)
  from pipe_fold_left[OF this] show "((be, base, stop, pc'), be, base, stop, pc) \<in> measure (\<lambda>(be, base, stop, pc). pipe_left stop pc)"
    by simp
qed simp

declare pipe_loop.simps [simp del]

text \<open>\<open>vb_dev_pipe_next\<close>: the pass checksums and the two times of the slowest device, or nothing, and the
  contexts.\<close>

definition list_top :: "nat list \<Rightarrow> nat" where
  "list_top xs = fold (\<lambda>x m. if m < x then x else m) xs 0"

definition vb_dev_pipe_next ::
  "'i vb_dev_backend \<Rightarrow> 'i vb_dev_ctx list \<Rightarrow> nat \<Rightarrow> (checksum list \<times> nat \<times> nat) option \<times> 'i vb_dev_ctx list" where
  "vb_dev_pipe_next be ctx passes =
    (let base = map dc_pipe_collected ctx;
         stop = map (\<lambda>c. dc_pipe_collected c + passes * dc_pipe_chunks c) ctx;
         zeros = map (\<lambda>c. 0) ctx;
         (ok, pc) = pipe_loop be base stop
           \<lparr>pc_ctx = ctx, pc_k = zeros, pc_t = zeros, pc_out = replicate passes zero_checksum\<rparr>
     in (if ok then Some (pc_out pc, list_top (pc_k pc), list_top (pc_t pc)) else None, pc_ctx pc))"

end
