(* ===== verification/Device_Geometry.thy ===== *)
theory Device_Geometry
  imports Device_Launch
begin

text \<open>
  What \<open>vb_dev_ctx_init\<close> promises of the launch it settles on, and that it ends.  Nothing is assumed
  of the backend: every probe may fail or report any time.
\<close>

section \<open>What the calls leave alone\<close>

lemma enqueue_side: "vb_dev_ctx_enqueue be c it = (ok, c') \<Longrightarrow> \<exists>sd. c' = c\<lparr>dc_side := sd\<rparr>"
  by (auto simp: vb_dev_ctx_enqueue_def side_call_def set_err_def split: if_splits)

lemma run_side: "vb_dev_ctx_run be c it = (r, c') \<Longrightarrow> \<exists>sd. c' = c\<lparr>dc_side := sd\<rparr>"
proof -
  assume r: "vb_dev_ctx_run be c it = (r, c')"
  obtain ok c1 where e: "vb_dev_ctx_enqueue be c it = (ok, c1)" by (metis surj_pair)
  obtain sd where c1: "c1 = c\<lparr>dc_side := sd\<rparr>" using enqueue_side[OF e] by blast
  show ?thesis
    using r e by (auto simp: vb_dev_ctx_run_def vb_dev_ctx_collect_def side_call_def c1 Let_def split: if_splits)
qed

lemma run_within:
  assumes "vb_dev_ctx_run be c it = (r, c')" "r \<noteq> None"
  shows "dc_global_size c div dc_local_size c \<le> dc_partial_cap c"
  using assms by (auto simp: vb_dev_ctx_run_def vb_dev_ctx_enqueue_def split: if_splits)

lemma probe_side:
  fixes c :: "'i vb_dev_ctx"
  assumes "run_probe be c = (cnt, c')"
  shows "\<exists>sd. c' = c\<lparr>dc_side := sd\<rparr>"
proof -
  obtain ok1 c1 where 1: "side_call c (be_write_partials be c (replicate 12 0)) = (ok1, c1)" by (metis surj_pair)
  let ?spin = "if di_is_cpu (dc_dev c1) then VB_DEV_PROBE_SPIN_CPU else VB_DEV_PROBE_SPIN_GPU"
  obtain ok2 c2 where 2: "(if ok1 then vb_dev_ctx_enqueue be c1 ?spin else (False, c1)) = (ok2, c2)"
    by (metis surj_pair)
  obtain ok3 c3 where 3: "(if ok2 then side_call c2 (be_read be c2 12) else (False, c2)) = (ok3, c3)" by (metis surj_pair)
  have c1: "\<exists>sd. c1 = c\<lparr>dc_side := sd\<rparr>" using 1 by (auto simp: side_call_def)
  have refl: "\<exists>sd. x = x\<lparr>dc_side := sd\<rparr>" for x :: "'i vb_dev_ctx" by (rule exI[of _ "dc_side x"]) simp
  have "\<exists>sd. c2 = c1\<lparr>dc_side := sd\<rparr>"
  proof (cases ok1)
    case True
    then show ?thesis using 2 by (intro enqueue_side) simp
  next
    case False
    then show ?thesis using 2 refl[of c1] by simp
  qed
  moreover have "\<exists>sd. c3 = c2\<lparr>dc_side := sd\<rparr>"
  proof (cases ok2)
    case True
    then show ?thesis using 3 by (auto simp: side_call_def)
  next
    case False
    then show ?thesis using 3 refl[of c2] by simp
  qed
  moreover have "c' = c3" using assms by (simp add: run_probe_def Let_def 1 2 3)
  ultimately show ?thesis using c1 by force
qed

lemma capacity_side:
  fixes c :: "'i vb_dev_ctx"
  assumes "measure_capacity be c local = (held, c')"
  shows "\<exists>sd. c' = c\<lparr>dc_side := sd\<rparr>"
proof -
  obtain cnt c1 where r: "run_probe be (probe_place c local) = (cnt, c1)" by (metis surj_pair)
  obtain sd where c1: "c1 = (probe_place c local)\<lparr>dc_side := sd\<rparr>" using probe_side[OF r] by blast
  have "c' = clear_err (c1\<lparr>dc_global_size := dc_global_size c, dc_local_size := dc_local_size c,
      dc_n_partials := dc_n_partials c, dc_repeats := dc_repeats c\<rparr>)"
    using assms by (simp add: measure_capacity_def r)
  then have "c' = c\<lparr>dc_side := (sd\<lparr>sd_error := []\<rparr>)\<rparr>"
    by (simp add: c1 probe_place_def clear_err_def Let_def)
  then show ?thesis by blast
qed

text \<open>The fields the tuner moves while it searches.\<close>

definition moved :: "'i vb_dev_ctx \<Rightarrow> 'i vb_dev_ctx \<Rightarrow> bool" where
  "moved c c' \<longleftrightarrow> (\<exists>g l n sd. c' = c\<lparr>dc_global_size := g, dc_local_size := l, dc_n_partials := n, dc_side := sd\<rparr>)"

lemma moved_refl: "moved c c"
proof -
  have "c = c\<lparr>dc_global_size := dc_global_size c, dc_local_size := dc_local_size c, dc_n_partials := dc_n_partials c, dc_side := dc_side c\<rparr>"
    by simp
  then show ?thesis unfolding moved_def by blast
qed

lemma moved_trans: "moved a b \<Longrightarrow> moved b c \<Longrightarrow> moved a c"
  unfolding moved_def by (elim exE, hypsubst, simp) blast

lemma moved_side: "\<exists>sd. c' = c\<lparr>dc_side := sd\<rparr> \<Longrightarrow> moved c c'"
proof -
  assume "\<exists>sd. c' = c\<lparr>dc_side := sd\<rparr>"
  then obtain sd where "c' = c\<lparr>dc_global_size := dc_global_size c, dc_local_size := dc_local_size c,
      dc_n_partials := dc_n_partials c, dc_side := sd\<rparr>" by auto
  then show ?thesis unfolding moved_def by blast
qed

lemma moved_fields:
  "moved c c' \<Longrightarrow> dc_dev c' = dc_dev c \<and> dc_lanes c' = dc_lanes c \<and> dc_partial_words c' = dc_partial_words c
    \<and> dc_partial_word_bytes c' = dc_partial_word_bytes c \<and> dc_n_groups c' = dc_n_groups c
    \<and> dc_partial_cap c' = dc_partial_cap c \<and> dc_repeats c' = dc_repeats c \<and> dc_geometry_pinned c' = dc_geometry_pinned c
    \<and> partial_bytes c' = partial_bytes c \<and> dc_capacity c' = dc_capacity c"
  unfolding moved_def by (elim exE) (simp add: partial_bytes_def)

lemma moved_place: "moved c (c\<lparr>dc_global_size := g, dc_local_size := l, dc_n_partials := n\<rparr>)"
proof -
  have "c\<lparr>dc_global_size := g, dc_local_size := l, dc_n_partials := n\<rparr>
      = c\<lparr>dc_global_size := g, dc_local_size := l, dc_n_partials := n, dc_side := dc_side c\<rparr>" by simp
  then show ?thesis unfolding moved_def by blast
qed


section \<open>Rounding up\<close>

lemma round_up_ge: "0 < unit \<Longrightarrow> x \<le> round_up x unit"
proof -
  assume u: "0 < unit"
  have "x + unit - 1 < (x + unit - 1) div unit * unit + unit"
    using div_mult_mod_eq[of "x + unit - 1" unit] mod_less_divisor[OF u, of "x + unit - 1"] by linarith
  then show ?thesis by (simp add: round_up_def)
qed

lemma round_up_dvd: "d dvd unit \<Longrightarrow> d dvd round_up x unit"
  by (simp add: round_up_def)


section \<open>One group size\<close>

text \<open>A geometry the tuner may settle on.\<close>

definition tuned :: "'i vb_dev_ctx \<Rightarrow> nat \<Rightarrow> nat \<Rightarrow> nat \<Rightarrow> geometry \<Rightarrow> bool" where
  "tuned c cap fl hi b \<longleftrightarrow>
     (let l = ge_local b; g = ge_global b; unit = (if dc_lanes c < l then l else dc_lanes c)
      in l \<in> {8, 16, 32, 64, 128, 256, 512} \<and> fl \<le> l \<and> l \<le> hi \<and> l dvd unit \<and> dc_lanes c dvd unit \<and> unit dvd g \<and> g \<le> cap
        \<and> (di_local_mem (dc_dev c) = 0 \<or> l * partial_bytes c \<le> di_local_mem (dc_dev c)) \<and> g div l \<le> dc_partial_cap c
        \<and> (ge_held b = 0 \<or> g \<le> ge_held b \<or> g \<le> unit))"

definition best_ok :: "'i vb_dev_ctx \<Rightarrow> nat \<Rightarrow> nat \<Rightarrow> nat \<Rightarrow> geometry \<Rightarrow> bool" where
  "best_ok c cap fl hi b \<longleftrightarrow> ge_global b = 0 \<or> tuned c cap fl hi b"

lemma best_ok_moved: "moved c c' \<Longrightarrow> best_ok c' cap fl hi b = best_ok c cap fl hi b"
  using moved_fields[of c c'] by (simp add: best_ok_def tuned_def Let_def)

lemma tune_mult_ends:
  fixes c :: "'i vb_dev_ctx"
  assumes "0 < local" "0 < unit" "0 < di_compute_units (dc_dev c)" "0 < m"
  shows "tune_mult be it local unit most held m c best \<noteq> None"
  using assms(3,4)
proof (induction "most - m" arbitrary: m c best rule: less_induct)
  case (less m c best)
  let ?g = "round_up (local * m * di_compute_units (dc_dev c)) unit"
  let ?final = "most \<le> ?g"
  let ?c = "c\<lparr>dc_global_size := if ?final then most else ?g, dc_local_size := local,
      dc_n_partials := (if ?final then most else ?g) div local\<rparr>"
  have more: "tune_mult be it local unit most held (m * 4) c2 best2 \<noteq> None" if "\<not> ?final" "moved c c2" for c2 best2
  proof (rule less.hyps)
    have "m \<le> local * m * di_compute_units (dc_dev c)" using assms(1) less.prems(1) by simp
    also have "\<dots> \<le> ?g" by (rule round_up_ge[OF assms(2)])
    finally have "m < most" using that(1) by simp
    then show "most - m * 4 < most - m" using less.prems(2) by linarith
    show "0 < di_compute_units (dc_dev c2)" "0 < m * 4" using moved_fields[OF that(2)] less.prems by simp_all
  qed
  obtain r1 c1 where 1: "vb_dev_ctx_run be ?c it = (r1, c1)" by (metis surj_pair)
  obtain r2 c2 where 2: "vb_dev_ctx_run be c1 it = (r2, c2)" by (metis surj_pair)
  have m2: "moved c c2"
    by (rule moved_trans[OF moved_place moved_trans[OF moved_side[OF run_side[OF 1]] moved_side[OF run_side[OF 2]]]])
  show ?case
    by (subst tune_mult.simps) (use more[OF _ m2] in \<open>simp add: Let_def 1 2 split: option.splits\<close>)
qed

text \<open>What the inner loop leaves is fit to be chosen.\<close>

definition fits :: "'i vb_dev_ctx \<Rightarrow> nat \<Rightarrow> nat \<Rightarrow> nat \<Rightarrow> nat \<Rightarrow> nat \<Rightarrow> nat \<Rightarrow> nat \<Rightarrow> bool" where
  "fits c cap fl hi local unit most held \<longleftrightarrow>
     local \<in> {8, 16, 32, 64, 128, 256, 512} \<and> fl \<le> local \<and> local \<le> hi \<and> unit = (if dc_lanes c < local then local else dc_lanes c)
     \<and> local dvd unit \<and> dc_lanes c dvd unit \<and> unit dvd most \<and> most \<le> cap
     \<and> (di_local_mem (dc_dev c) = 0 \<or> local * partial_bytes c \<le> di_local_mem (dc_dev c))
     \<and> (held = 0 \<or> most \<le> held \<or> most \<le> unit)"

lemma fits_moved: "moved c c' \<Longrightarrow> fits c' cap fl hi local unit most held = fits c cap fl hi local unit most held"
  using moved_fields[of c c'] by (simp add: fits_def)

lemma tune_mult_step:
  assumes "tune_mult be it local unit most held m c best = Some (c', best')"
  shows "moved c c' \<and> (fits c cap fl hi local unit most held \<longrightarrow> best_ok c cap fl hi best \<longrightarrow> best_ok c cap fl hi best')"
proof -
  have "case r of (c', best') \<Rightarrow> moved c c' \<and> (fits c cap fl hi local unit most held \<longrightarrow> best_ok c cap fl hi best \<longrightarrow> best_ok c cap fl hi best')"
    if "tune_mult be it local unit most held m c best = Some r" for r
    using that
  proof (rule tune_mult.raw_induct[where P = "\<lambda>be it local unit most held m c best r.
      case r of (c', best') \<Rightarrow> moved c c' \<and>
        (fits c cap fl hi local unit most held \<longrightarrow> best_ok c cap fl hi best \<longrightarrow> best_ok c cap fl hi best')", rotated])
    fix tm be it local unit most held m and c :: "'i vb_dev_ctx" and best r
    assume IH: "\<And>be it local unit most held m c best r. tm be it local unit most held m c best = Some r \<Longrightarrow>
        case r of (c', best') \<Rightarrow> moved c c' \<and>
          (fits c cap fl hi local unit most held \<longrightarrow> best_ok c cap fl hi best \<longrightarrow> best_ok c cap fl hi best')"
      and body: "(let global = round_up (local * m * di_compute_units (dc_dev c)) unit;
         final = (most \<le> global);
         global = (if final then most else global);
         c = c\<lparr>dc_global_size := global, dc_local_size := local, dc_n_partials := global div local\<rparr>
     in case vb_dev_ctx_run be c it of
          (None, c) \<Rightarrow> Some (c, best)
        | (Some cs, c) \<Rightarrow>
            let t0 = sd_last_kernel_ns (dc_side c)
            in case vb_dev_ctx_run be c it of
                 (None, c) \<Rightarrow> Some (c, best)
               | (Some cs, c) \<Rightarrow>
                   let t1 = sd_last_kernel_ns (dc_side c);
                       ns = (if t0 \<noteq> 0 \<and> t1 \<noteq> 0 then (if t0 < t1 then t0 else t1) else 0);
                       rate = (if ns \<noteq> 0 then d_div (of_nat_d (dc_n_groups c)) (of_nat_d ns) else Fin 0);
                       best = (if d_lt (ge_rate best) rate
                               then \<lparr>ge_rate = rate, ge_global = global, ge_local = local, ge_held = held\<rparr> else best)
                   in if final then Some (c, best)
                      else tm be it local unit most held (m * 4) c best) = Some r"
    obtain c' best' where r: "r = (c', best')" by (metis surj_pair)
    let ?up = "round_up (local * m * di_compute_units (dc_dev c)) unit"
    let ?g = "if most \<le> ?up then most else ?up"
    let ?c = "c\<lparr>dc_global_size := ?g, dc_local_size := local, dc_n_partials := ?g div local\<rparr>"
    obtain r1 c1 where R1: "vb_dev_ctx_run be ?c it = (r1, c1)" by (metis surj_pair)
    obtain r2 c2 where R2: "vb_dev_ctx_run be c1 it = (r2, c2)" by (metis surj_pair)
    have m1: "moved c c1" by (rule moved_trans[OF moved_place moved_side[OF run_side[OF R1]]])
    have m2: "moved c c2" by (rule moved_trans[OF m1 moved_side[OF run_side[OF R2]]])
    define t0 t1 where "t0 = sd_last_kernel_ns (dc_side c1)" and "t1 = sd_last_kernel_ns (dc_side c2)"
    define rate where "rate = (let ns = (if t0 \<noteq> 0 \<and> t1 \<noteq> 0 then (if t0 < t1 then t0 else t1) else 0)
        in if ns \<noteq> 0 then d_div (of_nat_d (dc_n_groups c2)) (of_nat_d ns) else Fin 0)"
    define b2 where "b2 = (if d_lt (ge_rate best) rate
        then \<lparr>ge_rate = rate, ge_global = ?g, ge_local = local, ge_held = held\<rparr> else best)"
    note H = body[unfolded Let_def R1 R2 prod.case, folded t0_def t1_def, folded rate_def[unfolded Let_def], folded b2_def]
    have b2: "best_ok c cap fl hi b2" if F: "fits c cap fl hi local unit most held" and B: "best_ok c cap fl hi best"
        and ran: "r1 \<noteq> None"
    proof -
      have "?g div local \<le> dc_partial_cap c" using run_within[OF R1 ran] by simp
      moreover have g: "unit dvd ?g" "?g \<le> most" using F round_up_dvd[of unit unit] by (auto simp: fits_def)
      have "best_ok c cap fl hi \<lparr>ge_rate = x, ge_global = ?g, ge_local = local, ge_held = held\<rparr>" for x
        using F g calculation by (auto simp: best_ok_def tuned_def fits_def Let_def)
      then show ?thesis using B by (simp add: b2_def)
    qed
    have "moved c c' \<and> (fits c cap fl hi local unit most held \<longrightarrow> best_ok c cap fl hi best \<longrightarrow> best_ok c cap fl hi best')"
    proof (cases "r1 = None \<or> r2 = None")
      case True
      then show ?thesis using H r m1 m2 by (cases r1) auto
    next
      case False
      then obtain x y where xy: "r1 = Some x" "r2 = Some y" by auto
      note H' = H[unfolded xy option.case] and b2' = b2[unfolded xy, OF _ _ option.distinct(2)]
      show ?thesis
      proof (cases "most \<le> ?up")
        case True
        then show ?thesis using H' r m2 b2' by auto
      next
        case False
        then have "tm be it local unit most held (m * 4) c2 b2 = Some r" using H' by simp
        from IH[OF this] have "moved c2 c' \<and> (fits c2 cap fl hi local unit most held \<longrightarrow>
            best_ok c2 cap fl hi b2 \<longrightarrow> best_ok c2 cap fl hi best')" by (simp add: r)
        then show ?thesis using moved_trans[OF m2] best_ok_moved[OF m2] fits_moved[OF m2] b2' by blast
      qed
    qed
    then show "case r of (c', best') \<Rightarrow> moved c c' \<and>
        (fits c cap fl hi local unit most held \<longrightarrow> best_ok c cap fl hi best \<longrightarrow> best_ok c cap fl hi best')"
      unfolding r prod.case .
  qed
  from this[OF assms] show ?thesis by simp
qed

lemma tune_mult_keeps:
  "tune_mult be it local unit most held m c best = Some (c', best') \<Longrightarrow> fits c cap fl hi local unit most held \<Longrightarrow>
    best_ok c cap fl hi best \<Longrightarrow> moved c c' \<and> best_ok c cap fl hi best'"
  using tune_mult_step by blast

lemma tune_mult_dev: "tune_mult be it local unit most held m c best = Some (c', best') \<Longrightarrow> dc_dev c' = dc_dev c"
  using tune_mult_step moved_fields by blast


section \<open>The search\<close>

definition group_sizes :: "nat set" where
  "group_sizes = {8, 16, 32, 64, 128, 256, 512}"

text \<open>A group size whose unit both it and the lanes divide leads to an inner loop that \<open>fits\<close>.\<close>

lemma fits_top:
  assumes "local \<in> group_sizes" "fl \<le> local" "local \<le> hi" "dc_lanes c dvd 512" "0 < dc_lanes c"
    and "unit = (if dc_lanes c < local then local else dc_lanes c)" "unit mod local = 0" "unit mod dc_lanes c = 0"
    and "\<not> (di_local_mem (dc_dev c) \<noteq> 0 \<and> di_local_mem (dc_dev c) < local * partial_bytes c)"
    and "unit dvd cap" "0 < cap"
    and "most = (if held \<noteq> 0 then
           (let fit = held div unit * unit; fit = (if fit < unit then unit else fit) in if fit < cap then fit else cap)
         else cap)"
  shows "fits c cap fl hi local unit most held"
proof -
  have u: "0 < unit" using assms(5,6) by (auto split: if_splits)
  have "unit dvd most" using assms(10,12) by (auto simp: Let_def)
  moreover have "most \<le> cap" using assms(12) by (auto simp: Let_def)
  moreover have "held = 0 \<or> most \<le> held \<or> most \<le> unit"
  proof (cases "held = 0")
    case False
    have le: "held div unit * unit \<le> held" by (rule div_times_less_eq_dividend)
    show ?thesis
    proof (cases "held div unit * unit < cap")
      case True
      then show ?thesis using False assms(12) le by (simp add: Let_def)
    next
      case F: False
      then have "cap \<le> held" using le by linarith
      then show ?thesis using False F assms(12) by (auto simp: Let_def)
    qed
  qed simp
  ultimately show ?thesis using assms by (auto simp: fits_def group_sizes_def)
qed

lemma unit_dvd:
  assumes "local \<in> group_sizes" "l dvd 512" "0 < l"
  shows "(if l < local then local else l) dvd (512 :: nat)"
  using assms by (auto simp: group_sizes_def)

lemma next_size: "local \<in> group_sizes \<Longrightarrow> \<not> VB_DEV_MAX_LOCAL < 2 * local \<Longrightarrow> 2 * local \<in> group_sizes"
  by (auto simp: group_sizes_def VB_DEV_MAX_LOCAL_def)

text \<open>One turn of the outer loop, whose unit does not fit and whose unit does.\<close>

lemma tune_local_skip:
  assumes "\<not> (local = 0 \<or> VB_DEV_MAX_LOCAL < local \<or> hi < local)"
    and "\<not> (di_local_mem (dc_dev c) \<noteq> 0 \<and> di_local_mem (dc_dev c) < local * partial_bytes c)"
    and "unit = (if dc_lanes c < local then local else dc_lanes c)" "unit mod local \<noteq> 0 \<or> unit mod dc_lanes c \<noteq> 0"
  shows "tune_local be it cap hi local c best = tune_local be it cap hi (2 * local) c best"
proof -
  note S = tune_local.simps[of be it cap hi local c best, unfolded if_not_P[OF assms(1)] if_not_P[OF assms(2)],
    folded assms(3), unfolded Let_def[of unit]]
  show ?thesis by (rule trans[OF S if_P[OF assms(4)]])
qed

lemma tune_local_go:
  assumes "\<not> (local = 0 \<or> VB_DEV_MAX_LOCAL < local \<or> hi < local)"
    and "\<not> (di_local_mem (dc_dev c) \<noteq> 0 \<and> di_local_mem (dc_dev c) < local * partial_bytes c)"
    and "unit = (if dc_lanes c < local then local else dc_lanes c)" "\<not> (unit mod local \<noteq> 0 \<or> unit mod dc_lanes c \<noteq> 0)"
    and "measure_capacity be c local = (held, c1)"
    and "most = (if held \<noteq> 0 then
           (let fit = held div unit * unit; fit = (if fit < unit then unit else fit) in if fit < cap then fit else cap)
         else cap)"
  shows "tune_local be it cap hi local c best = (case tune_mult be it local unit most held 1 c1 best of None \<Rightarrow> None
            | Some (c, best) \<Rightarrow> tune_local be it cap hi (2 * local) c best)"
proof -
  note S = tune_local.simps[of be it cap hi local c best, unfolded if_not_P[OF assms(1)] if_not_P[OF assms(2)],
    folded assms(3), unfolded Let_def[of unit], unfolded if_not_P[OF assms(4)] assms(5) Let_def[of "(held, c1)"] prod.case,
    folded assms(6), unfolded Let_def[of most]]
  show ?thesis by (rule S)
qed

lemma tune_local_keeps:
  assumes "tune_local be it cap hi local c best = Some (c', best')" "best_ok c cap fl hi best"
    and "VB_DEV_MAX_LOCAL < local \<or> local \<in> group_sizes" "fl \<le> local" "dc_lanes c dvd 512" "0 < dc_lanes c" "512 dvd cap" "0 < cap"
  shows "moved c c' \<and> best_ok c cap fl hi best'"
  using assms
proof (induction be it cap hi local c best rule: tune_local.induct)
  case (1 be it cap hi local c best)
  note T = "1.prems"(1)
  show ?case
  proof (cases "local = 0 \<or> VB_DEV_MAX_LOCAL < local \<or> hi < local")
    case True
    then show ?thesis using T "1.prems"(2) moved_refl by (subst (asm) tune_local.simps) auto
  next
    case F1: False
    then have L: "local \<in> group_sizes" "local \<le> hi" "0 < local" using "1.prems"(3) by auto
    have two: "VB_DEV_MAX_LOCAL < 2 * local \<or> 2 * local \<in> group_sizes" "fl \<le> 2 * local"
      using next_size[OF L(1)] "1.prems"(4) by auto
    show ?thesis
    proof (cases "di_local_mem (dc_dev c) \<noteq> 0 \<and> di_local_mem (dc_dev c) < local * partial_bytes c")
      case True
      then show ?thesis using T "1.prems"(2) F1 moved_refl by (subst (asm) tune_local.simps) auto
    next
      case F2: False
      define unit where "unit = (if dc_lanes c < local then local else dc_lanes c)"
      show ?thesis
      proof (cases "unit mod local \<noteq> 0 \<or> unit mod dc_lanes c \<noteq> 0")
        case True
        then have "tune_local be it cap hi (2 * local) c best = Some (c', best')"
          using T tune_local_skip[OF F1 F2 unit_def True] by simp
        then show ?thesis using "1.IH"(1)[OF F1 F2 unit_def] True two "1.prems" by blast
      next
        case F3: False
        obtain held c1 where M: "measure_capacity be c local = (held, c1)" by (metis surj_pair)
        have m1: "moved c c1" by (rule moved_side[OF capacity_side[OF M]])
        define most where "most = (if held \<noteq> 0 then
           (let fit = held div unit * unit; fit = (if fit < unit then unit else fit) in if fit < cap then fit else cap)
         else cap)"
        have u512: "unit dvd 512" unfolding unit_def by (rule unit_dvd[OF L(1) "1.prems"(5,6)])
        have fit: "fits c cap fl hi local unit most held"
          by (rule fits_top[OF L(1) "1.prems"(4) L(2) "1.prems"(5,6) unit_def _ _ F2 _ "1.prems"(8) most_def])
            (use F3 dvd_trans[OF u512 "1.prems"(7)] in auto)
        have body: "(case tune_mult be it local unit most held 1 c1 best of None \<Rightarrow> None
            | Some (c, best) \<Rightarrow> tune_local be it cap hi (2 * local) c best) = Some (c', best')"
          using T tune_local_go[OF F1 F2 unit_def F3 M most_def] by simp
        then obtain c2 b2 where t: "tune_mult be it local unit most held 1 c1 best = Some (c2, b2)"
          "tune_local be it cap hi (2 * local) c2 b2 = Some (c', best')"
          by (auto split: option.splits)
        have k: "moved c1 c2 \<and> best_ok c1 cap fl hi b2"
          by (rule tune_mult_keeps[OF t(1)]) (use fit fits_moved[OF m1] best_ok_moved[OF m1] "1.prems"(2) in auto)
        have m2: "moved c c2" using moved_trans[OF m1] k by blast
        have b2: "best_ok c2 cap fl hi b2" using k best_ok_moved[OF m1] best_ok_moved[OF m2] by simp
        have "moved c2 c' \<and> best_ok c2 cap fl hi best'"
          by (rule "1.IH"(2)[OF F1 F2 unit_def F3 M[symmetric] refl most_def t(1) refl t(2) b2 two])
            (use moved_fields[OF m2] "1.prems"(5-8) in auto)
        then show ?thesis using moved_trans[OF m2] best_ok_moved[OF m2] by blast
      qed
    qed
  qed
qed

lemma tune_local_ends:
  assumes "0 < di_compute_units (dc_dev c)"
  shows "tune_local be it cap hi local c best \<noteq> None"
  using assms
proof (induction be it cap hi local c best rule: tune_local.induct)
  case (1 be it cap hi local c best)
  show ?case
  proof (cases "local = 0 \<or> VB_DEV_MAX_LOCAL < local \<or> hi < local \<or>
      di_local_mem (dc_dev c) \<noteq> 0 \<and> di_local_mem (dc_dev c) < local * partial_bytes c")
    case True
    then show ?thesis by (subst tune_local.simps) auto
  next
    case False
    then have F1: "\<not> (local = 0 \<or> VB_DEV_MAX_LOCAL < local \<or> hi < local)"
      and F2: "\<not> (di_local_mem (dc_dev c) \<noteq> 0 \<and> di_local_mem (dc_dev c) < local * partial_bytes c)" by auto
    define unit where "unit = (if dc_lanes c < local then local else dc_lanes c)"
    have u: "0 < unit" "0 < local" using F1 by (auto simp: unit_def)
    show ?thesis
    proof (cases "unit mod local \<noteq> 0 \<or> unit mod dc_lanes c \<noteq> 0")
      case True
      then have "tune_local be it cap hi local c best = tune_local be it cap hi (2 * local) c best"
        by (rule tune_local_skip[OF F1 F2 unit_def])
      then show ?thesis using "1.IH"(1)[OF F1 F2 unit_def] True "1.prems" by simp
    next
      case F3: False
      obtain held c1 where M: "measure_capacity be c local = (held, c1)" by (metis surj_pair)
      have m1: "moved c c1" by (rule moved_side[OF capacity_side[OF M]])
      define most where "most = (if held \<noteq> 0 then
           (let fit = held div unit * unit; fit = (if fit < unit then unit else fit) in if fit < cap then fit else cap)
         else cap)"
      have "0 < di_compute_units (dc_dev c1)" using moved_fields[OF m1] "1.prems" by simp
      then obtain c2 b2 where t: "tune_mult be it local unit most held 1 c1 best = Some (c2, b2)"
        using tune_mult_ends[OF u(2,1), of c1 1 be it most held best] by auto
      have "dc_dev c2 = dc_dev c1" by (rule tune_mult_dev[OF t])
      then have "0 < di_compute_units (dc_dev c2)" using moved_fields[OF m1] "1.prems" by simp
      then have "tune_local be it cap hi (2 * local) c2 b2 \<noteq> None"
        by (rule "1.IH"(2)[OF F1 F2 unit_def F3 M[symmetric] refl most_def t refl])
      then show ?thesis
        using tune_local_go[OF F1 F2 unit_def F3 M most_def] t by simp
    qed
  qed
qed


lemma lower_floor_values: "fl \<in> {8, 16, 32, 64} \<Longrightarrow> lower_floor hi fl \<in> {8, 16, 32, 64}"
proof (induction hi fl rule: lower_floor.induct)
  case (1 hi fl)
  show ?case
  proof (cases "VB_DEV_FLOOR_LOCAL < fl \<and> hi < fl")
    case True
    then have "drop_bit 1 fl \<in> {8, 16, 32, 64}" using "1.prems" by (auto simp: drop_bit_eq_div VB_DEV_FLOOR_LOCAL_def)
    then show ?thesis using "1.IH"[OF True] True by (subst lower_floor.simps) simp
  next
    case False
    show ?thesis unfolding lower_floor.simps[of hi fl] if_not_P[OF False] by (rule "1.prems")
  qed
qed

lemma bounds_values:
  assumes "local_bounds be c = (fl, hi)"
  shows "fl \<in> {8, 16, 32, 64}" "di_max_work_group (dc_dev c) \<noteq> 0 \<Longrightarrow> hi \<le> di_max_work_group (dc_dev c)"
  using assms lower_floor_values[of 64] by (auto simp: local_bounds_def Let_def VB_DEV_MIN_LOCAL_def)

lemma max_global_512:
  assumes "dc_lanes c dvd 512" "0 < dc_lanes c" "0 < dc_n_groups c"
  shows "512 dvd max_global c" "0 < max_global c"
proof -
  have "dc_lanes c \<le> 512" using assms(1) by (auto dest: dvd_imp_le)
  then have u: "(if dc_lanes c < VB_DEV_MAX_LOCAL then VB_DEV_MAX_LOCAL else dc_lanes c) = 512"
    by (auto simp: VB_DEV_MAX_LOCAL_def)
  show "512 dvd max_global c" unfolding max_global_def Let_def u by (rule round_up_dvd) simp
  have "0 < (if di_compute_units (dc_dev c) * VB_DEV_PER_CU < dc_n_groups c * dc_lanes c then dc_n_groups c * dc_lanes c
      else di_compute_units (dc_dev c) * VB_DEV_PER_CU)" using assms(2,3) by (auto intro: Nat.gr0I)
  also have "\<dots> \<le> max_global c" unfolding max_global_def Let_def u by (rule round_up_ge) simp
  finally show "0 < max_global c" .
qed

lemma tuned_geometry_ok:
  assumes "tuned c cap fl hi b" "ge_global b \<noteq> 0"
  shows "geometry_ok c (ge_global b) (ge_local b)"
proof -
  define l where "l = ge_local b"
  define unit where "unit = (if dc_lanes c < l then l else dc_lanes c)"
  have t: "l \<in> {8, 16, 32, 64, 128, 256, 512}" "l dvd unit" "dc_lanes c dvd unit" "unit dvd ge_global b"
    "di_local_mem (dc_dev c) = 0 \<or> l * partial_bytes c \<le> di_local_mem (dc_dev c)"
    using assms(1) by (auto simp: tuned_def Let_def l_def unit_def)
  have "l AND (l - 1) = 0" using t(1) by auto
  moreover have "l dvd ge_global b" "dc_lanes c dvd ge_global b" using t dvd_trans by blast+
  ultimately show ?thesis using t assms(2) by (auto simp: geometry_ok_def Let_def l_def[symmetric] unit_def[symmetric])
qed


section \<open>The context\<close>

text \<open>What is settled when \<open>vb_dev_ctx_init\<close> succeeds: a launch the scratch and the strides can serve,
  whose partials fit the buffers.\<close>

definition settled :: "'i vb_dev_ctx \<Rightarrow> bool" where
  "settled c \<longleftrightarrow> geometry_ok c (dc_global_size c) (dc_local_size c)
     \<and> (di_max_work_group (dc_dev c) \<noteq> 0 \<longrightarrow> dc_local_size c \<le> di_max_work_group (dc_dev c))
     \<and> dc_n_partials c = dc_global_size c div dc_local_size c \<and> dc_n_partials c \<le> dc_partial_cap c"

text \<open>All of a resident launch the device holds at once, unless it could not be measured or holds less
  than one group of messages' lanes.\<close>

definition one_wave :: "'i vb_dev_ctx \<Rightarrow> bool" where
  "one_wave c \<longleftrightarrow> dc_capacity c = 0 \<or> dc_capacity c < max (dc_lanes c) (dc_local_size c)
     \<or> vb_dev_waves (dc_global_size c) (dc_n_groups c) (dc_lanes c) (dc_capacity c) \<le> 1"

text \<open>Fields the placing of a launch leaves alone.\<close>

definition framed :: "'i vb_dev_ctx \<Rightarrow> 'i vb_dev_ctx \<Rightarrow> bool" where
  "framed c c' \<longleftrightarrow> dc_dev c' = dc_dev c \<and> dc_lanes c' = dc_lanes c \<and> dc_partial_words c' = dc_partial_words c
     \<and> dc_partial_word_bytes c' = dc_partial_word_bytes c \<and> dc_first_group c' = dc_first_group c \<and> dc_n_groups c' = dc_n_groups c
     \<and> dc_partial_cap c' = dc_partial_cap c \<and> dc_n_messages c' = dc_n_messages c \<and> dc_streams c' = dc_streams c
     \<and> dc_group_bytes c' = dc_group_bytes c \<and> dc_corpus_bytes c' = dc_corpus_bytes c \<and> dc_stream c' = dc_stream c
     \<and> dc_host_slice c' = dc_host_slice c \<and> dc_blocks c' = dc_blocks c"

lemma framed_trans: "framed a b \<Longrightarrow> framed b c \<Longrightarrow> framed a c"
  by (simp add: framed_def)

lemma framed_moved: "moved c c' \<Longrightarrow> framed c c'"
  unfolding moved_def by (elim exE) (simp add: framed_def)

lemma geometry_ok_framed: "framed c c' \<Longrightarrow> geometry_ok c' g l = geometry_ok c g l"
  by (simp add: framed_def geometry_ok_def partial_bytes_def)

lemma waves_le_one: "g \<le> cap \<Longrightarrow> vb_dev_waves g n l cap \<le> 1"
proof -
  assume g: "g \<le> cap"
  have "(x + cap - 1) mod 2 ^ 64 div cap mod 2 ^ 32 \<le> 1" if "x \<le> cap" "cap \<noteq> 0" for x
  proof -
    have "(x + cap - 1) mod 2 ^ 64 \<le> x + cap - 1" by (rule mod_less_eq_dividend)
    then have "(x + cap - 1) mod 2 ^ 64 < 2 * cap" using that by linarith
    then have "(x + cap - 1) mod 2 ^ 64 div cap < 2" using that by (simp add: div_less_iff_less_mult)
    then show ?thesis using mod_less_eq_dividend[of "(x + cap - 1) mod 2 ^ 64 div cap" "2 ^ 32"] by linarith
  qed
  then show ?thesis using g by (simp add: vb_dev_waves_def Let_def)
qed

lemma tune_geometry_settles:
  assumes "tune_geometry be c it = Some (True, c')" "dc_lanes c dvd 512" "0 < dc_lanes c" "0 < dc_n_groups c"
  shows "framed c c'" "settled c'" "one_wave c'" "dc_geometry_pinned c' = dc_geometry_pinned c" "8 \<le> dc_local_size c' \<and> dc_local_size c' \<le> 512"
proof -
  let ?it = "if it = 0 then 1 else if it < VB_DEV_TUNE_MAX_ITERS then it else VB_DEV_TUNE_MAX_ITERS"
  let ?c = "c\<lparr>dc_repeats := 1\<rparr>" and ?b = "\<lparr>ge_rate = num (- 1), ge_global = 0, ge_local = 0, ge_held = 0\<rparr>"
  obtain fl hi where B: "local_bounds be ?c = (fl, hi)" by (metis surj_pair)
  obtain c1 b where T: "tune_local be ?it (max_global c) hi fl ?c ?b = Some (c1, b)"
    and g: "ge_global b \<noteq> 0"
    and c': "c' = (clear_err c1)\<lparr>dc_global_size := ge_global b, dc_local_size := ge_local b,
                dc_n_partials := ge_global b div ge_local b, dc_capacity := ge_held b\<rparr>"
    using assms(1) B by (auto simp: tune_geometry_def Let_def split: option.splits if_splits)
  note bv = bounds_values[OF B]
  have fl: "fl \<in> group_sizes" using bv(1) by (auto simp: group_sizes_def)
  have "moved ?c c1 \<and> best_ok ?c (max_global c) fl hi b"
    by (rule tune_local_keeps[OF T]) (use fl max_global_512[OF assms(2-4)] assms in \<open>auto simp: best_ok_def\<close>)
  then have m: "moved ?c c1" and t: "tuned ?c (max_global c) fl hi b" using g by (auto simp: best_ok_def)
  have f1: "framed c c1" using framed_moved[OF m] by (simp add: framed_def)
  show f: "framed c c'" using f1 by (simp add: c' framed_def clear_err_def)
  have "geometry_ok ?c (ge_global b) (ge_local b)" by (rule tuned_geometry_ok[OF t g])
  moreover have "framed ?c c'" using f by (simp add: framed_def)
  ultimately have ok: "geometry_ok c' (ge_global b) (ge_local b)" by (simp add: geometry_ok_framed)
  show "settled c'"
    using ok t bv(2) f by (auto simp: settled_def c' tuned_def Let_def framed_def clear_err_def)
  show "dc_geometry_pinned c' = dc_geometry_pinned c" using moved_fields[OF m] by (simp add: c' clear_err_def)
  show "8 \<le> dc_local_size c' \<and> dc_local_size c' \<le> 512" using t by (auto simp: c' tuned_def Let_def)
  have lanes: "dc_lanes c1 = dc_lanes c" using f1 by (simp add: framed_def)
  let ?unit = "if dc_lanes c < ge_local b then ge_local b else dc_lanes c"
  have "ge_held b = 0 \<or> ge_global b \<le> ge_held b \<or> ge_global b \<le> ?unit"
  proof -
    have "dc_lanes ?c = dc_lanes c" by simp
    from t[unfolded tuned_def Let_def this] show ?thesis by blast
  qed
  moreover have "ge_held b < ?unit" if "\<not> ge_global b \<le> ge_held b" "ge_global b \<le> ?unit" using that by linarith
  moreover have "?unit = max (dc_lanes c) (ge_local b)" by (simp add: max_def)
  ultimately have "ge_held b = 0 \<or> ge_held b < max (dc_lanes c) (ge_local b) \<or> ge_global b \<le> ge_held b" by metis
  then show "one_wave c'" using waves_le_one[of "ge_global b" "ge_held b"] by (auto simp: one_wave_def lanes c' clear_err_def)
qed


lemma or_one_odd: "odd (n OR 1 :: nat)"
  by (simp add: even_or_iff)

lemma or_one_le: "(n :: nat) \<le> 65535 \<Longrightarrow> n OR 1 \<le> 65535"
proof -
  assume n: "n \<le> 65535"
  have "n OR 1 = n + of_bool (even n)" using or_Suc_0_eq[of n] by simp
  moreover have "even n \<Longrightarrow> n \<noteq> 65535" by auto
  ultimately show ?thesis using n by (cases "even n") auto
qed

lemma calibrated_repeats:
  assumes "calibrate_repeats be c it = (True, c')"
  shows "\<exists>r sd. c' = c\<lparr>dc_repeats := r, dc_side := sd\<rparr> \<and> odd r \<and> r \<le> 65535"
proof -
  obtain r c1 where R: "vb_dev_ctx_run be (c\<lparr>dc_repeats := 1\<rparr>) (if it \<noteq> 0 then it else 1) = (r, c1)" by (metis surj_pair)
  obtain sd where c1: "c1 = c\<lparr>dc_repeats := 1, dc_side := sd\<rparr>" using run_side[OF R] by auto
  let ?want = "\<lambda>q. if 0xffff < (if q < 1 then 1 else q) then 0xffff else (if q < 1 then 1 else q :: nat)"
  obtain x where "r = Some x" using assms R by (cases r) (auto simp: calibrate_repeats_def)
  note V = assms[unfolded calibrate_repeats_def R this prod.case option.case Let_def]
  show ?thesis
  proof (cases "0 < sd_last_kernel_ns (dc_side c1) \<and> sd_last_kernel_ns (dc_side c1) < VB_DEV_TARGET_LAUNCH_NS")
    case True
    have "c' = c1\<lparr>dc_repeats := ?want (VB_DEV_TARGET_LAUNCH_NS div sd_last_kernel_ns (dc_side c1)) OR 1\<rparr>"
      using V[unfolded if_P[OF True]] by (rule Pair_inject) (rule sym)
    then have "c' = c\<lparr>dc_repeats := ?want (VB_DEV_TARGET_LAUNCH_NS div sd_last_kernel_ns (dc_side c1)) OR 1, dc_side := sd\<rparr>"
      unfolding c1 by simp
    moreover have "?want q \<le> 65535" for q by simp
    ultimately show ?thesis using or_one_odd or_one_le by blast
  next
    case False
    have "c' = c1" using V[unfolded if_not_P[OF False]] by simp
    then have "c' = c\<lparr>dc_repeats := 1, dc_side := sd\<rparr> \<and> odd (1 :: nat) \<and> 1 \<le> (65535 :: nat)" using c1 by simp
    then show ?thesis by blast
  qed
qed

lemma calibrate_framed:
  assumes "calibrate_repeats be c it = (True, c')"
  shows "framed c c'" "settled c \<Longrightarrow> settled c'" "one_wave c \<Longrightarrow> one_wave c'" "odd (dc_repeats c')" "dc_repeats c' \<le> 65535"
    "dc_geometry_pinned c' = dc_geometry_pinned c" "dc_local_size c' = dc_local_size c" "dc_global_size c' = dc_global_size c"
proof -
  obtain r sd where c': "c' = c\<lparr>dc_repeats := r, dc_side := sd\<rparr>" and r: "odd r" "r \<le> 65535"
    using calibrated_repeats[OF assms] by blast
  show f: "framed c c'" by (simp add: c' framed_def)
  show "settled c \<Longrightarrow> settled c'" using geometry_ok_framed[OF f] by (simp add: settled_def c')
  show "one_wave c \<Longrightarrow> one_wave c'" by (simp add: one_wave_def c')
  show "odd (dc_repeats c')" "dc_repeats c' \<le> 65535" "dc_geometry_pinned c' = dc_geometry_pinned c" "dc_local_size c' = dc_local_size c"
    "dc_global_size c' = dc_global_size c" using r by (simp_all add: c')
qed


text \<open>The two ways of placing a launch, pinned and tuned, before the repeats are calibrated.\<close>

lemma pin_settles:
  assumes "geometry_ok c g l" "l \<le> hi" "di_max_work_group (dc_dev c) \<noteq> 0 \<Longrightarrow> hi \<le> di_max_work_group (dc_dev c)"
    and "g div l \<le> dc_partial_cap c"
    and "measure_capacity be (c\<lparr>dc_global_size := g, dc_local_size := l, dc_n_partials := g div l, dc_geometry_pinned := True\<rparr>) l = (held, c1)"
  shows "framed c (c1\<lparr>dc_capacity := held\<rparr>)" "settled (c1\<lparr>dc_capacity := held\<rparr>)" "dc_geometry_pinned c1"
    "dc_global_size c1 = g" "dc_local_size c1 = l"
proof -
  obtain sd where c1: "c1 = c\<lparr>dc_global_size := g, dc_local_size := l, dc_n_partials := g div l, dc_geometry_pinned := True, dc_side := sd\<rparr>"
    using capacity_side[OF assms(5)] by auto
  show f: "framed c (c1\<lparr>dc_capacity := held\<rparr>)" by (simp add: c1 framed_def)
  show "settled (c1\<lparr>dc_capacity := held\<rparr>)"
    using geometry_ok_framed[OF f, of g l] assms(1-4) by (auto simp: settled_def c1)
  show "dc_geometry_pinned c1" "dc_global_size c1 = g" "dc_local_size c1 = l" by (simp_all add: c1)
qed

text \<open>What \<open>init_geometry\<close> leaves, told apart by whether a geometry was pinned.\<close>

definition placed :: "vb_dev_options \<Rightarrow> 'i vb_dev_ctx \<Rightarrow> bool" where
  "placed opt c \<longleftrightarrow>
    (if do_pin_global opt \<noteq> 0 \<or> do_pin_local opt \<noteq> 0
     then dc_geometry_pinned c \<and> dc_global_size c = do_pin_global opt \<and> dc_local_size c = do_pin_local opt
     else \<not> dc_geometry_pinned c \<and> one_wave c)"

lemma init_geometry_settles:
  assumes "init_geometry be opt fl hi c = Some (True, c')" "dc_lanes c dvd 512" "0 < dc_n_groups c" "\<not> dc_geometry_pinned c"
    and "di_max_work_group (dc_dev c) \<noteq> 0 \<Longrightarrow> hi \<le> di_max_work_group (dc_dev c)"
    and "do_pin_global opt \<noteq> 0 \<Longrightarrow> do_pin_local opt \<noteq> 0 \<Longrightarrow> do_pin_global opt div do_pin_local opt \<le> dc_partial_cap c"
  shows "framed c c' \<and> settled c' \<and> odd (dc_repeats c') \<and> dc_repeats c' \<le> 65535 \<and> placed opt c'"
proof -
  have lanes: "0 < dc_lanes c" using assms(2) by (auto intro: Nat.gr0I)
  have calib: ?thesis if C: "calibrate_repeats be c1 (do_iterations opt) = (True, c')" "framed c c1" "settled c1" "placed opt c1" for c1
  proof -
    note k = calibrate_framed[OF C(1)]
    have "placed opt c'" using C(4) k(3,6-8) by (auto simp: placed_def split: if_splits)
    then show ?thesis using framed_trans[OF C(2) k(1)] k(2)[OF C(3)] k(4,5) by blast
  qed
  show ?thesis
  proof (cases "do_pin_global opt \<noteq> 0 \<or> do_pin_local opt \<noteq> 0")
    case pin: True
    let ?g = "do_pin_global opt" and ?l = "do_pin_local opt"
    obtain held c1 where M: "measure_capacity be (c\<lparr>dc_global_size := ?g, dc_local_size := ?l, dc_n_partials := ?g div ?l,
        dc_geometry_pinned := True\<rparr>) ?l = (held, c1)" by (metis surj_pair)
    note V = assms(1)[unfolded init_geometry_def Let_def if_P[OF pin] M prod.case]
    have ok: "geometry_ok c ?g ?l" "?l \<le> hi" using V by (auto split: if_splits)
    then have "?g \<noteq> 0" "?l \<noteq> 0" by (auto simp: geometry_ok_def split: if_splits)
    note p = pin_settles[OF ok assms(5) assms(6)[OF this] M]
    have "\<not> (\<not> geometry_ok c ?g ?l \<or> hi < ?l \<or> ?l < fl)" using V by (auto split: if_splits)
    then have "calibrate_repeats be (c1\<lparr>dc_capacity := held\<rparr>) (do_iterations opt) = (True, c')"
      using V by (auto simp: M split: prod.splits if_splits)
    moreover have "placed opt (c1\<lparr>dc_capacity := held\<rparr>)" unfolding placed_def if_P[OF pin] using p(3-5) by simp
    ultimately show ?thesis using calib[OF _ p(1,2)] by blast
  next
    case pin: False
    note V = assms(1)[unfolded init_geometry_def Let_def if_not_P[OF pin]]
    obtain c1 where T: "tune_geometry be c (do_iterations opt) = Some (True, c1)"
      and C: "calibrate_repeats be c1 (do_iterations opt) = (True, c')"
      using V by (auto split: option.splits prod.splits if_splits)
    note t = tune_geometry_settles[OF T assms(2) lanes assms(3)]
    show ?thesis by (rule calib[OF C t(1,2)]) (use pin t(3,4) assms(4) in \<open>simp add: placed_def\<close>)
  qed
qed


lemma alloc_side: "side_call c r = (ok, c') \<Longrightarrow> c' = c\<lparr>dc_side := dc_side c'\<rparr>"
  by (auto simp: side_call_def)

text \<open>The buffers are refused, or the geometry is placed in a context that holds them.\<close>

text \<open>The program a context was built for, and the part of the corpus it holds.\<close>

definition same_program :: "'i vb_dev_ctx \<Rightarrow> 'i vb_dev_ctx \<Rightarrow> bool" where
  "same_program c c' \<longleftrightarrow> dc_lanes c' = dc_lanes c \<and> dc_streams c' = dc_streams c \<and> dc_blocks c' = dc_blocks c
     \<and> dc_partial_words c' = dc_partial_words c \<and> dc_partial_word_bytes c' = dc_partial_word_bytes c \<and> dc_n_groups c' = dc_n_groups c"

definition slice_of :: "vb_corpus \<Rightarrow> nat \<Rightarrow> nat \<Rightarrow> nat \<Rightarrow> u64 list" where
  "slice_of corpus streams first_group n_groups =
     take (n_groups * streams * vb_corpus_slot_words corpus) (drop (first_group * streams * vb_corpus_slot_words corpus) (c_words corpus))"

lemma framed_program: "framed c c' \<Longrightarrow> same_program c c' \<and> dc_host_slice c' = dc_host_slice c"
  by (simp add: framed_def same_program_def)

lemma init_buffers_cases:
  obtains c' where "init_buffers env be corpus streams first_group n_groups opt c = Some (False, c')"
  | fl hi c3 where "init_buffers env be corpus streams first_group n_groups opt c = init_geometry be opt fl hi c3"
    "dc_lanes c3 = dc_lanes c" "dc_n_groups c3 = dc_n_groups c" "dc_geometry_pinned c3 = dc_geometry_pinned c"
    "dc_dev c3 = dc_dev c" "dc_first_group c3 = dc_first_group c" "same_program c c3" "dc_host_slice c3 = slice_of corpus streams first_group n_groups"
    "di_max_work_group (dc_dev c) \<noteq> 0 \<Longrightarrow> hi \<le> di_max_work_group (dc_dev c)"
    "do_pin_global opt \<noteq> 0 \<Longrightarrow> do_pin_local opt \<noteq> 0 \<Longrightarrow> do_pin_global opt div do_pin_local opt \<le> dc_partial_cap c3"
proof -
  let ?sw = "vb_corpus_slot_words corpus"
  let ?bytes = "n_groups * streams * ?sw * word_bytes (c_alg corpus)"
  let ?slice = "take (n_groups * streams * ?sw) (drop (first_group * streams * ?sw) (c_words corpus))"
  let ?c1 = "c\<lparr>dc_host_slice := ?slice, dc_corpus_bytes := ?bytes, dc_group_bytes := streams * ?sw * word_bytes (c_alg corpus)\<rparr>"
  obtain fl hi where B: "local_bounds be ?c1 = (fl, hi)" by (metis surj_pair)
  let ?pc = "max_global ?c1 div fl"
  let ?cap = "if do_pin_global opt \<noteq> 0 \<and> do_pin_local opt \<noteq> 0 \<and> ?pc < do_pin_global opt div do_pin_local opt
     then do_pin_global opt div do_pin_local opt else ?pc"
  let ?c2 = "?c1\<lparr>dc_partial_cap := ?cap, dc_n_partials := ?cap\<rparr>"
  obtain ok c3 where A: "side_call ?c2 (be_alloc be ?c2 ?slice ?bytes (?cap * partial_bytes ?c2)) = (ok, c3)" by (metis surj_pair)
  have c3: "c3 = ?c2\<lparr>dc_side := dc_side c3\<rparr>" by (rule alloc_side[OF A])
  have fields: "dc_lanes c3 = dc_lanes c" "dc_n_groups c3 = dc_n_groups c" "dc_geometry_pinned c3 = dc_geometry_pinned c"
    "dc_dev c3 = dc_dev c" "dc_first_group c3 = dc_first_group c" "same_program c c3"
    "dc_host_slice c3 = slice_of corpus streams first_group n_groups" "dc_partial_cap c3 = ?cap"
    by (subst c3, simp add: same_program_def slice_of_def)+
  have pin: "do_pin_global opt \<noteq> 0 \<Longrightarrow> do_pin_local opt \<noteq> 0 \<Longrightarrow> do_pin_global opt div do_pin_local opt \<le> dc_partial_cap c3"
    unfolding fields by auto
  have hi: "di_max_work_group (dc_dev c) \<noteq> 0 \<Longrightarrow> hi \<le> di_max_work_group (dc_dev c)" using bounds_values(2)[OF B] by simp
  have "(\<exists>c'. init_buffers env be corpus streams first_group n_groups opt c = Some (False, c'))
      \<or> init_buffers env be corpus streams first_group n_groups opt c = init_geometry be opt fl hi c3"
    unfolding init_buffers_def Let_def B prod.case A by simp
  then show thesis using that fields(1-7) hi pin by blast
qed

lemma init_buffers_settles:
  assumes "init_buffers env be corpus streams first_group n_groups opt c = Some (True, c')"
    and "dc_lanes c dvd 512" "0 < dc_n_groups c" "\<not> dc_geometry_pinned c"
  shows "dc_dev c' = dc_dev c \<and> dc_lanes c' = dc_lanes c \<and> dc_n_groups c' = dc_n_groups c \<and> dc_first_group c' = dc_first_group c
    \<and> settled c' \<and> odd (dc_repeats c') \<and> dc_repeats c' \<le> 65535 \<and> placed opt c'
    \<and> same_program c c' \<and> dc_host_slice c' = slice_of corpus streams first_group n_groups"
proof (rule init_buffers_cases[of env be corpus streams first_group n_groups opt c])
  fix fl hi c3
  assume G: "init_buffers env be corpus streams first_group n_groups opt c = init_geometry be opt fl hi c3"
    and f: "dc_lanes c3 = dc_lanes c" "dc_n_groups c3 = dc_n_groups c" "dc_geometry_pinned c3 = dc_geometry_pinned c"
      "dc_dev c3 = dc_dev c" "dc_first_group c3 = dc_first_group c" "same_program c c3"
      "dc_host_slice c3 = slice_of corpus streams first_group n_groups"
    and hi: "di_max_work_group (dc_dev c) \<noteq> 0 \<Longrightarrow> hi \<le> di_max_work_group (dc_dev c)"
    and pin: "do_pin_global opt \<noteq> 0 \<Longrightarrow> do_pin_local opt \<noteq> 0 \<Longrightarrow> do_pin_global opt div do_pin_local opt \<le> dc_partial_cap c3"
  have "framed c3 c' \<and> settled c' \<and> odd (dc_repeats c') \<and> dc_repeats c' \<le> 65535 \<and> placed opt c'"
    by (rule init_geometry_settles[OF trans[OF G[symmetric] assms(1)] _ _ _ _ pin]) (use assms(2-4) hi in \<open>simp_all add: f\<close>)
  then show ?thesis using f(6) framed_program[of c3 c'] by (simp add: framed_def f same_program_def)
qed (use assms(1) in simp)

lemma init_cases:
  obtains c' where "vb_dev_ctx_init env be dev corpus streams first_group n_groups opt = Some (False, c')"
  | c where "vb_dev_ctx_init env be dev corpus streams first_group n_groups opt = init_buffers env be corpus streams first_group n_groups opt c"
    "n_groups \<noteq> 0" "dc_dev c = dev" "dc_lanes c = c_lanes corpus" "dc_n_groups c = n_groups" "dc_first_group c = first_group"
    "\<not> dc_geometry_pinned c" "dc_streams c = streams" "dc_blocks c = c_blocks corpus"
    "dc_partial_words c = digest_words (c_alg corpus)" "dc_partial_word_bytes c = word_bytes (c_alg corpus)"
proof -
  let ?init = "vb_dev_ctx_init env be dev corpus streams first_group n_groups opt"
  define ok :: "'a vb_dev_ctx \<Rightarrow> bool" where "ok c \<longleftrightarrow> dc_dev c = dev \<and> dc_lanes c = c_lanes corpus \<and> dc_n_groups c = n_groups
      \<and> dc_first_group c = first_group \<and> \<not> dc_geometry_pinned c \<and> dc_streams c = streams \<and> dc_blocks c = c_blocks corpus
      \<and> dc_partial_words c = digest_words (c_alg corpus) \<and> dc_partial_word_bytes c = word_bytes (c_alg corpus)" for c
  define R where "R r \<longleftrightarrow> (\<exists>c'. r = Some (False, c')) \<or>
      (n_groups \<noteq> 0 \<and> (\<exists>c. r = init_buffers env be corpus streams first_group n_groups opt c \<and> ok c))" for r
  have refused: "R (Some (False, c))" for c by (simp add: R_def)
  have on: "R (init_buffers env be corpus streams first_group n_groups opt c)" if "n_groups \<noteq> 0" "ok c" for c
    using that by (auto simp: R_def)
  have "R ?init"
    unfolding vb_dev_ctx_init_def Let_def side_call_def
    by (auto split: option.split prod.split sum.split intro!: refused on simp: ok_def zero_ctx_def)
  then show thesis unfolding R_def ok_def using that by blast
qed

text \<open>A context that was created, in one piece.\<close>

lemma init_settles:
  assumes "vb_dev_ctx_init env be dev corpus streams first_group n_groups opt = Some (True, c)" "c_lanes corpus dvd 512"
  shows "dc_dev c = dev \<and> dc_lanes c = c_lanes corpus \<and> dc_n_groups c = n_groups \<and> n_groups \<noteq> 0 \<and> settled c
    \<and> odd (dc_repeats c) \<and> dc_repeats c \<le> 65535 \<and> placed opt c
    \<and> dc_streams c = streams \<and> dc_blocks c = c_blocks corpus \<and> dc_partial_words c = digest_words (c_alg corpus)
    \<and> dc_partial_word_bytes c = word_bytes (c_alg corpus) \<and> dc_host_slice c = slice_of corpus streams first_group n_groups"
proof (rule init_cases[of env be dev corpus streams first_group n_groups opt])
  fix c1
  assume I: "vb_dev_ctx_init env be dev corpus streams first_group n_groups opt = init_buffers env be corpus streams first_group n_groups opt c1"
    and f: "dc_dev c1 = dev" "dc_lanes c1 = c_lanes corpus" "dc_n_groups c1 = n_groups" "\<not> dc_geometry_pinned c1"
      "dc_streams c1 = streams" "dc_blocks c1 = c_blocks corpus"
      "dc_partial_words c1 = digest_words (c_alg corpus)" "dc_partial_word_bytes c1 = word_bytes (c_alg corpus)"
    and n: "n_groups \<noteq> 0"
  show ?thesis
    using init_buffers_settles[OF trans[OF I[symmetric] assms(1)]] assms(2) n f by (simp add: same_program_def)
qed (use assms(1) in auto)

text \<open>A backend that answers at once.\<close>

definition instant_backend :: "unit vb_dev_backend" where
  "instant_backend = \<lparr>be_id = VB_BACKEND_OPENCL, be_name = ''instant'', be_dialect = VB_DIALECT_OPENCL,
     be_build = (\<lambda>c a b d e. (True, (dc_side c)\<lparr>sd_impl := Some ()\<rparr>)), be_max_local = (\<lambda>c. 256),
     be_alloc = (\<lambda>c a b d. (True, dc_side c)), be_pin_staging = dc_side, be_launch = (\<lambda>c a b. (True, dc_side c)),
     be_read = (\<lambda>c n. (True, (dc_side c)\<lparr>sd_partials := store_le32 (of_nat (dc_n_groups c))\<rparr>)),
     be_write_partials = (\<lambda>c p. (True, dc_side c)), be_pipe_open = Some (\<lambda>c a b. (True, dc_side c)),
     be_pipe_enqueue = (\<lambda>c s a b d e f g. (True, dc_side c)),
     be_pipe_wait = (\<lambda>c s. ((dc_partial_words c = 1 \<and> dc_partial_word_bytes c = 4 \<and> dc_n_partials c = 1,
        store_le32 (of_nat (snd (vb_dev_slice (dc_n_groups c) (dc_pipe_chunks c) (s mod dc_pipe_chunks c)))), 5, 3), dc_side c)),
     be_destroy = (\<lambda>c. (dc_side c)\<lparr>sd_impl := None\<rparr>)\<rparr>"

lemma instant_calibrates:
  assumes "dc_global_size c div dc_local_size c \<le> dc_partial_cap c" "dc_local_size c \<noteq> 0"
  shows "\<exists>c'. calibrate_repeats instant_backend c it = (True, c')"
  using assms
  by (auto simp: calibrate_repeats_def vb_dev_ctx_run_def vb_dev_ctx_enqueue_def vb_dev_ctx_collect_def side_call_def
      instant_backend_def Let_def split: if_splits)

lemma instant_pins:
  assumes "do_pin_global opt = 256" "do_pin_local opt = 128" "dc_lanes c = 64" "di_local_mem (dc_dev c) = 0" "2 \<le> dc_partial_cap c"
  shows "\<exists>c'. init_geometry instant_backend opt 64 256 c = Some (True, c')"
proof -
  let ?c = "c\<lparr>dc_global_size := 256, dc_local_size := 128, dc_n_partials := 256 div 128, dc_geometry_pinned := True\<rparr>"
  obtain held c1 where M: "measure_capacity instant_backend ?c 128 = (held, c1)" by (metis surj_pair)
  obtain sd where c1: "c1 = ?c\<lparr>dc_side := sd\<rparr>" using capacity_side[OF M] by blast
  obtain c2 where C: "calibrate_repeats instant_backend (c1\<lparr>dc_capacity := held\<rparr>) (do_iterations opt) = (True, c2)"
    using instant_calibrates[of "c1\<lparr>dc_capacity := held\<rparr>"] assms(5) by (auto simp: c1)
  have "geometry_ok c 256 128" using assms(3,4) by (simp add: geometry_ok_def Let_def)
  then show ?thesis using M C by (simp add: init_geometry_def assms(1,2) Let_def)
qed

text \<open>C30: what the creation of a context settles, whatever the backend measures: a launch the
  work-group scratch and the stride arithmetic can serve, within the device's group size, whose
  partials fit the buffers allocated so that no launch is refused; an odd number of sweeps per
  launch; and either exactly the geometry asked for, or one the tuner measured, which runs in one
  wave unless the capacity is unknown or below one unit of the launch.\<close>

theorem device_launch_settled:
  assumes "vb_dev_ctx_init env be dev corpus streams first_group n_groups opt = Some (True, c)"
    and "c_lanes corpus dvd 512"
  shows "geometry_ok c (dc_global_size c) (dc_local_size c)
    \<and> (di_max_work_group dev \<noteq> 0 \<longrightarrow> dc_local_size c \<le> di_max_work_group dev)
    \<and> dc_n_partials c = dc_global_size c div dc_local_size c
    \<and> vb_dev_ctx_enqueue be c it = side_call c (be_launch be c it (dc_local_size c * partial_bytes c))
    \<and> odd (dc_repeats c) \<and> dc_repeats c \<le> 65535
    \<and> (if do_pin_global opt \<noteq> 0 \<or> do_pin_local opt \<noteq> 0
        then dc_global_size c = do_pin_global opt \<and> dc_local_size c = do_pin_local opt
        else dc_capacity c = 0 \<or> dc_capacity c < max (c_lanes corpus) (dc_local_size c)
          \<or> vb_dev_waves (dc_global_size c) n_groups (c_lanes corpus) (dc_capacity c) \<le> 1)"
proof -
  note S = init_settles[OF assms]
  have "dc_local_size c \<noteq> 0" using S by (metis settled_def geometry_ok_def)
  then have "vb_dev_ctx_enqueue be c it = side_call c (be_launch be c it (dc_local_size c * partial_bytes c))"
    using S by (auto simp: settled_def vb_dev_ctx_enqueue_def)
  then show ?thesis using S by (auto simp: settled_def placed_def one_wave_def split: if_splits)
qed

lemma device_launch_settled_witness:
  "\<exists>c. vb_dev_ctx_init \<lparr>de_dialect = (\<lambda>d. []), de_primitives = [], de_capacity = [], de_core = (\<lambda>a. ''core''), de_compose_ok = True, de_partials_ok = True\<rparr> instant_backend
       (zero_dev\<lparr>di_compute_units := 4, di_max_work_group := 1024\<rparr>)
       \<lparr>c_words = replicate 1024 7, c_n_words = 1024, c_alg = md5_alg, c_lanes = 64, c_blocks = 1, c_message_bytes = 32,
         c_n_messages = 64, c_start_index = 0\<rparr> 1 0 1
       (vb_dev_options_default\<lparr>do_neutral := True, do_pin_global := 256, do_pin_local := 128\<rparr>) = Some (True, c)
     \<and> geometry_ok c (dc_global_size c) (dc_local_size c) \<and> odd (dc_repeats c)"
proof -
  let ?env = "\<lparr>de_dialect = (\<lambda>d. []), de_primitives = [], de_capacity = [], de_core = (\<lambda>a. ''core''), de_compose_ok = True, de_partials_ok = True\<rparr>"
  let ?dev = "zero_dev\<lparr>di_compute_units := 4, di_max_work_group := 1024\<rparr>"
  let ?corpus = "\<lparr>c_words = replicate 1024 7, c_n_words = 1024, c_alg = md5_alg, c_lanes = 64, c_blocks = 1, c_message_bytes = 32,
         c_n_messages = 64, c_start_index = 0\<rparr>"
  let ?opt = "vb_dev_options_default\<lparr>do_neutral := True, do_pin_global := 256, do_pin_local := 128\<rparr>"
  have floor: "lower_floor 256 64 = 64" by (subst lower_floor.simps) simp
  have "\<exists>c. vb_dev_ctx_init ?env instant_backend ?dev ?corpus 1 0 1 ?opt = Some (True, c)"
    by (simp add: vb_dev_ctx_init_def program_for_def PROGRAMS_def compose_def md5_alg_def vb_device_steers_def vb_dev_options_default_def
        side_call_def instant_backend_def[THEN arg_cong[where f = be_build]] instant_backend_def[THEN arg_cong[where f = be_alloc]]
        instant_backend_def[THEN arg_cong[where f = be_max_local]] init_buffers_def local_bounds_def zero_dev_def VB_DEV_MIN_LOCAL_def
        floor zero_ctx_def max_global_def VB_DEV_PER_CU_def VB_DEV_MAX_LOCAL_def round_up_def Let_def instant_pins)
  then obtain c where c: "vb_dev_ctx_init ?env instant_backend ?dev ?corpus 1 0 1 ?opt = Some (True, c)" by blast
  have d: "c_lanes ?corpus dvd 512" by simp
  note S = device_launch_settled[OF c d]
  show ?thesis using c S by blast
qed

text \<open>C31: creating a context ends, on any backend and whatever it answers, for a device that reports
  compute units.\<close>

theorem device_init_ends:
  assumes "di_compute_units dev \<noteq> 0"
  shows "\<exists>ok c. vb_dev_ctx_init env be dev corpus streams first_group n_groups opt = Some (ok, c)"
proof -
  have tg: "tune_geometry be c it \<noteq> None" if "dc_dev c = dev" for c it
  proof -
    obtain fl hi where B: "local_bounds be (c\<lparr>dc_repeats := 1\<rparr>) = (fl, hi)" by (metis surj_pair)
    have "tune_local be x (max_global c) hi fl (c\<lparr>dc_repeats := 1\<rparr>) b \<noteq> None" for x b
      by (rule tune_local_ends) (use that assms in simp)
    then obtain r where "tune_local be (if it = 0 then 1 else if it < VB_DEV_TUNE_MAX_ITERS then it else VB_DEV_TUNE_MAX_ITERS)
        (max_global c) hi fl (c\<lparr>dc_repeats := 1\<rparr>) \<lparr>ge_rate = num (- 1), ge_global = 0, ge_local = 0, ge_held = 0\<rparr> = Some r" by blast
    then show ?thesis unfolding tune_geometry_def Let_def B prod.case by (cases r) auto
  qed
  have ig: "init_geometry be opt fl hi c \<noteq> None" if "dc_dev c = dev" for fl hi c
  proof -
    have "tune_geometry be c (do_iterations opt) \<noteq> None" by (rule tg[OF that])
    then obtain r where T: "tune_geometry be c (do_iterations opt) = Some r" by blast
    then show ?thesis by (cases r) (auto simp: init_geometry_def Let_def split: prod.splits)
  qed
  have ib: "init_buffers env be corpus streams first_group n_groups opt c \<noteq> None" if "dc_dev c = dev" for c
    by (rule init_buffers_cases[of env be corpus streams first_group n_groups opt c]) (use ig that in auto)
  have "vb_dev_ctx_init env be dev corpus streams first_group n_groups opt \<noteq> None"
    by (rule init_cases[of env be dev corpus streams first_group n_groups opt]) (use ib in auto)
  then show ?thesis by (auto simp: split_paired_Ex)
qed

lemma device_init_ends_witness:
  "\<exists>ok c. vb_dev_ctx_init \<lparr>de_dialect = (\<lambda>d. []), de_primitives = [], de_capacity = [], de_core = (\<lambda>a. ''core''), de_compose_ok = True, de_partials_ok = False\<rparr> instant_backend
     (zero_dev\<lparr>di_compute_units := 4\<rparr>)
     \<lparr>c_words = replicate 1024 7, c_n_words = 1024, c_alg = md5_alg, c_lanes = 64, c_blocks = 1, c_message_bytes = 32,
       c_n_messages = 64, c_start_index = 0\<rparr> 1 0 1 vb_dev_options_default = Some (ok, c)"
  by (rule device_init_ends) simp

end
