(* ===== verification/Pipe_Verify.thy ===== *)
theory Pipe_Verify
  imports Device_Pipe Device_Geometry Pool_Verify
begin

text \<open>
  What the pipeline of Device_Pipe promises.  Towards the backend it is a bounded queue: chunks are
  queued in order, collected in order, and never more than \<open>VB_PIPE_RING\<close> are in between; that is
  the abstract machine \<open>ring_step\<close>.  Towards the caller every pass is the XOR of one full sweep of
  every device, although chunks of the next passes are already queued when a call returns.
\<close>

section \<open>The queue the backend sees\<close>

text \<open>The state is how many chunks have been queued and how many collected; a failed call changes
  nothing.\<close>

fun ring_step :: "ring_call \<times> bool \<Rightarrow> nat \<times> nat \<Rightarrow> (nat \<times> nat) option" where
  "ring_step (Enqueue s, ok) (q, w) = (if s = q \<and> q < w + VB_PIPE_RING then Some (if ok then q + 1 else q, w) else None)"
| "ring_step (Wait s, ok) (q, w) = (if s = w \<and> w < q then Some (q, if ok then w + 1 else w) else None)"

fun ring_run :: "(ring_call \<times> bool) list \<Rightarrow> nat \<times> nat \<Rightarrow> (nat \<times> nat) option" where
  "ring_run [] st = Some st"
| "ring_run (x # xs) st = (case ring_step x st of None \<Rightarrow> None | Some st \<Rightarrow> ring_run xs st)"

lemma ring_run_append: "ring_run (xs @ ys) st = (case ring_run xs st of None \<Rightarrow> None | Some st \<Rightarrow> ring_run ys st)"
  by (induction xs arbitrary: st) (auto split: option.splits)

definition ring_ok :: "'i vb_dev_ctx \<Rightarrow> bool" where
  "ring_ok c \<longleftrightarrow> ring_run (dc_calls c) (0, 0) = Some (dc_pipe_queued c, dc_pipe_collected c)
    \<and> dc_pipe_collected c \<le> dc_pipe_queued c \<and> dc_pipe_queued c \<le> dc_pipe_collected c + VB_PIPE_RING"

text \<open>What no operation of the pipeline changes.\<close>

definition same_slice :: "'i vb_dev_ctx \<Rightarrow> 'i vb_dev_ctx \<Rightarrow> bool" where
  "same_slice c c' \<longleftrightarrow> dc_first_group c' = dc_first_group c \<and> dc_n_groups c' = dc_n_groups c \<and>
     dc_pipe_chunks c' = dc_pipe_chunks c \<and> dc_partial_words c' = dc_partial_words c \<and>
     dc_partial_word_bytes c' = dc_partial_word_bytes c \<and> dc_n_partials c' = dc_n_partials c \<and>
     dc_group_bytes c' = dc_group_bytes c \<and> dc_local_size c' = dc_local_size c"

lemma same_slice_refl [simp]: "same_slice c c" by (simp add: same_slice_def)

lemma same_slice_trans: "same_slice a b \<Longrightarrow> same_slice b c \<Longrightarrow> same_slice a c" by (simp add: same_slice_def)

lemma pipe_queue_ok:
  assumes "pipe_queue be c = (ok, c')" "ring_ok c" "dc_pipe_queued c < dc_pipe_collected c + VB_PIPE_RING"
  shows "ring_ok c'" "same_slice c c'"
  using assms
  by (auto simp: pipe_queue_def side_call_def ring_ok_def ring_run_append same_slice_def Let_def split: prod.splits if_splits)

lemma pipe_wait_ok:
  assumes "pipe_wait_next be c = ((ok, x), c')" "ring_ok c" "dc_pipe_collected c < dc_pipe_queued c"
  shows "ring_ok (if ok then c'\<lparr>dc_pipe_collected := dc_pipe_collected c' + 1\<rparr> else c')" "same_slice c c'"
  using assms
  by (auto simp: pipe_wait_next_def ring_ok_def ring_run_append same_slice_def Let_def split: prod.splits)

lemma top_up_ok:
  assumes "top_up be c = (ok, c')" "ring_ok c"
  shows "ring_ok c' \<and> same_slice c c' \<and> dc_pipe_collected c' = dc_pipe_collected c
    \<and> (ok \<longrightarrow> dc_pipe_queued c' = dc_pipe_collected c' + VB_PIPE_RING)"
  using assms
proof (induction be c arbitrary: ok c' rule: top_up.induct)
  case (1 be c)
  show ?case
  proof (cases "dc_pipe_queued c < dc_pipe_collected c + VB_PIPE_RING")
    case True
    obtain ok1 c1 where q: "pipe_queue be c = (ok1, c1)" by (metis surj_pair)
    have c1: "ring_ok c1" "same_slice c c1" "dc_pipe_collected c1 = dc_pipe_collected c"
      using pipe_queue_ok[OF q "1.prems"(2) True] pipe_queue_counts(2)[of be c] by (simp_all add: q)
    show ?thesis
    proof (cases ok1)
      case False
      then show ?thesis using "1.prems" True q c1 by (subst (asm) top_up.simps) simp
    next
      case True1: True
      then have "top_up be c1 = (ok, c')" using "1.prems" True q by (subst (asm) top_up.simps) simp
      then show ?thesis using "1.IH"[OF True q[symmetric] refl _ _ c1(1)] True1 c1 same_slice_trans by fastforce
    qed
  next
    case False
    then show ?thesis using "1.prems" by (subst (asm) top_up.simps) (auto simp: ring_ok_def)
  qed
qed

lemma pipe_drain_ok: "ring_ok c \<Longrightarrow> ring_ok (pipe_drain be c)"
proof (induction be c rule: pipe_drain.induct)
  case (1 be c)
  show ?case
  proof (cases "dc_pipe_collected c < dc_pipe_queued c")
    case True
    obtain ok x c' where w: "pipe_wait_next be c = ((ok, x), c')" by (metis surj_pair)
    have r: "ring_ok (if ok then c'\<lparr>dc_pipe_collected := dc_pipe_collected c' + 1\<rparr> else c')"
      by (rule pipe_wait_ok(1)[OF w "1.prems" True])
    show ?thesis
    proof (cases ok)
      case False
      then show ?thesis using r True by (subst pipe_drain.simps) (simp add: w)
    next
      case T: True
      have "ring_ok (pipe_drain be (c'\<lparr>dc_pipe_collected := dc_pipe_collected c' + 1\<rparr>))"
        using "1.IH"[OF True refl refl] r T by (simp add: w)
      then show ?thesis using True T by (subst pipe_drain.simps) (simp add: w)
    qed
  next
    case False
    then show ?thesis using "1.prems" by (subst pipe_drain.simps) simp
  qed
qed

lemma pipe_end_one_ok: "ring_ok c \<Longrightarrow> ring_ok (pipe_end_one be c)"
  using pipe_drain_ok[of c be] by (simp add: pipe_end_one_def ring_ok_def)

lemma pipe_begin_one_ok: "ring_ok (pipe_begin_one iterations c)"
  by (simp add: pipe_begin_one_def ring_ok_def)

section \<open>What the passes add up to\<close>

text \<open>\<open>tot f n\<close> is the checksum of the groups from \<open>f\<close> to \<open>f + n - 1\<close>; chunk \<open>j\<close> of a pass over a
  context is its slice \<open>j\<close>.\<close>

definition chunk_sum :: "(nat \<Rightarrow> nat \<Rightarrow> checksum) \<Rightarrow> 'i vb_dev_ctx \<Rightarrow> nat \<Rightarrow> checksum" where
  "chunk_sum tot c j =
    (let (first, count) = vb_dev_slice (dc_n_groups c) (dc_pipe_chunks c) j in tot (dc_first_group c + first) count)"

text \<open>What \<open>pipe_enqueue\<close> was asked to do for a chunk.\<close>

record pipe_job =
  pj_offset :: nat
  pj_bytes :: nat
  pj_groups :: nat
  pj_iterations :: nat
  pj_shared :: nat
  pj_read :: nat

text \<open>What include/device.h promises of the two calls, on hardware that computes what it should.
  \<open>ring\<close> reads off the backend's state what each slot of the readback ring is for: a chunk queued as
  number \<open>s\<close> takes slot \<open>s mod VB_PIPE_RING\<close>, with the offset, the bytes, the groups, the iterations and
  the two sizes the call was given; a wait leaves the ring alone and returns the partials of the job in
  the chunk's slot.  Those fold to the checksum \<open>kern\<close> of the groups the job uploaded, wherever the upload
  is of just those groups and the scratch and the readback are large enough.  A job for other bytes, for
  other groups or at another offset gets other partials, of which nothing is said.\<close>

definition pipe_contract ::
  "(nat \<Rightarrow> nat \<Rightarrow> nat \<Rightarrow> checksum) \<Rightarrow> ('i vb_dev_side \<Rightarrow> nat \<Rightarrow> pipe_job option) \<Rightarrow> 'i vb_dev_backend \<Rightarrow> bool" where
  "pipe_contract kern ring be \<longleftrightarrow>
     (\<forall>c s offset bytes n it shared read side. be_pipe_enqueue be c s offset bytes n it shared read = (True, side) \<longrightarrow>
        ring side = (ring (dc_side c))(s mod VB_PIPE_RING \<mapsto>
          \<lparr>pj_offset = offset, pj_bytes = bytes, pj_groups = n, pj_iterations = it, pj_shared = shared, pj_read = read\<rparr>)) \<and>
     (\<forall>c s p kn tn side. be_pipe_wait be c s = ((True, p, kn, tn), side) \<longrightarrow> ring side = ring (dc_side c)) \<and>
     (\<forall>c s p kn tn side job first acc. be_pipe_wait be c s = ((True, p, kn, tn), side) \<longrightarrow>
        ring (dc_side c) (s mod VB_PIPE_RING) = Some job \<longrightarrow>
        0 < dc_group_bytes c \<longrightarrow> pj_offset job = first * dc_group_bytes c \<longrightarrow>
        pj_bytes job = pj_groups job * dc_group_bytes c \<longrightarrow>
        dc_local_size c * partial_bytes c \<le> pj_shared job \<longrightarrow> dc_n_partials c * partial_bytes c \<le> pj_read job \<longrightarrow>
        length acc = VB_MAX_DIGEST_WORDS \<longrightarrow>
        fold_partials c p acc = xor_row acc (kern (pj_iterations job) (dc_first_group c + first) (pj_groups job)))"

lemma contract_enqueue:
  assumes "pipe_contract kern ring be" "be_pipe_enqueue be c s offset bytes n it shared read = (True, side)"
  shows "ring side = (ring (dc_side c))(s mod VB_PIPE_RING \<mapsto>
     \<lparr>pj_offset = offset, pj_bytes = bytes, pj_groups = n, pj_iterations = it, pj_shared = shared, pj_read = read\<rparr>)"
  by (rule conjunct1[OF assms(1)[unfolded pipe_contract_def], rule_format, OF assms(2)])

lemma contract_wait:
  assumes "pipe_contract kern ring be" "be_pipe_wait be c s = ((True, p, kn, tn), side)"
  shows "ring side = ring (dc_side c)"
    and "ring (dc_side c) (s mod VB_PIPE_RING) = Some job \<Longrightarrow> 0 < dc_group_bytes c \<Longrightarrow>
      pj_offset job = first * dc_group_bytes c \<Longrightarrow> pj_bytes job = pj_groups job * dc_group_bytes c \<Longrightarrow>
      dc_local_size c * partial_bytes c \<le> pj_shared job \<Longrightarrow> dc_n_partials c * partial_bytes c \<le> pj_read job \<Longrightarrow>
      length acc = VB_MAX_DIGEST_WORDS \<Longrightarrow>
      fold_partials c p acc = xor_row acc (kern (pj_iterations job) (dc_first_group c + first) (pj_groups job))"
proof -
  note laws = conjunct2[OF assms(1)[unfolded pipe_contract_def]]
  show "ring side = ring (dc_side c)" by (rule conjunct1[OF laws, rule_format, OF assms(2)])
  show "ring (dc_side c) (s mod VB_PIPE_RING) = Some job \<Longrightarrow> 0 < dc_group_bytes c \<Longrightarrow>
      pj_offset job = first * dc_group_bytes c \<Longrightarrow> pj_bytes job = pj_groups job * dc_group_bytes c \<Longrightarrow>
      dc_local_size c * partial_bytes c \<le> pj_shared job \<Longrightarrow> dc_n_partials c * partial_bytes c \<le> pj_read job \<Longrightarrow>
      length acc = VB_MAX_DIGEST_WORDS \<Longrightarrow>
      fold_partials c p acc = xor_row acc (kern (pj_iterations job) (dc_first_group c + first) (pj_groups job))"
    by (rule conjunct2[OF laws, rule_format, OF assms(2)])
qed

text \<open>The chunk a context has to queue as number \<open>i\<close>, and a ring that holds every chunk in flight.\<close>

definition chunk_job :: "nat \<Rightarrow> 'i vb_dev_ctx \<Rightarrow> nat \<Rightarrow> pipe_job" where
  "chunk_job it c i =
    (let (first, count) = vb_dev_slice (dc_n_groups c) (dc_pipe_chunks c) (i mod dc_pipe_chunks c)
     in \<lparr>pj_offset = first * dc_group_bytes c, pj_bytes = count * dc_group_bytes c, pj_groups = count, pj_iterations = it,
         pj_shared = dc_local_size c * partial_bytes c, pj_read = dc_n_partials c * partial_bytes c\<rparr>)"

definition ring_holds :: "('i vb_dev_side \<Rightarrow> nat \<Rightarrow> pipe_job option) \<Rightarrow> nat \<Rightarrow> 'i vb_dev_ctx \<Rightarrow> bool" where
  "ring_holds ring it c \<longleftrightarrow> dc_pipe_iterations c = it \<and> 0 < dc_group_bytes c \<and>
     (\<forall>i. dc_pipe_collected c \<le> i \<longrightarrow> i < dc_pipe_queued c \<longrightarrow>
        ring (dc_side c) (i mod VB_PIPE_RING) = Some (chunk_job it c i))"

text \<open>Two chunks in flight never share a slot.\<close>

lemma slots_apart:
  assumes "i < q" "q < i + VB_PIPE_RING"
  shows "i mod VB_PIPE_RING \<noteq> q mod VB_PIPE_RING"
proof
  assume "i mod VB_PIPE_RING = q mod VB_PIPE_RING"
  then have "VB_PIPE_RING dvd q - i" using assms(1) by (metis mod_eq_dvd_iff_nat less_imp_le_nat)
  then show False using assms by (auto dest: dvd_imp_le)
qed

lemma chunk_job_same: "same_slice c c' \<Longrightarrow> chunk_job it c' i = chunk_job it c i"
  by (simp add: chunk_job_def same_slice_def partial_bytes_def)

lemma pipe_queue_holds:
  assumes "pipe_queue be c = (True, c')" "ring_ok c" "dc_pipe_queued c < dc_pipe_collected c + VB_PIPE_RING"
    and "ring_holds ring it c" "pipe_contract kern ring be"
  shows "ring_holds ring it c'"
proof -
  let ?q = "dc_pipe_queued c"
  have same: "same_slice c c'" by (rule pipe_queue_ok(2)[OF assms(1-3)])
  obtain first n where f: "vb_dev_slice (dc_n_groups c) (dc_pipe_chunks c) (?q mod dc_pipe_chunks c) = (first, n)"
    by (metis surj_pair)
  obtain ok side where e: "be_pipe_enqueue be c ?q (first * dc_group_bytes c) (n * dc_group_bytes c) n it
      (dc_local_size c * partial_bytes c) (dc_n_partials c * partial_bytes c) = (ok, side)" by (metis surj_pair)
  have it: "dc_pipe_iterations c = it" using assms(4) by (simp add: ring_holds_def)
  have c': ok "dc_side c' = side" "dc_pipe_queued c' = ?q + 1" "dc_pipe_collected c' = dc_pipe_collected c"
      "dc_pipe_iterations c' = dc_pipe_iterations c"
    using assms(1) by (auto simp: pipe_queue_def side_call_def f e it Let_def split: if_splits)
  have side: "ring side = (ring (dc_side c))(?q mod VB_PIPE_RING \<mapsto> chunk_job it c ?q)"
    using contract_enqueue[OF assms(5)] e c'(1) by (simp add: chunk_job_def f)
  have "ring side (i mod VB_PIPE_RING) = Some (chunk_job it c i)" if "dc_pipe_collected c \<le> i" "i < ?q + 1" for i
  proof (cases "i = ?q")
    case False
    then have "i mod VB_PIPE_RING \<noteq> ?q mod VB_PIPE_RING" using that assms(3) by (intro slots_apart) simp_all
    then show ?thesis using assms(4) that False unfolding side by (simp add: ring_holds_def)
  qed (simp add: side)
  then show ?thesis
    using assms(4) c' same by (simp add: ring_holds_def chunk_job_same[OF same]) (simp add: same_slice_def)
qed

lemma top_up_holds:
  assumes "top_up be c = (True, c')" "ring_ok c" "ring_holds ring it c" "pipe_contract kern ring be"
  shows "ring_holds ring it c'"
  using assms
proof (induction be c arbitrary: c' rule: top_up.induct)
  case (1 be c)
  show ?case
  proof (cases "dc_pipe_queued c < dc_pipe_collected c + VB_PIPE_RING")
    case True
    obtain ok1 c1 where q: "pipe_queue be c = (ok1, c1)" by (metis surj_pair)
    have ok1: ok1 and t: "top_up be c1 = (True, c')"
      using "1.prems"(1) True q by (subst (asm) top_up.simps, simp split: if_splits)+
    have q1: "pipe_queue be c = (True, c1)" using q ok1 by simp
    show ?thesis
      by (rule "1.IH"[OF True q[symmetric] refl _ t]) (use ok1 pipe_queue_ok(1)[OF q1 "1.prems"(2) True]
          pipe_queue_holds[OF q1 "1.prems"(2) True "1.prems"(3,4)] "1.prems"(4) in auto)
  next
    case False
    then show ?thesis using "1.prems"(1,3) by (subst (asm) top_up.simps) simp
  qed
qed

text \<open>A wait for the oldest chunk in flight returns what that chunk comes to.\<close>

lemma pipe_wait_holds:
  assumes "pipe_wait_next be c = ((True, p, kn, tn), c')" "dc_pipe_collected c < dc_pipe_queued c"
    and "ring_holds ring it c" "pipe_contract kern ring be" "length acc = VB_MAX_DIGEST_WORDS"
  shows "ring_holds ring it (c'\<lparr>dc_pipe_collected := dc_pipe_collected c' + 1\<rparr>)"
    and "fold_partials c p acc = xor_row acc (chunk_sum (kern it) c (dc_pipe_collected c mod dc_pipe_chunks c))"
proof -
  obtain side where B: "be_pipe_wait be c (dc_pipe_collected c) = ((True, p, kn, tn), side)"
    and c': "c' = c\<lparr>dc_side := side, dc_calls := dc_calls c @ [(Wait (dc_pipe_collected c), True)]\<rparr>"
    using assms(1) by (auto simp: pipe_wait_next_def split: prod.splits)
  show "ring_holds ring it (c'\<lparr>dc_pipe_collected := dc_pipe_collected c' + 1\<rparr>)"
    using assms(3) contract_wait(1)[OF assms(4) B] by (simp add: c' ring_holds_def chunk_job_def partial_bytes_def)
  obtain first n where f: "vb_dev_slice (dc_n_groups c) (dc_pipe_chunks c) (dc_pipe_collected c mod dc_pipe_chunks c) = (first, n)"
    by (metis surj_pair)
  have "ring (dc_side c) (dc_pipe_collected c mod VB_PIPE_RING) = Some (chunk_job it c (dc_pipe_collected c))" "0 < dc_group_bytes c"
    using assms(2,3) by (simp_all add: ring_holds_def)
  from contract_wait(2)[OF assms(4) B this, of first]
  show "fold_partials c p acc = xor_row acc (chunk_sum (kern it) c (dc_pipe_collected c mod dc_pipe_chunks c))"
    using assms(5) by (simp add: chunk_job_def chunk_sum_def f)
qed

lemma chunk_sum_same: "same_slice c c' \<Longrightarrow> chunk_sum tot c' j = chunk_sum tot c j"
  by (simp add: chunk_sum_def same_slice_def)

lemma fold_partials_same: "same_slice c c' \<Longrightarrow> fold_partials c' p acc = fold_partials c p acc"
  by (simp add: fold_partials_def partial_word_def same_slice_def)

text \<open>The chunks of the first \<open>m\<close> that belong to pass \<open>p\<close>.\<close>

definition pass_part :: "(nat \<Rightarrow> nat \<Rightarrow> checksum) \<Rightarrow> 'i vb_dev_ctx \<Rightarrow> nat \<Rightarrow> nat \<Rightarrow> nat \<Rightarrow> u64" where
  "pass_part tot c p m j =
    xor_over (\<lambda>i. chunk_sum tot c (i mod dc_pipe_chunks c) ! j) (filter (\<lambda>i. i div dc_pipe_chunks c = p) [0..<m])"

lemma pass_part_Suc:
  "pass_part tot c p (Suc m) j = pass_part tot c p m j XOR
    (if m div dc_pipe_chunks c = p then chunk_sum tot c (m mod dc_pipe_chunks c) ! j else 0)"
  by (simp add: pass_part_def)

lemma pass_part_same: "same_slice c c' \<Longrightarrow> pass_part tot c' p m j = pass_part tot c p m j"
  by (simp add: pass_part_def chunk_sum_same) (simp add: same_slice_def)

lemma pass_part_full:
  assumes "0 < dc_pipe_chunks c" "p < n"
  shows "pass_part tot c p (n * dc_pipe_chunks c) j = xor_over (\<lambda>i. chunk_sum tot c i ! j) [0..<dc_pipe_chunks c]"
proof -
  let ?k = "dc_pipe_chunks c"
  have f: "filter (\<lambda>i. i div ?k = p) [0..<q * ?k] = (if p < q then [p * ?k..<p * ?k + ?k] else [])" for q
  proof (induction q)
    case (Suc q)
    have "x div ?k = q" if "q * ?k \<le> x" "x < q * ?k + ?k" for x
      using that by (intro div_nat_eqI) (simp_all add: mult.commute)
    then have "filter (\<lambda>i. i div ?k = p) [q * ?k..<q * ?k + ?k] = (if q = p then [q * ?k..<q * ?k + ?k] else [])"
      by (auto simp: filter_empty_conv filter_id_conv)
    moreover have "[0..<Suc q * ?k] = [0..<q * ?k] @ [q * ?k..<q * ?k + ?k]"
      using upt_add_eq_append[of 0 "q * ?k" ?k] by (simp add: add.commute)
    ultimately show ?case using Suc by auto
  qed simp
  have e: "[p * ?k..<p * ?k + ?k] = map (\<lambda>i. p * ?k + i) [0..<?k]"
    by (rule nth_equalityI) simp_all
  show ?thesis
  proof -
    have "xor_over (\<lambda>i. chunk_sum tot c (i mod ?k) ! j) [0..<?k] = xor_over (\<lambda>i. chunk_sum tot c i ! j) [0..<?k]"
      by (rule arg_cong[where f = xor_list]) auto
    then show ?thesis using assms e by (simp add: pass_part_def f comp_def)
  qed
qed

text \<open>Changing one operand of an XOR.\<close>

lemma xor_over_update:
  assumes "d < n" "\<And>e. e \<noteq> d \<Longrightarrow> f e = g e" "f d = g d XOR v"
  shows "xor_over f [0..<n] = xor_over g [0..<n] XOR (v :: 'a::len word)"
proof -
  have s: "[0..<n] = [0..<d] @ d # [Suc d..<n]"
    using assms(1) by (metis less_imp_le_nat upt_add_eq_append upt_conv_Cons le_add_diff_inverse zero_le)
  have a: "map f [0..<d] = map g [0..<d]" "map f [Suc d..<n] = map g [Suc d..<n]" using assms(2) by auto
  show ?thesis unfolding s by (simp add: a assms(3) xor.assoc xor.left_commute xor.commute)
qed

text \<open>The state between two visits of a round: device \<open>d\<close> has collected \<open>m d\<close> chunks in this call.\<close>

definition pipe_inv ::
  "('i vb_dev_side \<Rightarrow> nat \<Rightarrow> pipe_job option) \<Rightarrow> nat \<Rightarrow> (nat \<Rightarrow> nat \<Rightarrow> checksum) \<Rightarrow> 'i vb_dev_ctx list \<Rightarrow> nat \<Rightarrow>
     (nat \<Rightarrow> nat) \<Rightarrow> 'i pipe_call \<Rightarrow> bool" where
  "pipe_inv ring it tot ctx passes m pc \<longleftrightarrow>
     length (pc_ctx pc) = length ctx \<and> length (pc_out pc) = passes \<and>
     (\<forall>d < length ctx. same_slice (ctx ! d) (pc_ctx pc ! d) \<and> ring_ok (pc_ctx pc ! d) \<and> ring_holds ring it (pc_ctx pc ! d) \<and>
        dc_pipe_collected (pc_ctx pc ! d) = dc_pipe_collected (ctx ! d) + m d \<and> m d \<le> passes * dc_pipe_chunks (ctx ! d)) \<and>
     (\<forall>p < passes. pc_out pc ! p =
        map (\<lambda>j. xor_over (\<lambda>d. pass_part tot (ctx ! d) p (m d) j) [0..<length ctx]) [0..<VB_MAX_DIGEST_WORDS])"

definition pass_bases :: "'i vb_dev_ctx list \<Rightarrow> nat list" where
  "pass_bases ctx = map dc_pipe_collected ctx"

definition pass_stops :: "nat \<Rightarrow> 'i vb_dev_ctx list \<Rightarrow> nat list" where
  "pass_stops passes ctx = map (\<lambda>c. dc_pipe_collected c + passes * dc_pipe_chunks c) ctx"

text \<open>Contexts a call may start from: between two passes.\<close>

definition pipe_ready :: "('i vb_dev_side \<Rightarrow> nat \<Rightarrow> pipe_job option) \<Rightarrow> nat \<Rightarrow> 'i vb_dev_ctx \<Rightarrow> bool" where
  "pipe_ready ring it c \<longleftrightarrow> ring_ok c \<and> ring_holds ring it c \<and> 0 < dc_pipe_chunks c \<and> dc_pipe_chunks c dvd dc_pipe_collected c"

lemma visit_inv:
  assumes V: "pipe_visit be (pass_bases ctx) (pass_stops passes ctx) d (True, busy, pc) = (True, busy', pc')"
    and I: "pipe_inv ring it (kern it) ctx passes m pc" and d: "d < length ctx" and R: "\<forall>c \<in> set ctx. pipe_ready ring it c"
    and W: "pipe_contract kern ring be"
  shows "\<exists>m'. pipe_inv ring it (kern it) ctx passes m' pc'"
  using V
proof (cases rule: pipe_visit_cases)
  case (chunk c1 c2 p kn tn)
  let ?o = "ctx ! d" and ?c = "pc_ctx pc ! d"
  let ?k = "dc_pipe_chunks ?o"
  have r: "ring_ok ?o" "0 < ?k" "?k dvd dc_pipe_collected ?o" using R d by (auto simp: pipe_ready_def)
  have c: "same_slice ?o ?c" "ring_ok ?c" "dc_pipe_collected ?c = dc_pipe_collected ?o + m d"
    "length (pc_ctx pc) = length ctx" "length (pc_out pc) = passes"
    using I d by (auto simp: pipe_inv_def)
  have t: "ring_ok c1" "same_slice ?c c1" "dc_pipe_collected c1 = dc_pipe_collected ?c"
    "dc_pipe_queued c1 = dc_pipe_collected c1 + VB_PIPE_RING"
    using top_up_ok[OF chunk(5) c(2)] by auto
  have q: "dc_pipe_collected c1 < dc_pipe_queued c1" using t(4) by (simp add: VB_PIPE_RING_def)
  have w: "ring_ok (c2\<lparr>dc_pipe_collected := dc_pipe_collected c2 + 1\<rparr>)" "same_slice c1 c2"
    using pipe_wait_ok[OF chunk(6) t(1) q] by auto
  have s01: "same_slice ?o c1" "same_slice ?o c2"
    using same_slice_trans[OF c(1) t(2)] same_slice_trans[OF same_slice_trans[OF c(1) t(2)] w(2)] .
  have col: "dc_pipe_collected c1 = dc_pipe_collected ?o + m d" "dc_pipe_collected c2 = dc_pipe_collected ?o + m d"
    using t(3) c(3) pipe_wait_counts[OF chunk(6)] by simp_all
  have lt: "m d < passes * ?k" using chunk(2) d c(3) by (simp add: pass_stops_def)
  have pass: "(dc_pipe_collected c1 - pass_bases ctx ! d) div dc_pipe_chunks c1 = m d div ?k"
    using s01 d by (simp add: pass_bases_def col same_slice_def)
  have pl: "m d div ?k < passes" using lt r(2) by (simp add: less_mult_imp_div_less)
  let ?row = "pc_out pc ! (m d div ?k)"
  have rl: "length ?row = VB_MAX_DIGEST_WORDS" using I pl by (simp add: pipe_inv_def)
  have M: "dc_pipe_collected c1 mod dc_pipe_chunks c1 = m d mod ?k"
    using r(3) s01 by (auto simp: col same_slice_def mod_add_left_eq elim!: dvdE)
  have h1: "ring_holds ring it c1"
    by (rule top_up_holds[OF chunk(5) c(2) _ W]) (use I d in \<open>simp add: pipe_inv_def\<close>)
  note h = pipe_wait_holds[OF chunk(6) q h1 W rl]
  have F: "fold_partials c2 p ?row = xor_row ?row (chunk_sum (kern it) ?o (m d mod ?k))"
    using h(2) M chunk_sum_same[OF s01(1)] fold_partials_same[OF w(2)] by simp
  let ?m = "m(d := m d + 1)"
  have "pipe_inv ring it (kern it) ctx passes ?m pc'"
    unfolding pipe_inv_def
  proof (intro conjI allI impI)
    show "length (pc_ctx pc') = length ctx" "length (pc_out pc') = passes" unfolding chunk(7) using c by simp_all
  next
    fix e assume e: "e < length ctx"
    have o: "e \<noteq> d \<Longrightarrow> pc_ctx pc' ! e = pc_ctx pc ! e" unfolding chunk(7) by simp
    have n: "pc_ctx pc' ! d = c2\<lparr>dc_pipe_collected := dc_pipe_collected c2 + 1\<rparr>" unfolding chunk(7) using d c(4) by simp
    have J: "same_slice (ctx ! e) (pc_ctx pc ! e)" "ring_ok (pc_ctx pc ! e)"
      "dc_pipe_collected (pc_ctx pc ! e) = dc_pipe_collected (ctx ! e) + m e" "m e \<le> passes * dc_pipe_chunks (ctx ! e)"
      using I e by (auto simp: pipe_inv_def)
    show "same_slice (ctx ! e) (pc_ctx pc' ! e)" using J(1) o n s01(2) by (cases "e = d") (auto simp: same_slice_def)
    show "ring_ok (pc_ctx pc' ! e)" using J(2) o n w(1) by (cases "e = d") auto
    show "ring_holds ring it (pc_ctx pc' ! e)" using I e o n h(1) by (cases "e = d") (auto simp: pipe_inv_def)
    show "dc_pipe_collected (pc_ctx pc' ! e) = dc_pipe_collected (ctx ! e) + ?m e"
      using J(3) o n col by (cases "e = d") auto
    show "?m e \<le> passes * dc_pipe_chunks (ctx ! e)" using J(4) lt by (cases "e = d") auto
  next
    fix x assume x: "x < passes"
    have O: "pc_out pc ! x = map (\<lambda>j. xor_over (\<lambda>d. pass_part (kern it) (ctx ! d) x (m d) j) [0..<length ctx]) [0..<VB_MAX_DIGEST_WORDS]"
      using I x by (simp add: pipe_inv_def)
    have P: "pass_part (kern it) (ctx ! e) x (?m e) j = pass_part (kern it) (ctx ! e) x (m e) j" if "e \<noteq> d" for e j using that by simp
    have Q: "xor_over (\<lambda>e. pass_part (kern it) (ctx ! e) x (?m e) j) [0..<length ctx]
        = xor_over (\<lambda>e. pass_part (kern it) (ctx ! e) x (m e) j) [0..<length ctx]
          XOR (if m d div ?k = x then chunk_sum (kern it) ?o (m d mod ?k) ! j else 0)" for j
      by (rule xor_over_update[OF d P]) (simp_all add: pass_part_Suc)
    have N: "pc_out pc' ! x = (if m d div ?k = x then xor_row ?row (chunk_sum (kern it) ?o (m d mod ?k)) else pc_out pc ! x)"
      unfolding chunk(7) pass using pl c(5) F by simp
    show "pc_out pc' ! x = map (\<lambda>j. xor_over (\<lambda>e. pass_part (kern it) (ctx ! e) x (?m e) j) [0..<length ctx]) [0..<VB_MAX_DIGEST_WORDS]"
      unfolding N Q using O rl by (cases "m d div ?k = x") (auto simp: xor_row_words)
  qed
  then show ?thesis by blast
qed (use I in auto)

section \<open>Rounds, calls and sessions\<close>

lemma visits_inv:
  assumes "fold (pipe_visit be (pass_bases ctx) (pass_stops passes ctx)) ds (True, False, pc) = (True, busy, pc')"
    and "\<forall>d \<in> set ds. d < length ctx" and "pipe_inv ring it (kern it) ctx passes m pc" and "\<forall>c \<in> set ctx. pipe_ready ring it c"
    and "pipe_contract kern ring be"
  shows "(\<exists>m'. pipe_inv ring it (kern it) ctx passes m' pc') \<and>
    (\<not> busy \<longrightarrow> pc' = pc \<and> (\<forall>d \<in> set ds. pass_stops passes ctx ! d \<le> dc_pipe_collected (pc_ctx pc ! d)))"
  using assms(1,2)
proof (induction ds arbitrary: busy pc' rule: rev_induct)
  case Nil
  then show ?case using assms(3) by auto
next
  case (snoc d ds)
  obtain ok1 b1 p1 where f: "fold (pipe_visit be (pass_bases ctx) (pass_stops passes ctx)) ds (True, False, pc) = (ok1, b1, p1)"
    by (metis prod_cases3)
  have v: "pipe_visit be (pass_bases ctx) (pass_stops passes ctx) d (ok1, b1, p1) = (True, busy, pc')" using snoc.prems(1) f by simp
  have ok1: ok1 using v by (cases ok1) (auto simp: pipe_visit_def)
  then have ih: "\<exists>m'. pipe_inv ring it (kern it) ctx passes m' p1"
      "\<not> b1 \<longrightarrow> p1 = pc \<and> (\<forall>d \<in> set ds. pass_stops passes ctx ! d \<le> dc_pipe_collected (pc_ctx pc ! d))"
    using snoc.IH[of b1 p1] snoc.prems(2) f by auto
  obtain m1 where m1: "pipe_inv ring it (kern it) ctx passes m1 p1" using ih(1) by blast
  have d: "d < length ctx" using snoc.prems(2) by simp
  have "\<exists>m'. pipe_inv ring it (kern it) ctx passes m' pc'"
    by (rule visit_inv[OF _ m1 d assms(4,5)]) (use v ok1 in auto)
  moreover have "\<not> busy \<longrightarrow> \<not> b1 \<and> pc' = p1 \<and> pass_stops passes ctx ! d \<le> dc_pipe_collected (pc_ctx p1 ! d)"
    using v ok1 by (cases rule: pipe_visit_cases) auto
  ultimately show ?case using ih(2) by auto
qed

lemma loop_inv:
  assumes "pipe_loop be (pass_bases ctx) (pass_stops passes ctx) pc = (True, pc')" and "pipe_inv ring it (kern it) ctx passes m pc"
    and "\<forall>c \<in> set ctx. pipe_ready ring it c" and "pipe_contract kern ring be"
  shows "\<exists>m'. pipe_inv ring it (kern it) ctx passes m' pc' \<and> (\<forall>d < length ctx. m' d = passes * dc_pipe_chunks (ctx ! d))"
  using assms(1,2,4)
proof (induction be "pass_bases ctx" "pass_stops passes ctx" pc arbitrary: m rule: pipe_loop.induct)
  case (1 be pc)
  obtain ok busy p1 where r: "pipe_round be (pass_bases ctx) (pass_stops passes ctx) pc = (ok, busy, p1)" by (metis prod_cases3)
  have ok: ok using "1.prems"(1) r by (subst (asm) pipe_loop.simps) (auto split: if_splits)
  have n: "length (pc_ctx pc) = length ctx" using "1.prems"(2) by (simp add: pipe_inv_def)
  have f: "fold (pipe_visit be (pass_bases ctx) (pass_stops passes ctx)) [0..<length ctx] (True, False, pc) = (True, busy, p1)"
    using r ok n by (simp add: pipe_round_def)
  have v: "\<exists>m'. pipe_inv ring it (kern it) ctx passes m' p1"
      "\<not> busy \<longrightarrow> p1 = pc \<and> (\<forall>d < length ctx. pass_stops passes ctx ! d \<le> dc_pipe_collected (pc_ctx pc ! d))"
    using visits_inv[where ctx = ctx and passes = passes and kern = kern and it = it, OF f _ "1.prems"(2) assms(3)] "1.prems"(3) by auto
  show ?case
  proof (cases busy)
    case True
    then have "pipe_loop be (pass_bases ctx) (pass_stops passes ctx) p1 = (True, pc')"
      using "1.prems"(1) r ok by (subst (asm) pipe_loop.simps) simp
    then show ?thesis using "1.hyps"[OF r[symmetric] refl] ok True v(1) "1.prems"(3) by auto
  next
    case False
    then have e: "pc' = pc" using "1.prems"(1) r ok v(2) by (subst (asm) pipe_loop.simps) simp
    have "m d = passes * dc_pipe_chunks (ctx ! d)" if "d < length ctx" for d
    proof -
      have "pass_stops passes ctx ! d \<le> dc_pipe_collected (pc_ctx pc ! d)" using v(2) False that by blast
      then show ?thesis using "1.prems"(2) that by (force simp: pipe_inv_def pass_stops_def)
    qed
    then show ?thesis using "1.prems"(2) e by blast
  qed
qed

text \<open>One sweep of everything: what each pass has to come to.\<close>

definition sweep_sum :: "(nat \<Rightarrow> nat \<Rightarrow> checksum) \<Rightarrow> 'i vb_dev_ctx list \<Rightarrow> checksum" where
  "sweep_sum tot ctx = xor_rows (map (\<lambda>c. xor_rows (map (chunk_sum tot c) [0..<dc_pipe_chunks c])) ctx)"

lemma map_upt_nth: "map (\<lambda>d. f (xs ! d)) [0..<length xs] = map f xs"
  by (rule nth_equalityI) simp_all

lemma pipe_next_passes:
  assumes N: "vb_dev_pipe_next be ctx passes = (Some (out, kns, tns), ctx')"
    and R: "\<forall>c \<in> set ctx. pipe_ready ring it c" and W: "pipe_contract kern ring be"
  shows "length out = passes \<and> (\<forall>row \<in> set out. row = sweep_sum (kern it) ctx)"
    and "length ctx' = length ctx \<and> (\<forall>d < length ctx. same_slice (ctx ! d) (ctx' ! d) \<and> pipe_ready ring it (ctx' ! d))"
proof -
  let ?pc = "\<lparr>pc_ctx = ctx, pc_k = map (\<lambda>c. 0) ctx, pc_t = map (\<lambda>c. 0) ctx, pc_out = replicate passes zero_checksum\<rparr>"
  have I: "pipe_inv ring it (kern it) ctx passes (\<lambda>d. 0) ?pc"
    using R by (auto simp: pipe_inv_def pipe_ready_def pass_part_def zero_checksum_def intro!: nth_equalityI)
  obtain ok pc where L: "pipe_loop be (pass_bases ctx) (pass_stops passes ctx) ?pc = (ok, pc)" by (metis surj_pair)
  have o: ok "out = pc_out pc" "ctx' = pc_ctx pc"
    using N L by (auto simp: vb_dev_pipe_next_def pass_bases_def pass_stops_def Let_def split: if_splits)
  obtain m where m: "pipe_inv ring it (kern it) ctx passes m pc" "\<forall>d < length ctx. m d = passes * dc_pipe_chunks (ctx ! d)"
    using loop_inv[of be ctx passes ?pc pc, OF _ I R W] L o(1) by auto
  have "out ! p = sweep_sum (kern it) ctx" if p: "p < passes" for p
  proof -
    have k: "0 < dc_pipe_chunks (ctx ! d)" if "d < length ctx" for d using R that by (simp add: pipe_ready_def)
    have "out ! p = map (\<lambda>j. xor_over (\<lambda>d. pass_part (kern it) (ctx ! d) p (m d) j) [0..<length ctx]) [0..<VB_MAX_DIGEST_WORDS]"
      using m(1) p o(2) by (simp add: pipe_inv_def)
    also have "\<dots> = map (\<lambda>j. xor_over (\<lambda>d. xor_over (\<lambda>i. chunk_sum (kern it) (ctx ! d) i ! j) [0..<dc_pipe_chunks (ctx ! d)]) [0..<length ctx])
        [0..<VB_MAX_DIGEST_WORDS]"
    proof -
      have "xor_over (\<lambda>d. pass_part (kern it) (ctx ! d) p (m d) j) [0..<length ctx]
        = xor_over (\<lambda>d. xor_over (\<lambda>i. chunk_sum (kern it) (ctx ! d) i ! j) [0..<dc_pipe_chunks (ctx ! d)]) [0..<length ctx]" for j
        by (rule arg_cong[where f = xor_list]) (use m(2) p k in \<open>auto simp: pass_part_full\<close>)
      then show ?thesis by simp
    qed
    also have "\<dots> = sweep_sum (kern it) ctx"
      by (simp add: sweep_sum_def xor_rows_def comp_def map_upt_nth[of "\<lambda>c. xor_over (\<lambda>i. chunk_sum (kern it) c i ! j) [0..<dc_pipe_chunks c]" ctx for j])
    finally show ?thesis .
  qed
  then show "length out = passes \<and> (\<forall>row \<in> set out. row = sweep_sum (kern it) ctx)"
    using m(1) o(2) by (auto simp: pipe_inv_def in_set_conv_nth)
  show "length ctx' = length ctx \<and> (\<forall>d < length ctx. same_slice (ctx ! d) (ctx' ! d) \<and> pipe_ready ring it (ctx' ! d))"
    using m R unfolding o(3) by (auto simp: pipe_inv_def pipe_ready_def same_slice_def)
qed

text \<open>The rings stay in order on the failing paths too.\<close>

lemma visit_rings:
  assumes "pipe_visit be base stop d st = (ok', busy', pc')" "list_all ring_ok (pc_ctx (snd (snd st)))" "d < length (pc_ctx (snd (snd st)))"
  shows "list_all ring_ok (pc_ctx pc') \<and> length (pc_ctx pc') = length (pc_ctx (snd (snd st)))"
proof -
  obtain ok busy pc where st: "st = (ok, busy, pc)" by (metis prod_cases3)
  obtain ok1 c1 where t: "top_up be (pc_ctx pc ! d) = (ok1, c1)" by (metis surj_pair)
  obtain ok2 p kn tn c2 where w: "pipe_wait_next be c1 = ((ok2, p, kn, tn), c2)" by (metis surj_pair)
  note V = assms(1)[unfolded pipe_visit_def st Let_def prod.case t w]
  have r: "ring_ok (pc_ctx pc ! d)" using assms(2,3) st by (simp add: list_all_length)
  have r1: "ring_ok c1" "ok1 \<Longrightarrow> dc_pipe_collected c1 < dc_pipe_queued c1"
    using top_up_ok[OF t r] by (auto simp: VB_PIPE_RING_def)
  have r2: "ok1 \<Longrightarrow> ring_ok (if ok2 then c2\<lparr>dc_pipe_collected := dc_pipe_collected c2 + 1\<rparr> else c2)"
    using pipe_wait_ok(1)[OF w r1] by blast
  have up: "list_all ring_ok ((pc_ctx pc)[d := c])" if "ring_ok c" for c
    using that assms(2) st set_update_subset_insert[of "pc_ctx pc" d c] by (auto simp: list_all_iff)
  show ?thesis
  proof (cases "\<not> ok \<or> stop ! d \<le> dc_pipe_collected (pc_ctx pc ! d)")
    case True
    have "(ok, busy, pc) = (ok', busy', pc')" using V by (simp only: if_P[OF True])
    then show ?thesis using assms(2) st by simp
  next
    case False
    have V': "(if \<not> ok1 then (False, True, pc\<lparr>pc_ctx := (pc_ctx pc)[d := c1]\<rparr>) else
      if \<not> ok2 then (False, True, pc\<lparr>pc_ctx := (pc_ctx pc)[d := c2]\<rparr>)
      else (True, True, pc\<lparr>pc_ctx := (pc_ctx pc)[d := c2\<lparr>dc_pipe_collected := dc_pipe_collected c2 + 1\<rparr>],
          pc_k := (pc_k pc)[d := pc_k pc ! d + kn], pc_t := (pc_t pc)[d := pc_t pc ! d + tn],
          pc_out := (pc_out pc)[(dc_pipe_collected c1 - base ! d) div dc_pipe_chunks c1 :=
            fold_partials c2 p (pc_out pc ! ((dc_pipe_collected c1 - base ! d) div dc_pipe_chunks c1))]\<rparr>)) = (ok', busy', pc')"
      using V[unfolded if_not_P[OF False]] .
    show ?thesis
    proof (cases ok1)
      case False
      then show ?thesis using V' up[OF r1(1)] st by auto
    next
      case True
      then show ?thesis using V' up[OF r2[OF True]] st by (cases ok2) auto
    qed
  qed
qed

lemma visits_rings:
  assumes "list_all ring_ok (pc_ctx (snd (snd st)))" "\<forall>d \<in> set ds. d < length (pc_ctx (snd (snd st)))"
  shows "list_all ring_ok (pc_ctx (snd (snd (fold (pipe_visit be base stop) ds st))))
    \<and> length (pc_ctx (snd (snd (fold (pipe_visit be base stop) ds st)))) = length (pc_ctx (snd (snd st)))"
  using assms
proof (induction ds arbitrary: st)
  case (Cons d ds)
  obtain a b p where v: "pipe_visit be base stop d st = (a, b, p)" by (metis prod_cases3)
  then show ?case using visit_rings[OF v] Cons.prems Cons.IH[of "(a, b, p)"] by simp
qed simp

lemma loop_rings:
  "list_all ring_ok (pc_ctx pc) \<Longrightarrow> pipe_loop be base stop pc = (ok, pc') \<Longrightarrow>
   list_all ring_ok (pc_ctx pc') \<and> length (pc_ctx pc') = length (pc_ctx pc)"
proof (induction be base stop pc rule: pipe_loop.induct)
  case (1 be base stop pc)
  obtain a b p where r: "pipe_round be base stop pc = (a, b, p)" by (metis prod_cases3)
  have p: "list_all ring_ok (pc_ctx p)" "length (pc_ctx p) = length (pc_ctx pc)"
    using visits_rings[of "(True, False, pc)" "[0..<length (pc_ctx pc)]" be base stop] "1.prems"(1) r
    by (simp_all add: pipe_round_def)
  show ?case
  proof (cases "a \<and> b")
    case True
    then have "pipe_loop be base stop p = (ok, pc')" using "1.prems"(2) r by (subst (asm) pipe_loop.simps) simp
    then show ?thesis using "1.IH"[OF r[symmetric] refl] True p by simp
  next
    case False
    then have "pc' = p" using "1.prems"(2) r by (subst (asm) pipe_loop.simps) (auto split: if_splits)
    then show ?thesis using p by simp
  qed
qed

lemma pipe_next_rings:
  "list_all ring_ok ctx \<Longrightarrow> vb_dev_pipe_next be ctx passes = (r, ctx') \<Longrightarrow> list_all ring_ok ctx' \<and> length ctx' = length ctx"
  using loop_rings[of "\<lparr>pc_ctx = ctx, pc_k = map (\<lambda>c. 0) ctx, pc_t = map (\<lambda>c. 0) ctx, pc_out = replicate passes zero_checksum\<rparr>"
    be "map dc_pipe_collected ctx" "map (\<lambda>c. dc_pipe_collected c + passes * dc_pipe_chunks c) ctx"]
  by (auto simp: vb_dev_pipe_next_def Let_def split: prod.splits)

section \<open>Whole streams\<close>

text \<open>A stream as \<open>measure_device\<close> drives it: calls for so many passes each, until one fails.\<close>

fun pipe_session ::
  "'i vb_dev_backend \<Rightarrow> nat list \<Rightarrow> 'i vb_dev_ctx list \<Rightarrow> checksum list list \<times> bool \<times> 'i vb_dev_ctx list" where
  "pipe_session be [] ctx = ([], True, ctx)"
| "pipe_session be (n # ns) ctx =
    (case vb_dev_pipe_next be ctx n of
       (None, ctx) \<Rightarrow> ([], False, ctx)
     | (Some (out, _), ctx) \<Rightarrow> (let (outs, ok, ctx) = pipe_session be ns ctx in (out # outs, ok, ctx)))"

lemma session_rings:
  "list_all ring_ok ctx \<Longrightarrow> pipe_session be ns ctx = (outs, ok, ctx') \<Longrightarrow> list_all ring_ok ctx'"
proof (induction ns arbitrary: ctx outs)
  case (Cons n ns)
  obtain r c1 where N: "vb_dev_pipe_next be ctx n = (r, c1)" by (metis surj_pair)
  have c1: "list_all ring_ok c1" using pipe_next_rings[OF Cons.prems(1) N] by simp
  show ?case using Cons.prems(2) N c1 Cons.IH[OF c1] by (auto split: option.splits prod.splits)
qed simp

lemma sweep_sum_same:
  assumes "length ctx' = length ctx" "\<forall>d < length ctx. same_slice (ctx ! d) (ctx' ! d)"
  shows "sweep_sum tot ctx' = sweep_sum tot ctx"
proof -
  have "map (\<lambda>c. xor_rows (map (chunk_sum tot c) [0..<dc_pipe_chunks c])) ctx'
      = map (\<lambda>c. xor_rows (map (chunk_sum tot c) [0..<dc_pipe_chunks c])) ctx"
  proof (rule nth_equalityI)
    fix d assume "d < length (map (\<lambda>c. xor_rows (map (chunk_sum tot c) [0..<dc_pipe_chunks c])) ctx')"
    then have d: "d < length ctx" using assms(1) by simp
    then have s: "same_slice (ctx ! d) (ctx' ! d)" using assms(2) by blast
    have "map (chunk_sum tot (ctx' ! d)) [0..<dc_pipe_chunks (ctx' ! d)] = map (chunk_sum tot (ctx ! d)) [0..<dc_pipe_chunks (ctx ! d)]"
      using chunk_sum_same[OF s] s by (simp add: same_slice_def)
    then show "map (\<lambda>c. xor_rows (map (chunk_sum tot c) [0..<dc_pipe_chunks c])) ctx' ! d
        = map (\<lambda>c. xor_rows (map (chunk_sum tot c) [0..<dc_pipe_chunks c])) ctx ! d"
      using d assms(1) by simp
  qed (simp add: assms(1))
  then show ?thesis by (simp add: sweep_sum_def)
qed

lemma session_passes:
  assumes "pipe_session be ns ctx = (outs, ok, ctx')" "\<forall>c \<in> set ctx. pipe_ready ring it c" "pipe_contract kern ring be"
  shows "map length outs = take (length outs) ns \<and> (ok \<longrightarrow> length outs = length ns)
    \<and> (\<forall>out \<in> set outs. \<forall>row \<in> set out. row = sweep_sum (kern it) ctx)"
  using assms(1,2)
proof (induction ns arbitrary: ctx outs)
  case (Cons n ns)
  obtain r c1 where N: "vb_dev_pipe_next be ctx n = (r, c1)" by (metis surj_pair)
  show ?case
  proof (cases r)
    case None
    then show ?thesis using Cons.prems(1) N by auto
  next
    case (Some r')
    then obtain out kns tns where r: "r = Some (out, kns, tns)" by (cases r') auto
    note P = pipe_next_passes[OF N[unfolded r] Cons.prems(2) assms(3)]
    obtain outs1 where S: "pipe_session be ns c1 = (outs1, ok, ctx')" "outs = out # outs1"
      using Cons.prems(1) N r by (auto split: prod.splits)
    have "\<forall>c \<in> set c1. pipe_ready ring it c" using P(2) by (auto simp: in_set_conv_nth)
    note ih = Cons.IH[OF S(1) this]
    have "sweep_sum (kern it) c1 = sweep_sum (kern it) ctx" by (rule sweep_sum_same) (use P(2) in auto)
    then show ?thesis using ih P(1) S(2) by auto
  qed
qed simp

lemma begin_same: "same_slice c (pipe_begin_one it c)"
  by (simp add: same_slice_def pipe_begin_one_def)

text \<open>C29: the pipeline refines the queue its backends are promised and the sweep its callers ask for.
  However many passes each call asks for and wherever one fails, every backend sees chunks queued in
  order, waited for in order, and never more than the ring holds in flight, up to and including the
  retirement at the end.  If the hardware hashes right what each call of \<open>pipe_enqueue\<close> hands it (offset,
  bytes, groups, iterations, scratch and readback) and returns it from the slot of that chunk, every pass a
  call returns is the XOR of every chunk of every device exactly once, at the iterations the pipeline was
  begun with, although calls leave chunks of later passes in flight.\<close>

theorem pipeline_refines_sweeps:
  assumes "pipe_session be ns (vb_dev_pipe_begin it ctx) = (outs, ok, ctx')"
    and "\<forall>c \<in> set ctx. 0 < dc_pipe_chunks c \<and> 0 < dc_group_bytes c" and "pipe_contract kern ring be"
  shows "(\<forall>c \<in> set (vb_dev_pipe_end be ctx'). ring_run (dc_calls c) (0, 0) = Some (dc_pipe_queued c, dc_pipe_collected c))
    \<and> map length outs = take (length outs) ns \<and> (ok \<longrightarrow> length outs = length ns)
    \<and> (\<forall>out \<in> set outs. \<forall>pass \<in> set out. pass = sweep_sum (kern it) ctx)"
proof -
  let ?b = "vb_dev_pipe_begin it ctx"
  have R: "\<forall>c \<in> set ?b. pipe_ready ring it c"
    using assms(2) pipe_begin_one_ok[of it] by (auto simp: vb_dev_pipe_begin_def pipe_ready_def pipe_begin_one_def ring_holds_def)
  then have "list_all ring_ok ?b" by (simp add: list_all_iff pipe_ready_def)
  then have "list_all ring_ok ctx'" using session_rings assms(1) by blast
  then have "\<forall>c \<in> set (vb_dev_pipe_end be ctx'). ring_ok c"
    using pipe_end_one_ok by (auto simp: vb_dev_pipe_end_def list_all_iff)
  moreover have "sweep_sum (kern it) ?b = sweep_sum (kern it) ctx"
    by (rule sweep_sum_same) (simp_all add: vb_dev_pipe_begin_def begin_same)
  ultimately show ?thesis
    using session_passes[OF assms(1) R assms(3)] by (auto simp: ring_ok_def)
qed

text \<open>A backend that keeps each job in its slot and answers with one 32-bit word made of the job's
  iterations, first group and number of groups.\<close>

definition job_word :: "nat \<Rightarrow> nat \<Rightarrow> nat \<Rightarrow> checksum" where
  "job_word it f n = ucast (of_nat (it * 10000 + f * 100 + n) :: u32) # replicate 7 0"

definition ring_of :: "(nat \<Rightarrow> pipe_job option) vb_dev_side \<Rightarrow> nat \<Rightarrow> pipe_job option" where
  "ring_of side = (case sd_impl side of None \<Rightarrow> (\<lambda>s. None) | Some r \<Rightarrow> r)"

definition ring_backend :: "(nat \<Rightarrow> pipe_job option) vb_dev_backend" where
  "ring_backend = \<lparr>be_id = VB_BACKEND_OPENCL, be_name = ''ring'', be_dialect = VB_DIALECT_OPENCL,
     be_build = (\<lambda>c a b d e. (True, (dc_side c)\<lparr>sd_impl := Some (\<lambda>s. None)\<rparr>)), be_max_local = (\<lambda>c. 256),
     be_alloc = (\<lambda>c a b d. (True, dc_side c)), be_pin_staging = dc_side, be_launch = (\<lambda>c a b. (True, dc_side c)),
     be_read = (\<lambda>c n. (True, dc_side c)), be_write_partials = (\<lambda>c p. (True, dc_side c)),
     be_pipe_open = Some (\<lambda>c a b. (True, dc_side c)),
     be_pipe_enqueue = (\<lambda>c s offset bytes n it shared read. (True, (dc_side c)\<lparr>sd_impl :=
        Some ((ring_of (dc_side c))(s mod VB_PIPE_RING \<mapsto> \<lparr>pj_offset = offset, pj_bytes = bytes, pj_groups = n,
          pj_iterations = it, pj_shared = shared, pj_read = read\<rparr>))\<rparr>)),
     be_pipe_wait = (\<lambda>c s. case ring_of (dc_side c) (s mod VB_PIPE_RING) of
         None \<Rightarrow> ((False, [], 0, 0), dc_side c)
       | Some job \<Rightarrow> ((dc_partial_words c = 1 \<and> dc_partial_word_bytes c = 4 \<and> dc_n_partials c = 1,
           store_le32 (of_nat (pj_iterations job * 10000
             + (dc_first_group c + pj_offset job div dc_group_bytes c) * 100 + pj_groups job)), 5, 3), dc_side c)),
     be_destroy = (\<lambda>c. (dc_side c)\<lparr>sd_impl := None\<rparr>)\<rparr>"

lemma ring_right: "pipe_contract job_word ring_of ring_backend"
proof -
  have "acc[0 := acc ! 0 XOR ucast (n :: u32)] = xor_row acc (ucast n # replicate 7 0)"
    if "length acc = VB_MAX_DIGEST_WORDS" for acc :: checksum and n
  proof (rule nth_equalityI)
    fix i assume "i < length (acc[0 := acc ! 0 XOR ucast n])"
    then show "acc[0 := acc ! 0 XOR ucast n] ! i = xor_row acc (ucast n # replicate 7 0) ! i"
      using that by (cases i) (auto simp: xor_row_words VB_MAX_DIGEST_WORDS_def)
  qed (simp add: that xor_row_words)
  then show ?thesis
    by (auto simp: pipe_contract_def ring_backend_def ring_of_def fold_partials_def partial_word_def job_word_def
        load_store_le32[where xs = "[]", simplified] split: option.splits)
qed

text \<open>A backend that takes every chunk and answers for every slot that holds one.\<close>

definition answers :: "('i vb_dev_side \<Rightarrow> nat \<Rightarrow> pipe_job option) \<Rightarrow> 'i vb_dev_ctx list \<Rightarrow> 'i vb_dev_backend \<Rightarrow> bool" where
  "answers ring ctx be \<longleftrightarrow>
     (\<forall>c s offset bytes n it shared read. fst (be_pipe_enqueue be c s offset bytes n it shared read)) \<and>
     (\<forall>c0 \<in> set ctx. \<forall>c s. same_slice c0 c \<longrightarrow> ring (dc_side c) (s mod VB_PIPE_RING) \<noteq> None \<longrightarrow> fst (fst (be_pipe_wait be c s)))"

lemma top_up_succeeds: "answers ring ctx be \<Longrightarrow> fst (top_up be c)"
proof (induction be c rule: top_up.induct)
  case (1 be c)
  obtain ok1 c1 where q: "pipe_queue be c = (ok1, c1)" by (metis surj_pair)
  have ok1 using q "1.prems" by (auto simp: pipe_queue_def side_call_def answers_def Let_def split: prod.splits if_splits)
  then show ?case
    using "1.IH"[OF _ q[symmetric] refl] "1.prems" q by (subst top_up.simps) auto
qed

lemma visit_succeeds:
  assumes "pipe_inv ring it (kern it) ctx passes m pc" "d < length ctx" "pipe_contract kern ring be" "answers ring ctx be"
  shows "fst (pipe_visit be base stop d (True, busy, pc))"
proof -
  let ?c = "pc_ctx pc ! d"
  have c: "same_slice (ctx ! d) ?c" "ring_ok ?c" "ring_holds ring it ?c" using assms(1,2) by (auto simp: pipe_inv_def)
  obtain c1 where t: "top_up be ?c = (True, c1)" using top_up_succeeds[OF assms(4), of ?c] by (cases "top_up be ?c") auto
  note t1 = top_up_ok[OF t c(2)] and h = top_up_holds[OF t c(2,3) assms(3)]
  have q: "dc_pipe_collected c1 < dc_pipe_queued c1" using t1 by (simp add: VB_PIPE_RING_def)
  then have "ring (dc_side c1) (dc_pipe_collected c1 mod VB_PIPE_RING) \<noteq> None" using h by (simp add: ring_holds_def)
  moreover have "same_slice (ctx ! d) c1" using same_slice_trans[OF c(1)] t1 by blast
  ultimately have "fst (fst (be_pipe_wait be c1 (dc_pipe_collected c1)))" using assms(2,4) unfolding answers_def by (metis nth_mem)
  then have "fst (fst (pipe_wait_next be c1))" by (simp add: pipe_wait_next_def split_beta)
  then show ?thesis by (auto simp: pipe_visit_def t Let_def split: prod.splits)
qed

lemma visits_succeed:
  assumes "\<forall>d \<in> set ds. d < length ctx" "pipe_inv ring it (kern it) ctx passes m pc" "\<forall>c \<in> set ctx. pipe_ready ring it c"
    and "pipe_contract kern ring be" "answers ring ctx be"
  shows "fst (fold (pipe_visit be (pass_bases ctx) (pass_stops passes ctx)) ds (True, False, pc))"
  using assms(1)
proof (induction ds rule: rev_induct)
  case (snoc d ds)
  obtain b1 p1 where f: "fold (pipe_visit be (pass_bases ctx) (pass_stops passes ctx)) ds (True, False, pc) = (True, b1, p1)"
    using snoc.IH snoc.prems
    by (cases "fold (pipe_visit be (pass_bases ctx) (pass_stops passes ctx)) ds (True, False, pc)") auto
  obtain m1 where "pipe_inv ring it (kern it) ctx passes m1 p1"
    using visits_inv[where kern = kern and it = it, OF f _ assms(2-4)] snoc.prems by auto
  from visit_succeeds[OF this _ assms(4,5)] show ?case using f snoc.prems by simp
qed simp

lemma loop_succeeds:
  assumes "pipe_inv ring it (kern it) ctx passes m pc" "\<forall>c \<in> set ctx. pipe_ready ring it c"
    and "pipe_contract kern ring be" "answers ring ctx be"
  shows "fst (pipe_loop be (pass_bases ctx) (pass_stops passes ctx) pc)"
  using assms
proof (induction be "pass_bases ctx" "pass_stops passes ctx" pc arbitrary: m rule: pipe_loop.induct)
  case (1 be pc)
  have n: "length (pc_ctx pc) = length ctx" using "1.prems"(1) by (simp add: pipe_inv_def)
  obtain busy p1 where f: "fold (pipe_visit be (pass_bases ctx) (pass_stops passes ctx)) [0..<length ctx] (True, False, pc) = (True, busy, p1)"
    using visits_succeed[where kern = kern and it = it and passes = passes, OF _ "1.prems"(1-4), of "[0..<length ctx]"]
    by (cases "fold (pipe_visit be (pass_bases ctx) (pass_stops passes ctx)) [0..<length ctx] (True, False, pc)") auto
  have r: "pipe_round be (pass_bases ctx) (pass_stops passes ctx) pc = (True, busy, p1)" using f n by (simp add: pipe_round_def)
  obtain m1 where "pipe_inv ring it (kern it) ctx passes m1 p1"
    using visits_inv[where kern = kern and it = it, OF f _ "1.prems"(1-3)] by auto
  then show ?case using "1.hyps"[OF r[symmetric] refl] "1.prems"(2-4) r by (subst pipe_loop.simps) auto
qed

text \<open>Every stream over such a backend runs to its end.\<close>

lemma session_succeeds:
  assumes "\<forall>c \<in> set ctx. pipe_ready ring it c" "pipe_contract kern ring be" "answers ring ctx be"
  shows "fst (snd (pipe_session be ns ctx))"
  using assms(1,3)
proof (induction ns arbitrary: ctx)
  case (Cons n ns)
  let ?pc = "\<lparr>pc_ctx = ctx, pc_k = map (\<lambda>c. 0) ctx, pc_t = map (\<lambda>c. 0) ctx, pc_out = replicate n zero_checksum\<rparr>"
  have I: "pipe_inv ring it (kern it) ctx n (\<lambda>d. 0) ?pc"
    using Cons.prems(1) by (auto simp: pipe_inv_def pipe_ready_def pass_part_def zero_checksum_def intro!: nth_equalityI)
  have "fst (pipe_loop be (pass_bases ctx) (pass_stops n ctx) ?pc)" by (rule loop_succeeds[OF I Cons.prems(1) assms(2) Cons.prems(2)])
  then obtain pc where "pipe_loop be (pass_bases ctx) (pass_stops n ctx) ?pc = (True, pc)"
    by (cases "pipe_loop be (pass_bases ctx) (pass_stops n ctx) ?pc") auto
  then obtain out kns tns c1 where N: "vb_dev_pipe_next be ctx n = (Some (out, kns, tns), c1)"
    by (auto simp: vb_dev_pipe_next_def pass_bases_def pass_stops_def Let_def split: prod.splits)
  note P = pipe_next_passes(2)[OF N Cons.prems(1) assms(2)]
  have "\<forall>c \<in> set c1. pipe_ready ring it c" using P by (auto simp: in_set_conv_nth)
  moreover have "answers ring c1 be"
    using Cons.prems(2) P unfolding answers_def by (metis in_set_conv_nth same_slice_trans)
  ultimately show ?case using Cons.IH[of c1] N by (auto split: prod.splits)
qed simp

text \<open>Ten groups in three chunks, from group 40 on; three passes in two calls.\<close>

definition ring_ctx :: "(nat \<Rightarrow> pipe_job option) vb_dev_ctx" where
  "ring_ctx = zero_ctx\<lparr>dc_first_group := 40, dc_n_groups := 10, dc_pipe_chunks := 3, dc_group_bytes := 64,
     dc_partial_words := 1, dc_partial_word_bytes := 4, dc_n_partials := 1, dc_local_size := 1\<rparr>"

lemma ring_session: "fst (snd (pipe_session ring_backend [2, 1] (vb_dev_pipe_begin 7 [ring_ctx])))"
proof (rule session_succeeds[OF _ ring_right])
  show "answers ring_of (vb_dev_pipe_begin 7 [ring_ctx]) ring_backend"
    by (auto simp: answers_def ring_backend_def vb_dev_pipe_begin_def pipe_begin_one_def ring_ctx_def same_slice_def zero_ctx_def)
  show "\<forall>c \<in> set (vb_dev_pipe_begin 7 [ring_ctx]). pipe_ready ring_of 7 c"
    using pipe_begin_one_ok[of 7 ring_ctx]
    by (simp add: vb_dev_pipe_begin_def pipe_ready_def ring_holds_def pipe_begin_one_def ring_ctx_def)
qed

lemma pipeline_refines_sweeps_witness:
  "\<exists>outs ctx'. pipe_session ring_backend [2, 1] (vb_dev_pipe_begin 7 [ring_ctx]) = (outs, True, ctx') \<and>
     map length outs = [2, 1] \<and> (\<forall>out \<in> set outs. \<forall>pass \<in> set out. pass = sweep_sum (job_word 7) [ring_ctx])"
proof -
  obtain outs ok ctx' where S: "pipe_session ring_backend [2, 1] (vb_dev_pipe_begin 7 [ring_ctx]) = (outs, ok, ctx')"
    by (metis prod_cases3)
  have ok using ring_session unfolding S by simp
  then show ?thesis using pipeline_refines_sweeps[OF S _ ring_right] S by (simp add: ring_ctx_def)
qed

end
