(* ===== verification/Device_List.thy ===== *)
theory Device_List
  imports Device_State "HOL-Library.Multiset"
begin

text \<open>
  The list of physical devices, from the end of src/device/device.c: the devices every backend
  enumerates, merged by PCI address, and the lookups on an entry.
\<close>

section \<open>Backends\<close>

definition VB_BACKENDS :: "vb_backend_id list" where
  "VB_BACKENDS = [VB_BACKEND_OPENCL, VB_BACKEND_CUDA]"

text \<open>What a backend answers before there is a context: its devices, and why there are none.\<close>

record vb_backend_iface =
  bi_enumerate :: "nat \<Rightarrow> vb_dev_info list"
  bi_unavailable :: "string option"

text \<open>The two backends are external to this development; the C enumeration is an int at the call, and
  \<open>vb_backend\<close> answers NULL out of its range.\<close>

definition vb_backend :: "vb_backend_iface \<times> vb_backend_iface \<Rightarrow> int \<Rightarrow> vb_backend_iface option" where
  "vb_backend bs b = (if b = 0 then Some (fst bs) else if b = 1 then Some (snd bs) else None)"

definition vb_backend_name :: "int \<Rightarrow> string" where
  "vb_backend_name b = (if b = 1 then ''cuda'' else ''opencl'')"

definition vb_backend_unavailable :: "vb_backend_iface \<times> vb_backend_iface \<Rightarrow> int \<Rightarrow> string option" where
  "vb_backend_unavailable bs b =
    (case vb_backend bs b of Some be \<Rightarrow> bi_unavailable be | None \<Rightarrow> Some ''not built'')"


section \<open>The list\<close>

text \<open>The two arrays of an entry, indexed by the backend; an absent view is what \<open>memset\<close> left.\<close>

record vb_device =
  vd_present :: "bool list"
  vd_via :: "vb_dev_info list"

definition zero_device :: vb_device where
  "zero_device = \<lparr>vd_present = [False, False], vd_via = [zero_dev, zero_dev]\<rparr>"

definition vb_device_info :: "vb_device \<Rightarrow> vb_dev_info option" where
  "vb_device_info d = map_option (\<lambda>b. vd_via d ! b) (find (\<lambda>b. vd_present d ! b) [0..<length VB_BACKENDS])"

text \<open>The entry another backend's view of the same card already has, if any: the three inner loops.\<close>

definition same_card :: "nat \<Rightarrow> vb_dev_info \<Rightarrow> vb_device \<Rightarrow> bool" where
  "same_card b info d =
    (\<exists>o' \<in> set [0..<b]. vd_present d ! o' \<and> \<not> vd_present d ! b \<and> di_pci (vd_via d ! o') = di_pci info)"

definition find_card :: "nat \<Rightarrow> vb_dev_info \<Rightarrow> vb_device list \<Rightarrow> nat option" where
  "find_card b info out =
    (if di_pci info \<noteq> [] then find (\<lambda>j. same_card b info (out ! j)) [0..<length out] else None)"

definition set_view :: "nat \<Rightarrow> vb_dev_info \<Rightarrow> vb_device \<Rightarrow> vb_device" where
  "set_view b info d = d\<lparr>vd_present := (vd_present d)[b := True], vd_via := (vd_via d)[b := info]\<rparr>"

definition add_view :: "int \<Rightarrow> nat \<Rightarrow> vb_dev_info \<Rightarrow> vb_device list \<Rightarrow> vb_device list" where
  "add_view most b info out =
    (case find_card b info out of
       Some j \<Rightarrow> out[j := set_view b info (out ! j)]
     | None \<Rightarrow> if most \<le> int (length out) then out else out @ [set_view b info zero_device])"

definition vb_devices :: "vb_backend_iface \<times> vb_backend_iface \<Rightarrow> int \<Rightarrow> vb_device list" where
  "vb_devices bs most =
    (let most = (if int VB_DEV_MAX < most then int VB_DEV_MAX else most)
     in fold (\<lambda>b out. case vb_backend bs (int b) of
          None \<Rightarrow> out
        | Some be \<Rightarrow> fold (add_view most b) (bi_enumerate be VB_DEV_MAX) out) [0..<length VB_BACKENDS] [])"


section \<open>The two passes\<close>

text \<open>An entry only OpenCL sees, and one only CUDA sees.\<close>

definition ocl_only :: "vb_dev_info \<Rightarrow> vb_device" where
  "ocl_only x = \<lparr>vd_present = [True, False], vd_via = [x, zero_dev]\<rparr>"

definition cuda_only :: "vb_dev_info \<Rightarrow> vb_device" where
  "cuda_only x = \<lparr>vd_present = [False, True], vd_via = [zero_dev, x]\<rparr>"

definition both_see :: "vb_dev_info \<Rightarrow> vb_dev_info \<Rightarrow> vb_device" where
  "both_see x y = \<lparr>vd_present = [True, True], vd_via = [x, y]\<rparr>"

lemma view_cases:
  "set_view 0 x zero_device = ocl_only x" "set_view 1 x zero_device = cuda_only x"
  "set_view 1 y (ocl_only x) = both_see x y"
  by (simp_all add: set_view_def zero_device_def ocl_only_def cuda_only_def both_see_def)

lemma first_pass:
  "int (length out + length xs) \<le> most \<Longrightarrow> fold (add_view most 0) xs out = out @ map ocl_only xs"
proof (induction xs arbitrary: out)
  case (Cons x xs)
  have "find_card 0 x out = None" by (simp add: find_card_def same_card_def find_None_iff)
  then have "add_view most 0 x out = out @ [ocl_only x]" using Cons.prems by (simp add: add_view_def view_cases)
  then show ?case using Cons.IH[of "out @ [ocl_only x]"] Cons.prems by simp
qed simp

text \<open>The invariant of the second pass, over the OpenCL devices \<open>xs\<close> and the CUDA devices seen so far.\<close>

definition merged :: "vb_dev_info list \<Rightarrow> vb_dev_info list \<Rightarrow> vb_device list \<Rightarrow> bool" where
  "merged xs seen out \<longleftrightarrow> length xs \<le> length out \<and> length out \<le> length xs + length seen
     \<and> (\<forall>i < length xs. out ! i = ocl_only (xs ! i) \<or>
         (\<exists>y. out ! i = both_see (xs ! i) y \<and> di_pci y = di_pci (xs ! i) \<and> di_pci y \<noteq> []))
     \<and> (\<forall>i < length out. length xs \<le> i \<longrightarrow> (\<exists>y. out ! i = cuda_only y \<and>
         (di_pci y \<noteq> [] \<longrightarrow> (\<forall>j < length xs. out ! j = ocl_only (xs ! j) \<longrightarrow> di_pci (xs ! j) \<noteq> di_pci y))))
     \<and> mset (map (\<lambda>d. vd_via d ! 1) (filter (\<lambda>d. vd_present d ! 1) out)) = mset seen"

lemma same_card_1:
  "same_card 1 y (ocl_only x) \<longleftrightarrow> di_pci x = di_pci y" "\<not> same_card 1 y (both_see x z)" "\<not> same_card 1 y (cuda_only z)"
  by (auto simp: same_card_def ocl_only_def both_see_def cuda_only_def)

lemma distinct_entries:
  "ocl_only x \<noteq> both_see a b" "ocl_only x \<noteq> cuda_only y" "both_see a b \<noteq> ocl_only x" "cuda_only y \<noteq> ocl_only x"
  "ocl_only x = ocl_only x' \<longleftrightarrow> x = x'"
  by (auto simp: ocl_only_def both_see_def cuda_only_def)

lemma merged_kinds:
  assumes "merged xs seen out" "i < length out"
  shows "(i < length xs \<and> out ! i = ocl_only (xs ! i)) \<or> (\<exists>x z. out ! i = both_see x z) \<or> (\<exists>z. out ! i = cuda_only z)"
proof (cases "i < length xs")
  case True
  then show ?thesis using assms(1) unfolding merged_def by blast
next
  case False
  then show ?thesis using assms unfolding merged_def by (meson leI)
qed

text \<open>The views a pass has recorded, as a multiset, when an entry gains one and when an entry is added.\<close>

lemma views_update:
  assumes "j < length out" "\<not> P (out ! j)" "P d"
  shows "mset (map f (filter P (out[j := d]))) = mset (map f (filter P out)) + {# f d #}"
proof -
  have "filter P out = filter P (take j out) @ filter P (drop (Suc j) out)"
    using assms(1,2) by (subst (1) id_take_nth_drop[OF assms(1)]) simp
  moreover have "filter P (out[j := d]) = filter P (take j out) @ d # filter P (drop (Suc j) out)"
    using assms by (simp add: upd_conv_take_nth_drop)
  ultimately show ?thesis by simp
qed

lemma merged_step:
  assumes m: "merged xs seen out" and room: "int (length xs + length seen) < most"
  shows "merged xs (seen @ [y]) (add_view most 1 y out)"
proof (cases "find_card 1 y out")
  case (Some j)
  then have y: "di_pci y \<noteq> []" and j: "j < length out" "same_card 1 y (out ! j)"
    by (auto simp: find_card_def find_Some_iff split: if_splits)
  then have jx: "j < length xs" "out ! j = ocl_only (xs ! j)" "di_pci (xs ! j) = di_pci y"
    using merged_kinds[OF m j(1)] same_card_1 by metis+
  have new: "add_view most 1 y out = out[j := both_see (xs ! j) y]" unfolding add_view_def Some option.case jx(2) view_cases ..
  have "mset (map (\<lambda>d. vd_via d ! 1) (filter (\<lambda>d. vd_present d ! 1) (out[j := both_see (xs ! j) y])))
      = mset (map (\<lambda>d. vd_via d ! 1) (filter (\<lambda>d. vd_present d ! 1) out)) + {# vd_via (both_see (xs ! j) y) ! 1 #}"
    by (rule views_update) (use j jx in \<open>simp_all add: ocl_only_def both_see_def\<close>)
  then have views: "mset (map (\<lambda>d. vd_via d ! 1) (filter (\<lambda>d. vd_present d ! 1) (out[j := both_see (xs ! j) y]))) = mset (seen @ [y])"
    using m by (simp add: merged_def both_see_def)
  show ?thesis
    unfolding new merged_def
  proof (intro conjI)
    show "\<forall>i < length xs. out[j := both_see (xs ! j) y] ! i = ocl_only (xs ! i) \<or>
        (\<exists>z. out[j := both_see (xs ! j) y] ! i = both_see (xs ! i) z \<and> di_pci z = di_pci (xs ! i) \<and> di_pci z \<noteq> [])"
      using m j jx y unfolding merged_def by (auto simp: nth_list_update)
    show "\<forall>i < length (out[j := both_see (xs ! j) y]). length xs \<le> i \<longrightarrow> (\<exists>z. out[j := both_see (xs ! j) y] ! i = cuda_only z \<and>
         (di_pci z \<noteq> [] \<longrightarrow> (\<forall>k < length xs. out[j := both_see (xs ! j) y] ! k = ocl_only (xs ! k) \<longrightarrow> di_pci (xs ! k) \<noteq> di_pci z)))"
    proof (intro allI impI)
      fix i assume "i < length (out[j := both_see (xs ! j) y])" "length xs \<le> i"
      then have i: "i < length out" "length xs \<le> i" "i \<noteq> j" using jx by auto
      then obtain z where z: "out ! i = cuda_only z" "di_pci z \<noteq> [] \<longrightarrow> (\<forall>k < length xs. out ! k = ocl_only (xs ! k) \<longrightarrow> di_pci (xs ! k) \<noteq> di_pci z)"
        using m unfolding merged_def by blast
      have kept: "out ! k = ocl_only (xs ! k)" if "out[j := both_see (xs ! j) y] ! k = ocl_only (xs ! k)" for k
        using that distinct_entries(3) j by (cases "k = j") auto
      have at: "out[j := both_see (xs ! j) y] ! i = cuda_only z" using i(3) z(1) by simp
      show "\<exists>z. out[j := both_see (xs ! j) y] ! i = cuda_only z \<and>
         (di_pci z \<noteq> [] \<longrightarrow> (\<forall>k < length xs. out[j := both_see (xs ! j) y] ! k = ocl_only (xs ! k) \<longrightarrow> di_pci (xs ! k) \<noteq> di_pci z))"
        using at z(2) kept by blast
    qed
    show "length xs \<le> length (out[j := both_see (xs ! j) y])" "length (out[j := both_see (xs ! j) y]) \<le> length xs + length (seen @ [y])"
      using m unfolding merged_def by simp_all
    show "mset (map (\<lambda>d. vd_via d ! 1) (filter (\<lambda>d. vd_present d ! 1) (out[j := both_see (xs ! j) y]))) = mset (seen @ [y])"
      by (rule views)
  qed
next
  case None
  have fit: "\<not> most \<le> int (length out)" using m room by (auto simp: merged_def)
  then have new: "add_view most 1 y out = out @ [cuda_only y]" unfolding add_view_def None option.case view_cases by simp
  have apart: "di_pci (xs ! k) \<noteq> di_pci y" if "di_pci y \<noteq> []" "k < length xs" "out ! k = ocl_only (xs ! k)" for k
  proof -
    have k: "k < length out" using that(2) m by (simp add: merged_def)
    then have "\<not> same_card 1 y (out ! k)" using None that(1) by (auto simp: find_card_def find_None_iff)
    then show ?thesis using that(3) same_card_1(1) by metis
  qed
  have old: "(out @ [cuda_only y]) ! k = out ! k" if "k < length xs" for k using that m by (auto simp: merged_def nth_append)
  show ?thesis
    unfolding new merged_def
  proof (intro conjI)
    show "\<forall>i < length (out @ [cuda_only y]). length xs \<le> i \<longrightarrow> (\<exists>z. (out @ [cuda_only y]) ! i = cuda_only z \<and>
         (di_pci z \<noteq> [] \<longrightarrow> (\<forall>k < length xs. (out @ [cuda_only y]) ! k = ocl_only (xs ! k) \<longrightarrow> di_pci (xs ! k) \<noteq> di_pci z)))"
    proof (intro allI impI)
      fix i assume i: "i < length (out @ [cuda_only y])" "length xs \<le> i"
      show "\<exists>z. (out @ [cuda_only y]) ! i = cuda_only z \<and>
         (di_pci z \<noteq> [] \<longrightarrow> (\<forall>k < length xs. (out @ [cuda_only y]) ! k = ocl_only (xs ! k) \<longrightarrow> di_pci (xs ! k) \<noteq> di_pci z))"
      proof (cases "i = length out")
        case True
        then show ?thesis using apart old by (intro exI[of _ y]) auto
      next
        case False
        then have lt: "i < length out" using i by simp
        then obtain z where "out ! i = cuda_only z" "di_pci z \<noteq> [] \<longrightarrow> (\<forall>k < length xs. out ! k = ocl_only (xs ! k) \<longrightarrow> di_pci (xs ! k) \<noteq> di_pci z)"
          using m i unfolding merged_def by blast
        then show ?thesis using old lt by (intro exI[of _ z]) (auto simp: nth_append)
      qed
    qed
    show "mset (map (\<lambda>d. vd_via d ! 1) (filter (\<lambda>d. vd_present d ! 1) (out @ [cuda_only y]))) = mset (seen @ [y])"
      using m by (simp add: merged_def cuda_only_def)
    show "\<forall>i < length xs. (out @ [cuda_only y]) ! i = ocl_only (xs ! i) \<or>
        (\<exists>z. (out @ [cuda_only y]) ! i = both_see (xs ! i) z \<and> di_pci z = di_pci (xs ! i) \<and> di_pci z \<noteq> [])"
      using m old unfolding merged_def by simp
    show "length xs \<le> length (out @ [cuda_only y])" "length (out @ [cuda_only y]) \<le> length xs + length (seen @ [y])"
      using m unfolding merged_def by simp_all
  qed
qed

lemma merged_pass:
  "merged xs seen out \<Longrightarrow> int (length xs + length seen + length ys) \<le> most \<Longrightarrow>
    merged xs (seen @ ys) (fold (add_view most 1) ys out)"
proof (induction ys arbitrary: seen out)
  case (Cons y ys)
  have "merged xs (seen @ [y]) (add_view most 1 y out)" by (rule merged_step) (use Cons.prems in auto)
  from Cons.IH[OF this] Cons.prems show ?case by simp
qed simp

lemma devices_merge:
  assumes "length xs + length ys \<le> VB_DEV_MAX" "int (length xs + length ys) \<le> most"
    and "bi_enumerate (fst bs) VB_DEV_MAX = xs" "bi_enumerate (snd bs) VB_DEV_MAX = ys"
  shows "merged xs ys (vb_devices bs most)"
proof -
  let ?most = "if int VB_DEV_MAX < most then int VB_DEV_MAX else most"
  have fit: "int (length xs + length ys) \<le> ?most" using assms(1,2) by auto
  have start: "merged xs [] (map ocl_only xs)" by (simp add: merged_def filter_empty_conv ocl_only_def)
  have "vb_devices bs most = fold (add_view ?most 1) ys (fold (add_view ?most 0) xs [])"
    using assms(3,4) by (simp add: vb_devices_def VB_BACKENDS_def vb_backend_def Let_def upt_rec)
  moreover have "fold (add_view ?most 0) xs [] = map ocl_only xs" using first_pass[of "[]" xs ?most] fit by simp
  ultimately show ?thesis using merged_pass[OF start, of ys ?most] fit by simp
qed

lemma merged_first_views:
  assumes "merged xs ys out"
  shows "map (\<lambda>d. vd_via d ! 0) (filter (\<lambda>d. vd_present d ! 0) out) = xs"
proof -
  have le: "length xs \<le> length out" using assms by (simp add: merged_def)
  have lo: "vd_present (out ! i) ! 0 \<and> vd_via (out ! i) ! 0 = xs ! i" if "i < length xs" for i
    using assms that unfolding merged_def by (auto simp: ocl_only_def both_see_def)
  have hi: "\<not> vd_present (out ! i) ! 0" if "length xs \<le> i" "i < length out" for i
    using assms that unfolding merged_def by (auto simp: cuda_only_def)
  have "filter (\<lambda>d. vd_present d ! 0) (take (length xs) out) = take (length xs) out"
    using lo le by (intro filter_True) (auto simp: in_set_conv_nth)
  moreover have "filter (\<lambda>d. vd_present d ! 0) (drop (length xs) out) = []"
    using hi by (intro filter_False) (auto simp: in_set_conv_nth)
  ultimately have "filter (\<lambda>d. vd_present d ! 0) out = take (length xs) out"
    using filter_append[of "\<lambda>d. vd_present d ! 0" "take (length xs) out" "drop (length xs) out"] by simp
  moreover have "map (\<lambda>d. vd_via d ! 0) (take (length xs) out) = xs"
    using lo le by (intro nth_equalityI) auto
  ultimately show ?thesis by simp
qed

lemma merged_entry:
  assumes "merged xs ys out" "d \<in> set out"
  obtains x where "d = ocl_only x"
  | x y where "d = both_see x y" "di_pci x = di_pci y" "di_pci x \<noteq> []"
  | y where "d = cuda_only y" "\<And>x. di_pci y \<noteq> [] \<Longrightarrow> ocl_only x \<in> set out \<Longrightarrow> di_pci x \<noteq> di_pci y"
proof -
  obtain i where i: "i < length out" "d = out ! i" using assms(2) by (auto simp: in_set_conv_nth)
  show thesis
  proof (cases "i < length xs")
    case True
    then have "d = ocl_only (xs ! i) \<or> (\<exists>y. d = both_see (xs ! i) y \<and> di_pci y = di_pci (xs ! i) \<and> di_pci y \<noteq> [])"
      using assms(1) i(2) unfolding merged_def by blast
    then show thesis using that(1,2) by metis
  next
    case False
    then obtain y where y: "d = cuda_only y"
      "di_pci y \<noteq> [] \<longrightarrow> (\<forall>j < length xs. out ! j = ocl_only (xs ! j) \<longrightarrow> di_pci (xs ! j) \<noteq> di_pci y)"
      using assms(1) i unfolding merged_def by (meson leI)
    have "di_pci x \<noteq> di_pci y" if "di_pci y \<noteq> []" "ocl_only x \<in> set out" for x
    proof -
      obtain k where k: "k < length out" "out ! k = ocl_only x" using \<open>ocl_only x \<in> set out\<close> by (auto simp: in_set_conv_nth)
      have "k < length xs"
      proof (rule ccontr)
        assume "\<not> k < length xs"
        then obtain z where "out ! k = cuda_only z" using assms(1) k(1) unfolding merged_def by (meson leI)
        then show False using k(2) distinct_entries(2) by simp
      qed
      then have "out ! k = ocl_only (xs ! k)" using assms(1) k(2) distinct_entries(1) unfolding merged_def by metis
      then show ?thesis using y(2) that(1) k(2) \<open>k < length xs\<close> distinct_entries(5) by metis
    qed
    then show thesis using that(3) y(1) by blast
  qed
qed

text \<open>C40: when both APIs together report at most \<open>VB_DEV_MAX\<close> devices and the caller's array holds them, the
  list merges them and loses none: entry i is the i-th OpenCL device, the CUDA views are exactly the CUDA
  devices, each once.  An entry both APIs see is one PCI address that is known, so two devices without an
  address are never taken for one card; and no known address is left both as an entry only OpenCL sees and
  as one only CUDA sees.\<close>

theorem devices_merged:
  assumes "length xs + length ys \<le> VB_DEV_MAX" "int (length xs + length ys) \<le> most"
    and "bi_enumerate (fst bs) VB_DEV_MAX = xs" "bi_enumerate (snd bs) VB_DEV_MAX = ys"
    and "out = vb_devices bs most"
  shows "map (\<lambda>d. vd_via d ! 0) (filter (\<lambda>d. vd_present d ! 0) out) = xs
    \<and> mset (map (\<lambda>d. vd_via d ! 1) (filter (\<lambda>d. vd_present d ! 1) out)) = mset ys
    \<and> (\<forall>i < length xs. vd_present (out ! i) ! 0)
    \<and> (\<forall>d \<in> set out. (vd_present d ! 0 \<or> vd_present d ! 1)
        \<and> (vd_present d ! 0 \<and> vd_present d ! 1 \<longrightarrow>
             di_pci (vd_via d ! 0) = di_pci (vd_via d ! 1) \<and> di_pci (vd_via d ! 0) \<noteq> []))
    \<and> (\<forall>d \<in> set out. \<forall>e \<in> set out. \<not> vd_present d ! 1 \<and> \<not> vd_present e ! 0 \<and> di_pci (vd_via d ! 0) \<noteq> []
        \<longrightarrow> di_pci (vd_via d ! 0) \<noteq> di_pci (vd_via e ! 1))"
proof -
  have m: "merged xs ys out" using devices_merge[OF assms(1-4)] assms(5) by simp
  have first: "vd_present (out ! i) ! 0" if "i < length xs" for i
    using m that unfolding merged_def by (auto simp: ocl_only_def both_see_def)
  have entry: "(vd_present d ! 0 \<or> vd_present d ! 1) \<and> (vd_present d ! 0 \<and> vd_present d ! 1 \<longrightarrow>
      di_pci (vd_via d ! 0) = di_pci (vd_via d ! 1) \<and> di_pci (vd_via d ! 0) \<noteq> [])"
    if "d \<in> set out" for d
    by (rule merged_entry[OF m that]) (auto simp: ocl_only_def both_see_def cuda_only_def)
  have apart: "di_pci (vd_via d ! 0) \<noteq> di_pci (vd_via e ! 1)"
    if D: "d \<in> set out" "e \<in> set out" "\<not> vd_present d ! 1" "\<not> vd_present e ! 0" "di_pci (vd_via d ! 0) \<noteq> []" for d e
  proof -
    obtain x where x: "d = ocl_only x"
      by (rule merged_entry[OF m D(1)]) (use D(3) in \<open>auto simp: both_see_def cuda_only_def\<close>)
    show ?thesis
      by (rule merged_entry[OF m D(2)]) (use D x in \<open>auto simp: both_see_def cuda_only_def ocl_only_def\<close>)
  qed
  have "mset (map (\<lambda>d. vd_via d ! 1) (filter (\<lambda>d. vd_present d ! 1) out)) = mset ys" using m by (simp add: merged_def)
  then show ?thesis using merged_first_views[OF m] first entry apart by blast
qed

text \<open>One card seen by both APIs, and one without an address in each: both views of the second kind stay
  apart.\<close>

lemma devices_merged_witness:
  "let x = zero_dev\<lparr>di_pci := ''0000:01:00.0''\<rparr>; y = x\<lparr>di_backend := VB_BACKEND_CUDA\<rparr>; z = zero_dev\<lparr>di_backend := VB_BACKEND_CUDA\<rparr>;
     bs = (\<lparr>bi_enumerate = (\<lambda>n. [zero_dev, x]), bi_unavailable = None\<rparr>, \<lparr>bi_enumerate = (\<lambda>n. [z, y]), bi_unavailable = None\<rparr>)
   in map (\<lambda>d. vd_via d ! 0) (filter (\<lambda>d. vd_present d ! 0) (vb_devices bs 32)) = [zero_dev, x]
    \<and> (\<forall>i < 2. vd_present (vb_devices bs 32 ! i) ! 0)
    \<and> (\<forall>d \<in> set (vb_devices bs 32). di_pci (vd_via d ! 0) = [] \<longrightarrow> \<not> (vd_present d ! 0 \<and> vd_present d ! 1))"
proof -
  define x where "x = zero_dev\<lparr>di_pci := ''0000:01:00.0''\<rparr>"
  define y where "y = x\<lparr>di_backend := VB_BACKEND_CUDA\<rparr>"
  define z where "z = zero_dev\<lparr>di_backend := VB_BACKEND_CUDA\<rparr>"
  let ?bs = "(\<lparr>bi_enumerate = (\<lambda>n. [zero_dev, x]), bi_unavailable = None\<rparr>, \<lparr>bi_enumerate = (\<lambda>n. [z, y]), bi_unavailable = None\<rparr>)"
  have "length [zero_dev, x] + length [z, y] \<le> VB_DEV_MAX" "int (length [zero_dev, x] + length [z, y]) \<le> 32"
    by (simp_all add: VB_DEV_MAX_def)
  note D = devices_merged[OF this _ _ refl, of ?bs]
  have l: "length [zero_dev, x] = 2" by simp
  have e: "bi_enumerate (fst ?bs) VB_DEV_MAX = [zero_dev, x]" "bi_enumerate (snd ?bs) VB_DEV_MAX = [z, y]" by simp_all
  note D' = D[OF e, unfolded l]
  show ?thesis unfolding Let_def x_def[symmetric] y_def[symmetric] z_def[symmetric] using D' by blast
qed

end
