(* ===== verification/Device_Capacity.thy ===== *)
theory Device_Capacity
  imports Device_Geometry
begin

text \<open>
  The capacity probe of src/kernels/gpu/device_capacity.h: what the first work-item of each
  work-group does when a kernel is launched with repeats 0.  The items of a launch run concurrently,
  so the macro is a step relation whose steps are its accesses to the three counters, and a device
  holds at most \<open>held\<close> work-groups at once: it admits another only when one has left.
\<close>

section \<open>The macro, access by access\<close>

text \<open>Where the first item of a group is: not admitted, at the head of the loop with \<open>i_\<close> and
  \<open>most_\<close>, between its two reads with \<open>started_\<close> as well, before the atomic maximum, before the last
  increment, or gone.\<close>

datatype probe_at = P_Waiting | P_Loop u32 u32 | P_Read u32 u32 u32 | P_Max u32 | P_Out | P_Gone

record probe =
  pr_started :: u32
  pr_finished :: u32
  pr_most :: u32
  pr_at :: "probe_at list"

definition probe_act :: "u32 \<Rightarrow> u32 \<Rightarrow> nat \<Rightarrow> probe \<Rightarrow> probe" where
  "probe_act groups spin g s =
    (let move = (\<lambda>a s. s\<lparr>pr_at := (pr_at s)[g := a]\<rparr>)
     in case pr_at s ! g of
       P_Waiting \<Rightarrow> move (P_Loop 0 0) (s\<lparr>pr_started := pr_started s + 1\<rparr>)
     | P_Loop i most \<Rightarrow> if i < spin then move (P_Read i most (pr_started s)) s else move (P_Max most) s
     | P_Read i most started \<Rightarrow>
         (let finished = pr_finished s;
              most = (if most < started - finished then started - finished else most)
          in if started = groups \<or> finished \<noteq> 0 then move (P_Max most) s else move (P_Loop (i + 1) most) s)
     | P_Max most \<Rightarrow> move P_Out (s\<lparr>pr_most := max (pr_most s) most\<rparr>)
     | P_Out \<Rightarrow> move P_Gone (s\<lparr>pr_finished := pr_finished s + 1\<rparr>)
     | P_Gone \<Rightarrow> s)"

definition resident :: "probe \<Rightarrow> nat" where
  "resident s = length (filter (\<lambda>a. a \<noteq> P_Waiting \<and> a \<noteq> P_Gone) (pr_at s))"

inductive probe_step :: "nat \<Rightarrow> u32 \<Rightarrow> u32 \<Rightarrow> probe \<Rightarrow> probe \<Rightarrow> bool" for held groups spin where
  admit: "g < length (pr_at s) \<Longrightarrow> pr_at s ! g = P_Waiting \<Longrightarrow> resident s < held \<Longrightarrow>
    probe_step held groups spin s (probe_act groups spin g s)"
| work: "g < length (pr_at s) \<Longrightarrow> pr_at s ! g \<noteq> P_Waiting \<Longrightarrow> pr_at s ! g \<noteq> P_Gone \<Longrightarrow>
    probe_step held groups spin s (probe_act groups spin g s)"

text \<open>The host zeroes the counters and launches the groups.\<close>

definition probe_launch :: "nat \<Rightarrow> probe" where
  "probe_launch n = \<lparr>pr_started = 0, pr_finished = 0, pr_most = 0, pr_at = replicate n P_Waiting\<rparr>"

definition probe_reach :: "nat \<Rightarrow> nat \<Rightarrow> u32 \<Rightarrow> probe \<Rightarrow> bool" where
  "probe_reach held n spin s \<longleftrightarrow> (probe_step held (of_nat n) spin)\<^sup>*\<^sup>* (probe_launch n) s"

definition probe_over :: "probe \<Rightarrow> bool" where
  "probe_over s \<longleftrightarrow> (\<forall>a \<in> set (pr_at s). a = P_Gone)"


section \<open>What the counters say\<close>

definition tally :: "(probe_at \<Rightarrow> bool) \<Rightarrow> probe \<Rightarrow> nat" where
  "tally P s = length (filter P (pr_at s))"

lemma tally_move:
  assumes "g < length xs"
  shows "length (filter P (xs[g := a])) + of_bool (P (xs ! g)) = length (filter P xs) + of_bool (P a)"
  using assms
proof (induction xs arbitrary: g)
  case (Cons x xs)
  then show ?case by (cases g) auto
qed simp

text \<open>A value \<open>most_\<close> may hold: no more than the device holds, or a difference that went below zero.\<close>

definition seen_ok :: "nat \<Rightarrow> nat \<Rightarrow> u32 \<Rightarrow> bool" where
  "seen_ok held n m \<longleftrightarrow> unat m \<le> held \<or> 2 ^ 32 \<le> unat m + n"

text \<open>What each item may rely on where it is.\<close>

definition at_ok :: "nat \<Rightarrow> nat \<Rightarrow> u32 \<Rightarrow> probe \<Rightarrow> probe_at \<Rightarrow> bool" where
  "at_ok held n spin s a =
    (case a of
       P_Waiting \<Rightarrow> True
     | P_Loop i m \<Rightarrow> seen_ok held n m \<and> i \<le> spin \<and> (i = 0 \<or> 0 < m)
     | P_Read i m st \<Rightarrow> seen_ok held n m \<and> i < spin \<and> 0 < st \<and> unat st \<le> n \<and> unat st \<le> unat (pr_finished s) + held
     | P_Max m \<Rightarrow> seen_ok held n m \<and> (0 < m \<or> pr_finished s \<noteq> 0)
     | P_Out \<Rightarrow> 0 < pr_most s
     | P_Gone \<Rightarrow> True)"

definition probe_inv :: "nat \<Rightarrow> nat \<Rightarrow> u32 \<Rightarrow> probe \<Rightarrow> bool" where
  "probe_inv held n spin s \<longleftrightarrow>
     length (pr_at s) = n \<and> unat (pr_started s) = tally (\<lambda>a. a \<noteq> P_Waiting) s \<and> unat (pr_finished s) = tally (\<lambda>a. a = P_Gone) s
     \<and> resident s \<le> held \<and> seen_ok held n (pr_most s) \<and> (pr_finished s \<noteq> 0 \<longrightarrow> 0 < pr_most s)
     \<and> (\<forall>a \<in> set (pr_at s). at_ok held n spin s a)"

lemma tally_split: "tally (\<lambda>a. a \<noteq> P_Waiting) s = resident s + tally (\<lambda>a. a = P_Gone) s"
proof -
  have "length (filter (\<lambda>a. a \<noteq> P_Waiting) xs)
      = length (filter (\<lambda>a. a \<noteq> P_Waiting \<and> a \<noteq> P_Gone) xs) + length (filter (\<lambda>a. a = P_Gone) xs)" for xs
    by (induction xs) auto
  then show ?thesis by (simp add: tally_def resident_def)
qed

lemma probe_launch_inv: "probe_inv held n spin (probe_launch n)"
  by (auto simp: probe_inv_def probe_launch_def tally_def resident_def seen_ok_def at_ok_def)

text \<open>The difference of the two reads.\<close>

lemma difference_seen:
  assumes "unat st \<le> unat fi + held" "unat fi \<le> n"
  shows "seen_ok held n (st - fi)"
proof (cases "fi \<le> st")
  case True
  then have "unat (st - fi) = unat st - unat fi" by (simp add: unat_sub)
  then have "unat (st - fi) \<le> held" using assms(1) by linarith
  then show ?thesis by (simp add: seen_ok_def)
next
  case False
  then have "unat (st - fi) = 2 ^ 32 + unat st - unat fi"
    by (simp add: unat_sub_if' word_le_nat_alt)
  then have "2 ^ 32 \<le> unat (st - fi) + n" using assms(2) by linarith
  then show ?thesis by (simp add: seen_ok_def)
qed

lemma at_ok_later:
  assumes "at_ok held n spin s a" "unat (pr_finished s) \<le> unat (pr_finished s')" "pr_most s \<le> pr_most s'"
  shows "at_ok held n spin s' a"
proof -
  have "pr_finished s \<noteq> 0 \<Longrightarrow> pr_finished s' \<noteq> 0" using assms(2) by (auto simp: unat_eq_0)
  then show ?thesis
    using assms by (cases a) (auto simp: at_ok_def intro: order.strict_trans2 le_trans)
qed

lemma inc_counter: "unat (c :: u32) < n \<Longrightarrow> n < 2 ^ 32 \<Longrightarrow> unat (c + 1) = Suc (unat c)"
  by (simp add: unat_word_ariths)

lemma tally_moved:
  assumes "pr_at s' = (pr_at s)[g := a]" "g < length (pr_at s)"
  shows "tally P s' + of_bool (P (pr_at s ! g)) = tally P s + of_bool (P a)"
  using tally_move[OF assms(2), of P a] by (simp add: tally_def assms(1))

lemma resident_tally: "resident s = tally (\<lambda>a. a \<noteq> P_Waiting \<and> a \<noteq> P_Gone) s"
  by (simp add: resident_def tally_def)

lemma tally_less: "g < length (pr_at s) \<Longrightarrow> \<not> P (pr_at s ! g) \<Longrightarrow> tally P s < length (pr_at s)"
  unfolding tally_def by (rule length_filter_less[of "pr_at s ! g"]) simp_all

text \<open>One item moves and the rest stay where they were.\<close>

lemma inv_moved:
  assumes "probe_inv held n spin s" and s': "pr_at s' = (pr_at s)[g := a]" and g: "g < length (pr_at s)"
    and "unat (pr_started s') = tally (\<lambda>a. a \<noteq> P_Waiting) s'" "unat (pr_finished s') = tally (\<lambda>a. a = P_Gone) s'"
    and "resident s' \<le> held" "seen_ok held n (pr_most s')" "pr_finished s' \<noteq> 0 \<longrightarrow> 0 < pr_most s'"
    and later: "unat (pr_finished s) \<le> unat (pr_finished s')" "pr_most s \<le> pr_most s'"
    and a: "at_ok held n spin s' a"
  shows "probe_inv held n spin s'"
proof -
  have "at_ok held n spin s' x" if "x \<in> set (pr_at s')" for x
  proof -
    have "x = a \<or> x \<in> set (pr_at s)" using that set_update_subset_insert[of "pr_at s" g a] by (auto simp: s')
    moreover have "at_ok held n spin s x" if "x \<in> set (pr_at s)" using that assms(1) by (simp add: probe_inv_def)
    ultimately show ?thesis using a at_ok_later[OF _ later] by blast
  qed
  then show ?thesis using assms(1,4-8) by (simp add: probe_inv_def s')
qed

lemma probe_act_inv:
  assumes I: "probe_inv held n spin s" and n: "n < 2 ^ 32" and g: "g < length (pr_at s)" "pr_at s ! g \<noteq> P_Gone"
    and admit: "pr_at s ! g = P_Waiting \<Longrightarrow> resident s < held" and spin: "0 < spin"
  shows "probe_inv held n spin (probe_act (of_nat n) spin g s)"
proof -
  let ?s' = "probe_act (of_nat n) spin g s"
  have inv: "length (pr_at s) = n" "unat (pr_started s) = tally (\<lambda>a. a \<noteq> P_Waiting) s" "unat (pr_finished s) = tally (\<lambda>a. a = P_Gone) s"
    "resident s \<le> held" "seen_ok held n (pr_most s)" "pr_finished s \<noteq> 0 \<longrightarrow> 0 < pr_most s" "at_ok held n spin s (pr_at s ! g)"
    using I g(1) by (auto simp: probe_inv_def)
  have fin: "unat (pr_finished s) < n" using tally_less[OF g(1), of "\<lambda>a. a = P_Gone"] g(2) by (simp add: inv(1,3))
  have "tally (\<lambda>a. a \<noteq> P_Waiting) s \<le> length (pr_at s)" by (simp add: tally_def)
  then have st: "unat (pr_started s) \<le> n" "unat (pr_started s) = resident s + unat (pr_finished s)"
    using inv(1) by (simp_all add: inv(2,3) tally_split)
  note go = inv_moved[OF I _ g(1)] 
  note T = tally_moved[of ?s' s g _ , OF _ g(1)]
  show ?thesis
  proof (cases "pr_at s ! g")
    case P_Waiting
    have a: "pr_at ?s' = (pr_at s)[g := P_Loop 0 0]" by (simp add: probe_act_def P_Waiting)
    have "unat (pr_started s) < n"
      using tally_less[OF g(1), of "\<lambda>a. a \<noteq> P_Waiting"] by (simp add: inv(1,2) P_Waiting)
    then have "unat (pr_started s + 1) = Suc (unat (pr_started s))" by (rule inc_counter[OF _ n])
    then show ?thesis
      using T[OF a, of "\<lambda>a. a \<noteq> P_Waiting"] T[OF a, of "\<lambda>a. a = P_Gone"] T[OF a, of "\<lambda>a. a \<noteq> P_Waiting \<and> a \<noteq> P_Gone"] admit[OF P_Waiting] inv
      by (intro go[OF a]) (simp_all add: probe_act_def P_Waiting resident_tally at_ok_def seen_ok_def)
  next
    case (P_Loop i m)
    have "0 < resident s"
      using g(1) nth_mem[OF g(1)] by (auto simp: resident_def P_Loop filter_empty_conv)
    then have pos: "0 < pr_started s" using st(2) by (simp add: word_neq_0_conv[symmetric] unat_eq_0[symmetric] del: unat_eq_0)
    show ?thesis
    proof (cases "i < spin")
      case True
      have a: "pr_at ?s' = (pr_at s)[g := P_Read i m (pr_started s)]" by (simp add: probe_act_def P_Loop True)
      show ?thesis
        using T[OF a, of "\<lambda>a. a \<noteq> P_Waiting"] T[OF a, of "\<lambda>a. a = P_Gone"] T[OF a, of "\<lambda>a. a \<noteq> P_Waiting \<and> a \<noteq> P_Gone"] inv st pos True
        by (intro go[OF a]) (simp_all add: probe_act_def P_Loop resident_tally at_ok_def)
    next
      case False
      have a: "pr_at ?s' = (pr_at s)[g := P_Max m]" by (simp add: probe_act_def P_Loop False)
      have "i \<noteq> 0" using False spin by auto
      then show ?thesis
        using T[OF a, of "\<lambda>a. a \<noteq> P_Waiting"] T[OF a, of "\<lambda>a. a = P_Gone"] T[OF a, of "\<lambda>a. a \<noteq> P_Waiting \<and> a \<noteq> P_Gone"] inv False
        by (intro go[OF a]) (simp_all add: probe_act_def P_Loop resident_tally at_ok_def)
    qed
  next
    case (P_Read i m f)
    have f: "seen_ok held n m" "i < spin" "0 < f" "unat f \<le> n" "unat f \<le> unat (pr_finished s) + held"
      using inv(7) by (simp_all add: P_Read at_ok_def)
    define m' where "m' = (if m < f - pr_finished s then f - pr_finished s else m)"
    have m': "seen_ok held n m'" using difference_seen[OF f(5), of n] fin f(1) by (simp add: m'_def)
    have pos: "0 < m'" if "pr_finished s = 0" using that f(3) by (auto simp: m'_def word_neq_0_conv)
    show ?thesis
    proof (cases "f = of_nat n \<or> pr_finished s \<noteq> 0")
      case True
      have a: "pr_at ?s' = (pr_at s)[g := P_Max m']" using True by (auto simp: probe_act_def P_Read m'_def)
      have s': "?s' = s\<lparr>pr_at := (pr_at s)[g := P_Max m']\<rparr>" using True by (auto simp: probe_act_def P_Read m'_def)
      show ?thesis
        using T[OF a, of "\<lambda>a. a \<noteq> P_Waiting"] T[OF a, of "\<lambda>a. a = P_Gone"] T[OF a, of "\<lambda>a. a \<noteq> P_Waiting \<and> a \<noteq> P_Gone"] inv m' pos
        by (intro go[OF a]) (auto simp: s' P_Read resident_tally at_ok_def)
    next
      case False
      have a: "pr_at ?s' = (pr_at s)[g := P_Loop (i + 1) m']" using False by (auto simp: probe_act_def P_Read m'_def)
      have s': "?s' = s\<lparr>pr_at := (pr_at s)[g := P_Loop (i + 1) m']\<rparr>" using False by (auto simp: probe_act_def P_Read m'_def)
      have "i + 1 \<le> spin" using f(2) by (simp add: inc_le)
      then show ?thesis
        using T[OF a, of "\<lambda>a. a \<noteq> P_Waiting"] T[OF a, of "\<lambda>a. a = P_Gone"] T[OF a, of "\<lambda>a. a \<noteq> P_Waiting \<and> a \<noteq> P_Gone"] inv m' pos False
        by (intro go[OF a]) (auto simp: s' P_Read resident_tally at_ok_def)
    qed
  next
    case (P_Max m)
    have a: "pr_at ?s' = (pr_at s)[g := P_Out]" by (simp add: probe_act_def P_Max)
    have "0 < max (pr_most s) m" using inv(6,7) by (auto simp: P_Max at_ok_def max_def)
    moreover have "seen_ok held n (max (pr_most s) m)" using inv(5,7) by (simp add: P_Max at_ok_def max_def)
    ultimately show ?thesis
      using T[OF a, of "\<lambda>a. a \<noteq> P_Waiting"] T[OF a, of "\<lambda>a. a = P_Gone"] T[OF a, of "\<lambda>a. a \<noteq> P_Waiting \<and> a \<noteq> P_Gone"] inv
      by (intro go[OF a]) (simp_all add: probe_act_def P_Max resident_tally at_ok_def)
  next
    case P_Out
    have a: "pr_at ?s' = (pr_at s)[g := P_Gone]" by (simp add: probe_act_def P_Out)
    have "unat (pr_finished s + 1) = Suc (unat (pr_finished s))" by (rule inc_counter[OF fin n])
    then show ?thesis
      using T[OF a, of "\<lambda>a. a \<noteq> P_Waiting"] T[OF a, of "\<lambda>a. a = P_Gone"] T[OF a, of "\<lambda>a. a \<noteq> P_Waiting \<and> a \<noteq> P_Gone"] inv
      by (intro go[OF a]) (simp_all add: probe_act_def P_Out resident_tally at_ok_def)
  qed (use g(2) in simp)
qed

lemma probe_reach_inv:
  assumes "probe_reach held n spin s" "n < 2 ^ 32" "0 < spin"
  shows "probe_inv held n spin s"
  using assms(1) unfolding probe_reach_def
proof (induction rule: rtranclp_induct)
  case base
  show ?case by (rule probe_launch_inv)
next
  case (step s s')
  from step.hyps(2) show ?case
    by cases (use probe_act_inv[OF step.IH assms(2)] assms(3) in auto)
qed


section \<open>The probe ends\<close>

text \<open>What an item has left to do at most, in accesses.\<close>

definition probe_weight :: "u32 \<Rightarrow> probe_at \<Rightarrow> nat" where
  "probe_weight spin a =
    (case a of
       P_Waiting \<Rightarrow> 2 * unat spin + 4 | P_Loop i m \<Rightarrow> 2 * (unat spin - unat i) + 3
     | P_Read i m st \<Rightarrow> 2 * (unat spin - unat i) + 2 | P_Max m \<Rightarrow> 2 | P_Out \<Rightarrow> 1 | P_Gone \<Rightarrow> 0)"

definition probe_left :: "u32 \<Rightarrow> probe \<Rightarrow> nat" where
  "probe_left spin s = sum_list (map (probe_weight spin) (pr_at s))"

lemma sum_list_moved:
  fixes w :: "'a \<Rightarrow> nat"
  assumes "g < length xs" "w a < w (xs ! g)"
  shows "sum_list (map w (xs[g := a])) < sum_list (map w xs)"
  using assms
proof (induction xs arbitrary: g)
  case (Cons x xs)
  then show ?case by (cases g) auto
qed simp

lemma probe_act_less:
  assumes "g < length (pr_at s)" "pr_at s ! g \<noteq> P_Gone" "at_ok held n spin s (pr_at s ! g)"
  shows "probe_left spin (probe_act groups spin g s) < probe_left spin s"
proof -
  have w: "probe_left spin s' < probe_left spin s"
    if "pr_at s' = (pr_at s)[g := a]" "probe_weight spin a < probe_weight spin (pr_at s ! g)" for s' a
    using sum_list_moved[OF assms(1) that(2)] by (simp add: probe_left_def that(1))
  show ?thesis
  proof (cases "pr_at s ! g")
    case P_Waiting
    then show ?thesis by (intro w[of _ "P_Loop 0 0"]) (simp_all add: probe_act_def probe_weight_def)
  next
    case (P_Loop i m)
    then show ?thesis
      by (intro w[of _ "if i < spin then P_Read i m (pr_started s) else P_Max m"]) (simp_all add: probe_act_def probe_weight_def)
  next
    case (P_Read i m f)
    have i: "i < spin" using assms(3) by (simp add: P_Read at_ok_def)
    then have lt: "unat i < unat spin" by (simp add: word_less_nat_alt)
    have "unat (i + 1) = Suc (unat i)" by (rule inc_counter[OF lt]) (use unsigned_less[of spin] in simp)
    moreover have "2 * (unat spin - unat i) = Suc (Suc (2 * (unat spin - Suc (unat i))))" using lt by linarith
    ultimately show ?thesis
      by (intro w[of _ "if f = groups \<or> pr_finished s \<noteq> 0 then P_Max (if m < f - pr_finished s then f - pr_finished s else m)
          else P_Loop (i + 1) (if m < f - pr_finished s then f - pr_finished s else m)"])
        (simp_all add: probe_act_def probe_weight_def P_Read Let_def)
  next
    case (P_Max m)
    then show ?thesis by (intro w[of _ P_Out]) (simp_all add: probe_act_def probe_weight_def)
  next
    case P_Out
    then show ?thesis by (intro w[of _ P_Gone]) (simp_all add: probe_act_def probe_weight_def)
  qed (use assms(2) in simp)
qed

lemma probe_step_less:
  assumes "probe_reach held n spin s" "n < 2 ^ 32" "0 < spin" "probe_step held (of_nat n) spin s s'"
  shows "probe_left spin s' < probe_left spin s"
proof -
  have at: "at_ok held n spin s (pr_at s ! g)" if "g < length (pr_at s)" for g
    using probe_reach_inv[OF assms(1-3)] nth_mem[OF that] by (simp add: probe_inv_def)
  from assms(4) show ?thesis
    by cases (use probe_act_less[OF _ _ at] in auto)
qed

lemma probe_reach_step: "probe_reach held n spin s \<Longrightarrow> probe_step held (of_nat n) spin s s' \<Longrightarrow> probe_reach held n spin s'"
  unfolding probe_reach_def by (rule rtranclp.rtrancl_into_rtrancl)

lemma probe_goes_on:
  assumes "probe_reach held n spin s" "n < 2 ^ 32" "0 < spin" "0 < held" "\<not> probe_over s"
  shows "\<exists>s'. probe_step held (of_nat n) spin s s'"
proof (cases "\<exists>g < length (pr_at s). pr_at s ! g \<noteq> P_Waiting \<and> pr_at s ! g \<noteq> P_Gone")
  case True
  then show ?thesis by (blast intro: probe_step.work)
next
  case False
  then have "resident s = 0" by (auto simp: resident_def filter_empty_conv in_set_conv_nth)
  moreover obtain g where "g < length (pr_at s)" "pr_at s ! g \<noteq> P_Gone"
    using assms(5) by (auto simp: probe_over_def in_set_conv_nth)
  ultimately show ?thesis using False assms(4) by (metis probe_step.admit)
qed

lemma probe_runs_left:
  assumes "(probe_step held (of_nat n) spin ^^ k) (probe_launch n) s" "n < 2 ^ 32" "0 < spin"
  shows "k + probe_left spin s \<le> probe_left spin (probe_launch n) \<and> probe_reach held n spin s"
  using assms(1)
proof (induction k arbitrary: s)
  case 0
  then show ?case by (simp add: probe_reach_def)
next
  case (Suc k)
  obtain t where t: "(probe_step held (of_nat n) spin ^^ k) (probe_launch n) t" "probe_step held (of_nat n) spin t s"
    using Suc.prems by auto
  note IH = Suc.IH[OF t(1)]
  then show ?case
    using probe_step_less[OF _ assms(2,3) t(2)] probe_reach_step[OF _ t(2)] by force
qed

text \<open>C32: the capacity probe ends: from wherever its items are, unless all work-groups are out some
  item can make its next access or the device can admit a group, however few groups it holds; and no
  launch makes more than 2 * spin + 4 accesses for each of its groups.  Once it is over, all groups are
  counted in and out and the answer is positive, which is what the host checks.\<close>

theorem probe_ends:
  assumes "n < 2 ^ 32" "0 < spin" "0 < held"
  shows "(\<forall>s. probe_reach held n spin s \<longrightarrow> probe_over s \<or> (\<exists>s'. probe_step held (of_nat n) spin s s'))
    \<and> (\<forall>k s. (probe_step held (of_nat n) spin ^^ k) (probe_launch n) s \<longrightarrow> k \<le> n * (2 * unat spin + 4))
    \<and> (\<forall>s. probe_reach held n spin s \<longrightarrow> probe_over s \<longrightarrow>
         unat (pr_started s) = n \<and> unat (pr_finished s) = n \<and> (0 < n \<longrightarrow> 0 < pr_most s))"
proof (intro conjI allI impI)
  show "probe_over s \<or> (\<exists>s'. probe_step held (of_nat n) spin s s')" if "probe_reach held n spin s" for s
    using probe_goes_on[OF that assms] by blast
  show "k \<le> n * (2 * unat spin + 4)" if "(probe_step held (of_nat n) spin ^^ k) (probe_launch n) s" for k s
    using probe_runs_left[OF that assms(1,2)]
    by (simp add: probe_left_def probe_launch_def probe_weight_def sum_list_replicate)
  fix s
  assume s: "probe_reach held n spin s" "probe_over s"
  note I = probe_reach_inv[OF s(1) assms(1,2)]
  have "filter (\<lambda>a. a \<noteq> P_Waiting) (pr_at s) = pr_at s" "filter (\<lambda>a. a = P_Gone) (pr_at s) = pr_at s"
    using s(2) by (auto simp: probe_over_def filter_id_conv)
  then show c: "unat (pr_started s) = n" "unat (pr_finished s) = n" using I by (simp_all add: probe_inv_def tally_def)
  show "0 < pr_most s" if "0 < n"
    using I c(2) that by (auto simp: probe_inv_def)
qed

lemma probe_ends_witness:
  "\<exists>s. probe_step 2 3 4 (probe_launch 3) s \<and> (\<forall>k s. (probe_step 2 3 4 ^^ k) (probe_launch 3) s \<longrightarrow> k \<le> 36)"
proof -
  have "\<not> probe_over (probe_launch 3)" "probe_reach 2 3 4 (probe_launch 3)"
    by (simp_all add: probe_over_def probe_launch_def probe_reach_def)
  moreover have "unat (4 :: u32) = 4" "(of_nat 3 :: u32) = 3" by simp_all
  note ends = probe_ends[of 3 4 2, unfolded this]
  have "(\<exists>s'. probe_step 2 3 4 (probe_launch 3) s')" using ends calculation by force
  moreover have "\<forall>k s. (probe_step 2 3 4 ^^ k) (probe_launch 3) s \<longrightarrow> k \<le> 36" using ends by simp
  ultimately show ?thesis by blast
qed


section \<open>What the host makes of the answer\<close>

text \<open>A schedule, the groups in the order of their accesses, run.\<close>

fun probe_run :: "nat \<Rightarrow> u32 \<Rightarrow> u32 \<Rightarrow> nat list \<Rightarrow> probe \<Rightarrow> probe option" where
  "probe_run held groups spin [] s = Some s"
| "probe_run held groups spin (g # gs) s =
    (if g < length (pr_at s) \<and> (pr_at s ! g = P_Waiting \<longrightarrow> resident s < held) \<and> pr_at s ! g \<noteq> P_Gone
     then probe_run held groups spin gs (probe_act groups spin g s) else None)"

lemma probe_run_steps: "probe_run held groups spin gs s = Some s' \<Longrightarrow> (probe_step held groups spin)\<^sup>*\<^sup>* s s'"
proof (induction gs arbitrary: s)
  case (Cons g gs)
  then have "probe_step held groups spin s (probe_act groups spin g s)" by (auto intro: probe_step.intros split: if_splits)
  then show ?case using Cons by (auto intro: converse_rtranclp_into_rtranclp split: if_splits)
qed simp

text \<open>Three words as the host copies them out of the partials.\<close>

definition probe_counters :: "probe \<Rightarrow> bytes" where
  "probe_counters s = store_le32 (pr_started s) @ store_le32 (pr_finished s) @ store_le32 (pr_most s)"

text \<open>A backend that brings back what a finished probe left, for launches of \<open>n\<close> groups.\<close>

definition probes :: "'i vb_dev_backend \<Rightarrow> nat \<Rightarrow> nat \<Rightarrow> bool" where
  "probes be held n \<longleftrightarrow> (\<forall>c sd. dc_repeats c = 0 \<longrightarrow> dc_n_partials c = n \<longrightarrow> be_read be c 12 = (True, sd) \<longrightarrow>
     (\<exists>spin s. 0 < spin \<and> probe_reach held n spin s \<and> probe_over s \<and> take 12 (sd_partials sd) = probe_counters s))"

lemma probe_answer:
  assumes "probe_reach held n spin s" "n < 2 ^ 32" "0 < spin"
  shows "unat (pr_most s) \<le> held \<or> 2 ^ 32 \<le> unat (pr_most s) + n"
  using probe_reach_inv[OF assms] by (simp add: probe_inv_def seen_ok_def)

lemma counters_read:
  assumes "take 12 p = probe_counters s"
  shows "load_le32 p = pr_started s" "load_le32 (drop 4 p) = pr_finished s" "load_le32 (drop 8 p) = pr_most s"
proof -
  have p: "p = store_le32 (pr_started s) @ store_le32 (pr_finished s) @ store_le32 (pr_most s) @ drop 12 p"
    using append_take_drop_id[of 12 p] unfolding assms probe_counters_def by simp
  have d: "drop 4 (store_le32 v @ xs) = xs" for v xs by (simp add: store_le32_def)
  have p4: "drop 4 p = store_le32 (pr_finished s) @ store_le32 (pr_most s) @ drop 12 p" by (subst p) (rule d)
  have "drop 4 (drop 4 p) = store_le32 (pr_most s) @ drop 12 p" unfolding p4 by (rule d)
  then have p8: "drop 8 p = store_le32 (pr_most s) @ drop 12 p" by simp
  show "load_le32 p = pr_started s" by (subst p) (rule load_store_le32)
  show "load_le32 (drop 4 p) = pr_finished s" unfolding p4 by (rule load_store_le32)
  show "load_le32 (drop 8 p) = pr_most s" unfolding p8 by (rule load_store_le32)
qed

text \<open>What the host read when it took an answer.\<close>

lemma run_probe_reads:
  assumes "run_probe be c = (cnt, c')" "cnt \<noteq> 0"
  obtains c2 sd where "dc_repeats c2 = dc_repeats c" "dc_n_partials c2 = dc_n_partials c"
    "be_read be c2 12 = (True, sd)" "cnt = unat (load_le32 (drop 8 (sd_partials sd)))"
proof -
  obtain ok1 c1 where 1: "side_call c (be_write_partials be c (replicate 12 0)) = (ok1, c1)" by (metis surj_pair)
  let ?spin = "if di_is_cpu (dc_dev c1) then VB_DEV_PROBE_SPIN_CPU else VB_DEV_PROBE_SPIN_GPU"
  obtain ok2 c2 where 2: "(if ok1 then vb_dev_ctx_enqueue be c1 ?spin else (False, c1)) = (ok2, c2)"
    by (metis surj_pair)
  obtain ok3 c3 where 3: "(if ok2 then side_call c2 (be_read be c2 12) else (False, c2)) = (ok3, c3)" by (metis surj_pair)
  have ok: "ok3" "cnt = unat (load_le32 (drop 8 (sd_partials (dc_side c3))))"
    using assms by (auto simp: run_probe_def Let_def 1 2 3 split: if_splits)
  then have ok12: ok1 ok2 using 2 3 by (auto split: if_splits)
  have "\<exists>sd. c1 = c\<lparr>dc_side := sd\<rparr>" using 1 by (auto simp: side_call_def)
  moreover have "\<exists>sd. c2 = c1\<lparr>dc_side := sd\<rparr>" using 2 ok12 by (auto simp: vb_dev_ctx_enqueue_def side_call_def split: if_splits)
  ultimately have "dc_repeats c2 = dc_repeats c" "dc_n_partials c2 = dc_n_partials c" by auto
  moreover have "be_read be c2 12 = (True, dc_side c3)" using 3 ok12 ok(1) by (auto simp: side_call_def prod_eq_iff)
  ultimately show thesis using that ok(2) by blast
qed

text \<open>C33: what the host takes for the capacity is no more work-items than the device holds, or so
  many that a difference of the two counters must have gone below zero on the way: \<open>n\<close> work-groups
  short of 2 ^ 32 at least.  It is a multiple of the group size either way.\<close>

theorem measured_capacity:
  assumes "measure_capacity be c local = (cap, c')" "probes be held (dc_n_partials (probe_place c local))"
    and "dc_n_partials (probe_place c local) < 2 ^ 32"
  shows "local dvd cap \<and> (cap \<le> held * local \<or> (2 ^ 32 - dc_n_partials (probe_place c local)) * local \<le> cap)"
proof -
  let ?n = "dc_n_partials (probe_place c local)"
  obtain cnt c1 where r: "run_probe be (probe_place c local) = (cnt, c1)" by (metis surj_pair)
  have cap: "cap = cnt * local" using assms(1) by (simp add: measure_capacity_def r)
  have "cnt \<le> held \<or> 2 ^ 32 \<le> cnt + ?n"
  proof (cases "cnt = 0")
    case False
    then obtain c2 sd where c2: "dc_repeats c2 = 0" "dc_n_partials c2 = ?n" "be_read be c2 12 = (True, sd)"
      "cnt = unat (load_le32 (drop 8 (sd_partials sd)))"
      using run_probe_reads[OF r] by (auto simp: probe_place_def Let_def)
    then show ?thesis
      using assms(2) probe_answer[OF _ assms(3)] counters_read(3) unfolding probes_def by metis
  qed simp
  then have "cnt * local \<le> held * local \<or> (2 ^ 32 - ?n) * local \<le> cnt * local"
    by (metis le_diff_conv mult_le_mono1)
  then show ?thesis by (simp add: cap)
qed

text \<open>Sixteen groups on a device that holds them all: each counts itself in, and then sees them all in.\<close>

lemma sixteen_in: "probe_run 16 16 8192 ([0..<16] @ concat (map (replicate 4) [0..<16])) (probe_launch 16)
    = Some \<lparr>pr_started = 16, pr_finished = 16, pr_most = 16, pr_at = replicate 16 P_Gone\<rparr>"
  by code_simp

lemma measured_capacity_witness:
  "\<exists>cap c'. measure_capacity
      (instant_backend\<lparr>be_read := (\<lambda>c m. (True, (dc_side c)\<lparr>sd_partials := concat (replicate 3 (store_le32 (of_nat (dc_n_partials c))))\<rparr>))\<rparr>)
      (zero_ctx\<lparr>dc_dev := zero_dev\<lparr>di_compute_units := 1\<rparr>, dc_lanes := 64, dc_partial_cap := 16\<rparr>) 512 = (cap, c')
    \<and> 512 dvd cap \<and> (cap \<le> 16 * 512 \<or> (2 ^ 32 - 16) * 512 \<le> cap)"
proof -
  let ?be = "instant_backend\<lparr>be_read := (\<lambda>c m. (True, (dc_side c)\<lparr>sd_partials := concat (replicate 3 (store_le32 (of_nat (dc_n_partials c))))\<rparr>))\<rparr>"
  let ?c = "zero_ctx\<lparr>dc_dev := zero_dev\<lparr>di_compute_units := 1\<rparr>, dc_lanes := 64, dc_partial_cap := 16\<rparr>"
  obtain cap c' where M: "measure_capacity ?be ?c 512 = (cap, c')" by (rule prod.exhaust)
  have n: "dc_n_partials (probe_place ?c 512) = 16"
    by (simp add: probe_place_def zero_dev_def round_up_def VB_DEV_PER_CU_def Let_def)
  let ?s = "\<lparr>pr_started = 16, pr_finished = 16, pr_most = 16, pr_at = replicate 16 P_Gone\<rparr>"
  have "probe_reach 16 16 8192 ?s" using probe_run_steps[OF sixteen_in] by (simp add: probe_reach_def)
  moreover have "probe_over ?s" by (simp add: probe_over_def)
  moreover have "take 12 (concat (replicate 3 (store_le32 (of_nat 16)))) = probe_counters ?s"
    by (simp add: probe_counters_def store_le32_def numeral_3_eq_3)
  ultimately have "probes ?be 16 (dc_n_partials (probe_place ?c 512))"
    unfolding n probes_def by (auto intro!: exI[of _ 8192] exI[of _ ?s])
  note mc = measured_capacity[OF M this, unfolded n]
  have "512 dvd cap \<and> (cap \<le> 16 * 512 \<or> (2 ^ 32 - 16) * 512 \<le> cap)" by (rule mc) simp
  then show ?thesis using M by blast
qed

text \<open>And such a difference can happen.  The device holds two of three groups.  Group 0 reads \<open>started\<close> when it
  is alone, then group 1 spins its reads out and leaves, group 2 comes and leaves, and group 0 reads
  \<open>finished\<close>, which is 2 by now: the maximum is 2 ^ 32 - 1, every group is counted in and out, and the
  host takes it.\<close>

lemma probe_overcounts:
  "\<exists>s. probe_reach 2 3 4 s \<and> probe_over s \<and> pr_started s = 3 \<and> pr_finished s = 3 \<and> pr_most s = 2 ^ 32 - 1"
proof -
  have "probe_run 2 3 4 ([0, 0] @ replicate 12 1 @ replicate 5 2 @ [0, 0, 0]) (probe_launch 3)
      = Some \<lparr>pr_started = 3, pr_finished = 3, pr_most = 2 ^ 32 - 1, pr_at = [P_Gone, P_Gone, P_Gone]\<rparr>"
    by code_simp
  from probe_run_steps[OF this] show ?thesis
    by (intro exI[of _ "\<lparr>pr_started = 3, pr_finished = 3, pr_most = 2 ^ 32 - 1, pr_at = [P_Gone, P_Gone, P_Gone]\<rparr>"])
      (simp add: probe_reach_def probe_over_def)
qed

end
