(* ===== verification/Device_Prims.thy ===== *)
theory Device_Prims
  imports Steer Vec_Ops
begin

text \<open>
  src/kernels/gpu/device_primitives.h: how rotate, choice and majority are spelled on a device.  A
  program is compiled with one spelling per primitive; the builtins and instructions the spellings
  end in belong to the compilers, so they are the fields of a record, and the locale
  \<open>device_builtins\<close> states what their manuals say of them.  Every spelling of a primitive is then the
  same function, which is why a steer can change the speed of a kernel and never its result.
\<close>

section \<open>Builtins and spellings\<close>

text \<open>OpenCL's \<open>rotate\<close> and \<open>bitselect\<close>, the PTX instructions \<open>shf.l.wrap\<close>, \<open>shf.r.wrap\<close> and \<open>lop3\<close>,
  and AMD's \<open>alignbit\<close>.\<close>

record builtins =
  bi_rotate32 :: "u32 \<Rightarrow> u32 \<Rightarrow> u32"
  bi_rotate64 :: "u64 \<Rightarrow> u64 \<Rightarrow> u64"
  bi_bitselect32 :: "u32 \<Rightarrow> u32 \<Rightarrow> u32 \<Rightarrow> u32"
  bi_bitselect64 :: "u64 \<Rightarrow> u64 \<Rightarrow> u64 \<Rightarrow> u64"
  bi_shf_l_wrap :: "u32 \<Rightarrow> u32 \<Rightarrow> u32 \<Rightarrow> u32"
  bi_shf_r_wrap :: "u32 \<Rightarrow> u32 \<Rightarrow> u32 \<Rightarrow> u32"
  bi_lop3 :: "u32 \<Rightarrow> u32 \<Rightarrow> u32 \<Rightarrow> u8 \<Rightarrow> u32"
  bi_alignbit :: "u32 \<Rightarrow> u32 \<Rightarrow> u32 \<Rightarrow> u32"

text \<open>The macros \<open>VB_STEER_*\<close>.  One that is not defined is plain.\<close>

record steering =
  sg_rotl32 :: spelling
  sg_rotr64 :: spelling
  sg_ch :: spelling
  sg_maj :: spelling

definition steering_of :: "(string \<times> spelling) list \<Rightarrow> steering" where
  "steering_of defs =
    (let sp = (\<lambda>name. case map_of defs name of None \<Rightarrow> SP_PLAIN | Some s \<Rightarrow> s)
     in \<lparr>sg_rotl32 = sp ''VB_STEER_ROTL32'', sg_rotr64 = sp ''VB_STEER_ROTR64'',
         sg_ch = sp ''VB_STEER_CH'', sg_maj = sp ''VB_STEER_MAJ''\<rparr>)"

text \<open>The \<open>#error\<close>: whether a program steered so compiles at all in a dialect.\<close>

definition steering_compiles :: "vb_dialect \<Rightarrow> steering \<Rightarrow> bool" where
  "steering_compiles d st \<longleftrightarrow> \<not> (d \<noteq> VB_DIALECT_OPENCL \<and>
     (sg_rotl32 st = SP_CLB \<or> sg_rotr64 st = SP_CLB \<or> sg_ch st = SP_CLB \<or> sg_maj st = SP_CLB))"

definition vb_rotl32_ptx :: "builtins \<Rightarrow> u32 \<Rightarrow> u32 \<Rightarrow> u32" where
  "vb_rotl32_ptx bi x n = bi_shf_l_wrap bi x x n"

text \<open>\<open>mov.b64\<close> takes a 64-bit register apart into its low and high half, and builds one.\<close>

definition vb_rotr64_ptx :: "builtins \<Rightarrow> u64 \<Rightarrow> u32 \<Rightarrow> u64" where
  "vb_rotr64_ptx bi x n =
    (let lo = ucast x; hi = ucast (drop_bit 32 x);
         (lo, hi, n) = (if 32 \<le> n then (hi, lo, n - 32) else (lo, hi, n));
         rlo = bi_shf_r_wrap bi lo hi n;
         rhi = bi_shf_r_wrap bi hi lo n
     in push_bit 32 (ucast rhi) OR ucast rlo)"

definition vb_lop3_0xca :: "builtins \<Rightarrow> u32 \<Rightarrow> u32 \<Rightarrow> u32 \<Rightarrow> u32" where
  "vb_lop3_0xca bi a b c = bi_lop3 bi a b c 0xca"

definition vb_lop3_0xe8 :: "builtins \<Rightarrow> u32 \<Rightarrow> u32 \<Rightarrow> u32 \<Rightarrow> u32" where
  "vb_lop3_0xe8 bi a b c = bi_lop3 bi a b c 0xe8"

definition vb_lop3_64_0xca :: "builtins \<Rightarrow> u64 \<Rightarrow> u64 \<Rightarrow> u64 \<Rightarrow> u64" where
  "vb_lop3_64_0xca bi a b c =
    push_bit 32 (ucast (vb_lop3_0xca bi (ucast (drop_bit 32 a)) (ucast (drop_bit 32 b)) (ucast (drop_bit 32 c))))
      OR ucast (vb_lop3_0xca bi (ucast a) (ucast b) (ucast c))"

definition vb_lop3_64_0xe8 :: "builtins \<Rightarrow> u64 \<Rightarrow> u64 \<Rightarrow> u64 \<Rightarrow> u64" where
  "vb_lop3_64_0xe8 bi a b c =
    push_bit 32 (ucast (vb_lop3_0xe8 bi (ucast (drop_bit 32 a)) (ucast (drop_bit 32 b)) (ucast (drop_bit 32 c))))
      OR ucast (vb_lop3_0xe8 bi (ucast a) (ucast b) (ucast c))"

definition vb_rotr64_amdgcn :: "builtins \<Rightarrow> u64 \<Rightarrow> u32 \<Rightarrow> u64" where
  "vb_rotr64_amdgcn bi x n =
    (let lo = ucast x; hi = ucast (drop_bit 32 x);
         (lo, hi, n) = (if 32 \<le> n then (hi, lo, n - 32) else (lo, hi, n));
         rlo = bi_alignbit bi hi lo n;
         rhi = bi_alignbit bi lo hi n
     in push_bit 32 (ucast rhi) OR ucast rlo)"


section \<open>The primitives the cores use\<close>

definition VB_ROTL32 :: "builtins \<Rightarrow> steering \<Rightarrow> u32 \<Rightarrow> nat \<Rightarrow> u32" where
  "VB_ROTL32 bi st x n =
    (case sg_rotl32 st of
       SP_CLB \<Rightarrow> bi_rotate32 bi x (of_nat n)
     | SP_PTX \<Rightarrow> vb_rotl32_ptx bi x (of_nat n)
     | SP_AMDGCN \<Rightarrow> bi_alignbit bi x x (32 - of_nat n)
     | SP_PLAIN \<Rightarrow> push_bit n x OR drop_bit (32 - n) x)"

definition VB_ROTR64 :: "builtins \<Rightarrow> steering \<Rightarrow> u64 \<Rightarrow> nat \<Rightarrow> u64" where
  "VB_ROTR64 bi st x n =
    (case sg_rotr64 st of
       SP_CLB \<Rightarrow> bi_rotate64 bi x (of_nat (64 - n))
     | SP_PTX \<Rightarrow> vb_rotr64_ptx bi x (of_nat n)
     | SP_AMDGCN \<Rightarrow> vb_rotr64_amdgcn bi x (of_nat n)
     | SP_PLAIN \<Rightarrow> drop_bit n x OR push_bit (64 - n) x)"

definition VB_CH32 :: "builtins \<Rightarrow> steering \<Rightarrow> u32 \<Rightarrow> u32 \<Rightarrow> u32 \<Rightarrow> u32" where
  "VB_CH32 bi st x y z =
    (if sg_ch st = SP_CLB then bi_bitselect32 bi z y x
     else if sg_ch st = SP_PTX then vb_lop3_0xca bi x y z
     else (x AND y) XOR (NOT x AND z))"

definition VB_CH64 :: "builtins \<Rightarrow> steering \<Rightarrow> u64 \<Rightarrow> u64 \<Rightarrow> u64 \<Rightarrow> u64" where
  "VB_CH64 bi st x y z =
    (if sg_ch st = SP_CLB then bi_bitselect64 bi z y x
     else if sg_ch st = SP_PTX then vb_lop3_64_0xca bi x y z
     else (x AND y) XOR (NOT x AND z))"

definition VB_MAJ32 :: "builtins \<Rightarrow> steering \<Rightarrow> u32 \<Rightarrow> u32 \<Rightarrow> u32 \<Rightarrow> u32" where
  "VB_MAJ32 bi st x y z =
    (if sg_maj st = SP_CLB then bi_bitselect32 bi x y (x XOR z)
     else if sg_maj st = SP_PTX then vb_lop3_0xe8 bi x y z
     else (x AND y) XOR (x AND z) XOR (y AND z))"

definition VB_MAJ64 :: "builtins \<Rightarrow> steering \<Rightarrow> u64 \<Rightarrow> u64 \<Rightarrow> u64 \<Rightarrow> u64" where
  "VB_MAJ64 bi st x y z =
    (if sg_maj st = SP_CLB then bi_bitselect64 bi x y (x XOR z)
     else if sg_maj st = SP_PTX then vb_lop3_64_0xe8 bi x y z
     else (x AND y) XOR (x AND z) XOR (y AND z))"


section \<open>What the manuals say\<close>

text \<open>The funnel shifts and \<open>alignbit\<close> shift a pair of words by the low five bits of the count.\<close>

definition word_pair :: "u32 \<Rightarrow> u32 \<Rightarrow> u64" where
  "word_pair hi lo = push_bit 32 (ucast hi) OR ucast lo"

locale device_builtins =
  fixes bi :: builtins
  assumes rotate32: "bi_rotate32 bi x n = word_rotl (unat n mod 32) x"
    and rotate64: "bi_rotate64 bi y m = word_rotl (unat m mod 64) y"
    and bitselect32: "bi_bitselect32 bi a b c = (a AND NOT c) OR (b AND c)"
    and bitselect64: "bi_bitselect64 bi d e f = (d AND NOT f) OR (e AND f)"
    and shf_l: "bi_shf_l_wrap bi a b n = ucast (drop_bit 32 (push_bit (unat n mod 32) (word_pair b a)))"
    and shf_r: "bi_shf_r_wrap bi a b n = ucast (drop_bit (unat n mod 32) (word_pair b a))"
    and lop3: "i < 32 \<Longrightarrow> bit (bi_lop3 bi a b c lut) i
      = bit lut (4 * of_bool (bit a i) + 2 * of_bool (bit b i) + of_bool (bit c i))"
    and alignbit: "bi_alignbit bi a b n = ucast (drop_bit (unat n mod 32) (word_pair a b))"
begin

end

text \<open>The bits of a rotation, and the rotations the builtins come to.\<close>

lemma bit_rotl32: "0 < n \<Longrightarrow> n < 32 \<Longrightarrow> i < 32 \<Longrightarrow> bit (rotl32 x n) i = bit x (if n \<le> i then i - n else 32 + i - n)"
  by (cases "n \<le> i") (auto simp: rotl32_def bit_simps dest: bit_imp_le_length)

lemma bit_rotr64: "0 < n \<Longrightarrow> n < 64 \<Longrightarrow> i < 64 \<Longrightarrow> bit (rotr64 x n) i = bit x (if i + n < 64 then i + n else i + n - 64)"
  by (cases "i + n < 64") (auto simp: rotr64_def bit_simps add.commute dest: bit_imp_le_length)

lemma word_rotl_32:
  assumes "0 < n" "n < 32"
  shows "word_rotl n (x :: u32) = rotl32 x n"
proof (rule bit_word_eqI)
  fix i assume "i < LENGTH(32)"
  moreover from this have "(i + (32 - n)) mod 32 = (if n \<le> i then i - n else 32 + i - n)"
    using assms by (auto simp: mod_if)
  ultimately show "bit (word_rotl n x) i = bit (rotl32 x n) i"
    using assms by (simp add: bit_rotl32 bit_word_rotl_iff)
qed

lemma word_rotl_64:
  assumes "0 < n" "n < 64"
  shows "word_rotl (64 - n) (x :: u64) = rotr64 x n"
proof (rule bit_word_eqI)
  fix i assume "i < LENGTH(64)"
  moreover from this have "(i + n) mod 64 = (if i + n < 64 then i + n else i + n - 64)"
    using assms by (auto simp: mod_if)
  ultimately show "bit (word_rotl (64 - n) x) i = bit (rotr64 x n) i"
    using assms by (simp add: bit_rotr64 bit_word_rotl_iff)
qed

lemma bit_word_pair: "bit (word_pair hi lo) i = (if i < 32 then bit lo i else bit hi (i - 32))"
  by (cases "i < 32") (auto simp: word_pair_def bit_simps dest: bit_imp_le_length)

lemma pair_rotl:
  "0 < n \<Longrightarrow> n < 32 \<Longrightarrow> (ucast (drop_bit 32 (push_bit n (word_pair x x))) :: u32) = rotl32 x n"
  by (rule bit_word_eqI) (auto simp: bit_rotl32 bit_word_pair bit_simps)

lemma pair_rotr:
  "0 < n \<Longrightarrow> n < 32 \<Longrightarrow> (ucast (drop_bit (32 - n) (word_pair x x)) :: u32) = rotl32 x n"
  by (rule bit_word_eqI) (auto simp: bit_rotl32 bit_word_pair bit_simps not_less)

text \<open>A rotation of 64 bits from two funnel shifts over the halves.\<close>

lemma pair_rotr64:
  assumes "0 < n" "n < 64"
    and "lo = (ucast x :: u32)" "hi = (ucast (drop_bit 32 x) :: u32)"
  shows "n < 32 \<Longrightarrow> word_pair (ucast (drop_bit n (word_pair lo hi))) (ucast (drop_bit n (word_pair hi lo))) = rotr64 x n"
    and "32 \<le> n \<Longrightarrow>
      word_pair (ucast (drop_bit (n - 32) (word_pair hi lo))) (ucast (drop_bit (n - 32) (word_pair lo hi))) = rotr64 x n"
proof -
  show "word_pair (ucast (drop_bit n (word_pair lo hi))) (ucast (drop_bit n (word_pair hi lo))) = rotr64 x n" if "n < 32"
    by (rule bit_word_eqI) (use assms that in \<open>auto simp: bit_rotr64 bit_word_pair bit_simps add.commute\<close>)
  show "word_pair (ucast (drop_bit (n - 32) (word_pair hi lo))) (ucast (drop_bit (n - 32) (word_pair lo hi))) = rotr64 x n" if "32 \<le> n"
    by (rule bit_word_eqI) (use assms that in \<open>auto simp: bit_rotr64 bit_word_pair bit_simps add.commute\<close>)
qed

lemma count_words:
  "n < 2 ^ 32 \<Longrightarrow> unat (of_nat n :: u32) = n" "n < 2 ^ 64 \<Longrightarrow> unat (of_nat n :: u64) = n"
  "n \<le> 32 \<Longrightarrow> unat (32 - of_nat n :: u32) = 32 - n" "32 \<le> n \<Longrightarrow> n < 2 ^ 32 \<Longrightarrow> unat (of_nat n - 32 :: u32) = n - 32"
  "n \<le> 64 \<Longrightarrow> unat (of_nat (64 - n) :: u64) = 64 - n"
proof -
  show a: "unat (of_nat n :: u32) = n" if "n < 2 ^ 32" for n using that by (simp add: unsigned_of_nat take_bit_nat_eq_self)
  show b: "unat (of_nat n :: u64) = n" if "n < 2 ^ 64" for n using that by (simp add: unsigned_of_nat take_bit_nat_eq_self)
  show "unat (32 - of_nat n :: u32) = 32 - n" if "n \<le> 32"
    using a[of "32 - n"] that by (simp add: of_nat_diff)
  show "unat (of_nat n - 32 :: u32) = n - 32" if "32 \<le> n" "n < 2 ^ 32"
    using a[of "n - 32"] that by (simp add: of_nat_diff)
  show "unat (of_nat (64 - n) :: u64) = 64 - n" if "n \<le> 64" by (rule b) (use that in simp)
qed

text \<open>The truth tables.\<close>

lemma lut_ca: "bit (0xca :: u8) (4 * of_bool p + 2 * of_bool q + of_bool r) = (if p then q else r)"
  by (cases p; cases q; cases r) simp_all

lemma lut_e8: "bit (0xe8 :: u8) (4 * of_bool p + 2 * of_bool q + of_bool r) = (p \<and> q \<or> p \<and> r \<or> q \<and> r)"
  by (cases p; cases q; cases r) simp_all

context device_builtins
begin

lemma rotl32_spelling:
  assumes "0 < n" "n < 32"
  shows "VB_ROTL32 bi st x n = rotl32 x n"
proof -
  have "unat (32 - of_nat n :: u32) = 32 - n" using count_words(3)[of n] assms by simp
  then show ?thesis
    using assms pair_rotl[of n x] pair_rotr[of n x] word_rotl_32[of n x] count_words(1)[of n]
    by (simp add: VB_ROTL32_def vb_rotl32_ptx_def rotate32 shf_l alignbit split: spelling.split)
      (simp add: rotl32_def)
qed

lemma halves:
  assumes "0 < n" "n < 64"
  shows "vb_rotr64_ptx bi x (of_nat n) = rotr64 x n" "vb_rotr64_amdgcn bi x (of_nat n) = rotr64 x n"
proof -
  have le: "32 \<le> (of_nat n :: u32) \<longleftrightarrow> 32 \<le> n" using assms count_words(1)[of n] by (simp add: word_le_nat_alt)
  have n: "unat (of_nat n :: u32) mod 32 = n" if "n < 32" using count_words(1)[of n] that by simp
  have m: "unat (of_nat n - 32 :: u32) mod 32 = n - 32" if "32 \<le> n" using count_words(4)[of n] that assms by simp
  note defs = vb_rotr64_ptx_def vb_rotr64_amdgcn_def le shf_r alignbit Let_def
  note P = pair_rotr64[OF assms refl refl, of x]
  have "vb_rotr64_ptx bi x (of_nat n) = rotr64 x n \<and> vb_rotr64_amdgcn bi x (of_nat n) = rotr64 x n"
  proof (cases "32 \<le> n")
    case True
    show ?thesis
      unfolding defs if_P[OF True] prod.case m[OF True] word_pair_def[symmetric] using P(2)[OF True] by blast
  next
    case False
    then have lt: "n < 32" by simp
    show ?thesis
      unfolding defs if_not_P[OF False] prod.case n[OF lt] word_pair_def[symmetric] using P(1)[OF lt] by blast
  qed
  then show "vb_rotr64_ptx bi x (of_nat n) = rotr64 x n" "vb_rotr64_amdgcn bi x (of_nat n) = rotr64 x n" by blast+
qed

lemma rotr64_spelling:
  assumes "0 < n" "n < 64"
  shows "VB_ROTR64 bi st x n = rotr64 x n"
  using assms word_rotl_64[of n x] count_words(5)[of n]
  by (simp add: VB_ROTR64_def halves rotate64 split: spelling.split) (simp add: rotr64_def)

lemma lop3_bits: "vb_lop3_0xca bi a b c = ch_word a b c" "vb_lop3_0xe8 bi a b c = maj_word a b c"
  by (rule bit_word_eqI, simp add: vb_lop3_0xca_def vb_lop3_0xe8_def lop3 lut_ca lut_e8 ch_word_def maj_word_def bit_simps,
      blast?)+

lemma lop3_halves: "vb_lop3_64_0xca bi a b c = ch_word a b c" "vb_lop3_64_0xe8 bi a b c = maj_word a b c"
  unfolding vb_lop3_64_0xca_def vb_lop3_64_0xe8_def lop3_bits
  by (rule bit_word_eqI, simp add: ch_word_def maj_word_def bit_simps bit_word_pair flip: word_pair_def; auto)+

lemma select_spelling:
  "VB_CH32 bi st x y z = ch_word x y z" "VB_CH64 bi st x' y' z' = ch_word x' y' z'"
  "VB_MAJ32 bi st x y z = maj_word x y z" "VB_MAJ64 bi st x' y' z' = maj_word x' y' z'"
  unfolding VB_CH32_def VB_CH64_def VB_MAJ32_def VB_MAJ64_def lop3_bits lop3_halves bitselect32 bitselect64
  by (rule bit_word_eqI, auto simp: ch_word_def maj_word_def bit_simps)+

end

text \<open>The manuals' functions, computed.\<close>

definition manual_builtins :: builtins where
  "manual_builtins = \<lparr>
     bi_rotate32 = (\<lambda>x n. word_rotl (unat n mod 32) x), bi_rotate64 = (\<lambda>x n. word_rotl (unat n mod 64) x),
     bi_bitselect32 = (\<lambda>a b c. (a AND NOT c) OR (b AND c)), bi_bitselect64 = (\<lambda>a b c. (a AND NOT c) OR (b AND c)),
     bi_shf_l_wrap = (\<lambda>a b n. ucast (drop_bit 32 (push_bit (unat n mod 32) (word_pair b a)))),
     bi_shf_r_wrap = (\<lambda>a b n. ucast (drop_bit (unat n mod 32) (word_pair b a))),
     bi_lop3 = (\<lambda>a b c lut. horner_sum of_bool 2
       (map (\<lambda>i. bit lut (4 * of_bool (bit a i) + 2 * of_bool (bit b i) + of_bool (bit c i))) [0..<32])),
     bi_alignbit = (\<lambda>a b n. ucast (drop_bit (unat n mod 32) (word_pair a b)))\<rparr>"

interpretation manual: device_builtins manual_builtins
  by unfold_locales (simp_all add: manual_builtins_def bit_horner_sum_bit_word_iff del: upt_Suc)

text \<open>Whatever a program is steered to, on builtins that do what their manuals say, every
  primitive is the function its plain spelling writes: the rotations for the counts a rotation by
  shifts is defined for, and choice and majority everywhere.  A steered kernel cannot compute
  anything else.\<close>

lemma spellings_agree:
  assumes "device_builtins bi"
  shows "(\<forall>n \<in> {0<..<32}. VB_ROTL32 bi st x n = push_bit n x OR drop_bit (32 - n) x)
    \<and> (\<forall>n \<in> {0<..<64}. VB_ROTR64 bi st y n = drop_bit n y OR push_bit (64 - n) y)
    \<and> VB_CH32 bi st a b c = (a AND b) XOR (NOT a AND c) \<and> VB_CH64 bi st d e f = (d AND e) XOR (NOT d AND f)
    \<and> VB_MAJ32 bi st a b c = (a AND b) XOR (a AND c) XOR (b AND c)
    \<and> VB_MAJ64 bi st d e f = (d AND e) XOR (d AND f) XOR (e AND f)"
  using device_builtins.rotl32_spelling[OF assms] device_builtins.rotr64_spelling[OF assms]
    device_builtins.select_spelling[OF assms]
  by (simp add: rotl32_def rotr64_def ch_word_def maj_word_def)

lemma spellings_agree_witness:
  "VB_ROTL32 manual_builtins (steering_of [(''VB_STEER_ROTL32'', SP_PTX)]) 0x80000001 7 = 0xc0
    \<and> VB_ROTR64 manual_builtins (steering_of [(''VB_STEER_ROTR64'', SP_AMDGCN)]) 1 41 = 0x800000
    \<and> VB_MAJ64 manual_builtins (steering_of [(''VB_STEER_MAJ'', SP_PTX)]) 12 10 9 = 8"
  using spellings_agree[OF manual.device_builtins_axioms, of "steering_of [(''VB_STEER_ROTL32'', SP_PTX)]" "0x80000001" 0 0 0 0 0 0 0]
    spellings_agree[OF manual.device_builtins_axioms, of "steering_of [(''VB_STEER_ROTR64'', SP_AMDGCN)]" 0 1 0 0 0 0 0 0]
    spellings_agree[OF manual.device_builtins_axioms, of "steering_of [(''VB_STEER_MAJ'', SP_PTX)]" 0 0 0 0 0 12 10 9]
  by simp

text \<open>What the steer table chooses compiles in the dialect it is chosen for.\<close>

lemma steered_compiles:
  "steering_compiles d (steering_of (zip (map snd PRIMITIVE) (steer_spellings v d)))"
  by (cases v; cases d)
    (simp_all add: steering_compiles_def steering_of_def PRIMITIVE_def steer_spellings_def STEER_TABLE_def)

end
