(* ===== verification/Device_Sweep.thy ===== *)
theory Device_Sweep
  imports Kernel_Contract
begin

text \<open>
  What the three cores of src/kernels/gpu share after their algorithm: how a launch cuts the corpus
  into work-items, sweeps it, and brings the digests of a work-group together in its scratch memory.
  The text is the same in md5_device_impl.h, sha1_device_impl.h and sha512_device_impl.h up to the
  number of digest words.

  Between two barriers the items of a work-group run in any order, and the groups of a launch run in
  any order, in waves.  Both orders are data of a launch here: \<open>le_sched\<close> lists, for each stretch
  between barriers, the word operations of all items in the order they happen, \<open>le_order\<close> the groups.
  What scratch memory and partials held before is data too.
\<close>

section \<open>The corpus\<close>

text \<open>A lane reads its words \<open>LANES\<close> apart from the slot on, its own number of words into it.\<close>

definition lane_reads :: "nat \<Rightarrow> 'w list \<Rightarrow> nat \<Rightarrow> nat \<Rightarrow> 'w list list \<Rightarrow> bool" where
  "lane_reads lanes corpus slot l bs \<longleftrightarrow> (\<exists>base. slot = base + l \<and> slot_reads lanes corpus base l bs)"

lemma lane_reads_word:
  assumes "lane_reads lanes corpus slot l bs" "b < length bs"
  shows "length (bs ! b) = 16" "j < 16 \<Longrightarrow> corpus ! (slot + b * (16 * lanes) + j * lanes) = bs ! b ! j"
proof -
  obtain base where base: "slot = base + l" "slot_reads lanes corpus base l bs" using assms(1) by (auto simp: lane_reads_def)
  then show "length (bs ! b) = 16" using assms(2) by (simp add: slot_reads_def)
  assume "j < 16"
  from slot_reads_word(2)[OF base(2) assms(2) this] show "corpus ! (slot + b * (16 * lanes) + j * lanes) = bs ! b ! j"
    by (simp add: base(1) ac_simps)
qed

lemma lane_reads_head:
  assumes "lane_reads lanes corpus slot l bs" "bs \<noteq> []" "n \<le> 16"
  shows "map (\<lambda>j. corpus ! (slot + j * lanes)) [0..<n] = take n (hd bs)"
  using lane_reads_word[OF assms(1), of 0] assms(2,3) by (auto simp: hd_conv_nth intro!: nth_equalityI)

lemma corpus_lane:
  assumes "corpus_holds corpus lanes blocks (n_groups * streams * lanes) W" "0 < blocks" "g < n_groups" "k < streams" "l < lanes"
  shows "lane_reads lanes corpus ((g * streams + k) * (blocks * 16 * lanes) + l) l (W ((g * streams + k) * lanes + l))"
    and "length (W ((g * streams + k) * lanes + l)) = blocks"
  using corpus_holds_slot[OF assms(1,2) group_slot[OF assms(3,4)] assms(5)] by (auto simp: lane_reads_def)


section \<open>One work-item\<close>

text \<open>The loop over groups, \<open>for (g = gid / LANES; g < n_groups; g += g_stride)\<close>.  With a stride of zero
  it never ends, which is the value \<open>None\<close>.\<close>

partial_function (option) sweep_groups ::
  "(nat \<Rightarrow> 'a \<Rightarrow> 'a) \<Rightarrow> nat \<Rightarrow> nat \<Rightarrow> nat \<Rightarrow> 'a \<Rightarrow> 'a option" where
  "sweep_groups body n_groups stride g acc =
    (if g < n_groups then sweep_groups body n_groups stride (g + stride) (body g acc) else Some acc)"

primrec sweep_repeats :: "(nat \<Rightarrow> 'a \<Rightarrow> 'a) \<Rightarrow> nat \<Rightarrow> nat \<Rightarrow> nat \<Rightarrow> nat \<Rightarrow> 'a \<Rightarrow> 'a option" where
  "sweep_repeats body n_groups stride first 0 acc = Some acc"
| "sweep_repeats body n_groups stride first (Suc r) acc =
    (case sweep_groups body n_groups stride first acc of
       None \<Rightarrow> None | Some acc \<Rightarrow> sweep_repeats body n_groups stride first r acc)"

lemma sweep_stuck: "g < n_groups \<Longrightarrow> sweep_groups body n_groups 0 g acc = None"
proof (rule ccontr)
  assume g: "g < n_groups" and "sweep_groups body n_groups 0 g acc \<noteq> None"
  then obtain y where "sweep_groups body n_groups 0 g acc = Some y" by auto
  then have "\<not> (0 = (0 :: nat) \<and> g < n_groups)"
  proof (rule sweep_groups.raw_induct[of "\<lambda>body n stride g acc y. \<not> (stride = 0 \<and> g < n)", rotated])
    fix sweep :: "(nat \<Rightarrow> 'a \<Rightarrow> 'a) \<Rightarrow> nat \<Rightarrow> nat \<Rightarrow> nat \<Rightarrow> 'a \<Rightarrow> 'a option" and body n stride g acc y
    assume "\<And>body n stride g acc y. sweep body n stride g acc = Some y \<Longrightarrow> \<not> (stride = 0 \<and> g < n)"
      and "(if g < n then sweep body n stride (g + stride) (body g acc) else Some acc) = Some y"
    then show "\<not> (stride = 0 \<and> g < n)" by (metis add_0_right)
  qed
  then show False using g by simp
qed

text \<open>\<open>body g lane\<close> hashes one group in one lane and XORs the digests into the accumulators.\<close>

definition work_item ::
  "(nat \<Rightarrow> nat \<Rightarrow> 'w::len word list \<Rightarrow> 'w word list) \<Rightarrow> nat \<Rightarrow> nat \<Rightarrow> nat \<Rightarrow> nat \<Rightarrow> nat \<Rightarrow> nat \<Rightarrow> 'w word list option" where
  "work_item body dw lanes n_groups repeats global gid =
    (let lane = gid mod lanes; g_stride = global div lanes
     in sweep_repeats (\<lambda>g. body g lane) n_groups g_stride (gid div lanes) repeats (replicate dw 0))"

text \<open>\<open>acc[j] ^= h[k][j]\<close> for the words of one digest.\<close>

definition dev_acc :: "nat \<Rightarrow> 'w::len word list \<Rightarrow> 'w word list \<Rightarrow> 'w word list" where
  "dev_acc dw h acc = map (\<lambda>j. acc ! j XOR h ! j) [0..<dw]"

lemma dev_acc_streams:
  assumes "length acc = dw"
  shows "fold (\<lambda>k. dev_acc dw (hs k)) ks acc = map (\<lambda>j. acc ! j XOR xor_over (\<lambda>k. hs k ! j) ks) [0..<dw]"
  using assms
proof (induction ks arbitrary: acc)
  case Nil
  then show ?case using map_nth[of acc] by simp
next
  case (Cons k ks)
  have "length (dev_acc dw (hs k) acc) = dw" by (simp add: dev_acc_def)
  from Cons.IH[OF this] show ?case by (simp add: dev_acc_def xor.assoc)
qed


section \<open>One work-group\<close>

definition store_acc :: "nat \<Rightarrow> 'w::len word list list \<Rightarrow> nat \<times> nat \<Rightarrow> 'w word list \<Rightarrow> 'w word list" where
  "store_acc dw accs x scratch = (case x of (lid, j) \<Rightarrow> scratch[lid * dw + j := accs ! lid ! j])"

definition reduce_word :: "nat \<Rightarrow> nat \<Rightarrow> nat \<times> nat \<Rightarrow> 'w::len word list \<Rightarrow> 'w word list" where
  "reduce_word dw s x scratch =
    (case x of (lid, j) \<Rightarrow>
      if lid < s then scratch[lid * dw + j := scratch ! (lid * dw + j) XOR scratch ! ((lid + s) * dw + j)]
      else scratch)"

text \<open>The loop \<open>for (s = local / 2; s > 0; s >>= 1)\<close>, a barrier after each round.\<close>

function reduce_from :: "nat \<Rightarrow> (nat \<Rightarrow> (nat \<times> nat) list) \<Rightarrow> nat \<Rightarrow> 'w::len word list \<Rightarrow> 'w word list" where
  "reduce_from dw sched s scratch =
    (if 0 < s then reduce_from dw sched (drop_bit 1 s) (fold (reduce_word dw s) (sched s) scratch) else scratch)"
  by auto
termination
  by (relation "measure (\<lambda>(dw, sched, s, scratch). s)") (auto simp: drop_bit_eq_div)

declare reduce_from.simps [simp del]

text \<open>The stretch before the first barrier is \<open>sched 0\<close>; the rounds have \<open>s\<close> positive.\<close>

definition work_group ::
  "(nat \<Rightarrow> 'w::len word list option) \<Rightarrow> nat \<Rightarrow> nat \<Rightarrow> (nat \<Rightarrow> (nat \<times> nat) list) \<Rightarrow> 'w word list \<Rightarrow> nat \<Rightarrow>
    'w word list option" where
  "work_group item dw local sched dirty w =
    (case those (map (\<lambda>lid. item (w * local + lid)) [0..<local]) of
       None \<Rightarrow> None
     | Some accs \<Rightarrow> Some (reduce_from dw sched (local div 2) (fold (store_acc dw accs) (sched 0) dirty)))"


section \<open>A launch\<close>

record 'w launch_env =
  le_order :: "nat list"
  le_sched :: "nat \<Rightarrow> nat \<Rightarrow> (nat \<times> nat) list"
  le_scratch :: "nat \<Rightarrow> 'w list"
  le_partials :: "'w list"

definition store_partial :: "nat \<Rightarrow> nat \<times> 'w list \<Rightarrow> 'w list \<Rightarrow> 'w list" where
  "store_partial dw x partials =
    (case x of (w, scratch) \<Rightarrow> fold (\<lambda>j partials. partials[w * dw + j := scratch ! j]) [0..<dw] partials)"

definition device_launch ::
  "('w::len word) launch_env \<Rightarrow> (nat \<Rightarrow> nat \<Rightarrow> 'w word list \<Rightarrow> 'w word list) \<Rightarrow> nat \<Rightarrow> nat \<Rightarrow> nat \<Rightarrow> nat \<Rightarrow> nat \<Rightarrow> nat \<Rightarrow>
    'w word list option" where
  "device_launch env body dw lanes n_groups repeats global local =
    (let item = work_item body dw lanes n_groups repeats global
     in case those (map (\<lambda>w. work_group item dw local (le_sched env w) (le_scratch env w) w) (le_order env)) of
          None \<Rightarrow> None
        | Some scratches \<Rightarrow> Some (fold (store_partial dw) (zip (le_order env) scratches) (le_partials env)))"

text \<open>An environment a device can provide: every item makes each of its steps once between two barriers,
  every group runs once, and the memories have the sizes the host allocated.\<close>

definition launch_env_ok :: "'w launch_env \<Rightarrow> nat \<Rightarrow> nat \<Rightarrow> nat \<Rightarrow> bool" where
  "launch_env_ok env dw global local \<longleftrightarrow>
     distinct (le_order env) \<and> set (le_order env) = {0..<global div local} \<and>
     (\<forall>w < global div local. length (le_scratch env w) = local * dw \<and>
        (\<forall>s. distinct (le_sched env w s) \<and> set (le_sched env w s) = {0..<local} \<times> {0..<dw})) \<and>
     global div local * dw \<le> length (le_partials env)"


section \<open>The sweep\<close>

text \<open>A body that XORs \<open>X g lane\<close> into the accumulators, as every core's does.\<close>

locale device_body =
  fixes body :: "nat \<Rightarrow> nat \<Rightarrow> 'w::len word list \<Rightarrow> 'w word list"
    and dw lanes n_groups :: nat
    and X :: "nat \<Rightarrow> nat \<Rightarrow> nat \<Rightarrow> 'w word"
  assumes body: "g < n_groups \<Longrightarrow> lane < lanes \<Longrightarrow> length acc = dw \<Longrightarrow>
      body g lane acc = map (\<lambda>j. acc ! j XOR X g lane j) [0..<dw]"

lemma visited_step:
  assumes "g < n" "0 < stride"
  shows "xor_over f (filter (\<lambda>x. g \<le> x \<and> x mod stride = g mod stride) [0..<n])
    = f g XOR xor_over f (filter (\<lambda>x. g + stride \<le> x \<and> x mod stride = (g + stride) mod stride) [0..<n])"
proof -
  let ?q = "filter (\<lambda>x. g + stride \<le> x \<and> x mod stride = (g + stride) mod stride) [0..<n]"
  have "g + stride \<le> x" if "g \<le> x" "x mod stride = g mod stride" "x \<noteq> g" for x
  proof -
    have "stride dvd x - g" using that mod_eq_dvd_iff_nat[of g x stride] by simp
    then have "stride \<le> x - g" using that by (intro dvd_imp_le) auto
    then show ?thesis using that by linarith
  qed
  then have "set (filter (\<lambda>x. g \<le> x \<and> x mod stride = g mod stride) [0..<n]) = set (g # ?q)"
    using assms by (auto simp: le_eq_less_or_eq)
  moreover have "distinct (g # ?q)" using assms by auto
  ultimately have "xor_over f (filter (\<lambda>x. g \<le> x \<and> x mod stride = g mod stride) [0..<n]) = xor_over f (g # ?q)"
    by (intro xor_over_set) simp_all
  then show ?thesis by simp
qed

lemma xor_over_residues:
  assumes "0 < stride"
  shows "xor_over (\<lambda>r. xor_over f (filter (\<lambda>x. x mod stride = r) [0..<n])) [0..<stride] = xor_over f [0..<n]"
proof (induction n)
  case (Suc n)
  have one: "xor_over (\<lambda>r. if r = k then a else 0) [0..<m] = (if k < m then a else 0)" for k m and a :: "'b::len word"
    by (induction m) auto
  have "xor_over f (filter (\<lambda>x. x mod stride = r) [0..<Suc n])
      = xor_over f (filter (\<lambda>x. x mod stride = r) [0..<n]) XOR (if r = n mod stride then f n else 0)" for r
    by simp
  then show ?case using Suc assms by (simp add: xor_over_xor one)
qed simp

context device_body
begin

lemma sweep:
  assumes "0 < stride" "lane < lanes" "length acc = dw"
  shows "\<exists>acc'. sweep_groups (\<lambda>g. body g lane) n_groups stride g acc = Some acc' \<and> length acc' = dw
    \<and> (\<forall>j < dw. acc' ! j = acc ! j XOR
        xor_over (\<lambda>x. X x lane j) (filter (\<lambda>x. g \<le> x \<and> x mod stride = g mod stride) [0..<n_groups]))"
  using assms(3)
proof (induction "n_groups - g" arbitrary: g acc rule: less_induct)
  case less
  show ?case
  proof (cases "g < n_groups")
    case True
    have b: "body g lane acc = map (\<lambda>j. acc ! j XOR X g lane j) [0..<dw]" by (rule body[OF True assms(2) less.prems])
    have "n_groups - (g + stride) < n_groups - g" using True assms(1) by simp
    from less.hyps[OF this, of "body g lane acc"] obtain acc' where acc':
      "sweep_groups (\<lambda>g. body g lane) n_groups stride (g + stride) (body g lane acc) = Some acc'" "length acc' = dw"
      "\<forall>j < dw. acc' ! j = body g lane acc ! j XOR
        xor_over (\<lambda>x. X x lane j) (filter (\<lambda>x. g + stride \<le> x \<and> x mod stride = (g + stride) mod stride) [0..<n_groups])"
      by (auto simp: b)
    then show ?thesis
      using True by (subst sweep_groups.simps) (simp add: visited_step[OF True assms(1)] b xor.assoc)
  next
    case False
    then have "filter (\<lambda>x. g \<le> x \<and> x mod stride = g mod stride) [0..<n_groups] = []" by (auto simp: filter_empty_conv)
    then show ?thesis using False less.prems by (subst sweep_groups.simps) simp
  qed
qed

lemma repeats:
  assumes "0 < stride" "lane < lanes" "length acc = dw" "first < stride"
  shows "\<exists>acc'. sweep_repeats (\<lambda>g. body g lane) n_groups stride first r acc = Some acc' \<and> length acc' = dw
    \<and> (\<forall>j < dw. acc' ! j = acc ! j XOR
        (if odd r then xor_over (\<lambda>x. X x lane j) (filter (\<lambda>x. x mod stride = first) [0..<n_groups]) else 0))"
  using assms(3)
proof (induction r arbitrary: acc)
  case (Suc r)
  have f: "filter (\<lambda>x. first \<le> x \<and> x mod stride = first mod stride) [0..<n_groups] = filter (\<lambda>x. x mod stride = first) [0..<n_groups]"
    using assms(4) by (intro filter_cong) (auto intro: order.trans[OF _ mod_less_eq_dividend])
  obtain a where a: "sweep_groups (\<lambda>g. body g lane) n_groups stride first acc = Some a" "length a = dw"
    "\<forall>j < dw. a ! j = acc ! j XOR xor_over (\<lambda>x. X x lane j) (filter (\<lambda>x. x mod stride = first) [0..<n_groups])"
    using sweep[OF assms(1,2) Suc.prems, of first] unfolding f by blast
  then show ?case using Suc.IH[OF a(2)] by (auto simp: xor.assoc)
qed simp

text \<open>What an item brings to its group, and all items of a launch together.\<close>

definition item_sum :: "nat \<Rightarrow> nat \<Rightarrow> nat \<Rightarrow> nat \<Rightarrow> 'w word" where
  "item_sum repeats stride gid j =
    (if odd repeats then xor_over (\<lambda>x. X x (gid mod lanes) j) (filter (\<lambda>x. x mod stride = gid div lanes) [0..<n_groups]) else 0)"

lemma item:
  assumes "lanes dvd global" "gid < global"
  shows "\<exists>acc. work_item body dw lanes n_groups repeats global gid = Some acc \<and> length acc = dw
    \<and> (\<forall>j < dw. acc ! j = item_sum repeats (global div lanes) gid j)"
proof -
  have "global div lanes * lanes = global" using assms(1) by simp
  moreover have lanes: "0 < lanes" using assms by (auto intro: Nat.gr0I)
  ultimately have "gid div lanes < global div lanes" using assms(2) by (simp add: less_mult_imp_div_less)
  then show ?thesis
    using repeats[of "global div lanes" "gid mod lanes" "replicate dw 0" "gid div lanes" repeats] lanes
    by (auto simp: work_item_def item_sum_def)
qed

lemma items_total:
  assumes "lanes dvd global" "odd repeats" "0 < global"
  shows "xor_over (\<lambda>gid. item_sum repeats (global div lanes) gid j) [0..<global]
    = xor_over (\<lambda>lane. xor_over (\<lambda>g. X g lane j) [0..<n_groups]) [0..<lanes]"
proof -
  let ?S = "global div lanes"
  have g: "?S * lanes = global" and S: "0 < ?S" using assms(1,3) by (auto elim: dvdE)
  have "xor_over (\<lambda>gid. item_sum repeats ?S gid j) [0..<global]
      = xor_over (\<lambda>r. xor_over (\<lambda>lane. item_sum repeats ?S (r * lanes + lane) j) [0..<lanes]) [0..<?S]"
    using xor_over_rows[of "\<lambda>gid. item_sum repeats ?S gid j" lanes ?S] by (simp only: g)
  also have "\<dots> = xor_over (\<lambda>r. xor_over (\<lambda>lane. xor_over (\<lambda>x. X x lane j) (filter (\<lambda>x. x mod ?S = r) [0..<n_groups])) [0..<lanes]) [0..<?S]"
    using assms(2) by (intro xor_over_cong) (simp add: item_sum_def)
  also have "\<dots> = xor_over (\<lambda>lane. xor_over (\<lambda>r. xor_over (\<lambda>x. X x lane j) (filter (\<lambda>x. x mod ?S = r) [0..<n_groups])) [0..<?S]) [0..<lanes]"
    by (rule xor_over_swap)
  finally show ?thesis by (simp only: xor_over_residues[OF S])
qed

end


section \<open>The reduction\<close>

lemma place_eq:
  assumes "j < dw" "j' < dw"
  shows "lid * dw + j = lid' * dw + j' \<longleftrightarrow> lid = lid' \<and> j = (j' :: nat)"
proof
  assume e: "lid * dw + j = lid' * dw + j'"
  have "(lid * dw + j) div dw = lid" "(lid' * dw + j') div dw = lid'" using assms by simp_all
  then show "lid = lid' \<and> j = j'" using e by auto
qed simp

lemma place_less: "lid < n \<Longrightarrow> j < dw \<Longrightarrow> lid * dw + j < n * (dw :: nat)"
  using mult_right_mono[of "lid + 1" n dw] by simp

lemma length_reduce_word [simp]: "length (reduce_word dw s x scratch) = length scratch"
  by (simp add: reduce_word_def split: prod.split)

lemma length_fold_reduce [simp]: "length (fold (reduce_word dw s) xs scratch) = length scratch"
  by (induction xs arbitrary: scratch) simp_all

text \<open>One word operation, then a round: whatever the order, each item below \<open>s\<close> has taken in the words of
  its partner, which nobody writes in that round.\<close>

lemma reduce_word_at:
  assumes "length scratch = n * dw" "fst x < n" "snd x < dw" "j < dw"
  shows "reduce_word dw s x scratch ! (lid * dw + j)
    = (if (lid, j) = x \<and> lid < s then scratch ! (lid * dw + j) XOR scratch ! ((lid + s) * dw + j) else scratch ! (lid * dw + j))"
proof -
  obtain a b where x: "x = (a, b)" by fastforce
  have "a * dw + b < length scratch" using assms place_less[of a n b dw] x by simp
  then show ?thesis using place_eq[of b dw j a lid] assms x by (auto simp: reduce_word_def)
qed

lemma reduce_round:
  assumes "distinct xs" "length scratch = n * dw" "set xs \<subseteq> {0..<n} \<times> {0..<dw}" "j < dw"
  shows "fold (reduce_word dw s) xs scratch ! (lid * dw + j)
    = (if (lid, j) \<in> set xs \<and> lid < s then scratch ! (lid * dw + j) XOR scratch ! ((lid + s) * dw + j) else scratch ! (lid * dw + j))"
  using assms(1-3)
proof (induction xs arbitrary: scratch)
  case (Cons x xs)
  have x: "fst x < n" "snd x < dw" using Cons.prems(3) by auto
  note at = reduce_word_at[OF Cons.prems(2) x assms(4), of s]
  have IH: "fold (reduce_word dw s) xs (reduce_word dw s x scratch) ! (lid * dw + j)
    = (if (lid, j) \<in> set xs \<and> lid < s
       then reduce_word dw s x scratch ! (lid * dw + j) XOR reduce_word dw s x scratch ! ((lid + s) * dw + j)
       else reduce_word dw s x scratch ! (lid * dw + j))"
    using Cons.prems by (intro Cons.IH) auto
  have "x \<notin> set xs" using Cons.prems(1) by simp
  then show ?case using IH by (auto simp: at)
qed simp

lemma reduce_total:
  assumes "length scratch = n * dw" "2 ^ k \<le> n" "j < dw"
    and sched: "\<And>s. distinct (sched s) \<and> set (sched s) = {0..<n} \<times> {0..<dw}"
  shows "reduce_from dw sched (2 ^ k div 2) scratch ! j = xor_over (\<lambda>lid. scratch ! (lid * dw + j)) [0..<2 ^ k]"
  using assms(1,2)
proof (induction k arbitrary: scratch)
  case 0
  then show ?case by (subst reduce_from.simps) simp
next
  case (Suc k)
  let ?r = "fold (reduce_word dw (2 ^ k)) (sched (2 ^ k)) scratch"
  have at: "?r ! (lid * dw + j) = scratch ! (lid * dw + j) XOR scratch ! ((2 ^ k + lid) * dw + j)" if "lid < 2 ^ k" for lid
    using reduce_round[of "sched (2 ^ k)" scratch n dw j "2 ^ k" lid] sched[of "2 ^ k"] Suc.prems assms(3) that
    by (simp add: add.commute)
  have "reduce_from dw sched (2 ^ Suc k div 2) scratch ! j = reduce_from dw sched (2 ^ k div 2) ?r ! j"
    by (subst reduce_from.simps) (simp add: drop_bit_eq_div)
  also have "\<dots> = xor_over (\<lambda>lid. ?r ! (lid * dw + j)) [0..<2 ^ k]"
    using Suc.prems by (intro Suc.IH) simp_all
  also have "\<dots> = xor_over (\<lambda>lid. scratch ! (lid * dw + j) XOR scratch ! ((2 ^ k + lid) * dw + j)) [0..<2 ^ k]"
    by (rule xor_over_cong) (simp add: at)
  also have "\<dots> = xor_over (\<lambda>lid. scratch ! (lid * dw + j)) [0..<2 ^ Suc k]"
    using xor_over_append_range[of "\<lambda>lid. scratch ! (lid * dw + j)" "2 ^ k" "2 ^ k"] by (simp add: xor_over_xor mult_2)
  finally show ?case .
qed

lemma length_reduce_from: "length (reduce_from dw sched s scratch) = length scratch"
  by (induction dw sched s scratch rule: reduce_from.induct) (subst reduce_from.simps, simp)

lemma stored_at:
  assumes "distinct xs" "length scratch = n * dw" "set xs \<subseteq> {0..<n} \<times> {0..<dw}" "j < dw" "(lid, j) \<in> set xs"
  shows "fold (store_acc dw accs) xs scratch ! (lid * dw + j) = accs ! lid ! j"
proof -
  let ?f = "\<lambda>x. fst x * dw + snd x"
  have inj: "inj_on ?f (set xs)"
  proof (rule inj_onI)
    fix x y assume x: "x \<in> set xs" and y: "y \<in> set xs" and e: "fst x * dw + snd x = fst y * dw + snd y"
    have "snd x < dw" "snd y < dw" using x y assms(3) by auto
    then show "x = y" using e place_eq[of "snd x" dw "snd y" "fst x" "fst y"] by (simp add: prod_eq_iff)
  qed
  have st: "store_acc dw accs = (\<lambda>x ws. ws[?f x := accs ! fst x ! snd x])"
    by (rule ext)+ (simp add: store_acc_def split: prod.split)
  have "?f (lid, j) < length scratch" using assms(2,3,5) place_less[of lid n j dw] by auto
  from fold_update_nth[OF assms(5) inj this, of "\<lambda>x. accs ! fst x ! snd x"] show ?thesis unfolding st by simp
qed

lemma length_stored [simp]: "length (fold (store_acc dw accs) xs scratch) = length scratch"
  by (induction xs arbitrary: scratch) (simp_all add: store_acc_def split_beta)

lemma those_map: "(\<And>x. x \<in> set xs \<Longrightarrow> f x = Some (g x)) \<Longrightarrow> those (map f xs) = Some (map g xs)"
  by (induction xs) simp_all

lemma group_total:
  assumes "local = 2 ^ k" "length dirty = local * dw"
    and sched: "\<And>s. distinct (sched s) \<and> set (sched s) = {0..<local} \<times> {0..<dw}"
    and item: "\<And>lid. lid < local \<Longrightarrow> item (w * local + lid) = Some (acc lid)"
  shows "\<exists>scratch. work_group item dw local sched dirty w = Some scratch
    \<and> (\<forall>j < dw. scratch ! j = xor_over (\<lambda>lid. acc lid ! j) [0..<local])"
proof -
  let ?st = "fold (store_acc dw (map acc [0..<local])) (sched 0) dirty"
  have items: "those (map (\<lambda>lid. item (w * local + lid)) [0..<local]) = Some (map acc [0..<local])"
    by (rule those_map) (simp add: item)
  have at: "?st ! (lid * dw + j) = acc lid ! j" if "lid < local" "j < dw" for lid j
    using stored_at[of "sched 0" dirty local dw j lid "map acc [0..<local]"] sched[of 0] assms(2) that by simp
  have "reduce_from dw sched (local div 2) ?st ! j = xor_over (\<lambda>lid. acc lid ! j) [0..<local]" if "j < dw" for j
  proof -
    have "reduce_from dw sched (local div 2) ?st ! j = xor_over (\<lambda>lid. ?st ! (lid * dw + j)) [0..<local]"
      using reduce_total[of ?st local dw k j sched] assms that by simp
    also have "\<dots> = xor_over (\<lambda>lid. acc lid ! j) [0..<local]" by (rule xor_over_cong) (simp add: at that)
    finally show ?thesis .
  qed
  then show ?thesis by (simp add: work_group_def items)
qed


section \<open>The launch\<close>

text \<open>The last stores: each group writes its own words of the partials.\<close>

lemma length_store_partial [simp]: "length (store_partial dw x partials) = length partials"
  by (simp add: store_partial_def split: prod.split)

lemma length_stored_partials [simp]: "length (fold (store_partial dw) xs partials) = length partials"
  by (induction xs arbitrary: partials) simp_all

lemma store_partial_at:
  assumes "j < dw" "w * dw + j < length partials" "length scratch \<ge> dw"
  shows "store_partial dw (v, scratch) partials ! (w * dw + j) = (if v = w then scratch ! j else partials ! (w * dw + j))"
proof (cases "v = w")
  case True
  have "inj_on (\<lambda>j. w * dw + j) (set [0..<dw])" by (simp add: inj_on_def)
  from fold_update_nth[OF _ this assms(2), of "\<lambda>j. scratch ! j"] show ?thesis
    using True assms(1) by (simp add: store_partial_def)
next
  case False
  then have "w * dw + j \<notin> (\<lambda>j. v * dw + j) ` set [0..<dw]" unfolding image_iff set_upt using place_eq[of j dw _ w v] assms(1) by (metis atLeastLessThan_iff)
  from fold_update_other[OF this, of "\<lambda>j. scratch ! j"] show ?thesis using False by (simp add: store_partial_def)
qed

lemma stored_partials:
  assumes "distinct (map fst xs)" "(w, scratch) \<in> set xs" "j < dw" "w * dw + j < length partials"
    and "\<And>x. x \<in> set xs \<Longrightarrow> dw \<le> length (snd x)"
  shows "fold (store_partial dw) xs partials ! (w * dw + j) = scratch ! j"
  using assms
proof (induction xs arbitrary: partials)
  case (Cons x xs)
  obtain v sc where x: "x = (v, sc)" by fastforce
  have keep: "w \<notin> fst ` set ys \<Longrightarrow> (\<And>x. x \<in> set ys \<Longrightarrow> dw \<le> length (snd x)) \<Longrightarrow> w * dw + j < length p \<Longrightarrow>
      fold (store_partial dw) ys p ! (w * dw + j) = p ! (w * dw + j)" for ys p
  proof (induction ys arbitrary: p)
    case (Cons y ys)
    then show ?case using store_partial_at[of j dw w p "snd y" "fst y"] assms(3) by auto
  qed simp
  show ?case
  proof (cases "v = w")
    case True
    then have "w \<notin> fst ` set xs" "scratch = sc" using Cons.prems(1,2) x by force+
    moreover have "\<And>y. y \<in> set xs \<Longrightarrow> dw \<le> length (snd y)" using Cons.prems(5) by simp
    ultimately show ?thesis
      using keep[of xs "store_partial dw x partials"] store_partial_at[of j dw w partials sc v] Cons.prems(3,4) Cons.prems(5)[of x] True x by simp
  next
    case False
    then show ?thesis using Cons x by auto
  qed
qed simp

context device_body
begin

text \<open>The partial digests of a launch XOR to what one sweep over all groups and lanes gives.\<close>

theorem launch_total:
  assumes env: "launch_env_ok env dw global local"
    and geo: "local = 2 ^ k" "local dvd global" "lanes dvd global" "0 < global" and odd: "odd repeats"
  shows "\<exists>partials. device_launch env body dw lanes n_groups repeats global local = Some partials
    \<and> length partials = length (le_partials env)
    \<and> (\<forall>j < dw. xor_over (\<lambda>w. partials ! (w * dw + j)) [0..<global div local]
        = xor_over (\<lambda>lane. xor_over (\<lambda>g. X g lane j) [0..<n_groups]) [0..<lanes])"
proof -
  let ?item = "work_item body dw lanes n_groups repeats global" and ?G = "global div local"
  let ?group = "\<lambda>w. work_group ?item dw local (le_sched env w) (le_scratch env w) w"
  let ?sum = "item_sum repeats (global div lanes)"
  have G: "?G * local = global" using geo(2) by simp
  have order: "distinct (le_order env)" "set (le_order env) = {0..<?G}" "?G * dw \<le> length (le_partials env)"
    using env by (simp_all add: launch_env_ok_def)
  have "\<exists>scratch. ?group w = Some scratch \<and> (\<forall>j < dw. scratch ! j = xor_over (\<lambda>lid. ?sum (w * local + lid) j) [0..<local])
      \<and> dw \<le> length scratch" if w: "w < ?G" for w
  proof -
    have gid: "w * local + lid < global" if "lid < local" for lid
      using that mult_right_mono[of "w + 1" ?G local] w G by simp
    define acc where "acc = (\<lambda>lid. the (?item (w * local + lid)))"
    have acc: "?item (w * local + lid) = Some (acc lid) \<and> (\<forall>j < dw. acc lid ! j = ?sum (w * local + lid) j)"
      if "lid < local" for lid
      using item[OF geo(3) gid[OF that], of repeats] by (auto simp: acc_def)
    have W: "length (le_scratch env w) = local * dw"
      "\<And>s. distinct (le_sched env w s) \<and> set (le_sched env w s) = {0..<local} \<times> {0..<dw}"
      using env w by (simp_all add: launch_env_ok_def)
    obtain scratch where sc: "?group w = Some scratch" "\<forall>j < dw. scratch ! j = xor_over (\<lambda>lid. acc lid ! j) [0..<local]"
      using group_total[OF geo(1) W(1), of "le_sched env w" ?item w acc] W(2) acc by blast
    have "xor_over (\<lambda>lid. acc lid ! j) [0..<local] = xor_over (\<lambda>lid. ?sum (w * local + lid) j) [0..<local]" if "j < dw" for j
      using acc that by (intro xor_over_cong) simp
    moreover have "length scratch = local * dw"
      using sc(1) W(1) by (auto simp: work_group_def length_reduce_from split: option.splits)
    moreover have "0 < local" using geo(1) by simp
    ultimately show ?thesis using sc by simp
  qed
  then obtain sc where sc: "\<And>w. w < ?G \<Longrightarrow> ?group w = Some (sc w)"
      "\<And>w j. w < ?G \<Longrightarrow> j < dw \<Longrightarrow> sc w ! j = xor_over (\<lambda>lid. ?sum (w * local + lid) j) [0..<local]"
      "\<And>w. w < ?G \<Longrightarrow> dw \<le> length (sc w)" by metis
  let ?pairs = "zip (le_order env) (map sc (le_order env))"
  let ?ps = "fold (store_partial dw) ?pairs (le_partials env)"
  have groups: "those (map ?group (le_order env)) = Some (map sc (le_order env))"
    by (rule those_map) (use order(2) sc(1) in auto)
  have pairs: "?pairs = map (\<lambda>w. (w, sc w)) (le_order env)" by (simp add: zip_map2 zip_same_conv_map)
  have at: "?ps ! (w * dw + j) = xor_over (\<lambda>lid. ?sum (w * local + lid) j) [0..<local]" if "w < ?G" "j < dw" for w j
  proof -
    have "w * dw + j < length (le_partials env)" using place_less[OF that] order(3) by linarith
    then have "?ps ! (w * dw + j) = sc w ! j"
      unfolding pairs using order(1,2) that sc(3)
      by (intro stored_partials) (auto simp: comp_def)
    then show ?thesis using sc(2) that by simp
  qed
  have "xor_over (\<lambda>w. ?ps ! (w * dw + j)) [0..<?G] = xor_over (\<lambda>lane. xor_over (\<lambda>g. X g lane j) [0..<n_groups]) [0..<lanes]"
    if "j < dw" for j
  proof -
    have "xor_over (\<lambda>w. ?ps ! (w * dw + j)) [0..<?G]
        = xor_over (\<lambda>w. xor_over (\<lambda>lid. ?sum (w * local + lid) j) [0..<local]) [0..<?G]"
      using that by (intro xor_over_cong) (simp add: at)
    also have "\<dots> = xor_over (\<lambda>gid. ?sum gid j) [0..<global]" 
      using xor_over_rows[of "\<lambda>gid. ?sum gid j" local ?G] by (simp only: G)
    finally show ?thesis using items_total[OF geo(3) odd geo(4)] by simp
  qed
  then show ?thesis by (simp add: device_launch_def groups)
qed

text \<open>With the digest of message \<open>m\<close> in stream \<open>k\<close> of its group and lane, the digests of all messages.\<close>

lemma launch_digests:
  assumes env: "launch_env_ok env dw global local"
    and geo: "local = 2 ^ k" "local dvd global" "lanes dvd global" "0 < global" and odd: "odd repeats"
    and D: "\<And>g k lane j. g < n_groups \<Longrightarrow> k < streams \<Longrightarrow> lane < lanes \<Longrightarrow> hs g lane k = D ((g * streams + k) * lanes + lane)"
    and X: "\<And>g lane j. X g lane j = xor_over (\<lambda>k. hs g lane k ! j) [0..<streams]"
  shows "\<exists>partials. device_launch env body dw lanes n_groups repeats global local = Some partials
    \<and> length partials = length (le_partials env)
    \<and> (\<forall>j < dw. xor_over (\<lambda>w. partials ! (w * dw + j)) [0..<global div local]
        = xor_over (\<lambda>m. D m ! j) [0..<n_groups * streams * lanes])"
proof -
  have "xor_over (\<lambda>lane. xor_over (\<lambda>g. X g lane j) [0..<n_groups]) [0..<lanes]
      = xor_over (\<lambda>lane. xor_over (\<lambda>g. xor_over (\<lambda>k. D ((g * streams + k) * lanes + lane) ! j) [0..<streams]) [0..<n_groups]) [0..<lanes]" for j
    unfolding X by (rule xor_over_cong, rule xor_over_cong, rule xor_over_cong) (simp add: D)
  then show ?thesis using launch_total[OF env geo odd] by (simp only: xor_over_lanes[of "\<lambda>m. D m ! j" for j])
qed

end

end
