(* ===== verification/Device_Md5.thy ===== *)
theory Device_Md5
  imports Kernel_Md5 Device_Prims Device_Sweep
begin

text \<open>
  src/kernels/gpu/md5_device_impl.h: the MD5 device kernel, for any spelling of the primitives.  A
  work-item is one lane of the CPU template: it reads its words \<open>LANES\<close> apart and holds scalars, the
  arrays over the streams are a list of records.  The capacity probe at the head of the kernel is in
  \<open>Device_Capacity\<close>.
\<close>

section \<open>The kernel\<close>

definition MD5D_PROGRAM :: "md5k_row list" where
  "MD5D_PROGRAM = [
    (RF, 0, 1, 2, 3, 0, 0, 7), (RF, 3, 0, 1, 2, 1, 1, 12),
    (RF, 2, 3, 0, 1, 2, 2, 17), (RF, 1, 2, 3, 0, 3, 3, 22),
    (RF, 0, 1, 2, 3, 4, 4, 7), (RF, 3, 0, 1, 2, 5, 5, 12),
    (RF, 2, 3, 0, 1, 6, 6, 17), (RF, 1, 2, 3, 0, 7, 7, 22),
    (RF, 0, 1, 2, 3, 8, 8, 7), (RF, 3, 0, 1, 2, 9, 9, 12),
    (RF, 2, 3, 0, 1, 10, 10, 17), (RF, 1, 2, 3, 0, 11, 11, 22),
    (RF, 0, 1, 2, 3, 12, 12, 7), (RF, 3, 0, 1, 2, 13, 13, 12),
    (RF, 2, 3, 0, 1, 14, 14, 17), (RF, 1, 2, 3, 0, 15, 15, 22),
    (RG, 0, 1, 2, 3, 1, 16, 5), (RG, 3, 0, 1, 2, 6, 17, 9),
    (RG, 2, 3, 0, 1, 11, 18, 14), (RG, 1, 2, 3, 0, 0, 19, 20),
    (RG, 0, 1, 2, 3, 5, 20, 5), (RG, 3, 0, 1, 2, 10, 21, 9),
    (RG, 2, 3, 0, 1, 15, 22, 14), (RG, 1, 2, 3, 0, 4, 23, 20),
    (RG, 0, 1, 2, 3, 9, 24, 5), (RG, 3, 0, 1, 2, 14, 25, 9),
    (RG, 2, 3, 0, 1, 3, 26, 14), (RG, 1, 2, 3, 0, 8, 27, 20),
    (RG, 0, 1, 2, 3, 13, 28, 5), (RG, 3, 0, 1, 2, 2, 29, 9),
    (RG, 2, 3, 0, 1, 7, 30, 14), (RG, 1, 2, 3, 0, 12, 31, 20),
    (RH, 0, 1, 2, 3, 5, 32, 4), (RH, 3, 0, 1, 2, 8, 33, 11),
    (RH, 2, 3, 0, 1, 11, 34, 16), (RH, 1, 2, 3, 0, 14, 35, 23),
    (RH, 0, 1, 2, 3, 1, 36, 4), (RH, 3, 0, 1, 2, 4, 37, 11),
    (RH, 2, 3, 0, 1, 7, 38, 16), (RH, 1, 2, 3, 0, 10, 39, 23),
    (RH, 0, 1, 2, 3, 13, 40, 4), (RH, 3, 0, 1, 2, 0, 41, 11),
    (RH, 2, 3, 0, 1, 3, 42, 16), (RH, 1, 2, 3, 0, 6, 43, 23),
    (RH, 0, 1, 2, 3, 9, 44, 4), (RH, 3, 0, 1, 2, 12, 45, 11),
    (RH, 2, 3, 0, 1, 15, 46, 16), (RH, 1, 2, 3, 0, 2, 47, 23),
    (RI, 0, 1, 2, 3, 0, 48, 6), (RI, 3, 0, 1, 2, 7, 49, 10),
    (RI, 2, 3, 0, 1, 14, 50, 15), (RI, 1, 2, 3, 0, 5, 51, 21),
    (RI, 0, 1, 2, 3, 12, 52, 6), (RI, 3, 0, 1, 2, 3, 53, 10),
    (RI, 2, 3, 0, 1, 10, 54, 15), (RI, 1, 2, 3, 0, 1, 55, 21),
    (RI, 0, 1, 2, 3, 8, 56, 6), (RI, 3, 0, 1, 2, 15, 57, 10),
    (RI, 2, 3, 0, 1, 6, 58, 15), (RI, 1, 2, 3, 0, 13, 59, 21),
    (RI, 0, 1, 2, 3, 4, 60, 6), (RI, 3, 0, 1, 2, 11, 61, 10),
    (RI, 2, 3, 0, 1, 2, 62, 15), (RI, 1, 2, 3, 0, 9, 63, 21)]"

definition MD5D_T :: "u32 list" where
  "MD5D_T = [
    0xd76aa478, 0xe8c7b756, 0x242070db, 0xc1bdceee,
    0xf57c0faf, 0x4787c62a, 0xa8304613, 0xfd469501,
    0x698098d8, 0x8b44f7af, 0xffff5bb1, 0x895cd7be,
    0x6b901122, 0xfd987193, 0xa679438e, 0x49b40821,
    0xf61e2562, 0xc040b340, 0x265e5a51, 0xe9b6c7aa,
    0xd62f105d, 0x02441453, 0xd8a1e681, 0xe7d3fbc8,
    0x21e1cde6, 0xc33707d6, 0xf4d50d87, 0x455a14ed,
    0xa9e3e905, 0xfcefa3f8, 0x676f02d9, 0x8d2a4c8a,
    0xfffa3942, 0x8771f681, 0x6d9d6122, 0xfde5380c,
    0xa4beea44, 0x4bdecfa9, 0xf6bb4b60, 0xbebfbc70,
    0x289b7ec6, 0xeaa127fa, 0xd4ef3085, 0x04881d05,
    0xd9d4d039, 0xe6db99e5, 0x1fa27cf8, 0xc4ac5665,
    0xf4292244, 0x432aff97, 0xab9423a7, 0xfc93a039,
    0x655b59c3, 0x8f0ccc92, 0xffeff47d, 0x85845dd1,
    0x6fa87e4f, 0xfe2ce6e0, 0xa3014314, 0x4e0811a1,
    0xf7537e82, 0xbd3af235, 0x2ad7d2bb, 0xeb86d391]"

record md5d_stream =
  dm_slot :: nat
  dm_wp :: nat
  dm_wv :: "u32 list"
  dm_h :: "u32 list"
  dm_r :: "u32 list"

definition md5d_fn :: "builtins \<Rightarrow> steering \<Rightarrow> md5_fn \<Rightarrow> u32 \<Rightarrow> u32 \<Rightarrow> u32 \<Rightarrow> u32" where
  "md5d_fn bi st f x y z =
    (case f of RF \<Rightarrow> VB_CH32 bi st x y z | RG \<Rightarrow> VB_CH32 bi st z x y
     | RH \<Rightarrow> x XOR y XOR z | RI \<Rightarrow> y XOR (x OR NOT z))"

definition MD5D_W :: "u32 list \<Rightarrow> nat \<Rightarrow> md5d_stream \<Rightarrow> nat \<Rightarrow> u32" where
  "MD5D_W corpus lanes s j = (if j < 4 then dm_wv s ! j else corpus ! (dm_wp s + j * lanes))"

definition MD5D_STEP :: "builtins \<Rightarrow> steering \<Rightarrow> u32 list \<Rightarrow> nat \<Rightarrow> md5k_row \<Rightarrow> md5d_stream \<Rightarrow> md5d_stream" where
  "MD5D_STEP bi st corpus lanes row s = (case row of (f, a, b, c, d, j, t, sh) \<Rightarrow>
    let r = dm_r s;
        r = r[a := r ! a + md5d_fn bi st f (r ! b) (r ! c) (r ! d) + MD5D_W corpus lanes s j + MD5D_T ! t];
        r = r[a := VB_ROTL32 bi st (r ! a) sh];
        r = r[a := r ! a + r ! b]
    in s\<lparr>dm_r := r\<rparr>)"

definition MD5D_LOAD_SLOT :: "u32 list \<Rightarrow> nat \<Rightarrow> nat \<Rightarrow> nat \<Rightarrow> nat \<Rightarrow> nat \<Rightarrow> nat \<Rightarrow> md5d_stream \<Rightarrow> md5d_stream" where
  "MD5D_LOAD_SLOT corpus lanes streams slot_words g lane k s =
    (let slot = (g * streams + k) * slot_words + lane
     in s\<lparr>dm_slot := slot, dm_wv := map (\<lambda>i. corpus ! (slot + i * lanes)) [0, 1, 2, 3]\<rparr>)"

definition MD5D_INIT_H :: "nat \<Rightarrow> md5d_stream \<Rightarrow> md5d_stream" where
  "MD5D_INIT_H k s = s\<lparr>dm_h := [0x67452301, 0xefcdab89, 0x98badcfe, 0x10325476]\<rparr>"

definition MD5D_START_BLOCK :: "u32 list \<Rightarrow> nat \<Rightarrow> nat \<Rightarrow> nat \<Rightarrow> md5d_stream \<Rightarrow> md5d_stream" where
  "MD5D_START_BLOCK corpus lanes b k s =
    (let block_words = 16 * lanes;
         s = s\<lparr>dm_wp := dm_slot s + b * block_words\<rparr>;
         s = (if 0 < b then s\<lparr>dm_wv := map (\<lambda>i. corpus ! (dm_wp s + i * lanes)) [0, 1, 2, 3]\<rparr> else s)
     in s\<lparr>dm_r := [dm_h s ! 0, dm_h s ! 1, dm_h s ! 2, dm_h s ! 3]\<rparr>)"

definition MD5D_CHAIN :: "nat \<Rightarrow> md5d_stream \<Rightarrow> md5d_stream" where
  "MD5D_CHAIN k s = s\<lparr>dm_h := map (\<lambda>i. dm_h s ! i + dm_r s ! i) [0, 1, 2, 3]\<rparr>"

definition MD5D_FEEDBACK :: "nat \<Rightarrow> md5d_stream \<Rightarrow> md5d_stream" where
  "MD5D_FEEDBACK k s = s\<lparr>dm_wv := map (\<lambda>i. dm_h s ! i) [0, 1, 2, 3]\<rparr>"

definition md5d_block ::
  "builtins \<Rightarrow> steering \<Rightarrow> u32 list \<Rightarrow> nat \<Rightarrow> nat \<Rightarrow> md5d_stream list \<Rightarrow> md5d_stream list" where
  "md5d_block bi st corpus lanes b ss =
    (let ss = foreach (MD5D_START_BLOCK corpus lanes b) ss;
         ss = fold (\<lambda>row. foreach (\<lambda>k. MD5D_STEP bi st corpus lanes row)) MD5D_PROGRAM ss
     in foreach MD5D_CHAIN ss)"

definition md5d_iteration ::
  "builtins \<Rightarrow> steering \<Rightarrow> u32 list \<Rightarrow> nat \<Rightarrow> nat \<Rightarrow> md5d_stream list \<Rightarrow> md5d_stream list" where
  "md5d_iteration bi st corpus lanes blocks ss =
    (let ss = foreach MD5D_INIT_H ss;
         ss = fold (md5d_block bi st corpus lanes) [0..<blocks] ss
     in foreach MD5D_FEEDBACK ss)"

text \<open>The body of the loop over groups; the arrays it declares hold anything at first.\<close>

definition md5d_group ::
  "builtins \<Rightarrow> steering \<Rightarrow> md5d_stream \<Rightarrow> u32 list \<Rightarrow> nat \<Rightarrow> nat \<Rightarrow> nat \<Rightarrow> nat \<Rightarrow> nat \<Rightarrow> nat \<Rightarrow> u32 list \<Rightarrow> u32 list" where
  "md5d_group bi st dirty corpus lanes streams blocks iterations g lane acc =
    (let slot_words = blocks * 16 * lanes;
         ss = foreach (MD5D_LOAD_SLOT corpus lanes streams slot_words g lane) (replicate streams dirty);
         ss = fold (\<lambda>it. md5d_iteration bi st corpus lanes blocks) [0..<iterations] ss
     in fold (\<lambda>k. dev_acc 4 (dm_h (ss ! k))) [0..<streams] acc)"

definition vb_md5 ::
  "u32 launch_env \<Rightarrow> builtins \<Rightarrow> steering \<Rightarrow> md5d_stream \<Rightarrow> u32 list \<Rightarrow> nat \<Rightarrow> nat \<Rightarrow> nat \<Rightarrow> nat \<Rightarrow> nat \<Rightarrow> nat \<Rightarrow> nat \<Rightarrow> nat \<Rightarrow>
    u32 list option" where
  "vb_md5 env bi st dirty corpus lanes streams blocks iterations n_groups repeats global local =
    device_launch env (md5d_group bi st dirty corpus lanes streams blocks iterations) 4 lanes n_groups repeats global local"


section \<open>One stream\<close>

text \<open>The device's rows and constants are those of the CPU template.\<close>

lemma md5d_program: "MD5D_PROGRAM = MD5K_PROGRAM"
  unfolding MD5D_PROGRAM_def MD5K_PROGRAM_def ..

lemma md5d_T: "MD5D_T = MD5_T"
  unfolding MD5D_T_def MD5_T_def ..

definition md5d_block1 :: "builtins \<Rightarrow> steering \<Rightarrow> u32 list \<Rightarrow> nat \<Rightarrow> nat \<Rightarrow> nat \<Rightarrow> md5d_stream \<Rightarrow> md5d_stream" where
  "md5d_block1 bi st corpus lanes b k s =
     MD5D_CHAIN k (fold (MD5D_STEP bi st corpus lanes) MD5D_PROGRAM (MD5D_START_BLOCK corpus lanes b k s))"

lemma md5d_iteration_streams:
  "md5d_iteration bi st corpus lanes blocks = foreach (\<lambda>k.
     stream_iteration (MD5D_INIT_H k) (\<lambda>b. md5d_block1 bi st corpus lanes b k) (MD5D_FEEDBACK k) blocks)"
proof -
  have "md5d_block bi st corpus lanes = (\<lambda>b. foreach (md5d_block1 bi st corpus lanes b))"
    by (rule ext)+ (simp add: md5d_block_def Let_def fold_foreach foreach_foreach md5d_block1_def[abs_def])
  then show ?thesis
    by (intro ext) (simp add: md5d_iteration_def Let_def fold_foreach foreach_foreach stream_iteration_def[abs_def])
qed

interpretation md5d: device_body "md5d_group bi st dirty corpus lanes streams blocks iterations" 4 lanes n_groups
  "\<lambda>g lane j. xor_over (\<lambda>k. dm_h (fold (\<lambda>it. md5d_iteration bi st corpus lanes blocks) [0..<iterations]
     (foreach (MD5D_LOAD_SLOT corpus lanes streams (blocks * 16 * lanes) g lane) (replicate streams dirty)) ! k) ! j) [0..<streams]"
  for bi st dirty corpus lanes streams blocks iterations n_groups
  by unfold_locales (simp add: md5d_group_def dev_acc_streams Let_def)

context device_builtins
begin

lemma md5d_fn_word: "md5d_fn bi st f x y z = md5_fn_word f x y z"
  by (cases f) (auto simp: md5d_fn_def select_spelling ch_word_def MD5_F_def MD5_G_def MD5_H_def MD5_I_def bit_simps intro!: bit_word_eqI)

lemma md5d_step:
  assumes r: "length (dm_r s) = 4" "rows_ok row" and w: "\<And>j. j < 16 \<Longrightarrow> MD5D_W corpus lanes s j = m ! j"
  shows "dm_r (MD5D_STEP bi st corpus lanes row s) = lane_row m row (dm_r s)"
    "dm_wv (MD5D_STEP bi st corpus lanes row s) = dm_wv s" "dm_wp (MD5D_STEP bi st corpus lanes row s) = dm_wp s"
    "dm_h (MD5D_STEP bi st corpus lanes row s) = dm_h s" "dm_slot (MD5D_STEP bi st corpus lanes row s) = dm_slot s"
  using r by (auto simp: MD5D_STEP_def rows_ok_def lane_row_def md5d_fn_word rotl32_spelling md5d_T w Let_def split: prod.splits)

lemma md5d_fold:
  assumes "length (dm_r s) = 4" "\<And>row. row \<in> set p \<Longrightarrow> rows_ok row" "\<And>j. j < 16 \<Longrightarrow> MD5D_W corpus lanes s j = m ! j"
  shows "dm_r (fold (MD5D_STEP bi st corpus lanes) p s) = fold (lane_row m) p (dm_r s)
    \<and> dm_h (fold (MD5D_STEP bi st corpus lanes) p s) = dm_h s \<and> dm_slot (fold (MD5D_STEP bi st corpus lanes) p s) = dm_slot s"
  using assms
proof (induction p arbitrary: s)
  case (Cons row p)
  note E = md5d_step[OF Cons.prems(1) _ Cons.prems(3), of row]
  have "MD5D_W corpus lanes (MD5D_STEP bi st corpus lanes row s) j = m ! j" if "j < 16" for j
    using Cons.prems(3)[OF that] by (simp add: MD5D_W_def E Cons.prems(2) split: if_splits)
  then show ?case using Cons.IH[of "MD5D_STEP bi st corpus lanes row s"] E Cons.prems by simp
qed simp

lemma md5d_block:
  assumes rd: "lane_reads lanes corpus (dm_slot s) l bs" and b: "b < length bs"
    and h: "length (dm_h s) = 4" and wv: "b = 0 \<Longrightarrow> length (dm_wv s) = 4"
  shows "dm_h (md5d_block1 bi st corpus lanes b k s)
      = md5_wc (dm_h s) (if b = 0 then put_at (bs ! 0) 0 (dm_wv s) else bs ! b)
    \<and> dm_slot (md5d_block1 bi st corpus lanes b k s) = dm_slot s"
proof -
  let ?m = "if b = 0 then put_at (bs ! 0) 0 (dm_wv s) else bs ! b"
  let ?s = "MD5D_START_BLOCK corpus lanes b k s"
  note mem = lane_reads_word[OF rd b]
  have w: "MD5D_W corpus lanes ?s j = ?m ! j" if j: "j < 16" for j
  proof (cases "j < 4")
    case True
    then have "j = 0 \<or> j = 1 \<or> j = 2 \<or> j = 3" by linarith
    then show ?thesis
      using mem(1) mem(2)[of j] j wv by (auto simp: MD5D_W_def MD5D_START_BLOCK_def Let_def nth_put_at)
  next
    case False
    then show ?thesis
      using mem(1) mem(2)[of j] j wv by (auto simp: MD5D_W_def MD5D_START_BLOCK_def Let_def nth_put_at)
  qed
  have r: "dm_r ?s = dm_h s" "dm_h ?s = dm_h s" "dm_slot ?s = dm_slot s"
    using list4_eq[OF h] by (simp_all add: MD5D_START_BLOCK_def Let_def)
  let ?f = "fold (MD5D_STEP bi st corpus lanes) MD5D_PROGRAM ?s"
  have f: "dm_r ?f = fold (lane_row ?m) MD5K_PROGRAM (dm_h s)" "dm_h ?f = dm_h s" "dm_slot ?f = dm_slot s"
    using md5d_fold[of ?s MD5D_PROGRAM corpus lanes ?m] w r h program_ok unfolding md5d_program by simp_all
  show ?thesis
    using f lane_program[OF h, of ?m] by (simp add: md5d_block1_def MD5D_CHAIN_def md5_wc_def split: prod.splits)
qed

end

sublocale device_builtins \<subseteq> md5_lanes: stream_kernel md5_wc MD5_IV 4 lanes
  "\<lambda>s. lane_reads lanes corpus (dm_slot s)" "\<lambda>l. dm_h" "\<lambda>l. dm_wv"
  "MD5D_INIT_H k" "\<lambda>b. md5d_block1 bi st corpus lanes b k" "MD5D_FEEDBACK k"
  for lanes :: nat and corpus :: "u32 list" and st :: steering and k :: nat
proof unfold_locales
  fix l b and s :: md5d_stream and bs
  assume rd: "lane_reads lanes corpus (dm_slot s) l bs"
  show "lane_reads lanes corpus (dm_slot (MD5D_INIT_H k s)) l bs \<and> dm_h (MD5D_INIT_H k s) = MD5_IV
    \<and> dm_wv (MD5D_INIT_H k s) = dm_wv s"
    using rd by (simp add: MD5D_INIT_H_def MD5_IV_def)
  assume h: "length (dm_h s) = 4"
  show "lane_reads lanes corpus (dm_slot (MD5D_FEEDBACK k s)) l bs \<and> dm_h (MD5D_FEEDBACK k s) = dm_h s
    \<and> dm_wv (MD5D_FEEDBACK k s) = dm_h s"
    using rd list4_eq[OF h] by (simp add: MD5D_FEEDBACK_def)
  assume b: "b < length bs" and f: "b = 0 \<Longrightarrow> length (dm_wv s) = 4"
  show "lane_reads lanes corpus (dm_slot (md5d_block1 bi st corpus lanes b k s)) l bs
    \<and> dm_h (md5d_block1 bi st corpus lanes b k s) = md5_wc (dm_h s) (if b = 0 then put_at (bs ! 0) 0 (dm_wv s) else bs ! b)"
    using md5d_block[OF rd b h f] rd by simp
qed (simp_all add: lane_reads_word md5_wc_def MD5_IV_def Let_def split_beta)

context device_builtins
begin

text \<open>A launch over a corpus in its layout.\<close>

lemma vb_md5_digests:
  assumes H: "corpus_holds corpus lanes blocks (n_groups * streams * lanes) W"
    and it: "0 < iterations" and b: "0 < blocks"
    and env: "launch_env_ok env 4 global local"
    and geo: "local = 2 ^ p" "local dvd global" "lanes dvd global" "0 < global" and odd: "odd repeats"
  shows "\<exists>partials. vb_md5 env bi st dirty corpus lanes streams blocks iterations n_groups repeats global local = Some partials
    \<and> length partials = length (le_partials env)
    \<and> (\<forall>j < 4. xor_over (\<lambda>w. partials ! (w * 4 + j)) [0..<global div local]
        = xor_over (\<lambda>m. word_digest md5_wc MD5_IV (W m) iterations ! j) [0..<n_groups * streams * lanes])"
  unfolding vb_md5_def
proof (rule md5d.launch_digests[OF env geo odd])
  fix g k lane assume g: "g < n_groups" and k: "k < streams" and l: "lane < lanes"
  let ?bs = "W ((g * streams + k) * lanes + lane)"
  let ?t = "MD5D_LOAD_SLOT corpus lanes streams (blocks * 16 * lanes) g lane k dirty"
  note R = corpus_lane[OF H b g k l]
  have bs: "?bs \<noteq> []" using R(2) b by auto
  have "dm_wv ?t = map (\<lambda>i. corpus ! ((g * streams + k) * (blocks * 16 * lanes) + lane + i * lanes)) [0..<4]"
    by (simp add: MD5D_LOAD_SLOT_def Let_def upt_rec add.commute)
  then have t: "dm_slot ?t = (g * streams + k) * (blocks * 16 * lanes) + lane" "dm_wv ?t = take 4 (hd ?bs)"
    using lane_reads_head[OF R(1) bs, of 4] by (simp_all add: MD5D_LOAD_SLOT_def Let_def)
  have "length (take 4 (hd ?bs)) = 4" using lane_reads_word(1)[OF R(1), of 0] bs by (simp add: hd_conv_nth)
  then show "dm_h (fold (\<lambda>it. md5d_iteration bi st corpus lanes blocks) [0..<iterations]
      (foreach (MD5D_LOAD_SLOT corpus lanes streams (blocks * 16 * lanes) g lane) (replicate streams dirty)) ! k)
    = word_digest md5_wc MD5_IV ?bs iterations"
    using md5_lanes.iterations_lane[of lane lanes corpus ?t ?bs k st iterations] R t l bs it k
    by (simp add: md5d_iteration_streams nth_fold_foreach)
qed simp

end

end
