(* ===== verification/Device_Sha1.thy ===== *)
theory Device_Sha1
  imports Kernel_Sha1 Device_Prims Device_Sweep
begin

text \<open>
  src/kernels/gpu/sha1_device_impl.h: the SHA-1 device kernel; conventions as in \<open>Device_Md5\<close>.  The
  registers are not moved between steps: each line names them in another order.  Read in that order
  they are the registers of the CPU template.
\<close>

section \<open>The kernel\<close>

text \<open>\<open>EXPAND(t)\<close>, or a line \<open>EACH(f, a, b, c, d, e, t, K[i])\<close> with the registers A to E numbered.\<close>

datatype s1d_op = D1Expand nat | D1Step s1k_fn "nat \<times> nat \<times> nat \<times> nat \<times> nat" nat nat

definition S1D_PROGRAM :: "s1d_op list" where
  "S1D_PROGRAM = [
    D1Step S1CH (0, 1, 2, 3, 4) 0 0, D1Step S1CH (4, 0, 1, 2, 3) 1 0, D1Step S1CH (3, 4, 0, 1, 2) 2 0, D1Step S1CH (2, 3, 4, 0, 1) 3 0,
    D1Step S1CH (1, 2, 3, 4, 0) 4 0, D1Step S1CH (0, 1, 2, 3, 4) 5 0, D1Step S1CH (4, 0, 1, 2, 3) 6 0, D1Step S1CH (3, 4, 0, 1, 2) 7 0,
    D1Step S1CH (2, 3, 4, 0, 1) 8 0, D1Step S1CH (1, 2, 3, 4, 0) 9 0, D1Step S1CH (0, 1, 2, 3, 4) 10 0, D1Step S1CH (4, 0, 1, 2, 3) 11 0,
    D1Step S1CH (3, 4, 0, 1, 2) 12 0, D1Step S1CH (2, 3, 4, 0, 1) 13 0, D1Step S1CH (1, 2, 3, 4, 0) 14 0, D1Step S1CH (0, 1, 2, 3, 4) 15 0,
    D1Expand 16, D1Step S1CH (4, 0, 1, 2, 3) 16 0, D1Expand 17, D1Step S1CH (3, 4, 0, 1, 2) 17 0,
    D1Expand 18, D1Step S1CH (2, 3, 4, 0, 1) 18 0, D1Expand 19, D1Step S1CH (1, 2, 3, 4, 0) 19 0,
    D1Expand 20, D1Step S1PAR (0, 1, 2, 3, 4) 20 1, D1Expand 21, D1Step S1PAR (4, 0, 1, 2, 3) 21 1,
    D1Expand 22, D1Step S1PAR (3, 4, 0, 1, 2) 22 1, D1Expand 23, D1Step S1PAR (2, 3, 4, 0, 1) 23 1,
    D1Expand 24, D1Step S1PAR (1, 2, 3, 4, 0) 24 1, D1Expand 25, D1Step S1PAR (0, 1, 2, 3, 4) 25 1,
    D1Expand 26, D1Step S1PAR (4, 0, 1, 2, 3) 26 1, D1Expand 27, D1Step S1PAR (3, 4, 0, 1, 2) 27 1,
    D1Expand 28, D1Step S1PAR (2, 3, 4, 0, 1) 28 1, D1Expand 29, D1Step S1PAR (1, 2, 3, 4, 0) 29 1,
    D1Expand 30, D1Step S1PAR (0, 1, 2, 3, 4) 30 1, D1Expand 31, D1Step S1PAR (4, 0, 1, 2, 3) 31 1,
    D1Expand 32, D1Step S1PAR (3, 4, 0, 1, 2) 32 1, D1Expand 33, D1Step S1PAR (2, 3, 4, 0, 1) 33 1,
    D1Expand 34, D1Step S1PAR (1, 2, 3, 4, 0) 34 1, D1Expand 35, D1Step S1PAR (0, 1, 2, 3, 4) 35 1,
    D1Expand 36, D1Step S1PAR (4, 0, 1, 2, 3) 36 1, D1Expand 37, D1Step S1PAR (3, 4, 0, 1, 2) 37 1,
    D1Expand 38, D1Step S1PAR (2, 3, 4, 0, 1) 38 1, D1Expand 39, D1Step S1PAR (1, 2, 3, 4, 0) 39 1,
    D1Expand 40, D1Step S1MAJ (0, 1, 2, 3, 4) 40 2, D1Expand 41, D1Step S1MAJ (4, 0, 1, 2, 3) 41 2,
    D1Expand 42, D1Step S1MAJ (3, 4, 0, 1, 2) 42 2, D1Expand 43, D1Step S1MAJ (2, 3, 4, 0, 1) 43 2,
    D1Expand 44, D1Step S1MAJ (1, 2, 3, 4, 0) 44 2, D1Expand 45, D1Step S1MAJ (0, 1, 2, 3, 4) 45 2,
    D1Expand 46, D1Step S1MAJ (4, 0, 1, 2, 3) 46 2, D1Expand 47, D1Step S1MAJ (3, 4, 0, 1, 2) 47 2,
    D1Expand 48, D1Step S1MAJ (2, 3, 4, 0, 1) 48 2, D1Expand 49, D1Step S1MAJ (1, 2, 3, 4, 0) 49 2,
    D1Expand 50, D1Step S1MAJ (0, 1, 2, 3, 4) 50 2, D1Expand 51, D1Step S1MAJ (4, 0, 1, 2, 3) 51 2,
    D1Expand 52, D1Step S1MAJ (3, 4, 0, 1, 2) 52 2, D1Expand 53, D1Step S1MAJ (2, 3, 4, 0, 1) 53 2,
    D1Expand 54, D1Step S1MAJ (1, 2, 3, 4, 0) 54 2, D1Expand 55, D1Step S1MAJ (0, 1, 2, 3, 4) 55 2,
    D1Expand 56, D1Step S1MAJ (4, 0, 1, 2, 3) 56 2, D1Expand 57, D1Step S1MAJ (3, 4, 0, 1, 2) 57 2,
    D1Expand 58, D1Step S1MAJ (2, 3, 4, 0, 1) 58 2, D1Expand 59, D1Step S1MAJ (1, 2, 3, 4, 0) 59 2,
    D1Expand 60, D1Step S1PAR (0, 1, 2, 3, 4) 60 3, D1Expand 61, D1Step S1PAR (4, 0, 1, 2, 3) 61 3,
    D1Expand 62, D1Step S1PAR (3, 4, 0, 1, 2) 62 3, D1Expand 63, D1Step S1PAR (2, 3, 4, 0, 1) 63 3,
    D1Expand 64, D1Step S1PAR (1, 2, 3, 4, 0) 64 3, D1Expand 65, D1Step S1PAR (0, 1, 2, 3, 4) 65 3,
    D1Expand 66, D1Step S1PAR (4, 0, 1, 2, 3) 66 3, D1Expand 67, D1Step S1PAR (3, 4, 0, 1, 2) 67 3,
    D1Expand 68, D1Step S1PAR (2, 3, 4, 0, 1) 68 3, D1Expand 69, D1Step S1PAR (1, 2, 3, 4, 0) 69 3,
    D1Expand 70, D1Step S1PAR (0, 1, 2, 3, 4) 70 3, D1Expand 71, D1Step S1PAR (4, 0, 1, 2, 3) 71 3,
    D1Expand 72, D1Step S1PAR (3, 4, 0, 1, 2) 72 3, D1Expand 73, D1Step S1PAR (2, 3, 4, 0, 1) 73 3,
    D1Expand 74, D1Step S1PAR (1, 2, 3, 4, 0) 74 3, D1Expand 75, D1Step S1PAR (0, 1, 2, 3, 4) 75 3,
    D1Expand 76, D1Step S1PAR (4, 0, 1, 2, 3) 76 3, D1Expand 77, D1Step S1PAR (3, 4, 0, 1, 2) 77 3,
    D1Expand 78, D1Step S1PAR (2, 3, 4, 0, 1) 78 3, D1Expand 79, D1Step S1PAR (1, 2, 3, 4, 0) 79 3]"

definition S1D_K :: "u32 list" where
  "S1D_K = [0x5a827999, 0x6ed9eba1, 0x8f1bbcdc, 0xca62c1d6]"

record s1d_stream =
  ds_slot :: nat
  ds_w :: "u32 list"
  ds_fb :: "u32 list"
  ds_h :: "u32 list"
  ds_r :: "u32 list"

definition s1d_f :: "builtins \<Rightarrow> steering \<Rightarrow> s1k_fn \<Rightarrow> u32 \<Rightarrow> u32 \<Rightarrow> u32 \<Rightarrow> u32" where
  "s1d_f bi st f x y z =
    (case f of S1CH \<Rightarrow> VB_CH32 bi st x y z | S1PAR \<Rightarrow> x XOR y XOR z | S1MAJ \<Rightarrow> VB_MAJ32 bi st x y z)"

definition S1D_STEP ::
  "builtins \<Rightarrow> steering \<Rightarrow> s1k_fn \<Rightarrow> nat \<times> nat \<times> nat \<times> nat \<times> nat \<Rightarrow> nat \<Rightarrow> nat \<Rightarrow> s1d_stream \<Rightarrow> s1d_stream" where
  "S1D_STEP bi st f regs t kc s = (case regs of (a, b, c, d, e) \<Rightarrow>
    let r = ds_r s;
        r = r[e := r ! e + (VB_ROTL32 bi st (r ! a) 5 + s1d_f bi st f (r ! b) (r ! c) (r ! d) + S1D_K ! kc + ds_w s ! (t AND 15))];
        r = r[b := VB_ROTL32 bi st (r ! b) 30]
    in s\<lparr>ds_r := r\<rparr>)"

definition S1D_EXP1 :: "builtins \<Rightarrow> steering \<Rightarrow> nat \<Rightarrow> s1d_stream \<Rightarrow> s1d_stream" where
  "S1D_EXP1 bi st t s =
    (let w = ds_w s
     in s\<lparr>ds_w := w[t AND 15 := VB_ROTL32 bi st (w ! ((t - 3) AND 15) XOR w ! ((t - 8) AND 15) XOR
          w ! ((t - 14) AND 15) XOR w ! ((t - 16) AND 15)) 1]\<rparr>)"

definition s1d_exec :: "builtins \<Rightarrow> steering \<Rightarrow> s1d_op \<Rightarrow> s1d_stream \<Rightarrow> s1d_stream" where
  "s1d_exec bi st op = (case op of D1Expand t \<Rightarrow> S1D_EXP1 bi st t | D1Step f regs t kc \<Rightarrow> S1D_STEP bi st f regs t kc)"

definition S1D_LOAD_SLOT :: "u32 list \<Rightarrow> nat \<Rightarrow> nat \<Rightarrow> nat \<Rightarrow> nat \<Rightarrow> nat \<Rightarrow> nat \<Rightarrow> s1d_stream \<Rightarrow> s1d_stream" where
  "S1D_LOAD_SLOT corpus lanes streams slot_words g lane k s =
    (let slot = (g * streams + k) * slot_words + lane
     in s\<lparr>ds_slot := slot, ds_fb := map (\<lambda>j. corpus ! (slot + j * lanes)) [0..<5]\<rparr>)"

definition S1D_INIT_H :: "nat \<Rightarrow> s1d_stream \<Rightarrow> s1d_stream" where
  "S1D_INIT_H k s = s\<lparr>ds_h := [0x67452301, 0xefcdab89, 0x98badcfe, 0x10325476, 0xc3d2e1f0]\<rparr>"

definition S1D_START_BLOCK :: "u32 list \<Rightarrow> nat \<Rightarrow> nat \<Rightarrow> nat \<Rightarrow> s1d_stream \<Rightarrow> s1d_stream" where
  "S1D_START_BLOCK corpus lanes b k s =
    (let block_words = 16 * lanes;
         wp = ds_slot s + b * block_words;
         w = map (\<lambda>j. corpus ! (wp + j * lanes)) [0..<16];
         w = (if b = 0 then fold (\<lambda>j w. w[j := ds_fb s ! j]) [0..<5] w else w)
     in s\<lparr>ds_w := w, ds_r := map (\<lambda>j. ds_h s ! j) [0..<5]\<rparr>)"

definition S1D_CHAIN :: "nat \<Rightarrow> s1d_stream \<Rightarrow> s1d_stream" where
  "S1D_CHAIN k s = s\<lparr>ds_h := map (\<lambda>j. ds_h s ! j + ds_r s ! j) [0..<5]\<rparr>"

definition S1D_FEEDBACK :: "nat \<Rightarrow> s1d_stream \<Rightarrow> s1d_stream" where
  "S1D_FEEDBACK k s = s\<lparr>ds_fb := map (\<lambda>j. ds_h s ! j) [0..<5]\<rparr>"

definition s1d_block ::
  "builtins \<Rightarrow> steering \<Rightarrow> u32 list \<Rightarrow> nat \<Rightarrow> nat \<Rightarrow> s1d_stream list \<Rightarrow> s1d_stream list" where
  "s1d_block bi st corpus lanes b ss =
    (let ss = foreach (S1D_START_BLOCK corpus lanes b) ss;
         ss = fold (\<lambda>op. foreach (\<lambda>k. s1d_exec bi st op)) S1D_PROGRAM ss
     in foreach S1D_CHAIN ss)"

definition s1d_iteration ::
  "builtins \<Rightarrow> steering \<Rightarrow> u32 list \<Rightarrow> nat \<Rightarrow> nat \<Rightarrow> s1d_stream list \<Rightarrow> s1d_stream list" where
  "s1d_iteration bi st corpus lanes blocks ss =
    (let ss = foreach S1D_INIT_H ss;
         ss = fold (s1d_block bi st corpus lanes) [0..<blocks] ss
     in foreach S1D_FEEDBACK ss)"

definition s1d_group ::
  "builtins \<Rightarrow> steering \<Rightarrow> s1d_stream \<Rightarrow> u32 list \<Rightarrow> nat \<Rightarrow> nat \<Rightarrow> nat \<Rightarrow> nat \<Rightarrow> nat \<Rightarrow> nat \<Rightarrow> u32 list \<Rightarrow> u32 list" where
  "s1d_group bi st dirty corpus lanes streams blocks iterations g lane acc =
    (let slot_words = blocks * 16 * lanes;
         ss = foreach (S1D_LOAD_SLOT corpus lanes streams slot_words g lane) (replicate streams dirty);
         ss = fold (\<lambda>it. s1d_iteration bi st corpus lanes blocks) [0..<iterations] ss
     in fold (\<lambda>k. dev_acc 5 (ds_h (ss ! k))) [0..<streams] acc)"

definition vb_sha1 ::
  "u32 launch_env \<Rightarrow> builtins \<Rightarrow> steering \<Rightarrow> s1d_stream \<Rightarrow> u32 list \<Rightarrow> nat \<Rightarrow> nat \<Rightarrow> nat \<Rightarrow> nat \<Rightarrow> nat \<Rightarrow> nat \<Rightarrow> nat \<Rightarrow> nat \<Rightarrow>
    u32 list option" where
  "vb_sha1 env bi st dirty corpus lanes streams blocks iterations n_groups repeats global local =
    device_launch env (s1d_group bi st dirty corpus lanes streams blocks iterations) 5 lanes n_groups repeats global local"


section \<open>The renamed registers\<close>

definition s1d_view :: "nat \<Rightarrow> u32 list \<Rightarrow> u32 list" where
  "s1d_view t R = map (\<lambda>i. R ! ((i + 4 * t) mod 5)) [0..<5]"

definition s1d_regs :: "nat \<Rightarrow> nat \<times> nat \<times> nat \<times> nat \<times> nat" where
  "s1d_regs t = (4 * t mod 5, (1 + 4 * t) mod 5, (2 + 4 * t) mod 5, (3 + 4 * t) mod 5, (4 + 4 * t) mod 5)"

definition s1d_row :: "nat \<Rightarrow> s1d_op list" where
  "s1d_row t = (if t < 16 then [] else [D1Expand t]) @
     [D1Step ([S1CH, S1PAR, S1MAJ, S1PAR] ! (t div 20)) (s1d_regs t) t (t div 20)]"

lemma s1d_program: "S1D_PROGRAM = concat (map s1d_row [0..<80])"
  by (simp add: S1D_PROGRAM_def s1d_row_def s1d_regs_def upt_rec)

lemma s1d_K: "S1D_K = SHA1_K"
  unfolding S1D_K_def SHA1_K_def ..

lemma s1d_view_full: "length R = 5 \<Longrightarrow> t mod 5 = 0 \<Longrightarrow> s1d_view t R = R"
proof -
  assume R: "length R = 5" and t: "t mod 5 = 0"
  have "(i + 4 * t) mod 5 = i" if "i < 5" for i
    using t that by (metis add.right_neutral mod_add_right_eq mod_less mod_mult_right_eq mult_0_right)
  then show ?thesis using R by (intro nth_equalityI) (simp_all add: s1d_view_def)
qed

definition s1d_block1 :: "builtins \<Rightarrow> steering \<Rightarrow> u32 list \<Rightarrow> nat \<Rightarrow> nat \<Rightarrow> nat \<Rightarrow> s1d_stream \<Rightarrow> s1d_stream" where
  "s1d_block1 bi st corpus lanes b k s =
     S1D_CHAIN k (fold (s1d_exec bi st) S1D_PROGRAM (S1D_START_BLOCK corpus lanes b k s))"

lemma s1d_iteration_streams:
  "s1d_iteration bi st corpus lanes blocks = foreach (\<lambda>k.
     stream_iteration (S1D_INIT_H k) (\<lambda>b. s1d_block1 bi st corpus lanes b k) (S1D_FEEDBACK k) blocks)"
proof -
  have "s1d_block bi st corpus lanes = (\<lambda>b. foreach (s1d_block1 bi st corpus lanes b))"
    by (rule ext)+ (simp add: s1d_block_def Let_def fold_foreach foreach_foreach s1d_block1_def[abs_def])
  then show ?thesis
    by (intro ext) (simp add: s1d_iteration_def Let_def fold_foreach foreach_foreach stream_iteration_def[abs_def])
qed

interpretation s1d: device_body "s1d_group bi st dirty corpus lanes streams blocks iterations" 5 lanes n_groups
  "\<lambda>g lane j. xor_over (\<lambda>k. ds_h (fold (\<lambda>it. s1d_iteration bi st corpus lanes blocks) [0..<iterations]
     (foreach (S1D_LOAD_SLOT corpus lanes streams (blocks * 16 * lanes) g lane) (replicate streams dirty)) ! k) ! j) [0..<streams]"
  for bi st dirty corpus lanes streams blocks iterations n_groups
  by unfold_locales (simp add: s1d_group_def dev_acc_streams Let_def)


section \<open>One stream\<close>

context device_builtins
begin

lemma s1d_f_word: "s1d_f bi st f x y z = s1k_f_word f x y z"
  by (cases f) (simp_all add: s1d_f_def select_spelling xor.assoc)

lemma s1d_step_view:
  assumes "length (ds_r s) = 5"
  shows "s1d_view (Suc t) (ds_r (S1D_STEP bi st f (s1d_regs t) t kc s))
    = s1k_step_word f kc (ds_w s ! (t AND 15)) (s1d_view t (ds_r s))"
proof -
  have M: "(i + 4 * t) mod 5 = (i + 4 * (t mod 5)) mod 5" for i by (metis mod_add_right_eq mod_mult_right_eq)
  have M': "4 * t mod 5 = 4 * (t mod 5) mod 5" by (simp add: mod_mult_right_eq)
  have S: "(i + 4 * Suc t) mod 5 = (i + 4 + 4 * (t mod 5)) mod 5" for i using M[of "i + 4"] by (simp add: algebra_simps)
  obtain a b c d e where R: "ds_r s = [a, b, c, d, e]" using assms by (auto simp: eval_nat_numeral length_Suc_conv)
  have "t mod 5 = 0 \<or> t mod 5 = 1 \<or> t mod 5 = 2 \<or> t mod 5 = 3 \<or> t mod 5 = 4" by linarith
  then show ?thesis
    unfolding s1d_view_def s1d_regs_def S1D_STEP_def s1k_step_word_def M M' S
    by (elim disjE) (simp_all add: R upt_5 s1d_f_word rotl32_spelling s1d_K ac_simps)
qed

lemma s1d_row_word:
  assumes "length (ds_r s) = 5"
  shows "(ds_w (fold (s1d_exec bi st) (s1d_row t) s), s1d_view (Suc t) (ds_r (fold (s1d_exec bi st) (s1d_row t) s)))
      = fold s1k_exec_word (s1k_row t) (ds_w s, s1d_view t (ds_r s))
    \<and> length (ds_r (fold (s1d_exec bi st) (s1d_row t) s)) = 5
    \<and> ds_h (fold (s1d_exec bi st) (s1d_row t) s) = ds_h s \<and> ds_slot (fold (s1d_exec bi st) (s1d_row t) s) = ds_slot s"
proof -
  have E: "ds_w (S1D_EXP1 bi st t s) = expand_in_place sha1_ex t (ds_w s)" "ds_r (S1D_EXP1 bi st t s) = ds_r s"
    "ds_h (S1D_EXP1 bi st t s) = ds_h s" "ds_slot (S1D_EXP1 bi st t s) = ds_slot s" for s
    by (simp_all add: S1D_EXP1_def expand_in_place_def sha1_ex_def rotl32_spelling Let_def)
  have S: "length (ds_r (S1D_STEP bi st f regs t kc s)) = length (ds_r s)" "ds_w (S1D_STEP bi st f regs t kc s) = ds_w s"
    "ds_h (S1D_STEP bi st f regs t kc s) = ds_h s" "ds_slot (S1D_STEP bi st f regs t kc s) = ds_slot s" for f regs kc s
    by (simp_all add: S1D_STEP_def Let_def split: prod.split)
  show ?thesis
    using assms by (simp add: s1d_row_def s1k_row_def s1d_exec_def s1k_exec_word_def E S s1d_step_view)
qed

lemma s1d_rows_word:
  assumes "length (ds_r s) = 5"
  shows "(ds_w (fold (s1d_exec bi st) (concat (map s1d_row [0..<n])) s),
       s1d_view n (ds_r (fold (s1d_exec bi st) (concat (map s1d_row [0..<n])) s)))
      = fold s1k_exec_word (concat (map s1k_row [0..<n])) (ds_w s, ds_r s)
    \<and> length (ds_r (fold (s1d_exec bi st) (concat (map s1d_row [0..<n])) s)) = 5
    \<and> ds_h (fold (s1d_exec bi st) (concat (map s1d_row [0..<n])) s) = ds_h s
    \<and> ds_slot (fold (s1d_exec bi st) (concat (map s1d_row [0..<n])) s) = ds_slot s"
proof (induction n)
  case 0
  then show ?case using assms by (simp add: s1d_view_full)
next
  case (Suc n)
  let ?t = "fold (s1d_exec bi st) (concat (map s1d_row [0..<n])) s"
  have cc: "concat (map f [0..<Suc n]) = concat (map f [0..<n]) @ f n" for f :: "nat \<Rightarrow> 'x list" by simp
  have "length (ds_r ?t) = 5" using Suc by blast
  from s1d_row_word[OF this, of st n] Suc show ?case unfolding cc fold_append comp_apply by simp
qed

lemma s1d_block:
  assumes rd: "lane_reads lanes corpus (ds_slot s) l bs" and b: "b < length bs"
    and h: "length (ds_h s) = 5" and fb: "b = 0 \<Longrightarrow> length (ds_fb s) = 5"
  shows "ds_h (s1d_block1 bi st corpus lanes b k s)
      = sha1_wc (ds_h s) (if b = 0 then put_at (bs ! 0) 0 (ds_fb s) else bs ! b)
    \<and> ds_slot (s1d_block1 bi st corpus lanes b k s) = ds_slot s"
proof -
  let ?m = "if b = 0 then put_at (bs ! 0) 0 (ds_fb s) else bs ! b"
  let ?t = "S1D_START_BLOCK corpus lanes b k s"
  note mem = lane_reads_word[OF rd b]
  have t: "ds_w ?t = ?m" "length ?m = 16"
    using mem fb
    by (auto simp: S1D_START_BLOCK_def Let_def fold_set_head map_nth_upt nth_put_at intro!: nth_equalityI simp del: upt_Suc)
  have r: "ds_r ?t = ds_h s" "ds_h ?t = ds_h s" "ds_slot ?t = ds_slot s"
    using h map_nth[of "ds_h s"] by (simp_all add: S1D_START_BLOCK_def Let_def del: upt_Suc)
  let ?f = "fold (s1d_exec bi st) S1D_PROGRAM ?t"
  let ?H = "ds_h s"
  let ?regs = "(?H ! 0, ?H ! 1, ?H ! 2, ?H ! 3, ?H ! 4)"
  have H5: "?H = list_of_regs5 ?regs" using h list5_eq[of ?H] by (simp add: list_of_regs5_def)
  have "length (ds_r ?t) = 5" using r h by simp
  note P = s1d_rows_word[OF this, of st 80, folded s1d_program s1k_program_rows]
  have F: "ds_h ?f = ds_h s" "ds_slot ?f = ds_slot s" using P[THEN conjunct2, THEN conjunct2] r(2,3) by (simp_all only: simp_thms)
  have "s1d_view 80 (ds_r ?f) = snd (fold s1k_exec_word S1K_PROGRAM (?m, ?H))"
    using arg_cong[OF P[THEN conjunct1], of snd] by (simp only: snd_conv r(1) t(1))
  also have "\<dots> = list_of_regs5 (sha1_loop (sha1_schedule ?m) ?regs)"
    using s1k_lane_program[OF t(2), of ?regs, folded H5] .
  finally have R: "ds_r ?f = list_of_regs5 (sha1_loop (sha1_schedule ?m) ?regs)"
    using P[THEN conjunct2, THEN conjunct1] s1d_view_full[of "ds_r ?f" 80] by (simp only: mod_self) simp
  obtain a' b' c' d' e' where loop: "sha1_loop (sha1_schedule ?m) ?regs = (a', b', c', d', e')" by (metis prod_cases5)
  have "ds_h (s1d_block1 bi st corpus lanes b k s) = map (\<lambda>j. ?H ! j + ds_r ?f ! j) [0..<5]"
    "ds_slot (s1d_block1 bi st corpus lanes b k s) = ds_slot s"
    by (simp_all add: s1d_block1_def S1D_CHAIN_def F del: upt_Suc)
  then show ?thesis
    unfolding R sha1_wc_def loop by (simp add: upt_5 list_of_regs5_def)
qed

end

sublocale device_builtins \<subseteq> sha1_lanes: stream_kernel sha1_wc SHA1_IV 5 lanes
  "\<lambda>s. lane_reads lanes corpus (ds_slot s)" "\<lambda>l. ds_h" "\<lambda>l. ds_fb"
  "S1D_INIT_H k" "\<lambda>b. s1d_block1 bi st corpus lanes b k" "S1D_FEEDBACK k"
  for lanes :: nat and corpus :: "u32 list" and st :: steering and k :: nat
proof unfold_locales
  fix l b and s :: s1d_stream and bs
  assume rd: "lane_reads lanes corpus (ds_slot s) l bs"
  show "lane_reads lanes corpus (ds_slot (S1D_INIT_H k s)) l bs \<and> ds_h (S1D_INIT_H k s) = SHA1_IV
    \<and> ds_fb (S1D_INIT_H k s) = ds_fb s"
    using rd by (simp add: S1D_INIT_H_def SHA1_IV_def)
  assume h: "length (ds_h s) = 5"
  show "lane_reads lanes corpus (ds_slot (S1D_FEEDBACK k s)) l bs \<and> ds_h (S1D_FEEDBACK k s) = ds_h s
    \<and> ds_fb (S1D_FEEDBACK k s) = ds_h s"
    using rd h map_nth[of "ds_h s"] by (simp add: S1D_FEEDBACK_def del: upt_Suc)
  assume b: "b < length bs" and f: "b = 0 \<Longrightarrow> length (ds_fb s) = 5"
  show "lane_reads lanes corpus (ds_slot (s1d_block1 bi st corpus lanes b k s)) l bs
    \<and> ds_h (s1d_block1 bi st corpus lanes b k s) = sha1_wc (ds_h s) (if b = 0 then put_at (bs ! 0) 0 (ds_fb s) else bs ! b)"
    using s1d_block[OF rd b h f] rd by simp
qed (simp_all add: lane_reads_word sha1_wc_def SHA1_IV_def Let_def split_beta)

context device_builtins
begin

lemma vb_sha1_digests:
  assumes H: "corpus_holds corpus lanes blocks (n_groups * streams * lanes) W"
    and it: "0 < iterations" and b: "0 < blocks"
    and env: "launch_env_ok env 5 global local"
    and geo: "local = 2 ^ p" "local dvd global" "lanes dvd global" "0 < global" and odd: "odd repeats"
  shows "\<exists>partials. vb_sha1 env bi st dirty corpus lanes streams blocks iterations n_groups repeats global local = Some partials
    \<and> length partials = length (le_partials env)
    \<and> (\<forall>j < 5. xor_over (\<lambda>w. partials ! (w * 5 + j)) [0..<global div local]
        = xor_over (\<lambda>m. word_digest sha1_wc SHA1_IV (W m) iterations ! j) [0..<n_groups * streams * lanes])"
  unfolding vb_sha1_def
proof (rule s1d.launch_digests[OF env geo odd])
  fix g k lane assume g: "g < n_groups" and k: "k < streams" and l: "lane < lanes"
  let ?bs = "W ((g * streams + k) * lanes + lane)"
  let ?t = "S1D_LOAD_SLOT corpus lanes streams (blocks * 16 * lanes) g lane k dirty"
  note R = corpus_lane[OF H b g k l]
  have bs: "?bs \<noteq> []" using R(2) b by auto
  have t: "ds_slot ?t = (g * streams + k) * (blocks * 16 * lanes) + lane" "ds_fb ?t = take 5 (hd ?bs)"
    using lane_reads_head[OF R(1) bs, of 5] by (simp_all add: S1D_LOAD_SLOT_def Let_def)
  have "length (take 5 (hd ?bs)) = 5" using lane_reads_word(1)[OF R(1), of 0] bs by (simp add: hd_conv_nth)
  then show "ds_h (fold (\<lambda>it. s1d_iteration bi st corpus lanes blocks) [0..<iterations]
      (foreach (S1D_LOAD_SLOT corpus lanes streams (blocks * 16 * lanes) g lane) (replicate streams dirty)) ! k)
    = word_digest sha1_wc SHA1_IV ?bs iterations"
    using sha1_lanes.iterations_lane[of lane lanes corpus ?t ?bs k st iterations] R t l bs it k
    by (simp add: s1d_iteration_streams nth_fold_foreach)
qed simp

end

end
