(* ===== verification/Device_Sha512.thy ===== *)
theory Device_Sha512
  imports Kernel_Sha512 Device_Prims Device_Sweep
begin

text \<open>
  src/kernels/gpu/sha512_device_impl.h: the SHA-512 device kernel; conventions as in \<open>Device_Md5\<close>.  The
  registers are not moved between steps: each line names them in another order.  Read in that order
  they are the registers of the CPU template.
\<close>

section \<open>The kernel\<close>

text \<open>\<open>EXPAND(t)\<close>, or a line \<open>EACH(a, b, c, d, e, f, g, h, t, K[i])\<close> with the registers A to H numbered.\<close>

datatype s5d_op = D5Expand nat | D5Step "nat \<times> nat \<times> nat \<times> nat \<times> nat \<times> nat \<times> nat \<times> nat" nat nat

definition S5D_PROGRAM :: "s5d_op list" where
  "S5D_PROGRAM = [
    D5Step (0, 1, 2, 3, 4, 5, 6, 7) 0 0, D5Step (7, 0, 1, 2, 3, 4, 5, 6) 1 1, D5Step (6, 7, 0, 1, 2, 3, 4, 5) 2 2,
    D5Step (5, 6, 7, 0, 1, 2, 3, 4) 3 3, D5Step (4, 5, 6, 7, 0, 1, 2, 3) 4 4, D5Step (3, 4, 5, 6, 7, 0, 1, 2) 5 5,
    D5Step (2, 3, 4, 5, 6, 7, 0, 1) 6 6, D5Step (1, 2, 3, 4, 5, 6, 7, 0) 7 7, D5Step (0, 1, 2, 3, 4, 5, 6, 7) 8 8,
    D5Step (7, 0, 1, 2, 3, 4, 5, 6) 9 9, D5Step (6, 7, 0, 1, 2, 3, 4, 5) 10 10, D5Step (5, 6, 7, 0, 1, 2, 3, 4) 11 11,
    D5Step (4, 5, 6, 7, 0, 1, 2, 3) 12 12, D5Step (3, 4, 5, 6, 7, 0, 1, 2) 13 13, D5Step (2, 3, 4, 5, 6, 7, 0, 1) 14 14,
    D5Step (1, 2, 3, 4, 5, 6, 7, 0) 15 15, D5Expand 16, D5Step (0, 1, 2, 3, 4, 5, 6, 7) 16 16,
    D5Expand 17, D5Step (7, 0, 1, 2, 3, 4, 5, 6) 17 17, D5Expand 18,
    D5Step (6, 7, 0, 1, 2, 3, 4, 5) 18 18, D5Expand 19, D5Step (5, 6, 7, 0, 1, 2, 3, 4) 19 19,
    D5Expand 20, D5Step (4, 5, 6, 7, 0, 1, 2, 3) 20 20, D5Expand 21,
    D5Step (3, 4, 5, 6, 7, 0, 1, 2) 21 21, D5Expand 22, D5Step (2, 3, 4, 5, 6, 7, 0, 1) 22 22,
    D5Expand 23, D5Step (1, 2, 3, 4, 5, 6, 7, 0) 23 23, D5Expand 24,
    D5Step (0, 1, 2, 3, 4, 5, 6, 7) 24 24, D5Expand 25, D5Step (7, 0, 1, 2, 3, 4, 5, 6) 25 25,
    D5Expand 26, D5Step (6, 7, 0, 1, 2, 3, 4, 5) 26 26, D5Expand 27,
    D5Step (5, 6, 7, 0, 1, 2, 3, 4) 27 27, D5Expand 28, D5Step (4, 5, 6, 7, 0, 1, 2, 3) 28 28,
    D5Expand 29, D5Step (3, 4, 5, 6, 7, 0, 1, 2) 29 29, D5Expand 30,
    D5Step (2, 3, 4, 5, 6, 7, 0, 1) 30 30, D5Expand 31, D5Step (1, 2, 3, 4, 5, 6, 7, 0) 31 31,
    D5Expand 32, D5Step (0, 1, 2, 3, 4, 5, 6, 7) 32 32, D5Expand 33,
    D5Step (7, 0, 1, 2, 3, 4, 5, 6) 33 33, D5Expand 34, D5Step (6, 7, 0, 1, 2, 3, 4, 5) 34 34,
    D5Expand 35, D5Step (5, 6, 7, 0, 1, 2, 3, 4) 35 35, D5Expand 36,
    D5Step (4, 5, 6, 7, 0, 1, 2, 3) 36 36, D5Expand 37, D5Step (3, 4, 5, 6, 7, 0, 1, 2) 37 37,
    D5Expand 38, D5Step (2, 3, 4, 5, 6, 7, 0, 1) 38 38, D5Expand 39,
    D5Step (1, 2, 3, 4, 5, 6, 7, 0) 39 39, D5Expand 40, D5Step (0, 1, 2, 3, 4, 5, 6, 7) 40 40,
    D5Expand 41, D5Step (7, 0, 1, 2, 3, 4, 5, 6) 41 41, D5Expand 42,
    D5Step (6, 7, 0, 1, 2, 3, 4, 5) 42 42, D5Expand 43, D5Step (5, 6, 7, 0, 1, 2, 3, 4) 43 43,
    D5Expand 44, D5Step (4, 5, 6, 7, 0, 1, 2, 3) 44 44, D5Expand 45,
    D5Step (3, 4, 5, 6, 7, 0, 1, 2) 45 45, D5Expand 46, D5Step (2, 3, 4, 5, 6, 7, 0, 1) 46 46,
    D5Expand 47, D5Step (1, 2, 3, 4, 5, 6, 7, 0) 47 47, D5Expand 48,
    D5Step (0, 1, 2, 3, 4, 5, 6, 7) 48 48, D5Expand 49, D5Step (7, 0, 1, 2, 3, 4, 5, 6) 49 49,
    D5Expand 50, D5Step (6, 7, 0, 1, 2, 3, 4, 5) 50 50, D5Expand 51,
    D5Step (5, 6, 7, 0, 1, 2, 3, 4) 51 51, D5Expand 52, D5Step (4, 5, 6, 7, 0, 1, 2, 3) 52 52,
    D5Expand 53, D5Step (3, 4, 5, 6, 7, 0, 1, 2) 53 53, D5Expand 54,
    D5Step (2, 3, 4, 5, 6, 7, 0, 1) 54 54, D5Expand 55, D5Step (1, 2, 3, 4, 5, 6, 7, 0) 55 55,
    D5Expand 56, D5Step (0, 1, 2, 3, 4, 5, 6, 7) 56 56, D5Expand 57,
    D5Step (7, 0, 1, 2, 3, 4, 5, 6) 57 57, D5Expand 58, D5Step (6, 7, 0, 1, 2, 3, 4, 5) 58 58,
    D5Expand 59, D5Step (5, 6, 7, 0, 1, 2, 3, 4) 59 59, D5Expand 60,
    D5Step (4, 5, 6, 7, 0, 1, 2, 3) 60 60, D5Expand 61, D5Step (3, 4, 5, 6, 7, 0, 1, 2) 61 61,
    D5Expand 62, D5Step (2, 3, 4, 5, 6, 7, 0, 1) 62 62, D5Expand 63,
    D5Step (1, 2, 3, 4, 5, 6, 7, 0) 63 63, D5Expand 64, D5Step (0, 1, 2, 3, 4, 5, 6, 7) 64 64,
    D5Expand 65, D5Step (7, 0, 1, 2, 3, 4, 5, 6) 65 65, D5Expand 66,
    D5Step (6, 7, 0, 1, 2, 3, 4, 5) 66 66, D5Expand 67, D5Step (5, 6, 7, 0, 1, 2, 3, 4) 67 67,
    D5Expand 68, D5Step (4, 5, 6, 7, 0, 1, 2, 3) 68 68, D5Expand 69,
    D5Step (3, 4, 5, 6, 7, 0, 1, 2) 69 69, D5Expand 70, D5Step (2, 3, 4, 5, 6, 7, 0, 1) 70 70,
    D5Expand 71, D5Step (1, 2, 3, 4, 5, 6, 7, 0) 71 71, D5Expand 72,
    D5Step (0, 1, 2, 3, 4, 5, 6, 7) 72 72, D5Expand 73, D5Step (7, 0, 1, 2, 3, 4, 5, 6) 73 73,
    D5Expand 74, D5Step (6, 7, 0, 1, 2, 3, 4, 5) 74 74, D5Expand 75,
    D5Step (5, 6, 7, 0, 1, 2, 3, 4) 75 75, D5Expand 76, D5Step (4, 5, 6, 7, 0, 1, 2, 3) 76 76,
    D5Expand 77, D5Step (3, 4, 5, 6, 7, 0, 1, 2) 77 77, D5Expand 78,
    D5Step (2, 3, 4, 5, 6, 7, 0, 1) 78 78, D5Expand 79, D5Step (1, 2, 3, 4, 5, 6, 7, 0) 79 79]"

definition S5D_K :: "u64 list" where
  "S5D_K = concat [
    [0x428a2f98d728ae22, 0x7137449123ef65cd, 0xb5c0fbcfec4d3b2f, 0xe9b5dba58189dbbc],
    [0x3956c25bf348b538, 0x59f111f1b605d019, 0x923f82a4af194f9b, 0xab1c5ed5da6d8118],
    [0xd807aa98a3030242, 0x12835b0145706fbe, 0x243185be4ee4b28c, 0x550c7dc3d5ffb4e2],
    [0x72be5d74f27b896f, 0x80deb1fe3b1696b1, 0x9bdc06a725c71235, 0xc19bf174cf692694],
    [0xe49b69c19ef14ad2, 0xefbe4786384f25e3, 0x0fc19dc68b8cd5b5, 0x240ca1cc77ac9c65],
    [0x2de92c6f592b0275, 0x4a7484aa6ea6e483, 0x5cb0a9dcbd41fbd4, 0x76f988da831153b5],
    [0x983e5152ee66dfab, 0xa831c66d2db43210, 0xb00327c898fb213f, 0xbf597fc7beef0ee4],
    [0xc6e00bf33da88fc2, 0xd5a79147930aa725, 0x06ca6351e003826f, 0x142929670a0e6e70],
    [0x27b70a8546d22ffc, 0x2e1b21385c26c926, 0x4d2c6dfc5ac42aed, 0x53380d139d95b3df],
    [0x650a73548baf63de, 0x766a0abb3c77b2a8, 0x81c2c92e47edaee6, 0x92722c851482353b],
    [0xa2bfe8a14cf10364, 0xa81a664bbc423001, 0xc24b8b70d0f89791, 0xc76c51a30654be30],
    [0xd192e819d6ef5218, 0xd69906245565a910, 0xf40e35855771202a, 0x106aa07032bbd1b8],
    [0x19a4c116b8d2d0c8, 0x1e376c085141ab53, 0x2748774cdf8eeb99, 0x34b0bcb5e19b48a8],
    [0x391c0cb3c5c95a63, 0x4ed8aa4ae3418acb, 0x5b9cca4f7763e373, 0x682e6ff3d6b2b8a3],
    [0x748f82ee5defb2fc, 0x78a5636f43172f60, 0x84c87814a1f0ab72, 0x8cc702081a6439ec],
    [0x90befffa23631e28, 0xa4506cebde82bde9, 0xbef9a3f7b2c67915, 0xc67178f2e372532b],
    [0xca273eceea26619c, 0xd186b8c721c0c207, 0xeada7dd6cde0eb1e, 0xf57d4f7fee6ed178],
    [0x06f067aa72176fba, 0x0a637dc5a2c898a6, 0x113f9804bef90dae, 0x1b710b35131c471b],
    [0x28db77f523047d84, 0x32caab7b40c72493, 0x3c9ebe0a15c9bebc, 0x431d67c49c100d4c],
    [0x4cc5d4becb3e42b6, 0x597f299cfc657e2a, 0x5fcb6fab3ad6faec, 0x6c44198c4a475817]]"

definition S5D_IV :: "u64 list" where
  "S5D_IV = [
    0x6a09e667f3bcc908, 0xbb67ae8584caa73b, 0x3c6ef372fe94f82b, 0xa54ff53a5f1d36f1,
    0x510e527fade682d1, 0x9b05688c2b3e6c1f, 0x1f83d9abfb41bd6b, 0x5be0cd19137e2179]"

record s5d_stream =
  dq_slot :: nat
  dq_w :: "u64 list"
  dq_fb :: "u64 list"
  dq_h :: "u64 list"
  dq_r :: "u64 list"

definition S5D_BSIG0 :: "builtins \<Rightarrow> steering \<Rightarrow> u64 \<Rightarrow> u64" where
  "S5D_BSIG0 bi st x = VB_ROTR64 bi st x 28 XOR VB_ROTR64 bi st x 34 XOR VB_ROTR64 bi st x 39"

definition S5D_BSIG1 :: "builtins \<Rightarrow> steering \<Rightarrow> u64 \<Rightarrow> u64" where
  "S5D_BSIG1 bi st x = VB_ROTR64 bi st x 14 XOR VB_ROTR64 bi st x 18 XOR VB_ROTR64 bi st x 41"

definition S5D_SSIG0 :: "builtins \<Rightarrow> steering \<Rightarrow> u64 \<Rightarrow> u64" where
  "S5D_SSIG0 bi st x = VB_ROTR64 bi st x 1 XOR VB_ROTR64 bi st x 8 XOR drop_bit 7 x"

definition S5D_SSIG1 :: "builtins \<Rightarrow> steering \<Rightarrow> u64 \<Rightarrow> u64" where
  "S5D_SSIG1 bi st x = VB_ROTR64 bi st x 19 XOR VB_ROTR64 bi st x 61 XOR drop_bit 6 x"

definition S5D_STEP ::
  "builtins \<Rightarrow> steering \<Rightarrow> nat \<times> nat \<times> nat \<times> nat \<times> nat \<times> nat \<times> nat \<times> nat \<Rightarrow> nat \<Rightarrow> nat \<Rightarrow> s5d_stream \<Rightarrow> s5d_stream" where
  "S5D_STEP bi st regs t kc s = (case regs of (a, b, c, d, e, f, g, h) \<Rightarrow>
    let r = dq_r s;
        t1 = r ! h + S5D_BSIG1 bi st (r ! e) + VB_CH64 bi st (r ! e) (r ! f) (r ! g) + S5D_K ! kc + dq_w s ! (t AND 15);
        t2 = S5D_BSIG0 bi st (r ! a) + VB_MAJ64 bi st (r ! a) (r ! b) (r ! c);
        r = r[d := r ! d + t1];
        r = r[h := t1 + t2]
    in s\<lparr>dq_r := r\<rparr>)"

definition S5D_EXP1 :: "builtins \<Rightarrow> steering \<Rightarrow> nat \<Rightarrow> s5d_stream \<Rightarrow> s5d_stream" where
  "S5D_EXP1 bi st t s =
    (let w = dq_w s
     in s\<lparr>dq_w := w[t AND 15 := w ! (t AND 15) + (S5D_SSIG1 bi st (w ! ((t - 2) AND 15)) + w ! ((t - 7) AND 15) +
          S5D_SSIG0 bi st (w ! ((t - 15) AND 15)))]\<rparr>)"

definition s5d_exec :: "builtins \<Rightarrow> steering \<Rightarrow> s5d_op \<Rightarrow> s5d_stream \<Rightarrow> s5d_stream" where
  "s5d_exec bi st op = (case op of D5Expand t \<Rightarrow> S5D_EXP1 bi st t | D5Step regs t kc \<Rightarrow> S5D_STEP bi st regs t kc)"

definition S5D_LOAD_SLOT :: "u64 list \<Rightarrow> nat \<Rightarrow> nat \<Rightarrow> nat \<Rightarrow> nat \<Rightarrow> nat \<Rightarrow> nat \<Rightarrow> s5d_stream \<Rightarrow> s5d_stream" where
  "S5D_LOAD_SLOT corpus lanes streams slot_words g lane k s =
    (let slot = (g * streams + k) * slot_words + lane
     in s\<lparr>dq_slot := slot, dq_fb := map (\<lambda>j. corpus ! (slot + j * lanes)) [0..<8]\<rparr>)"

definition S5D_INIT_H :: "nat \<Rightarrow> s5d_stream \<Rightarrow> s5d_stream" where
  "S5D_INIT_H k s = s\<lparr>dq_h := [S5D_IV ! 0, S5D_IV ! 1, S5D_IV ! 2, S5D_IV ! 3, S5D_IV ! 4, S5D_IV ! 5, S5D_IV ! 6, S5D_IV ! 7]\<rparr>"

definition S5D_START_BLOCK :: "u64 list \<Rightarrow> nat \<Rightarrow> nat \<Rightarrow> nat \<Rightarrow> s5d_stream \<Rightarrow> s5d_stream" where
  "S5D_START_BLOCK corpus lanes b k s =
    (let block_words = 16 * lanes;
         wp = dq_slot s + b * block_words;
         w = map (\<lambda>j. corpus ! (wp + j * lanes)) [0..<16];
         w = (if b = 0 then fold (\<lambda>j w. w[j := dq_fb s ! j]) [0..<8] w else w)
     in s\<lparr>dq_w := w, dq_r := map (\<lambda>j. dq_h s ! j) [0..<8]\<rparr>)"

definition S5D_CHAIN :: "nat \<Rightarrow> s5d_stream \<Rightarrow> s5d_stream" where
  "S5D_CHAIN k s = s\<lparr>dq_h := map (\<lambda>j. dq_h s ! j + dq_r s ! j) [0..<8]\<rparr>"

definition S5D_FEEDBACK :: "nat \<Rightarrow> s5d_stream \<Rightarrow> s5d_stream" where
  "S5D_FEEDBACK k s = s\<lparr>dq_fb := map (\<lambda>j. dq_h s ! j) [0..<8]\<rparr>"

definition s5d_block ::
  "builtins \<Rightarrow> steering \<Rightarrow> u64 list \<Rightarrow> nat \<Rightarrow> nat \<Rightarrow> s5d_stream list \<Rightarrow> s5d_stream list" where
  "s5d_block bi st corpus lanes b ss =
    (let ss = foreach (S5D_START_BLOCK corpus lanes b) ss;
         ss = fold (\<lambda>op. foreach (\<lambda>k. s5d_exec bi st op)) S5D_PROGRAM ss
     in foreach S5D_CHAIN ss)"

definition s5d_iteration ::
  "builtins \<Rightarrow> steering \<Rightarrow> u64 list \<Rightarrow> nat \<Rightarrow> nat \<Rightarrow> s5d_stream list \<Rightarrow> s5d_stream list" where
  "s5d_iteration bi st corpus lanes blocks ss =
    (let ss = foreach S5D_INIT_H ss;
         ss = fold (s5d_block bi st corpus lanes) [0..<blocks] ss
     in foreach S5D_FEEDBACK ss)"

definition s5d_group ::
  "builtins \<Rightarrow> steering \<Rightarrow> s5d_stream \<Rightarrow> u64 list \<Rightarrow> nat \<Rightarrow> nat \<Rightarrow> nat \<Rightarrow> nat \<Rightarrow> nat \<Rightarrow> nat \<Rightarrow> u64 list \<Rightarrow> u64 list" where
  "s5d_group bi st dirty corpus lanes streams blocks iterations g lane acc =
    (let slot_words = blocks * 16 * lanes;
         ss = foreach (S5D_LOAD_SLOT corpus lanes streams slot_words g lane) (replicate streams dirty);
         ss = fold (\<lambda>it. s5d_iteration bi st corpus lanes blocks) [0..<iterations] ss
     in fold (\<lambda>k. dev_acc 8 (dq_h (ss ! k))) [0..<streams] acc)"

definition vb_sha512 ::
  "u64 launch_env \<Rightarrow> builtins \<Rightarrow> steering \<Rightarrow> s5d_stream \<Rightarrow> u64 list \<Rightarrow> nat \<Rightarrow> nat \<Rightarrow> nat \<Rightarrow> nat \<Rightarrow> nat \<Rightarrow> nat \<Rightarrow> nat \<Rightarrow> nat \<Rightarrow>
    u64 list option" where
  "vb_sha512 env bi st dirty corpus lanes streams blocks iterations n_groups repeats global local =
    device_launch env (s5d_group bi st dirty corpus lanes streams blocks iterations) 8 lanes n_groups repeats global local"


section \<open>The renamed registers\<close>

lemma upt_8: "[0..<8] = [0, 1, 2, 3, 4, 5, 6, 7 :: nat]"
  by (simp add: upt_rec)

lemma prod_cases8: "\<exists>a b c d e f g h. (x :: 'a \<times> 'b \<times> 'c \<times> 'd \<times> 'e \<times> 'f \<times> 'g \<times> 'h) = (a, b, c, d, e, f, g, h)"
  by (metis surj_pair)

definition s5d_view :: "nat \<Rightarrow> u64 list \<Rightarrow> u64 list" where
  "s5d_view t R = map (\<lambda>i. R ! ((i + 7 * t) mod 8)) [0..<8]"

definition s5d_regs :: "nat \<Rightarrow> nat \<times> nat \<times> nat \<times> nat \<times> nat \<times> nat \<times> nat \<times> nat" where
  "s5d_regs t = (7 * t mod 8, (1 + 7 * t) mod 8, (2 + 7 * t) mod 8, (3 + 7 * t) mod 8, (4 + 7 * t) mod 8,
     (5 + 7 * t) mod 8, (6 + 7 * t) mod 8, (7 + 7 * t) mod 8)"

definition s5d_row :: "nat \<Rightarrow> s5d_op list" where
  "s5d_row t = (if t < 16 then [] else [D5Expand t]) @ [D5Step (s5d_regs t) t t]"

lemma s5d_program: "S5D_PROGRAM = concat (map s5d_row [0..<80])"
  by (simp add: S5D_PROGRAM_def s5d_row_def s5d_regs_def upt_rec)

lemma s5d_K: "S5D_K = SHA512_K"
  by (simp add: S5D_K_def SHA512_K_def)

lemma s5d_IV: "S5D_IV = SHA512_IV"
  unfolding S5D_IV_def SHA512_IV_def ..

lemma s5d_view_full: "length R = 8 \<Longrightarrow> t mod 8 = 0 \<Longrightarrow> s5d_view t R = R"
proof -
  assume R: "length R = 8" and t: "t mod 8 = 0"
  have "(i + 7 * t) mod 8 = i" if "i < 8" for i
    using t that by (metis add.right_neutral mod_add_right_eq mod_less mod_mult_right_eq mult_0_right)
  then show ?thesis using R by (intro nth_equalityI) (simp_all add: s5d_view_def)
qed

definition s5d_block1 :: "builtins \<Rightarrow> steering \<Rightarrow> u64 list \<Rightarrow> nat \<Rightarrow> nat \<Rightarrow> nat \<Rightarrow> s5d_stream \<Rightarrow> s5d_stream" where
  "s5d_block1 bi st corpus lanes b k s =
     S5D_CHAIN k (fold (s5d_exec bi st) S5D_PROGRAM (S5D_START_BLOCK corpus lanes b k s))"

lemma s5d_iteration_streams:
  "s5d_iteration bi st corpus lanes blocks = foreach (\<lambda>k.
     stream_iteration (S5D_INIT_H k) (\<lambda>b. s5d_block1 bi st corpus lanes b k) (S5D_FEEDBACK k) blocks)"
proof -
  have "s5d_block bi st corpus lanes = (\<lambda>b. foreach (s5d_block1 bi st corpus lanes b))"
    by (rule ext)+ (simp add: s5d_block_def Let_def fold_foreach foreach_foreach s5d_block1_def[abs_def])
  then show ?thesis
    by (intro ext) (simp add: s5d_iteration_def Let_def fold_foreach foreach_foreach stream_iteration_def[abs_def])
qed

interpretation s5d: device_body "s5d_group bi st dirty corpus lanes streams blocks iterations" 8 lanes n_groups
  "\<lambda>g lane j. xor_over (\<lambda>k. dq_h (fold (\<lambda>it. s5d_iteration bi st corpus lanes blocks) [0..<iterations]
     (foreach (S5D_LOAD_SLOT corpus lanes streams (blocks * 16 * lanes) g lane) (replicate streams dirty)) ! k) ! j) [0..<streams]"
  for bi st dirty corpus lanes streams blocks iterations n_groups
  by unfold_locales (simp add: s5d_group_def dev_acc_streams Let_def)


section \<open>One stream\<close>

context device_builtins
begin

lemma s5d_sigmas:
  "S5D_BSIG0 bi st x = BSIG0 x" "S5D_BSIG1 bi st x = BSIG1 x" "S5D_SSIG0 bi st x = SSIG0 x" "S5D_SSIG1 bi st x = SSIG1 x"
  by (simp_all add: S5D_BSIG0_def S5D_BSIG1_def S5D_SSIG0_def S5D_SSIG1_def BSIG0_def BSIG1_def SSIG0_def SSIG1_def
      rotr64_spelling xor.assoc)

lemma s5d_step_view:
  assumes "length (dq_r s) = 8"
  shows "s5d_view (Suc t) (dq_r (S5D_STEP bi st (s5d_regs t) t t s))
    = s5k_step_word t (dq_w s ! (t AND 15)) (s5d_view t (dq_r s))"
proof -
  have M: "(i + 7 * t) mod 8 = (i + 7 * (t mod 8)) mod 8" for i by (metis mod_add_right_eq mod_mult_right_eq)
  have M': "7 * t mod 8 = 7 * (t mod 8) mod 8" by (simp add: mod_mult_right_eq)
  have S: "(i + 7 * Suc t) mod 8 = (i + 7 + 7 * (t mod 8)) mod 8" for i using M[of "i + 7"] by (simp add: algebra_simps)
  obtain a b c d e f g h where R: "dq_r s = [a, b, c, d, e, f, g, h]" using assms by (auto simp: eval_nat_numeral length_Suc_conv)
  have "t mod 8 = 0 \<or> t mod 8 = 1 \<or> t mod 8 = 2 \<or> t mod 8 = 3 \<or> t mod 8 = 4 \<or> t mod 8 = 5 \<or> t mod 8 = 6 \<or> t mod 8 = 7" by linarith
  then show ?thesis
    unfolding s5d_view_def s5d_regs_def S5D_STEP_def s5k_step_word_def M M' S
    by (elim disjE) (simp_all add: R upt_8 s5d_sigmas select_spelling s5d_K Let_def)
qed

lemma s5d_row_word:
  assumes "length (dq_r s) = 8"
  shows "(dq_w (fold (s5d_exec bi st) (s5d_row t) s), s5d_view (Suc t) (dq_r (fold (s5d_exec bi st) (s5d_row t) s)))
      = fold s5k_exec_word (s5k_row t) (dq_w s, s5d_view t (dq_r s))
    \<and> length (dq_r (fold (s5d_exec bi st) (s5d_row t) s)) = 8
    \<and> dq_h (fold (s5d_exec bi st) (s5d_row t) s) = dq_h s \<and> dq_slot (fold (s5d_exec bi st) (s5d_row t) s) = dq_slot s"
proof -
  have "16 \<le> t \<Longrightarrow> (t - 16) AND 15 = t AND 15" by (simp add: and_15 le_mod_geq)
  then have E: "16 \<le> t \<Longrightarrow> dq_w (S5D_EXP1 bi st t s) = expand_in_place sha512_ex t (dq_w s)" "dq_r (S5D_EXP1 bi st t s) = dq_r s"
    "dq_h (S5D_EXP1 bi st t s) = dq_h s" "dq_slot (S5D_EXP1 bi st t s) = dq_slot s" for s
    by (simp_all add: S5D_EXP1_def expand_in_place_def sha512_ex_def s5d_sigmas ac_simps Let_def)
  have S: "length (dq_r (S5D_STEP bi st regs t kc s)) = length (dq_r s)" "dq_w (S5D_STEP bi st regs t kc s) = dq_w s"
    "dq_h (S5D_STEP bi st regs t kc s) = dq_h s" "dq_slot (S5D_STEP bi st regs t kc s) = dq_slot s" for regs kc s
    by (simp_all add: S5D_STEP_def Let_def split: prod.split)
  show ?thesis
    using assms by (simp add: s5d_row_def s5k_row_def s5d_exec_def s5k_exec_word_def E S s5d_step_view)
qed

lemma s5d_rows_word:
  assumes "length (dq_r s) = 8"
  shows "(dq_w (fold (s5d_exec bi st) (concat (map s5d_row [0..<n])) s),
       s5d_view n (dq_r (fold (s5d_exec bi st) (concat (map s5d_row [0..<n])) s)))
      = fold s5k_exec_word (concat (map s5k_row [0..<n])) (dq_w s, dq_r s)
    \<and> length (dq_r (fold (s5d_exec bi st) (concat (map s5d_row [0..<n])) s)) = 8
    \<and> dq_h (fold (s5d_exec bi st) (concat (map s5d_row [0..<n])) s) = dq_h s
    \<and> dq_slot (fold (s5d_exec bi st) (concat (map s5d_row [0..<n])) s) = dq_slot s"
proof (induction n)
  case 0
  then show ?case using assms by (simp add: s5d_view_full)
next
  case (Suc n)
  let ?t = "fold (s5d_exec bi st) (concat (map s5d_row [0..<n])) s"
  have cc: "concat (map f [0..<Suc n]) = concat (map f [0..<n]) @ f n" for f :: "nat \<Rightarrow> 'x list" by simp
  have "length (dq_r ?t) = 8" using Suc by blast
  from s5d_row_word[OF this, of st n] Suc show ?case unfolding cc fold_append comp_apply by simp
qed

lemma s5d_block:
  assumes rd: "lane_reads lanes corpus (dq_slot s) l bs" and b: "b < length bs"
    and h: "length (dq_h s) = 8" and fb: "b = 0 \<Longrightarrow> length (dq_fb s) = 8"
  shows "dq_h (s5d_block1 bi st corpus lanes b k s)
      = sha512_wc (dq_h s) (if b = 0 then put_at (bs ! 0) 0 (dq_fb s) else bs ! b)
    \<and> dq_slot (s5d_block1 bi st corpus lanes b k s) = dq_slot s"
proof -
  let ?m = "if b = 0 then put_at (bs ! 0) 0 (dq_fb s) else bs ! b"
  let ?t = "S5D_START_BLOCK corpus lanes b k s"
  note mem = lane_reads_word[OF rd b]
  have t: "dq_w ?t = ?m" "length ?m = 16"
    using mem fb
    by (auto simp: S5D_START_BLOCK_def Let_def fold_set_head map_nth_upt nth_put_at intro!: nth_equalityI simp del: upt_Suc)
  have r: "dq_r ?t = dq_h s" "dq_h ?t = dq_h s" "dq_slot ?t = dq_slot s"
    using h map_nth[of "dq_h s"] by (simp_all add: S5D_START_BLOCK_def Let_def del: upt_Suc)
  let ?f = "fold (s5d_exec bi st) S5D_PROGRAM ?t"
  let ?H = "dq_h s"
  let ?regs = "(?H ! 0, ?H ! 1, ?H ! 2, ?H ! 3, ?H ! 4, ?H ! 5, ?H ! 6, ?H ! 7)"
  have H5: "?H = list_of_regs8 ?regs" using h list8_eq[of ?H] by (simp add: list_of_regs8_def)
  have "length (dq_r ?t) = 8" using r h by simp
  note P = s5d_rows_word[OF this, of st 80, folded s5d_program s5k_program_rows]
  have F: "dq_h ?f = dq_h s" "dq_slot ?f = dq_slot s" using P[THEN conjunct2, THEN conjunct2] r(2,3) by (simp_all only: simp_thms)
  have "s5d_view 80 (dq_r ?f) = snd (fold s5k_exec_word S5K_PROGRAM (?m, ?H))"
    using arg_cong[OF P[THEN conjunct1], of snd] by (simp only: snd_conv r(1) t(1))
  also have "\<dots> = list_of_regs8 (sha512_loop (sha512_schedule ?m) ?regs)"
    using s5k_lane_program[OF t(2), of ?regs, folded H5] .
  finally have R: "dq_r ?f = list_of_regs8 (sha512_loop (sha512_schedule ?m) ?regs)"
    using P[THEN conjunct2, THEN conjunct1] s5d_view_full[of "dq_r ?f" 80] by (simp only: mod_self) simp
  obtain a' b' c' d' e' f' g' h' where loop: "sha512_loop (sha512_schedule ?m) ?regs = (a', b', c', d', e', f', g', h')" by (metis prod_cases8)
  have "dq_h (s5d_block1 bi st corpus lanes b k s) = map (\<lambda>j. ?H ! j + dq_r ?f ! j) [0..<8]"
    "dq_slot (s5d_block1 bi st corpus lanes b k s) = dq_slot s"
    by (simp_all add: s5d_block1_def S5D_CHAIN_def F del: upt_Suc)
  then show ?thesis
    unfolding R sha512_wc_def loop by (simp add: upt_8 list_of_regs8_def)
qed

end

sublocale device_builtins \<subseteq> sha512_lanes: stream_kernel sha512_wc SHA512_IV 8 lanes
  "\<lambda>s. lane_reads lanes corpus (dq_slot s)" "\<lambda>l. dq_h" "\<lambda>l. dq_fb"
  "S5D_INIT_H k" "\<lambda>b. s5d_block1 bi st corpus lanes b k" "S5D_FEEDBACK k"
  for lanes :: nat and corpus :: "u64 list" and st :: steering and k :: nat
proof unfold_locales
  fix l b and s :: s5d_stream and bs
  assume rd: "lane_reads lanes corpus (dq_slot s) l bs"
  show "lane_reads lanes corpus (dq_slot (S5D_INIT_H k s)) l bs \<and> dq_h (S5D_INIT_H k s) = SHA512_IV
    \<and> dq_fb (S5D_INIT_H k s) = dq_fb s"
    using rd by (simp add: S5D_INIT_H_def s5d_IV SHA512_IV_def)
  assume h: "length (dq_h s) = 8"
  show "lane_reads lanes corpus (dq_slot (S5D_FEEDBACK k s)) l bs \<and> dq_h (S5D_FEEDBACK k s) = dq_h s
    \<and> dq_fb (S5D_FEEDBACK k s) = dq_h s"
    using rd h map_nth[of "dq_h s"] by (simp add: S5D_FEEDBACK_def del: upt_Suc)
  assume b: "b < length bs" and f: "b = 0 \<Longrightarrow> length (dq_fb s) = 8"
  show "lane_reads lanes corpus (dq_slot (s5d_block1 bi st corpus lanes b k s)) l bs
    \<and> dq_h (s5d_block1 bi st corpus lanes b k s) = sha512_wc (dq_h s) (if b = 0 then put_at (bs ! 0) 0 (dq_fb s) else bs ! b)"
    using s5d_block[OF rd b h f] rd by simp
qed (simp_all add: lane_reads_word sha512_wc_def SHA512_IV_def Let_def split_beta)

context device_builtins
begin

lemma vb_sha512_digests:
  assumes H: "corpus_holds corpus lanes blocks (n_groups * streams * lanes) W"
    and it: "0 < iterations" and b: "0 < blocks"
    and env: "launch_env_ok env 8 global local"
    and geo: "local = 2 ^ p" "local dvd global" "lanes dvd global" "0 < global" and odd: "odd repeats"
  shows "\<exists>partials. vb_sha512 env bi st dirty corpus lanes streams blocks iterations n_groups repeats global local = Some partials
    \<and> length partials = length (le_partials env)
    \<and> (\<forall>j < 8. xor_over (\<lambda>w. partials ! (w * 8 + j)) [0..<global div local]
        = xor_over (\<lambda>m. word_digest sha512_wc SHA512_IV (W m) iterations ! j) [0..<n_groups * streams * lanes])"
  unfolding vb_sha512_def
proof (rule s5d.launch_digests[OF env geo odd])
  fix g k lane assume g: "g < n_groups" and k: "k < streams" and l: "lane < lanes"
  let ?bs = "W ((g * streams + k) * lanes + lane)"
  let ?t = "S5D_LOAD_SLOT corpus lanes streams (blocks * 16 * lanes) g lane k dirty"
  note R = corpus_lane[OF H b g k l]
  have bs: "?bs \<noteq> []" using R(2) b by auto
  have t: "dq_slot ?t = (g * streams + k) * (blocks * 16 * lanes) + lane" "dq_fb ?t = take 8 (hd ?bs)"
    using lane_reads_head[OF R(1) bs, of 8] by (simp_all add: S5D_LOAD_SLOT_def Let_def)
  have "length (take 8 (hd ?bs)) = 8" using lane_reads_word(1)[OF R(1), of 0] bs by (simp add: hd_conv_nth)
  then show "dq_h (fold (\<lambda>it. s5d_iteration bi st corpus lanes blocks) [0..<iterations]
      (foreach (S5D_LOAD_SLOT corpus lanes streams (blocks * 16 * lanes) g lane) (replicate streams dirty)) ! k)
    = word_digest sha512_wc SHA512_IV ?bs iterations"
    using sha512_lanes.iterations_lane[of lane lanes corpus ?t ?bs k st iterations] R t l bs it k
    by (simp add: s5d_iteration_streams nth_fold_foreach)
qed simp

end

end
