(* ===== verification/Device_Kernels.thy ===== *)
theory Device_Kernels
  imports Device_Md5 Device_Sha1 Device_Sha512 Device_Geometry Kernel_Slices
begin

text \<open>
  The device kernels on the contexts src/device/device.c creates.  A context carries everything a
  launch passes to its kernel: the slice of the corpus, lanes, streams, blocks, groups, repeats and
  the geometry.  Whatever geometry was settled, pinned or tuned, one launch brings back partials that
  the host folds to the reference checksum of the slice.
\<close>

section \<open>A launch of a context\<close>

text \<open>What the compilers and the hardware decide: builtins, spellings, the orders of a launch, and what
  memories and registers held before.\<close>

record device_world =
  wd_builtins :: builtins
  wd_steering :: steering
  wd_env32 :: "u32 launch_env"
  wd_env64 :: "u64 launch_env"
  wd_md5 :: md5d_stream
  wd_sha1 :: s1d_stream
  wd_sha512 :: s5d_stream

definition world_ok :: "device_world \<Rightarrow> nat \<Rightarrow> nat \<Rightarrow> nat \<Rightarrow> bool" where
  "world_ok wd dw global local \<longleftrightarrow>
     launch_env_ok (wd_env32 wd) dw global local \<and> launch_env_ok (wd_env64 wd) dw global local"

text \<open>The bytes of the partials after a launch of the context's kernel with its arguments.  The corpus
  on the device has words of the kernel's width.\<close>

definition kernel_partials :: "device_world \<Rightarrow> vb_alg_id \<Rightarrow> 'i vb_dev_ctx \<Rightarrow> nat \<Rightarrow> bytes option" where
  "kernel_partials wd a c iterations =
    (case a of
       VB_ALG_MD5 \<Rightarrow> map_option (\<lambda>ps. concat (map store_le32 ps))
         (vb_md5 (wd_env32 wd) (wd_builtins wd) (wd_steering wd) (wd_md5 wd) (map ucast (dc_host_slice c)) (dc_lanes c)
            (dc_streams c) (dc_blocks c) iterations (dc_n_groups c) (dc_repeats c) (dc_global_size c) (dc_local_size c))
     | VB_ALG_SHA1 \<Rightarrow> map_option (\<lambda>ps. concat (map store_le32 ps))
         (vb_sha1 (wd_env32 wd) (wd_builtins wd) (wd_steering wd) (wd_sha1 wd) (map ucast (dc_host_slice c)) (dc_lanes c)
            (dc_streams c) (dc_blocks c) iterations (dc_n_groups c) (dc_repeats c) (dc_global_size c) (dc_local_size c))
     | VB_ALG_SHA512 \<Rightarrow> map_option (\<lambda>ps. concat (map store_le64 ps))
         (vb_sha512 (wd_env64 wd) (wd_builtins wd) (wd_steering wd) (wd_sha512 wd) (map ucast (dc_host_slice c)) (dc_lanes c)
            (dc_streams c) (dc_blocks c) iterations (dc_n_groups c) (dc_repeats c) (dc_global_size c) (dc_local_size c)))"


section \<open>The host's fold\<close>

lemma fold_words:
  assumes "dw \<le> length (acc :: 'w::len word list)"
  shows "fold (\<lambda>w acc. acc[w := acc ! w XOR g w]) [0..<dw] acc
    = map (\<lambda>j. if j < dw then acc ! j XOR g j else acc ! j) [0..<length acc]"
proof -
  have "fold (\<lambda>w acc. acc[w := acc ! w XOR g w]) [0..<dw] acc = map (\<lambda>k. acc ! k XOR g k) [0..<dw] @ drop dw acc"
    by (rule foreach_prefix[of dw acc "\<lambda>k x. x XOR g k"]) (rule assms)
  then show ?thesis using assms by (auto simp: nth_append intro!: nth_equalityI)
qed

lemma fold_word_rows:
  assumes "dw \<le> length (acc :: 'w::len word list)"
  shows "fold (\<lambda>i. fold (\<lambda>w acc. acc[w := acc ! w XOR g i w]) [0..<dw]) [0..<n] acc
    = map (\<lambda>j. if j < dw then acc ! j XOR xor_over (\<lambda>i. g i j) [0..<n] else acc ! j) [0..<length acc]"
proof (induction n)
  case 0
  show ?case by (auto intro!: nth_equalityI)
next
  case (Suc n)
  then show ?case using assms by (simp add: fold_words ac_simps) 
qed

lemma partial_word_stored:
  "dc_partial_word_bytes c = 4 \<Longrightarrow> i < length ps \<Longrightarrow> partial_word c (concat (map store_le32 ps)) i = ucast (ps ! i)"
  "dc_partial_word_bytes c = 8 \<Longrightarrow> i < length qs \<Longrightarrow> partial_word c (concat (map store_le64 qs)) i = qs ! i"
proof -
  assume "dc_partial_word_bytes c = 4" "i < length ps"
  moreover from this have "drop (4 * i) (concat (map store_le32 ps)) = store_le32 (ps ! i) @ concat (map store_le32 (drop (Suc i) ps))"
    using drop_concat_map[of store_le32 4 i ps] by (simp add: mult.commute Cons_nth_drop_Suc[symmetric])
  ultimately show "partial_word c (concat (map store_le32 ps)) i = ucast (ps ! i)"
    by (simp add: partial_word_def md5h.ld_st)
next
  assume "dc_partial_word_bytes c = 8" "i < length qs"
  moreover from this have "drop (8 * i) (concat (map store_le64 qs)) = store_le64 (qs ! i) @ concat (map store_le64 (drop (Suc i) qs))"
    using drop_concat_map[of store_le64 8 i qs] by (simp add: mult.commute Cons_nth_drop_Suc[symmetric])
  moreover have "load_le64 (store_le64 v @ xs) = v" for v xs
  proof -
    have "load_le32 (store_le64 v @ xs) = ucast v" "load_le32 (drop 4 (store_le64 v @ xs)) = ucast (drop_bit 32 v)"
      by (simp_all add: store_le64_def md5h.ld_st)
    then show ?thesis by (auto simp: load_le64_def bit_simps intro!: bit_word_eqI)
  qed
  ultimately show "partial_word c (concat (map store_le64 qs)) i = qs ! i"
    by (simp add: partial_word_def)
qed

lemma fold_partials_words:
  assumes "dc_partial_words c = dw" "dw \<le> VB_MAX_DIGEST_WORDS"
    and V: "\<And>i. i < dc_n_partials c * dw \<Longrightarrow> partial_word c p i = V i"
  shows "fold_partials c p zero_checksum
    = map (\<lambda>j. if j < dw then xor_over (\<lambda>w. V (w * dw + j)) [0..<dc_n_partials c] else 0) [0..<VB_MAX_DIGEST_WORDS]"
proof -
  have "fold_partials c p zero_checksum
      = fold (\<lambda>i. fold (\<lambda>w acc. acc[w := acc ! w XOR V (i * dw + w)]) [0..<dw]) [0..<dc_n_partials c] zero_checksum"
    unfolding fold_partials_def assms(1)
    by (intro fold_cong refl ext) (use V place_less[of _ "dc_n_partials c" _ dw] in auto)
  also have "\<dots> = map (\<lambda>j. if j < dw then zero_checksum ! j XOR xor_over (\<lambda>i. V (i * dw + j)) [0..<dc_n_partials c]
      else zero_checksum ! j) [0..<length zero_checksum]"
    by (rule fold_word_rows) (use assms(2) in \<open>simp add: zero_checksum_def\<close>)
  finally show ?thesis using assms(2) by (auto simp: zero_checksum_def intro!: nth_equalityI)
qed

text \<open>The digests a launch leaves in its partials, folded.\<close>

lemma folded_result:
  fixes ps :: "'w::len word list"
  assumes "dc_partial_words c = dw" "dw \<le> VB_MAX_DIGEST_WORDS" "dc_n_partials c * dw \<le> length ps"
    and pw: "\<And>i. i < length ps \<Longrightarrow> partial_word c p i = ucast (ps ! i)"
    and total: "\<forall>j < dw. xor_over (\<lambda>w. ps ! (w * dw + j)) [0..<dc_n_partials c]
      = xor_over (\<lambda>m. word_digest wc iv (W m) k ! j) [0..<n]"
  shows "fold_partials c p zero_checksum = kernel_result wc iv dw W n k"
proof -
  have "fold_partials c p zero_checksum
      = map (\<lambda>j. if j < dw then xor_over (\<lambda>w. ucast (ps ! (w * dw + j))) [0..<dc_n_partials c] else 0) [0..<VB_MAX_DIGEST_WORDS]"
    by (rule fold_partials_words[OF assms(1,2)]) (use assms(3) pw in simp)
  then show ?thesis
    using total by (simp add: kernel_result_def ucast_xor_list[symmetric])
qed

lemma corpus_holds_take:
  assumes "corpus_holds mem lanes blocks n W" "n * blocks * 16 \<le> m" "0 < lanes"
  shows "corpus_holds (take m mem) lanes blocks n W"
proof -
  have "corpus_at blocks lanes x b j < m" if "x < n" "b < blocks" "j < 16" for x b j
    using corpus_at_bound[OF assms(3) _ that] assms(1,2) unfolding corpus_holds_def by (meson less_le_trans)
  then show ?thesis using assms(1,2) by (simp add: corpus_holds_def)
qed

text \<open>A geometry the host accepts is one the sweep and the reduction can serve.\<close>

lemma and_pred_power:
  fixes n :: nat
  assumes "n AND (n - 1) = 0" "n \<noteq> 0"
  shows "\<exists>k. n = 2 ^ k"
  using assms
proof (induction n rule: less_induct)
  case (less n)
  show ?case
  proof (cases "even n")
    case True
    then obtain m where m: "n = 2 * m" by (elim evenE)
    have "m AND (m - 1) = 0"
    proof (rule bit_eqI)
      fix i
      have "(2 * m - 1) div 2 = m - 1" using less.prems(2) m by (cases m) auto
      then have "bit (n AND (n - 1)) (Suc i) = bit (m AND (m - 1)) i"
        unfolding bit_and_iff m by (simp only: bit_Suc) simp
      then show "bit (m AND (m - 1)) i = bit (0 :: nat) i" using less.prems(1) by simp
    qed
    then obtain k where "m = 2 ^ k" using less.IH[of m] less.prems(2) m by auto
    then show ?thesis using m by (metis power_Suc)
  next
    case False
    have "n = 1"
    proof (rule ccontr)
      assume "n \<noteq> 1"
      then obtain m where m: "n = Suc (2 * m)" "m \<noteq> 0" using False by (elim oddE) auto
      have "n AND (n - 1) = 2 * m" by (rule bit_eqI) (auto simp: m bit_simps bit_0 bit_Suc gr0_conv_Suc elim: nat.exhaust)
      then show False using less.prems(1) m(2) by simp
    qed
    then show ?thesis by (metis power_0)
  qed
qed

lemma geometry_serves:
  assumes "geometry_ok c global local"
  obtains k where "local = 2 ^ k" "local dvd global" "dc_lanes c dvd global" "0 < global"
  using assms and_pred_power[of local] by (auto simp: geometry_ok_def Let_def split: if_splits)

text \<open>The part of a built corpus a context holds, as its kernel reads it.\<close>

context word_hash
begin

lemma corpus_holds_ctx:
  assumes B: "vb_corpus_build alloc True (Some alg) lanes start n bytes = Some corpus"
    and A: "\<And>m words. alloc m = Some words \<Longrightarrow> length words = m"
    and M: "bytes \<le> VB_MAX_MSG_BYTES" and fits: "(s + g) * streams * lanes \<le> n"
  shows "corpus_holds (map ucast (slice_of corpus streams s g) :: 'w word list) lanes (c_blocks corpus) (g * streams * lanes)
      (\<lambda>m. msg_words alg ld enc (vb_build_message (start + of_nat (s * streams * lanes) + of_nat m) bytes))
    \<and> 0 < c_blocks corpus"
proof -
  have f: "(s * streams + g * streams) * lanes \<le> n" using fits by (simp add: add_mult_distrib)
  note H = corpus_holds_slice[OF B A M f]
  have l: "c_lanes corpus = lanes" "0 < lanes" using B by (auto elim!: corpus_build_Some)
  have sw: "vb_corpus_slot_words corpus = lanes * c_blocks corpus * 16"
    by (simp add: vb_corpus_slot_words_def l(1) VB_WORDS_PER_BLOCK_def)
  have "corpus_holds (take (g * streams * vb_corpus_slot_words corpus)
      (map ucast (drop (s * streams * vb_corpus_slot_words corpus) (c_words corpus))) :: 'w word list) lanes (c_blocks corpus) (g * streams * lanes)
      (\<lambda>m. msg_words alg ld enc (vb_build_message (start + of_nat (s * streams * lanes) + of_nat m) bytes))"
    by (rule corpus_holds_take[OF H[THEN conjunct1] _ l(2)]) (simp_all add: sw mult.assoc)
  then show ?thesis using H by (simp add: slice_of_def take_map)
qed

end


section \<open>The kernels compute the reference\<close>

text \<open>What a context must look like for that: the slice and the shape of the corpus, an odd number of
  sweeps, and a geometry the host accepts.\<close>

definition kernel_ctx :: "vb_corpus \<Rightarrow> nat \<Rightarrow> nat \<Rightarrow> nat \<Rightarrow> 'i vb_dev_ctx \<Rightarrow> bool" where
  "kernel_ctx corpus streams first_group n_groups c \<longleftrightarrow>
     dc_lanes c = c_lanes corpus \<and> dc_streams c = streams \<and> dc_blocks c = c_blocks corpus \<and> dc_n_groups c = n_groups
     \<and> dc_partial_words c = digest_words (c_alg corpus) \<and> dc_partial_word_bytes c = word_bytes (c_alg corpus)
     \<and> dc_host_slice c = slice_of corpus streams first_group n_groups
     \<and> geometry_ok c (dc_global_size c) (dc_local_size c) \<and> dc_n_partials c = dc_global_size c div dc_local_size c
     \<and> odd (dc_repeats c)"

lemma kernel_ctx_reference:
  assumes bi: "device_builtins (wd_builtins wd)"
    and B: "vb_corpus_build alloc True (Some (the_alg a)) lanes start n bytes = Some corpus"
    and A: "\<And>m words. alloc m = Some words \<Longrightarrow> length words = m"
    and M: "bytes \<le> VB_MAX_MSG_BYTES" and fits: "(s + g) * streams * lanes \<le> n"
    and k: "0 < k" "k = 1 \<or> digest_bytes (the_alg a) \<le> bytes"
    and C: "kernel_ctx corpus streams s g c"
    and wd: "world_ok wd (digest_words (the_alg a)) (dc_global_size c) (dc_local_size c)"
  shows "\<exists>p. kernel_partials wd a c k = Some p \<and> fold_partials c p zero_checksum
    = vb_reference_checksum True (the_alg a) (start + of_nat (s * streams * lanes)) (g * streams * lanes) bytes k"
proof -
  have cl: "c_lanes corpus = lanes" "c_alg corpus = the_alg a" using B by (auto elim!: corpus_build_Some)
  have c: "dc_lanes c = lanes" "dc_streams c = streams" "dc_blocks c = c_blocks corpus" "dc_n_groups c = g"
    "dc_partial_words c = digest_words (the_alg a)" "dc_partial_word_bytes c = word_bytes (the_alg a)"
    "dc_host_slice c = slice_of corpus streams s g" "dc_n_partials c = dc_global_size c div dc_local_size c" "odd (dc_repeats c)"
    using C by (simp_all add: kernel_ctx_def cl)
  have "geometry_ok c (dc_global_size c) (dc_local_size c)" using C by (simp add: kernel_ctx_def)
  then obtain p where geo: "dc_local_size c = 2 ^ p" "dc_local_size c dvd dc_global_size c" "lanes dvd dc_global_size c" "0 < dc_global_size c"
    by (rule geometry_serves) (simp add: c(1))
  show ?thesis
  proof (cases a)
    case VB_ALG_MD5
    have F: "vb_corpus_build alloc True (Some md5_alg) lanes start n bytes = Some corpus" "k = 1 \<or> digest_bytes md5_alg \<le> bytes"
      "dc_partial_words c = 4" "dc_partial_word_bytes c = 4" "launch_env_ok (wd_env32 wd) 4 (dc_global_size c) (dc_local_size c)"
      using B k(2) c(5,6) wd by (simp_all add: VB_ALG_MD5 the_alg_def alg_words md5_alg_def world_ok_def)
    note H = md5h.corpus_holds_ctx[OF F(1) A M fits]
    obtain ps where ps: "vb_md5 (wd_env32 wd) (wd_builtins wd) (wd_steering wd) (wd_md5 wd) (map ucast (dc_host_slice c)) lanes
        streams (c_blocks corpus) k g (dc_repeats c) (dc_global_size c) (dc_local_size c) = Some ps"
      "length ps = length (le_partials (wd_env32 wd))"
      "\<forall>j < 4. xor_over (\<lambda>w. ps ! (w * 4 + j)) [0..<dc_global_size c div dc_local_size c] = xor_over (\<lambda>m. word_digest md5_wc MD5_IV
        (msg_words md5_alg load_le32 store_le64 (vb_build_message (start + of_nat (s * streams * lanes) + of_nat m) bytes)) k ! j)
        [0..<g * streams * lanes]"
      using device_builtins.vb_md5_digests[OF bi H[THEN conjunct1] k(1) H[THEN conjunct2] F(5) geo c(9)] unfolding c(7) by blast
    have "fold_partials c (concat (map store_le32 ps)) zero_checksum = vb_reference_checksum True md5_alg
        (start + of_nat (s * streams * lanes)) (g * streams * lanes) bytes k"
      unfolding md5h.kernel_result_ref[OF k(1) F(2), symmetric] alg_words
      by (rule folded_result) (use ps(2,3) F(3,5) c(8) partial_word_stored(1)[OF F(4)] in \<open>simp_all add: launch_env_ok_def VB_MAX_DIGEST_WORDS_def\<close>)
    then show ?thesis using ps(1) by (simp add: kernel_partials_def VB_ALG_MD5 c the_alg_def)
  next
    case VB_ALG_SHA1
    have F: "vb_corpus_build alloc True (Some sha1_alg) lanes start n bytes = Some corpus" "k = 1 \<or> digest_bytes sha1_alg \<le> bytes"
      "dc_partial_words c = 5" "dc_partial_word_bytes c = 4" "launch_env_ok (wd_env32 wd) 5 (dc_global_size c) (dc_local_size c)"
      using B k(2) c(5,6) wd by (simp_all add: VB_ALG_SHA1 the_alg_def alg_words sha1_alg_def world_ok_def)
    note H = sha1h.corpus_holds_ctx[OF F(1) A M fits]
    obtain ps where ps: "vb_sha1 (wd_env32 wd) (wd_builtins wd) (wd_steering wd) (wd_sha1 wd) (map ucast (dc_host_slice c)) lanes
        streams (c_blocks corpus) k g (dc_repeats c) (dc_global_size c) (dc_local_size c) = Some ps"
      "length ps = length (le_partials (wd_env32 wd))"
      "\<forall>j < 5. xor_over (\<lambda>w. ps ! (w * 5 + j)) [0..<dc_global_size c div dc_local_size c] = xor_over (\<lambda>m. word_digest sha1_wc SHA1_IV
        (msg_words sha1_alg load_be32 sha1_store_be64 (vb_build_message (start + of_nat (s * streams * lanes) + of_nat m) bytes)) k ! j)
        [0..<g * streams * lanes]"
      using device_builtins.vb_sha1_digests[OF bi H[THEN conjunct1] k(1) H[THEN conjunct2] F(5) geo c(9)] unfolding c(7) by blast
    have "fold_partials c (concat (map store_le32 ps)) zero_checksum = vb_reference_checksum True sha1_alg
        (start + of_nat (s * streams * lanes)) (g * streams * lanes) bytes k"
      unfolding sha1h.kernel_result_ref[OF k(1) F(2), symmetric] alg_words
      by (rule folded_result) (use ps(2,3) F(3,5) c(8) partial_word_stored(1)[OF F(4)] in \<open>simp_all add: launch_env_ok_def VB_MAX_DIGEST_WORDS_def\<close>)
    then show ?thesis using ps(1) by (simp add: kernel_partials_def VB_ALG_SHA1 c the_alg_def)
  next
    case VB_ALG_SHA512
    have F: "vb_corpus_build alloc True (Some sha512_alg) lanes start n bytes = Some corpus" "k = 1 \<or> digest_bytes sha512_alg \<le> bytes"
      "dc_partial_words c = 8" "dc_partial_word_bytes c = 8" "launch_env_ok (wd_env64 wd) 8 (dc_global_size c) (dc_local_size c)"
      using B k(2) c(5,6) wd by (simp_all add: VB_ALG_SHA512 the_alg_def alg_words sha512_alg_def world_ok_def)
    note H = sha512h.corpus_holds_ctx[OF F(1) A M fits]
    obtain ps where ps: "vb_sha512 (wd_env64 wd) (wd_builtins wd) (wd_steering wd) (wd_sha512 wd) (map ucast (dc_host_slice c)) lanes
        streams (c_blocks corpus) k g (dc_repeats c) (dc_global_size c) (dc_local_size c) = Some ps"
      "length ps = length (le_partials (wd_env64 wd))"
      "\<forall>j < 8. xor_over (\<lambda>w. ps ! (w * 8 + j)) [0..<dc_global_size c div dc_local_size c] = xor_over (\<lambda>m. word_digest sha512_wc SHA512_IV
        (msg_words sha512_alg load_be64 sha512_length_field (vb_build_message (start + of_nat (s * streams * lanes) + of_nat m) bytes)) k ! j)
        [0..<g * streams * lanes]"
      using device_builtins.vb_sha512_digests[OF bi H[THEN conjunct1] k(1) H[THEN conjunct2] F(5) geo c(9)] unfolding c(7) by blast
    have "fold_partials c (concat (map store_le64 ps)) zero_checksum = vb_reference_checksum True sha512_alg
        (start + of_nat (s * streams * lanes)) (g * streams * lanes) bytes k"
      unfolding sha512h.kernel_result_ref[OF k(1) F(2), symmetric] alg_words
      by (rule folded_result) (use ps(2,3) F(3,5) c(8) partial_word_stored(2)[OF F(4)] in \<open>simp_all add: launch_env_ok_def VB_MAX_DIGEST_WORDS_def\<close>)
    then show ?thesis using ps(1) by (simp add: kernel_partials_def VB_ALG_SHA512 c the_alg_def)
  qed
qed

lemma init_kernel_ctx:
  assumes "vb_dev_ctx_init env be dev corpus streams s g opt = Some (True, c)" "c_lanes corpus dvd 512"
  shows "kernel_ctx corpus streams s g c"
proof -
  note S = init_settles[OF assms]
  then have "settled c" by blast
  then show ?thesis using S by (simp add: kernel_ctx_def settled_def)
qed

text \<open>C5: the device computes what the reference computes, from the host's context creation to the
  host's fold: for a corpus that was built, a context that was created over a range of its groups,
  with whatever geometry was pinned or tuned and however many sweeps a launch makes, one launch of
  the kernel leaves partials that fold to the reference checksum of exactly the messages of that
  range.  This holds for the three algorithms, any spelling of the primitives whose builtins do what
  their manuals say, any order of the work-items and any contents of memory the kernel does not write.\<close>

theorem device_kernels_reference:
  assumes "device_builtins (wd_builtins wd)"
    and "vb_corpus_build alloc True (Some (the_alg a)) lanes start n bytes = Some corpus"
    and "\<And>m words. alloc m = Some words \<Longrightarrow> length words = m"
    and "bytes \<le> VB_MAX_MSG_BYTES" "lanes dvd 512" "(s + g) * streams * lanes \<le> n"
    and "0 < k" "k = 1 \<or> digest_bytes (the_alg a) \<le> bytes"
    and "vb_dev_ctx_init env be dev corpus streams s g opt = Some (True, c)"
    and "world_ok wd (digest_words (the_alg a)) (dc_global_size c) (dc_local_size c)"
  shows "\<exists>p. kernel_partials wd a c k = Some p \<and> fold_partials c p zero_checksum
    = vb_reference_checksum True (the_alg a) (start + of_nat (s * streams * lanes)) (g * streams * lanes) bytes k"
proof -
  have "c_lanes corpus dvd 512" using assms(2,5) by (auto elim!: corpus_build_Some)
  note C = init_kernel_ctx[OF assms(9) this]
  show ?thesis by (rule kernel_ctx_reference[OF assms(1,2) assms(3) assms(4,6-8) C assms(10)])
qed

text \<open>A launch in the plainest order: group after group, item after item.\<close>

definition plain_env :: "nat \<Rightarrow> nat \<Rightarrow> nat \<Rightarrow> ('w::len) word launch_env" where
  "plain_env dw global local =
     \<lparr>le_order = [0..<global div local], le_sched = (\<lambda>w s. List.product [0..<local] [0..<dw]),
      le_scratch = (\<lambda>w. replicate (local * dw) 0), le_partials = replicate (global div local * dw) 0\<rparr>"

definition plain_world :: "nat \<Rightarrow> nat \<Rightarrow> nat \<Rightarrow> device_world" where
  "plain_world dw global local =
     \<lparr>wd_builtins = manual_builtins, wd_steering = steering_of [],
      wd_env32 = plain_env dw global local, wd_env64 = plain_env dw global local,
      wd_md5 = \<lparr>dm_slot = 0, dm_wp = 0, dm_wv = [], dm_h = [], dm_r = []\<rparr>,
      wd_sha1 = \<lparr>ds_slot = 0, ds_w = [], ds_fb = [], ds_h = [], ds_r = []\<rparr>,
      wd_sha512 = \<lparr>dq_slot = 0, dq_w = [], dq_fb = [], dq_h = [], dq_r = []\<rparr>\<rparr>"

lemma plain_world_ok: "world_ok (plain_world dw global local) dw global local"
  by (auto simp: world_ok_def plain_world_def plain_env_def launch_env_ok_def distinct_product)

lemma device_kernels_reference_witness:
  "\<exists>corpus c p. vb_corpus_build (\<lambda>m. Some (replicate m 7)) True (Some md5_alg) 64 3 128 20 = Some corpus
     \<and> vb_dev_ctx_init \<lparr>de_dialect = (\<lambda>d. []), de_primitives = [], de_capacity = [], de_core = (\<lambda>a. ''core''), de_compose_ok = True, de_partials_ok = True\<rparr>
         instant_backend (zero_dev\<lparr>di_compute_units := 4, di_max_work_group := 1024\<rparr>) corpus 1 1 1
         (vb_dev_options_default\<lparr>do_neutral := True, do_pin_global := 256, do_pin_local := 128\<rparr>) = Some (True, c)
     \<and> kernel_partials (plain_world 4 256 128) VB_ALG_MD5 c 2 = Some p
     \<and> fold_partials c p zero_checksum = vb_reference_checksum True md5_alg 67 64 20 2"
proof -
  let ?env = "\<lparr>de_dialect = (\<lambda>d. []), de_primitives = [], de_capacity = [], de_core = (\<lambda>a. ''core''), de_compose_ok = True, de_partials_ok = True\<rparr>"
  let ?dev = "zero_dev\<lparr>di_compute_units := 4, di_max_work_group := 1024\<rparr>"
  let ?opt = "vb_dev_options_default\<lparr>do_neutral := True, do_pin_global := 256, do_pin_local := 128\<rparr>"
  obtain corpus where B: "vb_corpus_build (\<lambda>m. Some (replicate m 7)) True (Some md5_alg) 64 3 128 20 = Some corpus"
    using corpus_build_ok[where lanes=64 and n=128 and v=7 and a=md5_alg and start=3 and bytes=20] by auto
  have l: "c_lanes corpus = 64" "c_alg corpus = md5_alg" "c_n_messages corpus = 128"
    using B by (auto elim!: corpus_build_Some)
  have floor: "lower_floor 256 64 = 64" by (subst lower_floor.simps) simp
  have "\<exists>c. vb_dev_ctx_init ?env instant_backend ?dev corpus 1 1 1 ?opt = Some (True, c)"
    by (simp add: vb_dev_ctx_init_def program_for_def PROGRAMS_def compose_def l md5_alg_def vb_device_steers_def vb_dev_options_default_def
        side_call_def instant_backend_def[THEN arg_cong[where f = be_build]] instant_backend_def[THEN arg_cong[where f = be_alloc]]
        instant_backend_def[THEN arg_cong[where f = be_max_local]] init_buffers_def local_bounds_def zero_dev_def VB_DEV_MIN_LOCAL_def
        floor zero_ctx_def max_global_def VB_DEV_PER_CU_def VB_DEV_MAX_LOCAL_def round_up_def Let_def instant_pins)
  then obtain c where c: "vb_dev_ctx_init ?env instant_backend ?dev corpus 1 1 1 ?opt = Some (True, c)" by blast
  have g: "dc_global_size c = 256" "dc_local_size c = 128"
    using init_settles[OF c] l by (simp_all add: placed_def)
  have bi: "device_builtins (wd_builtins (plain_world 4 256 128))" by (simp add: plain_world_def manual.device_builtins_axioms)
  have m: "the_alg VB_ALG_MD5 = md5_alg" by (simp add: the_alg_def)
  have "\<exists>p. kernel_partials (plain_world 4 256 128) VB_ALG_MD5 c 2 = Some p
      \<and> fold_partials c p zero_checksum = vb_reference_checksum True (the_alg VB_ALG_MD5) (3 + of_nat (1 * 1 * 64)) (1 * 1 * 64) 20 2"
    by (rule device_kernels_reference[OF bi B[folded m] _ _ _ _ _ _ c])
      (auto simp: VB_MAX_MSG_BYTES_def g m md5_alg_def plain_world_ok split: if_splits)
  then show ?thesis using B c by (simp add: m)
qed

end
