(* ===== verification/Cli_Parse.thy ===== *)
theory Cli_Parse
  imports Decimal Device_List Measure_Cpu
begin

text \<open>
  The argument parsers of src/main.c, over \<open>strtol\<close>, \<open>strtoul\<close> and \<open>strtoull\<close> of the C library with a
  64-bit long, and the text of a reference ladder, whose checksums \<open>--expect\<close> reads back.  A parser
  that refuses its argument gives \<open>None\<close>; the message it prints on stderr is left out.
\<close>

section \<open>Numbers as the C library reads them\<close>

definition c_isspace :: "char \<Rightarrow> bool" where
  "c_isspace c \<longleftrightarrow> c = CHR '' '' \<or> (9 \<le> (of_char c :: nat) \<and> (of_char c :: nat) \<le> 13)"

definition split_sign :: "string \<Rightarrow> bool \<times> string" where
  "split_sign t =
    (case t of [] \<Rightarrow> (False, [])
     | c # r \<Rightarrow> if c = CHR ''-'' then (True, r) else if c = CHR ''+'' then (False, r) else (False, t))"

text \<open>Sign, digits and what follows them; \<open>None\<close> when no digits are found, where \<open>endptr\<close> is the
  argument itself.\<close>

definition scan_number :: "string \<Rightarrow> (bool \<times> string \<times> string) option" where
  "scan_number s =
    (let (neg, u) = split_sign (dropWhile c_isspace s);
         ds = takeWhile is_digit u
     in if ds = [] then None else Some (neg, ds, dropWhile is_digit u))"

text \<open>The value, \<open>ERANGE\<close>, and the rest.\<close>

definition c_strtoul :: "string \<Rightarrow> (nat \<times> bool \<times> string) option" where
  "c_strtoul s =
    (case scan_number s of None \<Rightarrow> None
     | Some (neg, ds, rest) \<Rightarrow>
         let v = undec ds
         in Some (if 2 ^ 64 \<le> v then (2 ^ 64 - 1, True, rest)
                  else if neg then ((2 ^ 64 - v) mod 2 ^ 64, False, rest) else (v, False, rest)))"

definition c_strtol :: "string \<Rightarrow> (int \<times> bool \<times> string) option" where
  "c_strtol s =
    (case scan_number s of None \<Rightarrow> None
     | Some (neg, ds, rest) \<Rightarrow>
         let v = int (undec ds)
         in Some (if neg then (if 2 ^ 63 < v then (- (2 ^ 63), True, rest) else (- v, False, rest))
                  else (if 2 ^ 63 \<le> v then (2 ^ 63 - 1, True, rest) else (v, False, rest))))"

lemma split_sign_length: "split_sign t = (g, u) \<Longrightarrow> length u \<le> length t"
  by (cases t) (auto simp: split_sign_def split: if_splits)

lemma scan_shrinks: "scan_number s = Some (neg, ds, rest) \<Longrightarrow> length rest < length s"
proof -
  assume A: "scan_number s = Some (neg, ds, rest)"
  obtain g u where u: "split_sign (dropWhile c_isspace s) = (g, u)" by (cases "split_sign (dropWhile c_isspace s)")
  have d: "ds = takeWhile is_digit u" "rest = dropWhile is_digit u" "ds \<noteq> []"
    using A by (auto simp: scan_number_def u Let_def split: if_splits)
  have "length u \<le> length (dropWhile c_isspace s)"  using u by (rule split_sign_length)
  also have "\<dots> \<le> length s" by (rule length_dropWhile_le)
  finally have "length u \<le> length s" .
  moreover have "length ds + length rest = length u" using d(1,2) by (metis length_append takeWhile_dropWhile_id)
  ultimately show ?thesis using d(3) by (cases ds) auto
qed

lemma strtoul_shrinks: "c_strtoul s = Some (v, e, rest) \<Longrightarrow> length rest < length s"
  by (auto simp: c_strtoul_def Let_def split: option.splits if_splits dest: scan_shrinks)

lemma strtol_shrinks: "c_strtol s = Some (v, e, rest) \<Longrightarrow> length rest < length s"
  by (auto simp: c_strtol_def Let_def split: option.splits if_splits dest: scan_shrinks)

text \<open>A printed number reads back, up to a character that is no digit.\<close>

lemma scan_dec:
  assumes "rest = [] \<or> \<not> is_digit (hd rest)"
  shows "scan_number (dec n @ rest) = Some (False, dec n, rest)"
proof -
  obtain c cs where c: "dec n = c # cs" "is_digit c"
    using dec_digits[of n] by (cases "dec n") auto
  have plain: "\<not> c_isspace c" "c \<noteq> CHR ''-''" "c \<noteq> CHR ''+''"
    using c(2) by (auto simp: is_digit_def c_isspace_def)
  have "dropWhile c_isspace (dec n @ rest) = dec n @ rest" using c plain by simp
  moreover have "takeWhile is_digit (dec n @ rest) = dec n" "dropWhile is_digit (dec n @ rest) = rest"
    using assms dec_digits[of n] by (cases rest; simp add: takeWhile_append dropWhile_append list_all_iff)+
  ultimately show ?thesis using c plain by (simp add: scan_number_def split_sign_def)
qed

lemma strtoul_dec:
  assumes "n < 2 ^ 64" "rest = [] \<or> \<not> is_digit (hd rest)"
  shows "c_strtoul (dec n @ rest) = Some (n, False, rest)"
  using assms(1) by (simp add: c_strtoul_def scan_dec[OF assms(2)])


section \<open>The parsers\<close>

definition VB_MIN_MSG_BYTES :: nat where "VB_MIN_MSG_BYTES = 1"
definition VB_MAX_ITERS :: nat where "VB_MAX_ITERS = 1000000"
definition VB_MAX_LADDER :: nat where "VB_MAX_LADDER = 64"

text \<open>The loop of \<open>parse_devices\<close> over what is left of the argument.\<close>

function device_loop :: "string \<Rightarrow> vb_config \<Rightarrow> vb_config option" where
  "device_loop p cfg =
    (if p = [] then Some cfg
     else case c_strtol p of
            None \<Rightarrow> None
          | Some (v, erange, rest) \<Rightarrow>
              if erange \<or> v < 0 \<or> int VB_DEV_MAX - 1 < v then None
              else if VB_DEV_MAX \<le> cf_device_count cfg then None
              else if v \<in> set (take (cf_device_count cfg) (cf_device_index cfg)) then None
              else device_loop (dropWhile (\<lambda>c. c = CHR '','' \<or> c = CHR '' '') rest)
                     (cfg\<lparr>cf_device_index := (cf_device_index cfg)[cf_device_count cfg := v],
                          cf_device_count := cf_device_count cfg + 1\<rparr>))"
  by auto
termination
  by (relation "measure (\<lambda>(p, cfg). length p)")
    (auto dest!: strtol_shrinks intro: le_less_trans[OF length_dropWhile_le])

declare device_loop.simps [simp del]

definition parse_devices :: "string \<Rightarrow> vb_config \<Rightarrow> vb_config option" where
  "parse_devices spec cfg =
    (let cfg = cfg\<lparr>cf_device_count := 0\<rparr>
     in if spec = ''all'' then Some cfg else device_loop spec cfg)"

text \<open>\<open>strtok\<close> at commas: the runs of other characters.\<close>

function comma_tokens :: "string \<Rightarrow> string list" where
  "comma_tokens s =
    (let t = dropWhile (\<lambda>c. c = CHR '','') s
     in if t = [] then [] else takeWhile (\<lambda>c. c \<noteq> CHR '','') t # comma_tokens (dropWhile (\<lambda>c. c \<noteq> CHR '','') t))"
  by auto
termination
proof (relation "measure length")
  fix s t :: string
  assume t: "t = dropWhile (\<lambda>c. c = CHR '','') s" "t \<noteq> []"
  obtain a as where ta: "t = a # as" "a \<noteq> CHR '',''"
    using t by (metis (mono_tags, lifting) hd_dropWhile list.exhaust_sel)
  have "length (dropWhile (\<lambda>c. c \<noteq> CHR '','') t) \<le> length as" using ta by (simp add: length_dropWhile_le)
  moreover have "length t \<le> length s" by (simp add: t(1) length_dropWhile_le)
  ultimately show "(dropWhile (\<lambda>c. c \<noteq> CHR '','') t, s) \<in> measure length" using ta by simp
qed simp

declare comma_tokens.simps [simp del]

definition backend_bits :: "string \<Rightarrow> u32" where
  "backend_bits tok =
    fold (\<lambda>b m. if tok = vb_backend_name (int b) then m OR push_bit b 1 else m) [0..<2] 0"

fun backend_loop :: "string list \<Rightarrow> u32 \<Rightarrow> u32 option" where
  "backend_loop [] bits = Some bits"
| "backend_loop (tok # toks) bits =
    (if backend_bits tok = 0 then None else backend_loop toks (bits OR backend_bits tok))"

text \<open>The argument is cut to the buffer.\<close>

definition parse_backends :: "string \<Rightarrow> vb_config \<Rightarrow> vb_config option" where
  "parse_backends spec cfg =
    (let buf = snprintf_into 128 spec
     in if buf = ''any'' then Some (cfg\<lparr>cf_backend_mask := 0\<rparr>)
        else map_option (\<lambda>mask. cfg\<lparr>cf_backend_mask := mask\<rparr>) (backend_loop (comma_tokens buf) 0))"

definition parse_geometry :: "string \<Rightarrow> vb_config \<Rightarrow> vb_config option" where
  "parse_geometry spec cfg =
    (case c_strtoul spec of
       None \<Rightarrow> None
     | Some (g, erange, rest) \<Rightarrow>
         if rest = [] \<or> hd rest \<noteq> CHR '','' \<or> erange \<or> g = 0 \<or> hd spec = CHR ''-'' then None
         else case c_strtoul (tl rest) of
                None \<Rightarrow> None
              | Some (l, erange', rest') \<Rightarrow>
                  if rest' \<noteq> [] \<or> erange' \<or> l = 0 \<or> hd (tl rest) = CHR ''-'' \<or> (2 ^ 64 - 1) div 2 < g \<or> 65536 < l
                  then None else Some (cfg\<lparr>cf_pin_global := g, cf_pin_local := l\<rparr>))"

definition parse_uint :: "string \<Rightarrow> nat \<Rightarrow> nat \<Rightarrow> nat option" where
  "parse_uint arg lo hi =
    (if arg = [] then None
     else if (case dropWhile c_isspace arg of [] \<Rightarrow> False | c # r \<Rightarrow> c = CHR ''-'') then None
     else case c_strtoul arg of
            None \<Rightarrow> None
          | Some (v, erange, rest) \<Rightarrow>
              if rest \<noteq> [] then None
              else if erange \<or> v < lo \<or> hi < v then None else Some v)"

definition is_hex :: "char \<Rightarrow> bool" where
  "is_hex c \<longleftrightarrow> is_digit c \<or> (97 \<le> (of_char c :: nat) \<and> (of_char c :: nat) \<le> 102)
     \<or> (65 \<le> (of_char c :: nat) \<and> (of_char c :: nat) \<le> 70)"

definition hex_val :: "char \<Rightarrow> nat" where
  "hex_val c = (if is_digit c then digit_val c else if (of_char c :: nat) \<ge> 97 then of_char c - 87 else of_char c - 55)"

text \<open>\<open>strtoull\<close> in base 16 over at most sixteen hexadecimal digits.\<close>

definition unhex :: "string \<Rightarrow> nat" where
  "unhex s = foldl (\<lambda>v c. v * 16 + hex_val c) 0 s"

definition parse_expect :: "string \<Rightarrow> vb_config \<Rightarrow> vb_config option" where
  "parse_expect hex cfg =
    (let nib = word_bytes (cf_alg cfg) * 2; want = digest_words (cf_alg cfg) * nib
     in if \<not> list_all is_hex hex \<or> length hex \<noteq> want then None
        else Some (cfg\<lparr>cf_expected :=
               fold (\<lambda>i ex. ex[i := of_nat (unhex (take nib (drop (i * nib) hex)))]) [0..<digest_words (cf_alg cfg)] zero_checksum,
             cf_have_expected := True\<rparr>))"

text \<open>\<open>parse_ladder\<close>: the counts read so far and what is left.\<close>

function ladder_loop :: "string \<Rightarrow> nat \<Rightarrow> nat list \<Rightarrow> nat list option" where
  "ladder_loop p most out =
    (if p = [] then Some out
     else case c_strtoul p of
            None \<Rightarrow> None
          | Some (v, erange, rest) \<Rightarrow>
              if erange \<or> v < 1 \<or> VB_MAX_ITERS < v then None
              else if length out = most then None
              else if out \<noteq> [] \<and> v \<le> last out then None
              else if rest \<noteq> [] \<and> hd rest \<noteq> CHR '','' then None
              else ladder_loop (tl rest) most (out @ [v]))"
  by auto
termination
  by (relation "measure (\<lambda>(p, most, out). length p)") (auto dest!: strtoul_shrinks)

declare ladder_loop.simps [simp del]

definition parse_ladder :: "string \<Rightarrow> nat \<Rightarrow> nat list option" where
  "parse_ladder arg most =
    (case ladder_loop arg most [] of None \<Rightarrow> None | Some out \<Rightarrow> if out = [] then None else Some out)"


section \<open>The reference ladder\<close>

definition hex_char :: "nat \<Rightarrow> char" where
  "hex_char d = (if d < 10 then digit_char d else char_of (87 + d))"

text \<open>\<open>n\<close> digits of a value below \<open>16 ^ n\<close>.\<close>

primrec hex_digits :: "nat \<Rightarrow> nat \<Rightarrow> string" where
  "hex_digits 0 v = []"
| "hex_digits (Suc n) v = hex_digits n (v div 16) @ [hex_char (v mod 16)]"

definition checksum_hex :: "vb_algorithm \<Rightarrow> checksum \<Rightarrow> string" where
  "checksum_hex alg row =
    concat (map (\<lambda>i. if word_bytes alg = 8 then hex_digits 16 (unat (row ! i))
                     else hex_digits 8 (unat (row ! i) mod 2 ^ 32)) [0..<digest_words alg])"

definition newline :: string where "newline = [char_of (10 :: nat)]"

definition ladder_json :: "vb_config \<Rightarrow> nat list \<Rightarrow> checksum list \<Rightarrow> string" where
  "ladder_json cfg iters out =
    ''{'' @ newline @ ''  \"schema\": \"valubench/reference/1\",'' @ newline @
    ''  \"algorithm\": \"'' @ alg_name (cf_alg cfg) @ ''\",'' @ newline @
    ''  \"message_bytes\": '' @ dec (cf_message_bytes cfg) @ '','' @ newline @
    ''  \"working_set_kb\": '' @ dec (cf_working_set_kb cfg) @ '','' @ newline @
    ''  \"start_index\": 0,'' @ newline @
    ''  \"count\": '' @ dec (vb_batch_messages cfg) @ '','' @ newline @
    ''  \"checksums\": ['' @ newline @
    concat (map (\<lambda>k. ''    { \"iterations\": '' @ dec (iters ! k) @ '', \"checksum\": \"'' @ checksum_hex (cf_alg cfg) (out ! k) @
      ''\" }'' @ (if k + 1 < length iters then '','' else []) @ newline) [0..<length iters]) @
    ''  ]'' @ newline @ ''}'' @ newline"

text \<open>The table of the checksums; \<open>None\<close> without the memory for it.\<close>

definition ladder_table :: "ref_env \<Rightarrow> nat \<Rightarrow> vb_config \<Rightarrow> nat list \<Rightarrow> checksum list" where
  "ladder_table env threads cfg iters =
    vb_reference_checksums_mt env (cf_alg cfg) 0 (vb_batch_messages cfg) (cf_message_bytes cfg) iters threads"

definition emit_reference_ladder :: "ref_env \<Rightarrow> bool \<Rightarrow> nat \<Rightarrow> vb_config \<Rightarrow> nat list \<Rightarrow> string option" where
  "emit_reference_ladder env table_ok threads cfg iters =
    (if \<not> table_ok then None else Some (ladder_json cfg iters (ladder_table env threads cfg iters)))"

end
