(* ===== verification/Power_Meter.thy ===== *)
theory Power_Meter
  imports Cli_Parse
begin

text \<open>
  src/power.c: the energy sources of a machine, their discovery under /sys and through NVML, the two
  samples around the timed region, and what is summed of them.  The file system and the NVML library
  are arguments, asked at the moment of each call; an open file is the path it was opened by.  NVML
  handles are of a type of their own.
\<close>

section \<open>Sources\<close>

definition VB_POWER_MAX_SRC :: nat where "VB_POWER_MAX_SRC = 16"

datatype vb_power_scope = VB_PWR_CPU_PACKAGE | VB_PWR_CPU_CORES | VB_PWR_GPU | VB_PWR_OTHER

datatype vb_power_provider = VB_PWR_PROV_RAPL | VB_PWR_PROV_DRM | VB_PWR_PROV_NVML

datatype src_kind = SRC_POWERCAP | SRC_HWMON_ENERGY | SRC_HWMON_POWER | SRC_NVML

record vb_power_src =
  ps_name :: string
  ps_scope :: vb_power_scope
  ps_provider :: vb_power_provider
  ps_contained :: bool
  ps_dev_id :: string
  ps_kind :: src_kind
  ps_fd :: "string option"
  ps_nvml_index :: nat
  ps_wrap_uj :: u64
  ps_start_uj :: u64
  ps_joules :: double
  ps_valid :: bool
  ps_counted :: bool

text \<open>The array of sources up to \<open>n\<close>.\<close>

record vb_power =
  pw_src :: "vb_power_src list"
  pw_unavailable :: string

definition zero_src :: vb_power_src where
  "zero_src = \<lparr>ps_name = [], ps_scope = VB_PWR_CPU_PACKAGE, ps_provider = VB_PWR_PROV_RAPL, ps_contained = False, ps_dev_id = [],
     ps_kind = SRC_POWERCAP, ps_fd = None, ps_nvml_index = 0, ps_wrap_uj = 0, ps_start_uj = 0, ps_joules = Fin 0,
     ps_valid = False, ps_counted = False\<rparr>"

fun provider_rank :: "vb_power_provider \<Rightarrow> nat" where
  "provider_rank VB_PWR_PROV_RAPL = 0" | "provider_rank VB_PWR_PROV_DRM = 1" | "provider_rank VB_PWR_PROV_NVML = 2"


section \<open>Reading files\<close>

record power_fs =
  fs_dir :: "string \<Rightarrow> string list option"
  fs_text :: "string \<Rightarrow> string option"
  fs_link :: "string \<Rightarrow> string option"

text \<open>What \<open>read\<close> gave, up to 63 bytes, as \<open>strtoull\<close> takes it: no digits are 0.\<close>

definition read_u64 :: "string option \<Rightarrow> u64 option" where
  "read_u64 text =
    (case text of None \<Rightarrow> None
     | Some t \<Rightarrow> if t = [] then None
                 else Some (case c_strtoul (take 63 t) of None \<Rightarrow> 0 | Some (v, _, _) \<Rightarrow> of_nat v))"

definition read_str_path :: "power_fs \<Rightarrow> string \<Rightarrow> nat \<Rightarrow> string" where
  "read_str_path fs path n =
    (case fs_text fs path of None \<Rightarrow> []
     | Some t \<Rightarrow> takeWhile (\<lambda>c. c \<noteq> CHR 0x0D \<and> c \<noteq> CHR 0x0A \<and> c \<noteq> CHR 0x00) (take (n - 1) t))"

definition starts :: "string \<Rightarrow> string \<Rightarrow> bool" where
  "starts p s \<longleftrightarrow> take (length p) s = p"

text \<open>\<open>strstr\<close>.\<close>

fun has_text :: "string \<Rightarrow> string \<Rightarrow> bool" where
  "has_text [] t \<longleftrightarrow> starts t []"
| "has_text (c # s) t \<longleftrightarrow> starts t (c # s) \<or> has_text s t"


section \<open>The domains of powercap\<close>

text \<open>Scope, containment and label of a RAPL domain by its name.\<close>

definition rapl_domain :: "string \<Rightarrow> vb_power_scope \<times> bool \<times> string" where
  "rapl_domain name =
    (if has_text name ''package'' then (VB_PWR_CPU_PACKAGE, False, ''RAPL '' @ name)
     else if has_text name ''core'' \<and> \<not> has_text name ''uncore'' then (VB_PWR_CPU_CORES, False, ''RAPL '' @ name)
     else if has_text name ''uncore'' then (VB_PWR_GPU, True, ''RAPL uncore (integrated GPU)'')
     else if has_text name ''psys'' then (VB_PWR_OTHER, True, ''RAPL psys (whole platform)'')
     else (VB_PWR_OTHER, False, ''RAPL '' @ name))"

text \<open>A directory entry: none of ours, unreadable, or a source.\<close>

definition powercap_source :: "power_fs \<Rightarrow> string \<Rightarrow> vb_power_src option option" where
  "powercap_source fs e =
    (if \<not> starts ''intel-rapl:'' e \<and> \<not> starts ''amd-rapl:'' e then None
     else
       let base = ''/sys/class/powercap/'' @ e;
           name = read_str_path fs (base @ ''/name'') 64;
           path = base @ ''/energy_uj''
       in if name = [] then None
          else if fs_text fs path = None then Some None
          else
            let wrap = (case read_u64 (fs_text fs (base @ ''/max_energy_range_uj'')) of
                          None \<Rightarrow> 2 ^ 32 | Some w \<Rightarrow> if w = 0 then 2 ^ 32 else w);
                (scope, contained, label) = rapl_domain name
            in Some (Some (zero_src\<lparr>ps_kind := SRC_POWERCAP, ps_fd := Some path, ps_wrap_uj := wrap, ps_scope := scope,
                 ps_contained := contained, ps_name := snprintf_into 80 label\<rparr>)))"

fun powercap_loop :: "power_fs \<Rightarrow> string list \<Rightarrow> vb_power_src list \<Rightarrow> bool \<Rightarrow> vb_power_src list \<times> bool" where
  "powercap_loop fs [] src denied = (src, denied)"
| "powercap_loop fs (e # es) src denied =
    (case powercap_source fs e of
       None \<Rightarrow> powercap_loop fs es src denied
     | Some None \<Rightarrow> powercap_loop fs es src True
     | Some (Some s) \<Rightarrow>
         if VB_POWER_MAX_SRC \<le> length src then (src, denied) else powercap_loop fs es (src @ [s]) denied)"

definition scan_powercap :: "power_fs \<Rightarrow> vb_power_src list \<Rightarrow> bool \<Rightarrow> vb_power_src list \<times> bool" where
  "scan_powercap fs src denied =
    (case fs_dir fs ''/sys/class/powercap'' of None \<Rightarrow> (src, denied) | Some es \<Rightarrow> powercap_loop fs es src denied)"


section \<open>The cards of the kernel\<close>

text \<open>The last component of a link, unless it is too long for an address.\<close>

definition pci_of_link :: "string option \<Rightarrow> string" where
  "pci_of_link link =
    (case link of None \<Rightarrow> []
     | Some l \<Rightarrow> let tail = rev (takeWhile (\<lambda>c. c \<noteq> CHR ''/'') (rev l)) in if length tail < 32 then tail else [])"

definition hwmon_source :: "power_fs \<Rightarrow> string \<Rightarrow> string \<Rightarrow> string \<Rightarrow> string \<Rightarrow> vb_power_src option" where
  "hwmon_source fs base devid no e =
    (if \<not> starts ''hwmon'' e then None
     else
       let node = base @ ''/'' @ e;
           hname = read_str_path fs (node @ ''/name'') 32;
           (path, kind) = (if fs_text fs (node @ ''/energy1_input'') \<noteq> None then (node @ ''/energy1_input'', SRC_HWMON_ENERGY)
                           else (node @ ''/power1_average'', SRC_HWMON_POWER))
       in if fs_text fs path = None then None
          else Some (zero_src\<lparr>ps_kind := kind, ps_fd := Some path, ps_scope := VB_PWR_GPU, ps_provider := VB_PWR_PROV_DRM,
            ps_dev_id := snprintf_into 32 devid,
            ps_name := snprintf_into 80 (''card'' @ no @ '' '' @ (if hname \<noteq> [] then hname else ''hwmon'') @
              (if kind = SRC_HWMON_POWER then '' (avg power)'' else []))\<rparr>))"

fun hwmon_loop :: "power_fs \<Rightarrow> string \<Rightarrow> string \<Rightarrow> string \<Rightarrow> string list \<Rightarrow> vb_power_src list \<Rightarrow> vb_power_src list" where
  "hwmon_loop fs base devid no [] src = src"
| "hwmon_loop fs base devid no (e # es) src =
    (case hwmon_source fs base devid no e of
       None \<Rightarrow> hwmon_loop fs base devid no es src
     | Some s \<Rightarrow> if VB_POWER_MAX_SRC \<le> length src then src else hwmon_loop fs base devid no es (src @ [s]))"

text \<open>The number \<open>sscanf\<close> finds after \<open>card\<close>, as it is printed again.\<close>

definition card_number :: "string \<Rightarrow> string option" where
  "card_number e =
    (if \<not> starts ''card'' e then None
     else case c_strtol (drop 4 e) of None \<Rightarrow> None
          | Some (v, _, _) \<Rightarrow> Some ((if v < 0 then ''-'' else []) @ dec (nat \<bar>v\<bar>)))"

text \<open>An entry that is a card with a hwmon directory: the path of that directory, the card's address and
  number, and the entries.\<close>

definition drm_card :: "power_fs \<Rightarrow> string \<Rightarrow> (string \<times> string \<times> string \<times> string list) option" where
  "drm_card fs e =
    (case card_number e of None \<Rightarrow> None
     | Some no \<Rightarrow>
         if CHR ''-'' \<in> set e then None
         else
           let devid = pci_of_link (fs_link fs (''/sys/class/drm/'' @ e @ ''/device''));
               base = ''/sys/class/drm/'' @ e @ ''/device/hwmon''
           in map_option (\<lambda>hs. (base, devid, no, hs)) (fs_dir fs base))"

fun drm_loop :: "power_fs \<Rightarrow> string list \<Rightarrow> vb_power_src list \<Rightarrow> vb_power_src list" where
  "drm_loop fs [] src = src"
| "drm_loop fs (e # es) src =
    (case drm_card fs e of None \<Rightarrow> drm_loop fs es src
     | Some (base, devid, no, hs) \<Rightarrow> drm_loop fs es (hwmon_loop fs base devid no hs src))"

definition scan_drm_hwmon :: "power_fs \<Rightarrow> vb_power_src list \<Rightarrow> vb_power_src list" where
  "scan_drm_hwmon fs src = (case fs_dir fs ''/sys/class/drm'' of None \<Rightarrow> src | Some es \<Rightarrow> drm_loop fs es src)"


section \<open>NVML\<close>

text \<open>The symbols of the library, \<open>None\<close> where it has none, and what they answer, \<open>None\<close> for a return
  that is not 0.\<close>

record 'h nvml_lib =
  nl_init :: "bool option"
  nl_count :: "nat option option"
  nl_handle :: "(nat \<Rightarrow> 'h option) option"
  nl_energy :: "('h \<Rightarrow> u64 option) option"
  nl_power :: "('h \<Rightarrow> u32 option) option"
  nl_name :: "('h \<Rightarrow> string) option"
  nl_clock :: "('h \<Rightarrow> u32 option) option"
  nl_temp :: "('h \<Rightarrow> u32 option) option"
  nl_throttle :: "('h \<Rightarrow> u64 option) option"
  nl_pci :: "('h \<Rightarrow> string option) option"

text \<open>\<open>g_nvml\<close>: whether a library was loaded, whether it came up, and the handles found.\<close>

record 'h nvml =
  nv_lib :: bool
  nv_ready :: bool
  nv_dev :: "'h option list"
  nv_n_dev :: nat

definition nvml_zero :: "'h nvml" where
  "nvml_zero = \<lparr>nv_lib = False, nv_ready = False, nv_dev = replicate VB_POWER_MAX_SRC None, nv_n_dev = 0\<rparr>"

definition nvml_start :: "'h nvml_lib option \<Rightarrow> 'h nvml \<Rightarrow> bool \<times> 'h nvml" where
  "nvml_start lib g =
    (if nv_ready g then (True, g)
     else if nv_lib g then (False, g)
     else case lib of None \<Rightarrow> (False, g)
          | Some l \<Rightarrow>
              let g = g\<lparr>nv_lib := True\<rparr>
              in if nl_init l = None \<or> nl_count l = None \<or> nl_handle l = None \<or> nl_init l = Some False then (False, g)
                 else (True, g\<lparr>nv_ready := True\<rparr>))"

text \<open>The first fifteen characters of what \<open>nvmlDeviceGetPciInfo\<close> wrote, if it answers at all.\<close>

definition nvml_pci :: "'h nvml_lib \<Rightarrow> 'h \<Rightarrow> string option" where
  "nvml_pci l h = (case nl_pci l of None \<Rightarrow> None | Some f \<Rightarrow> map_option (take 15) (f h))"

definition nvml_source :: "'h nvml_lib \<Rightarrow> nat \<Rightarrow> 'h \<Rightarrow> vb_power_src" where
  "nvml_source l i h =
    (let devid = (case nvml_pci l h of None \<Rightarrow> [] | Some a \<Rightarrow> snprintf_into 32 a);
         nm = (case nl_name l of None \<Rightarrow> [] | Some f \<Rightarrow> take 78 (f h))
     in zero_src\<lparr>ps_kind := SRC_NVML, ps_scope := VB_PWR_GPU, ps_provider := VB_PWR_PROV_NVML, ps_nvml_index := i,
          ps_dev_id := devid,
          ps_name := snprintf_into 80 (''NVML '' @ (if nm \<noteq> [] then nm else ''GPU'') @
            (if nl_energy l \<noteq> None then [] else '' (avg power)''))\<rparr>)"

fun nvml_loop :: "'h nvml_lib \<Rightarrow> nat list \<Rightarrow> vb_power_src list \<Rightarrow> 'h nvml \<Rightarrow> vb_power_src list \<times> 'h nvml" where
  "nvml_loop l [] src g = (src, g)"
| "nvml_loop l (i # is) src g =
    (case Option.bind (nl_handle l) (\<lambda>f. f i) of None \<Rightarrow> nvml_loop l is src g
     | Some h \<Rightarrow>
         if nl_energy l = None \<and> nl_power l = None then nvml_loop l is src g
         else if VB_POWER_MAX_SRC \<le> length src then (src, g)
         else nvml_loop l is (src @ [nvml_source l i h])
           (g\<lparr>nv_dev := (nv_dev g)[i := Some h], nv_n_dev := (if nv_n_dev g < i + 1 then i + 1 else nv_n_dev g)\<rparr>))"

definition scan_nvml :: "'h nvml_lib option \<Rightarrow> vb_power_src list \<Rightarrow> 'h nvml \<Rightarrow> vb_power_src list \<times> 'h nvml" where
  "scan_nvml lib src g =
    (let (ok, g) = nvml_start lib g
     in if \<not> ok then (src, g)
        else case Option.bind lib (\<lambda>l. Option.bind (nl_count l) (\<lambda>n. map_option (\<lambda>k. (l, k)) n)) of
               None \<Rightarrow> (src, g)
             | Some (l, found) \<Rightarrow> nvml_loop l [0..<min found VB_POWER_MAX_SRC] src g)"


section \<open>Opening and closing\<close>

definition RAPL_DENIED :: string where
  "RAPL_DENIED = ''RAPL counters exist but are not readable by this user; '' @
     ''they are root-only on most distributions, as hardening '' @
     ''against the PLATYPUS side channel. Either run as root, '' @
     ''or: sudo chmod a+r '' @
     ''/sys/class/powercap/intel-rapl:*/energy_uj  (note sysfs '' @
     ''does not support ACLs, so setfacl cannot be used, and '' @
     ''the mode resets on reboot unless set from a udev rule).''"

definition vb_power_open :: "power_fs \<Rightarrow> 'h nvml_lib option \<Rightarrow> 'h nvml \<Rightarrow> vb_power \<times> 'h nvml" where
  "vb_power_open fs lib g =
    (let (src, denied) = scan_powercap fs [] False;
         src = scan_drm_hwmon fs src;
         (src, g) = scan_nvml lib src g
     in (\<lparr>pw_src = src,
          pw_unavailable =
            (if src \<noteq> [] then []
             else if denied then snprintf_into 512 RAPL_DENIED
             else snprintf_into 512 (''no energy counters found (no RAPL, no DRM hwmon power '' @ ''node, no NVML)''))\<rparr>, g))"

definition vb_power_close :: "vb_power \<Rightarrow> vb_power \<times> 'h nvml" where
  "vb_power_close p = (p\<lparr>pw_src := map (\<lambda>s. s\<lparr>ps_fd := None\<rparr>) (pw_src p)\<rparr>, nvml_zero)"


section \<open>Sampling\<close>

text \<open>The machine at the moment of a sample: its files, the library if it is up, and the handles.\<close>

definition power_sample :: "power_fs \<Rightarrow> 'h nvml_lib option \<Rightarrow> 'h nvml \<Rightarrow> vb_power_src \<Rightarrow> u64 option" where
  "power_sample fs lib g s =
    (if ps_kind s \<noteq> SRC_NVML then read_u64 (Option.bind (ps_fd s) (fs_text fs))
     else case (lib, nv_dev g ! ps_nvml_index s) of
            (Some l, Some h) \<Rightarrow>
              (case nl_energy l of
                 Some f \<Rightarrow> map_option (\<lambda>mj. mj * 1000) (f h)
               | None \<Rightarrow> (case nl_power l of Some f \<Rightarrow> map_option (\<lambda>mw. ucast mw * 1000) (f h) | None \<Rightarrow> None))
          | _ \<Rightarrow> None)"

definition vb_power_begin :: "(vb_power_src \<Rightarrow> u64 option) \<Rightarrow> vb_power \<Rightarrow> vb_power" where
  "vb_power_begin sample p = p\<lparr>pw_src := map (\<lambda>s.
     s\<lparr>ps_valid := (sample s \<noteq> None), ps_start_uj := (case sample s of None \<Rightarrow> ps_start_uj s | Some v \<Rightarrow> v),
       ps_joules := Fin 0\<rparr>) (pw_src p)\<rparr>"

text \<open>\<open>power_reading\<close> says that the source gives a power and not an energy.\<close>

definition power_reading :: "bool \<Rightarrow> vb_power_src \<Rightarrow> bool" where
  "power_reading has_energy s \<longleftrightarrow> ps_kind s = SRC_HWMON_POWER \<or> (ps_kind s = SRC_NVML \<and> \<not> has_energy)"

definition micro :: double where "micro = num 1000000"

definition source_end :: "bool \<Rightarrow> (vb_power_src \<Rightarrow> u64 option) \<Rightarrow> double \<Rightarrow> vb_power_src \<Rightarrow> vb_power_src" where
  "source_end has_energy sample seconds s =
    (case (if ps_valid s then sample s else None) of
       None \<Rightarrow> s\<lparr>ps_valid := False\<rparr>
     | Some now \<Rightarrow>
         if power_reading has_energy s then
           s\<lparr>ps_joules := d_mul (d_div (d_div (d_add (of_nat_d (unat (ps_start_uj s))) (of_nat_d (unat now))) (num 2)) micro) seconds\<rparr>
         else if ps_start_uj s \<le> now then s\<lparr>ps_joules := d_div (of_nat_d (unat (now - ps_start_uj s))) micro\<rparr>
         else if 0 < ps_wrap_uj s then
           s\<lparr>ps_joules := d_div (of_nat_d (unat ((ps_wrap_uj s - ps_start_uj s) + now))) micro\<rparr>
         else s\<lparr>ps_valid := False, ps_joules := Fin 0\<rparr>)"

definition vb_power_end :: "bool \<Rightarrow> (vb_power_src \<Rightarrow> u64 option) \<Rightarrow> double \<Rightarrow> vb_power \<Rightarrow> vb_power" where
  "vb_power_end has_energy sample seconds p = p\<lparr>pw_src := map (source_end has_energy sample seconds) (pw_src p)\<rparr>"


section \<open>What is summed\<close>

definition lower_char :: "char \<Rightarrow> char" where
  "lower_char c = (let n = of_char c :: nat in if 65 \<le> n \<and> n \<le> 90 then char_of (n + 32) else c)"

definition same_text :: "string \<Rightarrow> string \<Rightarrow> bool" where
  "same_text a b \<longleftrightarrow> map lower_char a = map lower_char b"

definition duplicate_of_earlier :: "vb_power \<Rightarrow> nat \<Rightarrow> vb_power_scope \<Rightarrow> bool" where
  "duplicate_of_earlier p i scope =
    (let s = pw_src p ! i
     in ps_dev_id s \<noteq> [] \<and>
        (\<exists>j \<in> set [0..<length (pw_src p)].
           let o' = pw_src p ! j
           in j \<noteq> i \<and> ps_scope o' = scope \<and> ps_valid o' \<and> ps_dev_id o' \<noteq> [] \<and> same_text (ps_dev_id o') (ps_dev_id s)
              \<and> (provider_rank (ps_provider o') < provider_rank (ps_provider s)
                 \<or> (ps_provider o' = ps_provider s \<and> j < i))))"

text \<open>The sum of the joules of the sources a loop adds, in its order; -1 when it adds none.\<close>

definition joules_of :: "vb_power \<Rightarrow> nat list \<Rightarrow> double" where
  "joules_of p is = (if is = [] then num (- 1) else fold (\<lambda>i acc. d_add acc (ps_joules (pw_src p ! i))) is (Fin 0))"

definition scope_sources :: "vb_power \<Rightarrow> vb_power_scope \<Rightarrow> nat list" where
  "scope_sources p scope =
    filter (\<lambda>i. \<not> (ps_scope (pw_src p ! i) \<noteq> scope \<or> \<not> ps_valid (pw_src p ! i)) \<and> \<not> duplicate_of_earlier p i scope)
      [0..<length (pw_src p)]"

definition vb_power_scope_joules :: "vb_power \<Rightarrow> vb_power_scope \<Rightarrow> double" where
  "vb_power_scope_joules p scope = joules_of p (scope_sources p scope)"

definition total_sources :: "vb_power \<Rightarrow> nat list" where
  "total_sources p =
    concat (map (\<lambda>sc. filter (\<lambda>i. let s = pw_src p ! i in
        \<not> (ps_scope s \<noteq> sc \<or> \<not> ps_valid s \<or> ps_contained s \<or> sc = VB_PWR_CPU_CORES) \<and> \<not> duplicate_of_earlier p i sc)
      [0..<length (pw_src p)]) [VB_PWR_CPU_PACKAGE, VB_PWR_CPU_CORES, VB_PWR_GPU, VB_PWR_OTHER])"

definition vb_power_total_joules :: "vb_power \<Rightarrow> double" where
  "vb_power_total_joules p = joules_of p (total_sources p)"


section \<open>What hashed\<close>

text \<open>A null pointer in the array of addresses is \<open>None\<close>.\<close>

definition same_device :: "string \<Rightarrow> string option \<Rightarrow> bool" where
  "same_device a b \<longleftrightarrow> (case b of None \<Rightarrow> False | Some b \<Rightarrow> a \<noteq> [] \<and> b \<noteq> [] \<and> same_text a b)"

definition gpu_unmatched :: "vb_power \<Rightarrow> string option list \<Rightarrow> bool" where
  "gpu_unmatched p pci \<longleftrightarrow>
     (\<exists>a \<in> set pci. \<not> (\<exists>s \<in> set (pw_src p). ps_scope s = VB_PWR_GPU \<and> same_device (ps_dev_id s) a))"

definition source_counted :: "bool \<Rightarrow> bool \<Rightarrow> string option list \<Rightarrow> vb_power_src \<Rightarrow> bool" where
  "source_counted unmatched cpu_hashed pci s =
    (case ps_scope s of
       VB_PWR_CPU_PACKAGE \<Rightarrow> cpu_hashed
     | VB_PWR_CPU_CORES \<Rightarrow> cpu_hashed
     | VB_PWR_GPU \<Rightarrow>
         (let counted = (if ps_dev_id s \<noteq> [] then (\<exists>a \<in> set pci. same_device (ps_dev_id s) a) else pci \<noteq> [] \<and> unmatched)
          in if ps_contained s \<and> cpu_hashed then False else counted)
     | VB_PWR_OTHER \<Rightarrow> cpu_hashed \<and> \<not> ps_contained s)"

definition vb_power_attribute :: "vb_power \<Rightarrow> bool \<Rightarrow> string option list \<Rightarrow> vb_power" where
  "vb_power_attribute p cpu_hashed pci =
     p\<lparr>pw_src := map (\<lambda>s. s\<lparr>ps_counted := source_counted (gpu_unmatched p pci) cpu_hashed pci s\<rparr>) (pw_src p)\<rparr>"

definition hashing_sources :: "vb_power \<Rightarrow> nat list" where
  "hashing_sources p =
    filter (\<lambda>i. let s = pw_src p ! i in
        \<not> (\<not> ps_valid s \<or> \<not> ps_counted s) \<and>
        \<not> (ps_scope s = VB_PWR_CPU_CORES \<or> (ps_contained s \<and> ps_scope s \<noteq> VB_PWR_GPU)) \<and>
        \<not> duplicate_of_earlier p i (ps_scope s)) [0..<length (pw_src p)]"

definition vb_power_hashing_joules :: "vb_power \<Rightarrow> double" where
  "vb_power_hashing_joules p = joules_of p (hashing_sources p)"

fun vb_power_scope_name :: "vb_power_scope \<Rightarrow> string" where
  "vb_power_scope_name VB_PWR_CPU_PACKAGE = ''cpu_package''"
| "vb_power_scope_name VB_PWR_CPU_CORES = ''cpu_cores''"
| "vb_power_scope_name VB_PWR_GPU = ''gpu''"
| "vb_power_scope_name VB_PWR_OTHER = ''other''"


section \<open>The clocks of the cards\<close>

definition VB_GPU_SELECT_MAX :: nat where "VB_GPU_SELECT_MAX = 32"

record vb_gpu_clocks =
  gc_valid :: bool
  gc_n_samples :: nat
  gc_n_devices :: nat
  gc_sm_first :: u32
  gc_sm_last :: u32
  gc_sm_min :: u32
  gc_sm_max :: u32
  gc_temp_first :: int
  gc_temp_last :: int
  gc_temp_max :: int
  gc_throttle_seen :: u64

text \<open>The addresses telemetry is restricted to; an unidentified device lifts the restriction.\<close>

fun gpu_select :: "string option list \<Rightarrow> string list \<Rightarrow> string list" where
  "gpu_select [] sel = sel"
| "gpu_select (a # as) sel =
    (if VB_GPU_SELECT_MAX \<le> length sel then sel
     else case a of None \<Rightarrow> [] | Some a \<Rightarrow> if a = [] then [] else gpu_select as (sel @ [snprintf_into 16 a]))"

definition vb_gpu_clocks_select :: "string option list \<Rightarrow> string list" where
  "vb_gpu_clocks_select pci = gpu_select pci []"

definition gpu_selected :: "'h nvml_lib option \<Rightarrow> 'h nvml \<Rightarrow> string list \<Rightarrow> nat \<Rightarrow> bool" where
  "gpu_selected lib g sel i =
    (if sel = [] then True
     else case (lib, nv_dev g ! i) of
            (Some l, Some h) \<Rightarrow>
              (if nl_pci l = None then True
               else case nvml_pci l h of None \<Rightarrow> True | Some info \<Rightarrow> \<exists>a \<in> set sel. same_text info a)
          | _ \<Rightarrow> True)"

text \<open>\<open>g_use\<close>, and the aggregate zeroed.\<close>

definition vb_gpu_clocks_reset :: "'h nvml_lib option \<Rightarrow> 'h nvml \<Rightarrow> string list \<Rightarrow> bool list \<times> vb_gpu_clocks" where
  "vb_gpu_clocks_reset lib g sel =
    (let use = map (\<lambda>i. nv_ready g \<and> i < nv_n_dev g \<and> nv_dev g ! i \<noteq> None \<and> gpu_selected lib g sel i) [0..<VB_POWER_MAX_SRC]
     in (use, \<lparr>gc_valid = False, gc_n_samples = 0, gc_n_devices = length (filter (\<lambda>u. u) use), gc_sm_first = 0, gc_sm_last = 0,
          gc_sm_min = 0, gc_sm_max = 0, gc_temp_first = - 1, gc_temp_last = - 1, gc_temp_max = - 1, gc_throttle_seen = 0\<rparr>))"

text \<open>The loop of a sample: the highest clock and temperature, whether a device answered, and the mask.\<close>

definition clock_step ::
  "'h nvml_lib \<Rightarrow> 'h nvml \<Rightarrow> bool list \<Rightarrow> nat \<Rightarrow> u32 \<times> int \<times> bool \<times> u64 \<Rightarrow> u32 \<times> int \<times> bool \<times> u64" where
  "clock_step l g use i x = (case x of (sm_hi, temp_hi, got, seen) \<Rightarrow>
    (case (nv_dev g ! i, nl_clock l) of
       (Some h, Some clock) \<Rightarrow>
         if \<not> use ! i then x
         else (case clock h of None \<Rightarrow> x
               | Some mhz \<Rightarrow>
                   if mhz = 0 then x
                   else
                     (if sm_hi < mhz then mhz else sm_hi,
                      (case Option.bind (nl_temp l) (\<lambda>f. f h) of None \<Rightarrow> temp_hi
                       | Some t \<Rightarrow> if temp_hi < sint t then sint t else temp_hi),
                      True,
                      (case Option.bind (nl_throttle l) (\<lambda>f. f h) of None \<Rightarrow> seen | Some why \<Rightarrow> seen OR why)))
     | _ \<Rightarrow> x))"

definition vb_gpu_clocks_sample :: "'h nvml_lib option \<Rightarrow> 'h nvml \<Rightarrow> bool list \<Rightarrow> vb_gpu_clocks \<Rightarrow> vb_gpu_clocks" where
  "vb_gpu_clocks_sample lib g use c =
    (case lib of None \<Rightarrow> c
     | Some l \<Rightarrow>
         if \<not> nv_ready g \<or> nl_clock l = None \<or> nv_n_dev g = 0 then c
         else
           let (sm_hi, temp_hi, got, seen) = fold (clock_step l g use) [0..<nv_n_dev g] (0, - 1, False, gc_throttle_seen c);
               c = c\<lparr>gc_throttle_seen := seen\<rparr>
           in if \<not> got then c
              else
                let c = (if \<not> gc_valid c then
                           c\<lparr>gc_valid := True, gc_sm_first := sm_hi, gc_sm_min := sm_hi, gc_sm_max := sm_hi,
                             gc_temp_first := temp_hi, gc_temp_max := temp_hi\<rparr>
                         else
                           c\<lparr>gc_sm_min := (if sm_hi < gc_sm_min c then sm_hi else gc_sm_min c),
                             gc_sm_max := (if gc_sm_max c < sm_hi then sm_hi else gc_sm_max c),
                             gc_temp_max := (if gc_temp_max c < temp_hi then temp_hi else gc_temp_max c)\<rparr>)
                in c\<lparr>gc_sm_last := sm_hi, gc_temp_last := temp_hi, gc_n_samples := gc_n_samples c + 1\<rparr>)"

definition THROTTLE_NAMES :: "(u64 \<times> string) list" where
  "THROTTLE_NAMES = [(0x04, ''power-cap''), (0x08, ''hw-slowdown''), (0x20, ''sw-thermal''), (0x40, ''hw-thermal''),
     (0x80, ''hw-power-brake'')]"

fun throttle_loop :: "u64 \<Rightarrow> nat \<Rightarrow> (u64 \<times> string) list \<Rightarrow> string \<Rightarrow> nat \<Rightarrow> string \<times> nat" where
  "throttle_loop msk n [] txt used = (txt, used)"
| "throttle_loop msk n ((flag, name) # ns) txt used =
    (if msk AND flag = 0 then throttle_loop msk n ns txt used
     else
       let t = (if used \<noteq> 0 then '','' else []) @ name;
           txt = take used txt @ take (n - used - 1) t
       in if n - used \<le> length t then (txt, used) else throttle_loop msk n ns txt (used + length t))"

text \<open>\<open>None\<close> for a buffer of no bytes, which is left alone.\<close>

definition vb_gpu_throttle_str :: "u64 \<Rightarrow> nat \<Rightarrow> string option" where
  "vb_gpu_throttle_str msk n =
    (if n = 0 then None
     else let (txt, used) = throttle_loop msk n THROTTLE_NAMES [] 0
          in Some (if used = 0 then take (n - 1) ''none'' else txt))"

end
