(* ===== verification/Power_Sound.thy ===== *)
theory Power_Sound
  imports Power_Meter
begin

text \<open>
  What the energy figures count: discovery gives well-formed sources and every later call keeps them
  so; a counter that wrapped is unwrapped; a device several providers see at one address is summed
  once; and which sources are divided by: of those that name a card the ones of the run, each once.
\<close>

section \<open>Well-formed sources\<close>

definition src_ok :: "'h nvml \<Rightarrow> vb_power_src \<Rightarrow> bool" where
  "src_ok g s \<longleftrightarrow> length (ps_name s) < 80 \<and> length (ps_dev_id s) < 32 \<and>
     (case ps_kind s of
        SRC_POWERCAP \<Rightarrow> ps_provider s = VB_PWR_PROV_RAPL \<and> 0 < ps_wrap_uj s \<and> ps_dev_id s = [] \<and>
          (ps_contained s \<longrightarrow> ps_scope s = VB_PWR_GPU \<or> ps_scope s = VB_PWR_OTHER) \<and>
          (ps_scope s = VB_PWR_GPU \<longrightarrow> ps_contained s)
      | SRC_NVML \<Rightarrow> ps_provider s = VB_PWR_PROV_NVML \<and> ps_scope s = VB_PWR_GPU \<and> \<not> ps_contained s \<and> ps_fd s = None
          \<and> ps_nvml_index s < nv_n_dev g \<and> nv_dev g ! ps_nvml_index s \<noteq> None
      | _ \<Rightarrow> ps_provider s = VB_PWR_PROV_DRM \<and> ps_scope s = VB_PWR_GPU \<and> \<not> ps_contained s \<and> ps_wrap_uj s = 0)"

definition power_ok :: "'h nvml \<Rightarrow> vb_power_src list \<Rightarrow> bool" where
  "power_ok g src \<longleftrightarrow> length src \<le> VB_POWER_MAX_SRC \<and> (\<forall>s \<in> set src. src_ok g s)
     \<and> length (nv_dev g) = VB_POWER_MAX_SRC \<and> nv_n_dev g \<le> VB_POWER_MAX_SRC"

lemma into_length: "length (snprintf_into n s) < n" if "0 < n"
  using that by (auto simp: snprintf_into_def)

lemma power_ok_append: "power_ok g src \<Longrightarrow> src_ok g s \<Longrightarrow> length src < VB_POWER_MAX_SRC \<Longrightarrow> power_ok g (src @ [s])"
  by (auto simp: power_ok_def)

lemma powercap_source_ok: "powercap_source fs e = Some (Some s) \<Longrightarrow> src_ok g s"
  using into_length[of 80]
  by (auto simp: powercap_source_def rapl_domain_def src_ok_def zero_src_def Let_def word_gt_0 split: if_splits option.splits)

lemma hwmon_source_ok: "hwmon_source fs base devid no e = Some s \<Longrightarrow> src_ok g s"
  using into_length[of 80] into_length[of 32]
  by (auto simp: hwmon_source_def src_ok_def zero_src_def Let_def simp del: append.simps split: if_splits)

lemma nvml_source_ok:
  "i < nv_n_dev g \<Longrightarrow> nv_dev g ! i \<noteq> None \<Longrightarrow> src_ok g (nvml_source l i h)"
  using into_length[of 80] into_length[of 32]
  by (auto simp: nvml_source_def src_ok_def zero_src_def Let_def simp del: append.simps split: option.split)

lemma powercap_loop_ok:
  "power_ok g src \<Longrightarrow> powercap_loop fs es src denied = (src', denied') \<Longrightarrow> power_ok g src'"
  by (induction fs es src denied rule: powercap_loop.induct)
    (auto intro: power_ok_append powercap_source_ok simp: not_le split: option.splits if_splits)

lemma hwmon_loop_ok: "power_ok g src \<Longrightarrow> power_ok g (hwmon_loop fs base devid no es src)"
  by (induction fs base devid no es src rule: hwmon_loop.induct)
    (auto intro: power_ok_append hwmon_source_ok simp: not_le split: option.splits)

lemma drm_loop_ok: "power_ok g src \<Longrightarrow> power_ok g (drm_loop fs es src)"
  by (induction fs es src rule: drm_loop.induct) (auto simp: hwmon_loop_ok split: option.splits)

text \<open>Another handle leaves the sources as they were.\<close>

lemma src_ok_more:
  assumes "src_ok g s" "nv_n_dev g \<le> nv_n_dev g'" "\<And>i. nv_dev g ! i \<noteq> None \<Longrightarrow> nv_dev g' ! i \<noteq> None"
  shows "src_ok g' s"
  using assms by (auto simp: src_ok_def split: src_kind.splits)

lemma nvml_loop_ok:
  "power_ok g src \<Longrightarrow> set is \<subseteq> {..<VB_POWER_MAX_SRC} \<Longrightarrow> nvml_loop l is src g = (src', g') \<Longrightarrow> power_ok g' src'"
proof (induction l "is" src g rule: nvml_loop.induct)
  case (2 l i "is" src g)
  show ?case
  proof (cases "Option.bind (nl_handle l) (\<lambda>f. f i) = None \<or> nl_energy l = None \<and> nl_power l = None \<or> VB_POWER_MAX_SRC \<le> length src")
    case True
    then show ?thesis using 2 by (auto split: option.splits if_splits)
  next
    case False
    then obtain h where h: "Option.bind (nl_handle l) (\<lambda>f. f i) = Some h" by auto
    let ?g = "g\<lparr>nv_dev := (nv_dev g)[i := Some h], nv_n_dev := (if nv_n_dev g < i + 1 then i + 1 else nv_n_dev g)\<rparr>"
    have i: "i < VB_POWER_MAX_SRC" using 2(5) by simp
    have g: "length (nv_dev g) = VB_POWER_MAX_SRC" using 2(4) by (simp add: power_ok_def)
    have more: "nv_n_dev g \<le> nv_n_dev ?g" by simp
    have keep: "nv_dev ?g ! j \<noteq> None" if "nv_dev g ! j \<noteq> None" for j using that i g by (cases "j = i") auto
    have "src_ok ?g s" if "s \<in> set src" for s
    proof -
      have "src_ok g s" using 2(4) that by (simp add: power_ok_def)
      then show ?thesis by (rule src_ok_more[OF _ more keep])
    qed
    moreover have "src_ok ?g (nvml_source l i h)" by (rule nvml_source_ok) (use i g in auto)
    ultimately have ok: "power_ok ?g (src @ [nvml_source l i h])"
      using 2(4) False i by (auto simp: power_ok_def)
    have nf: "\<not> (nl_energy l = None \<and> nl_power l = None)" "\<not> VB_POWER_MAX_SRC \<le> length src" using False by blast+
    have "nvml_loop l is (src @ [nvml_source l i h]) ?g = (src', g')"
      using 2(6) unfolding nvml_loop.simps h option.case if_not_P[OF nf(1)] if_not_P[OF nf(2)] .
    then show ?thesis using 2(3)[OF h nf ok] 2(5) by simp
  qed
qed simp

lemma power_open_ok:
  assumes "vb_power_open fs lib nvml_zero = (p, g)"
  shows "power_ok g (pw_src p) \<and> (pw_src p = [] \<longleftrightarrow> pw_unavailable p \<noteq> [])"
proof -
  let ?z = "nvml_zero :: 'a nvml"
  obtain s1 d where 1: "scan_powercap fs [] False = (s1, d)" by (metis surj_pair)
  obtain s3 g3 where 3: "scan_nvml lib (scan_drm_hwmon fs s1) ?z = (s3, g3)" by (metis surj_pair)
  have "power_ok ?z []" by (simp add: power_ok_def nvml_zero_def)
  then have "power_ok ?z s1" using 1 powercap_loop_ok by (auto simp: scan_powercap_def split: option.splits)
  then have 2: "power_ok ?z (scan_drm_hwmon fs s1)" by (auto simp: scan_drm_hwmon_def intro: drm_loop_ok split: option.split)
  obtain ok g2 where s: "nvml_start lib ?z = (ok, g2)" by (metis surj_pair)
  have "nv_dev g2 = nv_dev ?z \<and> nv_n_dev g2 = nv_n_dev ?z"
    using s by (auto simp: nvml_start_def nvml_zero_def Let_def split: option.splits if_splits)
  then have g2: "power_ok g2 (scan_drm_hwmon fs s1)" using 2 by (auto simp: power_ok_def intro: src_ok_more)
  have "power_ok g3 s3" if "nvml_loop l [0..<min m VB_POWER_MAX_SRC] (scan_drm_hwmon fs s1) g2 = (s3, g3)" for l m
    by (rule nvml_loop_ok[OF g2 _ that]) auto
  then have "power_ok g3 s3" using 3 g2 by (auto simp: scan_nvml_def s split: if_splits option.splits)
  moreover have "p = \<lparr>pw_src = s3, pw_unavailable = (if s3 \<noteq> [] then [] else if d then snprintf_into 512 RAPL_DENIED
      else snprintf_into 512 (''no energy counters found (no RAPL, no DRM hwmon power '' @ ''node, no NVML)''))\<rparr>" "g3 = g"
    using assms by (auto simp: vb_power_open_def 1 3)
  moreover have "snprintf_into 512 RAPL_DENIED \<noteq> []" "snprintf_into 512 (''no energy counters found (no RAPL, no DRM hwmon power '' @ ''node, no NVML)'') \<noteq> []"
    by (simp_all add: snprintf_into_def RAPL_DENIED_def)
  ultimately show ?thesis by simp
qed

lemma src_ok_fields:
  "src_ok g s \<Longrightarrow> ps_name s' = ps_name s \<Longrightarrow> ps_dev_id s' = ps_dev_id s \<Longrightarrow> ps_kind s' = ps_kind s \<Longrightarrow>
    ps_provider s' = ps_provider s \<Longrightarrow> ps_wrap_uj s' = ps_wrap_uj s \<Longrightarrow> ps_contained s' = ps_contained s \<Longrightarrow>
    ps_scope s' = ps_scope s \<Longrightarrow> ps_fd s' = ps_fd s \<Longrightarrow> ps_nvml_index s' = ps_nvml_index s \<Longrightarrow> src_ok g s'"
  by (cases "ps_kind s") (simp_all add: src_ok_def)

lemma power_ok_map:
  assumes "power_ok g src" "\<And>s. src_ok g s \<Longrightarrow> src_ok g (f s)"
  shows "power_ok g (map f src)"
  using assms by (auto simp: power_ok_def)

lemma source_end_fields:
  "src_ok g s \<Longrightarrow> src_ok g (source_end e f t s)"
  by (rule src_ok_fields[of g s]) (simp_all add: source_end_def split: option.split)

lemma power_calls_ok:
  assumes "power_ok g (pw_src p)"
  shows "power_ok g (pw_src (vb_power_begin f p))" "power_ok g (pw_src (vb_power_end e f t p))"
    "power_ok g (pw_src (vb_power_attribute p h pci))"
  using assms by (auto simp: vb_power_begin_def vb_power_end_def vb_power_attribute_def power_ok_def
      intro: source_end_fields src_ok_fields)

text \<open>C36: whatever the machine has under /sys and in NVML, opening gives at most sixteen sources, each
  with the fields its kind needs (a RAPL domain a counter range to unwrap with, an NVML source a
  handle that was found, no field longer than its array), a reason exactly when there are none; and
  starting, ending and attributing keep them so.\<close>

theorem power_sources_ok:
  assumes "vb_power_open fs lib nvml_zero = (p, g)"
  shows "power_ok g (pw_src p) \<and> (pw_src p = [] \<longleftrightarrow> pw_unavailable p \<noteq> [])
    \<and> power_ok g (pw_src (vb_power_begin f p)) \<and> power_ok g (pw_src (vb_power_end e f t (vb_power_begin f' p)))
    \<and> power_ok g (pw_src (vb_power_attribute p cpu_hashed pci))"
  using power_open_ok[OF assms] power_calls_ok by blast

definition one_socket :: power_fs where
  "one_socket =
    \<lparr>fs_dir = (\<lambda>d. if d = ''/sys/class/powercap'' then Some [''intel-rapl'', ''intel-rapl:0''] else None),
     fs_text = (\<lambda>f. if f = ''/sys/class/powercap/intel-rapl:0/name'' then Some ''package-0''
       else if f = ''/sys/class/powercap/intel-rapl:0/energy_uj'' then Some ''123'' else None),
     fs_link = (\<lambda>l. None)\<rparr>"

lemma power_sources_ok_witness:
  "\<exists>p g. vb_power_open one_socket None (nvml_zero :: unit nvml) = (p, g) \<and> power_ok g (pw_src p) \<and> length (pw_src p) = 1"
proof -
  obtain p and g :: "unit nvml" where O: "vb_power_open one_socket None nvml_zero = (p, g)" by (rule prod.exhaust)
  have "length (pw_src (fst (vb_power_open one_socket None (nvml_zero :: unit nvml)))) = 1" by code_simp
  then show ?thesis using O power_sources_ok[OF O, of "\<lambda>s. None" False "Fin 0" "\<lambda>s. None" True "[]"] by auto
qed


section \<open>A counter that wrapped\<close>

text \<open>A counter that wraps at its published range gives the energy that passed, whether it wrapped
  in between or not, as long as less than one range passed; and one that goes back without a range
  gives no figure rather than a guess.\<close>

lemma counter_unwrapped:
  assumes "ps_valid s" "\<not> power_reading e s" "ps_wrap_uj s = of_nat w" "0 < w" "w < 2 ^ 64" "d < w"
    and "ps_start_uj s = of_nat (c mod w)" "sample s = Some (of_nat ((c + d) mod w))"
  shows "ps_joules (source_end e sample t s) = d_div (of_nat_d d) micro \<and> ps_valid (source_end e sample t s)
    \<and> (now < ps_start_uj s \<longrightarrow> \<not> ps_valid (source_end e (\<lambda>s. Some now) t (s\<lparr>ps_wrap_uj := 0\<rparr>)))"
proof -
  define a where "a = c mod w"
  define b where "b = (c + d) mod w"
  have ab: "a < w" "b < w" using assms(4) by (simp_all add: a_def b_def)
  have u: "unat (of_nat x :: u64) = x" if "x \<le> w" for x
    using that assms(5) by (simp add: unsigned_of_nat take_bit_nat_eq_self)
  have "b = (a + d) mod w" by (simp add: a_def b_def mod_add_left_eq)
  then have b: "b = (if a + d < w then a + d else a + d - w)"
    using assms(6) ab(1) by (simp add: mod_if)
  have ub: "unat (of_nat a :: u64) = a" "unat (of_nat b :: u64) = b" using u ab by simp_all
  then have le: "(of_nat a :: u64) \<le> of_nat b \<longleftrightarrow> a \<le> b" by (simp add: word_le_nat_alt)
  have J: "ps_joules (source_end e sample t s) = d_div (of_nat_d d) micro \<and> ps_valid (source_end e sample t s)"
  proof (cases "a + d < w")
    case True
    then have bd: "b = a + d" by (simp add: b)
    have ale: "(of_nat a :: u64) \<le> of_nat b" unfolding le by (simp add: bd)
    have "unat (of_nat b - of_nat a :: u64) = b - a" using unat_sub[OF ale] unfolding ub .
    then have "unat (of_nat b - of_nat a :: u64) = d" unfolding bd by simp
    moreover note ale
    ultimately show ?thesis
      using assms(1,2,7,8) unfolding a_def[symmetric] b_def[symmetric] by (simp add: source_end_def)
  next
    case False
    have nle: "\<not> (of_nat a :: u64) \<le> of_nat b" using False assms(6) ab le by (simp add: b)
    have "(of_nat w - of_nat a) + of_nat b = (of_nat (w - a + b) :: u64)" using ab by (simp add: of_nat_diff)
    also have "w - a + b = d" using False ab assms(6) by (simp add: b)
    finally have "unat ((of_nat w - of_nat a) + of_nat b :: u64) = d" using u[of d] assms(6) by simp
    moreover have "0 < (of_nat w :: u64)" using u[of w] assms(4) by (simp add: word_less_nat_alt)
    ultimately show ?thesis
      using assms(1-3,7,8) nle unfolding a_def[symmetric] b_def[symmetric] by (simp add: source_end_def)
  qed
  have "\<not> ps_valid (source_end e (\<lambda>s. Some now) t (s\<lparr>ps_wrap_uj := 0\<rparr>))" if "now < ps_start_uj s"
    using that assms(2) by (auto simp: source_end_def power_reading_def not_le[symmetric])
  then show ?thesis using J by blast
qed

lemma counter_unwrapped_witness:
  "ps_joules (source_end True (\<lambda>s. Some 40) (Fin 1)
     (zero_src\<lparr>ps_valid := True, ps_wrap_uj := 1000, ps_start_uj := 900\<rparr>)) = d_div (of_nat_d 140) micro"
  using counter_unwrapped[of "zero_src\<lparr>ps_valid := True, ps_wrap_uj := 1000, ps_start_uj := 900\<rparr>" True 1000 140 900 "\<lambda>s. Some 40" "Fin 1" 0]
  by (simp add: zero_src_def power_reading_def)


section \<open>Each device once\<close>

definition sees :: "vb_power \<Rightarrow> vb_power_scope \<Rightarrow> nat \<Rightarrow> bool" where
  "sees p scope i \<longleftrightarrow> i < length (pw_src p) \<and> ps_scope (pw_src p ! i) = scope \<and> ps_valid (pw_src p ! i)"

text \<open>Two readings of one device: the same reading, or the same address.\<close>

definition same_card :: "vb_power \<Rightarrow> nat \<Rightarrow> nat \<Rightarrow> bool" where
  "same_card p i j \<longleftrightarrow> i = j \<or> (ps_dev_id (pw_src p ! i) \<noteq> [] \<and> ps_dev_id (pw_src p ! j) \<noteq> []
     \<and> same_text (ps_dev_id (pw_src p ! i)) (ps_dev_id (pw_src p ! j)))"

text \<open>The order of preference: provider first, then place.\<close>

definition pref :: "vb_power \<Rightarrow> nat \<Rightarrow> nat" where
  "pref p i = provider_rank (ps_provider (pw_src p ! i)) * length (pw_src p) + i"

lemma same_card_equiv:
  "same_card p i i" "same_card p i j \<Longrightarrow> same_card p j i" "same_card p i j \<Longrightarrow> same_card p j k \<Longrightarrow> same_card p i k"
  by (auto simp: same_card_def same_text_def)

lemma rank_eq: "provider_rank a = provider_rank b \<longleftrightarrow> a = b"
  by (cases a; cases b) simp_all

lemma pref_less:
  assumes "i < length (pw_src p)" "j < length (pw_src p)"
  shows "pref p j < pref p i \<longleftrightarrow> provider_rank (ps_provider (pw_src p ! j)) < provider_rank (ps_provider (pw_src p ! i))
    \<or> (ps_provider (pw_src p ! j) = ps_provider (pw_src p ! i) \<and> j < i)"
proof -
  have less: "a * n + x < b * n + y" if "a < b" "x < n" for a b x y n :: nat
  proof -
    have "a * n + x < Suc a * n" using that(2) by simp
    also have "\<dots> \<le> b * n" using that(1) by (intro mult_right_mono) simp_all
    finally show ?thesis by simp
  qed
  let ?a = "provider_rank (ps_provider (pw_src p ! j))" and ?b = "provider_rank (ps_provider (pw_src p ! i))"
  consider "?a < ?b" | "?a = ?b" | "?b < ?a" by linarith
  then show ?thesis
  proof cases
    case 1
    then show ?thesis using less[OF 1 assms(2), of i] by (simp add: pref_def)
  next
    case 2
    then show ?thesis by (simp add: pref_def rank_eq)
  next
    case 3
    then show ?thesis using less[OF 3 assms(1), of j] by (auto simp: pref_def)
  qed
qed

lemma duplicate_iff:
  assumes "i < length (pw_src p)"
  shows "duplicate_of_earlier p i scope \<longleftrightarrow> (\<exists>j. sees p scope j \<and> j \<noteq> i \<and> same_card p i j \<and> pref p j < pref p i)"
proof -
  define L where "L j \<longleftrightarrow> ps_dev_id (pw_src p ! i) \<noteq> [] \<and> j < length (pw_src p) \<and> j \<noteq> i \<and> ps_scope (pw_src p ! j) = scope
      \<and> ps_valid (pw_src p ! j) \<and> ps_dev_id (pw_src p ! j) \<noteq> [] \<and> same_text (ps_dev_id (pw_src p ! j)) (ps_dev_id (pw_src p ! i))
      \<and> (provider_rank (ps_provider (pw_src p ! j)) < provider_rank (ps_provider (pw_src p ! i))
        \<or> (ps_provider (pw_src p ! j) = ps_provider (pw_src p ! i) \<and> j < i))" for j
  have "L j \<longleftrightarrow> sees p scope j \<and> j \<noteq> i \<and> same_card p i j \<and> pref p j < pref p i" for j
  proof (cases "j < length (pw_src p)")
    case True
    show ?thesis using True pref_less[OF assms True] by (auto simp: L_def sees_def same_card_def same_text_def)
  qed (simp add: L_def sees_def)
  moreover have "duplicate_of_earlier p i scope \<longleftrightarrow> (\<exists>j. L j)"
    by (auto simp: duplicate_of_earlier_def L_def Let_def)
  ultimately show ?thesis by simp
qed

lemma first_of_device:
  assumes "sees p scope i"
  shows "\<exists>!j. (sees p scope j \<and> \<not> duplicate_of_earlier p j scope) \<and> same_card p i j"
proof -
  let ?P = "\<lambda>j. sees p scope j \<and> same_card p i j"
  have "?P i" using assms same_card_equiv(1) by blast
  then obtain j where j: "?P j" and least: "\<And>k. ?P k \<Longrightarrow> pref p j \<le> pref p k"
    using ex_has_least_nat[of ?P i "pref p"] by blast
  have lt: "x < length (pw_src p)" if "sees p scope x" for x using that by (simp add: sees_def)
  have "\<not> duplicate_of_earlier p j scope"
  proof
    assume "duplicate_of_earlier p j scope"
    then obtain k where "sees p scope k" "same_card p j k" "pref p k < pref p j"
      using j lt duplicate_iff by blast
    then show False using least[of k] j same_card_equiv(3)[of p i j k] by simp
  qed
  moreover have "k = j" if k: "?P k" "\<not> duplicate_of_earlier p k scope" for k
  proof (rule ccontr)
    assume ne: "k \<noteq> j"
    have "same_card p k j" using k j same_card_equiv(2,3) by blast
    then have "\<not> pref p j < pref p k" using k j ne duplicate_iff[of k p scope] lt by blast
    then have "pref p k = pref p j" using least[OF k(1)] by simp
    then show False
      using pref_less[of k p j] pref_less[of j p k] lt k(1) j ne by (metis less_irrefl linorder_neqE_nat rank_eq)
  qed
  ultimately show ?thesis using j by blast
qed

lemma scope_sources_set: "j \<in> set (scope_sources p scope) \<longleftrightarrow> sees p scope j \<and> \<not> duplicate_of_earlier p j scope"
  by (auto simp: scope_sources_def sees_def)

lemma scope_sources_none: "scope_sources p scope = [] \<longleftrightarrow> (\<nexists>i. sees p scope i)"
proof
  show "\<nexists>i. sees p scope i" if e: "scope_sources p scope = []"
    using first_of_device[of p scope] unfolding scope_sources_set[symmetric] e by auto
  show "scope_sources p scope = []" if "\<nexists>i. sees p scope i"
    using that scope_sources_set[of _ p scope] by (metis list.set_intros(1) neq_Nil_conv)
qed

text \<open>C37: the energy of a scope is -1 when no source of it was read, and else the sum of one reading
  of every device that was read, whichever providers the readings come from: sources that name the
  same address in any case of letters are one device, sources without an address are one each; of
  several readings of a device the one kept is of the provider that is preferred.\<close>

theorem scope_devices_once:
  "vb_power_scope_joules p scope =
      (if \<exists>i. sees p scope i then fold (\<lambda>i acc. d_add acc (ps_joules (pw_src p ! i))) (scope_sources p scope) (Fin 0)
       else num (- 1))
    \<and> distinct (scope_sources p scope)
    \<and> (\<forall>i. sees p scope i \<longrightarrow> (\<exists>!j. j \<in> set (scope_sources p scope) \<and> same_card p i j))
    \<and> (\<forall>i j. sees p scope i \<longrightarrow> j \<in> set (scope_sources p scope) \<longrightarrow> same_card p i j \<longrightarrow>
         sees p scope j \<and> provider_rank (ps_provider (pw_src p ! j)) \<le> provider_rank (ps_provider (pw_src p ! i)))"
proof (intro conjI allI impI)
  show "vb_power_scope_joules p scope =
      (if \<exists>i. sees p scope i then fold (\<lambda>i acc. d_add acc (ps_joules (pw_src p ! i))) (scope_sources p scope) (Fin 0)
       else num (- 1))"
    unfolding vb_power_scope_joules_def joules_of_def scope_sources_none by (auto split: if_split)
  show "distinct (scope_sources p scope)" by (simp add: scope_sources_def)
  show once: "\<exists>!j. j \<in> set (scope_sources p scope) \<and> same_card p i j" if "sees p scope i" for i
    unfolding scope_sources_set by (rule first_of_device[OF that])
  fix i j
  assume i: "sees p scope i" and j: "j \<in> set (scope_sources p scope)" and c: "same_card p i j"
  show "sees p scope j" using j by (simp add: scope_sources_set)
  have "\<not> pref p i < pref p j \<or> i = j"
    using j i same_card_equiv(2)[OF c] duplicate_iff[of j p scope] by (auto simp: scope_sources_set sees_def)
  then show "provider_rank (ps_provider (pw_src p ! j)) \<le> provider_rank (ps_provider (pw_src p ! i))"
    using pref_less[of j p i] i j by (auto simp: scope_sources_set sees_def not_less)
qed

text \<open>A card the kernel and NVML both see, with the address in different case.\<close>

definition two_views :: vb_power where
  "two_views = \<lparr>pw_src =
     [zero_src\<lparr>ps_kind := SRC_NVML, ps_scope := VB_PWR_GPU, ps_provider := VB_PWR_PROV_NVML, ps_dev_id := ''0000:A1:00.0'',
        ps_joules := Fin 31, ps_valid := True\<rparr>,
      zero_src\<lparr>ps_kind := SRC_HWMON_ENERGY, ps_scope := VB_PWR_GPU, ps_provider := VB_PWR_PROV_DRM, ps_dev_id := ''0000:a1:00.0'',
        ps_joules := Fin 30, ps_valid := True\<rparr>], pw_unavailable = []\<rparr>"

lemma scope_devices_once_witness:
  "sees two_views VB_PWR_GPU 0 \<and> (\<exists>!j. j \<in> set (scope_sources two_views VB_PWR_GPU) \<and> same_card two_views 0 j)
    \<and> vb_power_scope_joules two_views VB_PWR_GPU = Fin 30 \<and> vb_power_scope_joules two_views VB_PWR_OTHER = num (- 1)"
proof -
  have s: "sees two_views VB_PWR_GPU 0" by code_simp
  have "scope_sources two_views VB_PWR_OTHER = []" by code_simp
  then have n: "\<nexists>i. sees two_views VB_PWR_OTHER i" unfolding scope_sources_none .
  have one: "scope_sources two_views VB_PWR_GPU = [1]" by code_simp
  have "finite_or_inf 30 = Fin 30" using of_nat_d_exact[of 30] by (simp add: of_nat_d_def)
  then have "fold (\<lambda>i acc. d_add acc (ps_joules (pw_src two_views ! i))) [1] (Fin 0) = Fin 30"
    by (simp add: two_views_def)
  then show ?thesis
    using s n scope_devices_once[of two_views VB_PWR_GPU] scope_devices_once[of two_views VB_PWR_OTHER]
    unfolding one by (metis (no_types, lifting))
qed


section \<open>What hashed, and nothing twice\<close>

lemma attribute_src:
  "length (pw_src (vb_power_attribute p h pci)) = length (pw_src p)"
  "i < length (pw_src p) \<Longrightarrow> pw_src (vb_power_attribute p h pci) ! i
    = (pw_src p ! i)\<lparr>ps_counted := source_counted (gpu_unmatched p pci) h pci (pw_src p ! i)\<rparr>"
  by (simp_all add: vb_power_attribute_def)

lemma attribute_duplicate:
  "i < length (pw_src p) \<Longrightarrow> duplicate_of_earlier (vb_power_attribute p h pci) i scope = duplicate_of_earlier p i scope"
  by (auto simp: duplicate_of_earlier_def attribute_src Let_def)

text \<open>The sources summed after an attribution.\<close>

lemma hashing_sources_set:
  "i \<in> set (hashing_sources (vb_power_attribute p h pci)) \<longleftrightarrow>
     sees p (ps_scope (pw_src p ! i)) i \<and> source_counted (gpu_unmatched p pci) h pci (pw_src p ! i)
     \<and> ps_scope (pw_src p ! i) \<noteq> VB_PWR_CPU_CORES \<and> (ps_contained (pw_src p ! i) \<longrightarrow> ps_scope (pw_src p ! i) = VB_PWR_GPU)
     \<and> \<not> duplicate_of_earlier p i (ps_scope (pw_src p ! i))"
proof (cases "i < length (pw_src p)")
  case True
  then show ?thesis
    by (auto simp: hashing_sources_def attribute_src attribute_duplicate Let_def sees_def)
next
  case False
  then show ?thesis by (simp add: hashing_sources_def attribute_src sees_def)
qed

text \<open>Only cards have addresses, and an identified source is never inside another.\<close>

lemma identified:
  assumes "src_ok g s" "ps_dev_id s \<noteq> []"
  shows "ps_scope s = VB_PWR_GPU" "\<not> ps_contained s"
  using assms by (cases "ps_kind s"; simp add: src_ok_def)+

lemma package_plain:
  assumes "src_ok g s" "ps_scope s = VB_PWR_CPU_PACKAGE"
  shows "ps_dev_id s = []" "\<not> ps_contained s"
  using assms by (cases "ps_kind s"; auto simp: src_ok_def)+

text \<open>A card of the run that was measured is summed once.\<close>

lemma card_summed_once:
  assumes ok: "power_ok g (pw_src p)" and a: "a \<in> set pci"
    and i: "sees p VB_PWR_GPU i" "same_device (ps_dev_id (pw_src p ! i)) a"
  shows "\<exists>!j. j \<in> set (hashing_sources (vb_power_attribute p h pci)) \<and> same_device (ps_dev_id (pw_src p ! j)) a"
proof -
  let ?id = "\<lambda>j. ps_dev_id (pw_src p ! j)"
  have card: "same_device (?id j) a \<longleftrightarrow> same_card p i j" if "j = i \<or> ?id j \<noteq> []" for j
    using i(2) that by (auto simp: same_device_def same_card_def same_text_def split: option.splits)
  have ident: "?id j \<noteq> []" if "same_device (?id j) a" for j using that by (auto simp: same_device_def split: option.splits)
  have named: "?id j \<noteq> []" if "same_card p i j" for j using that ident[OF i(2)] by (auto simp: same_card_def)
  have sum: "j \<in> set (hashing_sources (vb_power_attribute p h pci)) \<longleftrightarrow> sees p VB_PWR_GPU j \<and> \<not> duplicate_of_earlier p j VB_PWR_GPU"
    if s: "same_device (?id j) a" for j
  proof (cases "j < length (pw_src p)")
    case True
    have "src_ok g (pw_src p ! j)" using ok True by (simp add: power_ok_def)
    note G = identified[OF this ident[OF s]]
    have "source_counted (gpu_unmatched p pci) h pci (pw_src p ! j)"
      using G ident[OF s] s a by (auto simp: source_counted_def Let_def)
    then show ?thesis using G by (simp add: hashing_sources_set)
  qed (simp add: hashing_sources_set sees_def)
  obtain j where j: "sees p VB_PWR_GPU j" "\<not> duplicate_of_earlier p j VB_PWR_GPU" "same_card p i j"
    and only: "\<And>k. sees p VB_PWR_GPU k \<Longrightarrow> \<not> duplicate_of_earlier p k VB_PWR_GPU \<Longrightarrow> same_card p i k \<Longrightarrow> k = j"
    using first_of_device[OF i(1)] by blast
  show ?thesis
  proof (rule ex1I[of _ j])
    show "j \<in> set (hashing_sources (vb_power_attribute p h pci)) \<and> same_device (?id j) a"
      using j sum card named by blast
    show "k = j" if "k \<in> set (hashing_sources (vb_power_attribute p h pci)) \<and> same_device (?id k) a" for k
      using that only sum card ident by blast
  qed
qed

text \<open>Sources that name no card, when a card of the run has no identified source.\<close>

lemma nameless_summed:
  assumes "gpu_unmatched p pci" "sees p VB_PWR_GPU i" "ps_dev_id (pw_src p ! i) = []" "\<not> (ps_contained (pw_src p ! i) \<and> h)"
  shows "i \<in> set (hashing_sources (vb_power_attribute p h pci))"
proof -
  have "pci \<noteq> []" "ps_scope (pw_src p ! i) = VB_PWR_GPU" using assms(1,2) by (auto simp: gpu_unmatched_def sees_def)
  then show ?thesis using assms by (simp add: hashing_sources_set source_counted_def duplicate_of_earlier_def)
qed

lemma hashing_sum:
  "vb_power_hashing_joules (vb_power_attribute p h pci) =
     (if set (hashing_sources (vb_power_attribute p h pci)) = {} then num (- 1)
      else fold (\<lambda>i acc. d_add acc (ps_joules (pw_src p ! i))) (hashing_sources (vb_power_attribute p h pci)) (Fin 0))"
proof -
  have "ps_joules (pw_src (vb_power_attribute p h pci) ! i) = ps_joules (pw_src p ! i)"
    if "i \<in> set (hashing_sources (vb_power_attribute p h pci))" for i
    using that by (simp add: hashing_sources_set sees_def attribute_src)
  then show ?thesis by (auto simp: vb_power_hashing_joules_def joules_of_def intro: fold_cong)
qed

text \<open>C38: which sources the energy that hashes per joule is divided by is summed over, for a list of
  sources as discovery gives it (\<open>power_ok\<close>) and any run.  A source summed was read.  It is not of
  the core domain nor of a whole-platform domain, nor an integrated GPU when the CPU hashed, and
  without the CPU it is a GPU.  An identified GPU is one of the run; GPU sources that name no card
  are summed all of them, whosever they are, if a card of the run has no identified source, and none
  of them otherwise.  Of the sources that name one card one is summed.  Every package that was read
  is summed when the CPU hashed, and every card of the run that an identified source read.  With
  nothing to sum the energy is -1.\<close>

theorem hashing_hardware_once:
  assumes "power_ok g (pw_src p)" "H = set (hashing_sources (vb_power_attribute p cpu_hashed pci))"
  shows "(\<forall>i \<in> H. sees p (ps_scope (pw_src p ! i)) i \<and> ps_scope (pw_src p ! i) \<noteq> VB_PWR_CPU_CORES
        \<and> (ps_contained (pw_src p ! i) \<longrightarrow> ps_scope (pw_src p ! i) = VB_PWR_GPU \<and> \<not> cpu_hashed)
        \<and> (\<not> cpu_hashed \<longrightarrow> ps_scope (pw_src p ! i) = VB_PWR_GPU)
        \<and> (ps_scope (pw_src p ! i) = VB_PWR_GPU \<longrightarrow> (if ps_dev_id (pw_src p ! i) \<noteq> [] then \<exists>a \<in> set pci. same_device (ps_dev_id (pw_src p ! i)) a
             else pci \<noteq> [] \<and> gpu_unmatched p pci)))
    \<and> (\<forall>i \<in> H. \<forall>j \<in> H. same_card p i j \<longrightarrow> i = j)
    \<and> (cpu_hashed \<longrightarrow> (\<forall>i. sees p VB_PWR_CPU_PACKAGE i \<longrightarrow> i \<in> H))
    \<and> (\<forall>a \<in> set pci. (\<exists>i. sees p VB_PWR_GPU i \<and> same_device (ps_dev_id (pw_src p ! i)) a) \<longrightarrow>
         (\<exists>!j. j \<in> H \<and> same_device (ps_dev_id (pw_src p ! j)) a))
    \<and> (gpu_unmatched p pci \<longrightarrow> (\<forall>i. sees p VB_PWR_GPU i \<longrightarrow> ps_dev_id (pw_src p ! i) = [] \<longrightarrow>
         \<not> (ps_contained (pw_src p ! i) \<and> cpu_hashed) \<longrightarrow> i \<in> H))
    \<and> distinct (hashing_sources (vb_power_attribute p cpu_hashed pci))
    \<and> vb_power_hashing_joules (vb_power_attribute p cpu_hashed pci) =
        (if H = {} then num (- 1) else fold (\<lambda>i acc. d_add acc (ps_joules (pw_src p ! i)))
           (hashing_sources (vb_power_attribute p cpu_hashed pci)) (Fin 0))"
proof (intro conjI ballI impI)
  show "distinct (hashing_sources (vb_power_attribute p cpu_hashed pci))" by (simp add: hashing_sources_def)
  show "vb_power_hashing_joules (vb_power_attribute p cpu_hashed pci) =
        (if H = {} then num (- 1) else fold (\<lambda>i acc. d_add acc (ps_joules (pw_src p ! i)))
           (hashing_sources (vb_power_attribute p cpu_hashed pci)) (Fin 0))"
    unfolding assms(2) by (rule hashing_sum)
  show "\<forall>i. sees p VB_PWR_GPU i \<longrightarrow> ps_dev_id (pw_src p ! i) = [] \<longrightarrow>
         \<not> (ps_contained (pw_src p ! i) \<and> cpu_hashed) \<longrightarrow> i \<in> H" if "gpu_unmatched p pci"
    unfolding assms(2) using that nameless_summed by blast
next
  fix i assume i: "i \<in> H"
  note M = i[unfolded assms(2) hashing_sources_set]
  show "sees p (ps_scope (pw_src p ! i)) i" "ps_scope (pw_src p ! i) \<noteq> VB_PWR_CPU_CORES" using M by blast+
  show "ps_scope (pw_src p ! i) = VB_PWR_GPU" if "ps_contained (pw_src p ! i)" using M that by blast
  show "\<not> cpu_hashed" if "ps_contained (pw_src p ! i)" using M that by (auto simp: source_counted_def Let_def split: if_splits)
  show "ps_scope (pw_src p ! i) = VB_PWR_GPU" if "\<not> cpu_hashed"
    using M that by (auto simp: source_counted_def split: vb_power_scope.splits)
  show "if ps_dev_id (pw_src p ! i) \<noteq> [] then \<exists>a \<in> set pci. same_device (ps_dev_id (pw_src p ! i)) a else pci \<noteq> [] \<and> gpu_unmatched p pci"
    if "ps_scope (pw_src p ! i) = VB_PWR_GPU"
    using M that by (auto simp: source_counted_def Let_def split: if_splits)
next
  fix i j assume i: "i \<in> H" and j: "j \<in> H" and c: "same_card p i j"
  have okk: "src_ok g (pw_src p ! k)" if "k \<in> H" for k
    using that assms by (auto simp: hashing_sources_set sees_def power_ok_def)
  note I = i[unfolded assms(2) hashing_sources_set] and J = j[unfolded assms(2) hashing_sources_set]
  show "i = j"
  proof (rule ccontr)
    assume ne: "i \<noteq> j"
    then have "ps_scope (pw_src p ! i) = VB_PWR_GPU" "ps_scope (pw_src p ! j) = VB_PWR_GPU"
      using c identified(1)[OF okk[OF i]] identified(1)[OF okk[OF j]] by (auto simp: same_card_def)
    then show False using first_of_device[of p VB_PWR_GPU i] I J c ne same_card_equiv(1) by metis
  qed
next
  fix a assume a: "a \<in> set pci" and "\<exists>i. sees p VB_PWR_GPU i \<and> same_device (ps_dev_id (pw_src p ! i)) a"
  then show "\<exists>!j. j \<in> H \<and> same_device (ps_dev_id (pw_src p ! j)) a"
    unfolding assms(2) using card_summed_once[OF assms(1) a] by blast
next
  show "\<forall>i. sees p VB_PWR_CPU_PACKAGE i \<longrightarrow> i \<in> H" if cpu_hashed
  proof (intro allI impI)
    fix i assume s: "sees p VB_PWR_CPU_PACKAGE i"
    then have "src_ok g (pw_src p ! i)" using assms(1) by (simp add: power_ok_def sees_def)
    note P = package_plain[OF this]
    have sc: "ps_scope (pw_src p ! i) = VB_PWR_CPU_PACKAGE" using s by (simp add: sees_def)
    then show "i \<in> H"
      using s that P[OF sc] by (simp add: assms(2) hashing_sources_set source_counted_def duplicate_of_earlier_def)
  qed
qed

text \<open>A client processor with its integrated GPU beside a card.\<close>

definition desktop :: "bool \<Rightarrow> vb_power" where
  "desktop read = \<lparr>pw_src =
     [zero_src\<lparr>ps_scope := VB_PWR_CPU_PACKAGE, ps_wrap_uj := 1000, ps_joules := Fin 10, ps_valid := True\<rparr>,
      zero_src\<lparr>ps_scope := VB_PWR_GPU, ps_contained := True, ps_wrap_uj := 1000, ps_joules := Fin 2, ps_valid := True\<rparr>,
      zero_src\<lparr>ps_kind := SRC_NVML, ps_scope := VB_PWR_GPU, ps_provider := VB_PWR_PROV_NVML, ps_dev_id := ''0000:01:00.0'',
        ps_joules := Fin 250, ps_valid := True\<rparr>,
      zero_src\<lparr>ps_kind := SRC_NVML, ps_scope := VB_PWR_GPU, ps_provider := VB_PWR_PROV_NVML, ps_nvml_index := 1,
        ps_dev_id := ''0000:02:00.0'', ps_joules := Fin 240, ps_valid := read\<rparr>], pw_unavailable = []\<rparr>"

definition two_cards :: "unit nvml" where
  "two_cards = nvml_zero\<lparr>nv_lib := True, nv_ready := True, nv_dev := [Some (), Some ()] @ replicate 14 None, nv_n_dev := 2\<rparr>"

lemma desktop_ok: "power_ok two_cards (pw_src (desktop read))"
  by (simp add: power_ok_def desktop_def two_cards_def src_ok_def zero_src_def VB_POWER_MAX_SRC_def)

text \<open>Its first card runs alone; then a card runs that no source names, for which the integrated GPU stands.\<close>

lemma hashing_hardware_once_witness:
  "(\<exists>!j. j \<in> set (hashing_sources (vb_power_attribute (desktop True) False [Some ''0000:01:00.0'']))
     \<and> same_device (ps_dev_id (pw_src (desktop True) ! j)) (Some ''0000:01:00.0''))
   \<and> 1 \<in> set (hashing_sources (vb_power_attribute (desktop True) False [Some ''0000:05:00.0'']))"
proof -
  have "sees (desktop True) VB_PWR_GPU 2 \<and> same_device (ps_dev_id (pw_src (desktop True) ! 2)) (Some ''0000:01:00.0'')"
    by code_simp
  then have "\<exists>!j. j \<in> set (hashing_sources (vb_power_attribute (desktop True) False [Some ''0000:01:00.0'']))
     \<and> same_device (ps_dev_id (pw_src (desktop True) ! j)) (Some ''0000:01:00.0'')"
    using hashing_hardware_once[OF desktop_ok refl, of True False "[Some ''0000:01:00.0'']"] by auto
  moreover have "gpu_unmatched (desktop True) [Some ''0000:05:00.0''] \<and> sees (desktop True) VB_PWR_GPU 1
      \<and> ps_dev_id (pw_src (desktop True) ! 1) = []"
    by code_simp
  then have "1 \<in> set (hashing_sources (vb_power_attribute (desktop True) False [Some ''0000:05:00.0'']))"
    using hashing_hardware_once[OF desktop_ok refl, of True False "[Some ''0000:05:00.0'']"] by blast
  ultimately show ?thesis by (rule conjI)
qed

text \<open>But a card of the run whose source could not be read is left out in silence: the energy of the other
  card alone stands for a run on both.\<close>

lemma unread_card_dropped:
  "vb_power_hashing_joules (vb_power_attribute (desktop False) False [Some ''0000:01:00.0'', Some ''0000:02:00.0'']) = Fin 250"
proof -
  have "hashing_sources (vb_power_attribute (desktop False) False [Some ''0000:01:00.0'', Some ''0000:02:00.0'']) = [2]"
    by code_simp
  moreover have "finite_or_inf 250 = Fin 250" using of_nat_d_exact[of 250] by (simp add: of_nat_d_def)
  ultimately show ?thesis
    by (simp add: vb_power_hashing_joules_def joules_of_def attribute_src(2) attribute_src(2)[of 2 "desktop False"] desktop_def[THEN arg_cong[where f = pw_src]] vb_power_attribute_def zero_src_def)
qed


section \<open>The clocks\<close>

lemma clock_step_grows:
  assumes "clock_step l g use i (a, b, got, m) = (a', b', got', m')" "got \<longrightarrow> 0 < a"
  shows "(got' \<longrightarrow> 0 < a') \<and> (got \<longrightarrow> got') \<and> a \<le> a'"
  using assms by (auto simp: clock_step_def word_gt_0 not_less[symmetric] dest: less_imp_le split: option.splits if_splits)

lemma clock_steps:
  assumes "fold (clock_step l g use) is (a, b, got, m) = (a', b', got', m')" "got \<longrightarrow> 0 < a"
  shows "got' \<longrightarrow> 0 < a'"
  using assms
proof (induction "is" arbitrary: a b got m)
  case (Cons i "is")
  obtain x y z w where s: "clock_step l g use i (a, b, got, m) = (x, y, z, w)" by (metis prod_cases4)
  show ?case using Cons.IH[of x y z w] Cons.prems clock_step_grows[OF s] by (simp add: s)
qed simp

text \<open>What a report of the clocks relies on.\<close>

definition clocks_ok :: "vb_gpu_clocks \<Rightarrow> bool" where
  "clocks_ok c \<longleftrightarrow> (gc_valid c \<longleftrightarrow> 0 < gc_n_samples c) \<and>
     (gc_valid c \<longrightarrow> 0 < gc_sm_min c \<and> gc_sm_min c \<le> gc_sm_first c \<and> gc_sm_first c \<le> gc_sm_max c
        \<and> gc_sm_min c \<le> gc_sm_last c \<and> gc_sm_last c \<le> gc_sm_max c
        \<and> gc_temp_first c \<le> gc_temp_max c \<and> gc_temp_last c \<le> gc_temp_max c)"

lemma clocks_sample_ok:
  assumes "clocks_ok c"
  shows "clocks_ok (vb_gpu_clocks_sample lib g use c)"
proof (cases "lib = None \<or> \<not> nv_ready g \<or> nl_clock (the lib) = None \<or> nv_n_dev g = 0")
  case True
  then show ?thesis using assms by (auto simp: vb_gpu_clocks_sample_def split: option.split)
next
  case False
  then obtain l where l: "lib = Some l" "\<not> (\<not> nv_ready g \<or> nl_clock l = None \<or> nv_n_dev g = 0)" by (cases lib) simp_all
  obtain hi t got m where f: "fold (clock_step l g use) [0..<nv_n_dev g] (0, - 1, False, gc_throttle_seen c) = (hi, t, got, m)"
    by (metis prod_cases4)
  have pos: "got \<longrightarrow> 0 < hi" by (rule clock_steps[OF f]) simp
  let ?c = "c\<lparr>gc_throttle_seen := m\<rparr>"
  have "vb_gpu_clocks_sample lib g use c = (if \<not> got then ?c
      else (if \<not> gc_valid c then ?c\<lparr>gc_valid := True, gc_sm_first := hi, gc_sm_min := hi, gc_sm_max := hi, gc_temp_first := t, gc_temp_max := t\<rparr>
        else ?c\<lparr>gc_sm_min := (if hi < gc_sm_min c then hi else gc_sm_min c), gc_sm_max := (if gc_sm_max c < hi then hi else gc_sm_max c),
          gc_temp_max := (if gc_temp_max c < t then t else gc_temp_max c)\<rparr>)
        \<lparr>gc_sm_last := hi, gc_temp_last := t, gc_n_samples := gc_n_samples c + 1\<rparr>)"
    unfolding vb_gpu_clocks_sample_def l(1) option.case if_not_P[OF l(2)] f prod.case Let_def by simp
  then show ?thesis
    using assms pos by (auto simp: clocks_ok_def not_less intro: order.trans less_imp_le)
qed

text \<open>Whatever NVML answers in whatever order, the aggregate of the clocks is marked valid exactly
  when a sample counted, and then the reported range is a range: a positive minimum, a maximum no
  smaller, the first and the last clock between them, and no temperature above the highest.\<close>

lemma clocks_in_range:
  "clocks_ok (fold (\<lambda>(lib, g) c. vb_gpu_clocks_sample lib g use c) readings (snd (vb_gpu_clocks_reset lib0 g0 sel)))"
proof -
  have "clocks_ok c \<Longrightarrow> clocks_ok (fold (\<lambda>(lib, g) c. vb_gpu_clocks_sample lib g use c) readings c)" for c
    by (induction readings arbitrary: c) (auto intro: clocks_sample_ok)
  moreover have "clocks_ok (snd (vb_gpu_clocks_reset lib0 g0 sel))" by (simp add: clocks_ok_def vb_gpu_clocks_reset_def)
  ultimately show ?thesis by blast
qed


section \<open>Why a clock fell\<close>

text \<open>The names a mask selects, and the text with room for them all.\<close>

definition reasons :: "u64 \<Rightarrow> (u64 \<times> string) list \<Rightarrow> string list" where
  "reasons m ns = map snd (filter (\<lambda>(flag, _). m AND flag \<noteq> 0) ns)"

definition with_commas :: "string list \<Rightarrow> string" where
  "with_commas ns = concat (map (\<lambda>n. CHR '','' # n) ns)"

lemma throttle_loop_text:
  assumes "\<forall>(flag, name) \<in> set ns. name \<noteq> []" "length tx + sum_list (map (\<lambda>(flag, name). Suc (length name)) ns) < n"
  shows "throttle_loop m n ns tx (length tx)
    = (let t = tx @ (if tx = [] then tl (with_commas (reasons m ns)) else with_commas (reasons m ns)) in (t, length t))"
  using assms
proof (induction ns arbitrary: tx)
  case Nil
  then show ?case by (simp add: reasons_def with_commas_def)
next
  case (Cons x ns)
  obtain flag name where x: "x = (flag, name)" by (cases x)
  show ?case
  proof (cases "m AND flag = 0")
    case True
    then show ?thesis using Cons.IH[of tx] Cons.prems by (simp add: x reasons_def)
  next
    case False
    let ?t = "tx @ (if tx \<noteq> [] then '','' else []) @ name"
    have ne: "name \<noteq> []" using Cons.prems(1) by (simp add: x)
    have "throttle_loop m n (x # ns) tx (length tx) = throttle_loop m n ns ?t (length ?t)"
      using Cons.prems(2) False by (auto simp: x Let_def)
    also have "\<dots> = (let t = ?t @ with_commas (reasons m ns) in (t, length t))"
      using Cons.IH[of ?t] Cons.prems ne by (auto simp: x)
    finally show ?thesis using False by (simp add: x reasons_def with_commas_def)
  qed
qed

lemma comma_tokens_skip: "comma_tokens (CHR '','' # s) = comma_tokens s"
  by (subst (1 2) comma_tokens.simps) simp

lemma comma_tokens_with_commas:
  assumes "\<forall>n \<in> set ns. n \<noteq> [] \<and> CHR '','' \<notin> set n"
  shows "comma_tokens (with_commas ns) = ns"
  using assms
proof (induction ns)
  case Nil
  show ?case by (subst comma_tokens.simps) (simp add: with_commas_def)
next
  case (Cons n ns)
  let ?r = "with_commas ns"
  have n: "n \<noteq> []" "CHR '','' \<notin> set n" using Cons.prems by simp_all
  have r: "?r = [] \<or> hd ?r = CHR '',''" by (cases ns) (simp_all add: with_commas_def)
  have d: "dropWhile (\<lambda>c. c = CHR '','') (n @ ?r) = n @ ?r" using n by (cases n) auto
  have "takeWhile (\<lambda>c. c \<noteq> CHR '','') ?r = []" "dropWhile (\<lambda>c. c \<noteq> CHR '','') ?r = ?r" using r by (cases ?r; simp)+
  moreover have "takeWhile (\<lambda>c. c \<noteq> CHR '','') (n @ ?r) = n @ takeWhile (\<lambda>c. c \<noteq> CHR '','') ?r"
    "dropWhile (\<lambda>c. c \<noteq> CHR '','') (n @ ?r) = dropWhile (\<lambda>c. c \<noteq> CHR '','') ?r"
    using n(2) by (auto intro!: takeWhile_append2 dropWhile_append2)
  ultimately have "comma_tokens (n @ ?r) = n # comma_tokens ?r"
    using n(1) by (subst comma_tokens.simps) (simp add: d)
  moreover have "with_commas (n # ns) = CHR '','' # n @ ?r" by (simp add: with_commas_def)
  ultimately show ?case using Cons by (simp add: comma_tokens_skip)
qed

text \<open>In a buffer like the one a report gives it, the text of a throttle mask is read back by cutting
  it at its commas: exactly the names of the known bits that are set, or none.\<close>

lemma throttle_round_trip:
  assumes "60 \<le> n"
  shows "\<exists>t. vb_gpu_throttle_str m n = Some t \<and>
    comma_tokens t = (if reasons m THROTTLE_NAMES = [] then [''none''] else reasons m THROTTLE_NAMES)"
proof -
  let ?rs = "reasons m THROTTLE_NAMES"
  have names: "\<forall>x \<in> set ?rs. x \<noteq> [] \<and> CHR '','' \<notin> set x" by (auto simp: reasons_def THROTTLE_NAMES_def)
  have loop: "throttle_loop m n THROTTLE_NAMES [] 0 = (tl (with_commas ?rs), length (tl (with_commas ?rs)))"
    using throttle_loop_text[of THROTTLE_NAMES "[]" n m] assms by (simp add: THROTTLE_NAMES_def Let_def)
  show ?thesis
  proof (cases ?rs)
    case Nil
    have "comma_tokens ''none'' = [''none'']" by code_simp
    then show ?thesis using assms Nil by (simp add: vb_gpu_throttle_str_def loop with_commas_def)
  next
    case (Cons r rs)
    have w: "with_commas ?rs = CHR '','' # tl (with_commas ?rs)" by (simp add: Cons with_commas_def)
    have "tl (with_commas ?rs) \<noteq> []" using names by (simp add: Cons with_commas_def)
    then have "\<not> length (with_commas ?rs) \<le> Suc 0" by (cases "with_commas ?rs") auto
    moreover have "comma_tokens (tl (with_commas ?rs)) = ?rs"
      using comma_tokens_with_commas[OF names] by (subst (asm) w) (simp add: comma_tokens_skip)
    ultimately show ?thesis using assms Cons unfolding vb_gpu_throttle_str_def loop by simp
  qed
qed

lemma throttle_round_trip_witness:
  "\<exists>t. vb_gpu_throttle_str 0x44 128 = Some t \<and> comma_tokens t = [''power-cap'', ''hw-thermal'']"
  using throttle_round_trip[of 128 "0x44"] by (simp add: reasons_def THROTTLE_NAMES_def)

end
