(* ===== verification/Cli_Text.thy ===== *)
theory Cli_Text
  imports Cli_Parse
begin

text \<open>
  What the command line prints it reads back: the checksums of a reference ladder are what \<open>--expect\<close>
  takes, and a list of counts is what \<open>--reference-ladder\<close> takes.
\<close>

section \<open>Hexadecimal\<close>

lemma hex_char_back:
  assumes "d < 16"
  shows "is_hex (hex_char d)" "hex_val (hex_char d) = d"
proof -
  have "(of_char (char_of (87 + d) :: char) :: nat) = 87 + d" using assms by simp
  then show "is_hex (hex_char d)" "hex_val (hex_char d) = d"
    using assms by (cases "d < 10"; simp add: is_hex_def hex_val_def hex_char_def is_digit_def digit_val_def digit_char_def)+
qed

lemma length_hex_digits [simp]: "length (hex_digits n v) = n"
  by (induction n arbitrary: v) auto

lemma hex_digits_hex: "list_all is_hex (hex_digits n v)"
  by (induction n arbitrary: v) (auto simp: hex_char_back)

lemma unhex_append: "unhex (s @ [c]) = unhex s * 16 + hex_val c"
  by (simp add: unhex_def)

lemma unhex_digits: "unhex (hex_digits n v) = v mod 16 ^ n"
proof (induction n arbitrary: v)
  case (Suc n)
  have "unhex (hex_digits (Suc n) v) = v div 16 mod 16 ^ n * 16 + v mod 16"
    by (simp add: unhex_append Suc.IH hex_char_back)
  also have "\<dots> = v mod 16 ^ Suc n" using mod_mult2_eq[of v 16 "16 ^ n"] by simp
  finally show ?case .
qed (simp add: unhex_def)

lemma chunk_of_concat:
  assumes "\<And>i. length (f i) = n" "i < m"
  shows "take n (drop (i * n) (concat (map f [0..<m]))) = f i"
proof -
  have "drop (i * n) (concat (map f [0..<m])) = concat (map f (drop i [0..<m]))"
    using assms(1) by (rule drop_concat_map)
  also have "drop i [0..<m] = i # [Suc i..<m]" using assms(2) by (metis add_0 drop_upt upt_conv_Cons)
  finally show ?thesis using assms(1) by simp
qed


section \<open>A row of checksums\<close>

lemma load_word_narrow: "word_bytes a = 4 \<Longrightarrow> take_bit 32 (load_word a p) = load_word a p"
  by (rule bit_word_eqI) (auto simp: load_word_def upt_rec bit_simps dest: bit_imp_le_length)

lemma xor_over_narrow: "(\<And>i. take_bit 32 (f i) = f i) \<Longrightarrow> take_bit 32 (xor_over f is) = (xor_over f is :: u64)"
  by (induction "is") (simp_all add: take_bit_xor)

lemma ref_checksum_row:
  assumes "j < VB_MAX_DIGEST_WORDS"
  shows "digest_words alg \<le> j \<Longrightarrow> ref_checksum alg start cnt bytes k ! j = 0"
    and "word_bytes alg = 4 \<Longrightarrow> take_bit 32 (ref_checksum alg start cnt bytes k ! j) = ref_checksum alg start cnt bytes k ! j"
  using assms by (auto simp: ref_checksum_def digest_row_def load_word_narrow intro: xor_over_narrow)

lemma length_ref_checksum [simp]: "length (ref_checksum alg start cnt bytes k) = VB_MAX_DIGEST_WORDS"
  by (simp add: ref_checksum_def)

lemma expect_reads_row:
  assumes "cf_alg cfg \<in> set ALGS" "length row = VB_MAX_DIGEST_WORDS"
    and "\<And>j. digest_words (cf_alg cfg) \<le> j \<Longrightarrow> j < VB_MAX_DIGEST_WORDS \<Longrightarrow> row ! j = 0"
    and "\<And>j. word_bytes (cf_alg cfg) = 4 \<Longrightarrow> j < VB_MAX_DIGEST_WORDS \<Longrightarrow> take_bit 32 (row ! j) = row ! j"
  shows "parse_expect (checksum_hex (cf_alg cfg) row) cfg = Some (cfg\<lparr>cf_expected := row, cf_have_expected := True\<rparr>)"
proof -
  let ?a = "cf_alg cfg" and ?n = "word_bytes (cf_alg cfg) * 2"
  have ok: "alg_ok ?a" using assms(1) by blast
  then have wb: "word_bytes ?a = 4 \<or> word_bytes ?a = 8" and dw: "digest_words ?a \<le> VB_MAX_DIGEST_WORDS" by (auto simp: alg_ok_def)
  define f where "f = (\<lambda>i. if word_bytes ?a = 8 then hex_digits 16 (unat (row ! i)) else hex_digits 8 (unat (row ! i) mod 2 ^ 32))"
  have len: "length (f i) = ?n" for i using wb by (auto simp: f_def)
  have reads: "of_nat (unhex (f i)) = row ! i" if "i < VB_MAX_DIGEST_WORDS" for i
  proof (cases "word_bytes ?a = 8")
    case True
    have "unat (row ! i) < 16 ^ 16" using unsigned_less[of "row ! i"] by simp
    then show ?thesis using True by (simp add: f_def unhex_digits)
  next
    case False
    then have "take_bit 32 (row ! i) = row ! i" using assms(4)[OF _ that] wb by simp
    then have "unat (row ! i) mod 2 ^ 32 = unat (row ! i)" by (metis take_bit_eq_mod unsigned_take_bit_eq)
    moreover have "unat (row ! i) mod 2 ^ 32 < 16 ^ 8" by simp
    ultimately show ?thesis using False by (simp add: f_def unhex_digits)
  qed
  have hex: "checksum_hex ?a row = concat (map f [0..<digest_words ?a])" by (simp add: checksum_hex_def f_def)
  have all: "list_all is_hex (checksum_hex ?a row)" by (auto simp: hex list_all_iff f_def dest: hex_digits_hex[unfolded list_all_iff, rule_format])
  have size: "length (checksum_hex ?a row) = digest_words ?a * ?n" using length_concat_map[of f ?n "[0..<digest_words ?a]", OF len] by (simp add: hex)
  have "fold (\<lambda>i ex. ex[i := of_nat (unhex (take ?n (drop (i * ?n) (checksum_hex ?a row))))]) [0..<digest_words ?a] zero_checksum
      = fold (\<lambda>i ex. ex[i := row ! i]) [0..<digest_words ?a] zero_checksum"
    by (intro fold_cong) (use dw reads in \<open>auto simp: hex chunk_of_concat[of f, OF len]\<close>)
  also have "\<dots> = row"
    using foreach_prefix[of "digest_words ?a" zero_checksum "\<lambda>i v. row ! i"] dw assms(2,3)
    by (auto simp: zero_checksum_def nth_append intro!: nth_equalityI)
  finally show ?thesis using all size by (simp add: parse_expect_def Let_def)
qed


section \<open>A ladder\<close>

definition join_counts :: "nat list \<Rightarrow> string" where
  "join_counts ns = concat (map (\<lambda>n. dec n @ '','') (butlast ns)) @ dec (last ns)"

lemma ladder_loop_join:
  assumes "ns \<noteq> []" "sorted_wrt (<) (out @ ns)" "length out + length ns \<le> most" "\<forall>n \<in> set ns. 1 \<le> n \<and> n \<le> VB_MAX_ITERS"
  shows "ladder_loop (join_counts ns) most out = Some (out @ ns)"
  using assms
proof (induction ns arbitrary: out)
  case (Cons n ns)
  have n: "n < 2 ^ 64" "1 \<le> n" "n \<le> VB_MAX_ITERS" using Cons.prems(4) by (auto simp: VB_MAX_ITERS_def)
  have up: "out \<noteq> [] \<Longrightarrow> last out < n" using Cons.prems(2) by (auto simp: sorted_wrt_append)
  show ?case
  proof (cases "ns = []")
    case True
    have "c_strtoul (dec n) = Some (n, False, [])" using strtoul_dec[OF n(1), of "[]"] by simp
    then show ?thesis
      using True n up Cons.prems(3) by (subst ladder_loop.simps) (auto simp: join_counts_def ladder_loop.simps[of "[]"])
  next
    case False
    have j: "join_counts (n # ns) = dec n @ CHR '','' # join_counts ns" using False by (simp add: join_counts_def)
    have "c_strtoul (join_counts (n # ns)) = Some (n, False, CHR '','' # join_counts ns)"
      unfolding j by (rule strtoul_dec[OF n(1)]) (simp add: is_digit_def)
    moreover have "join_counts (n # ns) \<noteq> []" by (simp add: j)
    moreover have "ladder_loop (join_counts ns) most (out @ [n]) = Some (out @ n # ns)"
      using Cons.IH[of "out @ [n]"] False Cons.prems(2-4) by simp
    ultimately show ?thesis using n up Cons.prems(3) by (subst ladder_loop.simps) auto
  qed
qed simp

text \<open>C39: what a reference ladder prints is what the options read.  Counts in ascending order written
  with commas are read back, and each checksum the ladder prints is read by \<open>--expect\<close> as the checksum of
  the batch after that many iterations, however the reference was split over threads, as long
  as each part of it got the memory for a message.\<close>

theorem ladder_round_trip:
  assumes "cf_alg cfg \<in> set ALGS" "iters \<noteq> []" "sorted_wrt (<) iters" "length iters \<le> VB_MAX_LADDER"
    and "\<forall>n \<in> set iters. 1 \<le> n \<and> n \<le> VB_MAX_ITERS" and "\<And>i. slice_ok env i"
  shows "parse_ladder (join_counts iters) VB_MAX_LADDER = Some iters
    \<and> (\<forall>i < length iters.
        parse_expect (checksum_hex (cf_alg cfg) (ladder_table env threads cfg iters ! i)) cfg
        = Some (cfg\<lparr>cf_expected := vb_reference_checksum True (cf_alg cfg) 0 (vb_batch_messages cfg) (cf_message_bytes cfg) (iters ! i),
                    cf_have_expected := True\<rparr>))"
proof (intro conjI allI impI)
  show "parse_ladder (join_counts iters) VB_MAX_LADDER = Some iters"
    using ladder_loop_join[of iters "[]" VB_MAX_LADDER] assms by (simp add: parse_ladder_def)
  fix i assume i: "i < length iters"
  have pos: "0 \<notin> set iters" using assms(5) by force
  have k: "0 < iters ! i" using assms(5) nth_mem[OF i] by force
  have "sorted iters" using assms(3) by (simp add: strict_sorted_imp_sorted)
  then have "ladder_table env threads cfg iters ! i = ref_checksum (cf_alg cfg) 0 (vb_batch_messages cfg) (cf_message_bytes cfg) (iters ! i)"
    using assms(1,6) pos i by (simp add: ladder_table_def mt_equals_serial reference_checksums_eq)
  moreover have "vb_reference_checksum True (cf_alg cfg) 0 (vb_batch_messages cfg) (cf_message_bytes cfg) (iters ! i)
      = ref_checksum (cf_alg cfg) 0 (vb_batch_messages cfg) (cf_message_bytes cfg) (iters ! i)"
    by (rule reference_checksum_eq[OF assms(1) k])
  ultimately show "parse_expect (checksum_hex (cf_alg cfg) (ladder_table env threads cfg iters ! i)) cfg
        = Some (cfg\<lparr>cf_expected := vb_reference_checksum True (cf_alg cfg) 0 (vb_batch_messages cfg) (cf_message_bytes cfg) (iters ! i),
                    cf_have_expected := True\<rparr>)"
    by (simp add: expect_reads_row assms(1) ref_checksum_row)
qed

lemma ladder_round_trip_witness:
  "parse_ladder ''1,10,100'' 64 = Some [1, 10, 100]
   \<and> (let cfg = vb_config_defaults\<lparr>cf_alg := sha512_alg, cf_message_bytes := 64\<rparr>
      in parse_expect (checksum_hex sha512_alg (ladder_table \<lparr>tables_ok = True, flags_ok = True, slice_ok = (\<lambda>i. True), create_ok = (\<lambda>i. False),
           join_ok = (\<lambda>i. True), unjoined = (\<lambda>i. [])\<rparr> 2 cfg [1, 10, 100] ! 2)) cfg
         = Some (cfg\<lparr>cf_expected := vb_reference_checksum True sha512_alg 0 (vb_batch_messages cfg) 64 100, cf_have_expected := True\<rparr>))"
proof -
  let ?cfg = "vb_config_defaults\<lparr>cf_alg := sha512_alg, cf_message_bytes := 64\<rparr>"
  have "join_counts [1, 10, 100] = ''1,10,100''" by (simp add: join_counts_def dec.simps digit_char_def char_of_def bit_Suc_0_iff)
  then show ?thesis
    using ladder_round_trip[of ?cfg "[1, 10, 100]" "\<lparr>tables_ok = True, flags_ok = True, slice_ok = (\<lambda>i. True), create_ok = (\<lambda>i. False),
           join_ok = (\<lambda>i. True), unjoined = (\<lambda>i. [])\<rparr>" 2]
    by (simp add: ALGS_def VB_MAX_LADDER_def VB_MAX_ITERS_def Let_def all_less_Suc numeral_2_eq_2)
qed

end
