(* ===== verification/Measure_Device.thy ===== *)
theory Measure_Device
  imports Measure_Cpu Device_Launch Device_Pipe Device_List
begin

text \<open>
  \<open>measure_device\<close> and \<open>pipe_passes\<close> of src/bench.c: the choice of the devices, one context per slice of
  the corpus, the first pass, calibration, warm-up and the timed samples, resident, streamed or
  pipelined, up to the exit at \<open>fail_run\<close> and \<open>fail_init\<close>.  The clocks of the cards and the power meter
  are seen through the events of \<open>Measure_Cpu\<close>.
\<close>

section \<open>The state of a run\<close>

text \<open>What the calls outside answer.  \<open>ds_junk\<close> is what the stack holds in \<open>ctx[0]\<close>, which is read
  when no device was given a slice.\<close>

record 'i dev_system =
  ds_lists :: "vb_backend_iface \<times> vb_backend_iface"
  ds_backend :: "vb_backend_id \<Rightarrow> 'i vb_dev_backend"
  ds_env :: dev_env
  ds_now :: "nat \<Rightarrow> nat"
  ds_ref :: ref_env
  ds_passes_ok :: "nat \<Rightarrow> bool"
  ds_junk :: "'i vb_dev_ctx"

text \<open>The passes of a run, for statements only: the stage a pass belongs to and what its devices
  answered, one value for a pass of the pipeline.\<close>

datatype stage = First_pass | Calibration | Warm_up | Timed

record 'i dev_run =
  dv_ctx :: "'i vb_dev_ctx list"
  dv_reads :: nat
  dv_got :: checksum
  dv_mismatch :: bool
  dv_pk :: nat
  dv_pt :: nat
  dv_kernel_ns :: nat
  dv_transfer_ns :: nat
  dv_mark :: nat
  dv_out :: vb_result
  dv_log :: "(stage \<times> checksum list) list"
  dv_lost :: "(bool \<times> string list) option"

text \<open>\<open>dv_lost\<close>, for statements only: when a call of the backend failed, whether the pipeline made it, and
  the errors of all contexts as the call left them.\<close>

definition ctx_errors :: "'i vb_dev_ctx list \<Rightarrow> string list" where
  "ctx_errors ctx = map (\<lambda>c. sd_error (dc_side c)) ctx"

definition read_clock :: "'i dev_system \<Rightarrow> 'i dev_run \<Rightarrow> nat \<times> 'i dev_run" where
  "read_clock ds s = (ds_now ds (dv_reads s), s\<lparr>dv_reads := dv_reads s + 1\<rparr>)"

text \<open>The difference of two readings, of \<open>uint64_t\<close>.\<close>

definition elapsed :: "nat \<Rightarrow> nat \<Rightarrow> nat" where
  "elapsed t1 t0 = nat ((int t1 - int t0) mod 2 ^ 64)"


section \<open>The choice of the devices\<close>

definition backend_index :: "vb_backend_id \<Rightarrow> nat" where
  "backend_index b = (case b of VB_BACKEND_OPENCL \<Rightarrow> 0 | VB_BACKEND_CUDA \<Rightarrow> 1)"

definition dec_int :: "int \<Rightarrow> string" where
  "dec_int d = (if d < 0 then ''-'' @ dec (nat (- d)) else dec (nat d))"

text \<open>The devices named by \<open>--device\<close>, in the order given, or why one of them cannot be used.\<close>

fun named_devices :: "vb_device list \<Rightarrow> nat \<Rightarrow> int list \<Rightarrow> string + nat list" where
  "named_devices devs b [] = Inr []"
| "named_devices devs b (d # ds) =
    (if d < 0 \<or> int (length devs) \<le> d then
       Inl (''no device '' @ dec_int d @ '' (there are '' @ dec (length devs) @ '')'')
     else if \<not> vd_present (devs ! nat d) ! b then
       Inl (''device '' @ dec_int d @ '' ('' @ (case vb_device_info (devs ! nat d) of Some i \<Rightarrow> di_name i | None \<Rightarrow> []) @
            '') is not reachable through '' @ vb_backend_name (int b))
     else case named_devices devs b ds of Inl e \<Rightarrow> Inl e | Inr idx \<Rightarrow> Inr (nat d # idx))"

definition choose_devices :: "vb_device list \<Rightarrow> nat \<Rightarrow> vb_config \<Rightarrow> string + nat list" where
  "choose_devices devs b cfg =
    (if cf_device_count cfg = 0 then
       (let idx = filter (\<lambda>i. vd_present (devs ! i) ! b) [0..<length devs]
        in if idx = [] then Inl (''no device is reachable through '' @ vb_backend_name (int b)) else Inr idx)
     else named_devices devs b (take (cf_device_count cfg) (cf_device_index cfg)))"

definition dev_options :: "vb_config \<Rightarrow> vb_dev_options" where
  "dev_options cfg = vb_dev_options_default
    \<lparr>do_neutral := cf_primitives_neutral cfg, do_dump_dir := cf_dump_dir cfg, do_pin_global := cf_pin_global cfg,
     do_pin_local := cf_pin_local cfg, do_iterations := cf_iterations cfg, do_compile_mode := cf_compile_mode cfg,
     do_import_ptx := cf_import_ptx cfg\<rparr>"


section \<open>The contexts\<close>

text \<open>Where the loop over the devices leaves it, with the text for \<open>device_error\<close>.\<close>

datatype dev_fail = Fail_init string | Fail_run string

definition slice_expect ::
  "'i dev_system \<Rightarrow> vb_kernel \<Rightarrow> vb_config \<Rightarrow> vb_corpus \<Rightarrow> nat \<Rightarrow> nat \<times> nat \<Rightarrow> checksum" where
  "slice_expect ds k cfg corpus ref_threads part =
    (let group = k_lanes k * k_streams k
     in if cf_have_expected cfg then zero_checksum
        else vb_reference_checksum_mt (ds_ref ds) (cf_alg cfg)
               (c_start_index corpus + of_nat (fst part * group)) (snd part * group) (cf_message_bytes cfg)
               (cf_iterations cfg) ref_threads)"

definition set_transfer :: "'i vb_dev_backend \<Rightarrow> vb_config \<Rightarrow> 'i vb_dev_ctx \<Rightarrow> bool \<times> 'i vb_dev_ctx" where
  "set_transfer be cfg c =
    (let pinned = (cf_host_memory cfg = VB_HOST_PINNED)
     in if cf_transfer cfg = VB_TRANSFER_OVERLAP then vb_dev_ctx_set_overlap be (cf_pipeline_chunks cfg) pinned c
        else (True, vb_dev_ctx_set_stream be (cf_transfer cfg = VB_TRANSFER_STREAM) pinned c))"

text \<open>The loop: \<open>infos\<close> are the devices of the slices still to do.  The result has the contexts that were
  initialised and the references of their slices, which are not read when the caller supplied one.
  \<open>None\<close> is a tuner that does not end.\<close>

fun init_devices ::
  "'i dev_system \<Rightarrow> 'i vb_dev_backend \<Rightarrow> vb_kernel \<Rightarrow> vb_config \<Rightarrow> vb_corpus \<Rightarrow> nat \<Rightarrow> nat \<Rightarrow> nat \<Rightarrow> nat \<Rightarrow> vb_dev_info list
    \<Rightarrow> (dev_fail option \<times> 'i vb_dev_ctx list \<times> checksum list) option" where
  "init_devices ds be k cfg corpus ref_threads total_groups n_use i [] = Some (None, [], [])"
| "init_devices ds be k cfg corpus ref_threads total_groups n_use i (info # infos) =
    (let part = vb_dev_slice total_groups n_use i
     in case vb_dev_ctx_init (ds_env ds) be info corpus (k_streams k) (fst part) (snd part) (dev_options cfg) of
          None \<Rightarrow> None
        | Some (False, c) \<Rightarrow> Some (Some (Fail_init (sd_error (dc_side c))), [], [])
        | Some (True, c) \<Rightarrow>
            let (ok, c) = set_transfer be cfg c
            in if \<not> ok then Some (Some (Fail_run (sd_error (dc_side c))), [c], [])
               else case init_devices ds be k cfg corpus ref_threads total_groups n_use (i + 1) infos of
                      None \<Rightarrow> None
                    | Some (fail, ctx, expect) \<Rightarrow>
                        Some (fail, c # ctx, slice_expect ds k cfg corpus ref_threads part # expect))"

definition first_ctx :: "'i dev_system \<Rightarrow> 'i vb_dev_ctx list \<Rightarrow> 'i vb_dev_ctx" where
  "first_ctx ds ctx = (case ctx of [] \<Rightarrow> ds_junk ds | c # cs \<Rightarrow> c)"

text \<open>Provenance, and who is charged for the energy.\<close>

definition name_devices :: "'i dev_system \<Rightarrow> 'i vb_dev_backend \<Rightarrow> vb_config \<Rightarrow> 'i vb_dev_ctx list \<Rightarrow> vb_result \<Rightarrow> vb_result" where
  "name_devices ds be cfg ctx out =
    (let c = first_ctx ds ctx; dev = dc_dev c; side = dc_side c
     in out\<lparr>r_device_name := snprintf_into 128 (di_name dev), r_device_vendor := snprintf_into 128 (di_vendor dev),
       r_device_driver := snprintf_into 64 (di_driver dev), r_device_backend := snprintf_into 16 (be_name be),
       r_device_compiler := snprintf_into 64 (sd_compiler side),
       r_device_compiler_version := snprintf_into 96 (sd_compiler_version side),
       r_device_compile_mode := snprintf_into 16 (sd_compile_mode side),
       r_device_platform := snprintf_into 128 (di_platform dev), r_device_pci := snprintf_into 16 (di_pci dev),
       r_device_steers := snprintf_into 128 (sd_steers side),
       r_device_primitives_neutral := cf_primitives_neutral cfg, r_device_geometry_pinned := dc_geometry_pinned c,
       r_device_count := length ctx, r_threads := 1,
       r_device_host_pinned := list_all (\<lambda>c. sd_host_pinned (dc_side c)) ctx\<rparr>)"

definition attribute_devices :: "'i vb_dev_ctx list \<Rightarrow> measure_event" where
  "attribute_devices ctx =
    Power_attribute (\<exists>c \<in> set ctx. di_is_cpu (dc_dev c)) (length (filter (\<lambda>c. \<not> di_is_cpu (dc_dev c)) ctx))"


section \<open>A pass\<close>

text \<open>\<open>VB_DEV_PASS\<close>: every device is launched before any is collected.  The flag is false where the
  macro leaves through its label.\<close>

fun enqueue_all :: "'i vb_dev_backend \<Rightarrow> nat \<Rightarrow> 'i vb_dev_ctx list \<Rightarrow> bool \<times> 'i vb_dev_ctx list" where
  "enqueue_all be it [] = (True, [])"
| "enqueue_all be it (c # cs) =
    (let (ok, c) = vb_dev_ctx_enqueue be c it
     in if \<not> ok then (False, c # cs) else let (ok, cs) = enqueue_all be it cs in (ok, c # cs))"

text \<open>The collecting loop over the devices and their references, with the parts in order.\<close>

fun collect_all ::
  "'i vb_dev_backend \<Rightarrow> bool \<Rightarrow> 'i vb_dev_ctx list \<Rightarrow> checksum list \<Rightarrow> checksum \<Rightarrow> bool
    \<Rightarrow> bool \<times> 'i vb_dev_ctx list \<times> checksum \<times> bool \<times> checksum list" where
  "collect_all be supplied [] es got mismatch = (True, [], got, mismatch, [])"
| "collect_all be supplied (c # cs) es got mismatch =
    (case vb_dev_ctx_collect be c of
       (None, c) \<Rightarrow> (False, c # cs, got, mismatch, [])
     | (Some part, c) \<Rightarrow>
         let (ok, cs, got, mismatch, parts) = collect_all be supplied cs (tl es) (xor_row got part)
                (mismatch \<or> (\<not> supplied \<and> part \<noteq> hd es))
         in (ok, c # cs, got, mismatch, part # parts))"

definition dev_pass :: "'i vb_dev_backend \<Rightarrow> vb_config \<Rightarrow> checksum list \<Rightarrow> stage \<Rightarrow> 'i dev_run \<Rightarrow> bool \<times> 'i dev_run" where
  "dev_pass be cfg expect st s =
    (let (ok, ctx) = enqueue_all be (cf_iterations cfg) (dv_ctx s)
     in if \<not> ok then (False, s\<lparr>dv_ctx := ctx, dv_lost := Some (False, ctx_errors ctx)\<rparr>)
        else
          let (ok, ctx, got, mismatch, parts) = collect_all be (cf_have_expected cfg) ctx expect (dv_got s) (dv_mismatch s)
          in (ok, s\<lparr>dv_ctx := ctx, dv_got := got, dv_mismatch := mismatch,
                    dv_log := dv_log s @ (if ok then [(st, parts)] else []),
                    dv_lost := (if ok then dv_lost s else Some (False, ctx_errors ctx))\<rparr>))"

definition clear_got :: "'i dev_run \<Rightarrow> 'i dev_run" where
  "clear_got s = s\<lparr>dv_got := zero_checksum\<rparr>"

text \<open>So many passes one after another, as calibration runs them.\<close>

primrec rep_passes ::
  "'i vb_dev_backend \<Rightarrow> vb_config \<Rightarrow> checksum list \<Rightarrow> nat \<Rightarrow> 'i dev_run \<Rightarrow> bool \<times> 'i dev_run" where
  "rep_passes be cfg expect 0 s = (True, s)"
| "rep_passes be cfg expect (Suc n) s =
    (let (ok, s) = dev_pass be cfg expect Calibration (clear_got s)
     in if \<not> ok then (False, s) else rep_passes be cfg expect n s)"

text \<open>The reason of the context that failed, surfaced on the first.\<close>

definition surface_error :: "'i vb_dev_ctx list \<Rightarrow> 'i vb_dev_ctx list" where
  "surface_error ctx =
    (case ctx of [] \<Rightarrow> []
     | c # cs \<Rightarrow>
         if sd_error (dc_side c) \<noteq> [] then ctx
         else case find (\<lambda>d. sd_error (dc_side d) \<noteq> []) cs of
                None \<Rightarrow> ctx
              | Some d \<Rightarrow> c\<lparr>dc_side := (dc_side c)\<lparr>sd_error := sd_error (dc_side d)\<rparr>\<rparr> # cs)"

text \<open>\<open>pipe_passes\<close>; the wrong pass is left in \<open>dv_got\<close>, the times in \<open>dv_pk\<close> and \<open>dv_pt\<close>.\<close>

definition pipe_passes ::
  "'i dev_system \<Rightarrow> 'i vb_dev_backend \<Rightarrow> nat \<Rightarrow> checksum \<Rightarrow> stage \<Rightarrow> 'i dev_run \<Rightarrow> int \<times> 'i dev_run" where
  "pipe_passes ds be passes expected st s =
    (if \<not> ds_passes_ok ds passes then
       (- 1, s\<lparr>dv_ctx := (case dv_ctx s of [] \<Rightarrow> []
          | c # cs \<Rightarrow> set_err (''out of memory for '' @ dec passes @ '' pass checksums'') c # cs)\<rparr>)
     else case vb_dev_pipe_next be (dv_ctx s) passes of
       (None, ctx) \<Rightarrow> (- 1, s\<lparr>dv_ctx := surface_error ctx, dv_lost := Some (True, ctx_errors ctx)\<rparr>)
     | (Some (rows, kns, tns), ctx) \<Rightarrow>
         let s = s\<lparr>dv_ctx := ctx, dv_pk := kns, dv_pt := tns, dv_log := dv_log s @ map (\<lambda>row. (st, [row])) rows\<rparr>
         in case find (\<lambda>row. row \<noteq> expected) rows of
              None \<Rightarrow> (0, s)
            | Some bad \<Rightarrow> (1, s\<lparr>dv_got := bad\<rparr>))"

text \<open>\<open>VB_DEV_PIPE\<close>.\<close>

definition dev_pipe ::
  "'i dev_system \<Rightarrow> 'i vb_dev_backend \<Rightarrow> nat \<Rightarrow> checksum \<Rightarrow> stage \<Rightarrow> 'i dev_run \<Rightarrow> bool \<times> 'i dev_run" where
  "dev_pipe ds be passes expected st s =
    (let (rc, s) = pipe_passes ds be passes expected st s
     in (rc = 0, if 0 < rc then s\<lparr>dv_out := (dv_out s)\<lparr>r_checksum := dv_got s\<rparr>\<rparr> else s))"


section \<open>Calibration and warm-up\<close>

text \<open>What calibration times: passes of the pipeline, or launches one after another.\<close>

definition stretch ::
  "'i dev_system \<Rightarrow> 'i vb_dev_backend \<Rightarrow> vb_config \<Rightarrow> checksum list \<Rightarrow> checksum \<Rightarrow> nat \<Rightarrow> 'i dev_run \<Rightarrow> bool \<times> 'i dev_run" where
  "stretch ds be cfg expect expected reps s =
    (if cf_transfer cfg = VB_TRANSFER_OVERLAP then dev_pipe ds be reps expected Calibration s
     else rep_passes be cfg expect reps s)"

text \<open>The loop; the flag is false where it left through \<open>fail_run\<close>.\<close>

partial_function (option) dev_calib ::
  "'i dev_system \<Rightarrow> 'i vb_dev_backend \<Rightarrow> vb_config \<Rightarrow> checksum list \<Rightarrow> checksum \<Rightarrow> double \<Rightarrow> double \<Rightarrow> nat \<Rightarrow> 'i dev_run
    \<Rightarrow> (bool \<times> nat \<times> 'i dev_run) option" where
  "dev_calib ds be cfg expect expected target_ns floor_ns reps s =
    (let (t0, s) = read_clock ds s;
         (ok, s) = stretch ds be cfg expect expected reps s
     in if \<not> ok then Some (False, reps, s)
        else
          let (t1, s) = read_clock ds s; ns = elapsed t1 t0
          in if d_le floor_ns (of_nat_d ns) then Some (True, want_reps target_ns ns reps, s)
             else
               let reps' = next_reps floor_ns ns reps
               in if 2 ^ 32 < reps' then Some (True, reps', s)
                  else dev_calib ds be cfg expect expected target_ns floor_ns reps' s)"

partial_function (option) dev_warm ::
  "'i dev_system \<Rightarrow> 'i vb_dev_backend \<Rightarrow> vb_config \<Rightarrow> checksum list \<Rightarrow> checksum \<Rightarrow> nat \<Rightarrow> nat \<Rightarrow> 'i dev_run
    \<Rightarrow> (bool \<times> 'i dev_run) option" where
  "dev_warm ds be cfg expect expected warm_end reps s =
    (let (now, s) = read_clock ds s
     in if now < warm_end then
          (let (ok, s) = (if cf_transfer cfg = VB_TRANSFER_OVERLAP then dev_pipe ds be reps expected Warm_up s
                          else dev_pass be cfg expect Warm_up (clear_got s))
           in if \<not> ok then Some (False, s) else dev_warm ds be cfg expect expected warm_end reps s)
        else Some (True, s))"


section \<open>The timed samples\<close>

text \<open>The launches of one sample, each checked against the checksum of the whole corpus.\<close>

primrec timed_passes ::
  "'i vb_dev_backend \<Rightarrow> vb_config \<Rightarrow> checksum list \<Rightarrow> checksum \<Rightarrow> nat \<Rightarrow> nat \<Rightarrow> 'i dev_run \<Rightarrow> bool \<times> 'i dev_run" where
  "timed_passes be cfg expect expected si 0 s = (True, s)"
| "timed_passes be cfg expect expected si (Suc n) s =
    (let (ok, s) = dev_pass be cfg expect Timed (clear_got s)
     in if \<not> ok then (False, s)
        else if dv_got s \<noteq> expected then (False, s\<lparr>dv_out := (dv_out s)\<lparr>r_verified := False, r_n_samples := si\<rparr>\<rparr>)
        else timed_passes be cfg expect expected si n
          (s\<lparr>dv_kernel_ns := dv_kernel_ns s + list_top (map (\<lambda>c. sd_last_kernel_ns (dc_side c)) (dv_ctx s)),
             dv_transfer_ns := dv_transfer_ns s + list_top (map (\<lambda>c. sd_last_transfer_ns (dc_side c)) (dv_ctx s))\<rparr>))"

definition timed_pipe ::
  "'i dev_system \<Rightarrow> 'i vb_dev_backend \<Rightarrow> nat \<Rightarrow> checksum \<Rightarrow> nat \<Rightarrow> 'i dev_run \<Rightarrow> bool \<times> 'i dev_run" where
  "timed_pipe ds be reps expected si s =
    (let (rc, s) = pipe_passes ds be reps expected Timed s; out = dv_out s
     in if rc \<noteq> 0 then
          (False, s\<lparr>dv_out := (if 0 < rc then out\<lparr>r_checksum := dv_got s, r_verified := False\<rparr> else out)\<lparr>r_n_samples := si\<rparr>\<rparr>)
        else (True, s\<lparr>dv_kernel_ns := dv_kernel_ns s + dv_pk s, dv_transfer_ns := dv_transfer_ns s + dv_pt s\<rparr>))"

text \<open>One sample.  Pipelined, it starts where the last one ended.\<close>

definition dev_sample ::
  "'i dev_system \<Rightarrow> 'i vb_dev_backend \<Rightarrow> vb_config \<Rightarrow> checksum list \<Rightarrow> checksum \<Rightarrow> nat \<Rightarrow> nat \<Rightarrow> 'i dev_run \<Rightarrow> bool \<times> 'i dev_run" where
  "dev_sample ds be cfg expect expected reps si s =
    (let pipelined = (cf_transfer cfg = VB_TRANSFER_OVERLAP);
         (t0, s) = (if pipelined then (dv_mark s, s) else read_clock ds s);
         (ok, s) = (if pipelined then timed_pipe ds be reps expected si s
                    else timed_passes be cfg expect expected si reps s)
     in if \<not> ok then (False, s)
        else let (t1, s) = read_clock ds s
             in (True, s\<lparr>dv_mark := t1, dv_out := add_sample (elapsed t1 t0) (dv_out s)\<rparr>))"

function dev_samples ::
  "'i dev_system \<Rightarrow> 'i vb_dev_backend \<Rightarrow> vb_config \<Rightarrow> checksum list \<Rightarrow> checksum \<Rightarrow> nat \<Rightarrow> nat \<Rightarrow> nat \<Rightarrow> 'i dev_run
    \<Rightarrow> bool \<times> 'i dev_run" where
  "dev_samples ds be cfg expect expected reps n i s =
    (if i < n then
       (let r = dev_sample ds be cfg expect expected reps i s
        in if \<not> fst r then (False, snd r) else dev_samples ds be cfg expect expected reps n (i + 1) (snd r))
     else (True, s))"
  by auto
termination by (relation "measure (\<lambda>(ds, be, cfg, expect, expected, reps, n, i, s). n - i)") auto

declare dev_samples.simps [simp del]


section \<open>What is reported\<close>

fun worst_waves :: "'i vb_dev_ctx list \<Rightarrow> nat \<Rightarrow> nat" where
  "worst_waves [] most = most"
| "worst_waves (c # cs) most =
    (let w = vb_dev_waves (dc_global_size c) (dc_n_groups c) (dc_lanes c) (dc_capacity c)
     in if w = 0 then 0 else worst_waves cs (if most < w then w else most))"

text \<open>The fields set between the last calibration and the samples.\<close>

definition describe_run :: "'i dev_system \<Rightarrow> vb_config \<Rightarrow> nat \<Rightarrow> 'i vb_dev_ctx list \<Rightarrow> vb_result \<Rightarrow> vb_result" where
  "describe_run ds cfg reps ctx out =
    (let c = first_ctx ds ctx
     in out\<lparr>r_hashes_per_iter := reps * sum_list (map (\<lambda>c. dc_n_messages c * dc_repeats c) ctx),
       r_device_global := dc_global_size c, r_device_local := dc_local_size c, r_device_repeats := dc_repeats c,
       r_device_capacity := dc_capacity c, r_device_waves := worst_waves ctx 0, r_transfer := cf_transfer cfg,
       r_device_transfer_bytes := r_device_transfer_bytes out
         + (if cf_transfer cfg \<noteq> VB_TRANSFER_RESIDENT then sum_list (map dc_corpus_bytes ctx) else 0),
       r_device_pipe_chunks := (if cf_transfer cfg = VB_TRANSFER_OVERLAP then dc_pipe_chunks c else 0)\<rparr>)"

definition busy_share :: "nat \<Rightarrow> double \<Rightarrow> double" where
  "busy_share ns seconds = d_div (ns_to_sec ns) seconds"

definition overlap_share :: "nat \<Rightarrow> nat \<Rightarrow> double \<Rightarrow> double" where
  "overlap_share kernel_ns transfer_ns seconds =
    (let wall = d_mul seconds (num 1000000000);
         shorter = of_nat_d (if kernel_ns < transfer_ns then kernel_ns else transfer_ns);
         hidden = d_sub (d_add (of_nat_d kernel_ns) (of_nat_d transfer_ns)) wall
     in if d_le hidden (Fin 0) then Fin 0 else if d_le shorter hidden then num 1 else d_div hidden shorter)"

definition transfer_figures :: "nat \<Rightarrow> nat \<Rightarrow> nat \<Rightarrow> vb_result \<Rightarrow> vb_result" where
  "transfer_figures kernel_ns transfer_ns passes out =
    (if 0 < transfer_ns then
       (let moved = d_mul (of_nat_d (r_device_transfer_bytes out)) (of_nat_d passes);
            out = out\<lparr>r_compute_transfer_ratio := d_div (of_nat_d kernel_ns) (of_nat_d transfer_ns),
              r_device_transfer_gbps := d_div (d_div moved (ns_to_sec transfer_ns)) (num 1000000000)\<rparr>
        in if 0 < passes then out\<lparr>r_device_kernel_ns_per_pass := kernel_ns div passes,
                                r_device_transfer_ns_per_pass := transfer_ns div passes\<rparr>
           else out)
     else out)"

text \<open>From the end of the samples to the successful return.\<close>

definition finish_run :: "vb_config \<Rightarrow> nat \<Rightarrow> nat \<Rightarrow> nat \<Rightarrow> nat \<Rightarrow> vb_result \<Rightarrow> vb_result" where
  "finish_run cfg reps n kernel_ns transfer_ns out =
    (let seconds = r_total_seconds out;
         out = (if d_lt (Fin 0) seconds
                then out\<lparr>r_device_busy := busy_share kernel_ns seconds, r_device_transfer_busy := busy_share transfer_ns seconds\<rparr>
                else out);
         out = (if cf_transfer cfg = VB_TRANSFER_OVERLAP \<and> kernel_ns \<noteq> 0 \<and> transfer_ns \<noteq> 0
                then out\<lparr>r_device_overlap := overlap_share kernel_ns transfer_ns seconds\<rparr> else out);
         out = transfer_figures kernel_ns transfer_ns (reps * n) out
     in out\<lparr>r_n_samples := n, r_verified := True, r_stats := Some (compute_stats (r_sample_hps out))\<rparr>)"


section \<open>The measurement\<close>

text \<open>The first pass and its check: the checksum every later pass is held to, or \<open>fail_run\<close>.\<close>

definition first_check ::
  "'i vb_dev_backend \<Rightarrow> vb_config \<Rightarrow> checksum list \<Rightarrow> 'i dev_run \<Rightarrow> checksum option \<times> 'i dev_run" where
  "first_check be cfg expect s =
    (let (ok, s) = dev_pass be cfg expect First_pass (clear_got (s\<lparr>dv_mismatch := False\<rparr>))
     in if \<not> ok then (None, s)
        else if dv_mismatch s then (None, s\<lparr>dv_out := (dv_out s)\<lparr>r_checksum := dv_got s\<rparr>\<rparr>)
        else
          let expected = (if cf_have_expected cfg then cf_expected cfg
                          else fold (\<lambda>e acc. xor_row acc e) expect zero_checksum)
          in if cf_have_expected cfg \<and> dv_got s \<noteq> expected
             then (None, s\<lparr>dv_out := (dv_out s)\<lparr>r_checksum := dv_got s\<rparr>\<rparr>)
             else (Some expected, s\<lparr>dv_out := (dv_out s)\<lparr>r_checksum := expected\<rparr>\<rparr>))"

text \<open>From the start of the pipeline to the last sample: whether it came to its end, the state, and the
  calls to the power meter.\<close>

definition dev_rest ::
  "'i dev_system \<Rightarrow> 'i vb_dev_backend \<Rightarrow> vb_config \<Rightarrow> checksum list \<Rightarrow> checksum \<Rightarrow> 'i dev_run
    \<Rightarrow> (bool \<times> 'i dev_run \<times> measure_event list) option" where
  "dev_rest ds be cfg expect expected s =
    (let target_ns = calib_target (cf_target_ms cfg);
       pipelined = (cf_transfer cfg = VB_TRANSFER_OVERLAP);
       s = (if pipelined then s\<lparr>dv_ctx := vb_dev_pipe_begin (cf_iterations cfg) (dv_ctx s)\<rparr> else s)
   in case dev_calib ds be cfg expect expected target_ns (d_div target_ns (num 4)) 1 s of
        None \<Rightarrow> None
      | Some (False, reps, s) \<Rightarrow> Some (False, s, [])
      | Some (True, reps, s) \<Rightarrow>
          let (now, s) = read_clock ds s
          in case dev_warm ds be cfg expect expected (now + cf_warmup_ms cfg * 1000000) reps s of
               None \<Rightarrow> None
             | Some (False, s) \<Rightarrow> Some (False, s, [])
             | Some (True, s) \<Rightarrow>
                 let (t0, s) = read_clock ds s;
                     (ok, s) = stretch ds be cfg expect expected reps s
                 in if \<not> ok then Some (False, s, [])
                 else
                   let (t1, s) = read_clock ds s;
                       ns = elapsed t1 t0;
                       reps = (if 0 < ns then want_reps target_ns ns reps else reps);
                       n = (if VB_MAX_SAMPLES < cf_n_samples cfg then VB_MAX_SAMPLES else cf_n_samples cfg);
                       s = s\<lparr>dv_mark := t1, dv_kernel_ns := 0, dv_transfer_ns := 0,
                             dv_out := describe_run ds cfg reps (dv_ctx s) (dv_out s)\<rparr>;
                       (good, s) = dev_samples ds be cfg expect expected reps n 0 s
                   in if \<not> good then Some (False, s, [Power_begin])
                   else Some (True,
                     s\<lparr>dv_ctx := (if pipelined then vb_dev_pipe_end be (dv_ctx s) else dv_ctx s),
                       dv_out := finish_run cfg reps n (dv_kernel_ns s) (dv_transfer_ns s) (dv_out s)\<rparr>,
                     [Power_begin, Power_end]))"

definition dev_body ::
  "'i dev_system \<Rightarrow> 'i vb_dev_backend \<Rightarrow> vb_config \<Rightarrow> checksum list \<Rightarrow> 'i dev_run
    \<Rightarrow> (bool \<times> 'i dev_run \<times> measure_event list) option" where
  "dev_body ds be cfg expect s =
    (case first_check be cfg expect s of
       (None, s) \<Rightarrow> Some (False, s, [])
     | (Some expected, s) \<Rightarrow> dev_rest ds be cfg expect expected s)"

text \<open>The exit: return code, result, calls to the power meter, the contexts that are freed, and, for
  statements, the log of the passes and the call that failed.\<close>

record 'i dev_exit =
  dx_rc :: int
  dx_out :: vb_result
  dx_events :: "measure_event list"
  dx_ctx :: "'i vb_dev_ctx list"
  dx_log :: "(stage \<times> checksum list) list"
  dx_lost :: "(bool \<times> string list) option"

definition surfaced :: "'i vb_dev_ctx list \<Rightarrow> vb_result \<Rightarrow> vb_result" where
  "surfaced ctx out =
    (if r_device_error out = [] \<and> ctx \<noteq> [] then out\<lparr>r_device_error := snprintf_into 512 (sd_error (dc_side (hd ctx)))\<rparr> else out)"

definition start_run :: "'i vb_dev_ctx list \<Rightarrow> vb_result \<Rightarrow> 'i dev_run" where
  "start_run ctx out =
    \<lparr>dv_ctx = ctx, dv_reads = 0, dv_got = zero_checksum, dv_mismatch = False, dv_pk = 0, dv_pt = 0,
     dv_kernel_ns = 0, dv_transfer_ns = 0, dv_mark = 0, dv_out = out, dv_log = [], dv_lost = None\<rparr>"

definition measure_device ::
  "'i dev_system \<Rightarrow> vb_kernel \<Rightarrow> vb_config \<Rightarrow> vb_corpus \<Rightarrow> nat \<Rightarrow> vb_result \<Rightarrow> 'i dev_exit option" where
  "measure_device ds k cfg corpus ref_threads out =
    (let devs = vb_devices (ds_lists ds) (int VB_DEV_MAX);
         fail = (\<lambda>out ev ctx log lost. Some \<lparr>dx_rc = 1, dx_out = out\<lparr>r_verified := False\<rparr>, dx_events = ev, dx_ctx = ctx,
           dx_log = log, dx_lost = lost\<rparr>)
     in case k_backend k of
          None \<Rightarrow> fail out [] [] [] None
        | Some b \<Rightarrow>
     let be = ds_backend ds b
     in if devs = [] then fail out [] [] [] None
     else case choose_devices devs (backend_index b) cfg of
          Inl why \<Rightarrow> fail (out\<lparr>r_device_error := snprintf_into 512 why\<rparr>) [] [] [] None
        | Inr idx \<Rightarrow>
     let total_groups = c_n_messages corpus div (k_lanes k * k_streams k);
         idx = (if total_groups < length idx then take total_groups idx else idx)
     in case init_devices ds be k cfg corpus ref_threads total_groups (length idx) 0
               (map (\<lambda>i. vd_via (devs ! i) ! backend_index b) idx) of
          None \<Rightarrow> None
        | Some (Some (Fail_init why), ctx, expect) \<Rightarrow> fail (out\<lparr>r_device_error := snprintf_into 512 why\<rparr>) [] ctx [] None
        | Some (Some (Fail_run why), ctx, expect) \<Rightarrow>
            fail (surfaced ctx (out\<lparr>r_device_error := snprintf_into 512 why\<rparr>)) [] ctx [] None
        | Some (None, ctx, expect) \<Rightarrow>
            (case dev_body ds be cfg expect (start_run ctx (name_devices ds be cfg ctx out)) of
               None \<Rightarrow> None
             | Some (ok, s, ev) \<Rightarrow>
                 let ev = attribute_devices ctx # ev
                 in if ok then Some \<lparr>dx_rc = 0, dx_out = dv_out s, dx_events = ev, dx_ctx = dv_ctx s,
                      dx_log = dv_log s, dx_lost = dv_lost s\<rparr>
                    else fail (surfaced (dv_ctx s) (dv_out s)) ev (dv_ctx s) (dv_log s) (dv_lost s)))"

end
