(* ===== verification/Device_Verify.thy ===== *)
theory Device_Verify
  imports Measure_Device Pipe_Verify
begin

text \<open>
  What a device measurement promises: a verified result was checked slice by slice in its first pass and
  pass by pass in its samples, and a failed one gives the reason the first context has: its own where
  launches failed, the one of the context that failed where the pipeline did.
\<close>

section \<open>Passes\<close>

text \<open>Whether the run is pipelined.\<close>

abbreviation overlapped :: "vb_config \<Rightarrow> bool" where
  "overlapped cfg \<equiv> cf_transfer cfg = VB_TRANSFER_OVERLAP"

lemma enqueue_all_length: "enqueue_all be it cs = (ok, cs') \<Longrightarrow> length cs' = length cs"
  by (induction cs arbitrary: ok cs') (auto split: prod.splits if_splits)

lemma collect_all_parts:
  assumes "collect_all be supplied cs es got mis = (True, cs', got', mis', parts)"
  shows "length cs' = length cs \<and> length parts = length cs \<and> got' = fold (\<lambda>p acc. xor_row acc p) parts got
    \<and> (length es = length cs \<longrightarrow> (mis' \<longleftrightarrow> mis \<or> (\<not> supplied \<and> parts \<noteq> es)))"
  using assms
proof (induction cs arbitrary: es got mis cs' got' mis' parts)
  case (Cons c cs)
  obtain r c1 where r: "vb_dev_ctx_collect be c = (r, c1)" by (metis surj_pair)
  obtain part where p: "r = Some part" using Cons.prems r by (cases r) auto
  obtain ok cs2 got2 mis2 parts2 where C: "collect_all be supplied cs (tl es) (xor_row got part) (mis \<or> (\<not> supplied \<and> part \<noteq> hd es))
      = (ok, cs2, got2, mis2, parts2)" by (metis prod_cases5)
  have e: "ok" "cs' = c1 # cs2" "got' = got2" "mis' = mis2" "parts = part # parts2"
    using Cons.prems r p C by auto
  show ?case using Cons.IH[OF C[unfolded \<open>ok\<close>[THEN eqTrueI]]] e by (cases es) auto
qed auto

lemma fold_rows: "fold (\<lambda>p acc. xor_row acc p) parts zero_checksum = xor_rows parts"
  using aggregate_rows[of "\<lambda>p. p" parts] by simp

text \<open>A pass that came through: what it logged, and what \<open>got\<close> and \<open>mismatch\<close> then say.\<close>

lemma dev_pass_done:
  assumes "dev_pass be cfg expect st (clear_got s) = (True, s')"
  obtains parts where "dv_log s' = dv_log s @ [(st, parts)]" "dv_got s' = xor_rows parts"
    "length parts = length (dv_ctx s)" "dv_out s' = dv_out s" "length (dv_ctx s') = length (dv_ctx s)"
    "length expect = length (dv_ctx s) \<longrightarrow> (dv_mismatch s' \<longleftrightarrow> dv_mismatch s \<or> (\<not> cf_have_expected cfg \<and> parts \<noteq> expect))"
proof -
  obtain ok ctx where E: "enqueue_all be (cf_iterations cfg) (dv_ctx s) = (ok, ctx)" by (metis surj_pair)
  obtain ok2 ctx2 got mis parts where C: "collect_all be (cf_have_expected cfg) ctx expect zero_checksum (dv_mismatch s)
      = (ok2, ctx2, got, mis, parts)" by (metis prod_cases5)
  have ok: "ok" "ok2" using assms(1) E C by (auto simp: dev_pass_def clear_got_def split: if_splits)
  have s': "s' = s\<lparr>dv_ctx := ctx2, dv_got := got, dv_mismatch := mis, dv_log := dv_log s @ [(st, parts)]\<rparr>"
    using assms(1) E C ok by (simp add: dev_pass_def clear_got_def)
  have l: "length ctx = length (dv_ctx s)" by (rule enqueue_all_length[OF E])
  have "collect_all be (cf_have_expected cfg) ctx expect zero_checksum (dv_mismatch s) = (True, ctx2, got, mis, parts)"
    using C ok by simp
  from collect_all_parts[OF this] show thesis
    by (intro that[of parts]) (use l in \<open>auto simp: s' fold_rows\<close>)
qed

lemma clear_got_fields [simp]: "dv_out (clear_got s) = dv_out s" "dv_log (clear_got s) = dv_log s" "dv_ctx (clear_got s) = dv_ctx s"
  "dv_lost (clear_got s) = dv_lost s"
  by (simp_all add: clear_got_def)

lemma dev_pass_out: "dev_pass be cfg expect st s = (ok, s') \<Longrightarrow> dv_out s' = dv_out s"
  by (auto simp: dev_pass_def split: prod.splits if_splits)

lemma pipe_passes_out: "pipe_passes ds be n expected st s = (rc, s') \<Longrightarrow> dv_out s' = dv_out s"
  by (auto simp: pipe_passes_def Let_def split: prod.splits if_splits option.splits)

lemma pipe_passes_done:
  assumes "pipe_passes ds be n expected st s = (0, s')"
  shows "\<exists>m. dv_log s' = dv_log s @ replicate m (st, [expected])"
proof -
  obtain r ctx where N: "vb_dev_pipe_next be (dv_ctx s) n = (r, ctx)" by (metis surj_pair)
  obtain rows k t where r: "ds_passes_ok ds n" "r = Some (rows, k, t)"
    using assms N by (auto simp: pipe_passes_def split: if_splits option.splits)
  have F: "find (\<lambda>row. row \<noteq> expected) rows = None"
    using assms N r by (auto simp: pipe_passes_def Let_def split: option.splits)
  then have "rows = replicate (length rows) expected" by (intro replicate_eqI) (auto simp: find_None_iff)
  then have "map (\<lambda>row. (st, [row])) rows = replicate (length rows) (st, [expected])" by (metis map_replicate)
  moreover have "dv_log s' = dv_log s @ map (\<lambda>row. (st, [row])) rows" using assms N r F by (auto simp: pipe_passes_def Let_def)
  ultimately show ?thesis by auto
qed


section \<open>What the loops keep\<close>

text \<open>A predicate every pass keeps, failed or not, and one that every pass that came through keeps, the
  timed ones when they gave the expected checksum.  Neither looks at more than the result, the
  log, the contexts and the call that failed, and the second not at the contexts.\<close>

locale dev_invariant =
  fixes ds :: "'i dev_system" and be :: "'i vb_dev_backend" and cfg :: vb_config and expect :: "checksum list"
    and expected :: checksum and P G :: "'i dev_run \<Rightarrow> bool"
  assumes frame_P: "P s \<Longrightarrow> dv_out s' = dv_out s \<Longrightarrow> dv_log s' = dv_log s \<Longrightarrow> dv_lost s' = dv_lost s \<Longrightarrow>
      dv_ctx s' = dv_ctx s \<Longrightarrow> P s'"
    and frame_G: "G s \<Longrightarrow> dv_out s' = dv_out s \<Longrightarrow> dv_log s' = dv_log s \<Longrightarrow> dv_lost s' = dv_lost s \<Longrightarrow> G s'"
    and ctx_P: "P s \<Longrightarrow> G s \<Longrightarrow> P (s\<lparr>dv_ctx := ctx\<rparr>)"
    and result_P: "P s \<Longrightarrow> r_device_error out = r_device_error (dv_out s) \<Longrightarrow> P (s\<lparr>dv_out := out\<rparr>)"
    and result_G: "G s \<Longrightarrow> r_checksum out = r_checksum (dv_out s) \<Longrightarrow> G (s\<lparr>dv_out := out\<rparr>)"
    and pass_P: "P s \<Longrightarrow> G s \<Longrightarrow> dev_pass be cfg expect st (clear_got s) = (ok, s') \<Longrightarrow> P s'"
    and pass_G: "G s \<Longrightarrow> dev_pass be cfg expect st (clear_got s) = (True, s') \<Longrightarrow> \<not> overlapped cfg \<Longrightarrow>
      (st = Timed \<Longrightarrow> dv_got s' = expected) \<Longrightarrow> G s'"
    and pipe_P: "P s \<Longrightarrow> G s \<Longrightarrow> pipe_passes ds be n expected st s = (rc, s') \<Longrightarrow> P s'"
    and pipe_G: "G s \<Longrightarrow> pipe_passes ds be n expected st s = (0, s') \<Longrightarrow> overlapped cfg \<Longrightarrow> G s'"
begin

lemma clock_keeps:
  "read_clock ds s = (t, s') \<Longrightarrow> P s \<Longrightarrow> P s'"
  "read_clock ds s = (t, s') \<Longrightarrow> G s \<Longrightarrow> G s'"
  by (auto simp: read_clock_def intro: frame_P frame_G)

lemma rep_keeps:
  "rep_passes be cfg expect n s = (ok, s') \<Longrightarrow> P s \<Longrightarrow> G s \<Longrightarrow> \<not> overlapped cfg \<Longrightarrow> P s' \<and> (ok \<longrightarrow> G s')"
proof (induction n arbitrary: s)
  case (Suc n)
  obtain ok1 s1 where d: "dev_pass be cfg expect Calibration (clear_got s) = (ok1, s1)" by (metis surj_pair)
  show ?case
    using Suc.IH[of s1] Suc.prems d pass_P[OF Suc.prems(2,3) d] pass_G[OF Suc.prems(3), of Calibration s1] by (auto split: if_splits)
qed simp

lemma dev_pipe_keeps:
  "dev_pipe ds be n expected st s = (ok, s') \<Longrightarrow> P s \<Longrightarrow> G s \<Longrightarrow> overlapped cfg \<Longrightarrow> P s' \<and> (ok \<longrightarrow> G s')"
proof -
  assume a: "dev_pipe ds be n expected st s = (ok, s')" "P s" "G s" "overlapped cfg"
  obtain rc s1 where p: "pipe_passes ds be n expected st s = (rc, s1)" by (metis surj_pair)
  have "P s1" by (rule pipe_P[OF a(2,3) p])
  moreover have "P (s1\<lparr>dv_out := (dv_out s1)\<lparr>r_checksum := dv_got s1\<rparr>\<rparr>)" by (rule result_P[OF calculation]) simp
  ultimately show ?thesis using a p pipe_G[OF a(3) _ a(4)] by (auto simp: dev_pipe_def)
qed

lemma stretch_keeps:
  "stretch ds be cfg expect expected n s = (ok, s') \<Longrightarrow> P s \<Longrightarrow> G s \<Longrightarrow> P s' \<and> (ok \<longrightarrow> G s')"
  using rep_keeps dev_pipe_keeps by (auto simp: stretch_def split: if_splits)

lemma calib_keeps:
  assumes "dev_calib ds be cfg expect expected target floor_ns reps s = Some (ok, r, s')" "P s" "G s"
  shows "P s' \<and> (ok \<longrightarrow> G s')"
proof -
  have "d = ds \<longrightarrow> b = be \<longrightarrow> c = cfg \<longrightarrow> e = expect \<longrightarrow> x = expected \<longrightarrow> P s \<longrightarrow> G s \<longrightarrow> P (snd (snd y)) \<and> (fst y \<longrightarrow> G (snd (snd y)))"
    if "dev_calib d b c e x t f n s = Some y" for d b c e x t f n s y
  proof (rule dev_calib.raw_induct[OF _ that], goal_cases)
    case (1 loop d b c e x t f n s y)
    obtain t0 s0 where r0: "read_clock d s = (t0, s0)" by (metis surj_pair)
    obtain ok s1 where st: "stretch d b c e x n s0 = (ok, s1)" by (metis surj_pair)
    obtain t1 s2 where r1: "read_clock d s1 = (t1, s2)" by (metis surj_pair)
    show ?case
    proof (intro impI)
      assume q: "d = ds" "b = be" "c = cfg" "e = expect" "x = expected" "P s" "G s"
      have s1: "P s1 \<and> (ok \<longrightarrow> G s1)"
        using stretch_keeps[of n s0 ok s1] st q clock_keeps[of s t0 s0] r0 by simp
      have s2: "P s2" "ok \<Longrightarrow> G s2" using s1 clock_keeps[of s1 t1 s2] r1 q by simp_all
      show "P (snd (snd y)) \<and> (fst y \<longrightarrow> G (snd (snd y)))"
      proof (cases "ok \<and> \<not> d_le f (of_nat_d (elapsed t1 t0)) \<and> \<not> 2 ^ 32 < next_reps f (elapsed t1 t0) n")
        case True
        then have "loop d b c e x t f (next_reps f (elapsed t1 t0) n) s2 = Some y" using 1(2) by (simp add: r0 st r1 Let_def)
        from 1(1)[OF this] show ?thesis using q s2 True by blast
      next
        case False
        then show ?thesis using 1(2) s1 s2 by (auto simp: r0 st r1 Let_def split: if_splits)
      qed
    qed
  qed
  from this[OF assms(1)] assms(2,3) show ?thesis by simp
qed

lemma warm_keeps:
  assumes "dev_warm ds be cfg expect expected warm_end reps s = Some (ok, s')" "P s" "G s"
  shows "P s' \<and> (ok \<longrightarrow> G s')"
proof -
  have "d = ds \<longrightarrow> b = be \<longrightarrow> c = cfg \<longrightarrow> e = expect \<longrightarrow> x = expected \<longrightarrow> P s \<longrightarrow> G s \<longrightarrow> P (snd y) \<and> (fst y \<longrightarrow> G (snd y))"
    if "dev_warm d b c e x w n s = Some y" for d b c e x w n s y
  proof (rule dev_warm.raw_induct[OF _ that], goal_cases)
    case (1 loop d b c e x w n s y)
    obtain now s0 where r0: "read_clock d s = (now, s0)" by (metis surj_pair)
    obtain ok s1 where st: "(if overlapped c then dev_pipe d b n x Warm_up s0 else dev_pass b c e Warm_up (clear_got s0)) = (ok, s1)"
      by (metis surj_pair)
    show ?case
    proof (intro impI)
      assume q: "d = ds" "b = be" "c = cfg" "e = expect" "x = expected" "P s" "G s"
      have s0: "P s0" "G s0" using clock_keeps[of s now s0] r0 q by simp_all
      have s1: "P s1 \<and> (ok \<longrightarrow> G s1)"
      proof (cases "overlapped cfg")
        case True
        then show ?thesis using dev_pipe_keeps[of n Warm_up s0 ok s1] st q s0 by simp
      next
        case False
        then have "dev_pass be cfg expect Warm_up (clear_got s0) = (ok, s1)" using st q by simp
        then show ?thesis using pass_P[OF s0] pass_G[OF s0(2) _ False, of Warm_up s1] by auto
      qed
      show "P (snd y) \<and> (fst y \<longrightarrow> G (snd y))"
      proof (cases "now < w \<and> ok")
        case True
        then have "loop d b c e x w n s1 = Some y" using 1(2) by (simp add: r0 st)
        from 1(1)[OF this] show ?thesis using q s1 True by blast
      next
        case False
        then show ?thesis using 1(2) s0 s1 by (auto simp: r0 st split: if_splits)
      qed
    qed
  qed
  from this[OF assms(1)] assms(2,3) show ?thesis by simp
qed

lemma timed_passes_keeps:
  "timed_passes be cfg expect expected si n s = (ok, s') \<Longrightarrow> P s \<Longrightarrow> G s \<Longrightarrow> \<not> overlapped cfg \<Longrightarrow> P s' \<and> (ok \<longrightarrow> G s')"
proof (induction n arbitrary: s)
  case (Suc n)
  obtain ok1 s1 where d: "dev_pass be cfg expect Timed (clear_got s) = (ok1, s1)" by (metis surj_pair)
  have P1: "P s1" by (rule pass_P[OF Suc.prems(2,3) d])
  show ?case
  proof (cases "ok1 \<and> dv_got s1 = expected")
    case True
    let ?s2 = "s1\<lparr>dv_kernel_ns := dv_kernel_ns s1 + list_top (map (\<lambda>c. sd_last_kernel_ns (dc_side c)) (dv_ctx s1)),
             dv_transfer_ns := dv_transfer_ns s1 + list_top (map (\<lambda>c. sd_last_transfer_ns (dc_side c)) (dv_ctx s1))\<rparr>"
    have "G s1" using pass_G[OF Suc.prems(3) _ Suc.prems(4)] d True by simp
    then have "P ?s2" "G ?s2" using frame_P[OF P1, of ?s2] frame_G[of s1 ?s2] by simp_all
    then show ?thesis using Suc.IH[of ?s2] Suc.prems(1,4) d True by simp
  next
    case False
    have "P (s1\<lparr>dv_out := (dv_out s1)\<lparr>r_verified := False, r_n_samples := si\<rparr>\<rparr>)" by (rule result_P[OF P1]) simp
    then show ?thesis using Suc.prems(1) d False P1 by (auto split: if_splits)
  qed
qed simp

lemma timed_pipe_keeps:
  assumes "timed_pipe ds be n expected si s = (ok, s')" "P s" "G s" "overlapped cfg"
  shows "P s' \<and> (ok \<longrightarrow> G s')"
proof -
  obtain rc s1 where p: "pipe_passes ds be n expected Timed s = (rc, s1)" by (metis surj_pair)
  have P1: "P s1" by (rule pipe_P[OF assms(2,3) p])
  let ?o = "(if 0 < rc then (dv_out s1)\<lparr>r_checksum := dv_got s1, r_verified := False\<rparr> else dv_out s1)\<lparr>r_n_samples := si\<rparr>"
  have P2: "P (s1\<lparr>dv_out := ?o\<rparr>)" by (rule result_P[OF P1]) simp
  show ?thesis
  proof (cases "rc = 0")
    case True
    let ?s2 = "s1\<lparr>dv_kernel_ns := dv_kernel_ns s1 + dv_pk s1, dv_transfer_ns := dv_transfer_ns s1 + dv_pt s1\<rparr>"
    have "G s1" using pipe_G[OF assms(3) _ assms(4)] p True by simp
    then show ?thesis using assms(1) p True frame_P[OF P1, of ?s2] frame_G[of s1 ?s2] by (auto simp: timed_pipe_def)
  next
    case False
    then show ?thesis using assms(1) p P2 by (auto simp: timed_pipe_def Let_def)
  qed
qed

lemma sample_keeps:
  assumes "dev_sample ds be cfg expect expected reps si s = (ok, s')" "P s" "G s"
  shows "P s' \<and> (ok \<longrightarrow> G s')"
proof -
  obtain t0 s0 where r0: "(if overlapped cfg then (dv_mark s, s) else read_clock ds s) = (t0, s0)" by (metis surj_pair)
  have s0: "P s0" "G s0" using r0 assms(2,3) clock_keeps by (auto split: if_splits)
  obtain ok1 s1 where t: "(if overlapped cfg then timed_pipe ds be reps expected si s0
      else timed_passes be cfg expect expected si reps s0) = (ok1, s1)" by (metis surj_pair)
  have s1: "P s1 \<and> (ok1 \<longrightarrow> G s1)"
    using t s0 timed_pipe_keeps timed_passes_keeps by (cases "overlapped cfg") auto
  obtain t1 s2 where r1: "read_clock ds s1 = (t1, s2)" by (metis surj_pair)
  have s2: "P s2" "ok1 \<Longrightarrow> G s2" using s1 clock_keeps[OF r1] by simp_all
  let ?o = "add_sample (elapsed t1 t0) (dv_out s2)"
  let ?s3 = "s2\<lparr>dv_mark := t1, dv_out := ?o\<rparr>"
  have "P (s2\<lparr>dv_out := ?o\<rparr>)" "ok1 \<Longrightarrow> G (s2\<lparr>dv_out := ?o\<rparr>)"
    using result_P[OF s2(1), of ?o] result_G[OF s2(2), of ?o] by (simp_all add: add_sample_def Let_def)
  then have "P ?s3" "ok1 \<Longrightarrow> G ?s3"
    using frame_P[of "s2\<lparr>dv_out := ?o\<rparr>" ?s3] frame_G[of "s2\<lparr>dv_out := ?o\<rparr>" ?s3] by simp_all
  then show ?thesis
    using assms(1) s1 unfolding dev_sample_def Let_def r0 prod.case t r1 by (cases ok1) auto
qed

lemma samples_keeps:
  "dev_samples ds be cfg expect expected reps n i s = (ok, s') \<Longrightarrow> P s \<Longrightarrow> G s \<Longrightarrow> P s' \<and> (ok \<longrightarrow> G s')"
proof (induction "n - i" arbitrary: i s)
  case 0
  then show ?case by (subst (asm) dev_samples.simps) simp
next
  case (Suc m)
  obtain ok1 s1 where d: "dev_sample ds be cfg expect expected reps i s = (ok1, s1)" by (metis surj_pair)
  have i: "i < n" and m: "m = n - (i + 1)" using Suc(2) by simp_all
  note k = sample_keeps[OF d Suc(4,5)]
  show ?case
  proof (cases ok1)
    case True
    then have "dev_samples ds be cfg expect expected reps n (i + 1) s1 = (ok, s')"
      using Suc(3) d i by (subst (asm) dev_samples.simps) simp
    from Suc(1)[OF m this] show ?thesis using k True by simp
  next
    case False
    then show ?thesis using Suc(3) d i k by (subst (asm) dev_samples.simps) simp
  qed
qed

lemma rest_keeps:
  assumes "dev_rest ds be cfg expect expected s = Some (ok, s', ev)" "P s" "G s"
  shows "P s' \<and> (ok \<longrightarrow> G s' \<and> r_verified (dv_out s'))"
proof -
  let ?t = "calib_target (cf_target_ms cfg)"
  let ?s = "if overlapped cfg then s\<lparr>dv_ctx := vb_dev_pipe_begin (cf_iterations cfg) (dv_ctx s)\<rparr> else s"
  have s0: "P ?s" "G ?s" using ctx_P[OF assms(2,3)] assms(2) frame_G[OF assms(3), of ?s] by simp_all
  note V = assms(1)[unfolded dev_rest_def Let_def]
  obtain ok1 r1 s1 where C: "dev_calib ds be cfg expect expected ?t (d_div ?t (num 4)) 1 ?s = Some (ok1, r1, s1)"
    using V by (auto split: option.splits)
  have s1: "P s1" "ok1 \<Longrightarrow> G s1" using calib_keeps[OF C s0] by simp_all
  note V1 = V[unfolded C option.case prod.case]
  show ?thesis
  proof (cases ok1)
    case False
    then show ?thesis using V1 s1 by simp
  next
    case o1: True
    obtain now s2 where R2: "read_clock ds s1 = (now, s2)" by (metis surj_pair)
    have s2: "P s2" "G s2" using clock_keeps[OF R2] s1 o1 by simp_all
    obtain ok3 s3 where W: "dev_warm ds be cfg expect expected (now + cf_warmup_ms cfg * 1000000) r1 s2 = Some (ok3, s3)"
      using V1 o1 R2 by (auto split: option.splits)
    have s3: "P s3" "ok3 \<Longrightarrow> G s3" using warm_keeps[OF W s2] by simp_all
    obtain t0 s4 where R4: "read_clock ds s3 = (t0, s4)" by (metis surj_pair)
    obtain ok5 s5 where S: "stretch ds be cfg expect expected r1 s4 = (ok5, s5)" by (metis surj_pair)
    obtain t1 s6 where R6: "read_clock ds s5 = (t1, s6)" by (metis surj_pair)
    note V2 = V1[unfolded o1[THEN eqTrueI] bool.case R2 prod.case W option.case R4 S R6]
    show ?thesis
    proof (cases "ok3 \<and> ok5")
      case False
      have "ok3 \<Longrightarrow> P s5" using stretch_keeps[OF S] clock_keeps[OF R4] s3 by blast
      then show ?thesis using V2 s3 False by (cases ok3) auto
    next
      case o: True
      have s4: "P s4" "G s4" using clock_keeps[OF R4] s3 o by simp_all
      have s6: "P s6" "G s6" using stretch_keeps[OF S s4] clock_keeps[OF R6] o by simp_all
      define reps where "reps = (if 0 < elapsed t1 t0 then want_reps ?t (elapsed t1 t0) r1 else r1)"
      define n where "n = (if VB_MAX_SAMPLES < cf_n_samples cfg then VB_MAX_SAMPLES else cf_n_samples cfg)"
      define s7 where "s7 = s6\<lparr>dv_mark := t1, dv_kernel_ns := 0, dv_transfer_ns := 0,
                                   dv_out := describe_run ds cfg reps (dv_ctx s6) (dv_out s6)\<rparr>"
      have "P (s6\<lparr>dv_out := describe_run ds cfg reps (dv_ctx s6) (dv_out s6)\<rparr>)" "G (s6\<lparr>dv_out := describe_run ds cfg reps (dv_ctx s6) (dv_out s6)\<rparr>)"
        using result_P[OF s6(1)] result_G[OF s6(2)] by (simp_all add: describe_run_def Let_def)
      then have s7: "P s7" "G s7" by (auto elim!: frame_P frame_G simp: s7_def)
      obtain good s8 where M: "dev_samples ds be cfg expect expected reps n 0 s7 = (good, s8)" by (metis surj_pair)
      have s8: "P s8" "good \<Longrightarrow> G s8" using samples_keeps[OF M s7] by simp_all
      have oo: "ok3" "ok5" using o by simp_all
      note V3 = V2[unfolded oo[THEN eqTrueI] bool.case not_True_eq_False if_False, folded reps_def n_def, folded s7_def, unfolded M prod.case]
      show ?thesis
      proof (cases good)
        case False
        then show ?thesis using V3 s8 by simp
      next
        case True
        define out where "out = finish_run cfg reps n (dv_kernel_ns s8) (dv_transfer_ns s8) (dv_out s8)"
        have o: "r_device_error out = r_device_error (dv_out s8)" "r_checksum out = r_checksum (dv_out s8)" "r_verified out"
          by (simp_all add: out_def finish_run_def transfer_figures_def Let_def)
        have "P (s8\<lparr>dv_out := out\<rparr>)" "G (s8\<lparr>dv_out := out\<rparr>)" using result_P[OF s8(1) o(1)] result_G[OF s8(2)[OF True] o(2)] .
        moreover have "s' = s8\<lparr>dv_ctx := (if overlapped cfg then vb_dev_pipe_end be (dv_ctx s8) else dv_ctx s8), dv_out := out\<rparr>" "ok"
          using V3 True by (simp_all add: out_def)
        moreover have "s' = (s8\<lparr>dv_out := out\<rparr>)\<lparr>dv_ctx := (if overlapped cfg then vb_dev_pipe_end be (dv_ctx s8) else dv_ctx s8)\<rparr>"
          unfolding calculation(3) by simp
        ultimately show ?thesis
          using o(3) ctx_P[of "s8\<lparr>dv_out := out\<rparr>" "if overlapped cfg then vb_dev_pipe_end be (dv_ctx s8) else dv_ctx s8"]
            frame_G[of "s8\<lparr>dv_out := out\<rparr>" s'] by (simp only:) simp
      qed
    qed
  qed
qed

end


section \<open>What a verified run has shown\<close>

text \<open>An entry of the log after the first: every pass of a pipeline gave the expected checksum, and every
  timed launch XORs to it.\<close>

definition entry_ok :: "vb_config \<Rightarrow> checksum \<Rightarrow> stage \<times> checksum list \<Rightarrow> bool" where
  "entry_ok cfg expected e =
    (case e of (st, parts) \<Rightarrow> if overlapped cfg then parts = [expected] else st = Timed \<longrightarrow> xor_rows parts = expected)"

definition good_run :: "vb_config \<Rightarrow> checksum \<Rightarrow> stage \<times> checksum list \<Rightarrow> 'i dev_run \<Rightarrow> bool" where
  "good_run cfg expected e s \<longleftrightarrow> r_checksum (dv_out s) = expected
     \<and> (\<exists>rest. dv_log s = e # rest \<and> (\<forall>x \<in> set rest. entry_ok cfg expected x))"

lemma good_run_append:
  assumes "good_run cfg expected e s" "dv_log s' = dv_log s @ l" "\<forall>x \<in> set l. entry_ok cfg expected x" "dv_out s' = dv_out s"
  shows "good_run cfg expected e s'"
  using assms unfolding good_run_def by fastforce

interpretation checked: dev_invariant ds be cfg expect expected "\<lambda>s. True" "good_run cfg expected e"
  for ds be cfg expect expected e
proof unfold_locales
  fix s s' st
  assume "good_run cfg expected e s" "dev_pass be cfg expect st (clear_got s) = (True, s')" "\<not> overlapped cfg"
    "st = Timed \<Longrightarrow> dv_got s' = expected"
  then show "good_run cfg expected e s'"
    by (elim dev_pass_done, intro good_run_append[of cfg expected e s s']) (auto simp: entry_ok_def)
next
  fix s n st s'
  assume g: "good_run cfg expected e s" and p: "pipe_passes ds be n expected st s = (0, s')" and o: "overlapped cfg"
  obtain m where "dv_log s' = dv_log s @ replicate m (st, [expected])" using pipe_passes_done[OF p] by blast
  then show "good_run cfg expected e s'"
    by (rule good_run_append[OF g]) (use o pipe_passes_out[OF p] in \<open>auto simp: entry_ok_def\<close>)
qed (auto simp: good_run_def)

text \<open>The reason a failed call leaves behind, from the errors of the contexts: that of the first context
  for a launch, and for the pipeline the first there is.\<close>

definition lost_reason :: "bool \<Rightarrow> string list \<Rightarrow> string" where
  "lost_reason pipe errs =
    (if pipe then (case find (\<lambda>e. e \<noteq> []) errs of None \<Rightarrow> [] | Some e \<Rightarrow> e) else hd errs)"

text \<open>The loops never write the reason, and a failed call leaves its own where the exit looks for it.\<close>

definition reason_kept :: "'i dev_run \<Rightarrow> bool" where
  "reason_kept s \<longleftrightarrow> r_device_error (dv_out s) = [] \<and>
     (\<forall>pipe errs c cs. dv_lost s = Some (pipe, errs) \<longrightarrow> dv_ctx s = c # cs \<longrightarrow> sd_error (dc_side c) = lost_reason pipe errs)"

lemma surface_first: "surface_error ctx = c # cs \<Longrightarrow> sd_error (dc_side c) = lost_reason True (ctx_errors ctx)"
proof -
  assume s: "surface_error ctx = c # cs"
  have f: "find (\<lambda>e. e \<noteq> []) (map (\<lambda>c. sd_error (dc_side c)) xs)
      = map_option (\<lambda>c. sd_error (dc_side c)) (find (\<lambda>c. sd_error (dc_side c) \<noteq> []) xs)" for xs :: "'a vb_dev_ctx list"
    by (induction xs) auto
  show ?thesis
    using s by (auto simp: surface_error_def lost_reason_def ctx_errors_def f split: list.splits if_splits option.splits)
qed

lemma dev_pass_lost:
  assumes "dev_pass be cfg expect st s = (ok, s')" "dv_lost s = None"
  shows "if ok then dv_lost s' = None else dv_lost s' = Some (False, ctx_errors (dv_ctx s'))"
  using assms by (auto simp: dev_pass_def split: prod.splits if_splits)

lemma pipe_passes_lost:
  assumes "pipe_passes ds be n expected st s = (rc, s')" "dv_lost s = None"
  shows "(rc = 0 \<longrightarrow> dv_lost s' = None) \<and>
    (dv_lost s' \<noteq> None \<longrightarrow> (\<exists>ctx. dv_lost s' = Some (True, ctx_errors ctx) \<and> dv_ctx s' = surface_error ctx))"
  using assms by (auto simp: pipe_passes_def Let_def split: prod.splits if_splits option.splits)

interpretation reason: dev_invariant ds be cfg expect expected reason_kept "\<lambda>s. dv_lost s = None"
  for ds be cfg expect expected
proof unfold_locales
  fix s s' st ok
  assume k: "reason_kept s" "dv_lost s = None" and d: "dev_pass be cfg expect st (clear_got s) = (ok, s')"
  have "if ok then dv_lost s' = None else dv_lost s' = Some (False, ctx_errors (dv_ctx s'))"
    by (rule dev_pass_lost[OF d]) (simp add: k)
  then show "reason_kept s'"
    using k(1) dev_pass_out[OF d] by (auto simp: reason_kept_def lost_reason_def ctx_errors_def split: if_splits)
next
  fix s s' st n rc
  assume k: "reason_kept s" "dv_lost s = None" and p: "pipe_passes ds be n expected st s = (rc, s')"
  from pipe_passes_lost[OF p k(2)] show "reason_kept s'"
    using k pipe_passes_out[OF p] by (auto simp: reason_kept_def intro: surface_first)
next
  fix s s' st
  assume k: "dv_lost s = None" and d: "dev_pass be cfg expect st (clear_got s) = (True, s')"
  have "if True then dv_lost s' = None else dv_lost s' = Some (False, ctx_errors (dv_ctx s'))"
    by (rule dev_pass_lost[OF d]) (simp add: k)
  then show "dv_lost s' = None" by simp
next
  fix s s' st n
  assume k: "dv_lost s = None" and p: "pipe_passes ds be n expected st s = (0, s')"
  from pipe_passes_lost[OF p k] show "dv_lost s' = None" by simp
qed (auto simp: reason_kept_def)

lemma dev_slice_eq: "vb_dev_slice total_groups n i = (slice_off total_groups n i, slice_len total_groups n i)"
  by (simp add: vb_dev_slice_def Let_def slice_off_closed slice_len_def min_def)

lemma init_devices_done:
  "init_devices ds be k cfg corpus rt t n i infos = Some (None, ctx, expect) \<Longrightarrow>
   length ctx = length infos \<and> expect = map (\<lambda>j. slice_expect ds k cfg corpus rt (vb_dev_slice t n j)) [i..<i + length infos]"
proof (induction infos arbitrary: i ctx expect)
  case (Cons info infos)
  let ?p = "vb_dev_slice t n i"
  obtain ok c where I: "vb_dev_ctx_init (ds_env ds) be info corpus (k_streams k) (fst ?p) (snd ?p) (dev_options cfg) = Some (ok, c)"
    using Cons.prems by (auto simp: Let_def split: option.splits)
  obtain ok2 c2 where T: "set_transfer be cfg c = (ok2, c2)" by (metis surj_pair)
  obtain ctx' expect' where R: "init_devices ds be k cfg corpus rt t n (i + 1) infos = Some (None, ctx', expect')"
    "ctx = c2 # ctx'" "expect = slice_expect ds k cfg corpus rt ?p # expect'"
    using Cons.prems I T by (auto simp: Let_def split: option.splits bool.splits if_splits)
  have "[i..<i + length (info # infos)] = i # [i + 1..<i + 1 + length infos]" by (simp add: upt_rec)
  then show ?case using Cons.IH[OF R(1)] R(2,3) by simp
qed simp

text \<open>The references of the slices XOR to the reference of the batch.\<close>

lemma slice_expects_xor:
  assumes "\<not> cf_have_expected cfg" "cf_alg cfg \<in> set ALGS" "0 < cf_iterations cfg" "\<And>i. slice_ok (ds_ref ds) i" "kgroup k dvd c_n_messages corpus" "0 < n"
  defines "t \<equiv> c_n_messages corpus div kgroup k"
  shows "slice_expect ds k cfg corpus rt (vb_dev_slice t n i) = vb_reference_checksum True (cf_alg cfg)
      (c_start_index corpus + of_nat (fst (vb_dev_slice t n i) * kgroup k)) (snd (vb_dev_slice t n i) * kgroup k)
      (cf_message_bytes cfg) (cf_iterations cfg)"
    "xor_rows (map (\<lambda>j. slice_expect ds k cfg corpus rt (vb_dev_slice t n j)) [0..<n])
      = vb_reference_checksum True (cf_alg cfg) (c_start_index corpus) (c_n_messages corpus) (cf_message_bytes cfg) (cf_iterations cfg)"
proof -
  have e: "slice_expect ds k cfg corpus rt (vb_dev_slice t n j) = vb_reference_checksum True (cf_alg cfg)
      (c_start_index corpus + of_nat (fst (vb_dev_slice t n j) * kgroup k)) (snd (vb_dev_slice t n j) * kgroup k)
      (cf_message_bytes cfg) (cf_iterations cfg)" for j
    using assms(1-4) by (simp add: slice_expect_def Let_def mt_checksum)
  then show "slice_expect ds k cfg corpus rt (vb_dev_slice t n i) = vb_reference_checksum True (cf_alg cfg)
      (c_start_index corpus + of_nat (fst (vb_dev_slice t n i) * kgroup k)) (snd (vb_dev_slice t n i) * kgroup k)
      (cf_message_bytes cfg) (cf_iterations cfg)" .
  let ?off = "\<lambda>j. slice_off t n j * kgroup k"
  have "xor_rows (map (\<lambda>j. slice_expect ds k cfg corpus rt (vb_dev_slice t n j)) [0..<n])
      = xor_rows (map (\<lambda>j. ref_checksum (cf_alg cfg) (c_start_index corpus + of_nat (?off j)) (slice_len t n j * kgroup k)
          (cf_message_bytes cfg) (cf_iterations cfg)) [0..<n])"
    unfolding e by (simp only: dev_slice_eq fst_conv snd_conv reference_checksum_eq[OF assms(2,3)])
  also have "\<dots> = ref_checksum (cf_alg cfg) (c_start_index corpus) (?off n) (cf_message_bytes cfg) (cf_iterations cfg)"
    by (rule ref_checksum_parts) (simp_all add: add_mult_distrib)
  also have "?off n = c_n_messages corpus" using assms(5,6) by (simp add: slice_off_total t_def)
  finally show "xor_rows (map (\<lambda>j. slice_expect ds k cfg corpus rt (vb_dev_slice t n j)) [0..<n])
      = vb_reference_checksum True (cf_alg cfg) (c_start_index corpus) (c_n_messages corpus) (cf_message_bytes cfg) (cf_iterations cfg)"
    by (simp only: reference_checksum_eq[OF assms(2,3)])
qed

lemma first_check_done:
  assumes "first_check be cfg expect s = (Some e, s')" "length expect = length (dv_ctx s)" "dv_log s = []"
  obtains parts where "good_run cfg e (First_pass, parts) s'" "xor_rows parts = e" "length parts = length (dv_ctx s)"
    "\<not> cf_have_expected cfg \<Longrightarrow> parts = expect" "e = (if cf_have_expected cfg then cf_expected cfg else xor_rows expect)"
proof -
  let ?s = "s\<lparr>dv_mismatch := False\<rparr>"
  obtain ok s1 where D: "dev_pass be cfg expect First_pass (clear_got ?s) = (ok, s1)" by (metis surj_pair)
  note V = assms(1)[unfolded first_check_def Let_def D prod.case fold_rows]
  have ok: "ok" "\<not> dv_mismatch s1" using V by (auto split: if_splits)
  have e: "e = (if cf_have_expected cfg then cf_expected cfg else xor_rows expect)"
    "cf_have_expected cfg \<Longrightarrow> dv_got s1 = cf_expected cfg" "s' = s1\<lparr>dv_out := (dv_out s1)\<lparr>r_checksum := e\<rparr>\<rparr>"
    using V ok by (auto split: if_splits)
  from D ok(1) have D': "dev_pass be cfg expect First_pass (clear_got ?s) = (True, s1)" by simp
  obtain parts where p: "dv_log s1 = dv_log ?s @ [(First_pass, parts)]" "dv_got s1 = xor_rows parts" "length parts = length (dv_ctx ?s)"
    "length expect = length (dv_ctx ?s) \<longrightarrow> (dv_mismatch s1 \<longleftrightarrow> dv_mismatch ?s \<or> (\<not> cf_have_expected cfg \<and> parts \<noteq> expect))"
    using dev_pass_done[OF D'] by blast
  have same: "\<not> cf_have_expected cfg \<Longrightarrow> parts = expect" using p(4) ok(2) assms(2) by auto
  show thesis
    by (rule that[of parts]) (use p e same assms(3) in \<open>auto simp: good_run_def\<close>)
qed

text \<open>Where a device measurement can leave: before the contexts are up, or out of the body.\<close>

lemma measure_device_cases:
  assumes "measure_device ds k cfg corpus rt out = Some x"
  obtains (early) "dx_rc x = 1" "dx_events x = []" "\<not> r_verified (dx_out x)" "dx_log x = []"
  | (body) b idx ctx expect ok s ev where "k_backend k = Some b"
      "choose_devices (vb_devices (ds_lists ds) (int VB_DEV_MAX)) (backend_index b) cfg = Inr idx"
      "length expect = length ctx" "length ctx = min (length idx) (c_n_messages corpus div kgroup k)"
      "expect = map (\<lambda>j. slice_expect ds k cfg corpus rt (vb_dev_slice (c_n_messages corpus div kgroup k) (length ctx) j)) [0..<length ctx]"
      "dev_body ds (ds_backend ds b) cfg expect (start_run ctx (name_devices ds (ds_backend ds b) cfg ctx out)) = Some (ok, s, ev)"
      "dx_events x = attribute_devices ctx # ev" "dx_ctx x = dv_ctx s" "dx_log x = dv_log s" "dx_lost x = dv_lost s"
      "dx_rc x = (if ok then 0 else 1)"
      "dx_out x = (if ok then dv_out s else (surfaced (dv_ctx s) (dv_out s))\<lparr>r_verified := False\<rparr>)"
proof -
  let ?devs = "vb_devices (ds_lists ds) (int VB_DEV_MAX)"
  note V = assms[unfolded measure_device_def Let_def]
  show thesis
  proof (cases "k_backend k")
    case None
    then show ?thesis using V by (intro early) auto
  next
    case (Some b)
    note V1 = V[unfolded Some option.case]
    show ?thesis
    proof (cases "?devs = []")
      case True
      then show ?thesis using V1 by (intro early) auto
    next
      case nonempty: False
      note V2 = V1[unfolded if_not_P[OF nonempty]]
      show ?thesis
      proof (cases "choose_devices ?devs (backend_index b) cfg")
        case (Inl why)
        then show ?thesis using V2 by (intro early) auto
      next
        case (Inr idx)
        define t where "t = c_n_messages corpus div kgroup k"
        define idx' where "idx' = (if t < length idx then take t idx else idx)"
        note V3 = V2[unfolded Inr sum.case, folded t_def, folded idx'_def]
        obtain fail ctx expect where I: "init_devices ds (ds_backend ds b) k cfg corpus rt t (length idx') 0
            (map (\<lambda>i. vd_via (?devs ! i) ! backend_index b) idx') = Some (fail, ctx, expect)"
          using V3 by (auto split: option.splits)
        note V4 = V3[unfolded I option.case prod.case]
        show ?thesis
        proof (cases fail)
          case (Some f)
          then show ?thesis using V4 by (intro early) (cases f; auto)+
        next
          case None
          note V5 = V4[unfolded None option.case]
          have D: "length ctx = length idx'" "expect = map (\<lambda>j. slice_expect ds k cfg corpus rt (vb_dev_slice t (length idx') j)) [0..<length idx']"
            using init_devices_done[OF I[unfolded None]] by auto
          obtain ok s ev where B: "dev_body ds (ds_backend ds b) cfg expect (start_run ctx (name_devices ds (ds_backend ds b) cfg ctx out)) = Some (ok, s, ev)"
            using V5 by (auto split: option.splits)
          note V6 = V5[unfolded B option.case prod.case]
          have l: "length ctx = min (length idx) t" using D(1) by (auto simp: idx'_def)
          show ?thesis
            by (rule body[OF \<open>k_backend k = Some b\<close> Inr _ l[unfolded t_def] D(2)[folded D(1), unfolded t_def] B])
              (use V6 D in \<open>auto split: if_splits\<close>)
        qed
      qed
    qed
  qed
qed

lemma chosen_nonempty:
  "choose_devices devs b cfg = Inr idx \<Longrightarrow> cf_device_count cfg \<le> length (cf_device_index cfg) \<Longrightarrow> idx \<noteq> []"
proof -
  assume c: "choose_devices devs b cfg = Inr idx" "cf_device_count cfg \<le> length (cf_device_index cfg)"
  have named: "named_devices devs b ds = Inr idx \<Longrightarrow> length idx = length ds" for ds
    by (induction ds arbitrary: idx) (auto split: sum.splits if_splits)
  show ?thesis using c named[of "take (cf_device_count cfg) (cf_device_index cfg)"]
    by (auto simp: choose_devices_def Let_def split: if_splits)
qed

text \<open>The reference of some groups of a batch.\<close>

definition groups_reference :: "vb_kernel \<Rightarrow> vb_config \<Rightarrow> vb_corpus \<Rightarrow> nat \<times> nat \<Rightarrow> checksum" where
  "groups_reference k cfg corpus part =
    vb_reference_checksum True (cf_alg cfg) (c_start_index corpus + of_nat (fst part * kgroup k)) (snd part * kgroup k)
      (cf_message_bytes cfg) (cf_iterations cfg)"

lemma device_run_checked:
  assumes "measure_device ds k cfg corpus rt out = Some x" and "dx_rc x = 0"
    and "cf_alg cfg \<in> set ALGS" "0 < cf_iterations cfg" "\<And>i. slice_ok (ds_ref ds) i"
    and "k_lanes k * k_streams k dvd c_n_messages corpus" "0 < c_n_messages corpus"
    and "cf_device_count cfg \<le> length (cf_device_index cfg)"
  shows "r_verified (dx_out x)
    \<and> r_checksum (dx_out x) = (if cf_have_expected cfg then cf_expected cfg
        else vb_reference_checksum True (cf_alg cfg) (c_start_index corpus) (c_n_messages corpus) (cf_message_bytes cfg) (cf_iterations cfg))
    \<and> (\<exists>parts rest. dx_log x = (First_pass, parts) # rest \<and> parts \<noteq> [] \<and> xor_rows parts = r_checksum (dx_out x)
        \<and> (\<not> cf_have_expected cfg \<longrightarrow> (\<forall>i < length parts. parts ! i =
             groups_reference k cfg corpus (vb_dev_slice (c_n_messages corpus div (k_lanes k * k_streams k)) (length parts) i)))
        \<and> (\<forall>(st, parts) \<in> set rest. if cf_transfer cfg = VB_TRANSFER_OVERLAP then parts = [r_checksum (dx_out x)]
             else st = Timed \<longrightarrow> xor_rows parts = r_checksum (dx_out x)))"
  using assms(1)
proof (cases rule: measure_device_cases)
  case (body b idx ctx expect ok s ev)
  have ok: "ok" using body(11) assms(2) by (auto split: if_splits)
  have n: "0 < length ctx"
    using body(4) chosen_nonempty[OF body(2) assms(8)] assms(6,7) by (auto simp: dvd_div_eq_0_iff)
  obtain e s1 where F: "first_check (ds_backend ds b) cfg expect (start_run ctx (name_devices ds (ds_backend ds b) cfg ctx out)) = (Some e, s1)"
    and R: "dev_rest ds (ds_backend ds b) cfg expect e s1 = Some (True, s, ev)"
    using body(6) ok by (auto simp: dev_body_def split: option.splits prod.splits)
  obtain parts where p: "good_run cfg e (First_pass, parts) s1" "xor_rows parts = e" "length parts = length ctx"
      "\<not> cf_have_expected cfg \<longrightarrow> parts = expect" "e = (if cf_have_expected cfg then cf_expected cfg else xor_rows expect)"
    by (rule first_check_done[OF F]) (auto simp: start_run_def body(3))
  have G: "good_run cfg e (First_pass, parts) s" "r_verified (dv_out s)"
    using checked.rest_keeps[OF R _ p(1)] by simp_all
  let ?t = "c_n_messages corpus div kgroup k"
  have slice: "slice_expect ds k cfg corpus rt (vb_dev_slice ?t (length ctx) j) = groups_reference k cfg corpus (vb_dev_slice ?t (length ctx) j)"
    if "\<not> cf_have_expected cfg" for j
    unfolding groups_reference_def by (rule slice_expects_xor(1)[OF that assms(3-6) n])
  have "parts ! i = groups_reference k cfg corpus (vb_dev_slice ?t (length parts) i)"
    if "\<not> cf_have_expected cfg" "i < length parts" for i
    using slice[OF that(1), of i] that p(3,4) body(5) by simp
  moreover have "e = (if cf_have_expected cfg then cf_expected cfg
      else vb_reference_checksum True (cf_alg cfg) (c_start_index corpus) (c_n_messages corpus) (cf_message_bytes cfg) (cf_iterations cfg))"
    using p(5) slice_expects_xor(2)[OF _ assms(3-6) n] by (simp add: body(5))
  moreover obtain rest where "dv_log s = (First_pass, parts) # rest" "\<forall>x \<in> set rest. entry_ok cfg e x" "r_checksum (dv_out s) = e"
    using G(1) by (auto simp: good_run_def)
  moreover have "dx_out x = dv_out s" using body(12) ok by simp
  moreover have "parts \<noteq> []" using p(3) n by auto
  ultimately show ?thesis using G(2) p(2) body(9) by (auto simp: entry_ok_def split: if_splits)
qed (use assms(2) in simp)

lemma first_check_reason:
  assumes "first_check be cfg expect s = (r, s')" "reason_kept s" "dv_lost s = None"
  shows "reason_kept s' \<and> (r \<noteq> None \<longrightarrow> dv_lost s' = None)"
proof -
  let ?s = "s\<lparr>dv_mismatch := False\<rparr>"
  obtain ok s1 where D: "dev_pass be cfg expect First_pass (clear_got ?s) = (ok, s1)" by (metis surj_pair)
  have k: "reason_kept ?s" "dv_lost ?s = None" using assms(2,3) by (simp_all add: reason_kept_def)
  have s1: "reason_kept s1" by (rule reason.pass_P[OF k D])
  have "ok \<Longrightarrow> dv_lost s1 = None" using dev_pass_lost[OF D] k(2) by simp
  then show ?thesis
    using assms(1) s1 by (auto simp: first_check_def Let_def D reason_kept_def split: if_splits)
qed

lemma rest_power:
  "dev_rest ds be cfg expect expected s = Some (False, s', ev) \<Longrightarrow> Power_end \<notin> set ev"
  by (auto simp: dev_rest_def Let_def split: option.splits prod.splits bool.splits if_splits)

lemma body_fails:
  assumes "dev_body ds be cfg expect s = Some (False, s', ev)" "reason_kept s" "dv_lost s = None"
  shows "reason_kept s' \<and> Power_end \<notin> set ev"
proof -
  obtain r s1 where F: "first_check be cfg expect s = (r, s1)" by (metis surj_pair)
  note s1 = first_check_reason[OF F assms(2,3)]
  show ?thesis
  proof (cases r)
    case None
    then show ?thesis using assms(1) F s1 by (simp add: dev_body_def)
  next
    case (Some e)
    then have R: "dev_rest ds be cfg expect e s1 = Some (False, s', ev)" using assms(1) F by (simp add: dev_body_def)
    then show ?thesis using reason.rest_keeps[OF R] s1 Some rest_power[OF R] by simp
  qed
qed


text \<open>C34: when a device run fails after its contexts came up, the reason is the error the first context
  has at the exit.  Where a launch or its readback failed that is the first context's own error, whichever
  device failed, so the reason of any other device stays behind.  Where a call of the pipeline failed it is
  the first error any context has, surfaced on the first.  The power meter of a run that fails in its
  samples is never ended.\<close>

theorem device_failure_reason:
  assumes "measure_device ds k cfg corpus rt out = Some x" and "dx_rc x \<noteq> 0"
    and "r_device_error out = []" "dx_events x \<noteq> []" "dx_ctx x \<noteq> []"
  shows "\<not> r_verified (dx_out x) \<and> r_device_error (dx_out x) = snprintf_into 512 (sd_error (dc_side (hd (dx_ctx x))))
    \<and> (case dx_lost x of None \<Rightarrow> True
       | Some (False, errs) \<Rightarrow> r_device_error (dx_out x) = snprintf_into 512 (hd errs)
       | Some (True, errs) \<Rightarrow> r_device_error (dx_out x)
           = snprintf_into 512 (case find (\<lambda>e. e \<noteq> []) errs of None \<Rightarrow> [] | Some e \<Rightarrow> e))
    \<and> Power_end \<notin> set (dx_events x)"
  using assms(1)
proof (cases rule: measure_device_cases)
  case (body b idx ctx expect ok s ev)
  have bad: "\<not> ok" using body(11) assms(2) by auto
  let ?s = "start_run ctx (name_devices ds (ds_backend ds b) cfg ctx out)"
  have start: "reason_kept ?s" "dv_lost ?s = None" using assms(3) by (simp_all add: reason_kept_def start_run_def name_devices_def Let_def)
  have B: "dev_body ds (ds_backend ds b) cfg expect ?s = Some (False, s, ev)" using body(6) bad by simp
  have k: "reason_kept s" "Power_end \<notin> set ev" using body_fails[OF B start] by simp_all
  obtain c cs where c: "dv_ctx s = c # cs" using assms(5) body(8) by (cases "dv_ctx s") auto
  have r: "r_device_error (dx_out x) = snprintf_into 512 (sd_error (dc_side c))"
    using k(1) bad c body(12) by (simp add: reason_kept_def surfaced_def)
  have l: "r_device_error (dx_out x) = snprintf_into 512 (lost_reason pipe errs)" if "dx_lost x = Some (pipe, errs)" for pipe errs
    using k(1) r c that[unfolded body(10)] by (simp add: reason_kept_def)
  have "case dx_lost x of None \<Rightarrow> True
       | Some (False, errs) \<Rightarrow> r_device_error (dx_out x) = snprintf_into 512 (hd errs)
       | Some (True, errs) \<Rightarrow> r_device_error (dx_out x)
           = snprintf_into 512 (case find (\<lambda>e. e \<noteq> []) errs of None \<Rightarrow> [] | Some e \<Rightarrow> e)"
  proof (cases "dx_lost x")
    case (Some y)
    then show ?thesis using l[of "fst y" "snd y"] by (cases y; cases "fst y") (simp_all add: lost_reason_def)
  qed simp
  then show ?thesis using k(2) bad r c body(7,8,12) by (simp add: attribute_devices_def)
qed (use assms(4) in simp)

end
