(* ===== verification/Device_Live.thy ===== *)
theory Device_Live
  imports Device_Verify Measure_Live
begin

text \<open>
  Device runs in which every pass comes through, and two small machines: one device whose run ends
  verified, and a second device that is lost once the runs begin.
\<close>

section \<open>Runs whose every pass is good\<close>

definition steady :: "'i vb_dev_backend \<Rightarrow> vb_config \<Rightarrow> checksum list \<Rightarrow> checksum \<Rightarrow> ('i vb_dev_ctx list \<Rightarrow> bool) \<Rightarrow> bool" where
  "steady be cfg expect expected C \<longleftrightarrow> (\<forall>st s. C (dv_ctx s) \<longrightarrow>
     (\<exists>s'. dev_pass be cfg expect st (clear_got s) = (True, s') \<and> C (dv_ctx s') \<and> dv_got s' = expected
        \<and> dv_reads s' = dv_reads s))"

lemma steadyD:
  assumes "steady be cfg expect expected C" "C (dv_ctx s)"
  obtains s' where "dev_pass be cfg expect st (clear_got s) = (True, s')" "C (dv_ctx s')" "dv_got s' = expected"
    "dv_reads s' = dv_reads s"
  using assms unfolding steady_def by blast

lemma rep_steady:
  assumes "steady be cfg expect expected C" "C (dv_ctx s)"
  shows "\<exists>s'. rep_passes be cfg expect n s = (True, s') \<and> C (dv_ctx s') \<and> dv_reads s' = dv_reads s"
  using assms(2)
proof (induction n arbitrary: s)
  case (Suc n)
  obtain s1 where d: "dev_pass be cfg expect Calibration (clear_got s) = (True, s1)" "C (dv_ctx s1)" "dv_reads s1 = dv_reads s"
    using steadyD[OF assms(1) Suc.prems] by metis
  then show ?case using Suc.IH[of s1] by simp
qed simp

lemma timed_steady:
  assumes "steady be cfg expect expected C" "C (dv_ctx s)"
  shows "\<exists>s'. timed_passes be cfg expect expected si n s = (True, s') \<and> C (dv_ctx s')"
  using assms(2)
proof (induction n arbitrary: s)
  case (Suc n)
  obtain s1 where d: "dev_pass be cfg expect Timed (clear_got s) = (True, s1)" "C (dv_ctx s1)" "dv_got s1 = expected"
    using steadyD[OF assms(1) Suc.prems] by metis
  let ?s2 = "s1\<lparr>dv_kernel_ns := dv_kernel_ns s1 + list_top (map (\<lambda>c. sd_last_kernel_ns (dc_side c)) (dv_ctx s1)),
             dv_transfer_ns := dv_transfer_ns s1 + list_top (map (\<lambda>c. sd_last_transfer_ns (dc_side c)) (dv_ctx s1))\<rparr>"
  show ?case using Suc.IH[of ?s2] d by simp
qed simp

lemma samples_steady:
  assumes "steady be cfg expect expected C" "C (dv_ctx s)" "\<not> overlapped cfg"
  shows "\<exists>s'. dev_samples ds be cfg expect expected reps n i s = (True, s')"
  using assms(2)
proof (induction "n - i" arbitrary: i s)
  case 0
  then show ?case by (subst dev_samples.simps) simp
next
  case (Suc m)
  obtain s1 where t: "timed_passes be cfg expect expected i reps (s\<lparr>dv_reads := dv_reads s + 1\<rparr>) = (True, s1)" "C (dv_ctx s1)"
    using timed_steady[OF assms(1), of "s\<lparr>dv_reads := dv_reads s + 1\<rparr>" i reps] Suc(3) by auto
  then obtain s2 where "dev_sample ds be cfg expect expected reps i s = (True, s2)" "C (dv_ctx s2)"
    using assms(3) by (simp add: dev_sample_def read_clock_def Let_def)
  then show ?case using Suc(1)[of "i + 1" s2] Suc(2) by (subst dev_samples.simps) simp
qed

text \<open>A run whose clock shows the target passed after one stretch, without warm-up.\<close>

lemma rest_steady:
  assumes S: "steady be cfg expect expected C" and C: "C (dv_ctx s)" and o: "\<not> overlapped cfg"
    and reads: "dv_reads s = 0"
    and probe: "d_le (d_div (calib_target (cf_target_ms cfg)) (num 4)) (of_nat_d (elapsed (ds_now ds 1) (ds_now ds 0)))"
    and warm: "\<not> ds_now ds 3 < ds_now ds 2 + cf_warmup_ms cfg * 1000000"
  shows "\<exists>s' ev. dev_rest ds be cfg expect expected s = Some (True, s', ev)"
proof -
  let ?t = "calib_target (cf_target_ms cfg)" and ?ns = "elapsed (ds_now ds 1) (ds_now ds 0)"
  obtain s1 where r1: "rep_passes be cfg expect 1 (s\<lparr>dv_reads := 1\<rparr>) = (True, s1)" "C (dv_ctx s1)" "dv_reads s1 = 1"
    using rep_steady[OF S, of "s\<lparr>dv_reads := 1\<rparr>" 1] C by auto
  have calib: "dev_calib ds be cfg expect expected ?t (d_div ?t (num 4)) 1 s = Some (True, want_reps ?t ?ns 1, s1\<lparr>dv_reads := 2\<rparr>)"
    using probe o r1 reads by (subst dev_calib.simps) (simp add: read_clock_def stretch_def Let_def del: One_nat_def)
  have warmed: "dev_warm ds be cfg expect expected (ds_now ds 2 + cf_warmup_ms cfg * 1000000) n (s1\<lparr>dv_reads := 3\<rparr>)
      = Some (True, s1\<lparr>dv_reads := 4\<rparr>)" for n
    using warm by (subst dev_warm.simps) (simp add: read_clock_def)
  obtain s2 where r2: "rep_passes be cfg expect (want_reps ?t ?ns 1) (s1\<lparr>dv_reads := 5\<rparr>) = (True, s2)" "C (dv_ctx s2)"
    using rep_steady[OF S, of "s1\<lparr>dv_reads := 5\<rparr>"] r1(2) by auto
  have samples: "\<exists>s'. dev_samples ds be cfg expect expected m n 0 q = (True, s')" if "dv_ctx q = dv_ctx s2" for m n q
    using samples_steady[OF S _ o, of q] r2(2) that by simp
  have rd: "read_clock ds (s1\<lparr>dv_reads := 2\<rparr>) = (ds_now ds 2, s1\<lparr>dv_reads := 3\<rparr>)"
    "read_clock ds (s1\<lparr>dv_reads := 4\<rparr>) = (ds_now ds 4, s1\<lparr>dv_reads := 5\<rparr>)"
    "read_clock ds s2 = (ds_now ds (dv_reads s2), s2\<lparr>dv_reads := dv_reads s2 + 1\<rparr>)"
    by (simp_all add: read_clock_def)
  have st: "stretch ds be cfg expect expected (want_reps ?t ?ns 1) (s1\<lparr>dv_reads := 5\<rparr>) = (True, s2)"
    using o r2(1) by (simp add: stretch_def)
  have finish: "\<exists>s' ev. (case dev_samples ds be cfg expect expected m n 0 q of (good, s) \<Rightarrow>
      if \<not> good then Some (False, F s) else Some (True, H s)) = Some (True, s', ev)" if "dv_ctx q = dv_ctx s2" for m n q F H
    using samples[OF that, of m n] by (cases "H (snd (dev_samples ds be cfg expect expected m n 0 q))") auto
  show ?thesis
    unfolding dev_rest_def Let_def if_not_P[OF o] calib option.case prod.case bool.case rd warmed st not_True_eq_False if_False
    by (rule finish) simp
qed



section \<open>Two small machines\<close>

text \<open>A backend whose partials are all zero, and which loses device 1 as soon as a launch makes more
  than one sweep.\<close>

definition late_backend :: "unit vb_dev_backend" where
  "late_backend = instant_backend
    \<lparr>be_launch := (\<lambda>c it n. if di_ordinal (dc_dev c) = 1 \<and> 1 < dc_repeats c
        then (False, (dc_side c)\<lparr>sd_error := ''device lost''\<rparr>) else (True, (dc_side c)\<lparr>sd_last_kernel_ns := 10000000\<rparr>)),
     be_read := (\<lambda>c n. (True, (dc_side c)\<lparr>sd_partials := replicate n 0\<rparr>))\<rparr>"

lemma late_calls:
  "be_launch late_backend c it n = (if di_ordinal (dc_dev c) = 1 \<and> 1 < dc_repeats c
      then (False, (dc_side c)\<lparr>sd_error := ''device lost''\<rparr>) else (True, (dc_side c)\<lparr>sd_last_kernel_ns := 10000000\<rparr>))"
  "be_read late_backend c n = (True, (dc_side c)\<lparr>sd_partials := replicate n 0\<rparr>)"
  "be_max_local late_backend c = 256" "be_dialect late_backend = VB_DIALECT_OPENCL"
  "be_build late_backend c a b d e = (True, (dc_side c)\<lparr>sd_impl := Some ()\<rparr>)" "be_alloc late_backend c x m n = (True, dc_side c)"
  by (simp_all add: late_backend_def instant_backend_def)

text \<open>What such a context looks like once it is up.\<close>

definition late_ctx :: "vb_dev_info \<Rightarrow> unit vb_dev_ctx \<Rightarrow> bool" where
  "late_ctx info c \<longleftrightarrow> dc_dev c = info \<and> dc_repeats c = 3 \<and> dc_local_size c = 128 \<and> dc_global_size c = 256
     \<and> 2 \<le> dc_partial_cap c \<and> dc_n_partials c = 2 \<and> dc_partial_words c = 4 \<and> dc_partial_word_bytes c = 4"

lemma zero_partials:
  assumes "dc_partial_word_bytes c = 4"
  shows "fold_partials c (replicate (dc_n_partials c * partial_bytes c) 0) zero_checksum = zero_checksum"
proof -
  have w: "partial_word c (replicate (dc_n_partials c * partial_bytes c) 0) (i * dc_partial_words c + w) = 0"
    if "i < dc_n_partials c" "w < dc_partial_words c" for i w
  proof -
    let ?j = "i * dc_partial_words c + w"
    have "?j < dc_n_partials c * dc_partial_words c"
      using that by (metis add.commute add_less_cancel_left mult.commute mult_Suc_right Suc_leI less_le_trans mult_le_mono1 add.left_commute)
    then have "4 * ?j + 4 \<le> dc_n_partials c * partial_bytes c" using assms by (simp add: partial_bytes_def)
    then show ?thesis using assms by (simp add: partial_word_def load_le32_def)
  qed
  have inner: "fold (\<lambda>w acc. acc[w := acc ! w XOR partial_word c (replicate (dc_n_partials c * partial_bytes c) 0) (i * dc_partial_words c + w)])
      ws zero_checksum = zero_checksum" if "i < dc_n_partials c" "\<forall>w \<in> set ws. w < dc_partial_words c" for i ws
    using that by (induction ws) (simp_all add: w)
  have "fold (\<lambda>i acc. fold (\<lambda>w acc. acc[w := acc ! w XOR partial_word c (replicate (dc_n_partials c * partial_bytes c) 0) (i * dc_partial_words c + w)])
      [0..<dc_partial_words c] acc) is zero_checksum = zero_checksum" if "\<forall>i \<in> set is. i < dc_n_partials c" for "is"
    using that by (induction "is") (simp_all add: inner)
  then show ?thesis by (simp add: fold_partials_def)
qed

lemma late_pins:
  assumes "do_pin_global opt = 256" "do_pin_local opt = 128" "dc_lanes c = 64" "di_local_mem (dc_dev c) = 0" "2 \<le> dc_partial_cap c"
    and "dc_partial_words c = 4" "dc_partial_word_bytes c = 4"
  shows "\<exists>c'. init_geometry late_backend opt 64 256 c = Some (True, c') \<and> late_ctx (dc_dev c) c' \<and> sd_error (dc_side c') = []"
proof -
  let ?c = "c\<lparr>dc_global_size := 256, dc_local_size := 128, dc_n_partials := 256 div 128, dc_geometry_pinned := True\<rparr>"
  obtain held c1 where M: "measure_capacity late_backend ?c 128 = (held, c1)" by (metis surj_pair)
  obtain sd where c1: "c1 = ?c\<lparr>dc_side := sd\<rparr>" using capacity_side[OF M] by blast
  have "sd_error (dc_side c1) = []" using M by (auto simp: measure_capacity_def clear_err_def split: prod.splits)
  then have e: "sd_error sd = []" by (simp add: c1)
  have C: "\<exists>c2. calibrate_repeats late_backend (c1\<lparr>dc_capacity := held\<rparr>) it = (True, c2) \<and> late_ctx (dc_dev c) c2 \<and> sd_error (dc_side c2) = []" for it
    using assms(5-7) e
    by (auto simp: calibrate_repeats_def vb_dev_ctx_run_def vb_dev_ctx_enqueue_def vb_dev_ctx_collect_def side_call_def late_calls
        late_ctx_def c1 VB_DEV_TARGET_LAUNCH_NS_def Let_def)
  have "geometry_ok c 256 128" using assms(3,4) by (simp add: geometry_ok_def Let_def)
  then show ?thesis using M C[of "do_iterations opt"] by (auto simp: init_geometry_def assms(1,2) Let_def)
qed

definition late_env :: dev_env where
  "late_env = \<lparr>de_dialect = (\<lambda>d. []), de_primitives = [], de_capacity = [], de_core = (\<lambda>a. ''core''), de_compose_ok = True, de_partials_ok = True\<rparr>"

definition late_cfg :: vb_config where
  "late_cfg = vb_config_defaults\<lparr>cf_target_ms := 1, cf_warmup_ms := 0, cf_primitives_neutral := True, cf_pin_global := 256,
     cf_pin_local := 128, cf_have_expected := True, cf_expected := zero_checksum\<rparr>"

definition late_corpus :: vb_corpus where
  "late_corpus = \<lparr>c_words = replicate 2048 7, c_n_words = 2048, c_alg = md5_alg, c_lanes = 64, c_blocks = 1, c_message_bytes = 32,
     c_n_messages = 128, c_start_index = 0\<rparr>"

definition late_info :: "int \<Rightarrow> vb_dev_info" where
  "late_info n = zero_dev\<lparr>di_ordinal := n, di_compute_units := 4, di_max_work_group := 1024\<rparr>"

lemma late_floor: "lower_floor 256 64 = 64"
  by (subst lower_floor.simps) simp

lemma late_init:
  assumes "groups \<in> {1, 2}"
  shows "\<exists>c. vb_dev_ctx_init late_env late_backend (late_info n) late_corpus 1 off groups (dev_options late_cfg) = Some (True, c)
    \<and> late_ctx (late_info n) c \<and> sd_error (dc_side c) = []"
proof -
  have "\<exists>c. vb_dev_ctx_init late_env late_backend (late_info n) late_corpus 1 off groups (dev_options late_cfg)
      = init_geometry late_backend (dev_options late_cfg) 64 256 c \<and> dc_dev c = late_info n \<and> dc_lanes c = 64 \<and> 2 \<le> dc_partial_cap c
        \<and> dc_partial_words c = 4 \<and> dc_partial_word_bytes c = 4"
    using assms[unfolded insert_iff empty_iff simp_thms]
    by (elim disjE; simp add: vb_dev_ctx_init_def program_for_def PROGRAMS_def compose_def md5_alg_def vb_device_steers_def vb_dev_options_default_def
        side_call_def late_calls init_buffers_def local_bounds_def zero_dev_def VB_DEV_MIN_LOCAL_def late_env_def late_corpus_def
        late_info_def late_cfg_def dev_options_def late_floor zero_ctx_def max_global_def VB_DEV_PER_CU_def VB_DEV_MAX_LOCAL_def
        round_up_def Let_def) (rule exI, rule conjI, rule refl, simp)+
  then obtain c where c: "vb_dev_ctx_init late_env late_backend (late_info n) late_corpus 1 off groups (dev_options late_cfg)
      = init_geometry late_backend (dev_options late_cfg) 64 256 c" "dc_dev c = late_info n" "dc_lanes c = 64" "2 \<le> dc_partial_cap c"
        "dc_partial_words c = 4" "dc_partial_word_bytes c = 4" by blast
  have "do_pin_global (dev_options late_cfg) = 256" "do_pin_local (dev_options late_cfg) = 128" "di_local_mem (dc_dev c) = 0"
    by (simp_all add: dev_options_def late_cfg_def c(2) late_info_def zero_dev_def)
  from late_pins[OF this(1,2) c(3) this(3) c(4-6)] show ?thesis unfolding c(1) c(2) .
qed

text \<open>A pass over devices of which none is lost comes through.\<close>

lemma late_steady:
  "steady late_backend late_cfg expect zero_checksum (\<lambda>ctx. \<forall>c \<in> set ctx. late_ctx (late_info 0) c)"
proof -
  have enq: "\<exists>cs'. enqueue_all late_backend it cs = (True, cs') \<and> (\<forall>c \<in> set cs'. late_ctx (late_info 0) c)"
    if "\<forall>c \<in> set cs. late_ctx (late_info 0) c" for cs it
    using that
  proof (induction cs)
    case (Cons c cs)
    then show ?case
      by (auto simp: vb_dev_ctx_enqueue_def side_call_def late_calls late_ctx_def late_info_def zero_dev_def)
  qed simp
  have zero: "xor_row zero_checksum zero_checksum = zero_checksum"
    by (simp add: xor_row_words zero_checksum_def) (auto simp: VB_MAX_DIGEST_WORDS_def intro!: nth_equalityI)
  have col: "\<exists>cs' mis' parts. collect_all late_backend True cs es zero_checksum mis = (True, cs', zero_checksum, mis', parts)
      \<and> (\<forall>c \<in> set cs'. late_ctx (late_info 0) c)" if "\<forall>c \<in> set cs. late_ctx (late_info 0) c" for cs es mis
    using that
  proof (induction cs arbitrary: es mis)
    case (Cons c cs)
    have C: "late_ctx (late_info 0) c" using Cons.prems by simp
    let ?c = "c\<lparr>dc_side := (dc_side c)\<lparr>sd_partials := replicate (dc_n_partials c * partial_bytes c) 0\<rparr>\<rparr>"
    have "fold_partials ?c (replicate (dc_n_partials c * partial_bytes c) 0) zero_checksum = zero_checksum"
      using zero_partials[of ?c] C by (simp add: late_ctx_def partial_bytes_def)
    then have "vb_dev_ctx_collect late_backend c = (Some zero_checksum, ?c)"
      by (simp add: vb_dev_ctx_collect_def side_call_def late_calls)
    moreover have "late_ctx (late_info 0) ?c" using C by (simp add: late_ctx_def)
    ultimately show ?case using Cons.IH[of "tl es" mis] Cons.prems zero by auto
  qed simp
  show ?thesis
    unfolding steady_def
  proof (intro allI impI)
    fix st and s :: "unit dev_run"
    assume "\<forall>c \<in> set (dv_ctx s). late_ctx (late_info 0) c"
    then obtain cs where e: "enqueue_all late_backend (cf_iterations late_cfg) (dv_ctx s) = (True, cs)" "\<forall>c \<in> set cs. late_ctx (late_info 0) c"
      using enq by blast
    obtain cs2 mis parts where c: "collect_all late_backend True cs expect zero_checksum (dv_mismatch s) = (True, cs2, zero_checksum, mis, parts)"
      "\<forall>c \<in> set cs2. late_ctx (late_info 0) c" using col[OF e(2)] by blast
    show "\<exists>s'. dev_pass late_backend late_cfg expect st (clear_got s) = (True, s') \<and> (\<forall>c \<in> set (dv_ctx s'). late_ctx (late_info 0) c)
        \<and> dv_got s' = zero_checksum \<and> dv_reads s' = dv_reads s"
      using e c by (simp add: dev_pass_def clear_got_def late_cfg_def)
  qed
qed

definition late_system :: "vb_dev_info list \<Rightarrow> unit dev_system" where
  "late_system infos = \<lparr>ds_lists = (\<lparr>bi_enumerate = (\<lambda>n. infos), bi_unavailable = None\<rparr>, \<lparr>bi_enumerate = (\<lambda>n. []), bi_unavailable = None\<rparr>),
     ds_backend = (\<lambda>b. late_backend), ds_env = late_env, ds_now = (\<lambda>n. n * 1000000),
     ds_ref = \<lparr>tables_ok = True, flags_ok = True, slice_ok = (\<lambda>i. True), create_ok = (\<lambda>i. True), join_ok = (\<lambda>i. True), unjoined = (\<lambda>i. [])\<rparr>,
     ds_passes_ok = (\<lambda>n. True), ds_junk = zero_ctx\<rparr>"

definition late_row :: vb_kernel where
  "late_row = VB_DEV_ROW ''ocl'' ''OpenCL'' have_opencl VB_BACKEND_OPENCL VB_ALG_MD5 1"

lemma late_facts:
  "ds_backend (late_system infos) b = late_backend" "ds_env (late_system infos) = late_env" "ds_now (late_system infos) n = n * 1000000"
  "k_backend late_row = Some VB_BACKEND_OPENCL" "k_lanes late_row = 64" "k_streams late_row = 1"
  "cf_device_count late_cfg = 0" "cf_have_expected late_cfg" "cf_expected late_cfg = zero_checksum" "\<not> overlapped late_cfg"
  "cf_target_ms late_cfg = 1" "cf_warmup_ms late_cfg = 0" "c_n_messages late_corpus = 128" "cf_alg late_cfg \<in> set ALGS"
  "0 < cf_iterations late_cfg" "slice_ok (ds_ref (late_system infos)) j" "cf_device_count late_cfg \<le> length (cf_device_index late_cfg)"
  by (simp_all add: late_system_def late_row_def VB_DEV_ROW_def VB_OCL_LANES_def late_cfg_def vb_config_defaults_def late_corpus_def
      vb_algorithm_by_id_def ALGS_def)

lemma late_devices:
  assumes "infos = map late_info ns" "length infos \<le> 32"
  shows "vb_devices (ds_lists (late_system infos)) (int VB_DEV_MAX) = map ocl_only infos"
proof -
  have "fold (add_view (int VB_DEV_MAX) 0) infos [] = map ocl_only infos"
    using first_pass[of "[]" infos "int VB_DEV_MAX"] assms(2) by (simp add: VB_DEV_MAX_def)
  then show ?thesis by (simp add: vb_devices_def late_system_def VB_BACKENDS_def vb_backend_def Let_def upt_rec)
qed

lemma late_set_transfer:
  "late_ctx info c \<Longrightarrow> set_transfer late_backend late_cfg c = (True, c\<lparr>dc_stream := False\<rparr>) \<and> late_ctx info (c\<lparr>dc_stream := False\<rparr>)"
  by (simp add: set_transfer_def late_cfg_def vb_config_defaults_def vb_dev_ctx_set_stream_def late_ctx_def)

lemma late_probe: "d_le (d_div (calib_target 1) (num 4)) (of_nat_d (elapsed 1000000 0))"
proof -
  have "elapsed 1000000 0 = 1000000" by (simp add: elapsed_def)
  moreover have "of_nat_d 1000000 = Fin (of_nat 1000000)" by (rule of_nat_d_exact) simp
  ultimately show ?thesis using calib_floor(2)[of 1] by simp
qed

lemma late_body:
  assumes "late_ctx (late_info 0) c" "length expect = 1"
  shows "\<exists>s' ev. dev_body (late_system infos) late_backend late_cfg expect (start_run [c] out) = Some (True, s', ev)"
proof -
  let ?s = "(start_run [c] out)\<lparr>dv_mismatch := False\<rparr>"
  let ?C = "\<lambda>ctx. \<forall>c \<in> set ctx. late_ctx (late_info 0) c"
  have "?C (dv_ctx ?s)" using assms(1) by (simp add: start_run_def)
  then obtain s1 where d: "dev_pass late_backend late_cfg expect First_pass (clear_got ?s) = (True, s1)" "?C (dv_ctx s1)"
      "dv_got s1 = zero_checksum" "dv_reads s1 = 0"
    using steadyD[OF late_steady, of ?s expect First_pass] by (auto simp: start_run_def)
  have "\<not> dv_mismatch s1"
    using dev_pass_done[OF d(1)] assms(2) by (auto simp: start_run_def late_facts)
  then have F: "first_check late_backend late_cfg expect (start_run [c] out)
      = (Some zero_checksum, s1\<lparr>dv_out := (dv_out s1)\<lparr>r_checksum := zero_checksum\<rparr>\<rparr>)"
    using d by (simp add: first_check_def late_facts)
  have "\<exists>s' ev. dev_rest (late_system infos) late_backend late_cfg expect zero_checksum
      (s1\<lparr>dv_out := (dv_out s1)\<lparr>r_checksum := zero_checksum\<rparr>\<rparr>) = Some (True, s', ev)"
    by (rule rest_steady[OF late_steady]) (use d late_probe in \<open>simp_all add: late_facts\<close>)
  then show ?thesis by (simp add: dev_body_def F)
qed


text \<open>The second device is lost at its first launch of the run: the result gives no reason, although the
  context of that device has one.\<close>

lemma device_failure_reason_witness:
  "\<exists>x. measure_device (late_system [late_info 0, late_info 1]) late_row late_cfg late_corpus 1 zero_result = Some x \<and> dx_rc x = 1
    \<and> r_device_error (dx_out x) = [] \<and> map (\<lambda>c. sd_error (dc_side c)) (dx_ctx x) = [[], ''device lost'']"
proof -
  let ?ds = "late_system [late_info 0, late_info 1]"
  obtain c where c: "vb_dev_ctx_init late_env late_backend (late_info 0) late_corpus 1 0 1 (dev_options late_cfg) = Some (True, c)"
    "late_ctx (late_info 0) c" "sd_error (dc_side c) = []" using late_init[of 1 0 0] by auto
  obtain d where d: "vb_dev_ctx_init late_env late_backend (late_info 1) late_corpus 1 1 1 (dev_options late_cfg) = Some (True, d)"
    "late_ctx (late_info 1) d" using late_init[of 1 1 1] by auto
  let ?c = "c\<lparr>dc_stream := False\<rparr>" and ?d = "d\<lparr>dc_stream := False\<rparr>"
  let ?c' = "?c\<lparr>dc_side := (dc_side c)\<lparr>sd_last_kernel_ns := 10000000\<rparr>\<rparr>"
  let ?d' = "?d\<lparr>dc_side := (dc_side d)\<lparr>sd_error := ''device lost''\<rparr>\<rparr>"
  have devs: "vb_devices (ds_lists ?ds) (int VB_DEV_MAX) = [ocl_only (late_info 0), ocl_only (late_info 1)]"
    using late_devices[of _ "[0, 1]"] by simp
  have slices: "vb_dev_slice 2 2 0 = (0, 1)" "vb_dev_slice 2 2 1 = (1, 1)" by (simp_all add: vb_dev_slice_def)
  obtain es where init: "init_devices ?ds late_backend late_row late_cfg late_corpus 1 2 2 0 [late_info 0, late_info 1] = Some (None, [?c, ?d], es)"
    using c(1) d(1) late_set_transfer[OF c(2)] late_set_transfer[OF d(2)] by (simp add: late_facts slices[simplified])
  have "enqueue_all late_backend (cf_iterations late_cfg) [?c, ?d] = (False, [?c', ?d'])"
    using c(2) d(2) by (simp add: vb_dev_ctx_enqueue_def side_call_def late_calls late_ctx_def late_info_def zero_dev_def)
  then have "\<exists>s. dev_body ?ds late_backend late_cfg es (start_run [?c, ?d] out) = Some (False, s, []) \<and> dv_ctx s = [?c', ?d'] \<and> dv_out s = out" for out
    by (simp add: dev_body_def first_check_def dev_pass_def start_run_def clear_got_def)
  then obtain s where B: "dev_body ?ds late_backend late_cfg es (start_run [?c, ?d] (name_devices ?ds late_backend late_cfg [?c, ?d] zero_result))
      = Some (False, s, [])" "dv_ctx s = [?c', ?d']" "dv_out s = name_devices ?ds late_backend late_cfg [?c, ?d] zero_result" by blast
  have "\<exists>x. measure_device ?ds late_row late_cfg late_corpus 1 zero_result = Some x \<and> dx_rc x = 1 \<and> dx_ctx x = [?c', ?d'] \<and> dx_events x \<noteq> []"
    using init B(1,2) by (simp add: numeral_2_eq_2 measure_device_def late_facts devs choose_devices_def backend_index_def ocl_only_def Let_def
        del: init_devices.simps)
  then obtain x where x: "measure_device ?ds late_row late_cfg late_corpus 1 zero_result = Some x" "dx_rc x = 1" "dx_ctx x = [?c', ?d']"
    "dx_events x \<noteq> []" by blast
  have "r_device_error (dx_out x) = []"
    using device_failure_reason[OF x(1) _ _ x(4)] x(2,3) c(3) by (simp add: zero_result_def snprintf_into_def)
  then show ?thesis using x c(3) by (intro exI[of _ x]) simp
qed

end
