(* ===== verification/Autotune.thy ===== *)
theory Autotune
  imports Device_Live
begin

text \<open>
  The top of src/bench.c: \<open>measure_with_corpus\<close> on either path, \<open>vb_measure\<close> over a corpus of its own, and
  \<open>vb_autotune\<close>, which probes every eligible row of the kernel table and keeps the fastest.
\<close>

section \<open>One kernel\<close>

text \<open>\<open>def_threads\<close> is what \<open>vb_default_threads\<close> answers, the same at every call.\<close>

definition measure_with_corpus ::
  "system \<Rightarrow> 'i dev_system \<Rightarrow> cpu_cache \<Rightarrow> vb_kernel \<Rightarrow> vb_config \<Rightarrow> vb_corpus \<Rightarrow> nat \<Rightarrow>
    (int \<times> vb_result \<times> measure_event list \<times> cpu_cache) option" where
  "measure_with_corpus sy ds cache k cfg corpus def_threads =
    (let threads = (if cf_threads cfg \<noteq> 0 then cf_threads cfg else def_threads)
     in if k_device k then
          (case measure_device ds k cfg corpus def_threads (result_header k cfg corpus) of
             None \<Rightarrow> None
           | Some x \<Rightarrow>
               let out = dx_out x;
                   out = (if dx_rc x \<noteq> 0 \<and> r_n_samples out = 0 \<and> r_device_error out \<noteq> []
                          then out\<lparr>r_run_error := snprintf_into 512 (r_device_error out)\<rparr> else out)
               in Some (dx_rc x, out, [Power_open] @ dx_events x @ [Power_close], cache))
        else measure_cpu sy cache k cfg corpus threads def_threads)"

definition corpus_error :: "vb_config \<Rightarrow> string" where
  "corpus_error cfg =
    (let bytes = (vb_batch_messages cfg * unat (vb_alg_blocks_for (cf_alg cfg) (of_nat (cf_message_bytes cfg)))
                   * VB_WORDS_PER_BLOCK * word_bytes (cf_alg cfg)) mod 2 ^ 64
     in ''could not allocate a '' @ dec ((bytes + 2 ^ 20 - 1) mod 2 ^ 64 div 2 ^ 20) @
        '' MiB corpus; try a smaller --working-set-kb or --message-bytes'')"

text \<open>The memory the corpus gets: the words, unless refused, and the scratch of the builder.\<close>

definition vb_measure ::
  "system \<Rightarrow> 'i dev_system \<Rightarrow> (nat \<Rightarrow> u64 list option) \<Rightarrow> bool \<Rightarrow> cpu_cache \<Rightarrow> vb_kernel \<Rightarrow> vb_config \<Rightarrow> nat \<Rightarrow>
    (int \<times> vb_result \<times> measure_event list \<times> cpu_cache) option" where
  "vb_measure sy ds alloc scratch_ok cache k cfg def_threads =
    (case vb_corpus_build alloc scratch_ok (Some (cf_alg cfg)) (k_lanes k) 0 (vb_batch_messages cfg) (cf_message_bytes cfg) of
       None \<Rightarrow> Some (1, zero_result\<lparr>r_kernel := Some k, r_run_error := snprintf_into 512 (corpus_error cfg)\<rparr>, [], cache)
     | Some corpus \<Rightarrow> measure_with_corpus sy ds cache k cfg corpus def_threads)"


section \<open>Autotune\<close>

record vb_autotune_outcome =
  ao_eligible :: nat
  ao_verify_failed :: nat
  ao_could_not_run :: nat
  ao_run_error :: string

definition probe_config :: "vb_config \<Rightarrow> vb_config" where
  "probe_config cfg = cfg\<lparr>cf_target_ms := 20, cf_n_samples := 3, cf_warmup_ms := 20\<rparr>"

text \<open>The rows that are tried: of the algorithm, where the caller wants them, and available.\<close>

definition wanted :: "vb_config \<Rightarrow> vb_kernel \<Rightarrow> bool" where
  "wanted cfg k =
    (if k_alg k \<noteq> alg_id (cf_alg cfg) then False
     else if (cf_where cfg = VB_WHERE_CPU \<and> k_device k) \<or> (cf_where cfg = VB_WHERE_DEVICE \<and> \<not> k_device k) then False
     else if cf_backend_mask cfg \<noteq> 0 \<and>
       (\<not> k_device k \<or> (case k_backend k of None \<Rightarrow> True | Some b \<Rightarrow> cf_backend_mask cfg AND push_bit (backend_index b) 1 = 0))
     then False else True)"

text \<open>What a probe came to: no corpus, or the return code and the result.  The log of the probes is kept
  for statements only.\<close>

datatype probe_end = No_corpus | Probed int vb_result

record tuning =
  tn_best :: "vb_kernel option"
  tn_best_hps :: double
  tn_why :: vb_autotune_outcome
  tn_corpus :: vb_corpus
  tn_lanes :: nat
  tn_cache :: cpu_cache
  tn_log :: "(vb_kernel \<times> probe_end) list"

definition median_of :: "vb_result \<Rightarrow> double" where
  "median_of r = (case r_stats r of None \<Rightarrow> Fin 0 | Some st \<Rightarrow> st_median st)"

definition note_failure :: "string \<Rightarrow> vb_autotune_outcome \<Rightarrow> vb_autotune_outcome" where
  "note_failure why o' = o'\<lparr>ao_could_not_run := ao_could_not_run o' + 1,
     ao_run_error := (if ao_could_not_run o' = 0 then snprintf_into 512 why else ao_run_error o')\<rparr>"

text \<open>The corpus of the last lane count, or a new one; \<open>None\<close> when it could not be allocated.\<close>

definition probe_corpus ::
  "(nat \<Rightarrow> u64 list option) \<Rightarrow> bool \<Rightarrow> vb_config \<Rightarrow> vb_kernel \<Rightarrow> tuning \<Rightarrow> vb_corpus option" where
  "probe_corpus alloc scratch_ok cfg k t =
    (if k_lanes k \<noteq> tn_lanes t
     then vb_corpus_build alloc scratch_ok (Some (cf_alg cfg)) (k_lanes k) 0 (vb_batch_messages cfg) (cf_message_bytes cfg)
     else Some (tn_corpus t))"

text \<open>What the result of a probe does to the choice and to the outcome.\<close>

definition judge :: "vb_kernel \<Rightarrow> int \<Rightarrow> vb_result \<Rightarrow> tuning \<Rightarrow> tuning" where
  "judge k rc r t =
    (if rc \<noteq> 0 then
       (if r_run_error r \<noteq> [] then t\<lparr>tn_why := note_failure (r_run_error r) (tn_why t)\<rparr>
        else t\<lparr>tn_why := (tn_why t)\<lparr>ao_verify_failed := ao_verify_failed (tn_why t) + 1\<rparr>\<rparr>)
     else if d_lt (tn_best_hps t) (median_of r) then t\<lparr>tn_best_hps := median_of r, tn_best := Some k\<rparr>
     else t)"

text \<open>What the machine answers during the probe of one row.\<close>

record 'i probe_env =
  pb_system :: system
  pb_devices :: "'i dev_system"
  pb_alloc :: "nat \<Rightarrow> u64 list option"
  pb_scratch_ok :: bool

definition autotune_step :: "(avail_fn \<Rightarrow> bool) \<Rightarrow> vb_config \<Rightarrow> nat \<Rightarrow> 'i probe_env \<Rightarrow> vb_kernel \<Rightarrow> tuning \<Rightarrow> tuning option" where
  "autotune_step avail cfg def_threads pe k t =
    (if \<not> wanted cfg k then Some t
     else if \<not> avail (k_available k) then Some t
     else
       let t = t\<lparr>tn_why := (tn_why t)\<lparr>ao_eligible := ao_eligible (tn_why t) + 1\<rparr>\<rparr>
       in case probe_corpus (pb_alloc pe) (pb_scratch_ok pe) cfg k t of
            None \<Rightarrow> Some (t\<lparr>tn_why := note_failure (corpus_error cfg) (tn_why t), tn_lanes := 0,
                          tn_log := tn_log t @ [(k, No_corpus)]\<rparr>)
          | Some corpus \<Rightarrow>
              (case measure_with_corpus (pb_system pe) (pb_devices pe) (tn_cache t) k (probe_config cfg) corpus def_threads of
                 None \<Rightarrow> None
               | Some (rc, r, ev, cache) \<Rightarrow>
                   Some (judge k rc r (t\<lparr>tn_corpus := corpus, tn_lanes := k_lanes k, tn_cache := cache,
                           tn_log := tn_log t @ [(k, Probed rc r)]\<rparr>))))"

fun autotune_loop :: "(avail_fn \<Rightarrow> bool) \<Rightarrow> vb_config \<Rightarrow> nat \<Rightarrow> (nat \<Rightarrow> 'i probe_env) \<Rightarrow> nat \<Rightarrow> vb_kernel list \<Rightarrow> tuning \<Rightarrow> tuning option" where
  "autotune_loop avail cfg def_threads pe i [] t = Some t"
| "autotune_loop avail cfg def_threads pe i (k # ks) t =
    (case autotune_step avail cfg def_threads (pe i) k t of
       None \<Rightarrow> None
     | Some t \<Rightarrow> autotune_loop avail cfg def_threads pe (i + 1) ks t)"

definition zero_corpus :: "vb_algorithm \<Rightarrow> vb_corpus" where
  "zero_corpus alg = \<lparr>c_words = [], c_n_words = 0, c_alg = alg, c_lanes = 0, c_blocks = 0, c_message_bytes = 0,
     c_n_messages = 0, c_start_index = 0\<rparr>"

text \<open>The kernel, if there is one, and the state with the outcome.\<close>

definition vb_autotune ::
  "(avail_fn \<Rightarrow> bool) \<Rightarrow> vb_kernel list \<Rightarrow> vb_config \<Rightarrow> nat \<Rightarrow> (nat \<Rightarrow> 'i probe_env) \<Rightarrow> cpu_cache \<Rightarrow> tuning option" where
  "vb_autotune avail ks cfg def_threads pe cache =
    autotune_loop avail cfg def_threads pe 0 ks
      \<lparr>tn_best = None, tn_best_hps = Fin 0, tn_why = \<lparr>ao_eligible = 0, ao_verify_failed = 0, ao_could_not_run = 0, ao_run_error = []\<rparr>,
       tn_corpus = zero_corpus (cf_alg cfg), tn_lanes = 0, tn_cache = cache, tn_log = []\<rparr>"


section \<open>What autotune chooses\<close>

lemma d_lt_trans: "d_lt a b \<Longrightarrow> d_lt b c \<Longrightarrow> d_lt a c"
  by (cases a; cases b; cases c) auto

text \<open>A probe that failed and said why.\<close>

definition gave_reason :: "probe_end \<Rightarrow> bool" where
  "gave_reason e = (case e of No_corpus \<Rightarrow> True | Probed rc r \<Rightarrow> rc \<noteq> 0 \<and> r_run_error r \<noteq> [])"

definition measured :: "probe_end \<Rightarrow> bool" where
  "measured e = (case e of No_corpus \<Rightarrow> False | Probed rc r \<Rightarrow> rc = 0)"

definition speed :: "probe_end \<Rightarrow> double" where
  "speed e = (case e of No_corpus \<Rightarrow> Fin 0 | Probed rc r \<Rightarrow> median_of r)"

lemma probe_end_simps [simp]:
  "gave_reason No_corpus" "\<not> measured No_corpus" "speed No_corpus = Fin 0"
  "gave_reason (Probed rc r) \<longleftrightarrow> rc \<noteq> 0 \<and> r_run_error r \<noteq> []" "measured (Probed rc r) \<longleftrightarrow> rc = 0"
  "speed (Probed rc r) = median_of r"
  by (simp_all add: gave_reason_def measured_def speed_def)

text \<open>Rows whose kernel is not run at all: one of the CPU that does not tile the batch, and one of a device
  where there is none.\<close>

definition never_runs :: "'i dev_system \<Rightarrow> vb_kernel \<Rightarrow> bool" where
  "never_runs ds k \<longleftrightarrow>
     (if k_device k then vb_devices (ds_lists ds) (int VB_DEV_MAX) = [] else \<not> vb_batch_divides k)"

text \<open>Such a row ends like a kernel that computed a wrong digest: it fails without a reason.\<close>

lemma never_runs_failed:
  assumes "never_runs ds k" "measure_with_corpus sy ds cache k cfg corpus n = Some (rc, r, ev, cache')"
  shows "rc = 1 \<and> \<not> r_verified r \<and> r_run_error r = [] \<and> ev = [Power_open, Power_close]"
proof (cases "k_device k")
  case True
  then have d: "vb_devices (ds_lists ds) (int VB_DEV_MAX) = []" using assms(1) by (simp add: never_runs_def)
  have h: "r_run_error (result_header k cfg corpus) = []" "r_device_error (result_header k cfg corpus) = []"
    "r_n_samples (result_header k cfg corpus) = 0" by (simp_all add: result_header_def zero_result_def)
  have "measure_device ds k cfg corpus n (result_header k cfg corpus)
      = Some \<lparr>dx_rc = 1, dx_out = (result_header k cfg corpus)\<lparr>r_verified := False\<rparr>, dx_events = [], dx_ctx = [], dx_log = [], dx_lost = None\<rparr>"
    using d by (cases "k_backend k") (simp_all add: measure_device_def Let_def)
  then show ?thesis using assms(2) True h by (auto simp: measure_with_corpus_def Let_def)
next
  case False
  then have u: "\<not> vb_batch_divides k" using assms(1) by (simp add: never_runs_def)
  show ?thesis
    using assms(2) False untiled_kernel_reported_as_failed[OF u, of sy cache cfg corpus "if cf_threads cfg \<noteq> 0 then cf_threads cfg else n" n]
    by (auto simp: measure_with_corpus_def Let_def)
qed

text \<open>The invariant of the loop over the rows already seen; \<open>unrun\<close> are rows that never run.\<close>

definition tuned_ok :: "(vb_kernel \<Rightarrow> bool) \<Rightarrow> vb_kernel list \<Rightarrow> tuning \<Rightarrow> bool" where
  "tuned_ok unrun tried t \<longleftrightarrow> map fst (tn_log t) = tried
     \<and> ao_eligible (tn_why t) = length tried
     \<and> ao_could_not_run (tn_why t) = length (filter (\<lambda>(k, e). gave_reason e) (tn_log t))
     \<and> ao_verify_failed (tn_why t) = length (filter (\<lambda>(k, e). \<not> gave_reason e \<and> \<not> measured e) (tn_log t))
     \<and> (\<forall>(k, e) \<in> set (tn_log t). unrun k \<longrightarrow> \<not> measured e \<and> (gave_reason e \<longrightarrow> e = No_corpus))
     \<and> (\<forall>(k, e) \<in> set (tn_log t). measured e \<longrightarrow> \<not> d_lt (tn_best_hps t) (speed e))
     \<and> (case tn_best t of None \<Rightarrow> tn_best_hps t = Fin 0
        | Some k \<Rightarrow> d_lt (Fin 0) (tn_best_hps t) \<and> (\<exists>e. (k, e) \<in> set (tn_log t) \<and> measured e \<and> speed e = tn_best_hps t))"

lemma judge_keeps:
  assumes "tuned_ok unrun tried t" "probe = Probed rc r" "unrun k \<Longrightarrow> rc \<noteq> 0 \<and> r_run_error r = []"
    and "t' = t\<lparr>tn_why := (tn_why t)\<lparr>ao_eligible := ao_eligible (tn_why t) + 1\<rparr>, tn_corpus := c, tn_lanes := l, tn_cache := ch,
      tn_log := tn_log t @ [(k, probe)]\<rparr>"
  shows "tuned_ok unrun (tried @ [k]) (judge k rc r t')"
proof (cases "rc = 0 \<and> d_lt (tn_best_hps t) (median_of r)")
  case True
  have older: "\<not> d_lt (median_of r) x" if "\<not> d_lt (tn_best_hps t) x" for x
    using d_lt_trans[of "tn_best_hps t" "median_of r" x] that True by blast
  have self: "\<not> d_lt (median_of r) (median_of r)" by (cases "median_of r") auto
  have pos: "d_lt (Fin 0) (median_of r)"
    using True assms(1) d_lt_trans by (cases "tn_best t") (auto simp: tuned_ok_def)
  show ?thesis
    using assms(1,3) True older self pos
    by (auto simp: assms(2,4) judge_def tuned_ok_def)
next
  case False
  show ?thesis
    using assms(1,3) False
    by (auto simp: assms(2,4) judge_def tuned_ok_def note_failure_def split: option.splits)
qed

lemma no_corpus_keeps:
  assumes "tuned_ok unrun tried t"
  shows "tuned_ok unrun (tried @ [k]) (t\<lparr>tn_why := note_failure why ((tn_why t)\<lparr>ao_eligible := ao_eligible (tn_why t) + 1\<rparr>),
    tn_lanes := 0, tn_log := tn_log t @ [(k, No_corpus)]\<rparr>)"
  using assms by (auto simp: tuned_ok_def note_failure_def split: option.splits)

lemma step_keeps:
  assumes "tuned_ok unrun tried t" "autotune_step avail cfg n pe k t = Some t'"
    and "unrun k \<Longrightarrow> never_runs (pb_devices pe) k"
  shows "tuned_ok unrun (tried @ (if wanted cfg k \<and> avail (k_available k) then [k] else [])) t'"
proof (cases "wanted cfg k \<and> avail (k_available k)")
  case False
  then show ?thesis using assms by (auto simp: autotune_step_def split: if_splits)
next
  case True
  let ?t = "t\<lparr>tn_why := (tn_why t)\<lparr>ao_eligible := ao_eligible (tn_why t) + 1\<rparr>\<rparr>"
  note V = assms(2)[unfolded autotune_step_def Let_def]
  show ?thesis
  proof (cases "probe_corpus (pb_alloc pe) (pb_scratch_ok pe) cfg k ?t")
    case None
    then show ?thesis using V True no_corpus_keeps[OF assms(1)] by auto
  next
    case (Some corpus)
    obtain rc r ev cache where M: "measure_with_corpus (pb_system pe) (pb_devices pe) (tn_cache ?t) k (probe_config cfg) corpus n = Some (rc, r, ev, cache)"
      using V True Some by (auto split: option.splits)
    then have "t' = judge k rc r (?t\<lparr>tn_corpus := corpus, tn_lanes := k_lanes k, tn_cache := cache, tn_log := tn_log ?t @ [(k, Probed rc r)]\<rparr>)"
      using V True Some by simp
    moreover have "unrun k \<Longrightarrow> rc \<noteq> 0 \<and> r_run_error r = []"
      using never_runs_failed[OF assms(3) M] by simp
    ultimately show ?thesis using judge_keeps[OF assms(1) refl _ refl] True by simp
  qed
qed

lemma loop_keeps:
  "tuned_ok unrun tried t \<Longrightarrow> autotune_loop avail cfg n pe i ks t = Some t' \<Longrightarrow>
   (\<And>k i. unrun k \<Longrightarrow> never_runs (pb_devices (pe i)) k) \<Longrightarrow>
   tuned_ok unrun (tried @ filter (\<lambda>k. wanted cfg k \<and> avail (k_available k)) ks) t'"
proof (induction ks arbitrary: i t tried)
  case (Cons k ks)
  obtain t1 where S: "autotune_step avail cfg n (pe i) k t = Some t1" using Cons.prems(2) by (auto split: option.splits)
  have "tuned_ok unrun ((tried @ (if wanted cfg k \<and> avail (k_available k) then [k] else [])) @ filter (\<lambda>k. wanted cfg k \<and> avail (k_available k)) ks) t'"
    by (rule Cons.IH[OF step_keeps[OF Cons.prems(1) S Cons.prems(3)]]) (use Cons.prems(2,3) S in simp_all)
  moreover have "filter (\<lambda>k. wanted cfg k \<and> avail (k_available k)) (k # ks)
      = (if wanted cfg k \<and> avail (k_available k) then [k] else []) @ filter (\<lambda>k. wanted cfg k \<and> avail (k_available k)) ks" by simp
  ultimately show ?case by (simp only: append_assoc)
qed simp

lemma autotune_best:
  assumes "vb_autotune avail ks cfg n pe cache = Some t" "tn_best t = Some k"
  shows "k \<in> set ks \<and> wanted cfg k \<and> avail (k_available k)"
proof -
  let ?tried = "filter (\<lambda>k. wanted cfg k \<and> avail (k_available k)) ks"
  have T: "tuned_ok (\<lambda>k. False) ([] @ ?tried) t"
    by (rule loop_keeps[OF _ assms(1)[unfolded vb_autotune_def]]) (simp_all add: tuned_ok_def)
  then obtain e where "(k, e) \<in> set (tn_log t)" using assms(2) by (auto simp: tuned_ok_def)
  then have "k \<in> set (map fst (tn_log t))" by force
  moreover have "map fst (tn_log t) = ?tried" using T by (simp add: tuned_ok_def)
  ultimately show ?thesis by simp
qed

text \<open>C35: autotune probes exactly the rows that are wanted and available, in the order of the table,
  and chooses a row whose probe ended verified and that no other verified probe beats; it chooses none
  exactly when no verified probe has a positive median.  The outcome counts every probe once: as
  verified, as one that failed and gave a reason (\<open>could_not_run\<close>), or as one that failed and gave none
  (\<open>verify_failed\<close>).  The last count holds more than wrong digests: a CPU row that does not tile the batch,
  and a device row where there is no device, are never run and still counted there whenever the corpus
  could be built.\<close>

theorem autotune_chooses_fastest:
  assumes "vb_autotune avail ks cfg n pe cache = Some t"
  shows "map fst (tn_log t) = filter (\<lambda>k. wanted cfg k \<and> avail (k_available k)) ks
    \<and> ao_eligible (tn_why t) = length (tn_log t)
    \<and> ao_could_not_run (tn_why t) = length (filter (\<lambda>(k, e). gave_reason e) (tn_log t))
    \<and> ao_verify_failed (tn_why t) = length (filter (\<lambda>(k, e). \<not> gave_reason e \<and> \<not> measured e) (tn_log t))
    \<and> (\<forall>(k, e) \<in> set (tn_log t). (\<forall>i. never_runs (pb_devices (pe i)) k) \<longrightarrow>
         \<not> measured e \<and> (gave_reason e \<longrightarrow> e = No_corpus))
    \<and> (case tn_best t of
         None \<Rightarrow> \<forall>(k, e) \<in> set (tn_log t). measured e \<longrightarrow> \<not> d_lt (Fin 0) (speed e)
       | Some k \<Rightarrow> k \<in> set ks \<and> wanted cfg k \<and> avail (k_available k)
           \<and> (\<exists>e. (k, e) \<in> set (tn_log t) \<and> measured e \<and> d_lt (Fin 0) (speed e)
               \<and> (\<forall>(k', e') \<in> set (tn_log t). measured e' \<longrightarrow> \<not> d_lt (speed e) (speed e'))))"
proof -
  let ?tried = "filter (\<lambda>k. wanted cfg k \<and> avail (k_available k)) ks"
  let ?unrun = "\<lambda>k. \<forall>i. never_runs (pb_devices (pe i)) k"
  have "tuned_ok ?unrun ([] @ ?tried) t"
    by (rule loop_keeps[OF _ assms[unfolded vb_autotune_def]]) (simp_all add: tuned_ok_def)
  then have T: "tuned_ok ?unrun ?tried t" by simp
  then have log: "map fst (tn_log t) = ?tried" by (simp add: tuned_ok_def)
  have in_ks: "k \<in> set ks \<and> wanted cfg k \<and> avail (k_available k)" if "(k, e) \<in> set (tn_log t)" for k e
  proof -
    have "k \<in> set (map fst (tn_log t))" using that by force
    then show ?thesis unfolding log by simp
  qed
  have "length (tn_log t) = length ?tried" using arg_cong[OF log, of length] by simp
  moreover have "case tn_best t of
         None \<Rightarrow> \<forall>(k, e) \<in> set (tn_log t). measured e \<longrightarrow> \<not> d_lt (Fin 0) (speed e)
       | Some k \<Rightarrow> k \<in> set ks \<and> wanted cfg k \<and> avail (k_available k)
           \<and> (\<exists>e. (k, e) \<in> set (tn_log t) \<and> measured e \<and> d_lt (Fin 0) (speed e)
               \<and> (\<forall>(k', e') \<in> set (tn_log t). measured e' \<longrightarrow> \<not> d_lt (speed e) (speed e')))"
  proof (cases "tn_best t")
    case None
    then have "tn_best_hps t = Fin 0" using T by (simp add: tuned_ok_def)
    moreover have "\<forall>(k, e) \<in> set (tn_log t). measured e \<longrightarrow> \<not> d_lt (tn_best_hps t) (speed e)" using T by (simp add: tuned_ok_def)
    ultimately show ?thesis using None by simp
  next
    case (Some k)
    then obtain e where e: "(k, e) \<in> set (tn_log t)" "measured e" "speed e = tn_best_hps t" "d_lt (Fin 0) (tn_best_hps t)"
      using T by (auto simp: tuned_ok_def)
    moreover have "\<forall>(k, e) \<in> set (tn_log t). measured e \<longrightarrow> \<not> d_lt (tn_best_hps t) (speed e)" using T by (simp add: tuned_ok_def)
    ultimately have "\<exists>e. (k, e) \<in> set (tn_log t) \<and> measured e \<and> d_lt (Fin 0) (speed e)
               \<and> (\<forall>(k', e') \<in> set (tn_log t). measured e' \<longrightarrow> \<not> d_lt (speed e) (speed e'))" by metis
    then show ?thesis using Some in_ks[OF e(1)] by simp
  qed
  ultimately show ?thesis using T by (simp add: tuned_ok_def)
qed

section \<open>A machine on which a row is chosen\<close>

text \<open>On a machine whose runs all take the same time the samples are all alike.\<close>

lemma run_time:
  "do_run env mc reps s = (s', True, ns) \<Longrightarrow> (\<And>j. mc_elapsed mc j = e) \<Longrightarrow> ns = e"
  by (auto simp: do_run_def pool_run_def Let_def split: if_splits)

lemma samples_alike:
  "samples env mc reps n i s out = (True, s', out') \<Longrightarrow> (\<And>j. mc_elapsed mc j = e) \<Longrightarrow>
   r_sample_hps out' = r_sample_hps out @ replicate (n - i) (d_div (of_nat_d (r_hashes_per_iter out)) (ns_to_sec e))"
proof (induction "n - i" arbitrary: i s out)
  case 0
  then show ?case by (subst (asm) samples.simps) simp
next
  case (Suc m)
  obtain s1 ok1 ns where d: "do_run env mc reps s = (s1, ok1, ns)" by (metis prod_cases3)
  have i: "i < n" "m = n - (i + 1)" "n - i = Suc (n - (i + 1))" using Suc(2) by simp_all
  have ok1 using Suc(3) d i by (subst (asm) samples.simps) (auto split: if_splits)
  then have e: "samples env mc reps n (i + 1) s1 (add_sample ns out) = (True, s', out')" "ns = e"
    using Suc(3) d i run_time[of env mc reps s s1 ns e] Suc(4) by (subst (asm) samples.simps, simp_all)
  from Suc(1)[OF i(2) e(1) Suc(4)] show ?case by (simp add: add_sample_def Let_def i(3) e(2))
qed

lemma calib_alike:
  assumes "calibrate_reps env mc ms s = Some (reps, s')" "reps \<noteq> 0" "\<And>j. mc_elapsed mc j = e"
    and "d_le (d_div (calib_target ms) (num 4)) (of_nat_d e)"
  shows "reps = want_reps (calib_target ms) e 1"
proof -
  obtain s1 ok1 n1 where d1: "do_run env mc 1 s = (s1, ok1, n1)" by (metis prod_cases3)
  obtain s2 ok2 n2 where d2: "do_run env mc 1 s1 = (s2, ok2, n2)" by (metis prod_cases3)
  have ok1 using assms(1,2) d1 by (auto simp: calibrate_reps_def Let_def split: if_splits)
  then have L: "calib_loop env mc (calib_target ms) (d_div (calib_target ms) (num 4)) 1 s1 = Some (reps, s')"
    using assms(1) d1 by (simp add: calibrate_reps_def Let_def)
  note L' = L[unfolded calib_loop.simps[of env mc _ _ 1 s1] Let_def d2 prod.case]
  have ok2 using L' assms(2) by (auto split: if_splits)
  then have "n2 = e" using run_time[of env mc 1 s1 s2 n2 e] d2 assms(3) by simp
  then show ?thesis using L' assms(4) \<open>ok2\<close> by simp
qed

lemma median_alike: "n mod 2 = 1 \<Longrightarrow> st_median (compute_stats (replicate n v)) = v"
proof -
  assume n: "n mod 2 = 1"
  have "d_sort (replicate m v) = replicate m v" for m
  proof (induction m)
    case (Suc m)
    then show ?case by (cases m) (simp_all add: d_sort_def cmp_double_def)
  qed (simp add: d_sort_def)
  moreover have "n div 2 < n" using n by (cases n) simp_all
  ultimately show ?thesis using n by (simp add: compute_stats_def Let_def)
qed

text \<open>The median of a measurement there, when one run of one repetition meets the target.\<close>

lemma alike_median:
  assumes "measure_body sy cache k cfg corpus threads rt = Some x" "r_verified (mx_out x)"
    and e: "\<And>j. mc_elapsed (sy_mc sy) j = e" "0 < e"
    and "d_le (d_div (calib_target (cf_target_ms cfg)) (num 4)) (of_nat_d e)" "want_reps (calib_target (cf_target_ms cfg)) e 1 = 1"
    and "cf_n_samples cfg mod 2 = 1" "cf_n_samples cfg \<le> VB_MAX_SAMPLES"
  shows "median_of (mx_out x) = d_div (of_nat_d (c_n_messages corpus)) (ns_to_sec e)"
proof -
  let ?env = "sy_pool sy" and ?mc = "sy_mc sy"
  obtain valid got expected where V: "vb_validate_kernel (sy_ref sy) rt (sy_gate_fn sy) k cfg corpus
      (sy_junk_got sy) (sy_junk_expected sy) = (valid, got, expected)" by (metis prod_cases3)
  have h: "r_sample_hps (result_header k cfg corpus) = []" "\<not> r_verified (result_header k cfg corpus)"
    by (simp_all add: result_header_def zero_result_def)
  note B = assms(1)[unfolded measure_body_def Let_def V prod.case]
  have valid using B assms(2) by (auto split: if_splits)
  obtain cr pev c where C: "pool_create ?env cache k cfg corpus threads = ((cr, pev), c)" by (metis prod.exhaust)
  note B1 = B[unfolded C prod.case, simplified \<open>valid\<close> not_True_eq_False if_False]
  obtain p where p: "cr = Some p" using B1 assms(2) by (cases cr) auto
  note B2 = B1[unfolded p option.case]
  obtain reps s where K: "calibrate_reps ?env ?mc (cf_target_ms cfg) \<lparr>ru_pool = p, ru_runs = 0, ru_reads = 0, ru_log = []\<rparr> = Some (reps, s)"
    using B2 by (auto split: option.splits)
  note B3 = B2[unfolded K option.case prod.case]
  have r: "reps \<noteq> 0" using B3 assms(2) by (auto split: if_splits)
  have reps: "reps = 1" using calib_alike[OF K r e(1) assms(5)] assms(6) by simp
  obtain wok s2 where W: "warm_up ?env ?mc (mc_now ?mc (ru_reads s) + cf_warmup_ms cfg * 1000000) reps (s\<lparr>ru_reads := ru_reads s + 1\<rparr>) = Some (wok, s2)"
    using B3 r by (auto split: option.splits)
  note B4 = B3[unfolded W option.case prod.case, simplified r if_False]
  obtain s3 ok ns where D: "do_run ?env ?mc reps s2 = (s3, ok, ns)" by (metis prod_cases3)
  have wo: wok ok using B4 assms(2) D by (auto split: bool.splits if_splits)
  have ns: "ns = e" using run_time[of ?env ?mc reps s2 s3 ns e] D wo(2) e(1) by simp
  define out where "out = (result_header k cfg corpus)\<lparr>r_checksum := expected, r_threads := p_n p,
            r_pinned_cpus := p_pinned_cpus p, r_pin_failed := p_pin_failed (ru_pool s),
            r_hashes_per_iter := 1 * c_n_messages corpus\<rparr>"
  have n: "(if VB_MAX_SAMPLES < cf_n_samples cfg then VB_MAX_SAMPLES else cf_n_samples cfg) = cf_n_samples cfg"
    using assms(8) by simp
  have w1: "(if 0 < ns then want_reps (calib_target (cf_target_ms cfg)) ns reps else reps) = 1" using ns e(2) reps assms(6) by simp
  obtain good s4 out4 where M: "samples ?env ?mc 1 (cf_n_samples cfg) 0 s3 out = (good, s4, out4)" by (metis prod_cases3)
  note B5 = B4[unfolded D prod.case, simplified wo not_True_eq_False if_False if_True, unfolded w1 n, folded out_def, unfolded M prod.case]
  have good: good using B5 assms(2) samples_out[OF M] by (auto split: if_splits)
  have "r_sample_hps out4 = replicate (cf_n_samples cfg) (d_div (of_nat_d (c_n_messages corpus)) (ns_to_sec e))"
    using samples_alike[of ?env ?mc 1 "cf_n_samples cfg" 0 s3 out s4 out4 e] M good e(1) h(1) by (simp add: out_def)
  then have "median_of (mx_out x) = st_median (compute_stats (replicate (cf_n_samples cfg) (d_div (of_nat_d (c_n_messages corpus)) (ns_to_sec e))))"
    using B5 good by (auto simp: median_of_def)
  then show ?thesis by (simp add: median_alike[OF assms(7)])
qed

text \<open>The small machine, where every run takes 20 ms, and two rows: one of twelve lanes and three streams,
  which never runs and is counted as failed in verification, and the scalar one, which is chosen.\<close>

definition odd_row :: vb_kernel where
  "odd_row = small_row\<lparr>k_lanes := 12, k_streams := 3\<rparr>"

definition even_system :: system where
  "even_system = small_system\<lparr>sy_mc := (sy_mc small_system)\<lparr>mc_elapsed := (\<lambda>n. 20000000)\<rparr>\<rparr>"

lemma even_system_facts:
  "mc_fn (sy_mc even_system) = (\<lambda>n i r. cpu_kernel scalar_ops32 scalar_ops64 small_scratch VB_ALG_MD5 2)"
  "sy_gate_fn even_system = cpu_kernel scalar_ops32 scalar_ops64 small_scratch VB_ALG_MD5 2"
  "clock_advances (sy_mc even_system)" "sy_pool even_system = ok_env" "slice_ok (sy_ref even_system) i"
  "mc_elapsed (sy_mc even_system) j = 20000000"
  using small_system_facts(3) by (simp_all add: even_system_def small_system_facts clock_advances_def)

definition small_probe :: "unit probe_env" where
  "small_probe = \<lparr>pb_system = even_system, pb_devices = late_system [], pb_alloc = (\<lambda>n. Some (replicate n 7)), pb_scratch_ok = True\<rparr>"

text \<open>Division of a natural by another is exact where it comes out even, and a positive rate stays
  positive.\<close>

lemma exact_small: "n \<le> 2 ^ 53 \<Longrightarrow> finite_or_inf (rat_of_nat n) = Fin (rat_of_nat n)"
  using of_nat_d_exact[of n] by (simp add: of_nat_d_def)

lemma rate_positive: "0 < n \<Longrightarrow> n \<le> 2 ^ 53 \<Longrightarrow> 0 \<le> y \<Longrightarrow> y \<le> 1 \<Longrightarrow> d_lt (Fin 0) (d_div (Fin (rat_of_nat n)) (Fin y))"
proof -
  assume n: "0 < n" "n \<le> 2 ^ 53" and y: "0 \<le> y" "y \<le> 1"
  show ?thesis
  proof (cases "y = 0")
    case False
    then have "rat_of_nat n \<le> rat_of_nat n / y" using y n by (simp add: le_divide_eq)
    from rnd_mono[OF this] have r: "0 < rnd (rat_of_nat n / y)" using n by (simp add: rnd_nat)
    have p: "- pow2 1024 \<le> 0" using pow2_pos[of 1024] by linarith
    have "\<not> rnd (rat_of_nat n / y) \<le> - pow2 1024" using r p by linarith
    then show ?thesis using False r by (simp add: finite_or_inf_def Let_def)
  qed (use n in simp)
qed

lemma small_times:
  "d_le (d_div (calib_target 20) (num 4)) (of_nat_d 20000000)" "want_reps (calib_target 20) 20000000 1 = 1"
  "d_lt (Fin 0) (d_div (of_nat_d 16128) (ns_to_sec 20000000))"
proof -
  have n: "of_nat_d 20 = Fin 20" "of_nat_d 20000000 = Fin 20000000" "of_nat_d 16128 = Fin 16128" "of_nat_d 1 = Fin 1"
    "num 1000000000 = Fin 1000000000"
    using of_nat_d_exact[of 20] of_nat_d_exact[of 20000000] of_nat_d_exact[of 16128] of_nat_d_exact[of 1] num_exact[of 1000000000]
    by simp_all
  have f: "finite_or_inf 20000000 = Fin 20000000" "finite_or_inf 5000000 = Fin 5000000" "finite_or_inf 1 = Fin 1"
    using exact_small[of 20000000] exact_small[of 5000000] exact_small[of 1] by simp_all
  have t: "calib_target 20 = Fin 20000000" by (simp add: calib_target_def n num_small f)
  show "d_le (d_div (calib_target 20) (num 4)) (of_nat_d 20000000)" by (simp add: t n num_small f)
  show "want_reps (calib_target 20) 20000000 1 = 1"
    unfolding want_reps_def t n Let_def by (simp add: f num_small d_to_u64_small)
  have s: "ns_to_sec 20000000 = Fin (rnd (1 / 50))" "0 \<le> rnd (1 / 50)"
    unfolding ns_to_sec_def n using finite_small[of "1 / 50"] by simp_all
  have "rnd (1 / 50) \<le> 1" using rnd_mono[of "1 / 50" 1] rnd_nat[of 1] by simp
  then show "d_lt (Fin 0) (d_div (of_nat_d 16128) (ns_to_sec 20000000))"
    using rate_positive[of 16128 "rnd (1 / 50)"] s by (simp only: n) simp
qed

lemma default_batch: "vb_batch_messages vb_config_defaults = 16128"
proof -
  have "unat (vb_alg_blocks_for md5_alg (of_nat 55)) = 1"
    by (subst blocks_for_nat) (simp_all add: ALGS_def VB_MAX_MSG_BYTES_def blocks_needed_def md5_alg_def)
  moreover have "cf_alg vb_config_defaults = md5_alg" "cf_message_bytes vb_config_defaults = 55" "cf_working_set_kb vb_config_defaults = 1024"
    by (simp_all add: vb_config_defaults_def vb_algorithm_by_id_def ALGS_def VB_DEFAULT_MSG_BYTES_def)
  ultimately show ?thesis
    unfolding vb_batch_messages_def Let_def by (simp add: VB_BATCH_LCM_def md5_alg_def)
qed

lemma probe_defaults:
  "cf_alg vb_config_defaults = md5_alg" "cf_message_bytes vb_config_defaults = 55"
  "cf_alg (probe_config vb_config_defaults) = md5_alg" "cf_message_bytes (probe_config vb_config_defaults) = 55"
  "cf_iterations (probe_config vb_config_defaults) = 1" "\<not> cf_have_expected (probe_config vb_config_defaults)"
  "cf_target_ms (probe_config vb_config_defaults) = 20" "cf_n_samples (probe_config vb_config_defaults) = 3"
  "cf_threads (probe_config vb_config_defaults) = 0"
  by (simp_all add: probe_config_def vb_config_defaults_def vb_algorithm_by_id_def ALGS_def VB_DEFAULT_MSG_BYTES_def)

lemma small_rows:
  "wanted vb_config_defaults odd_row" "wanted vb_config_defaults small_row" "\<not> k_device odd_row" "\<not> k_device small_row"
  "k_lanes odd_row = 12" "k_lanes small_row = 1" "k_streams small_row = 2" "\<not> vb_batch_divides odd_row" "odd_row \<noteq> small_row"
  by (simp_all add: wanted_def odd_row_def small_row_def VB_ROW_KERNEL_def vb_config_defaults_def vb_algorithm_by_id_def ALGS_def
      md5_alg_def vb_batch_divides_def VB_BATCH_LCM_def)

lemma odd_step:
  assumes "tn_lanes t = 0"
  shows "\<exists>t' r. autotune_step (\<lambda>a. True) vb_config_defaults 2 small_probe odd_row t = Some t'
    \<and> tn_log t' = tn_log t @ [(odd_row, Probed 1 r)] \<and> r_run_error r = [] \<and> tn_lanes t' = 12"
proof -
  obtain corpus where c: "vb_corpus_build (\<lambda>n. Some (replicate n 7)) True (Some md5_alg) 12 0 16128 55 = Some corpus"
    using corpus_build_ok[where lanes=12 and n=16128 and v=7 and a=md5_alg and start=0 and bytes=55] by auto
  obtain out where m: "measure_cpu even_system (tn_cache t) odd_row (probe_config vb_config_defaults) corpus 2 2
      = Some (1, out, [Power_open, Power_close], tn_cache t)" "r_run_error out = []"
    using untiled_kernel_reported_as_failed[OF small_rows(8)] by blast
  show ?thesis
    using assms c m small_rows probe_defaults
    by (simp add: autotune_step_def probe_corpus_def small_probe_def default_batch measure_with_corpus_def judge_def Let_def)
qed

lemma small_step:
  assumes "tn_lanes t = 12"
  shows "\<exists>t' r. autotune_step (\<lambda>a. True) vb_config_defaults 2 small_probe small_row t = Some t'
    \<and> tn_log t' = tn_log t @ [(small_row, Probed 0 r)] \<and> d_lt (Fin 0) (median_of r)"
proof -
  let ?cfg = "probe_config vb_config_defaults"
  obtain corpus where c: "vb_corpus_build (\<lambda>n. Some (replicate n 7)) True (Some md5_alg) 1 0 16128 55 = Some corpus"
    using corpus_build_ok[where lanes=1 and n=16128 and v=7 and a=md5_alg and start=0 and bytes=55] by auto
  have "\<exists>x. measure_body even_system (tn_cache t) small_row ?cfg corpus 2 2 = Some x \<and> r_verified (mx_out x)"
    by (rule scalar_slices.correct_kernel_measured[OF even_system_facts(1,2),
          where alloc = "\<lambda>n. Some (replicate n 7)" and start = 0 and n = 16128 and bytes = 55])
      (use c small_rows probe_defaults in \<open>simp_all add: small_facts even_system_facts vb_batch_divides_def VB_BATCH_LCM_def VB_MAX_MSG_BYTES_def\<close>)
  then obtain x where x: "measure_body even_system (tn_cache t) small_row ?cfg corpus 2 2 = Some x" "r_verified (mx_out x)" by blast
  have rc: "mx_rc x = 0" using x(1) by (cases rule: measure_body_exit) (use x(2) in simp_all)
  have n: "c_n_messages corpus = 16128" using c by (auto elim!: corpus_build_Some)
  have "median_of (mx_out x) = d_div (of_nat_d 16128) (ns_to_sec 20000000)"
    by (rule alike_median[OF x even_system_facts(6), unfolded n]) (simp_all add: probe_defaults small_times(1) small_times(2)[unfolded One_nat_def] VB_MAX_SAMPLES_def)
  then have "d_lt (Fin 0) (median_of (mx_out x))" using small_times(3) by simp
  then show ?thesis
    using assms c x(1) rc small_rows probe_defaults
    by (simp add: autotune_step_def probe_corpus_def small_probe_def default_batch measure_with_corpus_def measure_cpu_def judge_def Let_def)
qed

lemma autotune_chooses_fastest_witness:
  "\<exists>t. vb_autotune (\<lambda>a. True) [odd_row, small_row] vb_config_defaults 2 (\<lambda>i. small_probe) None = Some t
    \<and> tn_best t = Some small_row \<and> ao_eligible (tn_why t) = 2 \<and> ao_verify_failed (tn_why t) = 1 \<and> ao_could_not_run (tn_why t) = 0"
proof -
  let ?t0 = "\<lparr>tn_best = None, tn_best_hps = Fin 0, tn_why = \<lparr>ao_eligible = 0, ao_verify_failed = 0, ao_could_not_run = 0, ao_run_error = []\<rparr>,
       tn_corpus = zero_corpus (cf_alg vb_config_defaults), tn_lanes = 0, tn_cache = None, tn_log = []\<rparr>"
  obtain t1 r1 where s1: "autotune_step (\<lambda>a. True) vb_config_defaults 2 small_probe odd_row ?t0 = Some t1"
    "tn_log t1 = [(odd_row, Probed 1 r1)]" "r_run_error r1 = []" "tn_lanes t1 = 12"
    using odd_step[of ?t0] by auto
  obtain t r2 where s2: "autotune_step (\<lambda>a. True) vb_config_defaults 2 small_probe small_row t1 = Some t"
    "tn_log t = [(odd_row, Probed 1 r1), (small_row, Probed 0 r2)]" "d_lt (Fin 0) (median_of r2)"
    using small_step[OF s1(4)] s1(2) by auto
  have t: "vb_autotune (\<lambda>a. True) [odd_row, small_row] vb_config_defaults 2 (\<lambda>i. small_probe) None = Some t"
    using s1(1) s2(1) by (simp add: vb_autotune_def)
  note A = autotune_chooses_fastest[OF t, unfolded s2(2)]
  have "tn_best t = Some small_row"
    using A s2(3) by (cases "tn_best t") auto
  then show ?thesis using t A s1(3) by simp
qed

end
