(* ===== verification/Cli.thy ===== *)
theory Cli
  imports Cli_Text Autotune
begin

text \<open>
  \<open>main\<close> of src/main.c: the options, the checks on what they ask for, the choice of the kernel, the
  measurement and the exit status.  The texts on stderr and the reports on stdout are left out, except
  the reference ladder, which is data for another run.
\<close>

section \<open>Options\<close>

definition VB_EXIT_OK :: nat where "VB_EXIT_OK = 0"
definition VB_EXIT_VERIFY_FAILED :: nat where "VB_EXIT_VERIFY_FAILED = 1"
definition VB_EXIT_USAGE :: nat where "VB_EXIT_USAGE = 2"
definition VB_EXIT_NOISY :: nat where "VB_EXIT_NOISY = 3"
definition VB_EXIT_CANNOT_RUN :: nat where "VB_EXIT_CANNOT_RUN = 4"

definition VB_MAX_WORKING_SET_KB :: nat where "VB_MAX_WORKING_SET_KB = 2 ^ 24"
definition VB_MAX_TIME_MS :: nat where "VB_MAX_TIME_MS = 3600000"
definition VB_MAX_PIPELINE_CHUNKS :: nat where "VB_MAX_PIPELINE_CHUNKS = 256"

datatype vb_action = ACT_RUN | ACT_LIST_KERNELS | ACT_LIST_DEVICES | ACT_REFERENCE

text \<open>The locals of \<open>main\<close> the option loop sets.\<close>

record cli =
  cl_cfg :: vb_config
  cl_json :: bool
  cl_verbose :: bool
  cl_alg_given :: bool
  cl_action :: vb_action
  cl_expect :: "string option"
  cl_ladder :: "string option"
  cl_device_only :: "string option"
  cl_chunks_given :: bool

text \<open>What \<open>stat\<close> and \<open>access\<close> say of a path: a directory that can be written, a file that can be read.\<close>

record files =
  fl_dir :: "string \<Rightarrow> bool"
  fl_readable :: "string \<Rightarrow> bool"

definition cli_start :: cli where
  "cli_start = \<lparr>cl_cfg = vb_config_defaults, cl_json = False, cl_verbose = False, cl_alg_given = False,
     cl_action = ACT_RUN, cl_expect = None, cl_ladder = None, cl_device_only = None, cl_chunks_given = False\<rparr>"

text \<open>Options without an argument; \<open>Inl\<close> is the status \<open>main\<close> returns at once.\<close>

definition flag_option :: "string \<Rightarrow> cli \<Rightarrow> (nat + cli) option" where
  "flag_option a c =
    (if a = ''--json'' then Some (Inr (c\<lparr>cl_json := True\<rparr>))
     else if a = ''--verbose'' then Some (Inr (c\<lparr>cl_verbose := True\<rparr>))
     else if a = ''--no-pin'' then Some (Inr (c\<lparr>cl_cfg := (cl_cfg c)\<lparr>cf_pin_cpu := False\<rparr>\<rparr>))
     else if a = ''--list'' then Some (Inr (c\<lparr>cl_action := ACT_LIST_KERNELS\<rparr>))
     else if a = ''--list-devices'' then Some (Inr (c\<lparr>cl_action := ACT_LIST_DEVICES\<rparr>))
     else if a = ''--version'' then Some (Inl VB_EXIT_OK)
     else if a = ''-h'' \<or> a = ''--help'' then Some (Inl VB_EXIT_OK)
     else None)"

definition with_cfg :: "vb_config option \<Rightarrow> cli \<Rightarrow> cli option" where
  "with_cfg new c = map_option (\<lambda>cfg. c\<lparr>cl_cfg := cfg\<rparr>) new"

text \<open>A word from a list, and a number in a range.\<close>

definition word_option :: "(string \<times> 'a) list \<Rightarrow> string \<Rightarrow> ('a \<Rightarrow> vb_config) \<Rightarrow> cli \<Rightarrow> cli option" where
  "word_option words v f c = with_cfg (map_option f (map_of words v)) c"

definition uint_option :: "string \<Rightarrow> nat \<Rightarrow> nat \<Rightarrow> (nat \<Rightarrow> vb_config) \<Rightarrow> cli \<Rightarrow> cli option" where
  "uint_option v lo hi f c = with_cfg (map_option f (parse_uint v lo hi)) c"

definition needs_device :: "string \<Rightarrow> cli \<Rightarrow> cli" where
  "needs_device a c = c\<lparr>cl_device_only := (case cl_device_only c of None \<Rightarrow> Some a | Some b \<Rightarrow> Some b)\<rparr>"

definition VALUE_OPTIONS :: "string list" where
  "VALUE_OPTIONS = [''--device'', ''--algorithm'', ''--alg'', ''--transfer'', ''--pipeline-chunks'', ''--host-memory'',
     ''--primitives'', ''--device-geometry'', ''--dump-device-code'', ''--compile-mode'', ''--import-ptx'', ''--backend'',
     ''--where'', ''--kernel'', ''--threads'', ''--expect'', ''--reference-ladder'', ''--iterations'', ''--message-bytes'',
     ''--working-set-kb'', ''--samples'', ''--time-ms'', ''--warmup-ms'']"

text \<open>The options for devices, then the others; \<open>None\<close> is a usage error.\<close>

definition device_option :: "files \<Rightarrow> string \<Rightarrow> string \<Rightarrow> cli \<Rightarrow> cli option" where
  "device_option fl a v c =
    (let cfg = cl_cfg c
     in if a = ''--device'' then with_cfg (parse_devices v cfg) c
        else if a = ''--transfer'' then
          word_option [(''resident'', VB_TRANSFER_RESIDENT), (''stream'', VB_TRANSFER_STREAM), (''overlap'', VB_TRANSFER_OVERLAP)]
            v (\<lambda>m. cfg\<lparr>cf_transfer := m\<rparr>) c
        else if a = ''--pipeline-chunks'' then
          map_option (\<lambda>c. c\<lparr>cl_chunks_given := True\<rparr>)
            (uint_option v 1 VB_MAX_PIPELINE_CHUNKS (\<lambda>n. cfg\<lparr>cf_pipeline_chunks := n\<rparr>) c)
        else if a = ''--host-memory'' then
          word_option [(''pinned'', VB_HOST_PINNED), (''pageable'', VB_HOST_PAGEABLE)] v (\<lambda>m. cfg\<lparr>cf_host_memory := m\<rparr>) c
        else if a = ''--primitives'' then
          map_option (needs_device a)
            (word_option [(''steered'', False), (''neutral'', True)] v (\<lambda>m. cfg\<lparr>cf_primitives_neutral := m\<rparr>) c)
        else if a = ''--device-geometry'' then map_option (needs_device a) (with_cfg (parse_geometry v cfg) c)
        else if a = ''--dump-device-code'' then
          (if \<not> fl_dir fl v then None else Some (needs_device a (c\<lparr>cl_cfg := cfg\<lparr>cf_dump_dir := Some v\<rparr>\<rparr>)))
        else if a = ''--compile-mode'' then
          map_option (needs_device a)
            (word_option [(''ptx-jit'', VB_COMPILE_PTX_JIT), (''cubin'', VB_COMPILE_CUBIN)] v
               (\<lambda>m. cfg\<lparr>cf_compile_mode := m, cf_compile_mode_given := True\<rparr>) c)
        else if a = ''--import-ptx'' then
          (if \<not> fl_readable fl v then None else Some (needs_device a (c\<lparr>cl_cfg := cfg\<lparr>cf_import_ptx := Some v\<rparr>\<rparr>)))
        else if a = ''--backend'' then
          map_option (\<lambda>c. if cf_backend_mask (cl_cfg c) \<noteq> 0 then needs_device a c else c) (with_cfg (parse_backends v cfg) c)
        else None)"

definition run_option :: "string \<Rightarrow> string \<Rightarrow> cli \<Rightarrow> cli option" where
  "run_option a v c =
    (let cfg = cl_cfg c
     in if a = ''--algorithm'' \<or> a = ''--alg'' then
          (case vb_algorithm_by_name v of None \<Rightarrow> None | Some alg \<Rightarrow> Some (c\<lparr>cl_cfg := cfg\<lparr>cf_alg := alg\<rparr>, cl_alg_given := True\<rparr>))
        else if a = ''--where'' then
          word_option [(''any'', VB_WHERE_ANY), (''cpu'', VB_WHERE_CPU), (''device'', VB_WHERE_DEVICE)] v (\<lambda>w. cfg\<lparr>cf_where := w\<rparr>) c
        else if a = ''--kernel'' then Some (c\<lparr>cl_cfg := cfg\<lparr>cf_force_kernel := Some v\<rparr>\<rparr>)
        else if a = ''--threads'' then uint_option v 1 VB_MAX_THREADS (\<lambda>n. cfg\<lparr>cf_threads := n\<rparr>) c
        else if a = ''--expect'' then Some (c\<lparr>cl_expect := Some v\<rparr>)
        else if a = ''--reference-ladder'' then Some (c\<lparr>cl_ladder := Some v, cl_action := ACT_REFERENCE\<rparr>)
        else if a = ''--iterations'' then uint_option v 1 VB_MAX_ITERS (\<lambda>n. cfg\<lparr>cf_iterations := n\<rparr>) c
        else if a = ''--message-bytes'' then uint_option v 1 (2 ^ 20) (\<lambda>n. cfg\<lparr>cf_message_bytes := n\<rparr>) c
        else if a = ''--working-set-kb'' then uint_option v 1 VB_MAX_WORKING_SET_KB (\<lambda>n. cfg\<lparr>cf_working_set_kb := n\<rparr>) c
        else if a = ''--samples'' then uint_option v 1 VB_MAX_SAMPLES (\<lambda>n. cfg\<lparr>cf_n_samples := n\<rparr>) c
        else if a = ''--time-ms'' then uint_option v 1 VB_MAX_TIME_MS (\<lambda>n. cfg\<lparr>cf_target_ms := n\<rparr>) c
        else if a = ''--warmup-ms'' then uint_option v 0 VB_MAX_TIME_MS (\<lambda>n. cfg\<lparr>cf_warmup_ms := n\<rparr>) c
        else None)"

definition DEVICE_OPTIONS :: "string list" where
  "DEVICE_OPTIONS = [''--device'', ''--transfer'', ''--pipeline-chunks'', ''--host-memory'', ''--primitives'', ''--device-geometry'',
     ''--dump-device-code'', ''--compile-mode'', ''--import-ptx'', ''--backend'']"

definition value_option :: "files \<Rightarrow> string \<Rightarrow> string \<Rightarrow> cli \<Rightarrow> cli option" where
  "value_option fl a v c = (if a \<in> set DEVICE_OPTIONS then device_option fl a v c else run_option a v c)"

text \<open>The loop over the arguments.\<close>

fun parse_args :: "files \<Rightarrow> string list \<Rightarrow> cli \<Rightarrow> nat + cli" where
  "parse_args fl [] c = Inr c"
| "parse_args fl (a # args) c =
    (case flag_option a c of
       Some (Inl status) \<Rightarrow> Inl status
     | Some (Inr c) \<Rightarrow> parse_args fl args c
     | None \<Rightarrow>
         if a \<notin> set VALUE_OPTIONS then Inl VB_EXIT_USAGE
         else (case args of
                 [] \<Rightarrow> Inl VB_EXIT_USAGE
               | v # args \<Rightarrow>
                   (case value_option fl a v c of None \<Rightarrow> Inl VB_EXIT_USAGE | Some c \<Rightarrow> parse_args fl args c)))"


section \<open>Checks\<close>

definition alg_of :: "vb_kernel \<Rightarrow> vb_algorithm" where
  "alg_of k = the (vb_algorithm_by_id (case k_alg k of VB_ALG_MD5 \<Rightarrow> 0 | VB_ALG_SHA1 \<Rightarrow> 1 | VB_ALG_SHA512 \<Rightarrow> 2))"

text \<open>\<open>--kernel\<close>, which fixes the algorithm.\<close>

definition forced_kernel :: "vb_kernel list \<Rightarrow> bool \<Rightarrow> vb_config \<Rightarrow> (vb_kernel option \<times> vb_config) option" where
  "forced_kernel ks alg_given cfg =
    (case cf_force_kernel cfg of
       None \<Rightarrow> Some (None, cfg)
     | Some name \<Rightarrow>
         (case find (\<lambda>k. k_name k = name) ks of
            None \<Rightarrow> None
          | Some k \<Rightarrow>
              if alg_given \<and> k_alg k \<noteq> alg_id (cf_alg cfg) then None
              else Some (Some k, cfg\<lparr>cf_alg := alg_of k\<rparr>)))"

definition in_range :: "vb_config \<Rightarrow> bool" where
  "in_range cfg =
    (if cf_n_samples cfg < 1 \<or> VB_MAX_SAMPLES < cf_n_samples cfg then False
     else if cf_iterations cfg < 1 \<or> VB_MAX_ITERS < cf_iterations cfg then False
     else if cf_message_bytes cfg < VB_MIN_MSG_BYTES \<or> VB_MAX_MSG_BYTES < cf_message_bytes cfg then False
     else True)"

text \<open>The most iterations a run can reach.\<close>

definition max_iterations :: "vb_config \<Rightarrow> nat list \<Rightarrow> nat" where
  "max_iterations cfg ladder = fold (\<lambda>n m. if m < n then n else m) ladder (cf_iterations cfg)"

definition run_allowed :: "vb_config \<Rightarrow> nat list \<Rightarrow> bool" where
  "run_allowed cfg ladder =
    (if 1 < max_iterations cfg ladder \<and> cf_message_bytes cfg < vb_alg_min_iter_bytes (cf_alg cfg) then False
     else if cf_working_set_kb cfg < 1 then False
     else if unat (vb_distinct_messages (cf_message_bytes cfg)) < vb_batch_messages cfg then False
     else if VB_MAX_THREADS < cf_threads cfg then False
     else True)"

text \<open>Everything up to the reference ladder: the kernel, if one is forced, the configuration and the
  ladder.  \<open>None\<close> is a usage error.\<close>

definition main_checks :: "vb_kernel list \<Rightarrow> cli \<Rightarrow> (vb_kernel option \<times> vb_config \<times> nat list) option" where
  "main_checks ks c =
    (case forced_kernel ks (cl_alg_given c) (cl_cfg c) of
       None \<Rightarrow> None
     | Some (k, cfg) \<Rightarrow>
         if \<not> in_range cfg then None
         else
           (case (case cl_ladder c of None \<Rightarrow> Some [] | Some arg \<Rightarrow> parse_ladder arg VB_MAX_LADDER) of
              None \<Rightarrow> None
            | Some ladder \<Rightarrow>
                if \<not> run_allowed cfg ladder then None
                else
                  (case (case cl_expect c of None \<Rightarrow> Some cfg | Some hex \<Rightarrow> parse_expect hex cfg) of
                     None \<Rightarrow> None
                   | Some cfg \<Rightarrow> Some (k, cfg, ladder))))"

text \<open>Options that contradict the kernel or where it may run: usage errors before any device is asked.\<close>

definition contradictory :: "cli \<Rightarrow> vb_kernel option \<Rightarrow> vb_config \<Rightarrow> bool" where
  "contradictory c k cfg =
    (if cl_chunks_given c \<and> cf_transfer cfg \<noteq> VB_TRANSFER_OVERLAP then True
     else if cf_import_ptx cfg \<noteq> None \<and>
       (case k of None \<Rightarrow> True | Some k \<Rightarrow> \<not> k_device k \<or> k_backend k \<noteq> Some VB_BACKEND_CUDA) then True
     else if cl_device_only c \<noteq> None \<and> (case k of None \<Rightarrow> cf_where cfg = VB_WHERE_CPU | Some k \<Rightarrow> \<not> k_device k) then True
     else False)"

definition lacks_device :: "vb_backend_iface \<times> vb_backend_iface \<Rightarrow> vb_kernel option \<Rightarrow> vb_config \<Rightarrow> bool" where
  "lacks_device ifaces k cfg =
    (if 0 < cf_device_count cfg \<and> (case k of None \<Rightarrow> cf_where cfg \<noteq> VB_WHERE_CPU | Some k \<Rightarrow> k_device k)
     then list_ex (\<lambda>d. int (length (vb_devices ifaces (int VB_DEV_MAX))) \<le> d) (take (cf_device_count cfg) (cf_device_index cfg))
     else False)"

text \<open>A forced kernel: the status \<open>main\<close> returns, or none.\<close>

definition kernel_refused :: "(avail_fn \<Rightarrow> bool) \<Rightarrow> vb_config \<Rightarrow> vb_kernel \<Rightarrow> nat option" where
  "kernel_refused avail cfg k =
    (if k_device k \<and> cf_backend_mask cfg \<noteq> 0 \<and>
       (case k_backend k of None \<Rightarrow> False | Some b \<Rightarrow> cf_backend_mask cfg AND push_bit (backend_index b) 1 = 0) then Some VB_EXIT_USAGE
     else if cf_compile_mode_given cfg \<and> k_device k \<and> k_backend k \<noteq> Some VB_BACKEND_CUDA then Some VB_EXIT_USAGE
     else if (cf_where cfg = VB_WHERE_CPU \<and> k_device k) \<or> (cf_where cfg = VB_WHERE_DEVICE \<and> \<not> k_device k) then Some VB_EXIT_USAGE
     else if \<not> avail (k_available k) then Some VB_EXIT_CANNOT_RUN
     else if \<not> vb_batch_divides k then Some VB_EXIT_CANNOT_RUN
     else None)"


section \<open>The program\<close>

text \<open>What the machine answers: the table of kernels with what is available, and the environments of
  the probes and of the measurement.\<close>

record 'i main_env =
  me_files :: files
  me_kernels :: "vb_kernel list"
  me_avail :: "avail_fn \<Rightarrow> bool"
  me_lists :: "vb_backend_iface \<times> vb_backend_iface"
  me_probe :: "nat \<Rightarrow> 'i probe_env"
  me_run :: "'i probe_env"
  me_threads :: nat
  me_ref :: ref_env
  me_table_ok :: bool

text \<open>How a run of the program ends.\<close>

datatype main_end =
    Stopped nat
  | Listed vb_action bool
  | Ladder vb_config "nat list" string
  | Unmeasured vb_kernel vb_config vb_result nat
  | Measured vb_kernel vb_config vb_result bool nat

fun main_status :: "main_end \<Rightarrow> nat" where
  "main_status (Stopped n) = n"
| "main_status (Listed a json) = VB_EXIT_OK"
| "main_status (Ladder cfg iters text) = VB_EXIT_OK"
| "main_status (Unmeasured k cfg r n) = n"
| "main_status (Measured k cfg r json n) = n"

text \<open>The kernel: forced, or the choice of autotune; \<open>Inl\<close> is the status when there is none.\<close>

definition pick_kernel :: "'i main_env \<Rightarrow> vb_kernel option \<Rightarrow> vb_config \<Rightarrow> (nat + vb_kernel \<times> cpu_cache) option" where
  "pick_kernel me k cfg =
    (case k of
       Some k \<Rightarrow> Some (case kernel_refused (me_avail me) cfg k of Some status \<Rightarrow> Inl status | None \<Rightarrow> Inr (k, None))
     | None \<Rightarrow>
         (case vb_autotune (me_avail me) (me_kernels me) cfg (me_threads me) (me_probe me) None of
            None \<Rightarrow> None
          | Some t \<Rightarrow>
              Some (case tn_best t of
                      Some k \<Rightarrow> Inr (k, tn_cache t)
                    | None \<Rightarrow>
                        if ao_verify_failed (tn_why t) \<noteq> 0 then Inl VB_EXIT_VERIFY_FAILED else Inl VB_EXIT_CANNOT_RUN)))"

definition noisy :: "vb_config \<Rightarrow> vb_result \<Rightarrow> bool" where
  "noisy cfg r = (case r_stats r of None \<Rightarrow> False | Some st \<Rightarrow> d_lt (Fin (cf_cov_threshold cfg)) (st_cov st))"

definition main_measure :: "'i main_env \<Rightarrow> bool \<Rightarrow> vb_config \<Rightarrow> vb_kernel \<Rightarrow> cpu_cache \<Rightarrow> main_end option" where
  "main_measure me json cfg k cache =
    (let pe = me_run me
     in case vb_measure (pb_system pe) (pb_devices pe) (pb_alloc pe) (pb_scratch_ok pe) cache k cfg (me_threads me) of
          None \<Rightarrow> None
        | Some (rc, r, ev, cache) \<Rightarrow>
            Some (if rc \<noteq> 0 then
                    (if r_run_error r \<noteq> [] then Unmeasured k cfg r VB_EXIT_CANNOT_RUN
                     else Unmeasured k cfg r VB_EXIT_VERIFY_FAILED)
                  else Measured k cfg r json (if noisy cfg r then VB_EXIT_NOISY else VB_EXIT_OK)))"

definition main_run :: "'i main_env \<Rightarrow> cli \<Rightarrow> vb_kernel option \<Rightarrow> vb_config \<Rightarrow> main_end option" where
  "main_run me c k cfg =
    (if contradictory c k cfg then Some (Stopped VB_EXIT_USAGE)
     else if lacks_device (me_lists me) k cfg then Some (Stopped VB_EXIT_CANNOT_RUN)
     else case pick_kernel me k cfg of
            None \<Rightarrow> None
          | Some (Inl status) \<Rightarrow> Some (Stopped status)
          | Some (Inr (k, cache)) \<Rightarrow> main_measure me (cl_json c) cfg k cache)"

text \<open>\<open>main\<close>; \<open>None\<close> is a run that does not end.\<close>

definition main :: "'i main_env \<Rightarrow> string list \<Rightarrow> main_end option" where
  "main me args =
    (case parse_args (me_files me) args cli_start of
       Inl status \<Rightarrow> Some (Stopped status)
     | Inr c \<Rightarrow>
         if cl_action c = ACT_LIST_KERNELS \<or> cl_action c = ACT_LIST_DEVICES then Some (Listed (cl_action c) (cl_json c))
         else case main_checks (me_kernels me) c of
                None \<Rightarrow> Some (Stopped VB_EXIT_USAGE)
              | Some (k, cfg, ladder) \<Rightarrow>
                  if cl_action c = ACT_REFERENCE then
                    Some (case emit_reference_ladder (me_ref me) (me_table_ok me) (me_threads me) cfg ladder of
                            None \<Rightarrow> Stopped VB_EXIT_CANNOT_RUN
                          | Some text \<Rightarrow> Ladder cfg ladder text)
                  else main_run me c k cfg)"

end
