(* ===== verification/Cli_Sound.thy ===== *)
theory Cli_Sound
  imports Cli
begin

text \<open>
  What a run of the program that reports a number rests on: a configuration in range whatever the
  command line was, and a result that was checked against the reference of its own batch.
\<close>

section \<open>The configuration the options leave\<close>

definition devices_ok :: "int list \<Rightarrow> nat \<Rightarrow> bool" where
  "devices_ok idx n \<longleftrightarrow> length idx = VB_DEV_MAX \<and> n \<le> VB_DEV_MAX \<and> distinct (take n idx)
     \<and> (\<forall>d \<in> set (take n idx). 0 \<le> d \<and> d < int VB_DEV_MAX)"

definition config_ok :: "vb_config \<Rightarrow> bool" where
  "config_ok cfg \<longleftrightarrow> cf_alg cfg \<in> set ALGS \<and> 1 \<le> cf_n_samples cfg \<and> cf_n_samples cfg \<le> VB_MAX_SAMPLES
     \<and> 1 \<le> cf_iterations cfg \<and> cf_iterations cfg \<le> VB_MAX_ITERS
     \<and> 1 \<le> cf_message_bytes cfg \<and> cf_message_bytes cfg \<le> VB_MAX_MSG_BYTES
     \<and> 1 \<le> cf_working_set_kb cfg \<and> cf_working_set_kb cfg \<le> VB_MAX_WORKING_SET_KB
     \<and> cf_threads cfg \<le> VB_MAX_THREADS \<and> 1 \<le> cf_target_ms cfg \<and> cf_target_ms cfg \<le> VB_MAX_TIME_MS
     \<and> cf_warmup_ms cfg \<le> VB_MAX_TIME_MS \<and> cf_pipeline_chunks cfg \<le> VB_MAX_PIPELINE_CHUNKS
     \<and> devices_ok (cf_device_index cfg) (cf_device_count cfg)"

lemma parse_uint_range: "parse_uint arg lo hi = Some n \<Longrightarrow> lo \<le> n \<and> n \<le> hi"
  by (auto simp: parse_uint_def split: if_splits option.splits prod.splits)

lemma device_loop_keeps:
  "device_loop p cfg = Some cfg' \<Longrightarrow> devices_ok (cf_device_index cfg) (cf_device_count cfg) \<Longrightarrow>
   \<exists>idx n. cfg' = cfg\<lparr>cf_device_index := idx, cf_device_count := n\<rparr> \<and> devices_ok idx n"
proof (induction p cfg rule: device_loop.induct)
  case (1 p cfg)
  show ?case
  proof (cases "p = []")
    case True
    then have "cfg' = cfg\<lparr>cf_device_index := cf_device_index cfg, cf_device_count := cf_device_count cfg\<rparr>"
      using "1.prems"(1) by (simp add: device_loop.simps)
    then show ?thesis using "1.prems"(2) by blast
  next
    case False
    let ?i = "cf_device_index cfg" and ?n = "cf_device_count cfg"
    obtain v e rest where S: "c_strtol p = Some (v, e, rest)" "\<not> (e \<or> v < 0 \<or> int VB_DEV_MAX - 1 < v)" "\<not> VB_DEV_MAX \<le> ?n"
      "v \<notin> set (take ?n ?i)"
      using "1.prems"(1) False by (subst (asm) device_loop.simps) (auto split: option.splits if_splits)
    let ?cfg = "cfg\<lparr>cf_device_index := ?i[?n := v], cf_device_count := ?n + 1\<rparr>"
    have R: "device_loop (dropWhile (\<lambda>c. c = CHR '','' \<or> c = CHR '' '') rest) ?cfg = Some cfg'"
      using "1.prems"(1) False S by (subst (asm) device_loop.simps) simp
    have "take (?n + 1) (?i[?n := v]) = take ?n ?i @ [v]"
      using S(3) "1.prems"(2) by (simp add: devices_ok_def take_Suc_conv_app_nth)
    then have "devices_ok (?i[?n := v]) (?n + 1)"
      using "1.prems"(2) S by (auto simp: devices_ok_def)
    then obtain idx n where "cfg' = ?cfg\<lparr>cf_device_index := idx, cf_device_count := n\<rparr>" "devices_ok idx n"
      using "1.IH"[OF False S(1) refl refl S(2) S(3) S(4) R] by auto
    then show ?thesis by auto
  qed
qed

lemma parse_devices_keeps:
  assumes "parse_devices v cfg = Some cfg'" "config_ok cfg"
  shows "config_ok cfg'"
proof -
  let ?cfg = "cfg\<lparr>cf_device_count := 0\<rparr>"
  have start: "devices_ok (cf_device_index ?cfg) (cf_device_count ?cfg)" using assms(2) by (simp add: config_ok_def devices_ok_def)
  have "\<exists>idx n. cfg' = ?cfg\<lparr>cf_device_index := idx, cf_device_count := n\<rparr> \<and> devices_ok idx n"
  proof (cases "v = ''all''")
    case True
    then have "cfg' = ?cfg" using assms(1) by (simp add: parse_devices_def)
    then have "cfg' = ?cfg\<lparr>cf_device_index := cf_device_index ?cfg, cf_device_count := cf_device_count ?cfg\<rparr>" by simp
    then show ?thesis using start by blast
  next
    case False
    then show ?thesis using device_loop_keeps[OF _ start] assms(1) by (simp add: parse_devices_def)
  qed
  then show ?thesis using assms(2) by (auto simp: config_ok_def)
qed

lemma other_parsers_keep:
  "parse_backends v cfg = Some cfg' \<Longrightarrow> config_ok cfg \<Longrightarrow> config_ok cfg'"
  "parse_geometry v cfg = Some cfg' \<Longrightarrow> config_ok cfg \<Longrightarrow> config_ok cfg'"
  "parse_expect v cfg = Some cfg' \<Longrightarrow> config_ok cfg \<Longrightarrow> config_ok cfg'"
  by (auto simp: parse_backends_def parse_geometry_def parse_expect_def config_ok_def Let_def split: if_splits option.splits prod.splits)

lemma option_setters [simp]:
  "with_cfg new c = Some c' \<longleftrightarrow> (\<exists>cfg. new = Some cfg \<and> c' = c\<lparr>cl_cfg := cfg\<rparr>)"
  "word_option words v f c = Some c' \<longleftrightarrow> (\<exists>w. map_of words v = Some w \<and> c' = c\<lparr>cl_cfg := f w\<rparr>)"
  "uint_option v lo hi g c = Some c' \<longleftrightarrow> (\<exists>n. parse_uint v lo hi = Some n \<and> c' = c\<lparr>cl_cfg := g n\<rparr>)"
  by (auto simp: with_cfg_def word_option_def uint_option_def)

lemma free_fields [simp]:
  "config_ok (cfg\<lparr>cf_transfer := t\<rparr>) = config_ok cfg" "config_ok (cfg\<lparr>cf_host_memory := h\<rparr>) = config_ok cfg"
  "config_ok (cfg\<lparr>cf_primitives_neutral := b\<rparr>) = config_ok cfg" "config_ok (cfg\<lparr>cf_dump_dir := d\<rparr>) = config_ok cfg"
  "config_ok (cfg\<lparr>cf_compile_mode := m, cf_compile_mode_given := b\<rparr>) = config_ok cfg"
  "config_ok (cfg\<lparr>cf_import_ptx := d\<rparr>) = config_ok cfg" "config_ok (cfg\<lparr>cf_where := w\<rparr>) = config_ok cfg"
  "config_ok (cfg\<lparr>cf_force_kernel := d\<rparr>) = config_ok cfg" "config_ok (cfg\<lparr>cf_pin_cpu := b\<rparr>) = config_ok cfg"
  by (simp_all add: config_ok_def)

lemma needs_device_cfg [simp]: "cl_cfg (needs_device a c) = cl_cfg c"
  by (simp add: needs_device_def)

text \<open>Either branch, without the name of the option.\<close>

lemma either_branch: "(if b then x else y) = z \<Longrightarrow> (x = z \<Longrightarrow> P) \<Longrightarrow> (y = z \<Longrightarrow> P) \<Longrightarrow> P"
  by (cases b) simp_all

lemma chunks_keep:
  "parse_uint v lo VB_MAX_PIPELINE_CHUNKS = Some n \<Longrightarrow> config_ok cfg \<Longrightarrow> config_ok (cfg\<lparr>cf_pipeline_chunks := n\<rparr>)"
  by (auto simp: config_ok_def dest: parse_uint_range)

lemma device_option_keeps:
  assumes "device_option fl a v c = Some c'" "config_ok (cl_cfg c)"
  shows "config_ok (cl_cfg c')"
  using assms(1)[unfolded device_option_def Let_def]
  by (elim either_branch) (use assms(2) in \<open>auto simp del: map_of.simps
      dest: parse_devices_keeps other_parsers_keep(1,2) intro: chunks_keep\<close>)

lemma run_option_keeps:
  assumes "run_option a v c = Some c'" "config_ok (cl_cfg c)"
  shows "config_ok (cl_cfg c')"
  using assms(1)[unfolded run_option_def Let_def]
  by (elim either_branch) (use assms(2) in \<open>auto simp del: map_of.simps split: option.splits dest: parse_uint_range
      simp: by_name_iff config_ok_def VB_MAX_MSG_BYTES_def\<close>)

lemma parse_args_keeps:
  "parse_args fl args c = Inr c' \<Longrightarrow> config_ok (cl_cfg c) \<Longrightarrow> config_ok (cl_cfg c')"
proof (induction fl args c rule: parse_args.induct)
  case (2 fl a args c)
  show ?case
  proof (cases "flag_option a c")
    case None
    then obtain v rest d where "args = v # rest" "value_option fl a v c = Some d" "parse_args fl rest d = Inr c'"
      "a \<in> set VALUE_OPTIONS"
      using "2.prems"(1) by (auto split: if_splits list.splits option.splits)
    moreover then have "config_ok (cl_cfg d)"
      using device_option_keeps run_option_keeps "2.prems"(2) by (auto simp: value_option_def split: if_splits)
    ultimately show ?thesis using "2.IH"(1) None by simp
  next
    case (Some x)
    then obtain d where d: "x = Inr d" "parse_args fl args d = Inr c'" using "2.prems"(1) by (auto split: sum.splits)
    have "config_ok (cl_cfg d)"
      using Some d(1) "2.prems"(2) by (auto simp: flag_option_def config_ok_def split: if_splits)
    then show ?thesis using "2.IH"(2)[OF Some d(1) d(2)] by simp
  qed
qed auto

lemma cli_start_ok: "config_ok (cl_cfg cli_start)"
  by (simp add: cli_start_def config_ok_def vb_config_defaults_def devices_ok_def VB_MAX_SAMPLES_def VB_MAX_ITERS_def VB_DEFAULT_MSG_BYTES_def
      VB_MAX_MSG_BYTES_def VB_MAX_WORKING_SET_KB_def VB_MAX_THREADS_def VB_MAX_TIME_MS_def VB_MAX_PIPELINE_CHUNKS_def vb_algorithm_by_id_def ALGS_def)


section \<open>What passes the checks\<close>

lemma alg_of_facts [simp]: "alg_of k \<in> set ALGS" "alg_id (alg_of k) = k_alg k"
  by (cases "k_alg k"; simp add: alg_of_def vb_algorithm_by_id_def ALGS_def alg_defs)+

lemma forced_kernel_facts:
  assumes "forced_kernel ks given cfg = Some (k, cfg')" "config_ok cfg"
  shows "config_ok cfg' \<and> (\<forall>k'. k = Some k' \<longrightarrow> k' \<in> set ks \<and> k_alg k' = alg_id (cf_alg cfg'))"
  using assms by (auto simp: forced_kernel_def config_ok_def find_Some_iff split: option.splits if_splits)

lemma max_iterations_ge:
  "cf_iterations cfg \<le> max_iterations cfg ladder \<and> (\<forall>n \<in> set ladder. n \<le> max_iterations cfg ladder)"
proof -
  have "m \<le> fold (\<lambda>n m. if m < n then n else m) xs m \<and> (\<forall>n \<in> set xs. n \<le> fold (\<lambda>n m. if m < n then n else m) xs m)" for xs :: "nat list" and m
  proof (induction xs arbitrary: m)
    case (Cons x xs)
    let ?y = "if m < x then x else m"
    have "m \<le> ?y" "x \<le> ?y" by auto
    moreover have "?y \<le> fold (\<lambda>n m. if m < n then n else m) xs ?y" using Cons.IH by blast
    ultimately show ?case using Cons.IH[of ?y] le_trans by (simp only: fold_simps list.set ball_simps) blast
  qed simp
  then show ?thesis by (simp add: max_iterations_def)
qed

text \<open>A run that may start: every number in range, no message repeated, and room for the digest wherever
  an iteration feeds it back.\<close>

definition run_ok :: "vb_config \<Rightarrow> nat list \<Rightarrow> bool" where
  "run_ok cfg iters \<longleftrightarrow> config_ok cfg \<and> vb_batch_messages cfg \<le> unat (vb_distinct_messages (cf_message_bytes cfg))
     \<and> (\<forall>n \<in> insert (cf_iterations cfg) (set iters). 1 < n \<longrightarrow> digest_bytes (cf_alg cfg) \<le> cf_message_bytes cfg)"

lemma run_allowed_ok:
  assumes "config_ok cfg" "run_allowed cfg iters"
  shows "run_ok cfg iters"
  using assms max_iterations_ge[of cfg iters]
  by (auto simp: run_ok_def run_allowed_def vb_alg_min_iter_bytes_def split: if_splits)

lemma main_checks_facts:
  assumes "main_checks ks c = Some (k, cfg, ladder)" "config_ok (cl_cfg c)"
  shows "run_ok cfg ladder \<and> (\<forall>k'. k = Some k' \<longrightarrow> k' \<in> set ks \<and> k_alg k' = alg_id (cf_alg cfg))"
proof -
  obtain cfg1 where F: "forced_kernel ks (cl_alg_given c) (cl_cfg c) = Some (k, cfg1)" and R: "run_allowed cfg1 ladder"
    and X: "(case cl_expect c of None \<Rightarrow> Some cfg1 | Some hex \<Rightarrow> parse_expect hex cfg1) = Some cfg"
    using assms(1) by (auto simp: main_checks_def split: option.splits if_splits prod.splits)
  have ok: "run_ok cfg1 ladder" using run_allowed_ok[OF _ R] forced_kernel_facts[OF F assms(2)] by blast
  have "cfg = cfg1 \<or> (\<exists>e. cfg = cfg1\<lparr>cf_expected := e, cf_have_expected := True\<rparr>)"
    using X by (auto simp: parse_expect_def Let_def split: option.splits if_splits)
  then have "run_ok cfg ladder \<and> cf_alg cfg = cf_alg cfg1"
    by (elim disjE exE) (use ok in \<open>simp_all add: run_ok_def config_ok_def vb_batch_messages_def\<close>)
  then show ?thesis using forced_kernel_facts[OF F assms(2)] by simp
qed


section \<open>What a measurement that succeeds has checked\<close>

definition batch_checksum :: "vb_config \<Rightarrow> checksum" where
  "batch_checksum cfg = (if cf_have_expected cfg then cf_expected cfg
     else vb_reference_checksum True (cf_alg cfg) 0 (vb_batch_messages cfg) (cf_message_bytes cfg) (cf_iterations cfg))"

lemma batch_tiled: "vb_batch_divides k \<Longrightarrow> k_lanes k * k_streams k dvd vb_batch_messages cfg"
proof -
  assume "vb_batch_divides k"
  then have "k_lanes k * k_streams k dvd VB_BATCH_LCM" by (auto simp: vb_batch_divides_def Let_def split: if_splits)
  moreover have "VB_BATCH_LCM dvd vb_batch_messages cfg" by (simp add: vb_batch_messages_def Let_def)
  ultimately show ?thesis by (rule dvd_trans)
qed

lemma cpu_success:
  assumes "measure_cpu sy cache k cfg corpus threads rt = Some (0, r, ev, cache')" "config_ok cfg" "\<And>i. slice_ok (sy_ref sy) i"
    and "c_n_messages corpus = vb_batch_messages cfg" "c_start_index corpus = 0"
  shows "r_verified r \<and> r_checksum r = batch_checksum cfg"
proof -
  obtain x where X: "measure_body sy cache k cfg corpus threads rt = Some x" "mx_rc x = 0" "r = mx_out x"
    using assms(1) by (auto simp: measure_cpu_def split: option.splits)
  from X(1) show ?thesis
  proof (cases rule: measure_body_exit)
    case (finished p pev c s)
    then show ?thesis
      using assms(2-5) X(3) by (auto simp: config_ok_def batch_checksum_def vb_validate_kernel_def Let_def mt_checksum split: if_splits)
  qed (use X(2) in simp_all)
qed

lemma device_success:
  assumes "measure_device ds k cfg corpus rt out = Some x" "dx_rc x = 0" "config_ok cfg" "\<And>i. slice_ok (ds_ref ds) i" "vb_batch_divides k"
    and "c_n_messages corpus = vb_batch_messages cfg" "c_start_index corpus = 0"
  shows "r_verified (dx_out x) \<and> r_checksum (dx_out x) = batch_checksum cfg"
proof -
  have "0 < vb_batch_messages cfg" by (simp add: vb_batch_messages_def VB_BATCH_LCM_def Let_def)
  moreover have "cf_device_count cfg \<le> length (cf_device_index cfg)" using assms(3) by (simp add: config_ok_def devices_ok_def)
  ultimately show ?thesis
    using device_run_checked[OF assms(1,2) _ _ assms(4)] assms(3,5-7) batch_tiled[OF assms(5), of cfg]
    by (simp add: config_ok_def batch_checksum_def)
qed

lemma measure_success:
  assumes "vb_measure sy ds alloc ok cache k cfg n = Some (0, r, ev, cache')" "config_ok cfg"
    and "\<And>i. slice_ok (sy_ref sy) i" "\<And>i. slice_ok (ds_ref ds) i" "k_device k \<Longrightarrow> vb_batch_divides k"
  shows "r_verified r \<and> r_checksum r = batch_checksum cfg"
proof -
  obtain corpus where C: "vb_corpus_build alloc ok (Some (cf_alg cfg)) (k_lanes k) 0 (vb_batch_messages cfg) (cf_message_bytes cfg) = Some corpus"
    and M: "measure_with_corpus sy ds cache k cfg corpus n = Some (0, r, ev, cache')"
    using assms(1) by (auto simp: vb_measure_def split: option.splits)
  have c: "c_n_messages corpus = vb_batch_messages cfg" "c_start_index corpus = 0" using C by (auto elim!: corpus_build_Some)
  show ?thesis
  proof (cases "k_device k")
    case True
    then obtain x where "measure_device ds k cfg corpus n (result_header k cfg corpus) = Some x" "dx_rc x = 0" "r = dx_out x"
      using M by (auto simp: measure_with_corpus_def Let_def split: option.splits)
    then show ?thesis using device_success[OF _ _ assms(2,4) assms(5)[OF True] c] by simp
  next
    case False
    then show ?thesis using cpu_success[OF _ assms(2,3) c] M by (simp add: measure_with_corpus_def Let_def)
  qed
qed

lemma device_rows_tile:
  assumes "k \<in> set (vb_kernels have avail lanes_of)" "k_device k"
  shows "vb_batch_divides k"
proof -
  consider (cpu) c where "k = resolve_row avail lanes_of (ce_lfn c) (VB_ROW_KERNEL c)"
    | (dev) token isaname av backend a st where "k = VB_DEV_ROW token isaname av backend a st" "st \<in> {1, 2, 3, 4}"
    using assms(1) unfolding vb_kernels_rows by (auto dest!: dev_row_cases)
  then show ?thesis
  proof cases
    case cpu
    then show ?thesis using assms(2) by (auto simp: resolve_row_def VB_ROW_KERNEL_def split: option.splits if_splits)
  next
    case dev
    then show ?thesis by (auto simp: VB_DEV_ROW_def vb_batch_divides_def VB_OCL_LANES_def VB_BATCH_LCM_def)
  qed
qed

lemma picked_kernel:
  assumes "pick_kernel me k cfg = Some (Inr (k', cache))"
    and "\<forall>k'. k = Some k' \<longrightarrow> k' \<in> set (me_kernels me) \<and> k_alg k' = alg_id (cf_alg cfg)"
  shows "k' \<in> set (me_kernels me) \<and> me_avail me (k_available k') \<and> k_alg k' = alg_id (cf_alg cfg)"
proof (cases k)
  case None
  then obtain t where "vb_autotune (me_avail me) (me_kernels me) cfg (me_threads me) (me_probe me) None = Some t" "tn_best t = Some k'"
    using assms(1) by (auto simp: pick_kernel_def split: option.splits if_splits)
  from autotune_best[OF this] show ?thesis by (auto simp: wanted_def split: if_splits)
next
  case (Some f)
  then show ?thesis
    using assms by (auto simp: pick_kernel_def kernel_refused_def split: option.splits if_splits)
qed

lemma ladder_loop_ascends:
  "ladder_loop p most out = Some iters \<Longrightarrow> sorted_wrt (<) out \<and> 0 \<notin> set out \<Longrightarrow> sorted_wrt (<) iters \<and> 0 \<notin> set iters"
proof (induction p most out rule: ladder_loop.induct)
  case (1 p most out)
  show ?case
  proof (cases "p = []")
    case True
    then show ?thesis using "1.prems" by (simp add: ladder_loop.simps)
  next
    case False
    then obtain v e rest where S: "c_strtoul p = Some (v, e, rest)" "\<not> (e \<or> v < 1 \<or> VB_MAX_ITERS < v)" "length out \<noteq> most"
      "\<not> (out \<noteq> [] \<and> v \<le> last out)" "\<not> (rest \<noteq> [] \<and> hd rest \<noteq> CHR '','')" "ladder_loop (tl rest) most (out @ [v]) = Some iters"
      using "1.prems"(1) by (subst (asm) ladder_loop.simps) (auto split: option.splits if_splits)
    have up: "x < v" if "x \<in> set out" for x
    proof -
      have "x \<le> last out"
        using "1.prems"(2) that by (metis append_butlast_last_id in_set_conv_nth empty_iff list.set(1) order.refl less_imp_le
            sorted_wrt_append set_append Un_iff set_ConsD list.set_intros(1))
      then show ?thesis using S(4) that by (cases "out = []") auto
    qed
    have "sorted_wrt (<) (out @ [v]) \<and> 0 \<notin> set (out @ [v])" using "1.prems"(2) up S(2) by (auto simp: sorted_wrt_append)
    from "1.IH"[OF False S(1) refl refl S(2-6) this] show ?thesis .
  qed
qed

lemma parse_ladder_ascends: "parse_ladder arg most = Some iters \<Longrightarrow> iters \<noteq> [] \<and> sorted iters \<and> 0 \<notin> set iters"
  using ladder_loop_ascends[of arg most "[]"]
  by (auto simp: parse_ladder_def intro: strict_sorted_imp_sorted split: option.splits if_splits)

lemma parse_args_stops:
  "parse_args fl args c = Inl status \<Longrightarrow> status = VB_EXIT_OK \<or> status = VB_EXIT_USAGE"
proof (induction fl args c rule: parse_args.induct)
  case (2 fl a args c)
  have flags: "s = VB_EXIT_OK" if "flag_option a c = Some (Inl s)" for s
    using that by (auto simp: flag_option_def split: if_splits)
  show ?case using "2.prems" flags "2.IH" by (auto split: option.splits sum.splits if_splits list.splits)
qed simp

lemma pick_kernel_stops: "pick_kernel me k cfg = Some (Inl status) \<Longrightarrow> status \<noteq> VB_EXIT_NOISY"
  by (auto simp: pick_kernel_def kernel_refused_def VB_EXIT_OK_def VB_EXIT_USAGE_def VB_EXIT_NOISY_def VB_EXIT_CANNOT_RUN_def
      VB_EXIT_VERIFY_FAILED_def split: option.splits if_splits)

lemma main_checks_ladder:
  "main_checks ks c = Some (k, cfg, ladder) \<Longrightarrow> sorted ladder \<and> 0 \<notin> set ladder \<and> (cl_ladder c = None \<longleftrightarrow> ladder = [])"
  by (auto simp: main_checks_def dest: parse_ladder_ascends split: option.splits if_splits prod.splits)

lemma ladder_table_references:
  assumes "cf_alg cfg \<in> set ALGS" "sorted iters" "0 \<notin> set iters" "\<And>i. slice_ok env i"
  shows "ladder_table env threads cfg iters
    = map (vb_reference_checksum True (cf_alg cfg) 0 (vb_batch_messages cfg) (cf_message_bytes cfg)) iters"
proof -
  have "map (ref_checksum (cf_alg cfg) 0 (vb_batch_messages cfg) (cf_message_bytes cfg)) iters
      = map (vb_reference_checksum True (cf_alg cfg) 0 (vb_batch_messages cfg) (cf_message_bytes cfg)) iters"
    using assms(1,3) by (intro map_cong refl reference_checksum_eq[symmetric]) (auto intro: gr0I)
  then show ?thesis using assms by (simp add: ladder_table_def mt_equals_serial reference_checksums_eq)
qed


section \<open>The program\<close>

definition kernel_ok :: "'i main_env \<Rightarrow> vb_config \<Rightarrow> vb_kernel \<Rightarrow> bool" where
  "kernel_ok me cfg k \<longleftrightarrow> k \<in> set (me_kernels me) \<and> me_avail me (k_available k) \<and> k_alg k = alg_id (cf_alg cfg)"

lemma measure_outcome:
  assumes "main_measure me json cfg k cache = Some e" "config_ok cfg"
    and "\<And>i. slice_ok (sy_ref (pb_system (me_run me))) i" "\<And>i. slice_ok (ds_ref (pb_devices (me_run me))) i" "k_device k \<Longrightarrow> vb_batch_divides k"
  shows "((\<exists>r. e = Unmeasured k cfg r VB_EXIT_CANNOT_RUN \<and> r_run_error r \<noteq> []
          \<and> (never_runs (pb_devices (me_run me)) k \<longrightarrow> r_run_error r = snprintf_into 512 (corpus_error cfg)))
    \<or> (\<exists>r. e = Unmeasured k cfg r VB_EXIT_VERIFY_FAILED \<and> r_run_error r = [])
    \<or> (\<exists>r. e = Measured k cfg r json (if noisy cfg r then VB_EXIT_NOISY else VB_EXIT_OK)
        \<and> r_verified r \<and> r_checksum r = batch_checksum cfg \<and> \<not> never_runs (pb_devices (me_run me)) k))"
proof -
  obtain rc r ev cache' where M: "vb_measure (pb_system (me_run me)) (pb_devices (me_run me)) (pb_alloc (me_run me)) (pb_scratch_ok (me_run me))
      cache k cfg (me_threads me) = Some (rc, r, ev, cache')"
    using assms(1) by (auto simp: main_measure_def Let_def split: option.splits)
  have never: "rc \<noteq> 0 \<and> (r_run_error r \<noteq> [] \<longrightarrow> r_run_error r = snprintf_into 512 (corpus_error cfg))"
    if "never_runs (pb_devices (me_run me)) k"
    using M by (auto simp: vb_measure_def split: option.splits dest: never_runs_failed[OF that])
  show ?thesis
  proof (cases "rc = 0")
    case True
    then have "e = Measured k cfg r json (if noisy cfg r then VB_EXIT_NOISY else VB_EXIT_OK)"
      using assms(1) M by (simp add: main_measure_def Let_def)
    then show ?thesis using measure_success[OF M[unfolded True] assms(2-5)] never True by blast
  next
    case False
    then show ?thesis using assms(1) M never by (auto simp: main_measure_def Let_def split: if_splits)
  qed
qed


text \<open>A machine with one C compiler and no vector unit, where the scalar kernel is named.\<close>

definition small_main :: "unit main_env" where
  "small_main =
    (let pe = \<lparr>pb_system = small_system, pb_devices = late_system [late_info 0], pb_alloc = (\<lambda>n. Some (replicate n 7)), pb_scratch_ok = True\<rparr>
     in \<lparr>me_files = \<lparr>fl_dir = (\<lambda>p. False), fl_readable = (\<lambda>p. False)\<rparr>,
         me_kernels = vb_kernels (\<lambda>i. False) (\<lambda>a. True) (\<lambda>f. 0), me_avail = (\<lambda>a. True),
         me_lists = (\<lparr>bi_enumerate = (\<lambda>n. []), bi_unavailable = None\<rparr>, \<lparr>bi_enumerate = (\<lambda>n. []), bi_unavailable = None\<rparr>),
         me_probe = (\<lambda>i. pe), me_run = pe, me_threads = 2,
         me_ref = \<lparr>tables_ok = True, flags_ok = True, slice_ok = (\<lambda>i. True), create_ok = (\<lambda>i. True), join_ok = (\<lambda>i. True), unjoined = (\<lambda>i. [])\<rparr>,
         me_table_ok = True\<rparr>)"

lemma small_kernel:
  "case find (\<lambda>k. k_name k = ''md5/scalar-s2'') (vb_kernels (\<lambda>i. False) (\<lambda>a. True) (\<lambda>f. 0)) of
     None \<Rightarrow> False
   | Some k \<Rightarrow> k_lanes k = 1 \<and> k_streams k = 2 \<and> \<not> k_device k \<and> k_alg k = VB_ALG_MD5"
  by code_simp

definition small_main_cfg :: vb_config where
  "small_main_cfg = vb_config_defaults\<lparr>cf_force_kernel := Some ''md5/scalar-s2''\<rparr>"

lemma small_main_cfg_facts:
  "cf_alg small_main_cfg = md5_alg" "cf_iterations small_main_cfg = 1" "cf_message_bytes small_main_cfg = 55"
  "\<not> cf_have_expected small_main_cfg" "cf_target_ms small_main_cfg = 100" "cf_force_kernel small_main_cfg = Some ''md5/scalar-s2''"
  "cf_where small_main_cfg = VB_WHERE_ANY" "cf_backend_mask small_main_cfg = 0" "cf_device_count small_main_cfg = 0"
  "cf_import_ptx small_main_cfg = None" "small_main_cfg\<lparr>cf_alg := md5_alg\<rparr> = small_main_cfg"
  by (simp_all add: small_main_cfg_def vb_config_defaults_def vb_algorithm_by_id_def ALGS_def VB_DEFAULT_MSG_BYTES_def)

lemma small_main_batch: "vb_batch_messages small_main_cfg = 16128"
proof -
  have "unat (vb_alg_blocks_for md5_alg (of_nat 55)) = 1"
    by (subst blocks_for_nat) (simp_all add: ALGS_def VB_MAX_MSG_BYTES_def blocks_needed_def md5_alg_def)
  moreover have "cf_working_set_kb small_main_cfg = 1024" by (simp add: small_main_cfg_def vb_config_defaults_def)
  ultimately show ?thesis
    unfolding vb_batch_messages_def small_main_cfg_facts(1,3) Let_def by (simp add: VB_BATCH_LCM_def md5_alg_def)
qed

lemma small_main_checks:
  "in_range small_main_cfg" "run_allowed small_main_cfg []"
proof -
  have "cf_n_samples small_main_cfg = 10" "cf_working_set_kb small_main_cfg = 1024" "cf_threads small_main_cfg = 0"
    by (simp_all add: small_main_cfg_def vb_config_defaults_def)
  moreover have "unat (vb_distinct_messages 55) = 2 ^ 32" by (simp add: vb_distinct_messages_def push_bit_eq_mult)
  ultimately show "in_range small_main_cfg" "run_allowed small_main_cfg []"
    by (simp_all add: in_range_def run_allowed_def max_iterations_def small_main_cfg_facts small_main_batch VB_MAX_SAMPLES_def VB_MAX_ITERS_def
        VB_MIN_MSG_BYTES_def VB_MAX_MSG_BYTES_def VB_MAX_THREADS_def)
qed

lemma small_main_measures:
  assumes "k_lanes k = 1" "k_streams k = 2" "\<not> k_device k"
  shows "\<exists>r ev cache. vb_measure small_system ds (\<lambda>n. Some (replicate n 7)) True None k small_main_cfg 2 = Some (0, r, ev, cache)"
proof -
  obtain corpus where c: "vb_corpus_build (\<lambda>n. Some (replicate n 7)) True (Some md5_alg) 1 0 16128 55 = Some corpus"
    using corpus_build_ok[where lanes=1 and n=16128 and v=7 and a=md5_alg and start=0 and bytes=55] by auto
  have "\<exists>x. measure_body small_system None k small_main_cfg corpus 2 2 = Some x \<and> r_verified (mx_out x)"
    by (rule scalar_slices.correct_kernel_measured[OF small_system_facts(1,2),
          where alloc = "\<lambda>n. Some (replicate n 7)" and start = 0 and n = 16128 and bytes = 55])
      (use c assms in \<open>simp_all add: small_facts small_system_facts vb_batch_divides_def VB_BATCH_LCM_def small_main_cfg_facts VB_MAX_MSG_BYTES_def\<close>)
  then obtain x where x: "measure_body small_system None k small_main_cfg corpus 2 2 = Some x" "r_verified (mx_out x)" by blast
  have "mx_rc x = 0" using x(1) by (cases rule: measure_body_exit) (use x(2) in simp_all)
  moreover have "cf_threads small_main_cfg = 0" by (simp add: small_main_cfg_def vb_config_defaults_def)
  ultimately show ?thesis
    using c x(1) assms by (simp add: vb_measure_def small_main_cfg_facts small_main_batch measure_with_corpus_def measure_cpu_def Let_def)
qed


end
