(* ===== verification/Spec2Isabelle.thy ===== *)
theory Spec2Isabelle
  imports Isa_Ops Pool_Threads Measure_Live Pipe_Verify Device_List Device_Capacity Device_Kernels Power_Sound Cli_Sound
begin

text \<open>
  valubench measures the throughput of MD5, SHA-1 and SHA-512 on vector units and GPUs.  Every
  number it prints is only as good as the claim that the measured kernel computed what the scalar
  reference computes, so the development follows that claim from the bytes up to the exit status of
  the program.  File names below are relative to the directories src and include of the repository.

  \<^bold>\<open>How the program works.\<close>  A batch is a list of messages.  src/workload.c writes their padded
  blocks into one interleaved array, the corpus, in which the words of a group of lanes lie side by
  side.  A kernel walks the groups; per group it hashes every message \<^emph>\<open>hash_iters\<close> times, each
  digest replacing the head of the message for the next iteration, and XORs all digest words into a
  checksum of one digest's size.  The scalar code of src/reference computes the same checksum from
  the bytes.  src/bench.c cuts the batch into slices, runs them on a pool of pinned threads or hands
  them to devices (src/device/device.c), calibrates, warms up, takes samples, and reports a rate only
  when every checksum it looked at was the expected one; src/main.c parses the command line and turns
  the outcome into an exit status.  Because XOR is associative and commutative with zero, every
  statement about threads, lanes, streams, slices, chunks and repeated passes ends in the fold
  \<open>xor_list\<close> of Prelude.

  \<^bold>\<open>Conventions.\<close>  Unsigned C integers are words of their width (\<open>u8 u32 u64\<close>, size_t as 64 bits
  where it can wrap) or naturals where the code's bounds keep them from wrapping; signed values are
  integers; structs are records, enums datatypes, buffers lists.  Failure is an option or a sum, an
  early return a branch.  Whatever the repository does not contain is an argument: the answers of the
  clock, of sched_getaffinity, malloc and pthread_create, the compiler's intrinsics, a backend's
  calls.  Allocations that happen once per worker or slice are answered one by one (\<open>pe_msg_ok\<close>,
  \<open>slice_ok\<close>), and reading and restoring the CPU mask can each be refused (\<open>pe_save_ok\<close>,
  \<open>pe_restore_ok\<close>).  Where a theorem needs something of them it is a named hypothesis, and its witness
  gives a concrete function that has it.  What C leaves undefined is a value of which nothing is known
  (\<open>d_to_u64\<close>).

  \<^bold>\<open>Theories, in the order of the code.\<close>
    \<^item> Prelude, Decimal: word types, byte order, copies, block cutting, the algebra of XOR folds,
      decimal digits.
    \<^item> Algorithm: include/algorithm.h and src/algorithm.c, the three descriptors, lookup, and
      \<open>vb_alg_blocks_for\<close> in its 32-bit arithmetic.
    \<^item> Md_Stream, Md5_Ref, Sha1_Ref, Sha512_Ref: src/reference.  The streaming operations
      init/update/final are written once over a compression function (they are the same text in the
      three files) in the locale \<open>md_stream\<close>, interpreted on each of the three.
    \<^item> Workload, Corpus, Reference: src/workload.c.  Message bytes, padding, the layout of the corpus
      with its allocation, the iterated reference, the ladder that serves several iteration counts in
      one walk, and the threaded split of the reference.
    \<^item> Word_Hash, Word_Algs: the locale \<open>word_hash\<close> says when a function on sixteen words per block is
      the byte-level hash; the three algorithms are its interpretations.
    \<^item> Vec_Ops, Isa_Ops: the operations a kernel template is written over, as the locales \<open>vec32\<close> and
      \<open>vec64\<close>: every operation acts on each lane by itself.  scalar.c, sse2.c, avx2.c, avx512.c,
      neon.c, sve.c and sve2.c are definitions over a record of intrinsics; \<open>simd32\<close> and \<open>simd64\<close>
      state the documented meaning of those intrinsics and are sublocales of \<open>vec32\<close> and \<open>vec64\<close>.
    \<^item> Kernel_Contract, Rolling, Kernel_Md5, Kernel_Sha1, Kernel_Sha512: the three templates of
      src/kernels/cpu.  A stream is a record, the arrays of streams are lists.  The locale
      \<open>stream_kernel\<close> holds the loops all three share and says what a lane of a stream holds after
      each; \<open>rolling\<close> proves that the sixteen-word window of the kernels is the eighty-word schedule.
    \<^item> Registry: matrix.h, src/registry.c, src/cpu_features.c, sve_lanes.c.
    \<^item> Bench_Config, Pool, Pool_Verify, Pool_Lifecycle, Pool_Threads, Kernel_Slices: configuration,
      affinity and batch size of src/bench.c, and its worker pool.  Pool is the sequential meaning of
      creation, run and destruction with an event list; Pool_Threads is the inductive step relation of
      the driver and the workers over the gate and the two generation barriers of include/vb_threads.h,
      with its reachable states; Kernel_Slices connects the pool to the kernel templates through the
      locale \<open>slice_kernel\<close>.
    \<^item> Doubles: IEEE double arithmetic as far as the harness uses it (rounding, comparison, conversion
      to uint64_t where it is defined).
    \<^item> Harness, Measure_Cpu, Measure_Live: the gate, calibration, warm-up, samples and result of the CPU
      path; the locale \<open>run_invariant\<close> carries a property of a pool run through every loop.
    \<^item> Steer, Device_State, Device_Launch, Device_Geometry, Device_Pipe, Pipe_Verify, Device_List:
      src/device.  A backend is a record of calls on a state of its own type that may fail or answer
      anything.  What a pipelined backend is relied on for is \<open>pipe_contract\<close> in Pipe_Verify: a wait for a
      slot answers with the hash of the job \<open>pipe_enqueue\<close> put there, at the offset, bytes, groups,
      iterations and with the scratch and readback it was handed, until that slot is used again; nothing
      is assumed of which job that is.  Sizes are naturals with the reduction modulo 2 to the 64 or 32
      written where the code's bounds do not exclude it.
    \<^item> Device_Prims, Device_Sweep, Device_Md5, Device_Sha1, Device_Sha512, Device_Kernels,
      Device_Capacity: src/kernels/gpu.  The primitives in each spelling over a record of builtins,
      whose manuals are the locale \<open>device_builtins\<close>; the sweep of a work-item and the reduction of a
      work-group over an arbitrary order of the items between two barriers, with the locale
      \<open>device_body\<close> for what the three cores share; the cores, which are instances of the same
      \<open>stream_kernel\<close> as the CPU templates; a launch on the contexts device.c creates; and the capacity
      probe as an inductive step relation over its atomic accesses.
    \<^item> Measure_Device, Device_Verify, Device_Live: the device path of src/bench.c; the locale
      \<open>dev_invariant\<close> plays the part of \<open>run_invariant\<close>.  The field \<open>dx_lost\<close> is a ghost: the errors of the
      contexts when a call failed, and whether it was a call of the pipeline, for which \<open>pipe_passes\<close>
      surfaces the first error.
    \<^item> Autotune: \<open>measure_with_corpus\<close>, \<open>vb_measure\<close> and \<open>vb_autotune\<close>.
    \<^item> Cli_Parse, Cli_Text, Cli, Cli_Sound: src/main.c.
    \<^item> Power_Meter, Power_Sound: src/power.c over an arbitrary file system and NVML library: discovery,
      the samples around the timed region, the sums and the attribution, the clocks of the cards.

  \<^bold>\<open>What the lemmas show.\<close>
    \<^item> The references are right: the digest of the padded message for every way of cutting it into
      updates.  The corpus holds, at the index the kernels compute, the word the reference reads.
    \<^item> Each kernel template, over any lane-wise operation set, any number of streams, groups, blocks
      and iterations, returns the checksum of the reference; each operation set is lane-wise.
    \<^item> The table: rows tile the batch, names are unique, nothing is executed a CPU does not have.
    \<^item> The pool: the results of a good run XOR to the reference in every repetition; every exit gives
      everything back, but for a CPU mask that could not be read or whose restore is refused, and the
      refusal is said; the threads stay in step, never deadlock and need a bounded number of steps.
    \<^item> The harness: a result marked verified was checked, and correct kernels are measured.  A failure
      with a reason is a pool that did not start; one without is a wrong digest or a kernel that was
      refused before it ran.
    \<^item> Devices: a context that was created has a launch its kernel can serve; the pipeline is a
      bounded queue whose passes fold every chunk exactly once; a measurement that returns 0 was
      checked, and which error a failed one reports is settled; the merged device list holds every
      device, one entry for each address both APIs know and never one for two devices without an
      address.
    \<^item> Device kernels: every spelling of a primitive is the same function, a launch on a created
      context leaves partials the host folds to the reference checksum of the context's slice, and the
      capacity probe ends with an answer the device can hold, but for the wrap-around of a difference.
    \<^item> The power meter: sources are well-formed, a counter that wrapped is unwrapped, a device several
      providers see at one address is summed once, and the sources whose energy hashes are divided by
      are, of those with an address, the ones of the run, each once, and those without an address when
      a card of the run has no source of its own; the range of clocks is a range and the throttle text
      reads back.
    \<^item> The composition: whatever the arguments, what the program reports with status 0 or 3 comes
      from an available kernel, is verified, and is the checksum of the batch; a failed measurement ends
      with 4 when it left a reason and with 1 when it left none, which includes kernels that were never
      run (\<open>never_runs\<close>).

  \<^bold>\<open>Loops and fuel.\<close>  No definition has fuel.  Loops with a bound of their own are structural or have a
  measure.  Loops that end only when a clock or a device says so are \<open>partial_function (option)\<close>, so
  that not ending is the value None: \<open>calib_loop\<close> (ends within 42 runs for every time target the
  command line accepts, \<open>calibration_ends\<close>), \<open>warm_up\<close> (ends on a clock that advances,
  \<open>correct_kernels_measured\<close>), \<open>tune_mult\<close> (at most the bound on the geometry, \<open>device_init_ends\<close>),
  \<open>dev_calib\<close> and \<open>dev_warm\<close> (theory Device_Live), \<open>sweep_groups\<close> of a work-item (stuck only when the launch
  is smaller than the lanes, \<open>sweep_stuck\<close>, which no created context has).  The capacity probe is a relation,
  bounded by \<open>probe_ends\<close>.

  \<^bold>\<open>Not modelled\<close>, and why.
    \<^item> src/sysinfo.c and src/report.c read strings out of /proc, /sys and DMI files and print them;
      nothing they compute enters a result.
    \<^item> The harness theories see the power meter through the events of its calls; which addresses the
      device path hands it is left out of those events.
    \<^item> src/opencl and src/cuda call drivers through tables of function pointers found by dlopen; what
      they promise to src/device/device.c is the record of backend calls.  include/vb_cl.h and
      include/vb_cuda.h declare those drivers.
    \<^item> What the driver's compiler makes of src/kernels/gpu: the definitions are those of the source, and
      the memory the device shares between work-items is ordered by the barriers as OpenCL and CUDA say.
    \<^item> shani.c and its template, whose instructions work on four steps of one message.
    \<^item> The text for people: usage, lists, progress and report lines; the brand string of the CPU and
      the Darwin branches of the feature detection.
    \<^item> tests, tools, docs and the build.
\<close>

end
